(* ===== verification/Prelude.thy ===== *)
theory Prelude
  imports Complex_Main "HOL-Library.Multiset" "HOL-Library.List_Lexorder" "HOL-Library.Char_ord"
begin

text \<open>
  Shared vocabulary of the development.

  \<^item> Type synonyms for the Go types every component uses: byte strings, instants and
    durations (both in nanoseconds, as \<open>time.Time\<close> and \<open>time.Duration\<close> count them), and
    the result of a call that returns an \<open>error\<close>.
  \<^item> Go maps read at a missing key: a lookup returns the zero value of the element type.
  \<^item> \<open>SliceStable\<close>, the contract of \<open>sort.SliceStable\<close>, and the order locales its callers
    rely on: \<open>strict_weak_order\<close> (a comparator a stable sort may be called with) and
    \<open>strict_linear_order\<close> (a comparator that leaves no ties).
\<close>

type_synonym instant = int
type_synonym duration = int
type_synonym 'a result = "string + 'a"

named_theorems go_simps \<open>unfolding rules for the modelled parts of the Go library\<close>
named_theorems map_simps \<open>lookups in Go maps\<close>


section \<open>Go maps\<close>

text \<open>\<open>m[k]\<close> on a Go map: the stored value, or the zero value \<open>z\<close> of the element type.\<close>

definition map_get :: "'v \<Rightarrow> ('k \<rightharpoonup> 'v) \<Rightarrow> 'k \<Rightarrow> 'v" where
  "map_get z m k = (case m k of None \<Rightarrow> z | Some v \<Rightarrow> v)"

lemma map_get_empty [simp, map_simps]: "map_get z Map.empty k = z"
  by (simp add: map_get_def)

lemma map_get_upd [simp, map_simps]: "map_get z (m(k \<mapsto> v)) k' = (if k' = k then v else map_get z m k')"
  by (simp add: map_get_def)

lemma map_get_del [simp, map_simps]: "map_get z (m(k := None)) k' = (if k' = k then z else map_get z m k')"
  by (simp add: map_get_def)


text \<open>An error check followed by the rest of the function, as \<open>if err != nil { return err }\<close>.\<close>

lemma first_error_None [simp]: "case_option rest Some check = None \<longleftrightarrow> check = None \<and> rest = None"
  by (cases check) auto

lemma if_error_None [simp]:
  "((if b then Some e else rest) = None) \<longleftrightarrow> \<not> b \<and> rest = None"
  by simp


section \<open>Lists\<close>

lemma find_Some_split:
  "find P xs = Some x \<Longrightarrow> \<exists>ys zs. xs = ys @ x # zs \<and> P x \<and> (\<forall>y\<in>set ys. \<not> P y)"
proof (induction xs)
  case (Cons a xs)
  show ?case
  proof (cases "P a")
    case True
    with Cons.prems show ?thesis by (intro exI [of _ "[]"] exI [of _ xs]) auto
  next
    case False
    with Cons obtain ys zs where "xs = ys @ x # zs" "P x" "\<forall>y\<in>set ys. \<not> P y" by auto
    with False have "a # xs = (a # ys) @ x # zs \<and> P x \<and> (\<forall>y\<in>set (a # ys). \<not> P y)" by simp
    then show ?thesis by blast
  qed
qed simp

lemma find_eq_hd_filter:
  "find P xs = (case filter P xs of [] \<Rightarrow> None | x # _ \<Rightarrow> Some x)"
  by (induction xs) auto

lemma find_filter: "find P xs = find P (filter P xs)"
  by (simp add: find_eq_hd_filter)

lemma find_filter_weaker:
  "(\<And>x. P x \<Longrightarrow> Q x) \<Longrightarrow> find P (filter Q xs) = find P xs"
  by (induction xs) auto

lemma find_append:
  "find P (xs @ ys) = (case find P xs of None \<Rightarrow> find P ys | Some x \<Rightarrow> Some x)"
  by (induction xs) auto

lemma find_Some_in: "find P xs = Some x \<Longrightarrow> x \<in> set xs \<and> P x"
  by (metis find_Some_split in_set_conv_decomp)


lemma find_ex: "x \<in> set xs \<Longrightarrow> P x \<Longrightarrow> \<exists>u. find P xs = Some u \<and> u \<in> set xs"
  by (induction xs) auto


section \<open>Comparators and stable sorting\<close>

text \<open>
  \<open>sort.SliceStable(xs, less)\<close> reorders \<open>xs\<close> so that no element precedes one that is less
  than it, and elements neither of which is less than the other keep their order. For a
  strict weak order that determines the result, which insertion from the right computes.
\<close>

fun insert_stable :: "('a \<Rightarrow> 'a \<Rightarrow> bool) \<Rightarrow> 'a \<Rightarrow> 'a list \<Rightarrow> 'a list" where
  "insert_stable lt x [] = [x]"
| "insert_stable lt x (y # ys) = (if lt y x then y # insert_stable lt x ys else x # y # ys)"

fun SliceStable :: "('a \<Rightarrow> 'a \<Rightarrow> bool) \<Rightarrow> 'a list \<Rightarrow> 'a list" where
  "SliceStable lt [] = []"
| "SliceStable lt (x # xs) = insert_stable lt x (SliceStable lt xs)"

lemma mset_insert_stable [simp]: "mset (insert_stable lt x xs) = add_mset x (mset xs)"
  by (induction xs) auto

lemma mset_SliceStable [simp]: "mset (SliceStable lt xs) = mset xs"
  by (induction xs) auto

lemma set_insert_stable [simp]: "set (insert_stable lt x xs) = insert x (set xs)"
  by (induction xs) auto

lemma set_SliceStable [simp]: "set (SliceStable lt xs) = set xs"
  by (induction xs) auto

lemma SliceStable_Nil_iff [simp]: "SliceStable lt xs = [] \<longleftrightarrow> xs = []"
  by (metis set_SliceStable set_empty)

text \<open>Sorting by a two-level order is sorting each level and concatenating.\<close>

lemma insert_stable_append_left:
  "(\<And>b. b \<in> set bs \<Longrightarrow> \<not> lt b x) \<Longrightarrow> insert_stable lt x (as @ bs) = insert_stable lt x as @ bs"
  by (induction as) (auto, cases bs, auto)

lemma insert_stable_append_right:
  "(\<And>a. a \<in> set as \<Longrightarrow> lt a x) \<Longrightarrow> insert_stable lt x (as @ bs) = as @ insert_stable lt x bs"
  by (induction as) auto

lemma insert_stable_cong:
  "(\<And>y. y \<in> set ys \<Longrightarrow> lt y x = lt' y x) \<Longrightarrow> insert_stable lt x ys = insert_stable lt' x ys"
  by (induction ys) auto

definition two_level :: "('a \<Rightarrow> bool) \<Rightarrow> ('a \<Rightarrow> 'a \<Rightarrow> bool) \<Rightarrow> 'a \<Rightarrow> 'a \<Rightarrow> bool" where
  "two_level P lt x y \<longleftrightarrow> (P x \<and> \<not> P y) \<or> (P x = P y \<and> lt x y)"

lemma SliceStable_two_level:
  "SliceStable (two_level P lt) xs =
    SliceStable lt (filter P xs) @ SliceStable lt (filter (\<lambda>x. \<not> P x) xs)"
proof (induction xs)
  case (Cons x xs)
  let ?A = "SliceStable lt (filter P xs)" and ?B = "SliceStable lt (filter (\<lambda>x. \<not> P x) xs)"
  show ?case
  proof (cases "P x")
    case True
    have "insert_stable (two_level P lt) x (?A @ ?B) = insert_stable (two_level P lt) x ?A @ ?B"
      by (rule insert_stable_append_left) (auto simp: two_level_def True)
    also have "insert_stable (two_level P lt) x ?A = insert_stable lt x ?A"
      by (rule insert_stable_cong) (auto simp: two_level_def True)
    finally show ?thesis using Cons True by simp
  next
    case False
    have "insert_stable (two_level P lt) x (?A @ ?B) = ?A @ insert_stable (two_level P lt) x ?B"
      by (rule insert_stable_append_right) (auto simp: two_level_def False)
    also have "insert_stable (two_level P lt) x ?B = insert_stable lt x ?B"
      by (rule insert_stable_cong) (auto simp: two_level_def False)
    finally show ?thesis using Cons False by simp
  qed
qed simp

text \<open>What a comparator must satisfy for a stable sort to mean anything.\<close>

locale strict_weak_order =
  fixes lt :: "'a \<Rightarrow> 'a \<Rightarrow> bool"
  assumes irreflexive: "\<not> lt x x"
    and asymmetric: "lt x y \<Longrightarrow> \<not> lt y x"
    and neg_transitive: "lt x z \<Longrightarrow> lt x y \<or> lt y z"
begin

lemma transitive: "lt x y \<Longrightarrow> lt y z \<Longrightarrow> lt x z"
  using asymmetric neg_transitive by blast

lemma not_less_trans: "\<not> lt y x \<Longrightarrow> \<not> lt z y \<Longrightarrow> \<not> lt z x"
  using neg_transitive by blast

abbreviation ties :: "'a \<Rightarrow> 'a \<Rightarrow> bool" where
  "ties x y \<equiv> \<not> lt x y \<and> \<not> lt y x"

lemma insert_stable_sorted:
  "sorted_wrt (\<lambda>x y. \<not> lt y x) xs \<Longrightarrow> sorted_wrt (\<lambda>x y. \<not> lt y x) (insert_stable lt x xs)"
  by (induction xs) (auto dest: asymmetric not_less_trans)

lemma SliceStable_sorted: "sorted_wrt (\<lambda>x y. \<not> lt y x) (SliceStable lt xs)"
  by (induction xs) (auto intro: insert_stable_sorted)

lemma insert_stable_head:
  "(\<And>y. y \<in> set ys \<Longrightarrow> \<not> lt y x) \<Longrightarrow> insert_stable lt x ys = x # ys"
  by (cases ys) auto

lemma filter_insert_stable:
  assumes "sorted_wrt (\<lambda>x y. \<not> lt y x) ys"
  shows "filter P (insert_stable lt x ys) =
    (if P x then insert_stable lt x (filter P ys) else filter P ys)"
  using assms
proof (induction ys)
  case (Cons y ys)
  show ?case
  proof (cases "lt y x")
    case True
    with Cons show ?thesis by auto
  next
    case False
    have "\<not> lt z x" if "z \<in> set (filter P (y # ys))" for z
      using that False Cons.prems not_less_trans [OF False, of z] by (auto split: if_splits)
    then have "insert_stable lt x (filter P (y # ys)) = x # filter P (y # ys)"
      by (rule insert_stable_head)
    with False show ?thesis by simp
  qed
qed simp

text \<open>Filtering commutes with stable sorting: what is left out of the sort never matters.\<close>

lemma filter_SliceStable: "filter P (SliceStable lt xs) = SliceStable lt (filter P xs)"
  by (induction xs) (auto simp: filter_insert_stable SliceStable_sorted)

lemma SliceStable_ties:
  "(\<And>x y. x \<in> set xs \<Longrightarrow> y \<in> set xs \<Longrightarrow> \<not> lt x y) \<Longrightarrow> SliceStable lt xs = xs"
  by (induction xs) (auto intro: insert_stable_head)

text \<open>Elements that tie with \<open>a\<close> keep the order of the input.\<close>

lemma SliceStable_stable: "filter (ties a) (SliceStable lt xs) = filter (ties a) xs"
proof -
  have "SliceStable lt (filter (ties a) xs) = filter (ties a) xs"
    by (rule SliceStable_ties) (auto dest: not_less_trans)
  then show ?thesis by (simp add: filter_SliceStable)
qed

text \<open>The first match in a sorted list is a least match of the input.\<close>

lemma find_SliceStable_least:
  assumes "find P (SliceStable lt xs) = Some x" and "y \<in> set xs" and "P y"
  shows "\<not> lt y x"
proof -
  obtain us vs where s: "SliceStable lt xs = us @ x # vs" and n: "\<forall>u\<in>set us. \<not> P u"
    using find_Some_split [OF assms(1)] by blast
  from assms(2) have "y \<in> set (us @ x # vs)" unfolding s [symmetric] by simp
  with n assms(3) have "y = x \<or> y \<in> set vs" by auto
  moreover have "\<forall>v\<in>set vs. \<not> lt v x"
    using SliceStable_sorted [of xs] unfolding s by (auto simp: sorted_wrt_append)
  ultimately show ?thesis using irreflexive by blast
qed

lemma find_SliceStable_first_tie:
  assumes "find P (SliceStable lt xs) = Some q"
  shows "find (\<lambda>x. P x \<and> ties q x) xs = Some q"
proof -
  have "hd (filter P (SliceStable lt xs)) = q" "filter P (SliceStable lt xs) \<noteq> []"
    using assms by (auto simp: find_eq_hd_filter split: list.splits)
  then obtain ys where ys: "filter P (SliceStable lt xs) = q # ys"
    by (cases "filter P (SliceStable lt xs)") auto
  have "filter (ties q) (filter P xs) = filter (ties q) (filter P (SliceStable lt xs))"
    using SliceStable_stable [of q "filter P xs"] by (simp only: filter_SliceStable)
  also have "\<dots> = q # filter (ties q) ys"
    using irreflexive by (simp add: ys)
  finally show ?thesis by (simp add: find_eq_hd_filter)
qed

text \<open>
  Searching a sorted list for the first match needs no sort to specify: it is the first
  match of the input that no other match is less than.
\<close>

lemma find_SliceStable:
  "find P (SliceStable lt xs) = find (\<lambda>x. P x \<and> (\<forall>y\<in>set xs. P y \<longrightarrow> \<not> lt y x)) xs"
proof (cases "find P (SliceStable lt xs)")
  case None
  then have "\<forall>x\<in>set xs. \<not> P x" by (auto simp: find_None_iff)
  then have "find (\<lambda>x. P x \<and> (\<forall>y\<in>set xs. P y \<longrightarrow> \<not> lt y x)) xs = None" by (auto simp: find_None_iff)
  with None show ?thesis by simp
next
  case (Some q)
  note least = find_SliceStable_least [OF Some]
  from find_Some_in [OF Some] have q: "q \<in> set xs" "P q" by auto
  have "(P x \<and> ties q x) = (P x \<and> (\<forall>y\<in>set xs. P y \<longrightarrow> \<not> lt y x))" if "x \<in> set xs" for x
    using that q least not_less_trans [of q x] by blast
  then have "find (\<lambda>x. P x \<and> ties q x) xs = find (\<lambda>x. P x \<and> (\<forall>y\<in>set xs. P y \<longrightarrow> \<not> lt y x)) xs"
    by (intro find_cong) auto
  with find_SliceStable_first_tie [OF Some] Some show ?thesis by simp
qed

end

lemma strict_weak_order_two_level:
  assumes "strict_weak_order lt"
  shows "strict_weak_order (two_level P lt)"
proof
  show "\<not> two_level P lt x x" for x
    using strict_weak_order.irreflexive [OF assms] by (simp add: two_level_def)
  show "\<not> two_level P lt y x" if "two_level P lt x y" for x y
    using that strict_weak_order.asymmetric [OF assms] by (auto simp: two_level_def)
  show "two_level P lt x y \<or> two_level P lt y z" if "two_level P lt x z" for x y z
    using that strict_weak_order.neg_transitive [OF assms] by (auto simp: two_level_def)
qed

text \<open>The loop that keeps the best element seen so far.\<close>

definition scanBest :: "('a \<Rightarrow> 'a \<Rightarrow> bool) \<Rightarrow> 'a \<Rightarrow> 'a list \<Rightarrow> 'a" where
  "scanBest lt = foldl (\<lambda>best x. if lt x best then x else best)"

lemma scanBest_simps [simp]:
  "scanBest lt b [] = b"
  "scanBest lt b (x # xs) = scanBest lt (if lt x b then x else b) xs"
  by (simp_all add: scanBest_def)

lemma scanBest_in: "scanBest lt b xs \<in> insert b (set xs)"
proof (induction xs arbitrary: b)
  case (Cons x xs)
  from this [of "if lt x b then x else b"] show ?case by (auto split: if_splits)
qed simp

context strict_weak_order
begin

lemma scanBest_least: "y \<in> insert b (set xs) \<Longrightarrow> \<not> lt y (scanBest lt b xs)"
proof (induction xs arbitrary: b y)
  case Nil
  then show ?case by (simp add: irreflexive)
next
  case (Cons x xs)
  let ?b = "if lt x b then x else b"
  have IH: "\<not> lt ?b (scanBest lt ?b xs)" by (rule Cons.IH) simp
  have "\<not> lt b ?b" "\<not> lt x ?b" using irreflexive asymmetric by auto
  then have "\<not> lt b (scanBest lt ?b xs)" "\<not> lt x (scanBest lt ?b xs)"
    using IH not_less_trans by blast+
  moreover have "\<not> lt y (scanBest lt ?b xs)" if "y \<in> set xs" using Cons.IH that by simp
  ultimately show ?case using Cons.prems by auto
qed

end

text \<open>A comparator with no ties: the least element of a list does not depend on its order.\<close>

locale strict_linear_order = strict_weak_order +
  assumes total: "x \<noteq> y \<Longrightarrow> lt x y \<or> lt y x"
begin

lemma least_unique:
  "x \<in> S \<Longrightarrow> y \<in> S \<Longrightarrow> \<forall>z\<in>S. \<not> lt z x \<Longrightarrow> \<forall>z\<in>S. \<not> lt z y \<Longrightarrow> x = y"
  using total by blast

lemma scanBest_set:
  assumes "insert b (set xs) = insert c (set ys)"
  shows "scanBest lt b xs = scanBest lt c ys"
  using least_unique [of _ "insert b (set xs)"] scanBest_in [of lt b xs] scanBest_in [of lt c ys]
    scanBest_least [of _ b xs] scanBest_least [of _ c ys] assms by metis

end

end
