(* ===== verification/Routing.thy ===== *)
theory Routing
  imports Prelude
begin

text \<open>
  The LLM gateway's routing package (\<open>llm/gateway/routing\<close>): rule and decision types
  (types.go), the rule engine (engine.go), the platform tier aliases (tiers.go), rule-set
  validation (validate.go), the hot-reloaded rule store (store.go) and the part of the
  config-file loader (load.go) that follows JSON decoding.

  \<open>Target\<close> embeds \<open>Endpoint\<close> in Go; here the record \<open>Target\<close> extends the record \<open>Endpoint\<close>,
  so the promoted fields keep their names. An engine's \<open>byTenant\<close> map of slices is a total
  function, the empty list standing for a missing key as Go's nil slice does. Error values
  carry the constructor of the message the code formats.
\<close>

section \<open>Types\<close>

datatype Reason =
  ReasonPassthrough | ReasonAlias | ReasonTier | ReasonFallback | ReasonLoadBalance
| ReasonBlocked | ReasonSubstitute | ReasonDeprecated

definition AffinitySingle :: string where "AffinitySingle = ''single''"
definition AffinityPrefixHash :: string where "AffinityPrefixHash = ''prefix_hash''"

record Match =
  match_Provider :: string
  match_Model :: string
  match_UserID :: string

record Endpoint =
  ep_Provider :: string
  ep_Model :: string
  ep_KeyRef :: string
  ep_Weight :: int

record Target = Endpoint +
  tgt_Fallbacks :: "Endpoint list"
  tgt_Affinity :: string
  tgt_Deny :: bool
  tgt_Deprecated :: bool

record Rule =
  rule_ID :: string
  rule_TenantID :: string
  rule_Priority :: int
  rule_Enabled :: bool
  rule_Match :: Match
  rule_Target :: Target

record Decision =
  RequestedProvider :: string
  RequestedModel :: string
  ResolvedProvider :: string
  ResolvedModel :: string
  RuleID :: string
  dec_Reason :: Reason
  dec_Fallbacks :: "Endpoint list"
  Strategy :: string
  Denied :: bool

record Input =
  in_Provider :: string
  in_Model :: string
  in_TenantID :: string
  in_UserID :: string


section \<open>The engine\<close>

record Engine =
  byTenant :: "string \<Rightarrow> Rule list"
  global :: "Rule list"

definition matches :: "Match \<Rightarrow> Input \<Rightarrow> bool" where
  "matches m inp =
     (if match_Provider m \<noteq> '''' \<and> match_Provider m \<noteq> in_Provider inp then False
      else if match_Model m \<noteq> '''' \<and> match_Model m \<noteq> in_Model inp then False
      else if match_UserID m \<noteq> '''' \<and> match_UserID m \<noteq> in_UserID inp then False
      else True)"

definition byPriority :: "Rule \<Rightarrow> Rule \<Rightarrow> bool" where
  "byPriority ri rj =
     (if rule_Priority ri \<noteq> rule_Priority rj then rule_Priority ri < rule_Priority rj
      else tgt_Deny (rule_Target ri) \<and> \<not> tgt_Deny (rule_Target rj))"

text \<open>One iteration of \<open>NewEngine\<close>'s grouping loop, the loop, and the sorting that follows it.\<close>

definition addRule :: "Engine \<Rightarrow> Rule \<Rightarrow> Engine" where
  "addRule e r =
     (if \<not> rule_Enabled r then e
      else if rule_TenantID r = '''' then e\<lparr>global := global e @ [r]\<rparr>
      else e\<lparr>byTenant := (byTenant e)(rule_TenantID r := byTenant e (rule_TenantID r) @ [r])\<rparr>)"

definition emptyEngine :: Engine where
  "emptyEngine = \<lparr>byTenant = (\<lambda>_. []), global = []\<rparr>"

definition NewEngine :: "Rule list \<Rightarrow> Engine" where
  "NewEngine rules =
     (let e = foldl addRule emptyEngine rules
      in e\<lparr>global := SliceStable byPriority (global e),
           byTenant := (\<lambda>t. SliceStable byPriority (byTenant e t))\<rparr>)"

definition candidates :: "Engine \<Rightarrow> string \<Rightarrow> Rule list" where
  "candidates e tenantID =
     (let tenant = byTenant e tenantID
      in if tenant = [] then global e else tenant @ global e)"

definition passthrough :: "Input \<Rightarrow> Decision" where
  "passthrough inp =
     \<lparr>RequestedProvider = in_Provider inp, RequestedModel = in_Model inp,
      ResolvedProvider = in_Provider inp, ResolvedModel = in_Model inp,
      RuleID = '''', dec_Reason = ReasonPassthrough, dec_Fallbacks = [], Strategy = '''',
      Denied = False\<rparr>"

text \<open>The body of \<open>Resolve\<close>'s loop for a matching rule: it fills in the decision and returns it.\<close>

definition applyRule :: "Decision \<Rightarrow> Rule \<Rightarrow> Decision" where
  "applyRule d0 r =
     (let t = rule_Target r; d = d0\<lparr>RuleID := rule_ID r\<rparr>
      in if tgt_Deny t
         then d\<lparr>dec_Reason := ReasonBlocked, Denied := True, ResolvedModel := ep_Model t\<rparr>
         else
           let d = (if ep_Model t \<noteq> '''' then d\<lparr>ResolvedModel := ep_Model t\<rparr> else d);
               d = (if ep_Provider t \<noteq> '''' then d\<lparr>ResolvedProvider := ep_Provider t\<rparr> else d);
               d = d\<lparr>dec_Fallbacks := tgt_Fallbacks t, Strategy := tgt_Affinity t\<rparr>
           in d\<lparr>dec_Reason :=
                 (if ResolvedProvider d \<noteq> RequestedProvider d then ReasonSubstitute
                  else if tgt_Deprecated t \<and> ResolvedModel d \<noteq> RequestedModel d
                    then ReasonDeprecated
                  else if ResolvedModel d \<noteq> RequestedModel d then ReasonAlias
                  else ReasonLoadBalance)\<rparr>)"

fun resolveLoop :: "Decision \<Rightarrow> Input \<Rightarrow> Rule list \<Rightarrow> Decision" where
  "resolveLoop d inp [] = d"
| "resolveLoop d inp (r # rs) =
     (if \<not> matches (rule_Match r) inp then resolveLoop d inp rs else applyRule d r)"

text \<open>\<open>Resolve\<close> accepts a nil engine, which is \<open>None\<close>.\<close>

definition Resolve :: "Engine option \<Rightarrow> Input \<Rightarrow> Decision" where
  "Resolve eo inp =
     (case eo of
        None \<Rightarrow> passthrough inp
      | Some e \<Rightarrow> resolveLoop (passthrough inp) inp (candidates e (in_TenantID inp)))"


section \<open>Tier aliases\<close>

definition TierFast :: string where "TierFast = ''nb-fast''"
definition TierCheap :: string where "TierCheap = ''nb-cheap''"
definition TierSmart :: string where "TierSmart = ''nb-smart''"

definition defaultTierPriority :: int where "defaultTierPriority = 1000"

record TierDef =
  tier_Alias :: string
  tier_Description :: string
  tier_Provider :: string
  tier_Model :: string

text \<open>The descriptions' dashes are not ASCII in the source; they are spelled with a hyphen.\<close>

definition TierCatalog :: "TierDef list" where
  "TierCatalog =
     [\<lparr>tier_Alias = TierFast, tier_Description = ''Low-latency, cheap - light/interactive work'',
       tier_Provider = ''gemini'', tier_Model = ''gemini-3.6-flash''\<rparr>,
      \<lparr>tier_Alias = TierCheap, tier_Description = ''Cheapest - bulk/background work'',
       tier_Provider = ''gemini'', tier_Model = ''gemini-3.5-flash-lite''\<rparr>,
      \<lparr>tier_Alias = TierSmart, tier_Description = ''Highest quality - hard reasoning'',
       tier_Provider = ''anthropic'', tier_Model = ''claude-opus-4-8''\<rparr>]"

definition IsTierAlias :: "string \<Rightarrow> bool" where
  "IsTierAlias model = list_ex (\<lambda>t. tier_Alias t = model) TierCatalog"

definition StripTierAliasRules :: "Rule list \<Rightarrow> Rule list" where
  "StripTierAliasRules rules = filter (\<lambda>r. \<not> IsTierAlias (match_Model (rule_Match r))) rules"

definition tierRule :: "TierDef \<Rightarrow> Rule" where
  "tierRule t =
     \<lparr>rule_ID = ''nb-tier-'' @ tier_Alias t, rule_TenantID = '''',
      rule_Priority = defaultTierPriority, rule_Enabled = True,
      rule_Match = \<lparr>match_Provider = '''', match_Model = tier_Alias t, match_UserID = ''''\<rparr>,
      rule_Target = \<lparr>ep_Provider = tier_Provider t, ep_Model = tier_Model t, ep_KeyRef = '''',
        ep_Weight = 0, tgt_Fallbacks = [], tgt_Affinity = '''', tgt_Deny = False,
        tgt_Deprecated = False\<rparr>\<rparr>"

definition DefaultTierRules :: "Rule list" where
  "DefaultTierRules = map tierRule TierCatalog"


text \<open>
  The rule sets \<open>cmd/gateway/main.go\<close> hands to \<open>NewStore\<close>: with tiering on, the defaults go
  after the config file's rules; with tiering off, tier rules are stripped from the file's
  rules and from every answer of the DB loader.
\<close>

definition gatewayStatic :: "bool \<Rightarrow> Rule list \<Rightarrow> Rule list" where
  "gatewayStatic tiersEnabled staticRules =
     (if tiersEnabled then staticRules @ DefaultTierRules else StripTierAliasRules staticRules)"

definition gatewayLoad :: "bool \<Rightarrow> Rule list result \<Rightarrow> Rule list result" where
  "gatewayLoad tiersEnabled answer =
     (if \<not> tiersEnabled
      then case answer of Inl err \<Rightarrow> Inl err | Inr rules \<Rightarrow> Inr (StripTierAliasRules rules)
      else answer)"


section \<open>Validation\<close>

datatype ValidateError =
  IdRequired nat
| DuplicateId string
| UnknownMatchProvider string string
| InvalidAffinity string string
| UnknownProvider string string string
| CrossProviderNeedsModel string string
| DeprecationNeedsModel string
| RuleDoesNothing string

definition knownMatchProviders :: "string list" where
  "knownMatchProviders = [''anthropic'', ''openai'', ''gemini'', ''vllm'', ''vertex'', ''bedrock'']"

definition knownProviders :: "string list" where
  "knownProviders = [''anthropic'', ''openai'', ''gemini'']"

definition knownProviderOrEmpty :: "string \<Rightarrow> string \<Rightarrow> string \<Rightarrow> ValidateError option" where
  "knownProviderOrEmpty ruleID kind provider =
     (if provider = '''' then None
      else if provider \<notin> set knownProviders then Some (UnknownProvider ruleID kind provider)
      else None)"

fun validateFallbacks :: "string \<Rightarrow> Endpoint list \<Rightarrow> ValidateError option" where
  "validateFallbacks ruleID [] = None"
| "validateFallbacks ruleID (fb # fbs) =
     (case knownProviderOrEmpty ruleID ''fallback'' (ep_Provider fb) of
        Some err \<Rightarrow> Some err
      | None \<Rightarrow> validateFallbacks ruleID fbs)"

text \<open>The checks of one iteration of \<open>Validate\<close> that follow the id checks.\<close>

definition validateRule :: "Rule \<Rightarrow> ValidateError option" where
  "validateRule r =
     (let t = rule_Target r; m = rule_Match r
      in if match_Provider m \<noteq> '''' \<and> match_Provider m \<notin> set knownMatchProviders
           then Some (UnknownMatchProvider (rule_ID r) (match_Provider m))
         else if tgt_Affinity t \<noteq> '''' \<and> tgt_Affinity t \<noteq> AffinitySingle
                 \<and> tgt_Affinity t \<noteq> AffinityPrefixHash
           then Some (InvalidAffinity (rule_ID r) (tgt_Affinity t))
         else case knownProviderOrEmpty (rule_ID r) ''target'' (ep_Provider t) of
             Some err \<Rightarrow> Some err
           | None \<Rightarrow>
         (case validateFallbacks (rule_ID r) (tgt_Fallbacks t) of
             Some err \<Rightarrow> Some err
           | None \<Rightarrow>
             if \<not> tgt_Deny t \<and> ep_Provider t \<noteq> '''' \<and> ep_Provider t \<noteq> match_Provider m
                  \<and> ep_Model t = ''''
               then Some (CrossProviderNeedsModel (rule_ID r) (ep_Provider t))
             else if \<not> tgt_Deny t \<and> tgt_Deprecated t \<and> ep_Model t = ''''
               then Some (DeprecationNeedsModel (rule_ID r))
             else None))"

fun validateLoop :: "string set \<Rightarrow> nat \<Rightarrow> Rule list \<Rightarrow> ValidateError option" where
  "validateLoop seen i [] = None"
| "validateLoop seen i (r # rs) =
     (if rule_ID r = '''' then Some (IdRequired i)
      else if rule_ID r \<in> seen then Some (DuplicateId (rule_ID r))
      else case validateRule r of
        Some err \<Rightarrow> Some err
      | None \<Rightarrow> validateLoop (insert (rule_ID r) seen) (Suc i) rs)"

definition Validate :: "Rule list \<Rightarrow> ValidateError option" where
  "Validate rules = validateLoop {} 0 rules"

definition changesEndpoint :: "Endpoint \<Rightarrow> string \<Rightarrow> bool" where
  "changesEndpoint e matchProvider \<longleftrightarrow>
     ep_Model e \<noteq> '''' \<or> ep_KeyRef e \<noteq> '''' \<or> (ep_Provider e \<noteq> '''' \<and> ep_Provider e \<noteq> matchProvider)"

definition hasEffect :: "Target \<Rightarrow> string \<Rightarrow> bool" where
  "hasEffect t matchProvider =
     (if tgt_Deny t \<or> changesEndpoint (Endpoint.truncate t) matchProvider then True
      else list_ex (\<lambda>fb. changesEndpoint fb '''') (tgt_Fallbacks t))"

definition ValidateForSave :: "Rule \<Rightarrow> ValidateError option" where
  "ValidateForSave r =
     (case Validate [r] of
        Some err \<Rightarrow> Some err
      | None \<Rightarrow> if \<not> hasEffect (rule_Target r) (match_Provider (rule_Match r))
                 then Some (RuleDoesNothing (rule_ID r)) else None)"


section \<open>The rule store\<close>

text \<open>
  \<open>load\<close> is \<open>None\<close> for a nil loader; each call of a loader yields \<open>Inl\<close> of an error or \<open>Inr\<close>
  of the rules read, so a refresh is a step that takes the loader's answer as its argument.
\<close>

record Store =
  st_static :: "Rule list"
  st_hasLoader :: bool
  st_cur :: "Engine option"

definition rebuild :: "Rule list result \<Rightarrow> Store \<Rightarrow> Store" where
  "rebuild answer s =
     (if st_hasLoader s
      then case answer of
          Inl err \<Rightarrow>
            (if st_cur s \<noteq> None then s
             else s\<lparr>st_cur := Some (NewEngine ([] @ st_static s))\<rparr>)
        | Inr dbRules \<Rightarrow> s\<lparr>st_cur := Some (NewEngine (([] @ dbRules) @ st_static s))\<rparr>
      else s\<lparr>st_cur := Some (NewEngine ([] @ st_static s))\<rparr>)"

definition NewStore :: "Rule list \<Rightarrow> bool \<Rightarrow> Rule list result \<Rightarrow> Store" where
  "NewStore static hasLoader answer =
     rebuild answer \<lparr>st_static = static, st_hasLoader = hasLoader, st_cur = None\<rparr>"

definition Store_Resolve :: "Store \<Rightarrow> Input \<Rightarrow> Decision" where
  "Store_Resolve s inp =
     (case st_cur s of Some e \<Rightarrow> Resolve (Some e) inp | None \<Rightarrow> Resolve None inp)"

text \<open>\<open>refreshLoop\<close>: one rebuild per tick, with the loader's answer at that tick.\<close>

fun refreshLoop :: "Rule list result list \<Rightarrow> Store \<Rightarrow> Store" where
  "refreshLoop [] s = s"
| "refreshLoop (a # as) s = refreshLoop as (rebuild a s)"


section \<open>The config file\<close>

text \<open>
  \<open>LoadFile\<close> after the outer document is decoded: every raw rule is decoded over a rule that
  is enabled by default, the first failure stops the load, and the decoded set is validated.
  \<open>decode\<close> is the JSON decoder's action on one raw rule.
\<close>

datatype LoadError = ParseRule nat | Invalid ValidateError

definition zeroRule :: Rule where
  "zeroRule =
     \<lparr>rule_ID = '''', rule_TenantID = '''', rule_Priority = 0, rule_Enabled = False,
      rule_Match = \<lparr>match_Provider = '''', match_Model = '''', match_UserID = ''''\<rparr>,
      rule_Target = \<lparr>ep_Provider = '''', ep_Model = '''', ep_KeyRef = '''', ep_Weight = 0,
        tgt_Fallbacks = [], tgt_Affinity = '''', tgt_Deny = False, tgt_Deprecated = False\<rparr>\<rparr>"

fun decodeRules :: "('raw \<Rightarrow> Rule \<Rightarrow> Rule option) \<Rightarrow> nat \<Rightarrow> 'raw list \<Rightarrow> LoadError + Rule list" where
  "decodeRules decode i [] = Inr []"
| "decodeRules decode i (rm # rms) =
     (case decode rm (zeroRule\<lparr>rule_Enabled := True\<rparr>) of
        None \<Rightarrow> Inl (ParseRule i)
      | Some r \<Rightarrow> (case decodeRules decode (Suc i) rms of Inl e \<Rightarrow> Inl e | Inr rs \<Rightarrow> Inr (r # rs)))"

definition LoadFile :: "('raw \<Rightarrow> Rule \<Rightarrow> Rule option) \<Rightarrow> 'raw list \<Rightarrow> LoadError + Rule list" where
  "LoadFile decode raws =
     (case decodeRules decode 0 raws of
        Inl e \<Rightarrow> Inl e
      | Inr rules \<Rightarrow> (case Validate rules of Some err \<Rightarrow> Inl (Invalid err) | None \<Rightarrow> Inr rules))"

section \<open>The routing policy\<close>

text \<open>
  What the engine promises, without its grouping by tenant and its two sorts: among the
  applicable rules (enabled, of the caller's tenant or global, matching), the one that comes
  first when tenant rules go before global ones, then lower priority, then deny, then input
  order.
\<close>

definition applicable :: "Input \<Rightarrow> Rule \<Rightarrow> bool" where
  "applicable inp r \<longleftrightarrow> rule_Enabled r \<and> (rule_TenantID r = '''' \<or> rule_TenantID r = in_TenantID inp)
     \<and> matches (rule_Match r) inp"

definition outranks_rule :: "Rule \<Rightarrow> Rule \<Rightarrow> bool" where
  "outranks_rule r r' \<longleftrightarrow>
     (rule_TenantID r \<noteq> '''' \<and> rule_TenantID r' = '''')
     \<or> ((rule_TenantID r = '''') = (rule_TenantID r' = '''')
        \<and> (rule_Priority r < rule_Priority r'
           \<or> rule_Priority r = rule_Priority r' \<and> tgt_Deny (rule_Target r) \<and> \<not> tgt_Deny (rule_Target r')))"

definition policy :: "Rule list \<Rightarrow> Input \<Rightarrow> Rule option" where
  "policy rules inp =
     find (\<lambda>r. applicable inp r \<and> (\<forall>r'\<in>set rules. applicable inp r' \<longrightarrow> \<not> outranks_rule r' r)) rules"

definition policyDecision :: "Rule list \<Rightarrow> Input \<Rightarrow> Decision" where
  "policyDecision rules inp =
     (case policy rules inp of None \<Rightarrow> passthrough inp | Some r \<Rightarrow> applyRule (passthrough inp) r)"

interpretation prio: strict_weak_order byPriority
  by unfold_locales (auto simp: byPriority_def split: if_splits)

lemma outranks_rule_two_level: "outranks_rule = two_level (\<lambda>r. rule_TenantID r \<noteq> '''') byPriority"
  by (intro ext) (auto simp: outranks_rule_def two_level_def byPriority_def)

interpretation rank: strict_weak_order outranks_rule
  unfolding outranks_rule_two_level
  by (rule strict_weak_order_two_level) (rule prio.strict_weak_order_axioms)

lemma policy_find: "policy rules inp = find (applicable inp) (SliceStable outranks_rule rules)"
  by (simp add: policy_def rank.find_SliceStable)

lemma policy_least:
  "policy rules inp = Some r \<Longrightarrow>
    r \<in> set rules \<and> applicable inp r \<and> (\<forall>r'\<in>set rules. applicable inp r' \<longrightarrow> \<not> outranks_rule r' r)"
  unfolding policy_def by (drule find_Some_in) auto

lemma policy_None: "policy rules inp = None \<longleftrightarrow> (\<forall>r\<in>set rules. \<not> applicable inp r)"
  by (auto simp: policy_find find_None_iff)

lemma policy_relevant:
  assumes "\<And>r. applicable inp r \<Longrightarrow> Q r"
  shows "policy (filter Q rules) inp = policy rules inp"
proof -
  have "filter (applicable inp) (filter Q rules) = filter (applicable inp) rules"
    using assms by (auto intro: filter_cong)
  then show ?thesis by (simp add: policy_find find_eq_hd_filter rank.filter_SliceStable)
qed

text \<open>Rules listed earlier win ties: an applicable rule of \<open>as\<close> that no rule of \<open>bs\<close> outranks.\<close>

lemma policy_earlier:
  assumes "r \<in> set as" "applicable inp r" "\<And>q. q \<in> set bs \<Longrightarrow> applicable inp q \<Longrightarrow> \<not> outranks_rule q r"
  shows "\<exists>p\<in>set as. policy (as @ bs) inp = Some p"
proof -
  have "policy (as @ bs) inp \<noteq> None"
    unfolding policy_None using assms(1,2) by auto
  then obtain p where p: "policy (as @ bs) inp = Some p" by blast
  note l = policy_least [OF p]
  have "p \<in> set as"
  proof (rule ccontr)
    assume n: "p \<notin> set as"
    with l have "p \<in> set bs" "applicable inp p" by auto
    then have "\<not> outranks_rule p r" by (rule assms(3))
    moreover have "\<not> outranks_rule r p" using l assms(1,2) by auto
    ultimately have tie: "rank.ties p r" by blast
    from p have "find (\<lambda>x. applicable inp x \<and> rank.ties p x) (as @ bs) = Some p"
      unfolding policy_find by (rule rank.find_SliceStable_first_tie)
    moreover obtain u where "find (\<lambda>x. applicable inp x \<and> rank.ties p x) as = Some u" "u \<in> set as"
      using find_ex [OF assms(1), of "\<lambda>x. applicable inp x \<and> rank.ties p x"] assms(2) tie by blast
    ultimately show False using n by (simp add: find_append)
  qed
  with p show ?thesis by blast
qed

text \<open>Grouping and sorting per tenant implements the policy.\<close>

lemma global_foldl_addRule:
  "global (foldl addRule e rs) = global e @ filter (\<lambda>r. rule_Enabled r \<and> rule_TenantID r = '''') rs"
  by (induction rs arbitrary: e) (auto simp: addRule_def)

lemma byTenant_foldl_addRule:
  "byTenant (foldl addRule e rs) t =
    byTenant e t @ filter (\<lambda>r. rule_Enabled r \<and> rule_TenantID r \<noteq> '''' \<and> rule_TenantID r = t) rs"
  by (induction rs arbitrary: e) (auto simp: addRule_def)

lemma candidates_NewEngine:
  "candidates (NewEngine rules) t =
    SliceStable byPriority
      (filter (\<lambda>r. rule_Enabled r \<and> rule_TenantID r \<noteq> '''' \<and> rule_TenantID r = t) rules)
    @ SliceStable byPriority (filter (\<lambda>r. rule_Enabled r \<and> rule_TenantID r = '''') rules)"
  by (simp add: candidates_def NewEngine_def Let_def emptyEngine_def global_foldl_addRule
      byTenant_foldl_addRule)

lemma resolveLoop_find:
  "resolveLoop d inp rs =
    (case find (\<lambda>r. matches (rule_Match r) inp) rs of None \<Rightarrow> d | Some r \<Rightarrow> applyRule d r)"
  by (induction rs) auto

lemma candidates_policy:
  "find (\<lambda>r. matches (rule_Match r) inp) (candidates (NewEngine rules) (in_TenantID inp)) =
    policy rules inp"
proof -
  let ?t = "in_TenantID inp"
  let ?S = "filter (\<lambda>r. rule_Enabled r \<and> (rule_TenantID r = '''' \<or> rule_TenantID r = ?t)) rules"
  have "candidates (NewEngine rules) ?t = SliceStable outranks_rule ?S"
    unfolding candidates_NewEngine outranks_rule_two_level SliceStable_two_level filter_filter
    by (intro arg_cong2 [where f = "(@)"] arg_cong [where f = "SliceStable byPriority"]
        filter_cong) auto
  moreover have "find (\<lambda>r. matches (rule_Match r) inp) (SliceStable outranks_rule ?S) =
      find (applicable inp) (SliceStable outranks_rule rules)"
    by (simp add: find_eq_hd_filter rank.filter_SliceStable applicable_def [abs_def] conj_ac)
  ultimately show ?thesis by (simp add: policy_find)
qed

lemma Resolve_NewEngine: "Resolve (Some (NewEngine rules)) inp = policyDecision rules inp"
  by (simp add: Resolve_def resolveLoop_find candidates_policy policyDecision_def)

section \<open>The Resolver interface\<close>

text \<open>
  \<open>Resolver\<close> (store.go) is what the proxy calls; an engine and a store both provide it. Its
  contract is the policy over the rules in force, and everything the proxy relies on is a
  consequence of the contract alone.
\<close>

lemma applyRule_simps [simp]:
  "RequestedProvider (applyRule d r) = RequestedProvider d"
  "RequestedModel (applyRule d r) = RequestedModel d"
  "RuleID (applyRule d r) = rule_ID r"
  "Denied (applyRule d r) = (tgt_Deny (rule_Target r) \<or> Denied d)"
  by (simp_all add: applyRule_def Let_def)

lemma passthrough_simps [simp]:
  "RequestedProvider (passthrough inp) = in_Provider inp"
  "RequestedModel (passthrough inp) = in_Model inp"
  "ResolvedProvider (passthrough inp) = in_Provider inp"
  "ResolvedModel (passthrough inp) = in_Model inp"
  "RuleID (passthrough inp) = ''''"
  "dec_Reason (passthrough inp) = ReasonPassthrough"
  "dec_Fallbacks (passthrough inp) = []"
  "Denied (passthrough inp) = False"
  by (simp_all add: passthrough_def)

text \<open>The outcome of a rule that routes (does not deny) from the passthrough decision.\<close>

lemma applyRule_route:
  assumes "\<not> tgt_Deny (rule_Target r)"
  shows "ResolvedProvider (applyRule (passthrough inp) r) =
      (if ep_Provider (rule_Target r) = '''' then in_Provider inp else ep_Provider (rule_Target r))"
    and "ResolvedModel (applyRule (passthrough inp) r) =
      (if ep_Model (rule_Target r) = '''' then in_Model inp else ep_Model (rule_Target r))"
    and "dec_Fallbacks (applyRule (passthrough inp) r) = tgt_Fallbacks (rule_Target r)"
  using assms by (simp_all add: applyRule_def Let_def)

lemma applyRule_deny:
  assumes "tgt_Deny (rule_Target r)"
  shows "dec_Reason (applyRule d r) = ReasonBlocked"
    and "ResolvedModel (applyRule d r) = ep_Model (rule_Target r)"
    and "ResolvedProvider (applyRule d r) = ResolvedProvider d"
  using assms by (simp_all add: applyRule_def Let_def)

text \<open>The reason field says exactly how the decision differs from the request.\<close>

definition reason_ok :: "Decision \<Rightarrow> bool" where
  "reason_ok d \<longleftrightarrow>
     (case dec_Reason d of
        ReasonPassthrough \<Rightarrow> \<not> Denied d \<and> ResolvedProvider d = RequestedProvider d
          \<and> ResolvedModel d = RequestedModel d \<and> RuleID d = '''' \<and> dec_Fallbacks d = []
      | ReasonBlocked \<Rightarrow> Denied d
      | ReasonSubstitute \<Rightarrow> \<not> Denied d \<and> ResolvedProvider d \<noteq> RequestedProvider d
      | ReasonDeprecated \<Rightarrow> \<not> Denied d \<and> ResolvedProvider d = RequestedProvider d
          \<and> ResolvedModel d \<noteq> RequestedModel d
      | ReasonAlias \<Rightarrow> \<not> Denied d \<and> ResolvedProvider d = RequestedProvider d
          \<and> ResolvedModel d \<noteq> RequestedModel d
      | ReasonLoadBalance \<Rightarrow> \<not> Denied d \<and> ResolvedProvider d = RequestedProvider d
          \<and> ResolvedModel d = RequestedModel d
      | ReasonTier \<Rightarrow> False
      | ReasonFallback \<Rightarrow> False)"

lemma reason_ok_passthrough: "reason_ok (passthrough inp)"
  by (simp add: reason_ok_def)

lemma reason_ok_applyRule: "reason_ok (applyRule (passthrough inp) r)"
  by (simp add: reason_ok_def applyRule_def Let_def)

locale resolver =
  fixes resolve :: "Input \<Rightarrow> Decision" and rules :: "Rule list"
  assumes resolve_policy: "resolve inp = policyDecision rules inp"
begin

lemma resolve_cases:
  obtains (none) "\<forall>r\<in>set rules. \<not> applicable inp r" "resolve inp = passthrough inp"
  | (rule) r where "r \<in> set rules" "applicable inp r"
      "\<forall>r'\<in>set rules. applicable inp r' \<longrightarrow> \<not> outranks_rule r' r"
      "resolve inp = applyRule (passthrough inp) r"
proof (cases "policy rules inp")
  case None
  show ?thesis
    by (rule none) (use None policy_None [of rules inp] in \<open>simp_all add: resolve_policy policyDecision_def\<close>)
next
  case (Some r)
  show ?thesis
    by (rule rule) (use Some policy_least [OF Some] in \<open>auto simp: resolve_policy policyDecision_def\<close>)
qed

lemma reasons: "reason_ok (resolve inp)"
  by (rule resolve_cases [of inp]) (auto simp: reason_ok_passthrough reason_ok_applyRule)

lemma requested: "RequestedProvider (resolve inp) = in_Provider inp \<and> RequestedModel (resolve inp) = in_Model inp"
  by (rule resolve_cases [of inp]) auto

lemma relevant: "(\<And>r. applicable inp r \<Longrightarrow> Q r) \<Longrightarrow> resolve inp = policyDecision (filter Q rules) inp"
  by (simp add: resolve_policy policyDecision_def policy_relevant)

lemma deny_wins:
  assumes "r \<in> set rules" "applicable inp r" "tgt_Deny (rule_Target r)"
    and "\<And>r'. r' \<in> set rules \<Longrightarrow> applicable inp r' \<Longrightarrow> \<not> tgt_Deny (rule_Target r') \<Longrightarrow>
      \<not> (rule_TenantID r' \<noteq> '''' \<and> rule_TenantID r = '''')
      \<and> ((rule_TenantID r' = '''') = (rule_TenantID r = '''') \<longrightarrow> rule_Priority r \<le> rule_Priority r')"
  shows "Denied (resolve inp) \<and> dec_Reason (resolve inp) = ReasonBlocked"
proof (cases inp rule: resolve_cases)
  case none
  with assms(1,2) show ?thesis by blast
next
  case (rule q)
  have "tgt_Deny (rule_Target q)"
  proof (rule ccontr)
    assume q: "\<not> tgt_Deny (rule_Target q)"
    from rule(3) assms(1,2) have "\<not> outranks_rule r q" by blast
    moreover from assms(4) [OF rule(1,2) q] have "outranks_rule r q"
      using q assms(3) by (auto simp: outranks_rule_def)
    ultimately show False by blast
  qed
  with rule(4) show ?thesis by (simp add: applyRule_deny)
qed

end

section \<open>Validated rule sets\<close>

lemma knownProviderOrEmpty_None:
  "knownProviderOrEmpty i k p = None \<longleftrightarrow> p = '''' \<or> p \<in> set knownProviders"
  by (simp add: knownProviderOrEmpty_def)

lemma validateFallbacks_None:
  "validateFallbacks i fbs = None \<longleftrightarrow>
    (\<forall>fb\<in>set fbs. ep_Provider fb = '''' \<or> ep_Provider fb \<in> set knownProviders)"
  by (induction fbs) (auto simp: knownProviderOrEmpty_None)

text \<open>What one rule has to satisfy, with no order of checks.\<close>

definition valid_rule :: "Rule \<Rightarrow> bool" where
  "valid_rule r \<longleftrightarrow>
     (let t = rule_Target r; m = rule_Match r
      in match_Provider m \<in> set ('''' # knownMatchProviders)
         \<and> tgt_Affinity t \<in> {'''', AffinitySingle, AffinityPrefixHash}
         \<and> ep_Provider t \<in> set ('''' # knownProviders)
         \<and> (\<forall>fb\<in>set (tgt_Fallbacks t). ep_Provider fb \<in> set ('''' # knownProviders))
         \<and> (\<not> tgt_Deny t \<longrightarrow> ep_Model t = '''' \<longrightarrow>
              (ep_Provider t = '''' \<or> ep_Provider t = match_Provider m) \<and> \<not> tgt_Deprecated t))"

lemma validateRule_None: "validateRule r = None \<longleftrightarrow> valid_rule r"
  unfolding validateRule_def valid_rule_def Let_def if_error_None first_error_None
    knownProviderOrEmpty_None validateFallbacks_None
  by auto

lemma validateLoop_None:
  "validateLoop seen i rs = None \<longleftrightarrow>
    (\<forall>r\<in>set rs. rule_ID r \<noteq> '''' \<and> rule_ID r \<notin> seen \<and> valid_rule r) \<and> distinct (map rule_ID rs)"
  by (induction rs arbitrary: seen i) (auto simp: validateRule_None image_iff)

lemma Validate_None:
  "Validate rules = None \<longleftrightarrow>
    (\<forall>r\<in>set rules. rule_ID r \<noteq> '''' \<and> valid_rule r) \<and> distinct (map rule_ID rules)"
  by (simp add: Validate_def validateLoop_None)

lemma LoadFile_valid: "LoadFile decode raws = Inr rules \<Longrightarrow> Validate rules = None"
  by (auto simp: LoadFile_def split: sum.splits option.splits)

text \<open>
  A validated rule that is applied never asks the proxy for something it cannot do: a target
  on another provider is one it can translate to and comes with that provider's model name.
\<close>

definition dispatchable :: "Decision \<Rightarrow> bool" where
  "dispatchable d \<longleftrightarrow>
     (ResolvedProvider d = RequestedProvider d \<or> ResolvedProvider d \<in> set knownProviders)
     \<and> (dec_Reason d = ReasonSubstitute \<longrightarrow> ResolvedModel d \<noteq> '''')
     \<and> (\<forall>fb\<in>set (dec_Fallbacks d). ep_Provider fb = '''' \<or> ep_Provider fb \<in> set knownProviders)"

lemma dispatchable_applyRule:
  assumes "valid_rule r" "matches (rule_Match r) inp"
  shows "dispatchable (applyRule (passthrough inp) r)"
proof (cases "tgt_Deny (rule_Target r)")
  case True
  then show ?thesis by (simp add: dispatchable_def applyRule_def Let_def)
next
  case False
  have "match_Provider (rule_Match r) = '''' \<or> match_Provider (rule_Match r) = in_Provider inp"
    using assms(2) by (auto simp: matches_def split: if_splits)
  with False assms(1) show ?thesis
    by (auto simp: dispatchable_def applyRule_def Let_def valid_rule_def)
qed

lemma dispatchable_passthrough: "dispatchable (passthrough inp)"
  by (simp add: dispatchable_def)

context resolver
begin

lemma dispatches: "Validate rules = None \<Longrightarrow> dispatchable (resolve inp)"
  by (rule resolve_cases [of inp])
    (simp_all add: Validate_None applicable_def dispatchable_applyRule dispatchable_passthrough)

end


section \<open>Engine and store as resolvers\<close>

interpretation eng: resolver "Resolve (Some (NewEngine rules))" rules for rules
  by unfold_locales (rule Resolve_NewEngine)

text \<open>The rules a store is serving: those of the last successful load, before the static ones.\<close>

fun lastGood :: "Rule list \<Rightarrow> Rule list result list \<Rightarrow> Rule list" where
  "lastGood db [] = db"
| "lastGood db (Inl err # as) = lastGood db as"
| "lastGood db (Inr rules # as) = lastGood rules as"

lemma rebuild_cur:
  assumes "st_hasLoader s" "st_cur s = Some (NewEngine (db @ st_static s))"
  shows "st_hasLoader (rebuild a s) \<and> st_static (rebuild a s) = st_static s \<and>
    st_cur (rebuild a s) = Some (NewEngine (lastGood db [a] @ st_static s))"
  using assms by (cases a) (auto simp: rebuild_def)

lemma refreshLoop_cur:
  assumes "st_hasLoader s" "st_cur s = Some (NewEngine (db @ st_static s))"
  shows "st_cur (refreshLoop as s) = Some (NewEngine (lastGood db as @ st_static s))"
  using assms
proof (induction "as" arbitrary: s db)
  case (Cons a as)
  from Cons.prems have r: "st_hasLoader (rebuild a s)" "st_static (rebuild a s) = st_static s"
    "st_cur (rebuild a s) = Some (NewEngine (lastGood db [a] @ st_static (rebuild a s)))"
    using rebuild_cur by auto
  from Cons.IH [OF r(1,3)] r(2) show ?case by (cases a) auto
qed simp

lemma NewStore_cur:
  "st_hasLoader (NewStore static True a)"
  "st_static (NewStore static True a) = static"
  "st_cur (NewStore static True a) = Some (NewEngine (lastGood [] [a] @ static))"
  by (cases a; simp add: NewStore_def rebuild_def)+

lemma Store_Resolve_refreshed:
  "Store_Resolve (refreshLoop as (NewStore static True a)) inp =
    policyDecision (lastGood [] (a # as) @ static) inp"
proof -
  have "st_cur (refreshLoop as (NewStore static True a)) =
      Some (NewEngine (lastGood (lastGood [] [a]) as @ static))"
    using refreshLoop_cur [of "NewStore static True a" "lastGood [] [a]" "as"]
    by (simp add: NewStore_cur)
  moreover have "lastGood (lastGood [] [a]) as = lastGood [] (a # as)" by (cases a) auto
  ultimately show ?thesis by (simp add: Store_Resolve_def Resolve_NewEngine)
qed

interpretation store: resolver "Store_Resolve (refreshLoop as (NewStore static True a))"
    "lastGood [] (a # as) @ static" for static a "as"
  by unfold_locales (rule Store_Resolve_refreshed)

interpretation static_store: resolver "Store_Resolve (NewStore static False a)" static for static a
  by unfold_locales (simp add: Store_Resolve_def NewStore_def rebuild_def Resolve_NewEngine)

section \<open>Tiers\<close>

lemma applicable_tierRule:
  "t \<in> set TierCatalog \<Longrightarrow> applicable inp (tierRule t) \<longleftrightarrow> in_Model inp = tier_Alias t"
  by (auto simp: applicable_def tierRule_def matches_def TierCatalog_def TierFast_def TierCheap_def
      TierSmart_def)

lemma tierRule_not_outranking:
  "rule_TenantID r \<noteq> '''' \<or> rule_Priority r \<le> defaultTierPriority \<Longrightarrow> \<not> outranks_rule (tierRule t) r"
  by (auto simp: outranks_rule_def tierRule_def)

lemma lastGood_stripped:
  "\<forall>r\<in>set db. \<not> IsTierAlias (match_Model (rule_Match r)) \<Longrightarrow>
    r \<in> set (lastGood db (map (gatewayLoad False) as)) \<Longrightarrow> \<not> IsTierAlias (match_Model (rule_Match r))"
proof (induction "as" arbitrary: db)
  case (Cons a as)
  have stripped: "\<forall>r\<in>set (StripTierAliasRules rs). \<not> IsTierAlias (match_Model (rule_Match r))" for rs
    by (simp add: StripTierAliasRules_def)
  show ?case
    using Cons.IH [OF Cons.prems(1)] Cons.IH [OF stripped] Cons.prems(2)
    by (cases a) (auto simp: gatewayLoad_def)
qed simp


text \<open>The store as \<open>main\<close> sets it up, after the given loader answers.\<close>

definition gatewayStore :: "bool \<Rightarrow> Rule list \<Rightarrow> Rule list result \<Rightarrow> Rule list result list \<Rightarrow> Store" where
  "gatewayStore tiersEnabled file a as =
     refreshLoop (map (gatewayLoad tiersEnabled) as)
       (NewStore (gatewayStatic tiersEnabled file) True (gatewayLoad tiersEnabled a))"

lemma gatewayLoad_True [simp]: "gatewayLoad True = (\<lambda>a. a)"
  by (rule ext) (simp add: gatewayLoad_def)

lemma tier_overridden:
  assumes "r \<in> set (lastGood [] (a # as) @ file)" "applicable inp r"
    and pr: "rule_TenantID r \<noteq> '''' \<or> rule_Priority r \<le> defaultTierPriority"
  shows "\<exists>p\<in>set (lastGood [] (a # as) @ file).
    Store_Resolve (gatewayStore True file a as) inp = applyRule (passthrough inp) p"
proof -
  have "\<exists>p\<in>set (lastGood [] (a # as) @ file).
      policy ((lastGood [] (a # as) @ file) @ DefaultTierRules) inp = Some p"
    using assms(1,2)
    by (rule policy_earlier) (auto simp: DefaultTierRules_def tierRule_not_outranking [OF pr])
  then show ?thesis
    by (auto simp: gatewayStore_def Store_Resolve_refreshed gatewayStatic_def policyDecision_def)
qed

lemma tier_stripped:
  assumes "IsTierAlias (in_Model inp)"
  shows "Store_Resolve (gatewayStore False file a as) inp = passthrough inp
    \<or> (\<exists>p. Store_Resolve (gatewayStore False file a as) inp = applyRule (passthrough inp) p
           \<and> match_Model (rule_Match p) = '''')"
proof -
  let ?rules = "lastGood [] (gatewayLoad False a # map (gatewayLoad False) as) @ gatewayStatic False file"
  have strip: "\<not> IsTierAlias (match_Model (rule_Match p))" if "p \<in> set ?rules" for p
    using that lastGood_stripped [of "[]" p "a # as"]
    by (auto simp: gatewayStatic_def StripTierAliasRules_def)
  have "match_Model (rule_Match p) = ''''" if "policy ?rules inp = Some p" for p
    using policy_least [OF that] strip [of p] assms
    by (auto simp: applicable_def matches_def split: if_splits)
  then show ?thesis
    unfolding gatewayStore_def Store_Resolve_refreshed policyDecision_def
    by (cases "policy ?rules inp") auto
qed


section \<open>Properties\<close>

text \<open>
  C1. \<open>Resolve\<close> on the engine compiled from a rule list makes the decision of the routing
  policy, whatever the rules and the request: grouping by tenant, the two stable sorts and
  the first-match loop compute the first applicable rule that no applicable rule outranks
  (tenant before global, lower priority first, deny before redirect, then input order), and
  pass the request through when no rule applies.
\<close>

theorem Resolve_implements_policy:
  "Resolve (Some (NewEngine rules)) inp =
    (case find (\<lambda>r. applicable inp r \<and> (\<forall>r'\<in>set rules. applicable inp r' \<longrightarrow> \<not> outranks_rule r' r)) rules of
       None \<Rightarrow> passthrough inp
     | Some r \<Rightarrow> applyRule (passthrough inp) r)"
  by (simp add: Resolve_NewEngine policyDecision_def policy_def)

definition exRule :: "string \<Rightarrow> string \<Rightarrow> int \<Rightarrow> string \<Rightarrow> string \<Rightarrow> bool \<Rightarrow> Rule" where
  "exRule i tenant prio model target deny =
     zeroRule\<lparr>rule_ID := i, rule_TenantID := tenant, rule_Priority := prio, rule_Enabled := True,
       rule_Match := \<lparr>match_Provider = '''', match_Model = model, match_UserID = ''''\<rparr>,
       rule_Target := (rule_Target zeroRule)\<lparr>ep_Provider := (if deny then '''' else ''openai''),
         ep_Model := target, tgt_Deny := deny\<rparr>\<rparr>"

definition exInput :: Input where
  "exInput = \<lparr>in_Provider = ''anthropic'', in_Model = ''m'', in_TenantID = ''t'', in_UserID = ''u''\<rparr>"

theorem Resolve_implements_policy_witness:
  "RuleID (Resolve (Some (NewEngine
      [exRule ''g'' '''' 1 ''m'' ''x'' False, exRule ''a'' ''t'' 5 ''m'' ''y'' False,
       exRule ''d'' ''t'' 5 '''' '''' True])) exInput) = ''d''"
  unfolding Resolve_implements_policy
  by (simp add: exRule_def exInput_def applicable_def outranks_rule_def matches_def zeroRule_def)

text \<open>
  C31. Tenant isolation of the live store: after any sequence of refreshes, the decision for a
  request depends only on the enabled rules of the caller's tenant and the global ones; no
  rule of another tenant can influence it.
\<close>

theorem Store_tenant_isolation:
  "Store_Resolve (refreshLoop as (NewStore static True a)) inp =
    Resolve (Some (NewEngine
      (filter (\<lambda>r. rule_Enabled r \<and> (rule_TenantID r = '''' \<or> rule_TenantID r = in_TenantID inp))
        (lastGood [] (a # as) @ static)))) inp"
  unfolding Resolve_NewEngine
  by (rule store.relevant) (simp add: applicable_def)

text \<open>
  A block cannot be routed around: when a deny rule applies and no applicable redirect is
  in an earlier scope or has a smaller priority in the same scope, the store rejects the
  request, also when redirects tie with the block.
\<close>

theorem Store_deny_wins:
  assumes "r \<in> set (lastGood [] (a # as) @ static)" "applicable inp r" "tgt_Deny (rule_Target r)"
    and "\<And>r'. r' \<in> set (lastGood [] (a # as) @ static) \<Longrightarrow> applicable inp r' \<Longrightarrow>
      \<not> tgt_Deny (rule_Target r') \<Longrightarrow>
      \<not> (rule_TenantID r' \<noteq> '''' \<and> rule_TenantID r = '''')
      \<and> ((rule_TenantID r' = '''') = (rule_TenantID r = '''') \<longrightarrow> rule_Priority r \<le> rule_Priority r')"
  shows "Denied (Store_Resolve (refreshLoop as (NewStore static True a)) inp) \<and>
    dec_Reason (Store_Resolve (refreshLoop as (NewStore static True a)) inp) = ReasonBlocked"
  using assms by (rule store.deny_wins)

theorem Store_deny_wins_witness:
  "Denied (Store_Resolve (refreshLoop [Inl ''down'']
      (NewStore [exRule ''r'' ''t'' 5 ''m'' ''x'' False] True
        (Inr [exRule ''d'' ''t'' 5 ''m'' '''' True]))) exInput)"
proof -
  have "Denied (Store_Resolve (refreshLoop [Inl ''down'']
      (NewStore [exRule ''r'' ''t'' 5 ''m'' ''x'' False] True
        (Inr [exRule ''d'' ''t'' 5 ''m'' '''' True]))) exInput) \<and>
    dec_Reason (Store_Resolve (refreshLoop [Inl ''down'']
      (NewStore [exRule ''r'' ''t'' 5 ''m'' ''x'' False] True
        (Inr [exRule ''d'' ''t'' 5 ''m'' '''' True]))) exInput) = ReasonBlocked"
    by (rule Store_deny_wins [of "exRule ''d'' ''t'' 5 ''m'' '''' True"])
      (auto simp: exRule_def exInput_def applicable_def matches_def zeroRule_def)
  then show ?thesis by simp
qed

text \<open>
  Validation makes every decision dispatchable: with a rule set \<open>Validate\<close> accepts, the
  resolved provider is the addressed one or one the proxy translates to, a cross-provider
  substitution always names a model, and every fallback provider is empty or known.
\<close>

theorem Validate_makes_dispatchable:
  assumes "Validate (lastGood [] (a # as) @ static) = None"
  shows "dispatchable (Store_Resolve (refreshLoop as (NewStore static True a)) inp)"
  using assms by (rule store.dispatches)

theorem Validate_makes_dispatchable_witness:
  "dispatchable (Store_Resolve (refreshLoop [] (NewStore DefaultTierRules True (Inl ''no db'')))
     exInput)"
proof -
  have "Validate (lastGood [] [Inl ''no db''] @ DefaultTierRules) = None"
    by code_simp
  then show ?thesis by (rule Validate_makes_dispatchable)
qed

text \<open>
  The tier defaults are overridable and can be switched off. With tiering on, an applicable
  DB or config-file rule that is tenant-specific or has a priority of at most 1000 is applied
  instead of a default tier rule. With tiering off, a request for a tier alias is only ever
  handled by a rule whose model condition is the wildcard.
\<close>

theorem tiers_overridable_and_removable:
  "(\<forall>r\<in>set (lastGood [] (a # as) @ file). applicable inp r
      \<and> (rule_TenantID r \<noteq> '''' \<or> rule_Priority r \<le> defaultTierPriority) \<longrightarrow>
      (\<exists>p\<in>set (lastGood [] (a # as) @ file).
        Store_Resolve (gatewayStore True file a as) inp = applyRule (passthrough inp) p))
   \<and> (IsTierAlias (in_Model inp) \<longrightarrow>
      Store_Resolve (gatewayStore False file a as) inp = passthrough inp
      \<or> (\<exists>p. Store_Resolve (gatewayStore False file a as) inp = applyRule (passthrough inp) p
             \<and> match_Model (rule_Match p) = ''''))"
  using tier_overridden tier_stripped by blast

theorem tiers_overridable_and_removable_witness:
  "(\<exists>p\<in>set [exRule ''f'' '''' 1000 ''nb-fast'' ''x'' False].
      Store_Resolve (gatewayStore True [exRule ''f'' '''' 1000 ''nb-fast'' ''x'' False] (Inr []) [])
        (exInput\<lparr>in_Model := ''nb-fast''\<rparr>) = applyRule (passthrough (exInput\<lparr>in_Model := ''nb-fast''\<rparr>)) p)
   \<and> IsTierAlias ''nb-fast''"
proof
  show "\<exists>p\<in>set [exRule ''f'' '''' 1000 ''nb-fast'' ''x'' False].
      Store_Resolve (gatewayStore True [exRule ''f'' '''' 1000 ''nb-fast'' ''x'' False] (Inr []) [])
        (exInput\<lparr>in_Model := ''nb-fast''\<rparr>) = applyRule (passthrough (exInput\<lparr>in_Model := ''nb-fast''\<rparr>)) p"
    using tiers_overridable_and_removable [of "Inr []" "[]" "[exRule ''f'' '''' 1000 ''nb-fast'' ''x'' False]"
        "exInput\<lparr>in_Model := ''nb-fast''\<rparr>"]
    by (simp add: exRule_def exInput_def applicable_def matches_def zeroRule_def defaultTierPriority_def)
  show "IsTierAlias ''nb-fast''"
    by (simp add: IsTierAlias_def TierCatalog_def TierFast_def)
qed

end
