(* ===== verification/GoTime.thy ===== *)
theory GoTime
  imports Prelude
begin

text \<open>
  The parts of Go's \<open>time\<close> and \<open>strconv\<close> the components use. An instant is the number of
  nanoseconds since Go's zero time (January 1, year 1, 00:00 UTC), so \<open>time.Time{}\<close> is 0 and
  \<open>Truncate\<close>, which rounds down to a multiple of a duration since the zero time, is rounding
  of the number itself. \<open>Date\<close> reads the proleptic Gregorian calendar date of a day number
  and \<open>Date_days\<close> builds one, normalising month and day as \<open>time.Date\<close> does.
\<close>

section \<open>Durations and truncation\<close>

definition Second :: duration where "Second = 1000000000"
definition Minute :: duration where "Minute = 60 * Second"
definition Hour :: duration where "Hour = 60 * Minute"
definition Day :: duration where "Day = 24 * Hour"

lemmas duration_defs = Second_def Minute_def Hour_def Day_def

definition Truncate :: "instant \<Rightarrow> duration \<Rightarrow> instant" where
  "Truncate t d = t - t mod d"

lemma Truncate_eq: "Truncate t d = (t div d) * d"
  by (simp add: Truncate_def minus_mod_eq_div_mult)

lemma next_multiple:
  fixes t t' d :: int
  assumes "0 < d" "t \<le> t'"
  shows "t' div d = t div d \<longleftrightarrow> t' < (t div d) * d + d"
proof
  assume "t' div d = t div d"
  then show "t' < (t div d) * d + d"
    using assms(1) by (metis add.commute div_mult_mod_eq add_less_cancel_right pos_mod_bound)
next
  assume lt: "t' < (t div d) * d + d"
  have "t - d * (t div d) = t mod d" by (rule minus_mult_div_eq_mod)
  then have "d * (t div d) \<le> t" using assms(1) by (metis diff_ge_0_iff_ge pos_mod_sign)
  then have ge: "d * (t div d) \<le> t'" using assms(2) by simp
  show "t' div d = t div d"
    by (rule int_div_pos_eq [of _ _ _ "t' - d * (t div d)"])
      (use lt ge in \<open>simp_all add: mult.commute\<close>)
qed


section \<open>The calendar\<close>

definition is_leap :: "int \<Rightarrow> bool" where
  "is_leap y \<longleftrightarrow> y mod 4 = 0 \<and> (y mod 100 \<noteq> 0 \<or> y mod 400 = 0)"

definition days_before_year :: "int \<Rightarrow> int" where
  "days_before_year y = 365 * (y - 1) + (y - 1) div 4 - (y - 1) div 100 + (y - 1) div 400"

definition days_in_month :: "int \<Rightarrow> int \<Rightarrow> int" where
  "days_in_month y m =
     (if m = 2 then (if is_leap y then 29 else 28)
      else if m = 4 \<or> m = 6 \<or> m = 9 \<or> m = 11 then 30 else 31)"

lemma div_step:
  fixes y k :: int
  assumes "0 < k"
  shows "y div k = (y - 1) div k + (if y mod k = 0 then 1 else 0)"
proof -
  let ?q = "(y - 1) div k" and ?r = "(y - 1) mod k"
  have y: "y = k * ?q + (?r + 1)" by (metis add.assoc add.commute diff_add_cancel mult_div_mod_eq)
  have r: "0 \<le> ?r" "?r < k" using assms by auto
  show ?thesis
  proof (cases "?r + 1 = k")
    case True
    from y have "y = k * ?q + k" unfolding True .
    then have e: "y = k * (?q + 1)" by (simp only: distrib_left mult_1_right)
    have "y mod k = 0" by (subst e) simp
    moreover have "y div k = ?q + 1" using assms by (subst e) simp
    ultimately show ?thesis by simp
  next
    case False
    with r have "?r + 1 < k" by simp
    with r have "y div k = ?q" "y mod k = ?r + 1"
      using int_div_pos_eq [OF y] int_mod_pos_eq [OF y] by auto
    with r show ?thesis by simp
  qed
qed

lemma days_before_year_Suc:
  "days_before_year (y + 1) = days_before_year y + (if is_leap y then 366 else 365)"
proof -
  define a b c where "a = (y - 1) div 4" and "b = (y - 1) div 100" and "c = (y - 1) div 400"
  define l4 l100 l400 where "l4 \<longleftrightarrow> y mod 4 = 0" and "l100 \<longleftrightarrow> y mod 100 = 0" and "l400 \<longleftrightarrow> y mod 400 = 0"
  have "4 dvd (100 :: int)" "100 dvd (400 :: int)" by simp_all
  then have "l100 \<longrightarrow> l4" "l400 \<longrightarrow> l100"
    unfolding l4_def l100_def l400_def by (auto simp: mod_eq_0_iff_dvd intro: dvd_trans)
  moreover have "days_before_year y = 365 * (y - 1) + a - b + c"
    and "is_leap y \<longleftrightarrow> l4 \<and> (\<not> l100 \<or> l400)"
    by (simp_all add: days_before_year_def a_def b_def c_def is_leap_def l4_def l100_def l400_def)
  moreover have "days_before_year (y + 1) = 365 * y + (a + (if l4 then 1 else 0))
      - (b + (if l100 then 1 else 0)) + (c + (if l400 then 1 else 0))"
  proof -
    have "y div 4 = a + (if l4 then 1 else 0)" unfolding a_def l4_def by (rule div_step) simp
    moreover have "y div 100 = b + (if l100 then 1 else 0)"
      unfolding b_def l100_def by (rule div_step) simp
    moreover have "y div 400 = c + (if l400 then 1 else 0)"
      unfolding c_def l400_def by (rule div_step) simp
    ultimately show ?thesis by (simp only: days_before_year_def add_diff_cancel_right')
  qed
  ultimately show ?thesis by (cases l4; cases l100; cases l400) simp_all
qed

function year_from :: "int \<Rightarrow> int \<Rightarrow> int" where
  "year_from y d = (if days_before_year (y + 1) \<le> d then year_from (y + 1) d else y)"
  by pat_completeness auto
termination
  by (relation "measure (\<lambda>(y, d). nat (d + 1 - days_before_year y))")
    (auto simp: days_before_year_Suc split: if_splits)

declare year_from.simps [simp del]

definition year_of :: "int \<Rightarrow> int" where
  "year_of d = year_from (d div 366 + 1) d"

function month_from :: "int \<Rightarrow> int \<Rightarrow> int \<Rightarrow> int \<times> int" where
  "month_from y m n =
     (if m < 12 \<and> days_in_month y m \<le> n then month_from y (m + 1) (n - days_in_month y m)
      else (m, n + 1))"
  by pat_completeness auto
termination
  by (relation "measure (\<lambda>(y, m, n). nat (12 - m))") auto

declare month_from.simps [simp del]

text \<open>\<open>t.Date()\<close> on the day number of \<open>t\<close>, and \<open>time.Date\<close> as a day number.\<close>

definition Date :: "int \<Rightarrow> int \<times> int \<times> int" where
  "Date d = (let y = year_of d; (m, dd) = month_from y 1 (d - days_before_year y) in (y, m, dd))"

definition days_before_month :: "int \<Rightarrow> int \<Rightarrow> int" where
  "days_before_month y m = sum_list (map (days_in_month y) [1..m - 1])"

definition Date_days :: "int \<Rightarrow> int \<Rightarrow> int \<Rightarrow> int" where
  "Date_days y m d =
     (let y' = y + (m - 1) div 12; m' = (m - 1) mod 12 + 1
      in days_before_year y' + days_before_month y' m' + (d - 1))"

lemma year_from_bounds:
  "days_before_year y \<le> d \<Longrightarrow>
    days_before_year (year_from y d) \<le> d \<and> d < days_before_year (year_from y d + 1)"
proof (induction y d rule: year_from.induct)
  case (1 y d)
  show ?case
    using 1 by (cases "days_before_year (y + 1) \<le> d") (simp_all add: year_from.simps [of y d])
qed

lemma year_of_bounds:
  assumes "0 \<le> d"
  shows "days_before_year (year_of d) \<le> d \<and> d < days_before_year (year_of d + 1)"
proof -
  let ?q = "d div 366"
  have q: "0 \<le> ?q" "366 * ?q \<le> d" using assms by (auto simp: pos_imp_zdiv_nonneg_iff)
  have "?q div 4 - ?q div 100 + ?q div 400 \<le> ?q" using q(1) by linarith
  then have "days_before_year (?q + 1) \<le> d" using q by (simp add: days_before_year_def)
  then show ?thesis unfolding year_of_def by (rule year_from_bounds)
qed

lemma days_before_month_1 [simp]: "days_before_month y 1 = 0"
  by (simp add: days_before_month_def)

lemma days_before_month_Suc:
  "1 \<le> m \<Longrightarrow> days_before_month y (m + 1) = days_before_month y m + days_in_month y m"
  by (simp add: days_before_month_def upto_rec2)

lemma days_before_month_13: "days_before_month y 13 = (if is_leap y then 366 else 365)"
  by (simp add: days_before_month_def upto_rec1 days_in_month_def)

lemma days_in_month_pos: "28 \<le> days_in_month y m" and days_in_month_le: "days_in_month y m \<le> 31"
  by (auto simp: days_in_month_def)

text \<open>The month loop splits a day of the year into its month and day of the month.\<close>

lemma month_from_spec:
  assumes "1 \<le> m" "m \<le> 12" "0 \<le> n" "days_before_month y m + n < days_before_month y 13"
  shows "\<exists>m' dd. month_from y m n = (m', dd) \<and> 1 \<le> m' \<and> m' \<le> 12 \<and> 1 \<le> dd
    \<and> dd \<le> days_in_month y m' \<and> days_before_month y m' + (dd - 1) = days_before_month y m + n"
  using assms
proof (induction y m n rule: month_from.induct)
  case (1 y m n)
  show ?case
  proof (cases "m < 12 \<and> days_in_month y m \<le> n")
    case True
    note suc = days_before_month_Suc [OF "1.prems"(1), of y]
    have "days_before_month y (m + 1) + (n - days_in_month y m) = days_before_month y m + n"
      using suc by simp
    with 1 True show ?thesis by (simp add: month_from.simps [of y m n])
  next
    case False
    have "n < days_in_month y m"
    proof (cases "m < 12")
      case False
      then have "m = 12" using "1.prems" by simp
      with "1.prems" show ?thesis using days_before_month_Suc [of 12 y] by simp
    qed (use False in simp)
    with False "1.prems" show ?thesis by (simp add: month_from.simps [of y m n])
  qed
qed

lemma Date_spec:
  assumes "0 \<le> d" and "Date d = (y, m, dd)"
  shows "1 \<le> m" "m \<le> 12" "1 \<le> dd" "dd \<le> days_in_month y m"
    "d = days_before_year y + days_before_month y m + (dd - 1)"
proof -
  note yb = year_of_bounds [OF assms(1)]
  let ?y = "year_of d" and ?n = "d - days_before_year (year_of d)"
  have "days_before_month ?y 1 + ?n < days_before_month ?y 13"
    using yb by (simp add: days_before_year_Suc days_before_month_13)
  then obtain m' dd' where m': "month_from ?y 1 ?n = (m', dd')" "1 \<le> m'" "m' \<le> 12" "1 \<le> dd'"
    "dd' \<le> days_in_month ?y m'" "days_before_month ?y m' + (dd' - 1) = ?n"
    using month_from_spec [of 1 ?n ?y] yb by auto
  from assms(2) m'(1) have "y = ?y" "m = m'" "dd = dd'" by (auto simp: Date_def Let_def)
  with m' show "1 \<le> m" "m \<le> 12" "1 \<le> dd" "dd \<le> days_in_month y m"
    "d = days_before_year y + days_before_month y m + (dd - 1)" by auto
qed

lemma Date_days_normal: "1 \<le> m \<Longrightarrow> m \<le> 12 \<Longrightarrow>
  Date_days y m d = days_before_year y + days_before_month y m + (d - 1)"
  by (simp add: Date_days_def)

lemma Date_days_next_month:
  assumes "1 \<le> m" "m \<le> 12"
  shows "Date_days y (m + 1) 1 = Date_days y m 1 + days_in_month y m"
proof (cases "m = 12")
  case True
  have "Date_days y 13 1 = days_before_year (y + 1)" by (simp add: Date_days_def)
  also have "\<dots> = days_before_year y + days_before_month y 13"
    by (simp add: days_before_year_Suc days_before_month_13)
  finally show ?thesis
    using True days_before_month_Suc [of 12 y] by (simp add: Date_days_normal)
next
  case False
  with assms show ?thesis by (simp add: Date_days_normal days_before_month_Suc)
qed

text \<open>Reading a date and building it again gives the day back.\<close>

lemma Date_days_Date: "0 \<le> d \<Longrightarrow> Date d = (y, m, dd) \<Longrightarrow> Date_days y m dd = d"
  using Date_spec [of d y m dd] by (simp add: Date_days_normal)

lemma Date_inj:
  assumes "0 \<le> d" "0 \<le> d'"
  shows "Date d = Date d' \<longleftrightarrow> d = d'"
proof
  assume "Date d = Date d'"
  moreover obtain y m dd where "Date d = (y, m, dd)" by (cases "Date d")
  ultimately show "d = d'" using Date_days_Date assms by metis
qed simp

lemma year_from_ge: "y \<le> year_from y d"
proof (induction y d rule: year_from.induct)
  case (1 y d)
  then show ?case by (cases "days_before_year (y + 1) \<le> d") (simp_all add: year_from.simps [of y d])
qed

lemma Date_year_pos: "0 \<le> d \<Longrightarrow> Date d = (y, m, dd) \<Longrightarrow> 1 \<le> y"
  using year_from_ge [of "d div 366 + 1" d]
  by (auto simp: Date_def Let_def year_of_def pos_imp_zdiv_nonneg_iff split: prod.splits)

text \<open>Months numbered from year 0: the first day of month \<open>i\<close> is \<open>month_start i\<close>.\<close>

definition month_start :: "int \<Rightarrow> int" where
  "month_start i = Date_days 0 (i + 1) 1"

definition month_no :: "int \<Rightarrow> int" where
  "month_no d = (let (y, m, dd) = Date d in 12 * y + (m - 1))"

lemma Date_days_month_start: "Date_days y (n + 1) 1 = month_start (12 * y + n)"
  by (simp add: month_start_def Date_days_def Let_def)

lemma month_start_Suc:
  "month_start (i + 1) = month_start i + days_in_month (i div 12) (i mod 12 + 1)"
proof -
  have "12 * (i div 12) + (i mod 12 + 1) = i + 1" by simp
  then have "Date_days (i div 12) (i mod 12 + 1 + 1) 1 = month_start (i + 1)"
    using Date_days_month_start [of "i div 12" "i mod 12 + 1"] by (simp only:)
  moreover have "Date_days (i div 12) (i mod 12 + 1) 1 = month_start i"
    using Date_days_month_start [of "i div 12" "i mod 12"] by simp
  ultimately show ?thesis
    using Date_days_next_month [of "i mod 12 + 1" "i div 12"] by simp
qed

lemma month_start_mono: "i \<le> j \<Longrightarrow> month_start i \<le> month_start j"
proof (induction j rule: int_ge_induct)
  case (step j)
  then show ?case using month_start_Suc [of j] days_in_month_pos [of "j div 12" "j mod 12 + 1"] by simp
qed simp

lemma month_no_bounds:
  assumes "0 \<le> d"
  shows "month_start (month_no d) \<le> d \<and> d < month_start (month_no d + 1)"
proof -
  obtain y m dd where D: "Date d = (y, m, dd)" by (cases "Date d")
  note s = Date_spec [OF assms D]
  have no: "month_no d = 12 * y + (m - 1)" by (simp add: month_no_def D)
  have "month_start (month_no d) = Date_days y m 1"
    using Date_days_month_start [of y "m - 1"] by (simp add: no)
  moreover have "month_start (month_no d + 1) = Date_days y (m + 1) 1"
    using Date_days_month_start [of y m] by (simp add: no)
  ultimately show ?thesis
    using s Date_days_next_month [OF s(1,2), of y] by (simp add: Date_days_normal)
qed

lemma month_no_eq:
  assumes "0 \<le> d" "d \<le> d'"
  shows "month_no d' = month_no d \<longleftrightarrow> d' < month_start (month_no d + 1)"
proof
  assume "month_no d' = month_no d"
  then show "d' < month_start (month_no d + 1)" using month_no_bounds [of d'] assms by simp
next
  assume lt: "d' < month_start (month_no d + 1)"
  note b = month_no_bounds [OF assms(1)] and b' = month_no_bounds [of d']
  have "\<not> month_no d + 1 \<le> month_no d'"
    using month_start_mono [of "month_no d + 1" "month_no d'"] b' lt assms by auto
  moreover have "\<not> month_no d' + 1 \<le> month_no d"
    using month_start_mono [of "month_no d' + 1" "month_no d"] b b' assms by auto
  ultimately show "month_no d' = month_no d" by simp
qed

end
