(* ===== verification/GoStrings.thy ===== *)
theory GoStrings
  imports Prelude
begin

text \<open>
  The functions of Go's \<open>strings\<close>, \<open>strconv\<close> and \<open>fmt\<close> the components call, on byte strings.
  Case mapping and white space are those of ASCII: a Go string holding other letters or
  Unicode white space is outside what these functions describe.
\<close>

section \<open>Searching\<close>

fun HasPrefix :: "string \<Rightarrow> string \<Rightarrow> bool" where
  "HasPrefix s [] = True"
| "HasPrefix [] (p # ps) = False"
| "HasPrefix (c # s) (p # ps) = (c = p \<and> HasPrefix s ps)"

definition HasSuffix :: "string \<Rightarrow> string \<Rightarrow> bool" where
  "HasSuffix s p = HasPrefix (rev s) (rev p)"

text \<open>\<open>strings.Index\<close>: the position of the first occurrence, \<open>None\<close> for -1.\<close>

fun Index :: "string \<Rightarrow> string \<Rightarrow> nat option" where
  "Index [] p = (if p = [] then Some 0 else None)"
| "Index (c # s) p = (if HasPrefix (c # s) p then Some 0 else map_option Suc (Index s p))"

definition Contains :: "string \<Rightarrow> string \<Rightarrow> bool" where
  "Contains s p = (Index s p \<noteq> None)"

definition ContainsAny :: "string \<Rightarrow> string \<Rightarrow> bool" where
  "ContainsAny s chars = list_ex (\<lambda>c. c \<in> set chars) s"

text \<open>\<open>strings.Cut\<close>: the text before and after the first occurrence of a separator.\<close>

definition Cut :: "string \<Rightarrow> string \<Rightarrow> string \<times> string \<times> bool" where
  "Cut s sep =
     (case Index s sep of
        None \<Rightarrow> (s, '''', False)
      | Some i \<Rightarrow> (take i s, drop (i + length sep) s, True))"

lemma HasPrefix_iff: "HasPrefix s p \<longleftrightarrow> (\<exists>r. s = p @ r)"
  by (induction s p rule: HasPrefix.induct) auto

lemma HasPrefix_take: "HasPrefix s p \<longleftrightarrow> take (length p) s = p"
  by (induction s p rule: HasPrefix.induct) auto

lemma HasPrefix_append [simp]: "HasPrefix (p @ r) p"
  by (auto simp: HasPrefix_iff)

lemma HasSuffix_iff: "HasSuffix s p \<longleftrightarrow> (\<exists>r. s = r @ p)"
proof
  assume "HasSuffix s p"
  then obtain r where "rev s = rev p @ r" by (auto simp: HasSuffix_def HasPrefix_iff)
  then have "s = rev r @ p" by (metis rev_append rev_rev_ident)
  then show "\<exists>r. s = r @ p" ..
qed (auto simp: HasSuffix_def HasPrefix_iff)

lemma Index_Some: "Index s p = Some i \<Longrightarrow> \<exists>u v. s = u @ p @ v \<and> length u = i"
proof (induction s arbitrary: i)
  case (Cons c s)
  show ?case
  proof (cases "HasPrefix (c # s) p")
    case True
    with Cons.prems show ?thesis by (auto simp: HasPrefix_iff)
  next
    case False
    with Cons.prems obtain j where j: "Index s p = Some j" "i = Suc j" by auto
    from Cons.IH [OF j(1)] obtain u v where "s = u @ p @ v" "length u = j" by auto
    then have "c # s = (c # u) @ p @ v \<and> length (c # u) = i" using j by simp
    then show ?thesis by blast
  qed
qed (simp split: if_splits)

lemma Index_append_Some: "\<exists>i. Index (u @ p @ v) p = Some i"
proof (induction u)
  case Nil
  show ?case
  proof (cases "p @ v")
    case (Cons a l)
    then have "HasPrefix (a # l) p" by (metis HasPrefix_append)
    with Cons show ?thesis by simp
  qed simp
next
  case (Cons c u)
  then show ?case by auto
qed

text \<open>The first occurrence of a separator does not depend on what follows it.\<close>

lemma Index_common_prefix:
  assumes "Index (u @ p @ v) p = Some (length u)" "p \<noteq> []"
  shows "Index (u @ p @ w) p = Some (length u)"
  using assms
proof (induction u)
  case Nil
  then show ?case by (cases p) auto
next
  case (Cons c u)
  have np: "\<not> HasPrefix (c # u @ p @ v) p" using Cons.prems by (auto split: if_splits)
  have "take (length p) (c # u @ p @ v) = take (length p) (c # u @ p @ w)"
    by (cases "length p") auto
  then have "\<not> HasPrefix (c # u @ p @ w) p" using np by (metis HasPrefix_take)
  moreover have "Index (u @ p @ v) p = Some (length u)" using Cons.prems np by auto
  ultimately show ?case using Cons.IH Cons.prems by simp
qed

lemma Contains_iff: "Contains s p \<longleftrightarrow> (\<exists>u v. s = u @ p @ v)"
  unfolding Contains_def using Index_Some Index_append_Some by blast

lemma ContainsAny_iff: "ContainsAny s chars \<longleftrightarrow> set s \<inter> set chars \<noteq> {}"
  by (auto simp: ContainsAny_def list_ex_iff)

lemma Cut_found: "Cut s sep = (a, b, True) \<Longrightarrow> s = a @ sep @ b"
  by (auto simp: Cut_def dest!: Index_Some split: option.splits)

lemma Cut_not_found: "Cut s sep = (a, b, False) \<Longrightarrow> a = s \<and> b = '''' \<and> \<not> Contains s sep"
  by (auto simp: Cut_def Contains_def split: option.splits)


section \<open>Trimming and splitting\<close>

definition isSpace :: "char \<Rightarrow> bool" where
  "isSpace c \<longleftrightarrow> c \<in> {CHR 0x09, CHR 0x0A, CHR 0x0B, CHR 0x0C, CHR 0x0D, CHR '' ''}"

definition trimBy :: "(char \<Rightarrow> bool) \<Rightarrow> string \<Rightarrow> string" where
  "trimBy P s = rev (dropWhile P (rev (dropWhile P s)))"

definition TrimSpace :: "string \<Rightarrow> string" where
  "TrimSpace s = trimBy isSpace s"

definition Trim :: "string \<Rightarrow> string \<Rightarrow> string" where
  "Trim s cutset = trimBy (\<lambda>c. c \<in> set cutset) s"

definition TrimPrefix :: "string \<Rightarrow> string \<Rightarrow> string" where
  "TrimPrefix s p = (if HasPrefix s p then drop (length p) s else s)"

text \<open>\<open>strings.Fields\<close>: the maximal runs of non-space bytes.\<close>

fun fieldsFrom :: "string \<Rightarrow> string \<Rightarrow> string list" where
  "fieldsFrom acc [] = (if acc = [] then [] else [rev acc])"
| "fieldsFrom acc (c # s) =
     (if isSpace c then (if acc = [] then fieldsFrom [] s else rev acc # fieldsFrom [] s)
      else fieldsFrom (c # acc) s)"

definition Fields :: "string \<Rightarrow> string list" where
  "Fields s = fieldsFrom [] s"

fun Join :: "string list \<Rightarrow> string \<Rightarrow> string" where
  "Join [] sep = []"
| "Join [x] sep = x"
| "Join (x # y # ys) sep = x @ sep @ Join (y # ys) sep"

lemma fieldsFrom_tokens:
  "list_all (\<lambda>c. \<not> isSpace c) acc \<Longrightarrow>
    list_all (\<lambda>f. f \<noteq> [] \<and> list_all (\<lambda>c. \<not> isSpace c) f) (fieldsFrom acc s)"
  by (induction acc s rule: fieldsFrom.induct) simp_all

lemma Fields_tokens: "f \<in> set (Fields s) \<Longrightarrow> f \<noteq> [] \<and> (\<forall>c\<in>set f. \<not> isSpace c)"
  using fieldsFrom_tokens [of "[]" s] by (simp add: Fields_def list_all_iff)

lemma fieldsFrom_token:
  "\<forall>c\<in>set w. \<not> isSpace c \<Longrightarrow> fieldsFrom acc (w @ s) = fieldsFrom (rev w @ acc) s"
  by (induction w arbitrary: acc) auto

lemma Fields_Join:
  "\<forall>f\<in>set fs. f \<noteq> [] \<and> (\<forall>c\<in>set f. \<not> isSpace c) \<Longrightarrow> Fields (Join fs '' '') = fs"
proof (induction fs "'' ''" rule: Join.induct)
  case (2 x)
  then show ?case using fieldsFrom_token [of x "[]" "[]"] by (simp add: Fields_def)
next
  case (3 x y ys)
  have "fieldsFrom [] (x @ '' '' @ Join (y # ys) '' '') = fieldsFrom (rev x) ('' '' @ Join (y # ys) '' '')"
    using fieldsFrom_token [of x "[]"] 3 by simp
  also have "\<dots> = x # Fields (Join (y # ys) '' '')"
    using 3 by (simp add: isSpace_def Fields_def)
  finally show ?case using 3 by (simp add: Fields_def)
qed (simp add: Fields_def)

lemma dropWhile_id: "(\<forall>c\<in>set s. \<not> P c) \<Longrightarrow> dropWhile P s = s"
  by (cases s) auto

lemma trimBy_id: "(\<forall>c\<in>set s. \<not> P c) \<Longrightarrow> trimBy P s = s"
  by (simp add: trimBy_def dropWhile_id)

lemma set_trimBy: "set (trimBy P s) \<subseteq> set s"
  unfolding trimBy_def by (auto dest!: set_dropWhileD)


section \<open>Case mapping\<close>

definition lowerChar :: "char \<Rightarrow> char" where
  "lowerChar c = (let n = of_char c :: nat in if 65 \<le> n \<and> n \<le> 90 then char_of (n + 32) else c)"

definition upperChar :: "char \<Rightarrow> char" where
  "upperChar c = (let n = of_char c :: nat in if 97 \<le> n \<and> n \<le> 122 then char_of (n - 32) else c)"

definition ToLower :: "string \<Rightarrow> string" where "ToLower s = map lowerChar s"
definition ToUpper :: "string \<Rightarrow> string" where "ToUpper s = map upperChar s"

definition EqualFold :: "string \<Rightarrow> string \<Rightarrow> bool" where
  "EqualFold s t = (ToLower s = ToLower t)"


section \<open>Decimal numbers\<close>

fun digits :: "nat \<Rightarrow> string" where
  "digits n = (if n < 10 then [char_of (48 + n)] else digits (n div 10) @ [char_of (48 + n mod 10)])"

declare digits.simps [simp del]

definition Itoa :: "int \<Rightarrow> string" where
  "Itoa i = (if i < 0 then ''-'' @ digits (nat (- i)) else digits (nat i))"

text \<open>Zero padding on the left to a width, as \<open>%04d\<close> and the fields of a time layout do.\<close>

definition pad :: "nat \<Rightarrow> nat \<Rightarrow> string" where
  "pad w n = replicate (w - length (digits n)) (CHR ''0'') @ digits n"

definition digitsVal :: "string \<Rightarrow> nat" where
  "digitsVal s = foldl (\<lambda>a c. 10 * a + (of_char c - 48)) 0 s"

lemma digitsVal_snoc: "digitsVal (s @ [c]) = 10 * digitsVal s + (of_char c - 48)"
  by (simp add: digitsVal_def)

lemma digitsVal_digits [simp]: "digitsVal (digits n) = n"
proof (induction n rule: digits.induct)
  case (1 n)
  show ?case
  proof (cases "n < 10")
    case True
    then show ?thesis by (simp add: digits.simps [of n] digitsVal_def)
  next
    case False
    with 1 show ?thesis by (simp add: digits.simps [of n] digitsVal_snoc)
  qed
qed

lemma digitsVal_zeros: "digitsVal (replicate k (CHR ''0'') @ s) = digitsVal s"
proof -
  have "foldl (\<lambda>a c. 10 * a + (of_char c - 48)) (0::nat) (replicate k (CHR ''0'')) = 0"
    by (induction k) auto
  then show ?thesis by (simp add: digitsVal_def)
qed

lemma digitsVal_pad [simp]: "digitsVal (pad w n) = n"
  by (simp add: pad_def digitsVal_zeros)

lemma pad_inj: "pad w m = pad w n \<Longrightarrow> m = n"
  by (metis digitsVal_pad)

lemma digits_inj: "digits m = digits n \<Longrightarrow> m = n"
  by (metis digitsVal_digits)

lemma length_pad2: "n < 100 \<Longrightarrow> length (pad 2 n) = 2"
proof -
  assume "n < 100"
  then have "n div 10 < 10" by simp
  then show ?thesis by (simp add: pad_def digits.simps [of n] digits.simps [of "n div 10"])
qed

definition isDigit :: "char \<Rightarrow> bool" where
  "isDigit c \<longleftrightarrow> 48 \<le> (of_char c :: nat) \<and> (of_char c :: nat) \<le> 57"

lemma isDigit_char_of: "k < 10 \<Longrightarrow> isDigit (char_of (48 + k))" for k :: nat
  by (simp add: isDigit_def)

lemma digits_numeric: "c \<in> set (digits n) \<Longrightarrow> isDigit c"
proof (induction n rule: digits.induct)
  case (1 n)
  show ?case
  proof (cases "n < 10")
    case True
    with "1.prems" show ?thesis using isDigit_char_of [of n] by (simp add: digits.simps [of n])
  next
    case False
    with 1 show ?thesis using isDigit_char_of [of "n mod 10"] by (auto simp: digits.simps [of n])
  qed
qed

lemma pad_numeric: "c \<in> set (pad w n) \<Longrightarrow> isDigit c"
  using digits_numeric isDigit_char_of [of 0] by (auto simp: pad_def isDigit_def)

text \<open>Splitting at the first separator that the left part cannot contain.\<close>

lemma split_at_sep:
  assumes "a @ c # r = a' @ c # r'" "c \<notin> set a" "c \<notin> set a'"
  shows "a = a' \<and> r = r'"
  using assms
proof (induction a arbitrary: a')
  case Nil
  then show ?case by (cases a') auto
next
  case (Cons x a)
  then show ?case by (cases a') auto
qed

lemma split_at_last_sep:
  assumes "r @ c # a = r' @ c # a'" "c \<notin> set a" "c \<notin> set a'"
  shows "a = a' \<and> r = r'"
proof -
  from assms(1) have "rev (r @ c # a) = rev (r' @ c # a')" by (rule arg_cong)
  then have "rev a @ c # rev r = rev a' @ c # rev r'" by simp
  from split_at_sep [OF this] assms(2,3) show ?thesis by auto
qed

section \<open>Replacing and escaping\<close>

text \<open>\<open>strings.ReplaceAll\<close>: occurrences from the left, none overlapping.\<close>

function replaceFrom :: "string \<Rightarrow> string \<Rightarrow> string \<Rightarrow> string" where
  "replaceFrom p q [] = []"
| "replaceFrom p q (c # s) =
     (if HasPrefix (c # s) p then q @ replaceFrom p q (drop (length p - 1) s) else c # replaceFrom p q s)"
  by pat_completeness auto
termination
  by (relation "measure (\<lambda>(p, q, s). length s)") auto

definition ReplaceAll :: "string \<Rightarrow> string \<Rightarrow> string \<Rightarrow> string" where
  "ReplaceAll s p q = (if p = [] then q @ concat (map (\<lambda>c. c # q) s) else replaceFrom p q s)"

text \<open>\<open>url.QueryEscape\<close> and \<open>url.PathEscape\<close>.\<close>

definition unreserved :: "char \<Rightarrow> bool" where
  "unreserved c \<longleftrightarrow>
     (of_char c \<in> {65..90 :: nat}) \<or> (of_char c \<in> {97..122 :: nat}) \<or> isDigit c \<or> c \<in> set ''-_.~''"

definition hexUpper :: "nat \<Rightarrow> char" where
  "hexUpper n = ''0123456789ABCDEF'' ! n"

definition percent :: "char \<Rightarrow> string" where
  "percent c = [CHR 0x25, hexUpper (of_char c div 16), hexUpper (of_char c mod 16)]"

definition QueryEscape :: "string \<Rightarrow> string" where
  "QueryEscape s = concat (map (\<lambda>c. if c = CHR '' '' then ''+'' else if unreserved c then [c] else percent c) s)"

definition PathEscape :: "string \<Rightarrow> string" where
  "PathEscape s = concat (map (\<lambda>c. if unreserved c \<or> c \<in> set ''$&+=:@'' then [c] else percent c) s)"

lemma hexUpper_set: "n < 16 \<Longrightarrow> hexUpper n \<in> set ''0123456789ABCDEF''"
  unfolding hexUpper_def by (rule nth_mem) simp

lemma of_char_bound: "(of_char c :: nat) < 256"
  by simp

lemma percent_set: "set (percent c) \<subseteq> insert (CHR 0x25) (set ''0123456789ABCDEF'')"
  using hexUpper_set [of "of_char c div 16"] hexUpper_set [of "of_char c mod 16"] of_char_bound [of c]
  by (auto simp: percent_def less_mult_imp_div_less)

lemma escape_no_star: "CHR ''*'' \<notin> set (QueryEscape s)" "CHR ''*'' \<notin> set (PathEscape s)"
proof -
  have p: "CHR ''*'' \<notin> set (percent c)" for c using percent_set [of c] by auto
  have u: "\<not> unreserved (CHR ''*'')" by (simp add: unreserved_def isDigit_def)
  show "CHR ''*'' \<notin> set (QueryEscape s)" using p u by (auto simp: QueryEscape_def split: if_splits)
  show "CHR ''*'' \<notin> set (PathEscape s)" using p u by (auto simp: PathEscape_def split: if_splits)
qed

lemma length_escape: "length s \<le> length (QueryEscape s)" "length s \<le> length (PathEscape s)"
  by (induction s) (auto simp: QueryEscape_def PathEscape_def percent_def)

text \<open>
  A text without a given character occurs in a replaced text only where it occurred before, if
  the replacement consists of that character.
\<close>

lemma Contains_Cons: "Contains (c # s) p \<longleftrightarrow> HasPrefix (c # s) p \<or> Contains s p"
  by (simp add: Contains_def)

lemma Contains_append: "Contains s p \<Longrightarrow> Contains (u @ s) p"
  by (metis Contains_iff append_assoc)

lemma replaceFrom_prefix:
  assumes "HasPrefix (replaceFrom p (replicate (Suc n) x) s) w" "x \<notin> set w"
  shows "HasPrefix s w"
  using assms
proof (induction p "replicate (Suc n) x" s arbitrary: w rule: replaceFrom.induct)
  case (2 p c s)
  show ?case
  proof (cases w)
    case (Cons d w')
    show ?thesis
    proof (cases "HasPrefix (c # s) p")
      case True
      then have "x = d" using "2.prems"(1) Cons by simp
      then show ?thesis using "2.prems"(2) Cons by simp
    next
      case False
      then show ?thesis using "2.prems" "2.hyps"(2) [OF False, of w'] Cons by simp
    qed
  qed simp
qed simp

lemma Contains_replicate_append:
  assumes "Contains (replicate n x @ s) w" "x \<notin> set w" "w \<noteq> []"
  shows "Contains s w"
  using assms(1)
proof (induction n)
  case (Suc n)
  have "\<not> HasPrefix (x # replicate n x @ s) w" using assms(2,3) by (cases w) auto
  then show ?case using Suc by (simp add: Contains_Cons)
qed simp

lemma Contains_replaceFrom:
  assumes "x \<notin> set w" "w \<noteq> []"
  shows "Contains (replaceFrom p (replicate (Suc n) x) s) w \<Longrightarrow> Contains s w"
proof (induction p "replicate (Suc n) x" s rule: replaceFrom.induct)
  case (2 p c s)
  show ?case
  proof (cases "HasPrefix (c # s) p")
    case True
    then have "Contains (replicate (Suc n) x @ replaceFrom p (replicate (Suc n) x) (drop (length p - 1) s)) w"
      using "2.prems" by simp
    then have "Contains (drop (length p - 1) s) w"
      using "2.hyps"(1) [OF True] Contains_replicate_append assms by blast
    then have "Contains (c # take (length p - 1) s @ drop (length p - 1) s) w"
      using Contains_append [of "drop (length p - 1) s" w "c # take (length p - 1) s"] by simp
    then show ?thesis by simp
  next
    case False
    note whole = replaceFrom_prefix [of p n x "c # s" w, OF _ assms(1)]
    from "2.prems" False have "HasPrefix (replaceFrom p (replicate (Suc n) x) (c # s)) w \<or>
        Contains (replaceFrom p (replicate (Suc n) x) s) w"
      by (simp add: Contains_Cons)
    then show ?thesis using whole "2.hyps"(2) [OF False] by (auto simp: Contains_Cons)
  qed
qed simp

lemma replaceFrom_removes:
  assumes "x \<notin> set p" "p \<noteq> []"
  shows "\<not> Contains (replaceFrom p (replicate (Suc n) x) s) p"
  using assms
proof (induction p "replicate (Suc n) x" s rule: replaceFrom.induct)
  case (1 p)
  then show ?case by (simp add: Contains_def)
next
  case (2 p c s)
  show ?case
  proof (cases "HasPrefix (c # s) p")
    case True
    show ?thesis
    proof
      assume "Contains (replaceFrom p (replicate (Suc n) x) (c # s)) p"
      then have "Contains (replicate (Suc n) x @ replaceFrom p (replicate (Suc n) x) (drop (length p - 1) s)) p"
        by (simp add: True)
      from Contains_replicate_append [OF this "2.prems"] "2.hyps"(1) [OF True "2.prems"] show False by blast
    qed
  next
    case False
    have eq: "replaceFrom p (replicate (Suc n) x) (c # s) = c # replaceFrom p (replicate (Suc n) x) s"
      using False by simp
    have "\<not> HasPrefix (replaceFrom p (replicate (Suc n) x) (c # s)) p"
      using replaceFrom_prefix [of p n x "c # s" p] "2.prems"(1) False by blast
    then show ?thesis using "2.hyps"(2) [OF False "2.prems"] unfolding eq Contains_Cons by blast
  qed
qed

end
