(* ===== verification/GoNumbers.thy ===== *)
theory GoNumbers
  imports Prelude
begin

text \<open>
  Go's numbers. \<open>int\<close> and \<open>int64\<close> are 64-bit two's complement: \<open>wrap64\<close> is what an addition
  leaves in the variable. A \<open>float64\<close> is a rational number; an arithmetic operation or a
  decimal constant yields \<open>f64\<close> of the exact result, rounding to 53 significant bits, ties to
  even. Exponents are unbounded here, so overflow to infinity, subnormal numbers and NaN are
  not described; the quantities modelled are prices, scores and limits far inside the range.
  Rounding is shown to be monotone and exact on the integers below \<open>2\<^sup>5\<^sup>3\<close>.
\<close>

section \<open>64-bit integers\<close>

definition wrap64 :: "int \<Rightarrow> int" where
  "wrap64 x = (x + 2 ^ 63) mod 2 ^ 64 - 2 ^ 63"

definition fits64 :: "int \<Rightarrow> bool" where
  "fits64 x \<longleftrightarrow> - (2 ^ 63) \<le> x \<and> x < 2 ^ 63"

lemma wrap64_id: "fits64 x \<Longrightarrow> wrap64 x = x"
  by (simp add: wrap64_def fits64_def)

lemma fits64_wrap64: "fits64 (wrap64 x)"
  by (simp add: wrap64_def fits64_def)

lemma fits64_between: "fits64 a \<Longrightarrow> fits64 b \<Longrightarrow> a \<le> x \<Longrightarrow> x \<le> b \<Longrightarrow> fits64 x"
  by (simp add: fits64_def)

text \<open>\<open>int64(x)\<close> of a float in range: truncation towards zero.\<close>

definition trunc_int :: "rat \<Rightarrow> int" where
  "trunc_int x = (if 0 \<le> x then \<lfloor>x\<rfloor> else - \<lfloor>- x\<rfloor>)"

text \<open>\<open>math.Round\<close>: to the nearest integer, halves away from zero.\<close>

definition math_Round :: "rat \<Rightarrow> rat" where
  "math_Round x = of_int (if 0 \<le> x then \<lfloor>x + 1 / 2\<rfloor> else - \<lfloor>- x + 1 / 2\<rfloor>)"

lemma trunc_int_of_int [simp]: "trunc_int (of_int n) = n"
  by (simp add: trunc_int_def)

lemma trunc_int_nonneg: "0 \<le> x \<Longrightarrow> 0 \<le> trunc_int x"
  by (simp add: trunc_int_def)


section \<open>float64\<close>

function bits :: "int \<Rightarrow> int" where
  "bits n = (if n \<le> 0 then 0 else 1 + bits (n div 2))"
  by pat_completeness auto
termination
  by (relation "measure nat") auto

declare bits.simps [simp del]

definition pow2 :: "int \<Rightarrow> rat" where
  "pow2 e = (if 0 \<le> e then 2 ^ nat e else 1 / 2 ^ nat (- e))"

definition round_half_even :: "rat \<Rightarrow> int" where
  "round_half_even x =
     (let n = \<lfloor>x\<rfloor>; r = x - of_int n
      in if r < 1 / 2 \<or> (r = 1 / 2 \<and> even n) then n else n + 1)"

definition f64_exponent :: "rat \<Rightarrow> int" where
  "f64_exponent a =
     (let (p, q) = quotient_of a; e = bits p - bits q - 53
      in if 2 ^ 53 \<le> a / pow2 e then e + 1 else e)"

definition f64 :: "rat \<Rightarrow> rat" where
  "f64 x = (if x = 0 then 0
     else let e = f64_exponent \<bar>x\<bar> in sgn x * of_int (round_half_even (\<bar>x\<bar> / pow2 e)) * pow2 e)"

lemma pow2_pos [simp]: "0 < pow2 e"
  by (simp add: pow2_def)

lemma round_half_even_nonneg: "0 \<le> x \<Longrightarrow> 0 \<le> round_half_even x"
  by (simp add: round_half_even_def Let_def)

lemma round_half_even_of_int [simp]: "round_half_even (of_int n) = n"
  by (simp add: round_half_even_def Let_def)

lemma f64_0 [simp]: "f64 0 = 0"
  by (simp add: f64_def)

lemma f64_nonneg: "0 \<le> x \<Longrightarrow> 0 \<le> f64 x"
  unfolding f64_def Let_def
  by (auto intro!: mult_nonneg_nonneg round_half_even_nonneg simp: less_imp_le)

lemma bits_le: "n < 2 ^ k \<Longrightarrow> bits n \<le> int k"
proof (induction k arbitrary: n)
  case 0
  then show ?case by (simp add: bits.simps [of n])
next
  case (Suc k)
  from Suc.prems have "n div 2 < 2 ^ k" by simp
  from Suc.IH [OF this] show ?case by (subst bits.simps) simp
qed

text \<open>Integers of magnitude below \<open>2\<^sup>5\<^sup>3\<close> are exact.\<close>

lemma f64_of_int:
  assumes "\<bar>n\<bar> < 2 ^ 53"
  shows "f64 (of_int n) = of_int n"
proof (cases "n = 0")
  case False
  let ?a = "\<bar>n\<bar>"
  from assms have "bits ?a \<le> int 53" by (rule bits_le)
  moreover have "bits 1 = 1" by (simp add: bits.simps [of 1] bits.simps [of 0])
  moreover have "quotient_of (of_int ?a :: rat) = (?a, 1)"
    by (rule quotient_of_rat_of_int)
  ultimately have "f64_exponent (of_int ?a) \<le> 0" by (simp add: f64_exponent_def Let_def del: of_int_abs)
  moreover define e where "e = f64_exponent (of_int ?a)"
  ultimately have e: "e \<le> 0" by simp
  have "of_int ?a / pow2 e = of_int (?a * 2 ^ nat (- e))"
    using e by (auto simp: pow2_def)
  then have "of_int (round_half_even (of_int ?a / pow2 e)) = of_int ?a / pow2 e"
    by (simp only: round_half_even_of_int)
  then have "f64 (of_int n) = sgn (of_int n) * (of_int ?a / pow2 e) * pow2 e"
    using False by (simp add: f64_def Let_def e_def)
  also have "\<dots> = sgn (of_int n) * of_int ?a"
    using less_imp_neq [OF pow2_pos [of e]] by simp
  also have "\<dots> = of_int n" using sgn_mult_abs [of "of_int n :: rat"] by simp
  finally show ?thesis .
qed simp

section \<open>Rounding is monotone\<close>

lemma bits_lower: "0 < n \<Longrightarrow> 2 ^ nat (bits n - 1) \<le> n \<and> 1 \<le> bits n"
proof (induction n rule: bits.induct)
  case (1 n)
  show ?case
  proof (cases "n = 1")
    case True
    then show ?thesis by (simp add: bits.simps [of 1] bits.simps [of 0])
  next
    case False
    with 1 have "0 < n div 2" by simp
    with 1 have IH: "2 ^ nat (bits (n div 2) - 1) \<le> n div 2" "1 \<le> bits (n div 2)" by auto
    have b: "bits n = 1 + bits (n div 2)" using 1(2) by (simp add: bits.simps [of n])
    then have "nat (bits n - 1) = Suc (nat (bits (n div 2) - 1))" using IH(2) by simp
    then have "2 ^ nat (bits n - 1) \<le> 2 * (n div 2)" using IH(1) by simp
    moreover have "2 * (n div 2) \<le> n" by simp
    ultimately show ?thesis using b IH(2) by linarith
  qed
qed

lemma bits_upper: "n < 2 ^ nat (bits n)"
proof (induction n rule: bits.induct)
  case (1 n)
  show ?case
  proof (cases "n \<le> 0")
    case True
    then show ?thesis by (simp add: bits.simps [of n])
  next
    case False
    with 1 have IH: "n div 2 < 2 ^ nat (bits (n div 2))" by simp
    have "0 \<le> bits (n div 2)" using bits_lower [of "n div 2"] by (cases "0 < n div 2") (auto simp: bits.simps [of "n div 2"])
    then have "nat (bits n) = Suc (nat (bits (n div 2)))" using False by (simp add: bits.simps [of n])
    then show ?thesis using IH by simp
  qed
qed

lemma pow2_add: "pow2 (a + b) = pow2 a * pow2 b"
proof -
  have "pow2 e = 2 powi e" for e
    by (cases "0 \<le> e") (simp_all add: pow2_def power_int_def power_one_over)
  then show ?thesis by (simp add: power_int_add)
qed

lemma pow2_nat: "pow2 (int n) = 2 ^ n"
  by (simp add: pow2_def)

lemma pow2_mono: "a \<le> b \<Longrightarrow> pow2 a \<le> pow2 b"
proof -
  assume "a \<le> b"
  then have "pow2 b = pow2 a * 2 ^ nat (b - a)" using pow2_add [of a "b - a"] pow2_nat [of "nat (b - a)"] by simp
  moreover have "(1 :: rat) \<le> 2 ^ nat (b - a)" by simp
  ultimately show ?thesis using mult_left_mono [of 1 "2 ^ nat (b - a)" "pow2 a"] less_imp_le [OF pow2_pos [of a]] by simp
qed

text \<open>The exponent makes the scaled number one of 53 bits.\<close>

lemma f64_exponent_scales:
  assumes "0 < a"
  shows "2 ^ 52 \<le> a / pow2 (f64_exponent a) \<and> a / pow2 (f64_exponent a) < 2 ^ 53"
proof -
  obtain p q where pq: "quotient_of a = (p, q)" by force
  then have q: "0 < q" and a: "a = of_int p / of_int q" using quotient_of_denom_pos quotient_of_div by blast+
  then have p: "0 < p" using assms by (simp add: zero_less_divide_iff)
  define e where "e = bits p - bits q - 53"
  have b1: "1 \<le> bits p" "1 \<le> bits q" using bits_lower [OF p] bits_lower [OF q] by auto
  have pow: "pow2 k = of_int (2 ^ nat k)" if "0 \<le> k" for k using that by (simp add: pow2_def)
  have pl: "pow2 (bits p - 1) \<le> of_int p" and ql: "pow2 (bits q - 1) \<le> of_int q"
    using b1 bits_lower [OF p] bits_lower [OF q] by (simp_all only: pow diff_ge_0_iff_ge of_int_le_iff)
  have pu: "of_int p < pow2 (bits p)" and qu: "of_int q < pow2 (bits q)"
    using b1 bits_upper [of p] bits_upper [of q] by (simp_all only: pow order_trans [OF zero_le_one] of_int_less_iff)
  have lo: "pow2 (bits p - 1 - bits q) \<le> a"
  proof -
    have "pow2 (bits p - 1 - bits q) * of_int q \<le> pow2 (bits p - 1 - bits q) * pow2 (bits q)"
      using qu by (intro mult_left_mono) (simp_all add: less_imp_le)
    also have "\<dots> = pow2 (bits p - 1)" by (simp flip: pow2_add)
    also have "\<dots> \<le> of_int p" by (rule pl)
    finally show ?thesis using q by (simp add: a pos_le_divide_eq)
  qed
  have hi: "a < pow2 (bits p - bits q + 1)"
  proof -
    have "of_int p < pow2 (bits p)" by (rule pu)
    also have "\<dots> = pow2 (bits p - bits q + 1) * pow2 (bits q - 1)" by (simp flip: pow2_add)
    also have "\<dots> \<le> pow2 (bits p - bits q + 1) * of_int q" using ql by (intro mult_left_mono) (simp_all add: less_imp_le)
    finally show ?thesis using q by (simp add: a pos_divide_less_eq)
  qed
  have c: "(2 :: rat) ^ 52 = pow2 52" "(2 :: rat) ^ 53 = pow2 53" "(2 :: rat) ^ 54 = pow2 54" by (simp_all add: pow2_def)
  have scaled: "pow2 52 \<le> a / pow2 e" "a / pow2 e < pow2 54"
    using lo hi by (simp_all add: pos_le_divide_eq pos_divide_less_eq e_def flip: pow2_add) (simp_all add: algebra_simps)
  show ?thesis
  proof (cases "2 ^ 53 \<le> a / pow2 e")
    case True
    then have "f64_exponent a = e + 1" by (simp add: f64_exponent_def pq Let_def e_def)
    moreover have "pow2 (e + 1) = pow2 e * 2" by (simp add: pow2_add) (simp add: pow2_def)
    ultimately have half: "a / pow2 (f64_exponent a) = a / pow2 e / 2" by simp
    show ?thesis unfolding half using True scaled(2) c(3) by (simp del: divide_divide_eq_left)
  next
    case False
    then have "f64_exponent a = e" by (simp add: f64_exponent_def pq Let_def e_def)
    then show ?thesis using False scaled(1) c(1) by simp
  qed
qed

lemma round_half_even_mono: "x \<le> y \<Longrightarrow> round_half_even x \<le> round_half_even y"
proof -
  assume "x \<le> y"
  then have fl: "\<lfloor>x\<rfloor> \<le> \<lfloor>y\<rfloor>" by (rule floor_mono)
  show ?thesis
  proof (cases "\<lfloor>x\<rfloor> = \<lfloor>y\<rfloor>")
    case True
    then have "x - of_int \<lfloor>x\<rfloor> \<le> y - of_int \<lfloor>y\<rfloor>" using \<open>x \<le> y\<close> by simp
    then show ?thesis using True by (auto simp: round_half_even_def Let_def)
  next
    case False
    then show ?thesis using fl by (auto simp: round_half_even_def Let_def)
  qed
qed

lemma f64_pos:
  assumes "0 < x"
  shows "f64 x = of_int (round_half_even (x / pow2 (f64_exponent x))) * pow2 (f64_exponent x)"
  using assms by (simp add: f64_def Let_def)

lemma f64_neg: "f64 (- x) = - f64 x"
  by (simp add: f64_def Let_def sgn_minus)

lemma f64_bounds:
  assumes "0 < x"
  shows "2 ^ 52 * pow2 (f64_exponent x) \<le> f64 x \<and> f64 x \<le> 2 ^ 53 * pow2 (f64_exponent x)"
proof -
  let ?y = "x / pow2 (f64_exponent x)"
  have "of_int (2 ^ 52) \<le> ?y" "?y \<le> of_int (2 ^ 53)" using f64_exponent_scales [OF assms] by simp_all
  from this [THEN round_half_even_mono] have "2 ^ 52 \<le> round_half_even ?y" "round_half_even ?y \<le> 2 ^ 53"
    by (simp_all only: round_half_even_of_int)
  then have "(of_int (2 ^ 52) :: rat) \<le> of_int (round_half_even ?y)" "(of_int (round_half_even ?y) :: rat) \<le> of_int (2 ^ 53)"
    by (simp_all only: of_int_le_iff)
  then have "2 ^ 52 * pow2 (f64_exponent x) \<le> of_int (round_half_even ?y) * pow2 (f64_exponent x)"
      "of_int (round_half_even ?y) * pow2 (f64_exponent x) \<le> 2 ^ 53 * pow2 (f64_exponent x)"
    by (intro mult_right_mono; simp add: less_imp_le)+
  then show ?thesis by (simp only: f64_pos [OF assms])
qed

lemma f64_exponent_mono:
  assumes "0 < x" "x \<le> y"
  shows "f64_exponent x \<le> f64_exponent y"
proof (rule ccontr)
  assume "\<not> ?thesis"
  then have "pow2 (f64_exponent y + 1) \<le> pow2 (f64_exponent x)" by (intro pow2_mono) simp
  moreover have "pow2 (f64_exponent y + 1) = 2 * pow2 (f64_exponent y)" by (simp add: pow2_add) (simp add: pow2_def)
  moreover have "2 ^ 52 * pow2 (f64_exponent x) \<le> x" using f64_exponent_scales [OF assms(1)] by (simp add: pos_le_divide_eq)
  moreover have "y < 2 ^ 53 * pow2 (f64_exponent y)" using f64_exponent_scales [of y] assms by (simp add: pos_divide_less_eq)
  ultimately show False using assms(2) by simp
qed

lemma f64_mono_pos:
  assumes "0 < x" "x \<le> y"
  shows "f64 x \<le> f64 y"
proof (cases "f64_exponent x = f64_exponent y")
  case True
  have "x / pow2 (f64_exponent y) \<le> y / pow2 (f64_exponent y)" using assms(2) by (simp add: divide_right_mono less_imp_le)
  then have "round_half_even (x / pow2 (f64_exponent y)) \<le> round_half_even (y / pow2 (f64_exponent y))" by (rule round_half_even_mono)
  then have "(of_int (round_half_even (x / pow2 (f64_exponent y))) :: rat) \<le> of_int (round_half_even (y / pow2 (f64_exponent y)))"
    by (simp only: of_int_le_iff)
  then show ?thesis using assms True by (simp add: f64_pos mult_right_mono less_imp_le)
next
  case False
  then have "pow2 (f64_exponent x + 1) \<le> pow2 (f64_exponent y)" using f64_exponent_mono [OF assms] by (intro pow2_mono) simp
  moreover have "pow2 (f64_exponent x + 1) = 2 * pow2 (f64_exponent x)" by (simp add: pow2_add) (simp add: pow2_def)
  ultimately show ?thesis using f64_bounds [of x] f64_bounds [of y] assms by simp
qed

lemma f64_mono: "x \<le> y \<Longrightarrow> f64 x \<le> f64 y"
proof (cases "0 < x \<or> y < 0")
  case True
  assume "x \<le> y"
  with True show ?thesis using f64_mono_pos [of x y] f64_mono_pos [of "- y" "- x"] by (auto simp: f64_neg)
next
  case False
  then show ?thesis using f64_nonneg [of y] f64_nonneg [of "- x"] by (simp add: f64_neg)
qed

lemma f64_le_int: "x \<le> of_int n \<Longrightarrow> \<bar>n\<bar> < 2 ^ 53 \<Longrightarrow> f64 x \<le> of_int n"
  using f64_mono [of x "of_int n"] f64_of_int by simp

lemma f64_ge_int: "of_int n \<le> x \<Longrightarrow> \<bar>n\<bar> < 2 ^ 53 \<Longrightarrow> of_int n \<le> f64 x"
  using f64_mono [of "of_int n" x] f64_of_int by simp

lemma math_Round_mono: "x \<le> y \<Longrightarrow> math_Round x \<le> math_Round y"
proof -
  assume le: "x \<le> y"
  show ?thesis
  proof (cases "0 \<le> x \<or> y < 0")
    case True
    then show ?thesis using le
      by (auto simp: math_Round_def intro!: floor_mono)
  next
    case False
    then have "0 \<le> \<lfloor>- x + 1 / 2\<rfloor>" "0 \<le> \<lfloor>y + 1 / 2\<rfloor>" by simp_all
    then have "- \<lfloor>- x + 1 / 2\<rfloor> \<le> \<lfloor>y + 1 / 2\<rfloor>" by linarith
    then have "(of_int (- \<lfloor>- x + 1 / 2\<rfloor>) :: rat) \<le> of_int \<lfloor>y + 1 / 2\<rfloor>" by (simp only: of_int_le_iff)
    then show ?thesis using False by (simp add: math_Round_def)
  qed
qed

lemma math_Round_of_int [simp]: "math_Round (of_int n) = of_int n"
proof -
  have "\<lfloor>of_int m + 1 / 2 :: rat\<rfloor> = m" for m by (simp add: floor_eq_iff)
  from this [of n] this [of "- n"] show ?thesis by (simp add: math_Round_def)
qed

section \<open>Square roots\<close>

text \<open>\<open>math.Sqrt\<close> is correctly rounded: the root of a scaled number to more than 54 bits and one bit that says whether
anything is left over decide the rounding.\<close>

function isqrt :: "int \<Rightarrow> int" where
  "isqrt n = (if n \<le> 0 then 0 else let r = 2 * isqrt (n div 4) in if (r + 1) * (r + 1) \<le> n then r + 1 else r)"
  by pat_completeness auto
termination
  by (relation "measure nat") auto

declare isqrt.simps [simp del]

definition f64_sqrt :: "rat \<Rightarrow> rat" where
  "f64_sqrt x =
     (if x \<le> 0 then 0
      else
        let (p, q) = quotient_of x;
            k = nat (64 + bits q);
            r = isqrt (p * 4 ^ k div q)
        in f64 (if r * r * q = p * 4 ^ k then of_int r / 2 ^ k else of_int (2 * r + 1) / 2 ^ (k + 1)))"

lemma isqrt_spec: "0 \<le> n \<Longrightarrow> 0 \<le> isqrt n \<and> isqrt n * isqrt n \<le> n \<and> n < (isqrt n + 1) * (isqrt n + 1)"
proof (induction n rule: isqrt.induct)
  case (1 n)
  show ?case
  proof (cases "n = 0")
    case True
    then show ?thesis by (simp add: isqrt.simps)
  next
    case False
    let ?s = "isqrt (n div 4)"
    have s: "0 \<le> ?s" "?s * ?s \<le> n div 4" "n div 4 < (?s + 1) * (?s + 1)" using 1 False by simp_all
    then have "4 * (?s * ?s) \<le> n" "n < 4 * ((?s + 1) * (?s + 1))" by linarith+
    then show ?thesis using False 1(2) s(1) by (simp add: isqrt.simps [of n] Let_def algebra_simps)
  qed
qed

end
