(* ===== verification/RateLimit.thy ===== *)
theory RateLimit
  imports GoTime GoStrings GoNumbers
begin

text \<open>
  The gateway's quota enforcement (\<open>llm/gateway/ratelimit\<close>): limits, calendar buckets, counter
  keys and lifetimes (types.go), the counter-store interface and its in-memory implementation
  (store.go) and the limiter (limiter.go).

  A counter store is a record of operations over a state type; each operation returns the new
  state and \<open>Inl\<close> of an error or \<open>Inr\<close> of its answer. The in-memory store reads the clock
  itself, so its operations take the instant \<open>time.Now()\<close> returned, apart from the instant the
  limiter's injectable clock returned. Metrics and periods are strings, as in the code, whose
  switches have default branches. \<open>Value\<close> is a float64.
\<close>

section \<open>Limits, buckets and keys\<close>

definition MetricRequests :: string where "MetricRequests = ''requests''"
definition MetricTokens :: string where "MetricTokens = ''tokens''"
definition MetricCost :: string where "MetricCost = ''cost''"

definition PeriodMinute :: string where "PeriodMinute = ''minute''"
definition PeriodHour :: string where "PeriodHour = ''hour''"
definition PeriodDay :: string where "PeriodDay = ''day''"
definition PeriodMonth :: string where "PeriodMonth = ''month''"

lemmas metric_defs = MetricRequests_def MetricTokens_def MetricCost_def
lemmas period_defs = PeriodMinute_def PeriodHour_def PeriodDay_def PeriodMonth_def

definition costScale :: rat where "costScale = 1000000"

record Limit =
  lim_TenantID :: string
  lim_UserID :: string
  lim_APIKeyID :: string
  lim_Model :: string
  lim_Metric :: string
  lim_Period :: string
  lim_Value :: rat
  lim_Enabled :: bool

definition intCap :: "Limit \<Rightarrow> int" where
  "intCap l =
     (if lim_Metric l = MetricCost then trunc_int (f64 (lim_Value l * costScale))
      else trunc_int (lim_Value l))"

record Scope =
  sc_TenantID :: string
  sc_UserID :: string
  sc_APIKeyID :: string
  sc_Model :: string

record Exceeded =
  ex_Metric :: string
  ex_Period :: string
  ex_Limit :: rat
  ex_Scope :: string

text \<open>\<open>t.Format\<close> with the four layouts of \<open>bucket\<close>.\<close>

definition fmtMonth :: "instant \<Rightarrow> string" where
  "fmtMonth t = (let (y, m, d) = Date (t div Day) in pad 4 (nat y) @ ''-'' @ pad 2 (nat m))"

definition fmtDay :: "instant \<Rightarrow> string" where
  "fmtDay t = (let (y, m, d) = Date (t div Day) in fmtMonth t @ ''-'' @ pad 2 (nat d))"

definition fmtHour :: "instant \<Rightarrow> string" where
  "fmtHour t = fmtDay t @ ''T'' @ pad 2 (nat (t div Hour mod 24))"

definition fmtMinute :: "instant \<Rightarrow> string" where
  "fmtMinute t = fmtHour t @ '':'' @ pad 2 (nat (t div Minute mod 60))"

definition bucket :: "string \<Rightarrow> instant \<Rightarrow> string" where
  "bucket p t =
     (if p = PeriodMinute then fmtMinute t
      else if p = PeriodHour then fmtHour t
      else if p = PeriodDay then fmtDay t
      else if p = PeriodMonth then fmtMonth t
      else fmtMinute t)"

definition ResetAt :: "string \<Rightarrow> instant \<Rightarrow> instant" where
  "ResetAt p t =
     (if p = PeriodMinute then Truncate t Minute + Minute
      else if p = PeriodHour then Truncate t Hour + Hour
      else if p = PeriodDay then (let (y, m, d) = Date (t div Day) in Date_days y m (d + 1) * Day)
      else if p = PeriodMonth then (let (y, m, d) = Date (t div Day) in Date_days y (m + 1) 1 * Day)
      else Truncate t Minute + Minute)"

definition ttl :: "string \<Rightarrow> duration" where
  "ttl p =
     (if p = PeriodMinute then 2 * Minute
      else if p = PeriodHour then 2 * Hour
      else if p = PeriodDay then 48 * Hour
      else if p = PeriodMonth then 32 * 24 * Hour
      else 2 * Minute)"

definition key :: "string \<Rightarrow> string \<Rightarrow> string \<Rightarrow> string \<Rightarrow> string \<Rightarrow> string \<Rightarrow> instant \<Rightarrow> string" where
  "key tenant user apiKey model m p t =
     (let user = (if user = '''' then ''-'' else user);
          apiKey = (if apiKey = '''' then ''-'' else apiKey);
          model = (if model = '''' then ''-'' else model)
      in ''rl:'' @ tenant @ '':'' @ user @ '':'' @ apiKey @ '':'' @ model @ '':'' @ m @ '':'' @ p
         @ '':'' @ bucket p t)"

definition limKey :: "Limit \<Rightarrow> instant \<Rightarrow> string" where
  "limKey l t = key (lim_TenantID l) (lim_UserID l) (lim_APIKeyID l) (lim_Model l)
     (lim_Metric l) (lim_Period l) t"


section \<open>The counter store\<close>

record 's CounterStore =
  cs_CheckAndIncr :: "string \<Rightarrow> int \<Rightarrow> int \<Rightarrow> duration \<Rightarrow> 's \<Rightarrow> 's \<times> (bool \<times> int) result"
  cs_Get :: "string \<Rightarrow> 's \<Rightarrow> 's \<times> int result"
  cs_Add :: "string \<Rightarrow> int \<Rightarrow> duration \<Rightarrow> 's \<Rightarrow> 's \<times> unit result"

record memEntry =
  me_val :: int
  me_expires :: instant

type_synonym memStore = "string \<rightharpoonup> memEntry"

text \<open>\<open>cur\<close> deletes an expired (or absent) entry and returns the live value.\<close>

definition mem_cur :: "string \<Rightarrow> instant \<Rightarrow> memStore \<Rightarrow> memStore \<times> int" where
  "mem_cur k now m =
     (case m k of
        None \<Rightarrow> (m(k := None), 0)
      | Some e \<Rightarrow> if now > me_expires e then (m(k := None), 0) else (m, me_val e))"

definition mem_CheckAndIncr ::
  "instant \<Rightarrow> string \<Rightarrow> int \<Rightarrow> int \<Rightarrow> duration \<Rightarrow> memStore \<Rightarrow> memStore \<times> (bool \<times> int) result" where
  "mem_CheckAndIncr now k delta capVal d m =
     (let (m, c) = mem_cur k now m
      in if wrap64 (c + delta) > capVal then (m, Inr (False, c))
         else (m(k \<mapsto> \<lparr>me_val = wrap64 (c + delta), me_expires = now + d\<rparr>),
               Inr (True, wrap64 (c + delta))))"

definition mem_Get :: "instant \<Rightarrow> string \<Rightarrow> memStore \<Rightarrow> memStore \<times> int result" where
  "mem_Get now k m = (let (m, c) = mem_cur k now m in (m, Inr c))"

definition mem_Add :: "instant \<Rightarrow> string \<Rightarrow> int \<Rightarrow> duration \<Rightarrow> memStore \<Rightarrow> memStore \<times> unit result" where
  "mem_Add now k delta d m =
     (let (m, c) = mem_cur k now m;
          exp = (case m k of
                   Some e \<Rightarrow> if now < me_expires e then me_expires e else now + d
                 | None \<Rightarrow> now + d)
      in (m(k \<mapsto> \<lparr>me_val = wrap64 (c + delta), me_expires = exp\<rparr>), Inr ()))"

definition NewMemStore :: memStore where "NewMemStore = Map.empty"

definition memCounterStore :: "instant \<Rightarrow> memStore CounterStore" where
  "memCounterStore now =
     \<lparr>cs_CheckAndIncr = mem_CheckAndIncr now, cs_Get = mem_Get now, cs_Add = mem_Add now\<rparr>"


section \<open>The limiter\<close>

type_synonym LimitSource = "string \<Rightarrow> string \<Rightarrow> string \<Rightarrow> string \<Rightarrow> Limit list"

text \<open>A nil limiter, a nil store and a nil limit source are \<open>None\<close>.\<close>

record 's Limiter =
  lm_store :: "'s CounterStore option"
  lm_limits :: "LimitSource option"

definition Enabled :: "'s Limiter option \<Rightarrow> bool" where
  "Enabled lo = (case lo of None \<Rightarrow> False | Some l \<Rightarrow> lm_store l \<noteq> None \<and> lm_limits l \<noteq> None)"

definition exceeded :: "Limit \<Rightarrow> Exceeded" where
  "exceeded l =
     \<lparr>ex_Metric = lim_Metric l, ex_Period = lim_Period l, ex_Limit = lim_Value l,
      ex_Scope =
        (if lim_APIKeyID l \<noteq> '''' \<and> lim_Model l \<noteq> '''' then ''key+model''
         else if lim_APIKeyID l \<noteq> '''' then ''key''
         else if lim_UserID l \<noteq> '''' then ''user''
         else ''tenant'')\<rparr>"

text \<open>The loop of \<open>Check\<close> over the limits that apply to a scope.\<close>

fun checkLoop :: "'s CounterStore \<Rightarrow> instant \<Rightarrow> Scope \<Rightarrow> Limit list \<Rightarrow> 's \<Rightarrow> 's \<times> Exceeded option" where
  "checkLoop cs now s [] st = (st, None)"
| "checkLoop cs now s (l # lims) st =
     (if \<not> lim_Enabled l then checkLoop cs now s lims st
      else if lim_Model l \<noteq> '''' \<and> lim_Model l \<noteq> sc_Model s then checkLoop cs now s lims st
      else
        let k = limKey l now
        in if lim_Metric l = MetricRequests then
             (case cs_CheckAndIncr cs k 1 (intCap l) (ttl (lim_Period l)) st of
                (st', Inl err) \<Rightarrow> checkLoop cs now s lims st'
              | (st', Inr (allowed, c)) \<Rightarrow>
                  if \<not> allowed then (st', Some (exceeded l)) else checkLoop cs now s lims st')
           else if lim_Metric l = MetricTokens \<or> lim_Metric l = MetricCost then
             (case cs_Get cs k st of
                (st', Inl err) \<Rightarrow> checkLoop cs now s lims st'
              | (st', Inr cur) \<Rightarrow>
                  if cur \<ge> intCap l then (st', Some (exceeded l)) else checkLoop cs now s lims st')
           else checkLoop cs now s lims st)"

definition Check :: "'s Limiter option \<Rightarrow> instant \<Rightarrow> Scope \<Rightarrow> 's \<Rightarrow> 's \<times> Exceeded option" where
  "Check lo now s st =
     (if \<not> Enabled lo then (st, None)
      else checkLoop (the (lm_store (the lo))) now s
        (the (lm_limits (the lo)) (sc_TenantID s) (sc_UserID s) (sc_APIKeyID s) (sc_Model s)) st)"

fun reconcileLoop :: "'s CounterStore \<Rightarrow> instant \<Rightarrow> Scope \<Rightarrow> int \<Rightarrow> rat \<Rightarrow> Limit list \<Rightarrow> 's \<Rightarrow> 's" where
  "reconcileLoop cs now s tokens costUSD [] st = st"
| "reconcileLoop cs now s tokens costUSD (l # lims) st =
     (if \<not> lim_Enabled l then reconcileLoop cs now s tokens costUSD lims st
      else if lim_Model l \<noteq> '''' \<and> lim_Model l \<noteq> sc_Model s
        then reconcileLoop cs now s tokens costUSD lims st
      else if lim_Metric l \<noteq> MetricTokens \<and> lim_Metric l \<noteq> MetricCost
        then reconcileLoop cs now s tokens costUSD lims st
      else
        let delta = (if lim_Metric l = MetricTokens then tokens
                     else trunc_int (f64 (costUSD * costScale)))
        in if delta \<le> 0 then reconcileLoop cs now s tokens costUSD lims st
           else case cs_Add cs (limKey l now) delta (ttl (lim_Period l)) st of
               (st', answer) \<Rightarrow> reconcileLoop cs now s tokens costUSD lims st')"

definition Reconcile :: "'s Limiter option \<Rightarrow> instant \<Rightarrow> Scope \<Rightarrow> int \<Rightarrow> rat \<Rightarrow> 's \<Rightarrow> 's" where
  "Reconcile lo now s tokens costUSD st =
     (if \<not> Enabled lo then st
      else reconcileLoop (the (lm_store (the lo))) now s tokens costUSD
        (the (lm_limits (the lo)) (sc_TenantID s) (sc_UserID s) (sc_APIKeyID s) (sc_Model s)) st)"

section \<open>Calendar windows\<close>

lemma duration_pos [simp]: "0 < Minute" "0 < Hour" "0 < Day"
  by (simp_all add: duration_defs)

lemma Date_fields:
  assumes "0 \<le> t" "Date (t div Day) = (y, m, d)"
  shows "1 \<le> y" "1 \<le> m" "m \<le> 12" "1 \<le> d" "d \<le> 31"
proof -
  have t: "0 \<le> t div Day" using assms(1) by (simp add: pos_imp_zdiv_nonneg_iff)
  from Date_year_pos [OF t assms(2)] Date_spec [OF t assms(2)] days_in_month_le [of y m]
  show "1 \<le> y" "1 \<le> m" "m \<le> 12" "1 \<le> d" "d \<le> 31" by auto
qed

lemma append_pad2_eq:
  "0 \<le> a \<Longrightarrow> a < 100 \<Longrightarrow> 0 \<le> b \<Longrightarrow> b < 100 \<Longrightarrow>
    u @ c # pad 2 (nat a) = v @ c # pad 2 (nat b) \<longleftrightarrow> u = v \<and> a = b"
  using append_eq_append_conv [of "c # pad 2 (nat a)" "c # pad 2 (nat b)" u v]
  by (auto simp: length_pad2 dest: pad_inj)

lemma month_pair_eq:
  fixes m m' y y' :: int
  assumes "1 \<le> m" "m \<le> 12" "1 \<le> m'" "m' \<le> 12"
  shows "12 * y + (m - 1) = 12 * y' + (m' - 1) \<longleftrightarrow> y = y' \<and> m = m'"
proof
  assume e: "12 * y + (m - 1) = 12 * y' + (m' - 1)"
  then have "\<not> y + 1 \<le> y'" "\<not> y' + 1 \<le> y" using assms by linarith+
  then have "y = y'" by simp
  with e show "y = y' \<and> m = m'" by simp
qed simp

lemma fmtMonth_eq:
  assumes "0 \<le> t" "0 \<le> t'"
  shows "fmtMonth t = fmtMonth t' \<longleftrightarrow> month_no (t div Day) = month_no (t' div Day)"
proof -
  obtain y m d where D: "Date (t div Day) = (y, m, d)" by (cases "Date (t div Day)")
  obtain y' m' d' where D': "Date (t' div Day) = (y', m', d')" by (cases "Date (t' div Day)")
  note f = Date_fields [OF assms(1) D] Date_fields [OF assms(2) D']
  have "fmtMonth t = fmtMonth t' \<longleftrightarrow> pad 4 (nat y) = pad 4 (nat y') \<and> m = m'"
    using f by (simp add: fmtMonth_def D D' append_pad2_eq)
  also have "\<dots> \<longleftrightarrow> y = y' \<and> m = m'" using f pad_inj [of 4 "nat y" "nat y'"] by auto
  also have "\<dots> \<longleftrightarrow> 12 * y + (m - 1) = 12 * y' + (m' - 1)" using f by (simp only: month_pair_eq)
  finally show ?thesis by (simp add: month_no_def D D')
qed

lemma fmtDay_eq:
  assumes "0 \<le> t" "0 \<le> t'"
  shows "fmtDay t = fmtDay t' \<longleftrightarrow> t div Day = t' div Day"
proof -
  obtain y m d where D: "Date (t div Day) = (y, m, d)" by (cases "Date (t div Day)")
  obtain y' m' d' where D': "Date (t' div Day) = (y', m', d')" by (cases "Date (t' div Day)")
  note f = Date_fields [OF assms(1) D] Date_fields [OF assms(2) D']
  have "fmtDay t = fmtDay t' \<longleftrightarrow> fmtMonth t = fmtMonth t' \<and> d = d'"
    using f by (simp add: fmtDay_def D D' append_pad2_eq)
  also have "\<dots> \<longleftrightarrow> 12 * y + (m - 1) = 12 * y' + (m' - 1) \<and> d = d'"
    by (simp only: fmtMonth_eq [OF assms] month_no_def D D' Let_def prod.case)
  also have "\<dots> \<longleftrightarrow> Date (t div Day) = Date (t' div Day)" using f by (simp add: D D' month_pair_eq)
  also have "\<dots> \<longleftrightarrow> t div Day = t' div Day"
    using assms by (intro Date_inj) (simp_all add: pos_imp_zdiv_nonneg_iff)
  finally show ?thesis .
qed

lemma div_refine: "a div b = c div b \<and> a mod b = c mod b \<longleftrightarrow> a = c" for a b c :: int
  by (metis div_mult_mod_eq)

lemma fmtHour_eq:
  assumes "0 \<le> t" "0 \<le> t'"
  shows "fmtHour t = fmtHour t' \<longleftrightarrow> t div Hour = t' div Hour"
proof -
  have "t div Day = t div Hour div 24" for t by (simp add: Day_def mult.commute zdiv_zmult2_eq)
  then have "fmtHour t = fmtHour t' \<longleftrightarrow>
      t div Hour div 24 = t' div Hour div 24 \<and> t div Hour mod 24 = t' div Hour mod 24"
    by (simp add: fmtHour_def append_pad2_eq fmtDay_eq [OF assms] pos_mod_bound [THEN order_less_trans])
  then show ?thesis by (simp only: div_refine)
qed

lemma fmtMinute_eq:
  assumes "0 \<le> t" "0 \<le> t'"
  shows "fmtMinute t = fmtMinute t' \<longleftrightarrow> t div Minute = t' div Minute"
proof -
  have "t div Hour = t div Minute div 60" for t by (simp add: Hour_def mult.commute zdiv_zmult2_eq)
  then have "fmtMinute t = fmtMinute t' \<longleftrightarrow>
      t div Minute div 60 = t' div Minute div 60 \<and> t div Minute mod 60 = t' div Minute mod 60"
    by (simp add: fmtMinute_def append_pad2_eq fmtHour_eq [OF assms] pos_mod_bound [THEN order_less_trans])
  then show ?thesis by (simp only: div_refine)
qed

text \<open>A new day starts at \<open>ResetAt\<close> of the day, a new month at \<open>ResetAt\<close> of the month.\<close>

lemma ResetAt_day:
  assumes "0 \<le> t"
  shows "ResetAt PeriodDay t = (t div Day + 1) * Day"
proof -
  obtain y m d where D: "Date (t div Day) = (y, m, d)" by (cases "Date (t div Day)")
  have "0 \<le> t div Day" using assms by (simp add: pos_imp_zdiv_nonneg_iff)
  from Date_days_Date [OF this D] have "Date_days y m (d + 1) = t div Day + 1"
    by (simp add: Date_days_def Let_def)
  then show ?thesis by (simp add: ResetAt_def period_defs D)
qed

lemma ResetAt_month: "ResetAt PeriodMonth t = month_start (month_no (t div Day) + 1) * Day"
proof -
  obtain y m d where D: "Date (t div Day) = (y, m, d)" by (cases "Date (t div Day)")
  show ?thesis
    using Date_days_month_start [of y m]
    by (simp add: ResetAt_def period_defs D month_no_def algebra_simps)
qed

lemma div_less_iff: "0 < d \<Longrightarrow> t div d < n \<longleftrightarrow> t < n * d" for d t n :: int
proof
  assume d: "0 < d" and "t div d < n"
  then have "(t div d + 1) * d \<le> n * d" by (intro mult_right_mono) auto
  moreover have "t < (t div d + 1) * d"
    using pos_mod_bound [OF d, of t] div_mult_mod_eq [of t d] unfolding distrib_right by linarith
  ultimately show "t < n * d" by simp
next
  assume d: "0 < d" and lt: "t < n * d"
  show "t div d < n"
  proof (rule ccontr)
    assume "\<not> t div d < n"
    then have "n * d \<le> t div d * d" using d by (intro mult_right_mono) auto
    moreover have "t div d * d \<le> t" using pos_mod_sign [OF d, of t] div_mult_mod_eq [of t d] by linarith
    ultimately show False using lt by simp
  qed
qed

lemma bucket_window:
  assumes "0 \<le> t" "t \<le> t'"
  shows "bucket p t' = bucket p t \<longleftrightarrow> t' < ResetAt p t"
proof -
  have t': "0 \<le> t'" using assms by simp
  note nm = next_multiple [OF _ assms(2)]
  consider (day) "p = PeriodDay" | (month) "p = PeriodMonth" | (hour) "p = PeriodHour"
    | (other) "p \<notin> {PeriodDay, PeriodMonth, PeriodHour}" by auto
  then show ?thesis
  proof cases
    case day
    have "t' div Day = t div Day \<longleftrightarrow> t' < (t div Day + 1) * Day"
      using nm [of Day] by (simp add: distrib_right)
    with day show ?thesis
      unfolding day ResetAt_day [OF assms(1)]
      by (simp add: bucket_def period_defs fmtDay_eq [OF t' assms(1)])
  next
    case month
    have "0 \<le> t div Day" "t div Day \<le> t' div Day"
      using assms by (simp_all add: pos_imp_zdiv_nonneg_iff zdiv_mono1)
    from month_no_eq [OF this] show ?thesis
      unfolding month ResetAt_month
      by (simp add: bucket_def period_defs fmtMonth_eq [OF t' assms(1)] div_less_iff)
  next
    case hour
    show ?thesis
      using nm [of Hour] unfolding hour
      by (simp add: bucket_def ResetAt_def period_defs fmtHour_eq [OF t' assms(1)] Truncate_eq)
  next
    case other
    then show ?thesis
      using nm [of Minute]
      by (auto simp: bucket_def ResetAt_def fmtMinute_eq [OF t' assms(1)] Truncate_eq)
  qed
qed

lemma ResetAt_ttl:
  assumes "0 \<le> t"
  shows "t < ResetAt p t \<and> ResetAt p t + Minute \<le> t + ttl p"
proof -
  have "t < ResetAt p t" using bucket_window [OF assms order_refl, of p] by simp
  moreover have "ResetAt p t + Minute \<le> t + ttl p"
  proof -
    have mh: "Minute \<le> Hour" "Minute \<le> Day" by (simp_all add: duration_defs)
    have tr: "t div d * d + d \<le> t + d" if "0 < d" for d
      using that pos_mod_sign [OF that, of t] div_mult_mod_eq [of t d] by linarith
    consider (day) "p = PeriodDay" | (month) "p = PeriodMonth" | (hour) "p = PeriodHour"
      | (other) "p \<notin> {PeriodDay, PeriodMonth, PeriodHour}" by auto
    then show ?thesis
    proof cases
      case day
      have "(t div Day + 1) * Day + Minute \<le> t + 2 * Day"
        using tr [of Day] mh by (simp add: distrib_right)
      then show ?thesis
        unfolding day ResetAt_day [OF assms] by (simp add: ttl_def period_defs Day_def)
    next
      case month
      let ?d = "t div Day"
      have "month_start (month_no ?d) \<le> ?d"
        using month_no_bounds [of ?d] assms by (simp add: pos_imp_zdiv_nonneg_iff)
      then have "month_start (month_no ?d + 1) \<le> ?d + 31"
        using month_start_Suc [of "month_no ?d"]
          days_in_month_le [of "month_no ?d div 12" "month_no ?d mod 12 + 1"] by simp
      then have "month_start (month_no ?d + 1) * Day \<le> (?d + 31) * Day"
        using duration_pos(3) by (intro mult_right_mono) (simp_all del: duration_pos)
      also have "\<dots> \<le> t + 31 * Day" using tr [of Day] by (simp add: distrib_right)
      finally have "month_start (month_no ?d + 1) * Day + Minute \<le> t + 32 * Day" using mh by simp
      then show ?thesis
        unfolding month ResetAt_month by (simp add: ttl_def period_defs Day_def)
    next
      case hour
      then show ?thesis using tr [of Hour] mh
        by (simp add: ResetAt_def ttl_def period_defs Truncate_eq)
    next
      case other
      then show ?thesis using tr [of Minute] by (auto simp: ResetAt_def ttl_def Truncate_eq)
    qed
  qed
  ultimately show ?thesis ..
qed

section \<open>Keys\<close>

lemma pad_no: "\<not> isDigit c \<Longrightarrow> c \<notin> set (pad w n)"
  using pad_numeric by blast

lemma pad_filter: "\<not> isDigit c \<Longrightarrow> filter ((=) c) (pad w n) = []"
  using pad_no by (auto simp: filter_empty_conv)

lemma not_digit [simp]: "\<not> isDigit CHR '':''" "\<not> isDigit CHR ''-''" "\<not> isDigit CHR ''T''"
  by (simp_all add: isDigit_def)

lemmas fmt_defs = fmtMonth_def fmtDay_def fmtHour_def

lemma fmt_no_colon [simp]:
  "CHR '':'' \<notin> set (fmtMonth t)" "CHR '':'' \<notin> set (fmtDay t)" "CHR '':'' \<notin> set (fmtHour t)"
  by (simp_all add: fmt_defs pad_no split: prod.splits)

lemma fmt_dashes:
  "length (filter ((=) CHR ''-'') (fmtMonth t)) = 1"
  "length (filter ((=) CHR ''-'') (fmtDay t)) = 2"
  "length (filter ((=) CHR ''-'') (pad w n)) = 0"
  by (simp_all add: fmt_defs pad_filter split: prod.splits)

lemma fmt_T: "CHR ''T'' \<in> set (fmtHour t)" "CHR ''T'' \<notin> set (fmtDay t)" "CHR ''T'' \<notin> set (fmtMonth t)"
  "CHR ''T'' \<notin> set (pad w n)"
  by (simp_all add: fmt_defs pad_no split: prod.splits)

definition knownPeriod :: "string \<Rightarrow> bool" where
  "knownPeriod p \<longleftrightarrow> p \<in> {PeriodMinute, PeriodHour, PeriodDay, PeriodMonth}"

definition knownMetric :: "string \<Rightarrow> bool" where
  "knownMetric m \<longleftrightarrow> m \<in> {MetricRequests, MetricTokens, MetricCost}"

text \<open>What follows the last colon of a key, and what precedes it.\<close>

definition keySeg :: "string \<Rightarrow> instant \<Rightarrow> string" where
  "keySeg p t = (if p = PeriodMinute then pad 2 (nat (t div Minute mod 60)) else bucket p t)"

definition keyHead :: "string \<Rightarrow> string \<Rightarrow> string \<Rightarrow> instant \<Rightarrow> string" where
  "keyHead model m p t =
     model @ '':'' @ m @ '':'' @ p @ (if p = PeriodMinute then '':'' @ fmtHour t else '''')"

lemma key_split:
  "model @ '':'' @ m @ '':'' @ p @ '':'' @ bucket p t = keyHead model m p t @ CHR '':'' # keySeg p t"
  by (simp add: keyHead_def keySeg_def bucket_def fmtMinute_def)

lemma keySeg_no_colon: "knownPeriod p \<Longrightarrow> CHR '':'' \<notin> set (keySeg p t)"
  by (auto simp: keySeg_def knownPeriod_def bucket_def pad_no)

lemma keySeg_period:
  assumes "knownPeriod p" "knownPeriod p'" "keySeg p t = keySeg p' t'"
  shows "p = p'"
proof -
  have "length (filter ((=) CHR ''-'') (keySeg p t)) = length (filter ((=) CHR ''-'') (keySeg p' t'))"
    and "CHR ''T'' \<in> set (keySeg p t) \<longleftrightarrow> CHR ''T'' \<in> set (keySeg p' t')"
    using assms(3) by simp_all
  with assms(1,2) show ?thesis
    by (auto simp: knownPeriod_def keySeg_def bucket_def period_defs fmt_dashes fmt_T)
qed

lemma no_colon_consts:
  "knownPeriod p \<Longrightarrow> CHR '':'' \<notin> set p" "knownMetric m \<Longrightarrow> CHR '':'' \<notin> set m"
  by (auto simp: knownPeriod_def period_defs knownMetric_def metric_defs)

lemma keyHead_inj:
  assumes "knownPeriod p" "knownMetric m" "knownMetric m'"
    and "keyHead model m p t = keyHead model' m' p t'"
  shows "model = model' \<and> m = m' \<and> (p = PeriodMinute \<longrightarrow> fmtHour t = fmtHour t')"
proof -
  have e: "(model @ '':'' @ m) @ CHR '':'' # p = (model' @ '':'' @ m') @ CHR '':'' # p
      \<and> (p = PeriodMinute \<longrightarrow> fmtHour t = fmtHour t')"
  proof (cases "p = PeriodMinute")
    case True
    then have "(model @ '':'' @ m @ '':'' @ p) @ CHR '':'' # fmtHour t =
        (model' @ '':'' @ m' @ '':'' @ p) @ CHR '':'' # fmtHour t'"
      using assms(4) by (simp add: keyHead_def)
    from split_at_last_sep [OF this] show ?thesis by simp
  next
    case False
    with assms(4) show ?thesis by (simp add: keyHead_def)
  qed
  then have "model @ CHR '':'' # m = model' @ CHR '':'' # m'" by simp
  from split_at_last_sep [OF this] e assms(2,3) show ?thesis by (simp add: no_colon_consts)
qed

text \<open>Identifiers as the metastore issues them: no colon and not the placeholder.\<close>

definition plainID :: "string \<Rightarrow> bool" where
  "plainID i \<longleftrightarrow> CHR '':'' \<notin> set i \<and> i \<noteq> ''-''"


lemma key_inj:
  assumes "plainID tn" "plainID u" "plainID a" "plainID tn'" "plainID u'" "plainID a'"
    and "md \<noteq> ''-''" "md' \<noteq> ''-''" "knownMetric m" "knownMetric m'" "knownPeriod p" "knownPeriod p'"
    and "key tn u a md m p t = key tn' u' a' md' m' p' t'"
  shows "tn = tn' \<and> u = u' \<and> a = a' \<and> md = md' \<and> m = m' \<and> p = p' \<and> bucket p t = bucket p t'"
proof -
  define f where "f = (\<lambda>x::string. if x = '''' then ''-'' else x)"
  have f: "plainID x \<Longrightarrow> CHR '':'' \<notin> set (f x)" for x by (simp add: f_def plainID_def)
  let ?R = "keyHead (f md) m p t @ CHR '':'' # keySeg p t"
  let ?R' = "keyHead (f md') m' p' t' @ CHR '':'' # keySeg p' t'"
  have "tn @ CHR '':'' # (f u @ CHR '':'' # (f a @ CHR '':'' # ?R))
      = tn' @ CHR '':'' # (f u' @ CHR '':'' # (f a' @ CHR '':'' # ?R'))"
    using assms(13) by (simp add: key_def Let_def f_def key_split [symmetric])
  from split_at_sep [OF this] assms(1,4) have "tn = tn'"
    and "f u @ CHR '':'' # (f a @ CHR '':'' # ?R) = f u' @ CHR '':'' # (f a' @ CHR '':'' # ?R')"
    by (auto simp: plainID_def)
  from this(1) split_at_sep [OF this(2)] f assms(2,5)
  have "f u = f u'" and a: "f a @ CHR '':'' # ?R = f a' @ CHR '':'' # ?R'" by auto
  from split_at_sep [OF a] f assms(3,6) have "f a = f a'" and R: "?R = ?R'" by auto
  from split_at_last_sep [OF R] assms(11,12) have s: "keySeg p t = keySeg p' t'"
    and h: "keyHead (f md) m p t = keyHead (f md') m' p' t'" by (auto simp: keySeg_no_colon)
  from keySeg_period [OF assms(11,12) s] have p: "p = p'" .
  from keyHead_inj [OF assms(11,9,10)] h p
  have "f md = f md'" "m = m'" and fm: "p = PeriodMinute \<longrightarrow> fmtHour t = fmtHour t'" by auto
  have "bucket p t = bucket p t'"
    using s p fm by (auto simp: keySeg_def bucket_def fmtMinute_def split: if_splits)
  moreover have "x = y" if "f x = f y" "x \<noteq> ''-''" "y \<noteq> ''-''" for x y
    using that by (auto simp: f_def split: if_splits)
  then have "u = u'" "a = a'" "md = md'"
    using \<open>f u = f u'\<close> \<open>f a = f a'\<close> \<open>f md = f md'\<close> assms(2,3,5,6,7,8)
    by (simp_all add: plainID_def)
  ultimately show ?thesis using \<open>tn = tn'\<close> \<open>m = m'\<close> p by simp
qed

section \<open>The contract of a counter store\<close>

definition maxInt :: int where "maxInt = 2 ^ 63 - 1"

text \<open>
  What the limiter relies on: \<open>val\<close> is the counter under a key; \<open>sane st k\<close> says that the
  counter is one the store will neither drop nor has let overflow during the window the
  client looks at; \<open>lasting d\<close> says that a counter written with lifetime \<open>d\<close> outlives it.
\<close>

locale counter_store =
  fixes cs :: "'s CounterStore"
    and val :: "'s \<Rightarrow> string \<Rightarrow> int"
    and sane :: "'s \<Rightarrow> string \<Rightarrow> bool"
    and lasting :: "duration \<Rightarrow> bool"
  assumes sane_nonneg: "sane st k \<Longrightarrow> 0 \<le> val st k"
    and incr_admit: "sane st k \<Longrightarrow> lasting d \<Longrightarrow> 0 \<le> delta \<Longrightarrow> val st k + delta \<le> maxInt \<Longrightarrow>
      val st k + delta \<le> capVal \<Longrightarrow>
      \<exists>st'. cs_CheckAndIncr cs k delta capVal d st = (st', Inr (True, val st k + delta)) \<and>
        sane st' k \<and> val st' k = val st k + delta"
    and incr_refuse: "sane st k \<Longrightarrow> lasting d \<Longrightarrow> 0 \<le> delta \<Longrightarrow> val st k + delta \<le> maxInt \<Longrightarrow>
      capVal < val st k + delta \<Longrightarrow>
      \<exists>st'. cs_CheckAndIncr cs k delta capVal d st = (st', Inr (False, val st k)) \<and>
        sane st' k \<and> val st' k = val st k"
    and get_val: "sane st k \<Longrightarrow> lasting d \<Longrightarrow>
      \<exists>st'. cs_Get cs k st = (st', Inr (val st k)) \<and> sane st' k \<and> val st' k = val st k"
    and add_val: "sane st k \<Longrightarrow> lasting d \<Longrightarrow> 0 \<le> delta \<Longrightarrow> val st k + delta \<le> maxInt \<Longrightarrow>
      \<exists>st'. cs_Add cs k delta d st = (st', Inr ()) \<and> sane st' k \<and> val st' k = val st k + delta"
    and incr_frame: "k' \<noteq> k \<Longrightarrow> cs_CheckAndIncr cs k delta capVal d st = (st', r) \<Longrightarrow>
      val st' k' = val st k' \<and> sane st' k' = sane st k'"
    and get_frame: "k' \<noteq> k \<Longrightarrow> cs_Get cs k st = (st', r') \<Longrightarrow>
      val st' k' = val st k' \<and> sane st' k' = sane st k'"
    and add_frame: "k' \<noteq> k \<Longrightarrow> cs_Add cs k delta d st = (st', r'') \<Longrightarrow>
      val st' k' = val st k' \<and> sane st' k' = sane st k'"

definition applies :: "Scope \<Rightarrow> Limit \<Rightarrow> bool" where
  "applies s l \<longleftrightarrow> lim_Enabled l \<and> (lim_Model l = '''' \<or> lim_Model l = sc_Model s)"

definition usage :: "string \<Rightarrow> int \<Rightarrow> rat \<Rightarrow> int" where
  "usage metric tokens costUSD =
     (if metric = MetricTokens then tokens else trunc_int (f64 (costUSD * costScale)))"

text \<open>The rows a limiter loops over share a counter only with rows of the same metric.\<close>

definition coherent ::
  "(duration \<Rightarrow> bool) \<Rightarrow> instant \<Rightarrow> string \<Rightarrow> string \<Rightarrow> Limit list \<Rightarrow> bool" where
  "coherent lasting now k metric lims \<longleftrightarrow>
     (\<forall>l'\<in>set lims. limKey l' now = k \<longrightarrow>
        lim_Metric l' = metric \<and> lasting (ttl (lim_Period l')) \<and> intCap l' < maxInt)"

lemma coherent_Cons [simp]:
  "coherent lasting now k metric (l' # lims) \<longleftrightarrow>
     (limKey l' now = k \<longrightarrow>
        lim_Metric l' = metric \<and> lasting (ttl (lim_Period l')) \<and> intCap l' < maxInt) \<and>
     coherent lasting now k metric lims"
  by (simp add: coherent_def)

lemma metrics_distinct [simp]:
  "MetricRequests \<noteq> MetricTokens" "MetricRequests \<noteq> MetricCost" "MetricTokens \<noteq> MetricCost"
  "MetricTokens \<noteq> MetricRequests" "MetricCost \<noteq> MetricRequests" "MetricCost \<noteq> MetricTokens"
  by (simp_all add: metric_defs)

lemma checkLoop_Cons:
  "checkLoop cs now s (l # lims) st = (st', r) \<Longrightarrow> checkLoop cs now s [l] st = (st1, r1) \<Longrightarrow>
     (r1 = None \<and> checkLoop cs now s lims st1 = (st', r)) \<or> (r1 \<noteq> None \<and> st' = st1 \<and> r = r1)"
  by (auto simp: Let_def split: prod.splits sum.splits if_splits)

context counter_store
begin

text \<open>One row of the loop of \<open>Check\<close>, seen at one counter.\<close>

lemma check_row:
  assumes "coherent lasting now k metric [l']" "sane st k" "val st k < maxInt"
    and "checkLoop cs now s [l'] st = (st', r)"
  shows "sane st' k" "val st k \<le> val st' k"
    "val st' k < maxInt"
    "metric \<noteq> MetricRequests \<Longrightarrow> val st' k = val st k"
proof -
  have "sane st' k \<and> val st k \<le> val st' k \<and> val st' k < maxInt \<and>
    (metric \<noteq> MetricRequests \<longrightarrow> val st' k = val st k)"
  proof (cases "limKey l' now = k")
    case True
    note i = incr_admit [OF assms(2), of "ttl (lim_Period l')" 1 "intCap l'"]
      incr_refuse [OF assms(2), of "ttl (lim_Period l')" 1 "intCap l'"]
      get_val [OF assms(2), of "ttl (lim_Period l')"]
    from i True assms show ?thesis
      by (cases "val st k + 1 \<le> intCap l'") (auto simp: Let_def split: if_splits)
  next
    case False
    then show ?thesis
      using assms incr_frame [of k "limKey l' now" 1 "intCap l'" "ttl (lim_Period l')" st]
        get_frame [of k "limKey l' now" st]
      by (force simp: Let_def split: if_splits prod.splits sum.splits)
  qed
  then show "sane st' k" "val st k \<le> val st' k" "val st' k < maxInt"
    "metric \<noteq> MetricRequests \<Longrightarrow> val st' k = val st k" by auto
qed

lemma check_rows:
  assumes "coherent lasting now k metric lims" "sane st k" "val st k < maxInt"
    and "checkLoop cs now s lims st = (st', r)"
  shows "sane st' k \<and> val st k \<le> val st' k \<and>
    val st' k < maxInt \<and>
    (metric \<noteq> MetricRequests \<longrightarrow> val st' k = val st k)"
  using assms
proof (induction lims arbitrary: st)
  case (Cons l' lims)
  obtain st1 r1 where s1: "checkLoop cs now s [l'] st = (st1, r1)" by force
  have c: "coherent lasting now k metric [l']" "coherent lasting now k metric lims"
    using Cons.prems(1) by (simp_all add: coherent_def)
  note one = check_row [OF c(1) Cons.prems(2,3) s1]
  from checkLoop_Cons [OF Cons.prems(4) s1] show ?case
  proof (elim disjE conjE)
    assume "checkLoop cs now s lims st1 = (st', r)"
    from Cons.IH [OF c(2) one(1,3) this] one(2,4) show ?thesis by auto
  next
    assume "st' = st1"
    then show ?thesis using one by simp
  qed
qed simp

lemma check_admits:
  assumes "coherent lasting now k metric lims" "sane st k" "val st k < maxInt"
    and "checkLoop cs now s lims st = (st', None)"
    and "l \<in> set lims" "applies s l" "limKey l now = k" "metric = MetricRequests"
  shows "val st k + 1 \<le> intCap l \<and>
    val st k + 1 \<le> val st' k"
  using assms
proof (induction lims arbitrary: st)
  case (Cons l' lims)
  obtain st1 r1 where s1: "checkLoop cs now s [l'] st = (st1, r1)" by force
  have c: "coherent lasting now k metric [l']" "coherent lasting now k metric lims"
    using Cons.prems(1) by (simp_all add: coherent_def)
  note one = check_row [OF c(1) Cons.prems(2,3) s1]
  have r1: "r1 = None" and rest: "checkLoop cs now s lims st1 = (st', None)"
    using checkLoop_Cons [OF Cons.prems(4) s1] by auto
  show ?case
  proof (cases "l' = l")
    case True
    then have "lasting (ttl (lim_Period l))" "intCap l < maxInt" "lim_Metric l = metric" using c(1) Cons.prems(7) by simp_all
    with True Cons.prems s1 r1 incr_admit [OF Cons.prems(2), of "ttl (lim_Period l)" 1 "intCap l"]
      incr_refuse [OF Cons.prems(2), of "ttl (lim_Period l)" 1 "intCap l"]
    have "val st k + 1 \<le> intCap l \<and> val st1 k = val st k + 1"
      by (cases "val st k + 1 \<le> intCap l") (auto simp: applies_def Let_def)
    with check_rows [OF c(2) one(1,3) rest] show ?thesis by simp
  next
    case False
    with Cons.prems(5) have "l \<in> set lims" by simp
    from Cons.IH [OF c(2) one(1,3) rest this Cons.prems(6-8)] one(2) show ?thesis by simp
  qed
qed simp

lemma check_rejects:
  assumes "coherent lasting now k metric lims" "sane st k" "val st k < maxInt"
    and "l \<in> set lims" "applies s l" "limKey l now = k" "metric = MetricTokens \<or> metric = MetricCost"
    and "intCap l \<le> val st k"
  shows "snd (checkLoop cs now s lims st) \<noteq> None"
  using assms
proof (induction lims arbitrary: st)
  case (Cons l' lims)
  obtain st1 r1 where s1: "checkLoop cs now s [l'] st = (st1, r1)" by force
  have c: "coherent lasting now k metric [l']" "coherent lasting now k metric lims"
    using Cons.prems(1) by (simp_all add: coherent_def)
  note one = check_row [OF c(1) Cons.prems(2,3) s1]
  show ?case
  proof (cases "l' = l")
    case True
    with Cons.prems get_val [OF Cons.prems(2), of "ttl (lim_Period l)"] show ?thesis
      by (auto simp: applies_def Let_def)
  next
    case False
    with Cons.prems have "l \<in> set lims" "intCap l \<le> val st1 k" using one(2) by auto
    from Cons.IH [OF c(2) one(1,3) this(1) Cons.prems(5-7) this(2)] show ?thesis
      using checkLoop_Cons [OF _ s1, of lims "fst (checkLoop cs now s (l' # lims) st)"
          "snd (checkLoop cs now s (l' # lims) st)"]
      by (auto simp del: checkLoop.simps)
  qed
qed simp

end

context counter_store
begin

lemma reconcile_rows:
  assumes "coherent lasting now k metric lims" "sane st k"
    and "metric = MetricRequests \<or>
      val st k + int (length lims) * max 0 (usage metric tokens costUSD) < maxInt"
    and "reconcileLoop cs now s tokens costUSD lims st = st'"
  shows "sane st' k \<and> val st k \<le> val st' k \<and>
    (metric = MetricRequests \<longrightarrow> val st' k = val st k) \<and>
    val st' k \<le>
      val st k + int (length lims) * max 0 (usage metric tokens costUSD) \<and>
    (l \<in> set lims \<and> applies s l \<and> limKey l now = k \<and> metric \<in> {MetricTokens, MetricCost} \<longrightarrow>
      val st k + usage metric tokens costUSD \<le> val st' k)"
  using assms
proof (induction lims arbitrary: st)
  case (Cons l' lims)
  let ?u = "max 0 (usage metric tokens costUSD)"
  have c: "coherent lasting now k metric lims" using Cons.prems(1) by simp
  have len: "int (length (l' # lims)) * ?u = ?u + int (length lims) * ?u"
    by (simp add: distrib_right)
  have pos: "0 \<le> int (length lims) * ?u" by simp
  define adds where "adds \<longleftrightarrow> applies s l' \<and> lim_Metric l' \<in> {MetricTokens, MetricCost} \<and>
    0 < usage (lim_Metric l') tokens costUSD"
  define st1 where "st1 =
    (if adds then fst (cs_Add cs (limKey l' now) (usage (lim_Metric l') tokens costUSD) (ttl (lim_Period l')) st)
     else st)"
  have rest: "reconcileLoop cs now s tokens costUSD lims st1 = st'"
    using Cons.prems(4)
    by (auto simp: st1_def adds_def applies_def usage_def Let_def split: if_splits prod.splits)
  have one: "sane st1 k \<and>
    val st1 k = val st k + (if adds \<and> limKey l' now = k then usage metric tokens costUSD else 0)"
  proof (cases "adds \<and> limKey l' now = k")
    case True
    then have m: "lim_Metric l' = metric" "lasting (ttl (lim_Period l'))"
      using Cons.prems(1) by simp_all
    then have "metric \<noteq> MetricRequests" using True by (auto simp: adds_def)
    then have "val st k + (?u + int (length lims) * ?u) < maxInt"
      using Cons.prems(3) unfolding len by simp
    then have "val st k + usage metric tokens costUSD \<le> maxInt"
      using pos max.cobounded2 [of "usage metric tokens costUSD" 0] by linarith
    with add_val [OF Cons.prems(2) m(2), of "usage metric tokens costUSD"] True m(1) show ?thesis
      by (auto simp: st1_def adds_def)
  next
    case False
    then show ?thesis
      using Cons.prems(2) add_frame [of k "limKey l' now" "usage (lim_Metric l') tokens costUSD" "ttl (lim_Period l')" st]
      by (cases "cs_Add cs (limKey l' now) (usage (lim_Metric l') tokens costUSD) (ttl (lim_Period l')) st")
        (auto simp: st1_def)
  qed
  have mets: "adds \<and> limKey l' now = k \<Longrightarrow> metric \<noteq> MetricRequests"
    using Cons.prems(1) by (auto simp: adds_def)
  have up: "adds \<and> limKey l' now = k \<Longrightarrow> 0 < usage metric tokens costUSD"
    using Cons.prems(1) by (auto simp: adds_def usage_def)
  have "metric = MetricRequests \<or> val st1 k + int (length lims) * ?u < maxInt"
    using Cons.prems(3) one len by auto
  note IH = Cons.IH [OF c conjunct1 [OF one] this rest]
  show ?case
  proof (cases "l' = l \<and> applies s l \<and> limKey l now = k \<and> metric \<in> {MetricTokens, MetricCost}")
    case True
    then have "lim_Metric l = metric" using Cons.prems(1) by simp
    with True have "adds \<longleftrightarrow> 0 < usage metric tokens costUSD" by (simp add: adds_def)
    with True IH one len mets show ?thesis by auto
  next
    case False
    with IH one len mets up show ?thesis by auto
  qed
qed simp

end

section \<open>The in-memory store satisfies the contract\<close>

definition memVal :: "memStore \<Rightarrow> string \<Rightarrow> int" where
  "memVal m k = (case m k of None \<Rightarrow> 0 | Some e \<Rightarrow> me_val e)"

text \<open>A counter that is still live at \<open>W\<close>.\<close>

definition memSane :: "instant \<Rightarrow> memStore \<Rightarrow> string \<Rightarrow> bool" where
  "memSane W m k \<longleftrightarrow> (case m k of None \<Rightarrow> True | Some e \<Rightarrow> W \<le> me_expires e \<and> 0 \<le> me_val e)"

lemmas mem_defs = memCounterStore_def mem_CheckAndIncr_def mem_Get_def mem_Add_def mem_cur_def
  memVal_def memSane_def

lemma wrap64_nonneg: "0 \<le> x \<Longrightarrow> x \<le> maxInt \<Longrightarrow> wrap64 x = x"
  by (rule wrap64_id) (simp add: fits64_def maxInt_def)

text \<open>For an instant \<open>w\<close> up to the horizon \<open>W\<close>, the store at \<open>w\<close> keeps the contract for the
  lifetimes that reach from \<open>w\<close> beyond \<open>W\<close>; the operations on other keys do not need \<open>w \<le> W\<close>.\<close>

interpretation mem: counter_store "memCounterStore w" memVal
  "memSane W" "\<lambda>d. w \<le> W \<and> W \<le> w + d" for w W
proof
  show "memSane W st k \<Longrightarrow> 0 \<le> memVal st k" for st k
    by (auto simp: memSane_def memVal_def split: option.splits)
qed (auto simp: mem_defs wrap64_nonneg Let_def split: option.splits if_splits)

section \<open>Quotas over sequences of calls\<close>

text \<open>
  A sequence of limiter calls on one in-memory store. A call carries the instant the limiter's
  clock returned and the instant the store's operations ran at.
\<close>

datatype Op =
    OpCheck (op_now: instant) (op_wall: instant) (op_scope: Scope)
  | OpReconcile (op_now: instant) (op_wall: instant) (op_scope: Scope) int rat

definition memLimiter :: "LimitSource \<Rightarrow> instant \<Rightarrow> memStore Limiter option" where
  "memLimiter src w = Some \<lparr>lm_store = Some (memCounterStore w), lm_limits = Some src\<rparr>"

text \<open>The final store and the calls that were admitted.\<close>

fun run :: "LimitSource \<Rightarrow> Op list \<Rightarrow> memStore \<Rightarrow> memStore \<times> Op list" where
  "run src [] st = (st, [])"
| "run src (OpCheck now w s # ops) st =
     (case Check (memLimiter src w) now s st of
        (st', None) \<Rightarrow> (case run src ops st' of (st'', adm) \<Rightarrow> (st'', OpCheck now w s # adm))
      | (st', Some e) \<Rightarrow> run src ops st')"
| "run src (OpReconcile now w s tokens costUSD # ops) st =
     run src ops (Reconcile (memLimiter src w) now s tokens costUSD st)"

definition rows :: "LimitSource \<Rightarrow> Scope \<Rightarrow> Limit list" where
  "rows src s = src (sc_TenantID s) (sc_UserID s) (sc_APIKeyID s) (sc_Model s)"

text \<open>The call falls under limit \<open>l\<close> in the window whose bucket is \<open>b\<close>.\<close>

definition under :: "LimitSource \<Rightarrow> Limit \<Rightarrow> string \<Rightarrow> Op \<Rightarrow> bool" where
  "under src l b op \<longleftrightarrow> l \<in> set (rows src (op_scope op)) \<and> applies (op_scope op) l \<and>
     bucket (lim_Period l) (op_now op) = b"

definition wfLimit :: "Limit \<Rightarrow> bool" where
  "wfLimit l \<longleftrightarrow> plainID (lim_TenantID l) \<and> plainID (lim_UserID l) \<and> plainID (lim_APIKeyID l) \<and>
     lim_Model l \<noteq> ''-'' \<and> knownMetric (lim_Metric l) \<and> knownPeriod (lim_Period l) \<and>
     intCap l < maxInt"

text \<open>The store's operations run at most a minute after the limiter read its clock.\<close>

definition clocksOK :: "Op \<Rightarrow> bool" where
  "clocksOK op \<longleftrightarrow> 0 \<le> op_now op \<and> op_now op \<le> op_wall op \<and> op_wall op \<le> op_now op + Minute"

lemma Check_memLimiter:
  "Check (memLimiter src w) now s st = checkLoop (memCounterStore w) now s (rows src s) st"
  by (simp add: Check_def memLimiter_def Enabled_def rows_def)

lemma Reconcile_memLimiter:
  "Reconcile (memLimiter src w) now s tokens costUSD st =
     reconcileLoop (memCounterStore w) now s tokens costUSD (rows src s) st"
  by (simp add: Reconcile_def memLimiter_def Enabled_def rows_def)

text \<open>A horizon up to which the counters of one window live.\<close>

definition horizon :: "instant \<Rightarrow> string \<Rightarrow> string \<Rightarrow> Op \<Rightarrow> bool" where
  "horizon W p b op \<longleftrightarrow>
     (bucket p (op_now op) = b \<longrightarrow> op_wall op \<le> W \<and> W \<le> op_wall op + ttl p)"

lemma horizon_exists:
  assumes "\<forall>op\<in>set ops. clocksOK op"
  shows "\<exists>W. \<forall>op\<in>set ops. horizon W p b op"
proof (cases "\<exists>op\<in>set ops. bucket p (op_now op) = b")
  case True
  let ?A = "op_wall ` {op \<in> set ops. bucket p (op_now op) = b}"
  have fin: "finite ?A" "?A \<noteq> {}" using True by auto
  from Min_in [OF fin] obtain o0 where o0: "o0 \<in> set ops" "bucket p (op_now o0) = b"
    "op_wall o0 = Min ?A" by auto
  have c0: "0 \<le> op_now o0" "op_now o0 \<le> op_wall o0" using assms o0(1) by (auto simp: clocksOK_def)
  have "horizon (op_wall o0 + ttl p) p b op" if op: "op \<in> set ops" for op
    unfolding horizon_def
  proof (intro impI conjI)
    assume b: "bucket p (op_now op) = b"
    have c: "op_now op \<le> op_wall op" "op_wall op \<le> op_now op + Minute"
      using assms op by (auto simp: clocksOK_def)
    have "op_now op < ResetAt p (op_now o0)"
    proof (cases "op_now o0 \<le> op_now op")
      case True
      with bucket_window [OF c0(1) True, of p] b o0(2) show ?thesis by simp
    qed (use ResetAt_ttl [OF c0(1), of p] in simp)
    then show "op_wall op \<le> op_wall o0 + ttl p"
      using ResetAt_ttl [OF c0(1), of p] c c0 by linarith
    show "op_wall o0 + ttl p \<le> op_wall op + ttl p" using fin b op o0(3) by simp
  qed
  then show ?thesis by blast
qed (auto simp: horizon_def)

lemma limKey_inj:
  assumes w: "wfLimit l'" "wfLimit l" and k: "limKey l' t' = limKey l t"
  shows "lim_Metric l' = lim_Metric l \<and> lim_Period l' = lim_Period l \<and>
    bucket (lim_Period l) t' = bucket (lim_Period l) t"
proof -
  note w' = w [unfolded wfLimit_def]
  from w' key_inj [OF _ _ _ _ _ _ _ _ _ _ _ _ k [unfolded limKey_def]] show ?thesis by auto
qed

lemma rows_coherent:
  assumes "\<forall>l'\<in>set lims. wfLimit l'" "wfLimit l" "horizon W (lim_Period l) (bucket (lim_Period l) t) op"
  shows "coherent (\<lambda>d. op_wall op \<le> W \<and> W \<le> op_wall op + d) (op_now op) (limKey l t)
    (lim_Metric l) lims"
  unfolding coherent_def
proof (intro ballI impI)
  fix l' assume l': "l' \<in> set lims" and k: "limKey l' (op_now op) = limKey l t"
  have "wfLimit l'" using assms(1) l' by blast
  with assms(2) k have "lim_Metric l' = lim_Metric l \<and> lim_Period l' = lim_Period l \<and>
      bucket (lim_Period l) (op_now op) = bucket (lim_Period l) t"
    using limKey_inj by blast
  with assms(3) \<open>wfLimit l'\<close> show "lim_Metric l' = lim_Metric l \<and>
      (op_wall op \<le> W \<and> W \<le> op_wall op + ttl (lim_Period l')) \<and> intCap l' < maxInt"
    by (simp add: horizon_def wfLimit_def)
qed

lemma limKey_under:
  "under src l (bucket (lim_Period l) t) op \<Longrightarrow> limKey l (op_now op) = limKey l t"
  by (simp add: under_def limKey_def key_def)

text \<open>Requests: every admitted call uses up one unit of the cap.\<close>

lemma run_requests:
  assumes "\<forall>s. \<forall>l'\<in>set (rows src s). wfLimit l'" "wfLimit l" "lim_Metric l = MetricRequests"
    and "\<forall>op\<in>set ops. horizon W (lim_Period l) (bucket (lim_Period l) t) op"
    and "memSane W st (limKey l t)" "memVal st (limKey l t) < maxInt"
  shows "int (length (filter (under src l (bucket (lim_Period l) t)) (snd (run src ops st))))
    + memVal st (limKey l t) \<le> max (memVal st (limKey l t)) (intCap l)"
  using assms(4-6)
proof (induction ops arbitrary: st)
  case (Cons op ops)
  let ?k = "limKey l t" and ?n = "\<lambda>st. int (length (filter
    (under src l (bucket (lim_Period l) t)) (snd (run src ops st))))"
  have rest: "\<forall>op\<in>set ops. horizon W (lim_Period l) (bucket (lim_Period l) t) op"
    using Cons.prems(1) by simp
  have coh: "coherent (\<lambda>d. op_wall op \<le> W \<and> W \<le> op_wall op + d) (op_now op) ?k
    MetricRequests (rows src (op_scope op))"
    using rows_coherent [OF assms(1) [THEN spec] assms(2), of W t op] Cons.prems(1) assms(3) by simp
  show ?case
  proof (cases op)
    case (OpCheck now w s)
    obtain st1 r where c: "checkLoop (memCounterStore w) now s (rows src s) st = (st1, r)" by force
    note coh' = coh [unfolded OpCheck Op.sel]
    note one = mem.check_rows [OF coh' Cons.prems(2,3) c]
    have IH: "?n st1 + memVal st1 ?k \<le> max (memVal st1 ?k) (intCap l)"
      using Cons.IH [OF rest] one by simp
    have adm: "memVal st ?k + 1 \<le> intCap l \<and> memVal st ?k + 1 \<le> memVal st1 ?k"
      if "r = None" "under src l (bucket (lim_Period l) t) op"
    proof -
      have u: "l \<in> set (rows src s)" "applies s l" "limKey l now = ?k"
        using that(2) limKey_under [OF that(2)] OpCheck by (auto simp: under_def)
      show ?thesis
        by (rule mem.check_admits [OF coh' Cons.prems(2,3) c [unfolded that(1)] u refl])
    qed
    show ?thesis
      using IH one adm OpCheck
      by (auto simp: Check_memLimiter c split: option.splits prod.splits)
  next
    case (OpReconcile now w s tokens costUSD)
    note coh' = coh [unfolded OpReconcile Op.sel]
    let ?st = "reconcileLoop (memCounterStore w) now s tokens costUSD (rows src s) st"
    from mem.reconcile_rows [OF coh' Cons.prems(2) disjI1 [OF refl] refl, of s tokens costUSD]
    have one: "memSane W ?st ?k" "memVal ?st ?k = memVal st ?k" by simp_all
    with Cons.IH [OF rest one(1)] Cons.prems(3) OpReconcile show ?thesis
      by (simp add: Reconcile_memLimiter)
  qed
qed simp

text \<open>Tokens and cost: the recorded usage of a window.\<close>

fun spent :: "LimitSource \<Rightarrow> Limit \<Rightarrow> string \<Rightarrow> Op list \<Rightarrow> int" where
  "spent src l b [] = 0"
| "spent src l b (OpCheck now w s # ops) = spent src l b ops"
| "spent src l b (OpReconcile now w s tokens costUSD # ops) =
     (if under src l b (OpReconcile now w s tokens costUSD)
      then max 0 (usage (lim_Metric l) tokens costUSD) else 0) + spent src l b ops"

text \<open>An upper bound of what a counter of the metric can reach, whatever rows share it.\<close>

fun volume :: "LimitSource \<Rightarrow> string \<Rightarrow> Op list \<Rightarrow> int" where
  "volume src metric [] = 0"
| "volume src metric (OpCheck now w s # ops) = volume src metric ops"
| "volume src metric (OpReconcile now w s tokens costUSD # ops) =
     int (length (rows src s)) * max 0 (usage metric tokens costUSD) + volume src metric ops"

lemma volume_nonneg: "0 \<le> volume src metric ops"
  by (induction src metric ops rule: volume.induct) simp_all

lemma run_usage:
  assumes "\<forall>s. \<forall>l'\<in>set (rows src s). wfLimit l'" "wfLimit l"
    and "lim_Metric l = MetricTokens \<or> lim_Metric l = MetricCost"
    and "\<forall>op\<in>set ops. horizon W (lim_Period l) (bucket (lim_Period l) t) op"
    and "memSane W st (limKey l t)"
    and "memVal st (limKey l t) + volume src (lim_Metric l) ops < maxInt"
  shows "memSane W (fst (run src ops st)) (limKey l t) \<and>
    memVal (fst (run src ops st)) (limKey l t) < maxInt \<and>
    memVal st (limKey l t) + spent src l (bucket (lim_Period l) t) ops
      \<le> memVal (fst (run src ops st)) (limKey l t)"
  using assms(4-6)
proof (induction ops arbitrary: st)
  case (Cons op ops)
  let ?k = "limKey l t"
  have rest: "\<forall>op\<in>set ops. horizon W (lim_Period l) (bucket (lim_Period l) t) op"
    using Cons.prems(1) by simp
  have coh: "coherent (\<lambda>d. op_wall op \<le> W \<and> W \<le> op_wall op + d) (op_now op) ?k
    (lim_Metric l) (rows src (op_scope op))"
    using rows_coherent [OF assms(1) [THEN spec] assms(2), of W t op] Cons.prems(1) by simp
  note vol = volume_nonneg [of src "lim_Metric l" ops]
  show ?case
  proof (cases op)
    case (OpCheck now w s)
    obtain st1 r where c: "checkLoop (memCounterStore w) now s (rows src s) st = (st1, r)" by force
    have "memVal st ?k < maxInt" using Cons.prems(3) vol OpCheck by simp
    from mem.check_rows [OF coh [unfolded OpCheck Op.sel] Cons.prems(2) this c] assms(3)
    have one: "memSane W st1 ?k" "memVal st1 ?k = memVal st ?k" by auto
    from Cons.IH [OF rest one(1)] Cons.prems(3) one(2) OpCheck show ?thesis
      by (auto simp: Check_memLimiter c split: option.splits prod.splits)
  next
    case (OpReconcile now w s tokens costUSD)
    let ?u = "usage (lim_Metric l) tokens costUSD"
    let ?st = "reconcileLoop (memCounterStore w) now s tokens costUSD (rows src s) st"
    have "memVal st ?k + int (length (rows src s)) * max 0 ?u < maxInt"
      using Cons.prems(3) vol OpReconcile by simp
    note one = mem.reconcile_rows [where l = l and s = s and costUSD = costUSD,
        OF coh [unfolded OpReconcile Op.sel] Cons.prems(2) disjI2 [OF this] refl]
    have le: "memVal st ?k + (if under src l (bucket (lim_Period l) t) op then max 0 ?u else 0)
        \<le> memVal ?st ?k"
      using one assms(3) limKey_under [of src l t op] OpReconcile by (auto simp: under_def)
    from Cons.IH [OF rest conjunct1 [OF one]] le one Cons.prems(3) OpReconcile show ?thesis
      by (auto simp: Reconcile_memLimiter)
  qed
qed simp

definition reached :: "'s CounterStore \<Rightarrow> instant \<Rightarrow> Limit \<Rightarrow> 's \<Rightarrow> bool" where
  "reached cs now l st' \<longleftrightarrow> (\<exists>st c.
     if lim_Metric l = MetricRequests
     then cs_CheckAndIncr cs (limKey l now) 1 (intCap l) (ttl (lim_Period l)) st = (st', Inr (False, c))
     else cs_Get cs (limKey l now) st = (st', Inr c) \<and> intCap l \<le> c)"

lemma check_row_rejects:
  "checkLoop cs now s [l] st = (st', Some e) \<Longrightarrow> applies s l \<and> e = exceeded l \<and> reached cs now l st'"
  by (auto simp: reached_def applies_def Let_def split: if_splits prod.splits sum.splits)

lemma checkLoop_rejects:
  "checkLoop cs now s lims st = (st', Some e) \<Longrightarrow>
     \<exists>l\<in>set lims. applies s l \<and> e = exceeded l \<and> reached cs now l st'"
proof (induction lims arbitrary: st)
  case (Cons l lims)
  obtain st1 r1 where s1: "checkLoop cs now s [l] st = (st1, r1)" by force
  from checkLoop_Cons [OF Cons.prems s1] show ?case
    using Cons.IH [of st1] check_row_rejects [of cs now s l st st' e] s1 by auto
qed simp

text \<open>A small configuration, on which the properties are instantiated.\<close>

definition exLimit :: "string \<Rightarrow> rat \<Rightarrow> Limit" where
  "exLimit metric v =
     \<lparr>lim_TenantID = ''t1'', lim_UserID = '''', lim_APIKeyID = '''', lim_Model = '''',
      lim_Metric = metric, lim_Period = PeriodDay, lim_Value = v, lim_Enabled = True\<rparr>"

definition exScope :: Scope where
  "exScope = \<lparr>sc_TenantID = ''t1'', sc_UserID = ''u1'', sc_APIKeyID = '''', sc_Model = ''m''\<rparr>"

definition exSource :: "string \<Rightarrow> rat \<Rightarrow> LimitSource" where
  "exSource metric v = (\<lambda>tn u a m. if tn = ''t1'' then [exLimit metric v] else [])"

lemma exLimit_wf: "knownMetric metric \<Longrightarrow> intCap (exLimit metric v) < maxInt \<Longrightarrow> wfLimit (exLimit metric v)"
  by (simp add: wfLimit_def exLimit_def plainID_def knownPeriod_def)

lemma exSource_rows: "rows (exSource metric v) exScope = [exLimit metric v]"
  "set (rows (exSource metric v) s) \<subseteq> {exLimit metric v}"
  by (auto simp: rows_def exSource_def exScope_def)

lemma exLimit_caps: "intCap (exLimit MetricRequests 2) = 2" "intCap (exLimit MetricTokens 100) = 100"
  by (simp_all add: intCap_def exLimit_def trunc_int_def)

lemma ex_metrics: "knownMetric MetricRequests" "knownMetric MetricTokens"
  by (simp_all add: knownMetric_def)

section \<open>The properties of the limiter\<close>

text \<open>calendar windows. Two instants \<open>t \<le> t'\<close> have the same bucket of a period exactly if
  \<open>t'\<close> is before the reset instant the gateway reports for \<open>t\<close>; the reset is in the future, and
  the lifetime a counter is given reaches at least a minute beyond it, for minutes, hours, days
  and months (of every length) alike.\<close>

theorem windows:
  "0 \<le> t \<Longrightarrow> t \<le> t' \<Longrightarrow>
     (bucket p t' = bucket p t \<longleftrightarrow> t' < ResetAt p t) \<and>
     t < ResetAt p t \<and> ResetAt p t + Minute \<le> t + ttl p"
  using bucket_window ResetAt_ttl by blast

theorem windows_witness:
  "ResetAt PeriodMonth 0 = 31 * Day \<and> bucket PeriodMonth (30 * Day) = bucket PeriodMonth 0 \<and>
   bucket PeriodMonth (31 * Day) \<noteq> bucket PeriodMonth 0"
proof -
  have r: "ResetAt PeriodMonth 0 = 31 * Day" by code_simp
  show ?thesis
    using windows [of 0 "30 * Day" PeriodMonth] windows [of 0 "31 * Day" PeriodMonth] r
    by (simp add: less_imp_le)
qed

lemma run_request_bound:
  assumes "\<forall>s. \<forall>l'\<in>set (rows src s). wfLimit l'" "wfLimit l" "lim_Metric l = MetricRequests"
    and "\<forall>op\<in>set ops. clocksOK op"
  shows "int (length (filter (under src l b) (snd (run src ops NewMemStore)))) \<le> max 0 (intCap l)"
proof (cases "\<exists>t. bucket (lim_Period l) t = b")
  case True
  then obtain t where b: "b = bucket (lim_Period l) t" by auto
  from horizon_exists [OF assms(4)] obtain W
    where "\<forall>op\<in>set ops. horizon W (lim_Period l) (bucket (lim_Period l) t) op" by blast
  from run_requests [OF assms(1-3) this, of NewMemStore] show ?thesis
    by (simp add: b NewMemStore_def memSane_def memVal_def maxInt_def)
next
  case False
  then have "\<not> under src l b op" for op by (auto simp: under_def)
  then show ?thesis by simp
qed

text \<open>C6: a request quota is a quota. However many limiter calls are made, in whatever order
  and at whatever times, over rows with well-formed identifiers, at most \<open>cap\<close> of those that fall
  under a request limit in one window are admitted.\<close>

theorem request_quota:
  assumes "\<forall>s. \<forall>l'\<in>set (rows src s). wfLimit l'" "wfLimit l" "lim_Metric l = MetricRequests"
    and "\<forall>op\<in>set ops. clocksOK op"
  shows "int (length (filter (under src l b) (snd (run src ops NewMemStore)))) \<le> max 0 (intCap l)"
  using assms by (rule run_request_bound)

theorem request_quota_witness:
  "int (length (filter (under (exSource MetricRequests 2) (exLimit MetricRequests 2) (bucket PeriodDay 5))
     (snd (run (exSource MetricRequests 2)
        [OpCheck 5 5 exScope, OpCheck 6 7 exScope, OpCheck 8 8 exScope] NewMemStore)))) \<le> 2"
proof -
  have w: "wfLimit (exLimit MetricRequests 2)"
    by (rule exLimit_wf) (simp_all add: ex_metrics exLimit_caps maxInt_def)
  have "\<forall>s. \<forall>l'\<in>set (rows (exSource MetricRequests 2) s). wfLimit l'"
    using exSource_rows(2) w by blast
  from request_quota [OF this w, of "[OpCheck 5 5 exScope, OpCheck 6 7 exScope, OpCheck 8 8 exScope]"
      "bucket PeriodDay 5"]
  show ?thesis
    by (simp add: exLimit_caps clocksOK_def) (simp add: exLimit_def Minute_def Second_def)
qed

text \<open>Spend is enforced. Once the usage reconciled in a window under a token or cost limit
  has reached the cap, every later check of that window that falls under the limit is rejected
  (as long as the recorded volume stays below the range of a counter).\<close>

theorem usage_quota:
  assumes "\<forall>s. \<forall>l'\<in>set (rows src s). wfLimit l'" "wfLimit l"
    and "lim_Metric l = MetricTokens \<or> lim_Metric l = MetricCost"
    and "\<forall>op\<in>set ops. clocksOK op" "volume src (lim_Metric l) ops < maxInt"
    and "clocksOK (OpCheck now w s)"
    and "under src l (bucket (lim_Period l) now) (OpCheck now w s)"
    and "intCap l \<le> spent src l (bucket (lim_Period l) now) ops"
  shows "snd (Check (memLimiter src w) now s (fst (run src ops NewMemStore))) \<noteq> None"
proof -
  have "\<forall>op\<in>set (OpCheck now w s # ops). clocksOK op" using assms(4,6) by simp
  from horizon_exists [OF this] obtain W
    where W: "\<forall>op\<in>set (OpCheck now w s # ops). horizon W (lim_Period l) (bucket (lim_Period l) now) op"
    by blast
  let ?st = "fst (run src ops NewMemStore)"
  have e: "memSane W NewMemStore k" "memVal NewMemStore k = 0" for k
    by (simp_all add: NewMemStore_def memSane_def memVal_def)
  from W have "\<forall>op\<in>set ops. horizon W (lim_Period l) (bucket (lim_Period l) now) op" by simp
  from run_usage [OF assms(1-3) this e(1)] assms(5,8)
  have u: "memSane W ?st (limKey l now)" "memVal ?st (limKey l now) < maxInt"
    "intCap l \<le> memVal ?st (limKey l now)" by (simp_all add: e)
  have "coherent (\<lambda>d. w \<le> W \<and> W \<le> w + d) now (limKey l now) (lim_Metric l) (rows src s)"
    using rows_coherent [OF assms(1) [THEN spec] assms(2), of W now "OpCheck now w s"] W by simp
  from mem.check_rejects [OF this u(1,2) _ _ refl assms(3) u(3)] assms(7)
  show ?thesis by (simp add: Check_memLimiter under_def)
qed

theorem usage_quota_witness:
  "snd (Check (memLimiter (exSource MetricTokens 100) 9) 8 exScope
     (fst (run (exSource MetricTokens 100)
        [OpReconcile 5 5 exScope 60 0, OpReconcile 6 6 exScope 50 0] NewMemStore))) \<noteq> None"
proof -
  let ?ops = "[OpReconcile 5 5 exScope 60 0, OpReconcile 6 6 exScope 50 0]"
  let ?l = "exLimit MetricTokens 100" and ?src = "exSource MetricTokens 100"
  have w: "wfLimit ?l" by (rule exLimit_wf) (simp_all add: ex_metrics exLimit_caps maxInt_def)
  have src: "\<forall>s. \<forall>l'\<in>set (rows ?src s). wfLimit l'" using exSource_rows(2) w by blast
  have b: "bucket (lim_Period ?l) t = bucket (lim_Period ?l) 5" if "5 \<le> t" "t < 9" for t
    using that bucket_window [of 5 t "lim_Period ?l"] ResetAt_day [of 5]
    by (simp add: exLimit_def duration_defs)
  have u: "under ?src ?l (bucket (lim_Period ?l) 8) op"
    if "op_scope op = exScope" "5 \<le> op_now op" "op_now op < 9" for op
    using that b [of "op_now op"] b [of 8]
    by (simp add: under_def exSource_rows applies_def) (simp add: exLimit_def)
  have "lim_Metric ?l = MetricTokens" by (simp add: exLimit_def)
  then show ?thesis
    using usage_quota [of ?src ?l ?ops 8 9 exScope, OF src w] u
    by (simp add: clocksOK_def duration_defs exSource_rows exLimit_caps usage_def maxInt_def)
qed

text \<open>Rejections are justified, and the limiter fails open. Whatever the store, a check that
  rejects does so because of an enabled row that applies to the call's model, whose counter the
  store answered (without an error) to be at the row's cap, and the rejection reports that row.
  So a store error never rejects a request.\<close>

theorem Check_rejection_justified:
  "Check (Some \<lparr>lm_store = Some cs, lm_limits = Some src\<rparr>) now s st = (st', Some e) \<Longrightarrow>
     \<exists>l\<in>set (rows src s). applies s l \<and> e = exceeded l \<and> reached cs now l st'"
  by (rule checkLoop_rejects) (simp add: Check_def Enabled_def rows_def)

theorem Check_rejection_justified_witness:
  "\<exists>l\<in>set (rows (exSource MetricRequests 0) exScope). applies exScope l \<and>
     exceeded (exLimit MetricRequests 0) = exceeded l \<and> reached (memCounterStore 5) 5 l Map.empty"
proof (rule Check_rejection_justified)
  show "Check (Some \<lparr>lm_store = Some (memCounterStore 5), lm_limits = Some (exSource MetricRequests 0)\<rparr>)
    5 exScope Map.empty = (Map.empty, Some (exceeded (exLimit MetricRequests 0)))"
    by (simp add: Check_def Enabled_def exSource_def exScope_def mem_defs exLimit_def intCap_def
        trunc_int_def wrap64_def Let_def fun_upd_idem)
qed

end
