(* ===== verification/EgressFilter.thy ===== *)
theory EgressFilter
  imports GoStrings "HOL-Library.List_Lexorder" "HOL-Library.Char_ord"
begin

text \<open>
  The gateway's outbound secret filter (\<open>llm/gateway/security/egressfilter/egressfilter.go\<close>): modes,
  the registry of detectors and the allow list, scanning and redaction.

  A detector is a function from the text to hits. The regular expressions of the baseline rules
  are detectors too; which texts they match is not modelled. \<open>sort.Slice\<close> leaves the order of ties
  open, so \<open>Redact\<close> takes the sort as an argument and the theorem holds for every one that sorts.
\<close>

datatype Mode = ModeOff | ModeDetect | ModeEnforce | ModeRedact

definition ParseMode :: "string \<Rightarrow> Mode" where
  "ParseMode s =
     (let m = ToLower (TrimSpace s)
      in if m = '''' then ModeOff
         else if m = ''enforce'' then ModeEnforce
         else if m = ''redact'' then ModeRedact
         else ModeDetect)"

definition EffectiveMode :: "bool \<Rightarrow> Mode \<Rightarrow> Mode" where
  "EffectiveMode enforcement m =
     (if \<not> enforcement \<and> (m = ModeEnforce \<or> m = ModeRedact) then ModeDetect else m)"

record Hit =
  hit_RuleID :: string
  hit_Start :: int
  hit_End :: int

definition HasHits :: "Hit list \<Rightarrow> bool" where
  "HasHits hits \<longleftrightarrow> length hits > 0"

definition RuleIDs :: "Hit list \<Rightarrow> string list" where
  "RuleIDs hits = sort (remdups (map hit_RuleID hits))"

record egressState =
  registry :: "(string \<times> (string \<Rightarrow> Hit list)) list"
  allowlist :: "string set"

definition Register :: "string \<Rightarrow> (string \<Rightarrow> Hit list) \<Rightarrow> egressState \<Rightarrow> egressState" where
  "Register name f st = st\<lparr>registry := registry st @ [(name, f)]\<rparr>"

definition RegisterAllowedValues :: "string list \<Rightarrow> egressState \<Rightarrow> egressState" where
  "RegisterAllowedValues vs st = st\<lparr>allowlist := allowlist st \<union> (set vs - {''''})\<rparr>"

text \<open>The guard of the loops: an offset outside the text or an empty span.\<close>

definition badOffset :: "string \<Rightarrow> Hit \<Rightarrow> bool" where
  "badOffset s h \<longleftrightarrow> hit_Start h < 0 \<or> hit_End h > int (length s) \<or> hit_Start h \<ge> hit_End h"

text \<open>The slice \<open>text[i:j]\<close>.\<close>

definition slice :: "string \<Rightarrow> nat \<Rightarrow> nat \<Rightarrow> string" where
  "slice s i j = drop i (take j s)"

definition applyAllowlist :: "string set \<Rightarrow> string \<Rightarrow> Hit list \<Rightarrow> Hit list" where
  "applyAllowlist al s hits =
     (if al = {} \<or> hits = [] then hits
      else filter (\<lambda>h. \<not> badOffset s h \<and> slice s (nat (hit_Start h)) (nat (hit_End h)) \<notin> al) hits)"

definition Scan :: "egressState \<Rightarrow> string \<Rightarrow> Hit list" where
  "Scan st s =
     (if s = '''' then []
      else applyAllowlist (allowlist st) s (concat (map (\<lambda>(name, f). f s) (registry st))))"

record span =
  sp_start :: nat
  sp_end :: nat
  sp_rule :: string

definition hitBefore :: "Hit \<Rightarrow> Hit \<Rightarrow> bool" where
  "hitBefore a b \<longleftrightarrow>
     (if hit_Start a \<noteq> hit_Start b then hit_Start a < hit_Start b else hit_End a > hit_End b)"

definition mergeHit :: "string \<Rightarrow> span list \<Rightarrow> Hit \<Rightarrow> span list" where
  "mergeHit s merged h =
     (if badOffset s h then merged
      else if merged \<noteq> [] \<and> hit_Start h \<le> int (sp_end (last merged)) then
        (if hit_End h > int (sp_end (last merged))
         then butlast merged @ [(last merged)\<lparr>sp_end := nat (hit_End h)\<rparr>]
         else merged)
      else merged @ [\<lparr>sp_start = nat (hit_Start h), sp_end = nat (hit_End h), sp_rule = hit_RuleID h\<rparr>])"

definition placeholder :: "string \<Rightarrow> string" where
  "placeholder rule = ''[REDACTED:'' @ rule @ '']''"

definition replaceSpan :: "string \<Rightarrow> span \<Rightarrow> string" where
  "replaceSpan b sp = take (sp_start sp) b @ placeholder (sp_rule sp) @ drop (sp_end sp) b"

definition Redact :: "(Hit list \<Rightarrow> Hit list) \<Rightarrow> string \<Rightarrow> Hit list \<Rightarrow> string" where
  "Redact srt s hits =
     (if hits = [] then s
      else foldl replaceSpan s (rev (foldl (mergeHit s) [] (srt hits))))"

section \<open>Merged spans\<close>

interpretation hits_order: strict_weak_order hitBefore
  by unfold_locales (auto simp: hitBefore_def split: if_splits)

text \<open>What \<open>sort.Slice\<close> promises.\<close>

definition sortsHits :: "(Hit list \<Rightarrow> Hit list) \<Rightarrow> bool" where
  "sortsHits srt \<longleftrightarrow> (\<forall>xs. mset (srt xs) = mset xs \<and> sorted_wrt (\<lambda>x y. \<not> hitBefore y x) (srt xs))"

lemma SliceStable_sortsHits: "sortsHits (SliceStable hitBefore)"
  by (simp add: sortsHits_def hits_order.SliceStable_sorted)

definition hitCovers :: "string \<Rightarrow> Hit \<Rightarrow> nat \<Rightarrow> bool" where
  "hitCovers s h i \<longleftrightarrow> \<not> badOffset s h \<and> hit_Start h \<le> int i \<and> int i < hit_End h"

definition spanCovers :: "span \<Rightarrow> nat \<Rightarrow> bool" where
  "spanCovers sp i \<longleftrightarrow> sp_start sp \<le> i \<and> i < sp_end sp"

text \<open>Spans in order, nonempty, inside the text, with a gap between any two.\<close>

definition spansOK :: "nat \<Rightarrow> span list \<Rightarrow> bool" where
  "spansOK n ms \<longleftrightarrow> (\<forall>m\<in>set ms. sp_start m < sp_end m \<and> sp_end m \<le> n) \<and>
     sorted_wrt (\<lambda>m m'. sp_end m < sp_start m') ms"

lemma mergeHit_bad [simp]: "badOffset s h \<Longrightarrow> mergeHit s ms h = ms"
  by (simp add: mergeHit_def)

lemma mergeHit_step:
  assumes ok: "spansOK (length s) ms" and below: "ms \<noteq> [] \<longrightarrow> int (sp_start (last ms)) \<le> hit_Start h"
    and good: "\<not> badOffset s h"
  shows "spansOK (length s) (mergeHit s ms h) \<and>
    ((\<exists>m\<in>set (mergeHit s ms h). spanCovers m i) \<longleftrightarrow> (\<exists>m\<in>set ms. spanCovers m i) \<or> hitCovers s h i) \<and>
    mergeHit s ms h \<noteq> [] \<and> int (sp_start (last (mergeHit s ms h))) \<le> hit_Start h"
proof (cases "ms \<noteq> [] \<and> hit_Start h \<le> int (sp_end (last ms))")
  case True
  then obtain us l where ms: "ms = us @ [l]" by (metis append_butlast_last_id)
  have l: "int (sp_start l) \<le> hit_Start h" "hit_Start h \<le> int (sp_end l)" using True below by (auto simp: ms)
  show ?thesis
  proof (cases "hit_End h > int (sp_end l)")
    case True
    then have "mergeHit s ms h = us @ [l\<lparr>sp_end := nat (hit_End h)\<rparr>]"
      using l(2) good by (simp add: mergeHit_def ms)
    then show ?thesis
      using ok good l True by (auto simp: spansOK_def ms sorted_wrt_append spanCovers_def hitCovers_def badOffset_def)
  next
    case False
    then have "mergeHit s ms h = ms" using l(2) good by (simp add: mergeHit_def ms)
    then show ?thesis using ok good l False by (auto simp: spansOK_def ms spanCovers_def hitCovers_def badOffset_def)
  qed
next
  case False
  let ?sp = "\<lparr>sp_start = nat (hit_Start h), sp_end = nat (hit_End h), sp_rule = hit_RuleID h\<rparr>"
  have m: "mergeHit s ms h = ms @ [?sp]" using False good by (auto simp: mergeHit_def)
  have gap: "sp_end x < nat (hit_Start h)" if "x \<in> set ms" for x
  proof -
    from that obtain us l where ms: "ms = us @ [l]" by (metis append_butlast_last_id empty_iff set_empty)
    have "int (sp_end l) < hit_Start h" using False by (simp add: ms)
    moreover have "sp_end x \<le> sp_end l"
      using that ok by (fastforce simp: ms spansOK_def sorted_wrt_append)
    ultimately show ?thesis by linarith
  qed
  have "spansOK (length s) (ms @ [?sp])"
    using ok good gap by (auto simp: spansOK_def sorted_wrt_append badOffset_def)
  moreover have "spanCovers ?sp i \<longleftrightarrow> hitCovers s h i"
    using good by (auto simp: spanCovers_def hitCovers_def badOffset_def)
  ultimately show ?thesis using good by (auto simp: m badOffset_def)
qed

lemma mergeHits:
  assumes "sorted_wrt (\<lambda>x y. \<not> hitBefore y x) hs" "spansOK (length s) ms"
    and "ms \<noteq> [] \<longrightarrow> (\<forall>h\<in>set hs. int (sp_start (last ms)) \<le> hit_Start h)"
  shows "spansOK (length s) (foldl (mergeHit s) ms hs) \<and>
    ((\<exists>m\<in>set (foldl (mergeHit s) ms hs). spanCovers m i) \<longleftrightarrow>
       (\<exists>m\<in>set ms. spanCovers m i) \<or> (\<exists>h\<in>set hs. hitCovers s h i))"
  using assms
proof (induction hs arbitrary: ms)
  case (Cons h hs)
  have le: "hit_Start h \<le> hit_Start h'" if "h' \<in> set hs" for h'
    using that Cons.prems(1) by (auto simp: hitBefore_def split: if_splits)
  show ?case
  proof (cases "badOffset s h")
    case True
    then have "\<not> hitCovers s h i" by (simp add: hitCovers_def)
    then show ?thesis using Cons True by auto
  next
    case False
    have "ms \<noteq> [] \<longrightarrow> int (sp_start (last ms)) \<le> hit_Start h" using Cons.prems(3) by auto
    note m = mergeHit_step [OF Cons.prems(2) this False]
    have "\<forall>h'\<in>set hs. int (sp_start (last (mergeHit s ms h))) \<le> hit_Start h'"
      using m [of i] le by force
    then show ?thesis using Cons.IH [of "mergeHit s ms h"] m [of i] Cons.prems(1) by auto
  qed
qed simp

text \<open>
  Where a span begins and what it is named after: at the first byte of a hit, the longest one that
  begins there.
\<close>

definition opens :: "string \<Rightarrow> Hit list \<Rightarrow> nat \<Rightarrow> string \<Rightarrow> bool" where
  "opens s hs i rule \<longleftrightarrow>
     (\<exists>h\<in>set hs. \<not> badOffset s h \<and> hit_Start h = int i \<and> hit_RuleID h = rule \<and>
        (\<forall>h'\<in>set hs. \<not> badOffset s h' \<and> hit_Start h' = int i \<longrightarrow> hit_End h' \<le> hit_End h))"

lemma mergeHit_last:
  assumes "\<not> badOffset s h"
  shows "mergeHit s ms h \<noteq> [] \<and> hit_End h \<le> int (sp_end (last (mergeHit s ms h))) \<and>
    (ms \<noteq> [] \<longrightarrow> hit_Start h \<le> int (sp_end (last ms)) \<or> int (sp_end (last ms)) \<le> hit_End h) \<and>
    (ms \<noteq> [] \<longrightarrow> int (sp_end (last ms)) \<le> int (sp_end (last (mergeHit s ms h))))"
  using assms by (auto simp: mergeHit_def badOffset_def)

lemma mergeHit_heads:
  assumes "m \<in> set (mergeHit s ms h)" "\<not> badOffset s h"
  shows "(\<exists>m'\<in>set ms. sp_start m = sp_start m' \<and> sp_rule m = sp_rule m') \<or>
    (int (sp_start m) = hit_Start h \<and> sp_rule m = hit_RuleID h \<and> (ms \<noteq> [] \<longrightarrow> int (sp_end (last ms)) < hit_Start h))"
  using assms by (auto simp: mergeHit_def badOffset_def split: if_splits dest: in_set_butlastD intro: last_in_set)

lemma mergeHits_open:
  assumes "sorted_wrt (\<lambda>x y. \<not> hitBefore y x) hs"
  shows "(\<forall>h\<in>set hs. \<not> badOffset s h \<longrightarrow> foldl (mergeHit s) [] hs \<noteq> [] \<and> hit_End h \<le> int (sp_end (last (foldl (mergeHit s) [] hs)))) \<and>
    (\<forall>m\<in>set (foldl (mergeHit s) [] hs). opens s hs (sp_start m) (sp_rule m))"
  using assms
proof (induction hs rule: rev_induct)
  case (snoc h hs)
  let ?ms = "foldl (mergeHit s) [] hs"
  have IH: "\<And>g. g \<in> set hs \<Longrightarrow> \<not> badOffset s g \<Longrightarrow> ?ms \<noteq> [] \<and> hit_End g \<le> int (sp_end (last ?ms))"
    "\<And>m. m \<in> set ?ms \<Longrightarrow> opens s hs (sp_start m) (sp_rule m)"
    using snoc by (auto simp: sorted_wrt_append)
  have le: "\<not> hitBefore h g" if "g \<in> set hs" for g using that snoc.prems by (auto simp: sorted_wrt_append)
  show ?case
  proof (cases "badOffset s h")
    case True
    then have "opens s (hs @ [h]) i rule \<longleftrightarrow> opens s hs i rule" for i rule by (auto simp: opens_def)
    then show ?thesis using IH True by auto
  next
    case False
    note l = mergeHit_last [OF False, of ?ms]
    have "opens s (hs @ [h]) (sp_start m) (sp_rule m)" if m: "m \<in> set (mergeHit s ?ms h)" for m
      using mergeHit_heads [OF m False]
    proof
      assume "\<exists>m'\<in>set ?ms. sp_start m = sp_start m' \<and> sp_rule m = sp_rule m'"
      then have "opens s hs (sp_start m) (sp_rule m)" using IH(2) by force
      then obtain g where g: "g \<in> set hs" "\<not> badOffset s g" "hit_Start g = int (sp_start m)" "hit_RuleID g = sp_rule m"
          "\<forall>h'\<in>set hs. \<not> badOffset s h' \<and> hit_Start h' = int (sp_start m) \<longrightarrow> hit_End h' \<le> hit_End g"
        by (auto simp: opens_def)
      moreover have "hit_Start h = int (sp_start m) \<longrightarrow> hit_End h \<le> hit_End g"
        using le [OF g(1)] g(3) by (auto simp: hitBefore_def)
      ultimately show ?thesis unfolding opens_def by (intro bexI [of _ g]) auto
    next
      assume n: "int (sp_start m) = hit_Start h \<and> sp_rule m = hit_RuleID h \<and> (?ms \<noteq> [] \<longrightarrow> int (sp_end (last ?ms)) < hit_Start h)"
      have "hit_Start g \<noteq> hit_Start h" if "g \<in> set hs" "\<not> badOffset s g" for g
        using IH(1) [OF that] n that(2) by (auto simp: badOffset_def)
      then show ?thesis using n False unfolding opens_def by (intro bexI [of _ h]) auto
    qed
    moreover have "hit_End g \<le> int (sp_end (last (mergeHit s ?ms h)))" if "g \<in> set hs" "\<not> badOffset s g" for g
      using IH(1) [OF that] l by linarith
    ultimately show ?thesis using l by auto
  qed
qed simp

section \<open>The redacted text\<close>

text \<open>A text cut into parts that are kept and parts that are hidden behind a placeholder.\<close>

datatype seg = Keep string | Hide string string

fun original :: "seg \<Rightarrow> string" where
  "original (Keep t) = t"
| "original (Hide rule t) = t"

fun shown :: "seg \<Rightarrow> string" where
  "shown (Keep t) = t"
| "shown (Hide rule t) = ''[REDACTED:'' @ rule @ '']''"

lemma shown_Hide: "shown (Hide rule t) = placeholder rule"
  by (simp add: placeholder_def)

declare shown.simps(2) [simp del] shown_Hide [simp]

text \<open>Which bytes of the original text are hidden.\<close>

fun hiddenMask :: "seg \<Rightarrow> bool list" where
  "hiddenMask (Keep t) = replicate (length t) False"
| "hiddenMask (Hide rule t) = replicate (length t) True"

fun cut :: "string \<Rightarrow> nat \<Rightarrow> span list \<Rightarrow> seg list" where
  "cut s from [] = [Keep (drop from s)]"
| "cut s from (m # ms) =
     Keep (slice s from (sp_start m)) # Hide (sp_rule m) (slice s (sp_start m) (sp_end m)) # cut s (sp_end m) ms"

lemma take_slice: "i \<le> j \<Longrightarrow> take i s @ slice s i j = take j s"
  by (metis append_take_drop_id min.absorb_iff2 min.commute slice_def take_take)

lemma foldl_replaceSpan:
  assumes "spansOK (length s) ms" "\<forall>m\<in>set ms. from \<le> sp_start m" "from \<le> length s"
  shows "foldl replaceSpan s (rev ms) = take from s @ concat (map shown (cut s from ms))"
  using assms
proof (induction ms arbitrary: "from")
  case (Cons m ms)
  have m: "sp_start m < sp_end m" "sp_end m \<le> length s" "from \<le> sp_start m"
    using Cons.prems by (auto simp: spansOK_def)
  let ?rest = "concat (map shown (cut s (sp_end m) ms))"
  have "foldl replaceSpan s (rev ms) = take (sp_end m) s @ ?rest"
    by (rule Cons.IH) (use Cons.prems in \<open>auto simp: spansOK_def less_imp_le\<close>)
  then have "foldl replaceSpan s (rev (m # ms)) = take (sp_start m) s @ placeholder (sp_rule m) @ ?rest"
    using m by (simp add: replaceSpan_def min_absorb2)
  then show ?case using take_slice [OF m(3), of s] by simp
qed simp

lemma cut_original:
  assumes "spansOK (length s) ms" "\<forall>m\<in>set ms. from \<le> sp_start m"
  shows "take from s @ concat (map original (cut s from ms)) = s"
  using assms
proof (induction ms arbitrary: "from")
  case (Cons m ms)
  have m: "sp_start m \<le> sp_end m" "from \<le> sp_start m" using Cons.prems by (auto simp: spansOK_def less_imp_le)
  have "take (sp_end m) s @ concat (map original (cut s (sp_end m) ms)) = s"
    by (rule Cons.IH) (use Cons.prems in \<open>auto simp: spansOK_def less_imp_le\<close>)
  then show ?case using take_slice [OF m(1), of s] take_slice [OF m(2), of s] by (simp flip: append_assoc)
qed simp

lemma length_slice: "j \<le> length s \<Longrightarrow> length (slice s i j) = j - i"
  by (simp add: slice_def)

lemma map_upt_const: "(\<And>i. i < k \<Longrightarrow> n \<le> i \<Longrightarrow> f i = c) \<Longrightarrow> map f [n..<k] = replicate (k - n) c"
  by (auto intro!: nth_equalityI)

lemma upt_split: "i \<le> j \<Longrightarrow> j \<le> k \<Longrightarrow> [i..<k] = [i..<j] @ [j..<k]"
  using upt_add_eq_append [of i j "k - j"] by simp

lemma cut_mask:
  assumes "spansOK (length s) ms" "\<forall>m\<in>set ms. from \<le> sp_start m" "from \<le> length s"
  shows "concat (map hiddenMask (cut s from ms)) = map (\<lambda>i. \<exists>m\<in>set ms. spanCovers m i) [from..<length s]"
  using assms
proof (induction ms arbitrary: "from")
  case Nil
  then show ?case by (simp add: map_upt_const [where c = False] )
next
  case (Cons m ms)
  have m: "sp_start m < sp_end m" "sp_end m \<le> length s" "from \<le> sp_start m"
    and later: "\<And>x. x \<in> set ms \<Longrightarrow> sp_end m < sp_start x"
    using Cons.prems by (auto simp: spansOK_def)
  let ?f = "\<lambda>i. \<exists>x\<in>set (m # ms). spanCovers x i"
  have "[from..<length s] = [from..<sp_start m] @ [sp_start m..<sp_end m] @ [sp_end m..<length s]"
    using m upt_split [of "from" "sp_start m" "length s"] upt_split [of "sp_start m" "sp_end m" "length s"] by simp
  then have "map ?f [from..<length s] = map ?f [from..<sp_start m] @ map ?f [sp_start m..<sp_end m] @ map ?f [sp_end m..<length s]"
    by simp
  moreover have "map ?f [from..<sp_start m] = replicate (sp_start m - from) False"
    by (rule map_upt_const) (use later m in \<open>fastforce simp: spanCovers_def\<close>)
  moreover have "map ?f [sp_start m..<sp_end m] = replicate (sp_end m - sp_start m) True"
    by (rule map_upt_const) (auto simp: spanCovers_def)
  moreover have "map ?f [sp_end m..<length s] = map (\<lambda>i. \<exists>x\<in>set ms. spanCovers x i) [sp_end m..<length s]"
    by (auto simp: spanCovers_def)
  moreover have "concat (map hiddenMask (cut s (sp_end m) ms)) = map (\<lambda>i. \<exists>x\<in>set ms. spanCovers x i) [sp_end m..<length s]"
    by (rule Cons.IH) (use Cons.prems m later in \<open>auto simp: spansOK_def less_imp_le\<close>)
  ultimately show ?case using m by (simp add: length_slice)
qed

text \<open>C12: Redaction hides exactly the detected bytes. For any hits, in any order, overlapping, adjacent,
nested or with offsets outside the text, and however the sort breaks ties, the result is the text
cut into kept and hidden parts: the kept parts are untouched and in order, and a byte is hidden
exactly if some hit inside the text covers it. The hidden parts are the maximal ones: each is a
nonempty span, and two of them are separated by at least one kept byte, so overlapping and touching
hits share one part. Each part is replaced by one placeholder, which names the rule of the longest
hit (of one of the longest) among those that begin at its first byte.\<close>

theorem Redact_exact:
  assumes "sortsHits srt"
  shows "\<exists>spans. let segs = cut s 0 spans in
    s = concat (map original segs) \<and> Redact srt s hits = concat (map shown segs) \<and>
    concat (map hiddenMask segs) =
      map (\<lambda>i. \<exists>h\<in>set hits. 0 \<le> hit_Start h \<and> hit_End h \<le> int (length s) \<and> hit_Start h \<le> int i \<and> int i < hit_End h)
        [0..<length s] \<and>
    (\<forall>m\<in>set spans. sp_start m < sp_end m \<and> sp_end m \<le> length s) \<and>
    sorted_wrt (\<lambda>m m'. sp_end m < sp_start m') spans \<and>
    (\<forall>m\<in>set spans. \<exists>h\<in>set hits. hit_RuleID h = sp_rule m \<and> hit_Start h = int (sp_start m) \<and>
       hit_Start h < hit_End h \<and> hit_End h \<le> int (length s) \<and>
       (\<forall>h'\<in>set hits. hit_Start h' = int (sp_start m) \<and> hit_End h' \<le> int (length s) \<longrightarrow> hit_End h' \<le> hit_End h))"
proof -
  define ms where "ms = foldl (mergeHit s) [] (srt hits)"
  have srt: "set (srt hits) = set hits" "sorted_wrt (\<lambda>x y. \<not> hitBefore y x) (srt hits)"
    using assms by (auto simp: sortsHits_def dest: mset_eq_setD)
  have ok: "spansOK (length s) ms" and cov: "\<And>i. (\<exists>m\<in>set ms. spanCovers m i) \<longleftrightarrow> (\<exists>h\<in>set hits. hitCovers s h i)"
    using mergeHits [OF srt(2), of s "[]"] by (auto simp: ms_def srt(1) spansOK_def)
  have "Redact srt s hits = foldl replaceSpan s (rev ms)"
  proof (cases "hits = []")
    case True
    then have "srt hits = []" using srt(1) by simp
    then show ?thesis by (simp add: Redact_def True ms_def)
  qed (simp add: Redact_def ms_def)
  then have "Redact srt s hits = concat (map shown (cut s 0 ms))"
    using foldl_replaceSpan [OF ok, of 0] by simp
  moreover have "s = concat (map original (cut s 0 ms))" using cut_original [OF ok, of 0] by simp
  moreover have "concat (map hiddenMask (cut s 0 ms)) = map (\<lambda>i. \<exists>h\<in>set hits. hitCovers s h i) [0..<length s]"
    using cut_mask [OF ok, of 0] cov by simp
  moreover have "hitCovers s h i \<longleftrightarrow>
      0 \<le> hit_Start h \<and> hit_End h \<le> int (length s) \<and> hit_Start h \<le> int i \<and> int i < hit_End h" for h i
    by (auto simp: hitCovers_def badOffset_def)
  moreover have "\<exists>h\<in>set hits. hit_RuleID h = sp_rule m \<and> hit_Start h = int (sp_start m) \<and>
       hit_Start h < hit_End h \<and> hit_End h \<le> int (length s) \<and>
       (\<forall>h'\<in>set hits. hit_Start h' = int (sp_start m) \<and> hit_End h' \<le> int (length s) \<longrightarrow> hit_End h' \<le> hit_End h)"
    if "m \<in> set ms" for m
    using mergeHits_open [OF srt(2), of s] that
    by (fastforce simp: ms_def [symmetric] srt(1) opens_def badOffset_def)
  ultimately show ?thesis using ok by (intro exI [of _ ms]) (simp add: Let_def spansOK_def)
qed

theorem Redact_exact_witness:
  "\<exists>spans. ''aXXXXXbYYYYYc'' = concat (map original (cut ''aXXXXXbYYYYYc'' 0 spans)) \<and>
     Redact (SliceStable hitBefore) ''aXXXXXbYYYYYc''
       [\<lparr>hit_RuleID = ''r2'', hit_Start = 6, hit_End = 12\<rparr>, \<lparr>hit_RuleID = ''r1'', hit_Start = 1, hit_End = 6\<rparr>] =
     concat (map shown (cut ''aXXXXXbYYYYYc'' 0 spans)) \<and> sorted_wrt (\<lambda>m m'. sp_end m < sp_start m') spans"
  using Redact_exact [OF SliceStable_sortsHits, of "''aXXXXXbYYYYYc''"
      "[\<lparr>hit_RuleID = ''r2'', hit_Start = 6, hit_End = 12\<rparr>, \<lparr>hit_RuleID = ''r1'', hit_Start = 1, hit_End = 6\<rparr>]"]
  unfolding Let_def by blast

end
