(* ===== verification/EdgeErr.thy ===== *)
theory EdgeErr
  imports GoStrings
begin

text \<open>
  The gateway's own error responses (\<open>llm/gateway/edgeerr/edgeerr.go\<close>): each is shaped like the native
  error of a provider. The human-readable message is left out of the body.
\<close>

definition Anthropic :: string where "Anthropic = ''anthropic''"
definition OpenAI :: string where "OpenAI = ''openai''"
definition Gemini :: string where "Gemini = ''gemini''"

text \<open>
  The JSON bodies: Gemini's \<open>error.code\<close> and \<open>error.status\<close>, Anthropic's \<open>error.type\<close>, OpenAI's
  \<open>error.type\<close> and \<open>error.code\<close>, and the neutral shape with the machine token as its type.
\<close>

datatype errBody =
    GeminiError int string
  | AnthropicError string
  | OpenAIError string string
  | NeutralError string

definition geminiStatus :: "int \<Rightarrow> string" where
  "geminiStatus s =
     (if s = 400 then ''INVALID_ARGUMENT''
      else if s = 401 then ''UNAUTHENTICATED''
      else if s = 403 then ''PERMISSION_DENIED''
      else if s = 404 then ''NOT_FOUND''
      else if s = 413 then ''INVALID_ARGUMENT''
      else if s = 429 then ''RESOURCE_EXHAUSTED''
      else if s = 500 then ''INTERNAL''
      else if s \<in> {502, 503, 504} then ''UNAVAILABLE''
      else ''UNKNOWN'')"

definition anthropicType :: "int \<Rightarrow> string" where
  "anthropicType s =
     (if s = 400 then ''invalid_request_error''
      else if s = 401 then ''authentication_error''
      else if s = 403 then ''permission_error''
      else if s = 404 then ''not_found_error''
      else if s = 413 then ''request_too_large''
      else if s = 429 then ''rate_limit_error''
      else if s = 503 then ''overloaded_error''
      else ''api_error'')"

definition openaiType :: "int \<Rightarrow> string" where
  "openaiType s =
     (if s = 429 then ''rate_limit_error''
      else if s \<in> {401, 403, 400, 413, 404} then ''invalid_request_error''
      else ''api_error'')"

text \<open>The body \<open>Write\<close> sends for a provider, a status and a machine token.\<close>

definition envelope :: "string \<Rightarrow> int \<Rightarrow> string \<Rightarrow> errBody" where
  "envelope provider status code =
     (if provider = Gemini then GeminiError status (geminiStatus status)
      else if provider = Anthropic then AnthropicError (anthropicType status)
      else if provider = OpenAI then OpenAIError (openaiType status) code
      else NeutralError code)"

text \<open>A client library classifies a failure by its body: only a 429 is announced as a rate limit.\<close>

definition saysRateLimited :: "errBody \<Rightarrow> bool" where
  "saysRateLimited b = (case b of
     GeminiError c s \<Rightarrow> s = ''RESOURCE_EXHAUSTED'' | AnthropicError t \<Rightarrow> t = ''rate_limit_error''
   | OpenAIError t c \<Rightarrow> t = ''rate_limit_error'' | NeutralError c \<Rightarrow> False)"

lemma saysRateLimited_iff:
  "provider \<in> {Gemini, Anthropic, OpenAI} \<Longrightarrow> saysRateLimited (envelope provider status code) \<longleftrightarrow> status = 429"
  by (auto simp: saysRateLimited_def envelope_def geminiStatus_def anthropicType_def openaiType_def
      Gemini_def Anthropic_def OpenAI_def)

end
