(* ===== verification/GatewayProxy.thy ===== *)
theory GatewayProxy
  imports Routing RateLimit EgressFilter EdgeErr "HOL-Library.Sublist"
begin

text \<open>
  The request path of the gateway (\<open>llm/gateway/proxy\<close>): the control pipeline (\<open>pipeline.go\<close>) with its
  four stages (\<open>stages.go\<close>) and what the native handler does with its outcome (\<open>handler.go\<close>). It composes
  the routing engine, the limiter and the egress filter; the handlers are in \<open>GatewayHandlers\<close>.

  The JSON encoding of bodies, the tenant's credential and model mapping resolvers and the settings are
  arguments. A response is recorded by its status and its body without the message.
\<close>

section \<open>Request state\<close>

record Identity =
  id_TenantID :: string
  id_AccountID :: string
  id_UserID :: string
  id_TokenID :: string
  id_APIKeyID :: string

record DLPRecord =
  dlp_mode :: Mode
  dlp_rules :: "string list"
  dlp_redacted :: bool

text \<open>
  \<open>rc_written\<close> are the responses written so far, \<open>rc_headers\<close> the response headers; \<open>rc_bctxKey\<close> and
  \<open>rc_bctxPath\<close> are the values the stages set on the Bifrost context.
\<close>

record RequestContext =
  rc_written :: "(int \<times> errBody) list"
  rc_headers :: "(string \<times> string) list"
  rc_bctxKey :: "string option"
  rc_bctxPath :: "string option"
  rc_Identity :: Identity
  rc_Provider :: string
  rc_Model :: string
  rc_Path :: string
  rc_Body :: string
  rc_Streaming :: bool
  rc_DirectKey :: "string option"
  rc_DirectKeyURLPath :: string
  rc_MappedModel :: string
  rc_Decision :: Decision
  rc_RejectReason :: string
  rc_DLP :: "DLPRecord option"

definition edgeerr_Write :: "string \<Rightarrow> int \<Rightarrow> string \<Rightarrow> RequestContext \<Rightarrow> RequestContext" where
  "edgeerr_Write provider status code rc = rc\<lparr>rc_written := rc_written rc @ [(status, envelope provider status code)]\<rparr>"

text \<open>A stage may change the request and the limiter's store; it stops or fails.\<close>

type_synonym 's stage = "RequestContext \<times> 's \<Rightarrow> (RequestContext \<times> 's) \<times> bool \<times> string option"

section \<open>Stages\<close>

text \<open>\<open>strings.IndexAny(rest, ":/")\<close>, then the model segment replaced.\<close>

definition rewriteGeminiModelPath :: "string \<Rightarrow> string \<Rightarrow> string" where
  "rewriteGeminiModelPath path resolved =
     (case Index path ''/models/'' of
        None \<Rightarrow> path
      | Some i \<Rightarrow>
          (let head = take (i + 8) path;
               rest = drop (i + 8) path;
               model = takeWhile (\<lambda>c. c \<noteq> CHR '':'' \<and> c \<noteq> CHR ''/'') rest
           in if length model < length rest then head @ resolved @ drop (length model) rest
              else head @ resolved))"

text \<open>\<open>setModel\<close> replaces the model field of a JSON body; \<open>None\<close> if the body is not understood.\<close>

definition rewriteModel ::
  "(string \<Rightarrow> string \<Rightarrow> string option) \<Rightarrow> string \<Rightarrow> string \<Rightarrow> string \<Rightarrow> string \<Rightarrow> string \<times> string" where
  "rewriteModel setModel provider body path resolved =
     (if resolved = '''' then (body, path)
      else if provider = ''gemini'' then (body, rewriteGeminiModelPath path resolved)
      else if body = '''' then (body, path)
      else case setModel body resolved of None \<Rightarrow> (body, path) | Some nb \<Rightarrow> (nb, path))"

definition routeStage ::
  "(Input \<Rightarrow> Decision) \<Rightarrow> (string \<Rightarrow> string \<Rightarrow> string option) \<Rightarrow> 's stage" where
  "routeStage router setModel = (\<lambda>(rc0, st).
     let d = router \<lparr>in_Provider = rc_Provider rc0, in_Model = rc_Model rc0,
                     in_TenantID = id_TenantID (rc_Identity rc0), in_UserID = id_UserID (rc_Identity rc0)\<rparr>;
         rc = rc0\<lparr>rc_Decision := d\<rparr>
     in if Denied d then
          ((edgeerr_Write (rc_Provider rc) 403 ''model_not_allowed'' (rc\<lparr>rc_RejectReason := ''blocked''\<rparr>), st), True, None)
        else if dec_Reason d = ReasonSubstitute then ((rc, st), False, None)
        else if ResolvedModel d \<noteq> RequestedModel d then
          (let (body, path) = rewriteModel setModel (rc_Provider rc) (rc_Body rc) (rc_Path rc) (ResolvedModel d)
           in ((rc\<lparr>rc_Body := body, rc_Path := path, rc_Model := ResolvedModel d\<rparr>, st), False, None))
        else ((rc, st), False, None))"

text \<open>The scope a request is counted under: the model the client asked for.\<close>

definition requestScope :: "RequestContext \<Rightarrow> Scope" where
  "requestScope rc =
     \<lparr>sc_TenantID = id_TenantID (rc_Identity rc), sc_UserID = id_UserID (rc_Identity rc),
      sc_APIKeyID = id_APIKeyID (rc_Identity rc),
      sc_Model = (if RequestedModel (rc_Decision rc) = '''' then rc_Model rc else RequestedModel (rc_Decision rc))\<rparr>"

definition ratelimitStage :: "'s Limiter option \<Rightarrow> instant \<Rightarrow> instant \<Rightarrow> 's stage" where
  "ratelimitStage limiter now wall = (\<lambda>(rc, st).
     if \<not> Enabled limiter then ((rc, st), False, None)
     else
       (case Check limiter now (requestScope rc) st of
          (st', None) \<Rightarrow> ((rc, st'), False, None)
        | (st', Some ex) \<Rightarrow>
            (let secs = (ResetAt (ex_Period ex) wall - wall) div 1000000000 + 1;
                 rc1 = (if secs > 0 then rc\<lparr>rc_headers := rc_headers rc @ [(''Retry-After'', Itoa secs)]\<rparr> else rc)
             in ((edgeerr_Write (rc_Provider rc) 429 ''rate_limit_exceeded'' (rc1\<lparr>rc_RejectReason := ''rate_limited''\<rparr>), st'), True, None))))"

definition embeddingsPath :: string where "embeddingsPath = ''/v1/embeddings''"

text \<open>The hooks: a nil hook is \<open>None\<close>; a mapping is (provider, key, served model, path).\<close>

record credHooks =
  modelResolverHook :: "(string \<Rightarrow> string \<Rightarrow> (string \<times> string \<times> string \<times> string) option) option"
  credResolver :: "string \<Rightarrow> Identity \<Rightarrow> string option"
  operatorCredsHook :: "(string \<Rightarrow> bool) option"

definition resolveModelMapping :: "credHooks \<Rightarrow> string \<Rightarrow> string \<Rightarrow> (string \<times> string \<times> string \<times> string) option" where
  "resolveModelMapping hk tenantID model =
     (case modelResolverHook hk of None \<Rightarrow> None | Some f \<Rightarrow> f tenantID model)"

text \<open>The provider-wide lookup that ends the resolver stage.\<close>

definition resolveProviderCreds :: "credHooks \<Rightarrow> 's stage" where
  "resolveProviderCreds hk = (\<lambda>(rc, st).
     let provider = (if dec_Reason (rc_Decision rc) = ReasonSubstitute
                     then ResolvedProvider (rc_Decision rc) else rc_Provider rc)
     in case credResolver hk provider (rc_Identity rc) of
          Some k \<Rightarrow> ((rc\<lparr>rc_bctxKey := Some k\<rparr>, st), False, None)
        | None \<Rightarrow>
            (case operatorCredsHook hk of
               Some f \<Rightarrow>
                 (if \<not> f provider
                  then ((edgeerr_Write provider 403 ''provider_not_configured'' (rc\<lparr>rc_RejectReason := ''no_credentials''\<rparr>), st), True, None)
                  else ((rc, st), False, None))
             | None \<Rightarrow> ((rc, st), False, None)))"

definition resolverStage :: "credHooks \<Rightarrow> 's stage" where
  "resolverStage hk = (\<lambda>(rc, st).
     let substitute = (dec_Reason (rc_Decision rc) = ReasonSubstitute)
     in case (if substitute then resolveModelMapping hk (id_TenantID (rc_Identity rc)) (ResolvedModel (rc_Decision rc)) else None) of
          Some (p, k, served, path) \<Rightarrow>
            (if rc_Path rc = embeddingsPath \<and> path \<noteq> ''''
             then ((edgeerr_Write OpenAI 400 ''invalid_request'' (rc\<lparr>rc_RejectReason := ''unsupported_embeddings''\<rparr>), st), True, None)
             else ((rc\<lparr>rc_bctxKey := Some k,
                       rc_bctxPath := (if path \<noteq> '''' then Some path else rc_bctxPath rc),
                       rc_MappedModel := served\<rparr>, st), False, None))
        | None \<Rightarrow>
            (let rc1 = (if substitute then rc\<lparr>rc_MappedModel := ''''\<rparr> else rc)
             in case rc_DirectKey rc1 of
                  Some k \<Rightarrow>
                    (if \<not> substitute
                     then ((rc1\<lparr>rc_bctxKey := Some k,
                               rc_bctxPath := (if rc_DirectKeyURLPath rc1 \<noteq> '''' then Some (rc_DirectKeyURLPath rc1) else rc_bctxPath rc1)\<rparr>, st), False, None)
                     else resolveProviderCreds hk (rc1, st))
                | None \<Rightarrow> resolveProviderCreds hk (rc1, st)))"

record egressConfig =
  ec_state :: egressState
  ec_enforcement :: bool
  ec_mode :: "string \<Rightarrow> string"
  ec_sort :: "Hit list \<Rightarrow> Hit list"

definition modeName :: "Mode \<Rightarrow> string" where
  "modeName m = (case m of ModeOff \<Rightarrow> '''' | ModeDetect \<Rightarrow> ''detect'' | ModeEnforce \<Rightarrow> ''enforce'' | ModeRedact \<Rightarrow> ''redact'')"

definition tenantMode :: "egressConfig \<Rightarrow> string \<Rightarrow> Mode" where
  "tenantMode ec tenant = EffectiveMode (ec_enforcement ec) (ParseMode (ec_mode ec tenant))"

definition filterStage :: "egressConfig \<Rightarrow> 's stage" where
  "filterStage ec = (\<lambda>(rc, st).
     let mode = tenantMode ec (id_TenantID (rc_Identity rc))
     in if mode = ModeOff \<or> rc_Body rc = '''' then ((rc, st), False, None)
        else
          let hits = Scan (ec_state ec) (rc_Body rc)
          in if \<not> HasHits hits then ((rc, st), False, None)
             else
               let rules = RuleIDs hits;
                   rc1 = rc\<lparr>rc_headers := rc_headers rc @ [(''x-nb-llm-dlp'', modeName mode @ '':'' @ Join rules '','')],
                            rc_DLP := Some \<lparr>dlp_mode = mode, dlp_rules = rules, dlp_redacted = False\<rparr>\<rparr>
               in if mode = ModeEnforce then
                    ((edgeerr_Write (rc_Provider rc) 403 ''secret_detected'' (rc1\<lparr>rc_RejectReason := ''secret_blocked''\<rparr>), st), True, None)
                  else if mode = ModeRedact then
                    ((rc1\<lparr>rc_Body := Redact (ec_sort ec) (rc_Body rc) hits,
                          rc_DLP := Some \<lparr>dlp_mode = mode, dlp_rules = rules, dlp_redacted = True\<rparr>\<rparr>, st), False, None)
                  else ((rc1, st), False, None))"

section \<open>The pipeline\<close>

fun Run :: "'s stage list \<Rightarrow> 's stage" where
  "Run [] x = (x, False, None)"
| "Run (s # ss) x =
     (case s x of (x', stop, err) \<Rightarrow> if err \<noteq> None \<or> stop then (x', stop, err) else Run ss x')"

record 's gateway =
  gw_router :: "Input \<Rightarrow> Decision"
  gw_setModel :: "string \<Rightarrow> string \<Rightarrow> string option"
  gw_limiter :: "'s Limiter option"
  gw_creds :: credHooks
  gw_egress :: egressConfig

definition pipeline :: "'s gateway \<Rightarrow> instant \<Rightarrow> instant \<Rightarrow> 's stage list" where
  "pipeline gw now wall =
     [routeStage (gw_router gw) (gw_setModel gw), ratelimitStage (gw_limiter gw) now wall,
      resolverStage (gw_creds gw), filterStage (gw_egress gw)]"

text \<open>What the handler does next: reject, translate, stream or pass through.\<close>

datatype Dispatch =
    PipelineError RequestContext
  | Rejected RequestContext
  | DoSubstitute RequestContext
  | DoStream RequestContext
  | DoUnary RequestContext

definition handleRequest :: "'s gateway \<Rightarrow> instant \<Rightarrow> instant \<Rightarrow> RequestContext \<Rightarrow> 's \<Rightarrow> Dispatch \<times> 's" where
  "handleRequest gw now wall rc0 st0 =
     (case Run (pipeline gw now wall) (rc0, st0) of
        ((rc, st), stop, err) \<Rightarrow>
          (if err \<noteq> None then (PipelineError (edgeerr_Write (rc_Provider rc0) 500 ''gateway_error'' rc), st)
           else if stop then (Rejected rc, st)
           else
             let rc1 = (if dec_Reason (rc_Decision rc) = ReasonDeprecated
                        then rc\<lparr>rc_headers := rc_headers rc @ [(''x-nb-llm-deprecated'',
                               RequestedModel (rc_Decision rc) @ ''->'' @ ResolvedModel (rc_Decision rc))]\<rparr> else rc)
             in (if dec_Reason (rc_Decision rc1) = ReasonSubstitute then DoSubstitute rc1
                 else if rc_Streaming rc1 then DoStream rc1
                 else DoUnary rc1, st)))"

section \<open>The contract of a control stage\<close>

text \<open>
  What the pipeline relies on: a stage does not fail, keeps the identity and the addressed provider, and
  either lets the request pass without answering or stops it with exactly one error response and a
  recorded reason. The response has the addressed provider's shape, except for two reasons of the resolver.
\<close>

definition answered :: "RequestContext \<Rightarrow> RequestContext \<Rightarrow> bool" where
  "answered rc rc' \<longleftrightarrow> rc_RejectReason rc' \<noteq> '''' \<and>
     (\<exists>p status code. rc_written rc' = rc_written rc @ [(status, envelope p status code)] \<and> 400 \<le> status \<and>
        (p = rc_Provider rc \<or> rc_RejectReason rc' \<in> {''no_credentials'', ''unsupported_embeddings''}))"

lemma edgeerr_Write_keeps [simp]:
  "rc_Identity (edgeerr_Write p status code rc) = rc_Identity rc" "rc_Provider (edgeerr_Write p status code rc) = rc_Provider rc"
  by (simp_all add: edgeerr_Write_def)

lemma answered_Write [intro]:
  assumes "400 \<le> status" "rc_written rc1 = rc_written rc" "rc_RejectReason rc1 \<noteq> ''''"
    and "p = rc_Provider rc \<or> rc_RejectReason rc1 \<in> {''no_credentials'', ''unsupported_embeddings''}"
  shows "answered rc (edgeerr_Write p status code rc1)"
  using assms by (auto simp: answered_def edgeerr_Write_def)

definition andThen :: "'s stage \<Rightarrow> 's stage \<Rightarrow> 's stage" where
  "andThen s t x = (case s x of (x', stop, err) \<Rightarrow> if err \<noteq> None \<or> stop then (x', stop, err) else t x')"

lemma Run_Cons: "Run (s # ss) = andThen s (Run ss)"
  by (simp add: fun_eq_iff andThen_def)

locale control_stage =
  fixes s :: "'s stage"
  assumes no_error: "s x = (x', stop, err) \<Longrightarrow> err = None"
    and keeps_identity: "s (rc, st) = ((rc', st'), stop, err) \<Longrightarrow> rc_Identity rc' = rc_Identity rc \<and> rc_Provider rc' = rc_Provider rc"
    and stopped: "s (rc, st) = ((rc', st'), True, err) \<Longrightarrow> answered rc rc'"
    and passed: "s (rc, st) = ((rc', st'), False, err) \<Longrightarrow> rc_written rc' = rc_written rc"
begin

text \<open>A stage in front of a pipeline that keeps the contract.\<close>

lemma chain:
  assumes "control_stage t"
  shows "control_stage (andThen s t)"
proof
  fix x x' stop err assume r: "andThen s t x = (x', stop, err)"
  obtain y b e where y: "s x = (y, b, e)" by (cases "s x")
  show "err = None"
  proof (cases b)
    case False
    then show ?thesis using r y no_error [OF y] control_stage.no_error [OF assms, of y] by (simp add: andThen_def)
  qed (use r y no_error [OF y] in \<open>simp add: andThen_def\<close>)
next
  fix rc st rc' st' stop err assume r: "andThen s t (rc, st) = ((rc', st'), stop, err)"
  obtain rc1 st1 b e where y: "s (rc, st) = ((rc1, st1), b, e)" by (metis prod.collapse)
  note t = control_stage.keeps_identity [OF assms, of rc1 st1]
  show "rc_Identity rc' = rc_Identity rc \<and> rc_Provider rc' = rc_Provider rc"
    using r y no_error [OF y] keeps_identity [OF y] t by (cases b) (auto simp: andThen_def)
next
  fix rc st rc' st' err assume r: "andThen s t (rc, st) = ((rc', st'), True, err)"
  obtain rc1 st1 b e where y: "s (rc, st) = ((rc1, st1), b, e)" by (metis prod.collapse)
  show "answered rc rc'"
  proof (cases b)
    case True
    then show ?thesis using r y stopped by (simp add: andThen_def)
  next
    case False
    then have "rc_written rc1 = rc_written rc" using passed y by simp
    then show ?thesis
      using r y False no_error [OF y] control_stage.stopped [OF assms, of rc1 st1] keeps_identity [OF y]
      by (simp add: andThen_def answered_def)
  qed
next
  fix rc st rc' st' err assume r: "andThen s t (rc, st) = ((rc', st'), False, err)"
  obtain rc1 st1 b e where y: "s (rc, st) = ((rc1, st1), b, e)" by (metis prod.collapse)
  show "rc_written rc' = rc_written rc"
  proof (cases b)
    case True
    then show ?thesis using r y by (simp add: andThen_def)
  next
    case False
    then have "rc_written rc1 = rc_written rc" using passed y by simp
    then show ?thesis
      using r y False no_error [OF y] control_stage.passed [OF assms, of rc1 st1] by (simp add: andThen_def)
  qed
qed

end

lemma Run_Nil_control: "control_stage (Run [])"
  by unfold_locales auto

interpretation route: control_stage "routeStage router setModel" for router setModel
  by unfold_locales
    (auto simp: routeStage_def Let_def split: prod.splits if_splits)

interpretation ratelimit: control_stage "ratelimitStage limiter now wall" for limiter now wall
  by unfold_locales
    (auto simp: ratelimitStage_def Let_def split: prod.splits if_splits option.splits)

interpretation provider_creds: control_stage "resolveProviderCreds hk" for hk
  by unfold_locales
    (auto simp: resolveProviderCreds_def Let_def split: prod.splits if_splits option.splits)

interpretation resolver_stage: control_stage "resolverStage hk" for hk
proof
  note d = resolverStage_def Let_def
  show "resolverStage hk x = (x', stop, err) \<Longrightarrow> err = None" for x x' stop err
    by (cases x) (auto simp: d split: if_splits option.splits prod.splits dest: provider_creds.no_error)
  show "resolverStage hk (rc, st) = ((rc', st'), stop, err) \<Longrightarrow> rc_Identity rc' = rc_Identity rc \<and> rc_Provider rc' = rc_Provider rc" for rc st rc' st' stop err
    by (auto simp: d split: if_splits option.splits prod.splits dest: provider_creds.keeps_identity)
  have same: "answered (rc\<lparr>rc_MappedModel := m\<rparr>) rc' = answered rc rc'" for rc rc' m
    by (simp add: answered_def)
  show "resolverStage hk (rc, st) = ((rc', st'), True, err) \<Longrightarrow> answered rc rc'" for rc st rc' st' err
    by (auto simp: d same split: if_splits option.splits prod.splits dest!: provider_creds.stopped)
  show "resolverStage hk (rc, st) = ((rc', st'), False, err) \<Longrightarrow> rc_written rc' = rc_written rc" for rc st rc' st' err
    by (auto simp: d split: if_splits option.splits prod.splits dest!: provider_creds.passed)
qed

text \<open>
  The exception in the contract: a request routed to another provider for which there is no
  credential is answered in the shape of that provider, not of the one the client speaks to.
\<close>

lemma no_credentials_shape:
  assumes "dec_Reason (rc_Decision rc) = ReasonSubstitute"
    and "resolveModelMapping hk (id_TenantID (rc_Identity rc)) (ResolvedModel (rc_Decision rc)) = None"
    and "credResolver hk (ResolvedProvider (rc_Decision rc)) (rc_Identity rc) = None"
    and "operatorCredsHook hk = Some f" "\<not> f (ResolvedProvider (rc_Decision rc))"
  shows "resolverStage hk (rc, st) =
    ((edgeerr_Write (ResolvedProvider (rc_Decision rc)) 403 ''provider_not_configured''
        (rc\<lparr>rc_MappedModel := '''', rc_RejectReason := ''no_credentials''\<rparr>), st), True, None)"
  using assms by (simp add: resolverStage_def resolveProviderCreds_def Let_def split: option.splits)

interpretation egress: control_stage "filterStage ec" for ec
  by unfold_locales
    (auto simp: filterStage_def Let_def split: if_splits)

interpretation control: control_stage "Run (pipeline gw now wall)" for gw now wall
  unfolding pipeline_def Run_Cons
  by (intro route.chain ratelimit.chain resolver_stage.chain egress.chain Run_Nil_control)

section \<open>What reaches the provider\<close>

text \<open>The request context the handler dispatches, if it does.\<close>

fun forwarded :: "Dispatch \<Rightarrow> RequestContext option" where
  "forwarded (DoSubstitute rc) = Some rc"
| "forwarded (DoStream rc) = Some rc"
| "forwarded (DoUnary rc) = Some rc"
| "forwarded _ = None"

definition inputOf :: "RequestContext \<Rightarrow> Input" where
  "inputOf rc = \<lparr>in_Provider = rc_Provider rc, in_Model = rc_Model rc,
     in_TenantID = id_TenantID (rc_Identity rc), in_UserID = id_UserID (rc_Identity rc)\<rparr>"

lemma routeStage_denied:
  "Denied (router (inputOf rc)) \<Longrightarrow>
   routeStage router setModel (rc, st) =
     ((edgeerr_Write (rc_Provider rc) 403 ''model_not_allowed'' (rc\<lparr>rc_Decision := router (inputOf rc), rc_RejectReason := ''blocked''\<rparr>), st), True, None)"
  by (simp add: routeStage_def inputOf_def Let_def)

text \<open>The body of an admitted request once the model in it is the routed one.\<close>

definition routedBody :: "'s gateway \<Rightarrow> RequestContext \<Rightarrow> string" where
  "routedBody gw rc =
     (let d = gw_router gw (inputOf rc)
      in if dec_Reason d = ReasonSubstitute \<or> ResolvedModel d = RequestedModel d then rc_Body rc
         else fst (rewriteModel (gw_setModel gw) (rc_Provider rc) (rc_Body rc) (rc_Path rc) (ResolvedModel d)))"

lemma routeStage_allowed:
  assumes "\<not> Denied (gw_router gw (inputOf rc))"
  shows "\<exists>rc'. routeStage (gw_router gw) (gw_setModel gw) (rc, st) = ((rc', st), False, None) \<and>
    rc_Decision rc' = gw_router gw (inputOf rc) \<and> rc_Identity rc' = rc_Identity rc \<and> rc_Body rc' = routedBody gw rc"
  using assms by (auto simp: routeStage_def routedBody_def inputOf_def Let_def split: prod.splits)

lemma resolverStage_passed:
  assumes "resolverStage hk (rc, st) = ((rc', st'), False, err)"
  shows "st' = st \<and> rc_Decision rc' = rc_Decision rc \<and> rc_Model rc' = rc_Model rc \<and> rc_Body rc' = rc_Body rc \<and>
    rc_Identity rc' = rc_Identity rc"
  using assms by (auto simp: resolverStage_def resolveProviderCreds_def Let_def split: if_splits option.splits prod.splits)

lemma resolverStage_store: "resolverStage hk (rc, st) = ((rc', st'), stop, err) \<Longrightarrow> st' = st"
  by (auto simp: resolverStage_def resolveProviderCreds_def Let_def split: if_splits option.splits prod.splits)

lemma filterStage_passed:
  assumes "filterStage ec (rc, st) = ((rc', st'), False, err)"
  shows "st' = st \<and> rc_Decision rc' = rc_Decision rc \<and> rc_Model rc' = rc_Model rc \<and> rc_Identity rc' = rc_Identity rc \<and>
    (tenantMode ec (id_TenantID (rc_Identity rc)) = ModeEnforce \<longrightarrow> rc_Body rc' = rc_Body rc \<and> \<not> HasHits (Scan (ec_state ec) (rc_Body rc'))) \<and>
    (tenantMode ec (id_TenantID (rc_Identity rc)) = ModeRedact \<longrightarrow>
       rc_Body rc' = Redact (ec_sort ec) (rc_Body rc) (Scan (ec_state ec) (rc_Body rc)))"
  using assms by (auto simp: filterStage_def Let_def HasHits_def Scan_def Redact_def split: if_splits)

lemma filterStage_store: "filterStage ec (rc, st) = ((rc', st'), stop, err) \<Longrightarrow> st' = st"
  by (auto simp: filterStage_def Let_def split: if_splits)

lemma andThen_passed:
  assumes "andThen s t x = (z, False, None)"
  shows "\<exists>y. s x = (y, False, None) \<and> t y = (z, False, None)"
  using assms by (auto simp: andThen_def split: prod.splits if_splits)

lemma ratelimitStage_passed:
  assumes "ratelimitStage limiter now wall (rc, st) = ((rc', st'), False, err)"
  shows "rc' = rc \<and> (if Enabled limiter then Check limiter now (requestScope rc) st = (st', None) else st' = st)"
  using assms by (auto simp: ratelimitStage_def Let_def split: if_splits option.splits prod.splits)

text \<open>The header the handler adds for a deprecated model changes nothing else.\<close>

lemma handleRequest_forwarded:
  assumes "handleRequest gw now wall rc0 st0 = (d, st)" "forwarded d = Some rc"
  shows "\<exists>rc'. Run (pipeline gw now wall) (rc0, st0) = ((rc', st), False, None) \<and> rc_Decision rc = rc_Decision rc' \<and>
    rc_Identity rc = rc_Identity rc' \<and> rc_Model rc = rc_Model rc' \<and> rc_Body rc = rc_Body rc' \<and> rc_written rc = rc_written rc'"
  using assms by (auto simp: handleRequest_def Let_def split: prod.splits if_splits)

lemma requestScope_cong:
  "rc_Identity rc = rc_Identity rc' \<Longrightarrow> rc_Decision rc = rc_Decision rc' \<Longrightarrow> rc_Model rc = rc_Model rc' \<Longrightarrow>
     requestScope rc = requestScope rc'"
  by (simp add: requestScope_def)

text \<open>
  The scope a request has to be counted under, from the request as it came in: the caller's tenant,
  user and key, and the model the client named (for a request that names none, the model it is
  served with). It does not mention the decision.
\<close>

definition askedScope :: "RequestContext \<Rightarrow> RequestContext \<Rightarrow> Scope" where
  "askedScope rc0 rc =
     \<lparr>sc_TenantID = id_TenantID (rc_Identity rc0), sc_UserID = id_UserID (rc_Identity rc0),
      sc_APIKeyID = id_APIKeyID (rc_Identity rc0),
      sc_Model = (if rc_Model rc0 = '''' then rc_Model rc else rc_Model rc0)\<rparr>"

lemma requestScope_asked:
  assumes "rc_Identity rc = rc_Identity rc0" "rc_Decision rc = gw_router gw (inputOf rc0)"
    and "RequestedModel (gw_router gw (inputOf rc0)) = rc_Model rc0"
  shows "requestScope rc = askedScope rc0 rc"
  using assms by (simp add: requestScope_def askedScope_def)

text \<open>Every router of the repository records in its decision the model that was asked for.\<close>

lemma Resolve_requested: "RequestedModel (Resolve eo inp) = in_Model inp"
proof -
  have "RequestedModel (resolveLoop d inp rs) = RequestedModel d" for rs d
    by (induction rs) auto
  then show ?thesis by (simp add: Resolve_def split: option.split)
qed

lemma pipeline_passed:
  assumes "Run (pipeline gw now wall) (rc0, st0) = ((rc4, st4), False, None)"
  shows "\<exists>rc1 st1 rc2 st2 rc3 st3.
    routeStage (gw_router gw) (gw_setModel gw) (rc0, st0) = ((rc1, st1), False, None) \<and>
    ratelimitStage (gw_limiter gw) now wall (rc1, st1) = ((rc2, st2), False, None) \<and>
    resolverStage (gw_creds gw) (rc2, st2) = ((rc3, st3), False, None) \<and>
    filterStage (gw_egress gw) (rc3, st3) = ((rc4, st4), False, None)"
proof -
  note stages = assms [unfolded pipeline_def Run_Cons]
  from andThen_passed [OF stages] obtain rc1 st1 where
    1: "routeStage (gw_router gw) (gw_setModel gw) (rc0, st0) = ((rc1, st1), False, None)" and s1: "andThen (ratelimitStage (gw_limiter gw) now wall)
      (andThen (resolverStage (gw_creds gw)) (andThen (filterStage (gw_egress gw)) (Run []))) (rc1, st1) = ((rc4, st4), False, None)" by auto
  from andThen_passed [OF s1] obtain rc2 st2 where
    2: "ratelimitStage (gw_limiter gw) now wall (rc1, st1) = ((rc2, st2), False, None)" and s2: "andThen (resolverStage (gw_creds gw))
      (andThen (filterStage (gw_egress gw)) (Run [])) (rc2, st2) = ((rc4, st4), False, None)" by auto
  from andThen_passed [OF s2] obtain rc3 st3 where
    3: "resolverStage (gw_creds gw) (rc2, st2) = ((rc3, st3), False, None)"
    and s3: "andThen (filterStage (gw_egress gw)) (Run []) (rc3, st3) = ((rc4, st4), False, None)" by auto
  from andThen_passed [OF s3] have "filterStage (gw_egress gw) (rc3, st3) = ((rc4, st4), False, None)" by auto
  with 1 2 3 show ?thesis by blast
qed

lemma forwarded_checks:
  assumes "handleRequest gw now wall rc0 st0 = (d, st)" "forwarded d = Some rc"
  shows "rc_Decision rc = gw_router gw (inputOf rc0) \<and> \<not> Denied (gw_router gw (inputOf rc0)) \<and>
    rc_Identity rc = rc_Identity rc0 \<and> rc_written rc = rc_written rc0 \<and>
    (if Enabled (gw_limiter gw) then Check (gw_limiter gw) now (requestScope rc) st0 = (st, None) else st = st0) \<and>
    (tenantMode (gw_egress gw) (id_TenantID (rc_Identity rc0)) = ModeEnforce \<longrightarrow>
       \<not> HasHits (Scan (ec_state (gw_egress gw)) (rc_Body rc))) \<and>
    (tenantMode (gw_egress gw) (id_TenantID (rc_Identity rc0)) = ModeRedact \<longrightarrow>
       rc_Body rc = Redact (ec_sort (gw_egress gw)) (routedBody gw rc0) (Scan (ec_state (gw_egress gw)) (routedBody gw rc0)))"
proof -
  from handleRequest_forwarded [OF assms] obtain rc4 where
    run: "Run (pipeline gw now wall) (rc0, st0) = ((rc4, st), False, None)"
    and rc: "rc_Decision rc = rc_Decision rc4" "rc_Identity rc = rc_Identity rc4" "rc_Model rc = rc_Model rc4"
      "rc_Body rc = rc_Body rc4" "rc_written rc = rc_written rc4" by blast
  from pipeline_passed [OF run] obtain rc1 st1 rc2 st2 rc3 st3 where y:
    "routeStage (gw_router gw) (gw_setModel gw) (rc0, st0) = ((rc1, st1), False, None)"
    "ratelimitStage (gw_limiter gw) now wall (rc1, st1) = ((rc2, st2), False, None)"
    "resolverStage (gw_creds gw) (rc2, st2) = ((rc3, st3), False, None)"
    "filterStage (gw_egress gw) (rc3, st3) = ((rc4, st), False, None)" by blast
  have nd: "\<not> Denied (gw_router gw (inputOf rc0))"
    using y(1) routeStage_denied [of "gw_router gw" rc0 "gw_setModel gw" st0] by auto
  have 1: "rc_Decision rc1 = gw_router gw (inputOf rc0)" "rc_Identity rc1 = rc_Identity rc0" "st1 = st0"
    "rc_Body rc1 = routedBody gw rc0"
    using routeStage_allowed [of gw rc0 st0, OF nd] y(1) by auto
  note 2 = ratelimitStage_passed [OF y(2)]
  note 3 = resolverStage_passed [OF y(3)]
  note 4 = filterStage_passed [OF y(4)]
  have "requestScope rc = requestScope rc1" by (rule requestScope_cong) (use rc 2 3 4 in auto)
  moreover have "rc_written rc4 = rc_written rc0" by (rule control.passed [OF run])
  ultimately show ?thesis using rc nd 1 2 3 4 by auto
qed

text \<open>C3: Nothing reaches a provider that a control should have stopped. A request the handler dispatches,
on any path, was not denied by the routing policy; it was admitted by the limiter and counted under
the tenant, the user and the key of the request as it came in and under the model the client named,
whatever model it was routed to (a request that names no model is counted under the one it is served
with), and the counters changed by exactly that check; it had no answer written for it; and it
carries no detected secret: in enforcing mode the forwarded body scans clean, in redacting mode it is
the routed body with everything the scan found in it redacted. The router is any function that
records the requested model in its decision, as the engine and the store do.\<close>

theorem forwarded_request_passed_controls:
  assumes "handleRequest gw now wall rc0 st0 = (d, st)" "forwarded d = Some rc"
    and "RequestedModel (gw_router gw (inputOf rc0)) = rc_Model rc0"
  shows "\<not> Denied (gw_router gw (inputOf rc0)) \<and> rc_written rc = rc_written rc0 \<and>
    (if Enabled (gw_limiter gw)
     then Check (gw_limiter gw) now
       \<lparr>sc_TenantID = id_TenantID (rc_Identity rc0), sc_UserID = id_UserID (rc_Identity rc0),
        sc_APIKeyID = id_APIKeyID (rc_Identity rc0),
        sc_Model = (if rc_Model rc0 = '''' then rc_Model rc else rc_Model rc0)\<rparr> st0 = (st, None)
     else st = st0) \<and>
    (tenantMode (gw_egress gw) (id_TenantID (rc_Identity rc0)) = ModeEnforce \<longrightarrow>
       \<not> HasHits (Scan (ec_state (gw_egress gw)) (rc_Body rc))) \<and>
    (tenantMode (gw_egress gw) (id_TenantID (rc_Identity rc0)) = ModeRedact \<longrightarrow>
       rc_Body rc = Redact (ec_sort (gw_egress gw)) (routedBody gw rc0) (Scan (ec_state (gw_egress gw)) (routedBody gw rc0)))"
proof -
  note c = forwarded_checks [OF assms(1,2)]
  have "requestScope rc = askedScope rc0 rc" by (rule requestScope_asked [OF _ _ assms(3)]) (use c in auto)
  from c [unfolded this askedScope_def] show ?thesis by blast
qed

lemma denied_rejected:
  assumes "Denied (gw_router gw (inputOf rc0))"
  shows "handleRequest gw now wall rc0 st0 =
    (Rejected (edgeerr_Write (rc_Provider rc0) 403 ''model_not_allowed''
       (rc0\<lparr>rc_Decision := gw_router gw (inputOf rc0), rc_RejectReason := ''blocked''\<rparr>)), st0)"
  by (simp add: handleRequest_def pipeline_def routeStage_denied [of "gw_router gw" rc0, OF assms])

text \<open>A request that is not dispatched is answered exactly once, by the stage that stopped it, with a
client-visible error and a recorded reason; the pipeline itself never fails. The error has the shape
of the provider the client addressed, unless no credential was found or embeddings are unsupported.\<close>

theorem rejected_request_answered_once:
  assumes "handleRequest gw now wall rc0 st0 = (d, st)" "forwarded d = None"
  shows "\<exists>rc p status code. d = Rejected rc \<and> rc_written rc = rc_written rc0 @ [(status, envelope p status code)] \<and> 400 \<le> status \<and>
    (p = rc_Provider rc0 \<or> rc_RejectReason rc \<in> {''no_credentials'', ''unsupported_embeddings''}) \<and>
    rc_RejectReason rc \<noteq> '''' \<and> (Denied (gw_router gw (inputOf rc0)) \<longrightarrow> rc_RejectReason rc = ''blocked'' \<and> st = st0)"
proof -
  obtain rc1 st1 stop err where r: "Run (pipeline gw now wall) (rc0, st0) = ((rc1, st1), stop, err)"
    by (metis prod.collapse)
  have e: "err = None" by (rule control.no_error [OF r])
  have s: "stop" using assms r e by (auto simp: handleRequest_def Let_def split: if_splits)
  then have d: "d = Rejected rc1" "st = st1" using assms r e by (auto simp: handleRequest_def)
  have a: "answered rc0 rc1" using control.stopped [of gw now wall rc0 st0 rc1 st1 err] r s by simp
  have "rc_RejectReason rc1 = ''blocked'' \<and> st1 = st0" if "Denied (gw_router gw (inputOf rc0))"
    using denied_rejected [of gw rc0, OF that] assms(1) d by (auto simp: edgeerr_Write_def)
  then show ?thesis using a d by (auto simp: answered_def)
qed

section \<open>Routing and limits, end to end\<close>

text \<open>A block rule blocks, end to end. If an enabled deny rule applies to a request and no applicable
rule outranks it as an exception (a tenant rule over a global one, or a smaller priority in the
same scope), the request is answered with 403 and nothing else happens: it reaches no provider and
consumes no quota.\<close>

theorem block_rule_blocks:
  assumes "gw_router gw = Resolve (Some (NewEngine rules))"
    and "r \<in> set rules" "applicable (inputOf rc0) r" "tgt_Deny (rule_Target r)"
    and "\<And>r'. r' \<in> set rules \<Longrightarrow> applicable (inputOf rc0) r' \<Longrightarrow> \<not> tgt_Deny (rule_Target r') \<Longrightarrow>
      \<not> (rule_TenantID r' \<noteq> '''' \<and> rule_TenantID r = '''')
      \<and> ((rule_TenantID r' = '''') = (rule_TenantID r = '''') \<longrightarrow> rule_Priority r \<le> rule_Priority r')"
  shows "\<exists>rc. handleRequest gw now wall rc0 st0 = (Rejected rc, st0) \<and>
    rc_written rc = rc_written rc0 @ [(403, envelope (rc_Provider rc0) 403 ''model_not_allowed'')] \<and> rc_RejectReason rc = ''blocked''"
proof -
  have "Denied (gw_router gw (inputOf rc0))"
    unfolding assms(1) using eng.deny_wins [OF assms(2-4)] assms(5) by blast
  from denied_rejected [OF this] show ?thesis by (simp add: edgeerr_Write_def)
qed

text \<open>Requests one after the other, with the in-memory store.\<close>

record request =
  rq_now :: instant
  rq_wall :: instant
  rq_context :: RequestContext

fun serve :: "memStore gateway \<Rightarrow> LimitSource \<Rightarrow> request list \<Rightarrow> memStore \<Rightarrow> (request \<times> Dispatch) list" where
  "serve gw src [] st = []"
| "serve gw src (rq # rqs) st =
     (case handleRequest (gw\<lparr>gw_limiter := memLimiter src (rq_wall rq)\<rparr>) (rq_now rq) (rq_wall rq) (rq_context rq) st of
        (d, st') \<Rightarrow> (rq, d) # serve gw src rqs st')"

text \<open>A request that was dispatched, as the admission the quotas have to count: at its time, under what it asked for.\<close>

definition dispatchedCall :: "request \<times> Dispatch \<Rightarrow> Op option" where
  "dispatchedCall = (\<lambda>(rq, d).
     map_option (\<lambda>rc. OpCheck (rq_now rq) (rq_wall rq) (askedScope (rq_context rq) rc)) (forwarded d))"

lemma last_stages_store:
  assumes "Run [resolverStage hk, filterStage ec] (rc, st) = ((rc', st'), stop, err)"
  shows "st' = st"
proof -
  obtain rc1 st1 b e where r: "resolverStage hk (rc, st) = ((rc1, st1), b, e)" by (metis prod.collapse)
  obtain rc2 st2 b2 e2 where f: "filterStage ec (rc1, st1) = ((rc2, st2), b2, e2)" by (metis prod.collapse)
  show ?thesis using assms r f resolverStage_store [OF r] filterStage_store [OF f] by (auto split: if_splits)
qed

lemma handleRequest_store:
  fixes gw :: "memStore gateway"
  defines "gw' src rq \<equiv> gw\<lparr>gw_limiter := memLimiter src (rq_wall rq)\<rparr>"
  assumes "handleRequest (gw' src rq) (rq_now rq) (rq_wall rq) (rq_context rq) st = (d, st')"
    and requested: "\<forall>inp. RequestedModel (gw_router gw inp) = in_Model inp"
  shows "(st' = st \<and> forwarded d = None) \<or>
    (\<exists>s e. Check (memLimiter src (rq_wall rq)) (rq_now rq) s st = (st', e) \<and>
       (\<forall>rc. forwarded d = Some rc \<longrightarrow> e = None \<and> s = askedScope (rq_context rq) rc))"
proof -
  let ?g = "gw' src rq"
  have en: "gw_limiter ?g = memLimiter src (rq_wall rq)" "Enabled (memLimiter src (rq_wall rq))" "gw_router ?g = gw_router gw"
    by (simp_all add: gw'_def memLimiter_def Enabled_def)
  show ?thesis
  proof (cases "forwarded d")
    case (Some rc)
    note c = forwarded_checks [OF assms(2) Some]
    have "requestScope rc = askedScope (rq_context rq) rc"
      by (rule requestScope_asked [where gw = ?g]) (use c en requested in \<open>auto simp: inputOf_def\<close>)
    then show ?thesis using c Some en by auto
  next
    case None
    show ?thesis
    proof (cases "Denied (gw_router ?g (inputOf (rq_context rq)))")
      case True
      then show ?thesis using denied_rejected [of ?g, OF True] assms(2) by auto
    next
      case False
      obtain rc1 where r: "routeStage (gw_router ?g) (gw_setModel ?g) (rq_context rq, st) = ((rc1, st), False, None)"
        using routeStage_allowed [of ?g "rq_context rq" st, OF False] by auto
      obtain st2 e where c: "Check (memLimiter src (rq_wall rq)) (rq_now rq) (requestScope rc1) st = (st2, e)"
        by (metis prod.collapse)
      obtain rc2 b where rl: "ratelimitStage (gw_limiter ?g) (rq_now rq) (rq_wall rq) (rc1, st) = ((rc2, st2), b, None)"
        using c en(2) by (cases e) (fastforce simp: en(1) ratelimitStage_def Let_def)+
      obtain x4 st4 stop err where run: "Run (pipeline ?g (rq_now rq) (rq_wall rq)) (rq_context rq, st) = ((x4, st4), stop, err)"
        by (metis prod.collapse)
      have "st4 = st2"
      proof (cases b)
        case True
        then show ?thesis using run r rl by (simp add: pipeline_def)
      next
        case False
        then have "Run [resolverStage (gw_creds ?g), filterStage (gw_egress ?g)] (rc2, st2) = ((x4, st4), stop, err)"
          using run r rl by (simp add: pipeline_def)
        then show ?thesis by (rule last_stages_store)
      qed
      moreover have "st' = st4" using assms(2) run by (auto simp: handleRequest_def Let_def split: if_splits)
      ultimately show ?thesis using c None by auto
    qed
  qed
qed

lemma serve_calls:
  assumes requested: "\<forall>inp. RequestedModel (gw_router gw inp) = in_Model inp"
  shows "\<exists>ops. (\<forall>op\<in>set ops. \<exists>rq\<in>set rqs. op_now op = rq_now rq \<and> op_wall op = rq_wall rq) \<and>
     subseq (List.map_filter dispatchedCall (serve gw src rqs st)) (snd (run src ops st))"
proof (induction rqs arbitrary: st)
  case Nil
  then show ?case by (intro exI [of _ "[]"]) (simp add: List.map_filter_simps)
next
  case (Cons rq rqs)
  obtain d st' where h: "handleRequest (gw\<lparr>gw_limiter := memLimiter src (rq_wall rq)\<rparr>) (rq_now rq) (rq_wall rq) (rq_context rq) st = (d, st')"
    by (cases "handleRequest (gw\<lparr>gw_limiter := memLimiter src (rq_wall rq)\<rparr>) (rq_now rq) (rq_wall rq) (rq_context rq) st")
  obtain ops where ops: "\<forall>op\<in>set ops. \<exists>rq\<in>set rqs. op_now op = rq_now rq \<and> op_wall op = rq_wall rq"
    "subseq (List.map_filter dispatchedCall (serve gw src rqs st')) (snd (run src ops st'))"
    using Cons.IH by blast
  from handleRequest_store [OF h requested]
  consider (none) "st' = st" "forwarded d = None"
    | (call) s e where "Check (memLimiter src (rq_wall rq)) (rq_now rq) s st = (st', e)"
        "\<forall>rc. forwarded d = Some rc \<longrightarrow> e = None \<and> s = askedScope (rq_context rq) rc" by fastforce
  then show ?case
  proof cases
    case none
    then show ?thesis using ops h by (intro exI [of _ ops]) (auto simp: List.map_filter_simps dispatchedCall_def)
  next
    case call
    let ?ops = "OpCheck (rq_now rq) (rq_wall rq) s # ops"
    have "subseq (List.map_filter dispatchedCall (serve gw src (rq # rqs) st)) (snd (run src ?ops st))"
      using ops(2) h call
      by (cases "forwarded d"; cases e) (auto simp: List.map_filter_simps dispatchedCall_def split: prod.splits)
    then show ?thesis using ops(1) by (intro exI [of _ ?ops]) auto
  qed
qed

text \<open>C15: Quotas hold for the gateway as a whole. Whatever requests arrive, at whatever times, and
whatever the routing rules, credentials and filters do with them, at most the configured number of
requests that fall under a request limit in one of its windows is dispatched to a provider. A request
falls under a limit by its own tenant, user and key and by the model the client named, not by the
model it was routed to (the router is any that records the model asked for in its decision).\<close>

theorem dispatched_requests_within_quota:
  assumes "\<forall>s. \<forall>l'\<in>set (rows src s). wfLimit l'" "wfLimit l" "lim_Metric l = MetricRequests"
    and "\<forall>rq\<in>set rqs. 0 \<le> rq_now rq \<and> rq_now rq \<le> rq_wall rq \<and> rq_wall rq \<le> rq_now rq + Minute"
    and "\<forall>inp. RequestedModel (gw_router gw inp) = in_Model inp"
  shows "int (length (filter (under src l b) (List.map_filter dispatchedCall (serve gw src rqs NewMemStore)))) \<le> max 0 (intCap l)"
proof -
  obtain ops where ops: "\<forall>op\<in>set ops. \<exists>rq\<in>set rqs. op_now op = rq_now rq \<and> op_wall op = rq_wall rq"
    "subseq (List.map_filter dispatchedCall (serve gw src rqs NewMemStore)) (snd (run src ops NewMemStore))"
    using serve_calls [OF assms(5)] by blast
  have "\<forall>op\<in>set ops. clocksOK op" using ops(1) assms(4) by (fastforce simp: clocksOK_def)
  from run_request_bound [OF assms(1-3) this, of b]
  have "int (length (filter (under src l b) (snd (run src ops NewMemStore)))) \<le> max 0 (intCap l)" .
  moreover have "length (filter (under src l b) (List.map_filter dispatchedCall (serve gw src rqs NewMemStore))) \<le>
      length (filter (under src l b) (snd (run src ops NewMemStore)))"
    using subseq_filter [OF ops(2)] by (rule list_emb_length)
  ultimately show ?thesis by linarith
qed

definition demoGateway :: "Rule list \<Rightarrow> memStore gateway" where
  "demoGateway rules =
     \<lparr>gw_router = Resolve (Some (NewEngine rules)), gw_setModel = (\<lambda>b m. None), gw_limiter = None,
      gw_creds = \<lparr>modelResolverHook = None, credResolver = (\<lambda>p i. Some ''key''), operatorCredsHook = None\<rparr>,
      gw_egress = \<lparr>ec_state = \<lparr>registry = [(''star'', \<lambda>s. if Contains s ''AKIA'' then [\<lparr>hit_RuleID = ''aws'', hit_Start = 0, hit_End = 4\<rparr>] else [])],
                                allowlist = {}\<rparr>,
                    ec_enforcement = True, ec_mode = (\<lambda>t. ''enforce''), ec_sort = SliceStable hitBefore\<rparr>\<rparr>"

definition demoRequest :: "string \<Rightarrow> RequestContext" where
  "demoRequest body =
     \<lparr>rc_written = [], rc_headers = [], rc_bctxKey = None, rc_bctxPath = None,
      rc_Identity = \<lparr>id_TenantID = ''t1'', id_AccountID = '''', id_UserID = ''u1'', id_TokenID = ''static'', id_APIKeyID = ''''\<rparr>,
      rc_Provider = ''anthropic'', rc_Model = ''m'', rc_Path = ''/v1/messages'', rc_Body = body, rc_Streaming = False,
      rc_DirectKey = None, rc_DirectKeyURLPath = '''', rc_MappedModel = '''',
      rc_Decision = passthrough exInput, rc_RejectReason = '''', rc_DLP = None\<rparr>"

lemma demo_no_rules: "Resolve (Some (NewEngine [])) inp = passthrough inp"
  by (simp add: Resolve_def NewEngine_def candidates_def emptyEngine_def)

lemma demo_requested: "RequestedModel (gw_router (demoGateway rules) (inputOf rc)) = rc_Model rc"
  by (simp add: demoGateway_def Resolve_requested inputOf_def)

lemma demo_mode: "tenantMode (gw_egress (demoGateway rules)) t = ModeEnforce"
  by (simp add: demoGateway_def tenantMode_def EffectiveMode_def ParseMode_def Let_def ToLower_def lowerChar_def
      TrimSpace_def trimBy_def isSpace_def)

lemma demo_stages:
  "gw_router (demoGateway []) = passthrough" "gw_limiter (demoGateway []) = None"
  "resolverStage (gw_creds (demoGateway [])) (rc, st) =
     (if dec_Reason (rc_Decision rc) = ReasonPassthrough \<and> rc_DirectKey rc = None
      then ((rc\<lparr>rc_bctxKey := Some ''key''\<rparr>, st), False, None) else resolverStage (gw_creds (demoGateway [])) (rc, st))"
  "rc_Body rc = ''hi'' \<Longrightarrow> filterStage (gw_egress (demoGateway [])) (rc, st) = ((rc, st), False, None)"
proof -
  show "gw_router (demoGateway []) = passthrough" by (simp add: demoGateway_def demo_no_rules fun_eq_iff)
  show "gw_limiter (demoGateway []) = None" by (simp add: demoGateway_def)
  show "resolverStage (gw_creds (demoGateway [])) (rc, st) =
     (if dec_Reason (rc_Decision rc) = ReasonPassthrough \<and> rc_DirectKey rc = None
      then ((rc\<lparr>rc_bctxKey := Some ''key''\<rparr>, st), False, None) else resolverStage (gw_creds (demoGateway [])) (rc, st))"
    by (auto simp: demoGateway_def resolverStage_def resolveProviderCreds_def Let_def)
  have "Scan (ec_state (gw_egress (demoGateway []))) ''hi'' = []"
    by (simp add: demoGateway_def Scan_def applyAllowlist_def Contains_def)
  then show "filterStage (gw_egress (demoGateway [])) (rc, st) = ((rc, st), False, None)" if "rc_Body rc = ''hi''"
    using that by (simp add: filterStage_def Let_def HasHits_def)
qed

lemma demo_run:
  "handleRequest (demoGateway []) 0 0 (demoRequest ''hi'') st =
     (DoUnary ((demoRequest ''hi'')\<lparr>rc_Decision := passthrough (inputOf (demoRequest ''hi'')), rc_bctxKey := Some ''key''\<rparr>), st)"
proof -
  let ?d = "passthrough (inputOf (demoRequest ''hi''))"
  have route: "routeStage passthrough f (demoRequest ''hi'', st) = (((demoRequest ''hi'')\<lparr>rc_Decision := ?d\<rparr>, st), False, None)" for f
    by (simp add: routeStage_def passthrough_def inputOf_def demoRequest_def)
  have d: "dec_Reason ?d = ReasonPassthrough" "rc_DirectKey (demoRequest ''hi'') = None" "rc_Body (demoRequest ''hi'') = ''hi''"
    "\<not> rc_Streaming (demoRequest ''hi'')"
    by (simp_all add: passthrough_def demoRequest_def)
  show ?thesis
    by (simp add: handleRequest_def pipeline_def demo_stages(1,2,4) route ratelimitStage_def Enabled_def d)
      (subst demo_stages(3), simp add: d demo_stages(4))
qed

theorem forwarded_request_passed_controls_witness:
  "\<exists>d st rc. handleRequest (demoGateway []) 0 0 (demoRequest ''hi'') NewMemStore = (d, st) \<and> forwarded d = Some rc \<and>
     \<not> HasHits (Scan (ec_state (gw_egress (demoGateway []))) (rc_Body rc))"
proof -
  define rc where "rc = (demoRequest ''hi'')\<lparr>rc_Decision := passthrough (inputOf (demoRequest ''hi'')), rc_bctxKey := Some ''key''\<rparr>"
  have r: "handleRequest (demoGateway []) 0 0 (demoRequest ''hi'') NewMemStore = (DoUnary rc, NewMemStore)"
    by (simp only: demo_run rc_def)
  have "forwarded (DoUnary rc) = Some rc" by simp
  from forwarded_request_passed_controls [OF r this demo_requested]
  have "\<not> HasHits (Scan (ec_state (gw_egress (demoGateway []))) (rc_Body rc))" using demo_mode by blast
  with r \<open>forwarded (DoUnary rc) = Some rc\<close> show ?thesis by blast
qed

definition denyRule :: Rule where
  "denyRule = exRule ''deny'' ''t1'' 1 ''m'' '''' True"

theorem block_rule_blocks_witness:
  "\<exists>rc. handleRequest (demoGateway [denyRule]) 0 0 (demoRequest ''hi'') NewMemStore = (Rejected rc, NewMemStore) \<and>
     rc_written rc = rc_written (demoRequest ''hi'') @
       [(403, envelope (rc_Provider (demoRequest ''hi'')) 403 ''model_not_allowed'')] \<and> rc_RejectReason rc = ''blocked''"
proof (rule block_rule_blocks [where rules = "[denyRule]" and r = denyRule])
  show "applicable (inputOf (demoRequest ''hi'')) denyRule" "tgt_Deny (rule_Target denyRule)"
    by (simp_all add: applicable_def denyRule_def exRule_def zeroRule_def inputOf_def demoRequest_def matches_def)
qed (auto simp: demoGateway_def denyRule_def exRule_def zeroRule_def)

theorem rejected_request_answered_once_witness:
  "\<exists>d st rc. handleRequest (demoGateway [denyRule]) 0 0 (demoRequest ''hi'') NewMemStore = (d, st) \<and> d = Rejected rc \<and>
     rc_RejectReason rc \<noteq> ''''"
proof -
  have "Denied (gw_router (demoGateway [denyRule]) (inputOf (demoRequest ''hi'')))"
    using eng.deny_wins [of denyRule "[denyRule]" "inputOf (demoRequest ''hi'')"]
    by (auto simp: demoGateway_def applicable_def denyRule_def exRule_def zeroRule_def inputOf_def demoRequest_def matches_def)
  from denied_rejected [of "demoGateway [denyRule]" "demoRequest ''hi''", OF this]
  obtain d st where h: "handleRequest (demoGateway [denyRule]) 0 0 (demoRequest ''hi'') NewMemStore = (d, st)" "forwarded d = None"
    by simp
  from rejected_request_answered_once [OF h] h show ?thesis by blast
qed

theorem dispatched_requests_within_quota_witness:
  "int (length (filter (under (exSource MetricRequests 2) (exLimit MetricRequests 2) (bucket PeriodDay 5))
     (List.map_filter dispatchedCall (serve (demoGateway []) (exSource MetricRequests 2)
        (replicate 5 \<lparr>rq_now = 5, rq_wall = 6, rq_context = demoRequest ''hi''\<rparr>) NewMemStore)))) \<le> 2"
proof -
  have w: "wfLimit (exLimit MetricRequests 2)"
    by (rule exLimit_wf) (simp_all add: ex_metrics exLimit_caps maxInt_def)
  have "\<forall>s. \<forall>l'\<in>set (rows (exSource MetricRequests 2) s). wfLimit l'"
    using exSource_rows(2) w by blast
  moreover have "\<forall>inp. RequestedModel (gw_router (demoGateway []) inp) = in_Model inp"
    by (simp add: demoGateway_def Resolve_requested)
  ultimately show ?thesis
    using dispatched_requests_within_quota [OF _ w, of "exSource MetricRequests 2" "replicate 5 \<lparr>rq_now = 5, rq_wall = 6, rq_context = demoRequest ''hi''\<rparr>"
      "demoGateway []" "bucket PeriodDay 5"]
    by (simp add: exLimit_caps) (simp add: exLimit_def Minute_def Second_def)
qed

end
