(* ===== verification/GatewayHandlers.thy ===== *)
theory GatewayHandlers
  imports GatewayProxy
begin

text \<open>
  The HTTP surface of the gateway: the authentication middleware (\<open>llm/gateway/auth\<close>), the native
  handler (\<open>proxy/handler.go\<close>: \<open>handle\<close>), and the provider-agnostic \<open>/v1\<close> handlers (\<open>proxy/generic.go\<close>:
  \<open>handleChat\<close>, \<open>proxy/embeddings.go\<close>: \<open>handleEmbeddings\<close>) up to the point where a request is handed to
  a provider client.

  Arguments: the validator of tokens, the decoder of the two body fields the edge reads, and the
  names the provider library gives its providers. Of a request, the decoded \<open>key\<close> query parameter
  is a field of its own beside the raw query. Session ids, fingerprints and latencies, which are
  only recorded, are left out of the metering rows, and logging is.
\<close>

section \<open>Requests\<close>

text \<open>\<open>hr_Body\<close> is \<open>None\<close> if reading fails. Header names are unique; a name has a list of values.\<close>

record httpRequest =
  hr_Method :: string
  hr_Path :: string
  hr_RawQuery :: string
  hr_queryKey :: string
  hr_Header :: "(string \<times> string list) list"
  hr_Body :: "string option"

definition GetHeader :: "string \<Rightarrow> httpRequest \<Rightarrow> string" where
  "GetHeader name rq =
     (case find (\<lambda>(k, vs). ToLower k = ToLower name) (hr_Header rq) of
        Some (k, v # vs) \<Rightarrow> v
      | _ \<Rightarrow> '''')"

section \<open>Authentication\<close>

record Validator =
  Validate_token :: "string \<Rightarrow> Identity option"
  RequiresToken :: bool

definition emptyIdentity :: Identity where
  "emptyIdentity = \<lparr>id_TenantID = '''', id_AccountID = '''', id_UserID = '''', id_TokenID = '''', id_APIKeyID = ''''\<rparr>"

definition noneValidator :: Validator where
  "noneValidator = \<lparr>Validate_token = (\<lambda>raw. Some emptyIdentity), RequiresToken = False\<rparr>"

definition denyValidator :: Validator where
  "denyValidator = \<lparr>Validate_token = (\<lambda>raw. None), RequiresToken = True\<rparr>"

definition staticValidator :: "string \<Rightarrow> Identity \<Rightarrow> Validator" where
  "staticValidator token identity =
     \<lparr>Validate_token = (\<lambda>raw. if token = '''' \<or> raw = '''' then None else if raw = token then Some identity else None),
      RequiresToken = True\<rparr>"

text \<open>
  The \<open>user_auths\<close> validator: \<open>hash\<close> is the hex SHA-256 of the token, \<open>lookup\<close> the row the query finds
  (tenant, user, name, id), \<open>Inl\<close> an error of the store other than no row; \<open>None\<close> for no store at all.
\<close>

definition userAuthsValidator ::
  "(string \<Rightarrow> string) \<Rightarrow> (string \<Rightarrow> string + (string \<times> string \<times> string \<times> string) option) option \<Rightarrow> Validator" where
  "userAuthsValidator hash db =
     \<lparr>Validate_token = (\<lambda>raw.
        if raw = '''' then None
        else case db of
          None \<Rightarrow> None
        | Some lookup \<Rightarrow>
            (case lookup (hash raw) of
               Inl err \<Rightarrow> None
             | Inr None \<Rightarrow> None
             | Inr (Some (tenant, user, name, apiKey)) \<Rightarrow>
                 Some \<lparr>id_TenantID = tenant, id_AccountID = '''', id_UserID = user, id_TokenID = name, id_APIKeyID = apiKey\<rparr>)),
      RequiresToken = True\<rparr>"

record authConfig =
  cfg_AuthMode :: string
  cfg_StaticToken :: string
  cfg_StaticTenantID :: string
  cfg_StaticUserID :: string
  cfg_AuthAllowInsecure :: bool

definition CheckConfig :: "authConfig \<Rightarrow> bool" where
  "CheckConfig cfg \<longleftrightarrow> \<not> (cfg_AuthMode cfg = ''none'' \<and> \<not> cfg_AuthAllowInsecure cfg)"

definition NewValidator :: "Validator \<Rightarrow> authConfig \<Rightarrow> Validator" where
  "NewValidator userAuths cfg =
     (if cfg_AuthMode cfg = ''static'' then
        staticValidator (cfg_StaticToken cfg)
          (emptyIdentity\<lparr>id_TenantID := cfg_StaticTenantID cfg, id_UserID := cfg_StaticUserID cfg, id_TokenID := ''static''\<rparr>)
      else if cfg_AuthMode cfg = ''user_auths'' then userAuths
      else noneValidator)"

definition extractToken :: "httpRequest \<Rightarrow> string" where
  "extractToken rq =
     (let apiKey = TrimSpace (GetHeader ''x-api-key'' rq);
          googKey = TrimSpace (GetHeader ''x-goog-api-key'' rq);
          auth = TrimSpace (GetHeader ''Authorization'' rq);
          queryKey = TrimSpace (hr_queryKey rq)
      in if apiKey \<noteq> '''' then apiKey
         else if googKey \<noteq> '''' then googKey
         else if auth \<noteq> '''' then (if HasPrefix auth ''Bearer '' then TrimSpace (TrimPrefix auth ''Bearer '') else auth)
         else if queryKey \<noteq> '''' then queryKey
         else '''')"

definition providerFromPath :: "string \<Rightarrow> string" where
  "providerFromPath p =
     (let seg = fst (Cut (TrimPrefix p ''/'') ''/'')
      in if seg = ''anthropic'' then Anthropic
         else if seg = ''openai'' then OpenAI
         else if seg = ''genai'' then Gemini
         else if seg = ''v1'' then OpenAI
         else '''')"

text \<open>What a handler leaves: the errors written, the rejection rows recorded, and the request handed over.\<close>

record rejectRow =
  rj_Provider :: string
  rj_Model :: string
  rj_Path :: string
  rj_Status :: int
  rj_Reason :: string
  rj_Identity :: Identity
  rj_DLP :: "DLPRecord option"

record passthroughRequest =
  pr_Provider :: string
  pr_Model :: string
  pr_Method :: string
  pr_Path :: string
  pr_RawQuery :: string
  pr_Body :: string
  pr_SafeHeaders :: "(string \<times> string) list"

datatype Lane =
    Substitute
  | Stream passthroughRequest
  | Unary passthroughRequest
  | ChatStream
  | Chat
  | Embedding

record Outcome =
  oc_errors :: "(int \<times> errBody) list"
  oc_rejects :: "rejectRow list"
  oc_forward :: "(Lane \<times> RequestContext) option"

definition abort401 :: "httpRequest \<Rightarrow> Outcome" where
  "abort401 rq = \<lparr>oc_errors = [(401, envelope (providerFromPath (hr_Path rq)) 401 ''authentication_error'')],
     oc_rejects = [], oc_forward = None\<rparr>"

definition Middleware :: "Validator \<Rightarrow> (httpRequest \<Rightarrow> Identity \<Rightarrow> 's \<Rightarrow> Outcome \<times> 's) \<Rightarrow> httpRequest \<Rightarrow> 's \<Rightarrow> Outcome \<times> 's" where
  "Middleware v next rq st =
     (let token = extractToken rq
      in if token = '''' \<and> RequiresToken v then (abort401 rq, st)
         else case Validate_token v token of
                None \<Rightarrow> (abort401 rq, st)
              | Some ident \<Rightarrow> next rq ident st)"

section \<open>Reading a request\<close>

datatype bodyRead = BodyOK string | TooLarge | Unreadable

definition readBody :: "nat \<Rightarrow> httpRequest \<Rightarrow> bodyRead" where
  "readBody maxBytes rq =
     (case hr_Body rq of None \<Rightarrow> Unreadable
      | Some b \<Rightarrow> if length b > maxBytes then TooLarge else BodyOK b)"

text \<open>\<open>decode\<close> reads the fields \<open>model\<close> and \<open>stream\<close> of a JSON body as far as it can.\<close>

definition parseBody :: "(string \<Rightarrow> string \<times> bool) \<Rightarrow> string \<Rightarrow> string \<times> bool" where
  "parseBody decode body = (if body = '''' then ('''', False) else decode body)"

definition prefixProvider :: "(string \<times> string) list" where
  "prefixProvider = [(''/anthropic'', Anthropic), (''/openai'', OpenAI), (''/genai'', Gemini)]"

definition prefixStrip :: "string \<Rightarrow> string list" where
  "prefixStrip mount =
     (if mount = ''/anthropic'' then [''/anthropic'']
      else if mount = ''/openai'' then [''/openai'']
      else if mount = ''/genai'' then [''/genai/v1beta1'', ''/genai/v1beta'', ''/genai/v1'', ''/genai'']
      else [])"

definition stripPath :: "string \<Rightarrow> string \<Rightarrow> string" where
  "stripPath fullPath mount =
     (case find (HasPrefix fullPath) (prefixStrip mount) of
        Some p \<Rightarrow> TrimPrefix fullPath p
      | None \<Rightarrow> TrimPrefix fullPath mount)"

definition modelFromPath :: "string \<Rightarrow> string \<Rightarrow> string" where
  "modelFromPath provider path =
     (if provider \<noteq> Gemini then ''''
      else case Index path ''/models/'' of
             None \<Rightarrow> ''''
           | Some i \<Rightarrow> takeWhile (\<lambda>c. c \<noteq> CHR '':'' \<and> c \<noteq> CHR ''/'') (drop (i + 8) path))"

definition strippedHeaders :: "string list" where
  "strippedHeaders =
     [''authorization'', ''api-key'', ''x-api-key'', ''x-goog-api-key'', ''host'', ''connection'', ''transfer-encoding'',
      ''cookie'', ''set-cookie'', ''proxy-authorization'', ''accept-encoding'', ''content-length'']"

definition safeHeaders :: "(string \<times> string list) list \<Rightarrow> (string \<times> string) list" where
  "safeHeaders h =
     List.map_filter (\<lambda>(k, vs).
       let lk = ToLower k
       in if lk \<in> set strippedHeaders then None
          else if HasPrefix lk ''x-bf-'' then None
          else case vs of v # vs' \<Rightarrow> Some (lk, v) | [] \<Rightarrow> None) h"

definition newContext :: "Identity \<Rightarrow> string \<Rightarrow> string \<Rightarrow> string \<Rightarrow> string \<Rightarrow> bool \<Rightarrow> RequestContext" where
  "newContext ident provider model path body streaming =
     \<lparr>rc_written = [], rc_headers = [], rc_bctxKey = None, rc_bctxPath = None, rc_Identity = ident,
      rc_Provider = provider, rc_Model = model, rc_Path = path, rc_Body = body, rc_Streaming = streaming,
      rc_DirectKey = None, rc_DirectKeyURLPath = '''', rc_MappedModel = '''',
      rc_Decision = passthrough \<lparr>in_Provider = '''', in_Model = '''', in_TenantID = '''', in_UserID = ''''\<rparr>,
      rc_RejectReason = '''', rc_DLP = None\<rparr>"

definition recordReject :: "Identity \<Rightarrow> string \<Rightarrow> string \<Rightarrow> string \<Rightarrow> int \<Rightarrow> string \<Rightarrow> rejectRow" where
  "recordReject ident provider model path status reason =
     \<lparr>rj_Provider = provider, rj_Model = model, rj_Path = path, rj_Status = status, rj_Reason = reason,
      rj_Identity = ident, rj_DLP = None\<rparr>"

definition recordRejectPipeline :: "RequestContext \<Rightarrow> int \<Rightarrow> rejectRow" where
  "recordRejectPipeline rc status =
     \<lparr>rj_Provider = rc_Provider rc, rj_Model = rc_Model rc, rj_Path = rc_Path rc, rj_Status = status,
      rj_Reason = rc_RejectReason rc, rj_Identity = rc_Identity rc, rj_DLP = rc_DLP rc\<rparr>"

text \<open>An error written and recorded before the pipeline runs; a stop of the pipeline recorded with the status it wrote.\<close>

definition refuse :: "string \<Rightarrow> int \<Rightarrow> string \<Rightarrow> rejectRow \<Rightarrow> Outcome" where
  "refuse provider status code row =
     \<lparr>oc_errors = [(status, envelope provider status code)], oc_rejects = [row], oc_forward = None\<rparr>"

definition stopped :: "RequestContext \<Rightarrow> Outcome" where
  "stopped rc = \<lparr>oc_errors = rc_written rc, oc_rejects = [recordRejectPipeline rc (fst (last (rc_written rc)))], oc_forward = None\<rparr>"

definition forward :: "Lane \<Rightarrow> RequestContext \<Rightarrow> Outcome" where
  "forward lane rc = \<lparr>oc_errors = rc_written rc, oc_rejects = [], oc_forward = Some (lane, rc)\<rparr>"

record edgeConfig =
  ed_maxBody :: nat
  ed_decode :: "string \<Rightarrow> string \<times> bool"
  ed_tiersEnabled :: bool
  ed_schemas :: "string \<Rightarrow> string"

section \<open>The native handler\<close>

definition passthroughFor :: "string \<Rightarrow> httpRequest \<Rightarrow> RequestContext \<Rightarrow> passthroughRequest" where
  "passthroughFor provider rq rc =
     \<lparr>pr_Provider = provider, pr_Model = rc_Model rc, pr_Method = hr_Method rq, pr_Path = rc_Path rc,
      pr_RawQuery = hr_RawQuery rq, pr_Body = rc_Body rc, pr_SafeHeaders = safeHeaders (hr_Header rq)\<rparr>"

definition handle :: "'s gateway \<Rightarrow> edgeConfig \<Rightarrow> instant \<Rightarrow> instant \<Rightarrow> httpRequest \<Rightarrow> Identity \<Rightarrow> 's \<Rightarrow> Outcome \<times> 's" where
  "handle gw ed now wall rq ident st =
     (let pfx = ''/'' @ fst (Cut (TrimPrefix (hr_Path rq) ''/'') ''/'')
      in case map_of prefixProvider pfx of
           None \<Rightarrow> (refuse '''' 404 ''unknown_provider'' (recordReject ident '''' '''' (hr_Path rq) 404 ''unknown_provider''), st)
         | Some provider \<Rightarrow>
             (case readBody (ed_maxBody ed) rq of
                TooLarge \<Rightarrow> (refuse provider 413 ''request_too_large'' (recordReject ident provider '''' (hr_Path rq) 413 ''too_large''), st)
              | Unreadable \<Rightarrow> (refuse provider 400 ''invalid_request'' (recordReject ident provider '''' (hr_Path rq) 400 ''bad_request''), st)
              | BodyOK body \<Rightarrow>
                  (let path = stripPath (hr_Path rq) pfx;
                       (bodyModel, bodyStream) = parseBody (ed_decode ed) body;
                       model = (if bodyModel = '''' then modelFromPath provider path else bodyModel);
                       streaming = (bodyStream \<or> Contains (ToLower path) ''stream'')
                   in case handleRequest gw now wall (newContext ident provider model path body streaming) st of
                        (PipelineError rc, st') \<Rightarrow>
                          (\<lparr>oc_errors = rc_written rc, oc_rejects = [recordReject ident provider (rc_Model rc) path 500 ''gateway_error''],
                            oc_forward = None\<rparr>, st')
                      | (Rejected rc, st') \<Rightarrow> (stopped rc, st')
                      | (DoSubstitute rc, st') \<Rightarrow> (forward Substitute rc, st')
                      | (DoStream rc, st') \<Rightarrow> (forward (Stream (passthroughFor provider rq rc)) rc, st')
                      | (DoUnary rc, st') \<Rightarrow> (forward (Unary (passthroughFor provider rq rc)) rc, st'))))"

section \<open>The provider-agnostic handlers\<close>

text \<open>\<open>sc\<close> gives the name of a provider the library declares.\<close>

definition genericProviderAliases :: "(string \<Rightarrow> string) \<Rightarrow> (string \<times> string) list" where
  "genericProviderAliases sc =
     [(''anthropic'', Anthropic), (''openai'', OpenAI), (''gemini'', Gemini), (''google'', Gemini), (''googleai'', Gemini),
      (''huggingface'', sc ''HuggingFace''), (''hf'', sc ''HuggingFace''), (''bedrock'', sc ''Bedrock''), (''groq'', sc ''Groq''),
      (''mistral'', sc ''Mistral''), (''cohere'', sc ''Cohere''), (''deepseek'', sc ''DeepSeek''), (''xai'', sc ''XAI''),
      (''perplexity'', sc ''Perplexity''), (''openrouter'', sc ''OpenRouter''), (''fireworks'', sc ''Fireworks''),
      (''cerebras'', sc ''Cerebras''), (''nebius'', sc ''Nebius''), (''parasail'', sc ''Parasail''), (''ollama'', sc ''Ollama''),
      (''vllm'', sc ''VLLM''), (''sgl'', sc ''SGL''), (''azure'', sc ''Azure''), (''vertex'', sc ''Vertex''), (''vertexai'', sc ''Vertex''),
      (''vertexai_endpoint'', sc ''Vertex'')]"

definition hasAnyPrefix :: "string \<Rightarrow> string list \<Rightarrow> bool" where
  "hasAnyPrefix s ps = list_ex (HasPrefix (ToLower s)) ps"

definition wellKnownProvider :: "string \<Rightarrow> (string \<times> string) option" where
  "wellKnownProvider name =
     (if hasAnyPrefix name [''claude''] then Some (Anthropic, name)
      else if hasAnyPrefix name [''gpt'', ''chatgpt'', ''o1'', ''o3'', ''o4''] then Some (OpenAI, name)
      else if hasAnyPrefix name [''gemini''] then Some (Gemini, name)
      else None)"

definition resolveModelProvider :: "(string \<Rightarrow> string) \<Rightarrow> string \<Rightarrow> (string \<times> string) option" where
  "resolveModelProvider sc model =
     (let name = TrimSpace model
      in if name = '''' then None
         else case Cut name ''/'' of
           (pfx, rest, found) \<Rightarrow>
             (if found \<and> rest \<noteq> '''' then
                (case map_of (genericProviderAliases sc) (ToLower pfx) of
                   Some p \<Rightarrow> Some (p, rest)
                 | None \<Rightarrow> wellKnownProvider name)
              else wellKnownProvider name))"

definition tierLane :: "bool \<Rightarrow> (Input \<Rightarrow> Decision) \<Rightarrow> Identity \<Rightarrow> string \<Rightarrow> string option" where
  "tierLane tiersEnabled router ident model =
     (if \<not> tiersEnabled then None
      else let d = router \<lparr>in_Provider = '''', in_Model = model, in_TenantID = id_TenantID ident, in_UserID = id_UserID ident\<rparr>
           in if Denied d \<or> ResolvedProvider d = '''' \<or> ResolvedModel d = RequestedModel d then None
              else Some (ResolvedProvider d))"

definition chatCompletionsPath :: string where "chatCompletionsPath = ''/v1/chat/completions''"

text \<open>The target a \<open>/v1\<close> request starts with: provider, model, the mapping's key, path and served model.\<close>

record genericTarget =
  gt_provider :: string
  gt_model :: string
  gt_key :: "string option"
  gt_keyPath :: string
  gt_mapped :: string

definition chatTarget :: "'s gateway \<Rightarrow> edgeConfig \<Rightarrow> Identity \<Rightarrow> string \<Rightarrow> genericTarget option" where
  "chatTarget gw ed ident requestedModel =
     (case resolveModelMapping (gw_creds gw) (id_TenantID ident) requestedModel of
        Some (mp, k, served, path) \<Rightarrow>
          Some \<lparr>gt_provider = mp, gt_model = requestedModel, gt_key = Some k, gt_keyPath = path, gt_mapped = served\<rparr>
      | None \<Rightarrow>
          (case resolveModelProvider (ed_schemas ed) requestedModel of
             Some (p, m) \<Rightarrow> Some \<lparr>gt_provider = p, gt_model = m, gt_key = None, gt_keyPath = '''', gt_mapped = ''''\<rparr>
           | None \<Rightarrow>
               map_option (\<lambda>lane. \<lparr>gt_provider = lane, gt_model = requestedModel, gt_key = None, gt_keyPath = '''', gt_mapped = ''''\<rparr>)
                 (tierLane (ed_tiersEnabled ed) (gw_router gw) ident requestedModel)))"

definition genericContext :: "Identity \<Rightarrow> genericTarget \<Rightarrow> string \<Rightarrow> string \<Rightarrow> bool \<Rightarrow> RequestContext" where
  "genericContext ident t path body streaming =
     (newContext ident (gt_provider t) (gt_model t) path body streaming)
       \<lparr>rc_DirectKey := gt_key t, rc_DirectKeyURLPath := gt_keyPath t, rc_MappedModel := gt_mapped t\<rparr>"

text \<open>After the pipeline: the substituted target, the deprecation header, then the served name of a mapping.\<close>

definition applySubstitution :: "RequestContext \<Rightarrow> RequestContext" where
  "applySubstitution rc =
     (let d = rc_Decision rc
      in if dec_Reason d = ReasonSubstitute
         then rc\<lparr>rc_headers := rc_headers rc @ [(''x-nb-llm-substituted'', RequestedProvider d @ ''->'' @ ResolvedProvider d)],
                 rc_Provider := ResolvedProvider d, rc_Model := ResolvedModel d\<rparr>
         else rc)"

definition signalDeprecated :: "RequestContext \<Rightarrow> RequestContext" where
  "signalDeprecated rc =
     (let d = rc_Decision rc
      in if dec_Reason d = ReasonDeprecated
         then rc\<lparr>rc_headers := rc_headers rc @ [(''x-nb-llm-deprecated'', RequestedModel d @ ''->'' @ ResolvedModel d)]\<rparr>
         else rc)"

definition applyMapped :: "RequestContext \<Rightarrow> RequestContext" where
  "applyMapped rc = (if rc_MappedModel rc \<noteq> '''' then rc\<lparr>rc_Model := rc_MappedModel rc\<rparr> else rc)"

definition handleChat :: "'s gateway \<Rightarrow> edgeConfig \<Rightarrow> instant \<Rightarrow> instant \<Rightarrow> httpRequest \<Rightarrow> Identity \<Rightarrow> 's \<Rightarrow> Outcome \<times> 's" where
  "handleChat gw ed now wall rq ident st =
     (case readBody (ed_maxBody ed) rq of
        TooLarge \<Rightarrow> (refuse OpenAI 413 ''request_too_large'' (recordReject ident OpenAI '''' chatCompletionsPath 413 ''too_large''), st)
      | Unreadable \<Rightarrow> (refuse OpenAI 400 ''invalid_request'' (recordReject ident OpenAI '''' chatCompletionsPath 400 ''bad_request''), st)
      | BodyOK body \<Rightarrow>
          (let (requestedModel, streaming) = parseBody (ed_decode ed) body
           in case chatTarget gw ed ident requestedModel of
                None \<Rightarrow> (refuse OpenAI 400 ''invalid_request''
                           (recordReject ident OpenAI requestedModel chatCompletionsPath 400 ''unknown_model''), st)
              | Some t \<Rightarrow>
                  (case Run (pipeline gw now wall) (genericContext ident t chatCompletionsPath body streaming, st) of
                     ((rc, st'), stop, err) \<Rightarrow>
                       (if err \<noteq> None then
                          (refuse OpenAI 500 ''gateway_error''
                             (recordReject ident (gt_provider t) (gt_model t) chatCompletionsPath 500 ''gateway_error''), st')
                        else if stop then (stopped rc, st')
                        else (forward (if streaming then ChatStream else Chat)
                                (applyMapped (signalDeprecated (applySubstitution rc))), st')))))"

definition handleEmbeddings :: "'s gateway \<Rightarrow> edgeConfig \<Rightarrow> instant \<Rightarrow> instant \<Rightarrow> httpRequest \<Rightarrow> Identity \<Rightarrow> 's \<Rightarrow> Outcome \<times> 's" where
  "handleEmbeddings gw ed now wall rq ident st =
     (case readBody (ed_maxBody ed) rq of
        TooLarge \<Rightarrow> (refuse OpenAI 413 ''request_too_large'' (recordReject ident OpenAI '''' embeddingsPath 413 ''too_large''), st)
      | Unreadable \<Rightarrow> (refuse OpenAI 400 ''invalid_request'' (recordReject ident OpenAI '''' embeddingsPath 400 ''bad_request''), st)
      | BodyOK body \<Rightarrow>
          (let requestedModel = fst (parseBody (ed_decode ed) body);
               run = (\<lambda>t. case Run (pipeline gw now wall) (genericContext ident t embeddingsPath body False, st) of
                 ((rc, st'), stop, err) \<Rightarrow>
                   (if err \<noteq> None then
                      (refuse OpenAI 500 ''gateway_error''
                         (recordReject ident (gt_provider t) (gt_model t) embeddingsPath 500 ''gateway_error''), st')
                    else if stop then (stopped rc, st')
                    else (forward Embedding (applyMapped (applySubstitution rc)), st')))
           in case resolveModelMapping (gw_creds gw) (id_TenantID ident) requestedModel of
                Some (mp, k, served, path) \<Rightarrow>
                  (if path \<noteq> '''' then
                     (refuse OpenAI 400 ''invalid_request''
                        (recordReject ident mp requestedModel embeddingsPath 400 ''unsupported_embeddings''), st)
                   else run \<lparr>gt_provider = mp, gt_model = requestedModel, gt_key = Some k, gt_keyPath = '''', gt_mapped = served\<rparr>)
              | None \<Rightarrow>
                  (case resolveModelProvider (ed_schemas ed) requestedModel of
                     Some (p, m) \<Rightarrow> run \<lparr>gt_provider = p, gt_model = m, gt_key = None, gt_keyPath = '''', gt_mapped = ''''\<rparr>
                   | None \<Rightarrow> (refuse OpenAI 400 ''invalid_request''
                               (recordReject ident OpenAI requestedModel embeddingsPath 400 ''unknown_model''), st))))"

text \<open>The routes of the edge (\<open>RegisterRoutes\<close>); \<open>None\<close> where no modelled handler is mounted.\<close>

definition ServeHTTP :: "Validator \<Rightarrow> 's gateway \<Rightarrow> edgeConfig \<Rightarrow> instant \<Rightarrow> instant \<Rightarrow> httpRequest \<Rightarrow> 's \<Rightarrow> (Outcome \<times> 's) option" where
  "ServeHTTP v gw ed now wall rq st =
     (if list_ex (\<lambda>(pfx, p). HasPrefix (hr_Path rq) (pfx @ ''/'')) prefixProvider
      then Some (Middleware v (handle gw ed now wall) rq st)
      else if hr_Method rq = ''POST'' \<and> hr_Path rq = chatCompletionsPath then Some (Middleware v (handleChat gw ed now wall) rq st)
      else if hr_Method rq = ''POST'' \<and> hr_Path rq = embeddingsPath then Some (Middleware v (handleEmbeddings gw ed now wall) rq st)
      else None)"

section \<open>The contract of a handler\<close>

text \<open>
  What the middleware relies on: a handler either hands the request over for the given caller, with
  nothing written and a route that is not denied, or answers it with one error and records one
  rejection row with the same status.
\<close>

definition refused :: "Identity \<Rightarrow> Outcome \<Rightarrow> bool" where
  "refused ident oc \<longleftrightarrow> oc_forward oc = None \<and>
     (\<exists>status body row. oc_errors oc = [(status, body)] \<and> 400 \<le> status \<and> oc_rejects oc = [row] \<and>
        rj_Status row = status \<and> rj_Identity row = ident \<and> rj_Reason row \<noteq> '''')"

definition handedOver :: "Identity \<Rightarrow> Outcome \<Rightarrow> bool" where
  "handedOver ident oc \<longleftrightarrow> oc_errors oc = [] \<and> oc_rejects oc = [] \<and>
     (\<exists>lane rc. oc_forward oc = Some (lane, rc) \<and> rc_Identity rc = ident \<and> \<not> Denied (rc_Decision rc))"

lemma refused_refuse [intro]:
  "400 \<le> status \<Longrightarrow> rj_Status row = status \<Longrightarrow> rj_Identity row = ident \<Longrightarrow> rj_Reason row \<noteq> '''' \<Longrightarrow>
     refused ident (refuse p status code row)"
  by (simp add: refused_def refuse_def)

lemma recordReject_simps [simp]:
  "rj_Status (recordReject ident p m path status reason) = status" "rj_Identity (recordReject ident p m path status reason) = ident"
  "rj_Reason (recordReject ident p m path status reason) = reason"
  by (simp_all add: recordReject_def)

lemma refused_stopped:
  assumes "answered rc0 rc" "rc_written rc0 = []" "rc_Identity rc = ident"
  shows "refused ident (stopped rc)"
  using assms by (auto simp: refused_def stopped_def answered_def recordRejectPipeline_def)

locale edge_handler =
  fixes h :: "httpRequest \<Rightarrow> Identity \<Rightarrow> 's \<Rightarrow> Outcome \<times> 's"
  assumes total: "h rq ident st = (oc, st') \<Longrightarrow> refused ident oc \<or> handedOver ident oc"
begin

text \<open>Behind the middleware, a request is handed over for the caller its token names, or refused.\<close>

lemma behind_middleware:
  assumes "Middleware v h rq st = (oc, st')"
  shows "oc = abort401 rq \<and> st' = st \<and> (Validate_token v (extractToken rq) = None \<or> extractToken rq = '''' \<and> RequiresToken v) \<or>
    (\<exists>ident. Validate_token v (extractToken rq) = Some ident \<and> (RequiresToken v \<longrightarrow> extractToken rq \<noteq> '''') \<and>
       (refused ident oc \<or> handedOver ident oc))"
  using assms total by (auto simp: Middleware_def Let_def split: if_splits option.splits)

end

text \<open>What the pipeline gives a handler that starts it on a fresh context.\<close>

lemma pipeline_outcome:
  assumes "Run (pipeline gw now wall) (rc0, st0) = ((rc, st), stop, err)" "rc_written rc0 = []"
  shows "err = None \<and> (if stop then refused (rc_Identity rc0) (stopped rc)
    else rc_written rc = [] \<and> rc_Identity rc = rc_Identity rc0 \<and> rc_Decision rc = gw_router gw (inputOf rc0) \<and>
         \<not> Denied (gw_router gw (inputOf rc0)))"
proof -
  have e: "err = None" by (rule control.no_error [OF assms(1)])
  note keeps = control.keeps_identity [OF assms(1)]
  show ?thesis
  proof (cases stop)
    case True
    then have "answered rc0 rc" using control.stopped [of gw now wall rc0 st0 rc st err] assms(1) by simp
    then show ?thesis using e True keeps assms(2) refused_stopped by auto
  next
    case False
    then have run: "Run (pipeline gw now wall) (rc0, st0) = ((rc, st), False, None)" using assms(1) e by simp
    have w: "rc_written rc = []" using control.passed [OF run] assms(2) by simp
    from pipeline_passed [OF run] obtain rc1 st1 rc2 st2 rc3 st3 where y:
      "routeStage (gw_router gw) (gw_setModel gw) (rc0, st0) = ((rc1, st1), False, None)"
      "ratelimitStage (gw_limiter gw) now wall (rc1, st1) = ((rc2, st2), False, None)"
      "resolverStage (gw_creds gw) (rc2, st2) = ((rc3, st3), False, None)"
      "filterStage (gw_egress gw) (rc3, st3) = ((rc, st), False, None)" by blast
    have nd: "\<not> Denied (gw_router gw (inputOf rc0))"
      using y(1) routeStage_denied [of "gw_router gw" rc0 "gw_setModel gw" st0] by auto
    then have "rc_Decision rc1 = gw_router gw (inputOf rc0)" using routeStage_allowed [of gw rc0 st0, OF nd] y(1) by auto
    then have "rc_Decision rc = gw_router gw (inputOf rc0)"
      using ratelimitStage_passed [OF y(2)] resolverStage_passed [OF y(3)] filterStage_passed [OF y(4)] by simp
    then show ?thesis using e False w keeps nd by simp
  qed
qed

lemma newContext_simps [simp]:
  "rc_written (newContext ident p m path body s) = []" "rc_Identity (newContext ident p m path body s) = ident"
  "rc_written (genericContext ident t path body s) = []" "rc_Identity (genericContext ident t path body s) = ident"
  by (simp_all add: newContext_def genericContext_def)

lemma handedOver_forward:
  "rc_written rc = [] \<Longrightarrow> rc_Identity rc = ident \<Longrightarrow> \<not> Denied (rc_Decision rc) \<Longrightarrow> handedOver ident (forward lane rc)"
  by (simp add: handedOver_def forward_def)

lemma finish_simps [simp]:
  "rc_written (applyMapped rc) = rc_written rc" "rc_Identity (applyMapped rc) = rc_Identity rc" "rc_Decision (applyMapped rc) = rc_Decision rc"
  "rc_written (signalDeprecated rc) = rc_written rc" "rc_Identity (signalDeprecated rc) = rc_Identity rc"
  "rc_Decision (signalDeprecated rc) = rc_Decision rc"
  "rc_written (applySubstitution rc) = rc_written rc" "rc_Identity (applySubstitution rc) = rc_Identity rc"
  "rc_Decision (applySubstitution rc) = rc_Decision rc"
  by (simp_all add: applyMapped_def signalDeprecated_def applySubstitution_def Let_def)

lemma generic_total:
  assumes "Run (pipeline gw now wall) (genericContext ident t path body s, st) = ((rc, st'), stop, err)"
  shows "err = None \<and> (if stop then refused ident (stopped rc)
    else handedOver ident (forward lane (applyMapped (signalDeprecated (applySubstitution rc)))) \<and>
         handedOver ident (forward lane (applyMapped (applySubstitution rc))))"
  using pipeline_outcome [OF assms] by (auto intro!: handedOver_forward)

interpretation chat: edge_handler "handleChat gw ed now wall" for gw ed now wall
proof
  fix rq ident st oc st' assume h: "handleChat gw ed now wall rq ident st = (oc, st')"
  show "refused ident oc \<or> handedOver ident oc"
    using h generic_total [of gw now wall ident]
    by (fastforce simp: handleChat_def Let_def split: bodyRead.splits option.splits prod.splits if_splits)
qed

interpretation embeddings: edge_handler "handleEmbeddings gw ed now wall" for gw ed now wall
proof
  fix rq ident st oc st' assume h: "handleEmbeddings gw ed now wall rq ident st = (oc, st')"
  show "refused ident oc \<or> handedOver ident oc"
    using h generic_total [of gw now wall ident]
    by (fastforce simp: handleEmbeddings_def Let_def split: bodyRead.splits option.splits prod.splits if_splits)
qed

lemma handleRequest_outcome:
  assumes "handleRequest gw now wall rc0 st = (d, st')" "rc_written rc0 = []" "rc_Identity rc0 = ident"
  shows "case d of PipelineError rc \<Rightarrow> False | Rejected rc \<Rightarrow> refused ident (stopped rc)
    | DoSubstitute rc \<Rightarrow> handedOver ident (forward lane rc)
    | DoStream rc \<Rightarrow> handedOver ident (forward lane rc)
    | DoUnary rc \<Rightarrow> handedOver ident (forward lane rc)"
proof -
  obtain rc1 st1 stop err where r: "Run (pipeline gw now wall) (rc0, st) = ((rc1, st1), stop, err)"
    by (metis prod.collapse)
  from pipeline_outcome [OF r assms(2)] show ?thesis
    using assms(1,3) r by (auto simp: handleRequest_def Let_def intro!: handedOver_forward split: if_splits)
qed

interpretation native: edge_handler "handle gw ed now wall" for gw ed now wall
proof
  fix rq ident st oc st' assume h: "handle gw ed now wall rq ident st = (oc, st')"
  have o: "handleRequest gw now wall (newContext ident p m path body s) st = (d, st'') \<Longrightarrow>
      case d of PipelineError rc \<Rightarrow> False | Rejected rc \<Rightarrow> refused ident (stopped rc)
      | DoSubstitute rc \<Rightarrow> handedOver ident (forward lane rc) | DoStream rc \<Rightarrow> handedOver ident (forward lane rc)
      | DoUnary rc \<Rightarrow> handedOver ident (forward lane rc)" for p m path body s d st'' lane
    by (rule handleRequest_outcome, assumption) (rule newContext_simps)+
  from h show "refused ident oc \<or> handedOver ident oc"
    by (auto simp: handle_def Let_def split: bodyRead.splits option.splits prod.splits Dispatch.splits dest!: o)
qed

section \<open>Properties\<close>

text \<open>A header of the client that is not forwarded: it carries a credential or belongs to one hop.\<close>

lemma safeHeaders_safe:
  "\<forall>(k, v)\<in>set (safeHeaders h).
    k \<notin> {''authorization'', ''api-key'', ''x-api-key'', ''x-goog-api-key'', ''host'', ''connection'', ''transfer-encoding'',
      ''cookie'', ''set-cookie'', ''proxy-authorization'', ''accept-encoding'', ''content-length''} \<and>
    \<not> HasPrefix k ''x-bf-''"
proof -
  have "set strippedHeaders = {''authorization'', ''api-key'', ''x-api-key'', ''x-goog-api-key'', ''host'', ''connection'', ''transfer-encoding'',
      ''cookie'', ''set-cookie'', ''proxy-authorization'', ''accept-encoding'', ''content-length''}"
    by (simp only: strippedHeaders_def list.set)
  moreover have "\<forall>(k, v)\<in>set (safeHeaders h). k \<notin> set strippedHeaders \<and> \<not> HasPrefix k ''x-bf-''"
    by (auto simp: safeHeaders_def List.map_filter_def Let_def split: list.splits if_splits)
  ultimately show ?thesis by (simp only:)
qed

lemma handle_passthrough:
  assumes "handle gw ed now wall rq ident st = (oc, st')" "oc_forward oc = Some (lane, rc)"
    and "lane = Stream pr \<or> lane = Unary pr"
  shows "pr_SafeHeaders pr = safeHeaders (hr_Header rq) \<and> pr_Body pr = rc_Body rc \<and> pr_RawQuery pr = hr_RawQuery rq"
  using assms
  by (auto simp: handle_def Let_def refuse_def stopped_def forward_def passthroughFor_def
      split: bodyRead.splits option.splits prod.splits Dispatch.splits)

lemma generic_lane:
  assumes "handleChat gw ed now wall rq ident st = (oc, st') \<or> handleEmbeddings gw ed now wall rq ident st = (oc, st')"
    and "oc_forward oc = Some (lane, rc)"
  shows "lane \<in> {ChatStream, Chat, Embedding}"
  using assms
  by (auto simp: handleChat_def handleEmbeddings_def Let_def refuse_def stopped_def forward_def
      split: bodyRead.splits option.splits prod.splits if_splits)


text \<open>C5: The edge authenticates every request and answers each one it does not forward. Whatever the
handler, a request that reaches a provider client carries the identity the validator gave for the
token it presented (a non-empty token where the mode requires one), nothing was written to the
client before, its route is not denied, and a native passthrough forwards none of the client's
authorization, API key, cookie and proxy-authorization headers, none of the connection headers and
nothing of the provider client's own \<open>x-bf-\<close> namespace. Any other request gets exactly one
error response with a status of at least 400: a 401 that changes nothing, or a rejection recorded
once, with the same status, the caller and a reason.\<close>

theorem edge_authenticates_and_answers:
  assumes "ServeHTTP v gw ed now wall rq st = Some (oc, st')"
  shows "case oc_forward oc of
      Some (lane, rc) \<Rightarrow>
        Validate_token v (extractToken rq) = Some (rc_Identity rc) \<and> (RequiresToken v \<longrightarrow> extractToken rq \<noteq> '''') \<and>
        oc_errors oc = [] \<and> oc_rejects oc = [] \<and> \<not> Denied (rc_Decision rc) \<and>
        (\<forall>pr. lane = Stream pr \<or> lane = Unary pr \<longrightarrow>
           pr_Body pr = rc_Body rc \<and>
           (\<forall>(k, v)\<in>set (pr_SafeHeaders pr).
              k \<notin> {''authorization'', ''api-key'', ''x-api-key'', ''x-goog-api-key'', ''host'', ''connection'', ''transfer-encoding'',
                ''cookie'', ''set-cookie'', ''proxy-authorization'', ''accept-encoding'', ''content-length''} \<and>
              \<not> HasPrefix k ''x-bf-''))
    | None \<Rightarrow>
        (\<exists>status body. oc_errors oc = [(status, body)] \<and> 400 \<le> status \<and>
          (case oc_rejects oc of
             [] \<Rightarrow> status = 401 \<and> st' = st
           | row # rs \<Rightarrow> rs = [] \<and> rj_Status row = status \<and> rj_Reason row \<noteq> '''' \<and>
               Validate_token v (extractToken rq) = Some (rj_Identity row)))"
proof -
  obtain h where h: "Middleware v h rq st = (oc, st')"
    and H: "h = handle gw ed now wall \<or> h = handleChat gw ed now wall \<or> h = handleEmbeddings gw ed now wall"
    using assms by (auto simp: ServeHTTP_def split: if_splits)
  have eh: "edge_handler h"
    using H native.edge_handler_axioms chat.edge_handler_axioms embeddings.edge_handler_axioms by blast
  have lanes: "pr_Body pr = rc_Body rc \<and>
      (\<forall>(k, v)\<in>set (pr_SafeHeaders pr).
         k \<notin> {''authorization'', ''api-key'', ''x-api-key'', ''x-goog-api-key'', ''host'', ''connection'', ''transfer-encoding'',
           ''cookie'', ''set-cookie'', ''proxy-authorization'', ''accept-encoding'', ''content-length''} \<and>
         \<not> HasPrefix k ''x-bf-'')"
    if f: "oc_forward oc = Some (lane, rc)" "h rq ident st = (oc, st')" "lane = Stream pr \<or> lane = Unary pr" for lane rc pr ident
  proof -
    have "lane \<notin> {ChatStream, Chat, Embedding}" using f(3) by auto
    then have "handle gw ed now wall rq ident st = (oc, st')" using H f generic_lane [OF _ f(1)] by metis
    from handle_passthrough [OF this f(1) f(3)] show ?thesis
      using safeHeaders_safe [of "hr_Header rq"] by (simp only: HOL.simp_thms)
  qed
  consider "oc = abort401 rq" "st' = st"
    | ident where "Validate_token v (extractToken rq) = Some ident" "h rq ident st = (oc, st')"
        "RequiresToken v \<longrightarrow> extractToken rq \<noteq> ''''"
    using h by (auto simp: Middleware_def Let_def split: if_splits option.splits)
  then show ?thesis
  proof cases
    case 1
    then show ?thesis by (simp add: abort401_def)
  next
    case 2
    from edge_handler.total [OF eh 2(2)] show ?thesis
    proof
      assume "refused ident oc"
      then show ?thesis using 2 by (auto simp: refused_def)
    next
      assume "handedOver ident oc"
      then show ?thesis using 2 lanes by (auto simp: handedOver_def)
    qed
  qed
qed

text \<open>What the resolver leaves of the mapping and the key it found.\<close>

lemma resolverStage_mapping:
  assumes "resolverStage hk (rc, st) = ((rc', st'), False, err)"
  shows "if dec_Reason (rc_Decision rc) = ReasonSubstitute
    then (case resolveModelMapping hk (id_TenantID (rc_Identity rc)) (ResolvedModel (rc_Decision rc)) of
            Some (p, k, served, path) \<Rightarrow> rc_MappedModel rc' = served \<and> rc_bctxKey rc' = Some k
          | None \<Rightarrow> rc_MappedModel rc' = '''')
    else rc_MappedModel rc' = rc_MappedModel rc \<and> (\<forall>k. rc_DirectKey rc = Some k \<longrightarrow> rc_bctxKey rc' = Some k)"
  using assms by (auto simp: resolverStage_def resolveProviderCreds_def Let_def split: if_splits option.splits prod.splits)

lemma stages_keep:
  "routeStage router f (rc, st) = ((rc', st'), False, err) \<Longrightarrow>
     rc_MappedModel rc' = rc_MappedModel rc \<and> rc_DirectKey rc' = rc_DirectKey rc \<and> rc_Provider rc' = rc_Provider rc \<and>
     rc_Model rc' = (let d = router (inputOf rc) in
       if dec_Reason d \<noteq> ReasonSubstitute \<and> ResolvedModel d \<noteq> RequestedModel d then ResolvedModel d else rc_Model rc)"
  "filterStage ec (rc, st) = ((rc', st'), False, err) \<Longrightarrow>
     rc_MappedModel rc' = rc_MappedModel rc \<and> rc_bctxKey rc' = rc_bctxKey rc"
  by (auto simp: routeStage_def filterStage_def inputOf_def Let_def split: if_splits prod.splits)

lemma pipeline_target:
  assumes "Run (pipeline gw now wall) (rc0, st0) = ((rc, st), False, None)"
  defines "d \<equiv> gw_router gw (inputOf rc0)"
  shows "rc_Decision rc = d \<and> rc_Provider rc = rc_Provider rc0 \<and>
    rc_Model rc = (if dec_Reason d \<noteq> ReasonSubstitute \<and> ResolvedModel d \<noteq> RequestedModel d then ResolvedModel d else rc_Model rc0) \<and>
    (if dec_Reason d = ReasonSubstitute
     then (case resolveModelMapping (gw_creds gw) (id_TenantID (rc_Identity rc0)) (ResolvedModel d) of
             Some (p, k, served, path) \<Rightarrow> rc_MappedModel rc = served \<and> rc_bctxKey rc = Some k
           | None \<Rightarrow> rc_MappedModel rc = '''')
     else rc_MappedModel rc = rc_MappedModel rc0 \<and> (\<forall>k. rc_DirectKey rc0 = Some k \<longrightarrow> rc_bctxKey rc = Some k))"
proof -
  from pipeline_passed [OF assms(1)] obtain rc1 st1 rc2 st2 rc3 st3 where y:
    "routeStage (gw_router gw) (gw_setModel gw) (rc0, st0) = ((rc1, st1), False, None)"
    "ratelimitStage (gw_limiter gw) now wall (rc1, st1) = ((rc2, st2), False, None)"
    "resolverStage (gw_creds gw) (rc2, st2) = ((rc3, st3), False, None)"
    "filterStage (gw_egress gw) (rc3, st3) = ((rc, st), False, None)" by blast
  have nd: "\<not> Denied (gw_router gw (inputOf rc0))"
    using y(1) routeStage_denied [of "gw_router gw" rc0 "gw_setModel gw" st0] by auto
  have 1: "rc_Decision rc1 = d" "rc_Identity rc1 = rc_Identity rc0"
    using routeStage_allowed [of gw rc0 st0, OF nd] y(1) by (auto simp: d_def)
  have 2: "rc2 = rc1" using ratelimitStage_passed [OF y(2)] by simp
  note keep = stages_keep(1) [OF y(1)] resolverStage_passed [OF y(3)] filterStage_passed [OF y(4)] stages_keep(2) [OF y(4)]
  have p: "rc_Provider rc = rc_Provider rc0" using control.keeps_identity [OF assms(1)] by simp
  have m: "rc_Model rc = (if dec_Reason d \<noteq> ReasonSubstitute \<and> ResolvedModel d \<noteq> RequestedModel d then ResolvedModel d else rc_Model rc0)"
    using keep 2 by (simp add: d_def Let_def)
  from resolverStage_mapping [OF y(3)] show ?thesis using keep 1 2 p m by (auto split: option.splits if_splits)
qed

text \<open>Where a \<open>/v1/chat/completions\<close> request goes. The target starts from the tenant's own mapping of the
requested name, else from the name itself, else from a tier rule; an unknown name is never
forwarded. If the routing policy substitutes another provider, the request goes to the resolved
provider and model, or to the served model and account of the mapping that model has. Otherwise it
stays with the provider of its start; it uses the mapping's account and served model whenever there
is one, also when a rule resolved the request to another model of that provider, and the resolved
model only without a mapping.\<close>

theorem chat_dispatch_target:
  assumes "handleChat gw ed now wall rq ident st = (oc, st')" "oc_forward oc = Some (lane, rc)"
  shows "\<exists>body requestedModel streaming t.
    readBody (ed_maxBody ed) rq = BodyOK body \<and> parseBody (ed_decode ed) body = (requestedModel, streaming) \<and>
    lane = (if streaming then ChatStream else Chat) \<and> chatTarget gw ed ident requestedModel = Some t \<and>
    (let d = gw_router gw \<lparr>in_Provider = gt_provider t, in_Model = gt_model t,
                           in_TenantID = id_TenantID ident, in_UserID = id_UserID ident\<rparr>
     in rc_Decision rc = d \<and>
        (if dec_Reason d = ReasonSubstitute then
           rc_Provider rc = ResolvedProvider d \<and>
           (case resolveModelMapping (gw_creds gw) (id_TenantID ident) (ResolvedModel d) of
              Some (p, k, served, path) \<Rightarrow> rc_bctxKey rc = Some k \<and> rc_Model rc = (if served \<noteq> '''' then served else ResolvedModel d)
            | None \<Rightarrow> rc_Model rc = ResolvedModel d)
         else
           rc_Provider rc = gt_provider t \<and> (\<forall>k. gt_key t = Some k \<longrightarrow> rc_bctxKey rc = Some k) \<and>
           rc_Model rc = (if gt_mapped t \<noteq> '''' then gt_mapped t
                          else if ResolvedModel d \<noteq> RequestedModel d then ResolvedModel d else gt_model t)))"
proof -
  obtain body requestedModel streaming t rc' where
    1: "readBody (ed_maxBody ed) rq = BodyOK body" "parseBody (ed_decode ed) body = (requestedModel, streaming)"
      "chatTarget gw ed ident requestedModel = Some t" "lane = (if streaming then ChatStream else Chat)"
    and run: "Run (pipeline gw now wall) (genericContext ident t chatCompletionsPath body streaming, st) = ((rc', st'), False, None)"
    and rc: "rc = applyMapped (signalDeprecated (applySubstitution rc'))"
    using assms
    by (auto simp: handleChat_def Let_def refuse_def stopped_def forward_def split: bodyRead.splits option.splits prod.splits if_splits)
  note target = pipeline_target [OF run]
  have ctx: "inputOf (genericContext ident t chatCompletionsPath body streaming) =
      \<lparr>in_Provider = gt_provider t, in_Model = gt_model t, in_TenantID = id_TenantID ident, in_UserID = id_UserID ident\<rparr>"
    "rc_Identity (genericContext ident t chatCompletionsPath body streaming) = ident"
    "rc_Provider (genericContext ident t chatCompletionsPath body streaming) = gt_provider t"
    "rc_Model (genericContext ident t chatCompletionsPath body streaming) = gt_model t"
    "rc_MappedModel (genericContext ident t chatCompletionsPath body streaming) = gt_mapped t"
    "rc_DirectKey (genericContext ident t chatCompletionsPath body streaming) = gt_key t"
    by (simp_all add: genericContext_def newContext_def inputOf_def)
  have fin: "rc_Decision rc = rc_Decision rc'" "rc_bctxKey rc = rc_bctxKey rc'"
    "rc_Provider rc = (if dec_Reason (rc_Decision rc') = ReasonSubstitute then ResolvedProvider (rc_Decision rc') else rc_Provider rc')"
    "rc_Model rc = (if rc_MappedModel rc' \<noteq> '''' then rc_MappedModel rc'
       else if dec_Reason (rc_Decision rc') = ReasonSubstitute then ResolvedModel (rc_Decision rc') else rc_Model rc')"
    by (simp_all add: rc applyMapped_def signalDeprecated_def applySubstitution_def Let_def)
  show ?thesis
    by (rule exI [of _ body], rule exI [of _ requestedModel], rule exI [of _ streaming], rule exI [of _ t])
      (use 1 target fin in \<open>auto simp: ctx Let_def split: option.splits if_splits\<close>)
qed

section \<open>The model in a Gemini path\<close>

text \<open>A string that is one segment of such a path.\<close>

definition segment :: "string \<Rightarrow> bool" where
  "segment m \<longleftrightarrow> \<not> ContainsAny m '':/''"

lemma segment_iff: "segment m \<longleftrightarrow> (\<forall>c\<in>set m. c \<noteq> CHR '':'' \<and> c \<noteq> CHR ''/'')"
  by (auto simp: segment_def ContainsAny_iff)

lemma gemini_path_split:
  assumes "Index path ''/models/'' = Some i"
  obtains u m v where "path = u @ ''/models/'' @ m @ v" "length u = i" "segment m"
    "v = '''' \<or> hd v = CHR '':'' \<or> hd v = CHR ''/''"
    "\<forall>w. Index (u @ ''/models/'' @ w) ''/models/'' = Some i"
proof -
  from Index_Some [OF assms] obtain u v where p: "path = u @ ''/models/'' @ v" "length u = i" by blast
  let ?P = "\<lambda>c. c \<noteq> CHR '':'' \<and> c \<noteq> CHR ''/''"
  have "v = takeWhile ?P v @ dropWhile ?P v" by simp
  moreover have "segment (takeWhile ?P v)" by (auto simp: segment_iff dest: set_takeWhileD)
  moreover have "dropWhile ?P v = '''' \<or> hd (dropWhile ?P v) = CHR '':'' \<or> hd (dropWhile ?P v) = CHR ''/''"
    using hd_dropWhile [of ?P v] by blast
  moreover have "Index (u @ ''/models/'' @ w) ''/models/'' = Some i" for w
    using Index_common_prefix [of u "''/models/''" v w] assms p by simp
  ultimately show ?thesis using that [of u "takeWhile ?P v" "dropWhile ?P v"] p by simp
qed


lemma gemini_segment:
  assumes "\<forall>w. Index (u @ ''/models/'' @ w) ''/models/'' = Some (length u)" "segment m"
    and "v = '''' \<or> hd v = CHR '':'' \<or> hd v = CHR ''/''"
  shows "modelFromPath Gemini (u @ ''/models/'' @ m @ v) = m"
    and "rewriteGeminiModelPath (u @ ''/models/'' @ m @ v) r = u @ ''/models/'' @ r @ v"
proof -
  let ?P = "\<lambda>c. c \<noteq> CHR '':'' \<and> c \<noteq> CHR ''/''"
  have "takeWhile ?P v = ''''" using assms(3) by (cases v) auto
  then have t: "takeWhile ?P (m @ v) = m" using assms(2) by (simp add: segment_iff takeWhile_append2)
  have d: "drop (length u + 8) (u @ ''/models/'' @ m @ v) = m @ v" "take (length u + 8) (u @ ''/models/'' @ m @ v) = u @ ''/models/''"
    by simp_all
  show "modelFromPath Gemini (u @ ''/models/'' @ m @ v) = m"
    unfolding modelFromPath_def assms(1) [rule_format] option.case d t by simp
  show "rewriteGeminiModelPath (u @ ''/models/'' @ m @ v) r = u @ ''/models/'' @ r @ v"
    unfolding rewriteGeminiModelPath_def assms(1) [rule_format] option.case d Let_def t by simp
qed

text \<open>Writing a model into a Gemini path and reading it back; writing the old model restores the path.\<close>

lemma gemini_path_roundtrip:
  assumes "modelFromPath Gemini path \<noteq> ''''" "segment r"
  shows "modelFromPath Gemini (rewriteGeminiModelPath path r) = r"
    and "rewriteGeminiModelPath (rewriteGeminiModelPath path r) (modelFromPath Gemini path) = path"
    and "rewriteGeminiModelPath path (modelFromPath Gemini path) = path"
proof -
  from assms(1) obtain i where "Index path ''/models/'' = Some i" by (auto simp: modelFromPath_def split: option.splits)
  then obtain u m v where p: "path = u @ ''/models/'' @ m @ v" "segment m" "v = '''' \<or> hd v = CHR '':'' \<or> hd v = CHR ''/''"
    and ix: "\<forall>w. Index (u @ ''/models/'' @ w) ''/models/'' = Some (length u)"
    by (elim gemini_path_split) blast
  note old = gemini_segment [OF ix p(2,3)] and new = gemini_segment [OF ix assms(2) p(3)]
  show "modelFromPath Gemini (rewriteGeminiModelPath path r) = r"
    unfolding p(1) old by (rule new)
  show "rewriteGeminiModelPath (rewriteGeminiModelPath path r) (modelFromPath Gemini path) = path"
    unfolding p(1) old by (rule new)
  show "rewriteGeminiModelPath path (modelFromPath Gemini path) = path"
    unfolding p(1) old ..
qed

lemma stages_keep_path:
  "ratelimitStage limiter now wall (rc, st) = ((rc', st'), False, err) \<Longrightarrow> rc_Path rc' = rc_Path rc"
  "resolverStage hk (rc, st) = ((rc', st'), False, err) \<Longrightarrow> rc_Path rc' = rc_Path rc"
  "filterStage ec (rc, st) = ((rc', st'), False, err) \<Longrightarrow> rc_Path rc' = rc_Path rc"
  using ratelimitStage_passed [of limiter now wall rc st rc' st' err]
  by (auto simp: resolverStage_def resolveProviderCreds_def filterStage_def Let_def split: if_splits option.splits prod.splits)

lemma pipeline_path:
  assumes "Run (pipeline gw now wall) (rc0, st0) = ((rc, st), False, None)"
  defines "d \<equiv> gw_router gw (inputOf rc0)"
  shows "rc_Path rc = (if dec_Reason d \<noteq> ReasonSubstitute \<and> ResolvedModel d \<noteq> RequestedModel d
    then snd (rewriteModel (gw_setModel gw) (rc_Provider rc0) (rc_Body rc0) (rc_Path rc0) (ResolvedModel d)) else rc_Path rc0)"
proof -
  from pipeline_passed [OF assms(1)] obtain rc1 st1 rc2 st2 rc3 st3 where y:
    "routeStage (gw_router gw) (gw_setModel gw) (rc0, st0) = ((rc1, st1), False, None)"
    "ratelimitStage (gw_limiter gw) now wall (rc1, st1) = ((rc2, st2), False, None)"
    "resolverStage (gw_creds gw) (rc2, st2) = ((rc3, st3), False, None)"
    "filterStage (gw_egress gw) (rc3, st3) = ((rc, st), False, None)" by blast
  have "rc_Path rc = rc_Path rc1" using stages_keep_path y(2-4) by metis
  then show ?thesis using y(1)
    by (auto simp: routeStage_def inputOf_def d_def Let_def split: if_splits prod.splits)
qed

text \<open>A Gemini request names its model in its path, and routing keeps the two in step. When a request
whose model was read from the path is forwarded natively, the model read from the forwarded path is
the model the gateway meters and limits, and only that segment of the path changed: writing the
requested model back gives the client's path. (A resolved model with a colon or slash in it would
not be one segment.)\<close>

theorem gemini_path_follows_model:
  assumes "handleRequest gw now wall rc0 st0 = (d, st)" "d = DoStream rc \<or> d = DoUnary rc"
    and "rc_Provider rc0 = Gemini" "rc_Model rc0 = modelFromPath Gemini (rc_Path rc0)" "rc_Model rc0 \<noteq> ''''"
    and "ResolvedModel (rc_Decision rc) \<noteq> ''''" "segment (ResolvedModel (rc_Decision rc))"
  shows "modelFromPath Gemini (rc_Path rc) = rc_Model rc \<and> rewriteGeminiModelPath (rc_Path rc) (rc_Model rc0) = rc_Path rc0"
proof -
  obtain rc' where run: "Run (pipeline gw now wall) (rc0, st0) = ((rc', st), False, None)"
    and rc: "rc_Path rc = rc_Path rc'" "rc_Model rc = rc_Model rc'" "rc_Decision rc = rc_Decision rc'"
      "dec_Reason (rc_Decision rc) \<noteq> ReasonSubstitute"
    using assms(1,2) by (auto simp: handleRequest_def Let_def split: prod.splits if_splits)
  note t = pipeline_target [OF run] and pth = pipeline_path [OF run]
  have g: "rc_Provider rc0 = ''gemini''" using assms(3) by (simp add: Gemini_def)
  note rt = gemini_path_roundtrip [of "rc_Path rc0" "ResolvedModel (rc_Decision rc)", folded assms(4), OF assms(5,7)]
  show ?thesis using t pth rc rt g assms(4,6) by (auto simp: rewriteModel_def split: if_splits)
qed

section \<open>Witnesses\<close>

lemma demo_pipeline:
  assumes "rc_Body rc = ''hi''" "rc_DirectKey rc = None"
  shows "Run (pipeline (demoGateway []) 0 0) (rc, st) =
    ((rc\<lparr>rc_Decision := passthrough (inputOf rc), rc_bctxKey := Some ''key''\<rparr>, st), False, None)"
proof -
  have route: "routeStage passthrough f (rc, st) = ((rc\<lparr>rc_Decision := passthrough (inputOf rc)\<rparr>, st), False, None)" for f
    by (simp add: routeStage_def passthrough_def inputOf_def)
  have d: "dec_Reason (passthrough (inputOf rc)) = ReasonPassthrough" by (simp add: passthrough_def)
  show ?thesis
    by (simp add: pipeline_def demo_stages(1,2) route ratelimitStage_def Enabled_def)
      (subst demo_stages(3), simp add: d assms demo_stages(4))
qed

definition demoIdentity :: Identity where
  "demoIdentity = emptyIdentity\<lparr>id_TenantID := ''t1'', id_UserID := ''u1''\<rparr>"

definition demoEdge :: edgeConfig where
  "demoEdge = \<lparr>ed_maxBody = 100, ed_decode = (\<lambda>b. (''m'', False)), ed_tiersEnabled = False, ed_schemas = (\<lambda>n. n)\<rparr>"

definition demoHttp :: "string \<Rightarrow> httpRequest" where
  "demoHttp path = \<lparr>hr_Method = ''POST'', hr_Path = path, hr_RawQuery = '''', hr_queryKey = '''',
     hr_Header = [(''X-Api-Key'', [''tok'']), (''X-App'', [''cli''])], hr_Body = Some ''hi''\<rparr>"

lemma demo_token: "extractToken (demoHttp path) = ''tok''"
  by code_simp

lemma demo_native:
  "ServeHTTP (staticValidator ''tok'' demoIdentity) (demoGateway []) demoEdge 0 0 (demoHttp ''/anthropic/v1/messages'') NewMemStore =
     Some (forward (Unary \<lparr>pr_Provider = Anthropic, pr_Model = ''m'', pr_Method = ''POST'', pr_Path = ''/v1/messages'', pr_RawQuery = '''',
               pr_Body = ''hi'', pr_SafeHeaders = [(''x-app'', ''cli'')]\<rparr>)
             (let rc = newContext demoIdentity Anthropic ''m'' ''/v1/messages'' ''hi'' False
              in rc\<lparr>rc_Decision := passthrough (inputOf rc), rc_bctxKey := Some ''key''\<rparr>), NewMemStore)"
proof -
  have h: "handleRequest (demoGateway []) 0 0 (newContext i p m path ''hi'' False) st =
      (DoUnary ((newContext i p m path ''hi'' False)\<lparr>rc_Decision := passthrough (inputOf (newContext i p m path ''hi'' False)), rc_bctxKey := Some ''key''\<rparr>), st)"
    for i p m path st
    by (subst handleRequest_def, subst demo_pipeline) (simp_all add: newContext_def passthrough_def)
  have s: "stripPath ''/anthropic/v1/messages'' ''/anthropic'' = ''/v1/messages''" by code_simp
  have r: "map_of prefixProvider ''/anthropic'' = Some Anthropic"
      "''/'' @ fst (Cut (TrimPrefix ''/anthropic/v1/messages'' ''/'') ''/'') = ''/anthropic''"
      "list_ex (\<lambda>(pfx, p). HasPrefix ''/anthropic/v1/messages'' (pfx @ ''/'')) prefixProvider"
      "\<not> Contains (ToLower ''/v1/messages'') ''stream''" "safeHeaders (hr_Header (demoHttp path)) = [(''x-app'', ''cli'')]" for path
    by code_simp+
  have b: "readBody (ed_maxBody demoEdge) (demoHttp path) = BodyOK ''hi''" "parseBody (ed_decode demoEdge) ''hi'' = (''m'', False)"
      "hr_Path (demoHttp path) = path" for path
    by (simp_all add: readBody_def parseBody_def demoEdge_def demoHttp_def)
  have v: "Validate_token (staticValidator ''tok'' demoIdentity) ''tok'' = Some demoIdentity" by (simp add: staticValidator_def)
  have handle: "handle (demoGateway []) demoEdge 0 0 (demoHttp ''/anthropic/v1/messages'') demoIdentity NewMemStore =
     (forward (Unary \<lparr>pr_Provider = Anthropic, pr_Model = ''m'', pr_Method = ''POST'', pr_Path = ''/v1/messages'', pr_RawQuery = '''',
               pr_Body = ''hi'', pr_SafeHeaders = [(''x-app'', ''cli'')]\<rparr>)
             (let rc = newContext demoIdentity Anthropic ''m'' ''/v1/messages'' ''hi'' False
              in rc\<lparr>rc_Decision := passthrough (inputOf rc), rc_bctxKey := Some ''key''\<rparr>), NewMemStore)"
    unfolding handle_def b r s Let_def option.case bodyRead.case prod.case h
    by (simp add: r s h Let_def passthroughFor_def) (simp add: demoHttp_def newContext_def)
  show ?thesis
    unfolding ServeHTTP_def Middleware_def demo_token b Let_def v option.case handle using r(3) by simp
qed


theorem edge_authenticates_and_answers_witness:
  "\<exists>oc st lane rc. ServeHTTP (staticValidator ''tok'' demoIdentity) (demoGateway []) demoEdge 0 0
       (demoHttp ''/anthropic/v1/messages'') NewMemStore = Some (oc, st) \<and>
     oc_forward oc = Some (lane, rc) \<and> rc_Identity rc = demoIdentity \<and> \<not> Denied (rc_Decision rc)"
  using edge_authenticates_and_answers [OF demo_native] demo_native by (simp add: forward_def Let_def newContext_def)

text \<open>
  A tenant maps the name \<open>m\<close> to an account of its own, and a rule replaces \<open>m\<close> by \<open>m2\<close> on the same
  provider: the decision says \<open>m2\<close>, the request goes to the mapped model.
\<close>

definition mappedGateway :: "memStore gateway" where
  "mappedGateway = (demoGateway [exRule ''r'' '''' 1 ''m'' ''m2'' False])
     \<lparr>gw_creds := \<lparr>modelResolverHook = Some (\<lambda>t m. if m = ''m'' then Some (''openai'', ''acct'', ''served'', '''') else None),
                    credResolver = (\<lambda>p i. None), operatorCredsHook = None\<rparr>\<rparr>"

lemma mapped_decision:
  fixes t u :: string
  defines "d \<equiv> gw_router mappedGateway \<lparr>in_Provider = ''openai'', in_Model = ''m'', in_TenantID = t, in_UserID = u\<rparr>"
  shows "\<not> Denied d" "dec_Reason d \<noteq> ReasonSubstitute" "RequestedModel d = ''m''" "ResolvedModel d = ''m2''"
  by (simp_all add: d_def mappedGateway_def demoGateway_def Resolve_NewEngine policyDecision_def policy_def applicable_def outranks_rule_def
      exRule_def zeroRule_def matches_def applyRule_def passthrough_def Let_def)

lemma mapped_pipeline:
  fixes ident :: Identity
  defines "rc0 \<equiv> genericContext ident \<lparr>gt_provider = ''openai'', gt_model = ''m'', gt_key = Some ''acct'', gt_keyPath = '''', gt_mapped = ''served''\<rparr>
      chatCompletionsPath ''hi'' False"
  shows "\<exists>rc. Run (pipeline mappedGateway 0 0) (rc0, st) = ((rc, st), False, None)"
proof -
  have i: "inputOf rc0 = \<lparr>in_Provider = ''openai'', in_Model = ''m'', in_TenantID = id_TenantID ident, in_UserID = id_UserID ident\<rparr>"
    "rc_Body rc0 = ''hi''" "rc_DirectKey rc0 = Some ''acct''" "rc_DirectKeyURLPath rc0 = ''''"
    by (simp_all add: rc0_def genericContext_def newContext_def inputOf_def)
  have nd: "\<not> Denied (gw_router mappedGateway (inputOf rc0))" using mapped_decision(1) i(1) by simp
  have m: "gw_setModel mappedGateway = (\<lambda>b m. None)" "gw_limiter mappedGateway = None" "gw_egress mappedGateway = gw_egress (demoGateway [])"
    by (simp_all add: mappedGateway_def demoGateway_def)
  from routeStage_allowed [of mappedGateway rc0 st, OF nd] obtain rc1 where
    r: "routeStage (gw_router mappedGateway) (gw_setModel mappedGateway) (rc0, st) = ((rc1, st), False, None)"
      "rc_Decision rc1 = gw_router mappedGateway (inputOf rc0)" "rc_Body rc1 = routedBody mappedGateway rc0" by blast
  have b: "rc_Body rc1 = ''hi''" using r(3) i(2) m(1) by (simp add: routedBody_def rewriteModel_def Let_def)
  have k: "rc_DirectKey rc1 = Some ''acct''" using stages_keep(1) [OF r(1)] i(3) by simp
  have s: "dec_Reason (rc_Decision rc1) \<noteq> ReasonSubstitute" using r(2) i(1) mapped_decision(2) by simp
  obtain rc2 where q: "resolverStage (gw_creds mappedGateway) (rc1, st) = ((rc2, st), False, None)" "rc_Body rc2 = ''hi''"
    using k s b by (simp add: resolverStage_def Let_def)
  show ?thesis using r(1) q demo_stages(4) [OF q(2), of st] m
    by (simp add: pipeline_def ratelimitStage_def Enabled_def)
qed

theorem chat_dispatch_target_witness:
  "\<exists>oc st lane rc. handleChat mappedGateway demoEdge 0 0 (demoHttp chatCompletionsPath) demoIdentity NewMemStore = (oc, st) \<and>
     oc_forward oc = Some (lane, rc) \<and> ResolvedModel (rc_Decision rc) = ''m2'' \<and> rc_Model rc = ''served'' \<and> rc_bctxKey rc = Some ''acct''"
proof -
  define t where "t = \<lparr>gt_provider = ''openai'', gt_model = ''m'', gt_key = Some ''acct'', gt_keyPath = '''', gt_mapped = ''served''\<rparr>"
  have b: "readBody (ed_maxBody demoEdge) (demoHttp chatCompletionsPath) = BodyOK ''hi''" "parseBody (ed_decode demoEdge) ''hi'' = (''m'', False)"
    by (simp_all add: readBody_def parseBody_def demoEdge_def demoHttp_def)
  have c: "chatTarget mappedGateway demoEdge demoIdentity ''m'' = Some t"
    by (simp add: chatTarget_def resolveModelMapping_def mappedGateway_def t_def)
  from mapped_pipeline [of demoIdentity NewMemStore, folded t_def] obtain rc0 where
    run: "Run (pipeline mappedGateway 0 0) (genericContext demoIdentity t chatCompletionsPath ''hi'' False, NewMemStore) = ((rc0, NewMemStore), False, None)"
    by blast
  define rc where "rc = applyMapped (signalDeprecated (applySubstitution rc0))"
  have h: "handleChat mappedGateway demoEdge 0 0 (demoHttp chatCompletionsPath) demoIdentity NewMemStore = (forward Chat rc, NewMemStore)"
    by (simp add: handleChat_def b c run rc_def)
  have f: "oc_forward (forward Chat rc) = Some (Chat, rc)" by (simp add: forward_def)
  from chat_dispatch_target [OF h f] b c have "rc_Model rc = ''served'' \<and> rc_bctxKey rc = Some ''acct'' \<and> ResolvedModel (rc_Decision rc) = ''m2''"
    using mapped_decision by (auto simp: t_def Let_def)
  with h f show ?thesis by blast
qed

lemma demo_gemini:
  fixes st :: memStore
  defines "rc0 \<equiv> newContext demoIdentity Gemini ''g'' ''/models/g:generateContent'' ''hi'' False"
  shows "handleRequest (demoGateway []) 0 0 rc0 st = (DoUnary (rc0\<lparr>rc_Decision := passthrough (inputOf rc0), rc_bctxKey := Some ''key''\<rparr>), st)"
  unfolding rc0_def
  by (subst handleRequest_def, subst demo_pipeline) (simp_all add: newContext_def passthrough_def)

theorem gemini_path_follows_model_witness:
  "\<exists>rc st. handleRequest (demoGateway []) 0 0 (newContext demoIdentity Gemini ''g'' ''/models/g:generateContent'' ''hi'' False) NewMemStore =
       (DoUnary rc, st) \<and> modelFromPath Gemini (rc_Path rc) = rc_Model rc"
proof -
  note run = demo_gemini [of NewMemStore]
  have "modelFromPath Gemini ''/models/g:generateContent'' = ''g''" "segment ''g''" by code_simp+
  with gemini_path_follows_model [OF run disjI2 [OF refl]] run show ?thesis
    by (auto simp: newContext_def inputOf_def passthrough_def)
qed

end
