(* ===== verification/GatewayFailover.thy ===== *)
theory GatewayFailover
  imports Routing
begin

text \<open>
  The native unary path of the gateway with failover (\<open>llm/gateway/proxy/handler.go\<close>: \<open>unary\<close>, \<open>statusOf\<close>;
  \<open>llm/gateway/proxy/failover.go\<close>).

  The provider client is an argument: the passthrough call, and for a fallback the decoding of the
  client's request, the call of the unified engine and the encoding of its answer. What the client
  sees is recorded as the statuses written, what is metered as the attributed provider, model and
  status. Streaming failover hands the connection over and is not modelled.
\<close>

definition isRetryable :: "int \<Rightarrow> bool" where
  "isRetryable status \<longleftrightarrow> status \<in> {429, 500, 502, 503, 504}"

definition failoverTarget :: "string \<Rightarrow> Endpoint \<Rightarrow> string \<times> string" where
  "failoverTarget requested fb =
     (if ep_Provider fb = '''' then requested else ep_Provider fb, ep_Model fb)"

record reqMeta =
  rm_provider :: string
  rm_model :: string
  rm_body :: string
  rm_decision :: Decision
  rm_failover :: "(string \<times> string \<times> int) option"

record meterRow =
  mr_provider :: string
  mr_model :: string
  mr_status :: int
  mr_reason :: Reason

record exchange =
  ex_calls :: "(string \<times> string) list"
  ex_written :: "int list"
  ex_metered :: "meterRow list"

datatype passResult =
    PassErr "int option"
  | PassOK int string

record ('req, 'resp) providerClient =
  pc_Passthrough :: "string \<Rightarrow> string \<Rightarrow> passResult"
  pc_parse :: "string \<Rightarrow> string \<Rightarrow> 'req option"
  pc_call :: "string \<Rightarrow> string \<Rightarrow> 'req \<Rightarrow> 'resp option"
  pc_encode :: "string \<Rightarrow> 'resp \<Rightarrow> string option"

definition statusOf :: "int option \<Rightarrow> int" where
  "statusOf code = (case code of Some s \<Rightarrow> s | None \<Rightarrow> 502)"

definition meterOne :: "reqMeta \<Rightarrow> int \<Rightarrow> exchange \<Rightarrow> exchange" where
  "meterOne rm status x =
     x\<lparr>ex_metered := ex_metered x @
        [\<lparr>mr_provider = rm_provider rm, mr_model = rm_model rm, mr_status = status, mr_reason = dec_Reason (rm_decision rm)\<rparr>]\<rparr>"

definition writeStatus :: "int \<Rightarrow> exchange \<Rightarrow> exchange" where
  "writeStatus status x = x\<lparr>ex_written := ex_written x @ [status]\<rparr>"

definition markFailover :: "string \<Rightarrow> string \<Rightarrow> int \<Rightarrow> reqMeta \<Rightarrow> reqMeta" where
  "markFailover target model primaryStatus rm =
     rm\<lparr>rm_provider := target, rm_model := model, rm_decision := (rm_decision rm)\<lparr>dec_Reason := ReasonFallback\<rparr>,
        rm_failover := Some (RequestedProvider (rm_decision rm), target, primaryStatus)\<rparr>"

text \<open>One attempt: on failure nothing is written.\<close>

definition attemptTranslatedUnary ::
  "('req, 'resp) providerClient \<Rightarrow> string \<Rightarrow> string \<Rightarrow> string \<Rightarrow> int \<Rightarrow> reqMeta \<times> exchange \<Rightarrow> (reqMeta \<times> exchange) \<times> bool" where
  "attemptTranslatedUnary pc client target model primaryStatus = (\<lambda>(rm, x).
     case pc_parse pc client (rm_body rm) of
       None \<Rightarrow> ((rm, x), False)
     | Some breq \<Rightarrow>
         (let x1 = x\<lparr>ex_calls := ex_calls x @ [(target, model)]\<rparr>
          in case pc_call pc target model breq of
               None \<Rightarrow> ((rm, x1), False)
             | Some resp \<Rightarrow>
                 (case pc_encode pc client resp of
                    None \<Rightarrow> ((rm, x1), False)
                  | Some out \<Rightarrow>
                      (let rm' = markFailover target model primaryStatus rm
                       in ((rm', meterOne rm' 200 (writeStatus 200 x1)), True)))))"

fun failoverLoop ::
  "('req, 'resp) providerClient \<Rightarrow> string \<Rightarrow> int \<Rightarrow> Endpoint list \<Rightarrow> reqMeta \<times> exchange \<Rightarrow> (reqMeta \<times> exchange) \<times> bool" where
  "failoverLoop pc client primaryStatus [] s = (s, False)"
| "failoverLoop pc client primaryStatus (fb # fbs) s =
     (let (target, model) = failoverTarget client fb
      in if model = '''' then failoverLoop pc client primaryStatus fbs s
         else case attemptTranslatedUnary pc client target model primaryStatus s of
           (s', True) \<Rightarrow> (s', True)
         | (s', False) \<Rightarrow> failoverLoop pc client primaryStatus fbs s')"

definition tryFailoverUnary ::
  "('req, 'resp) providerClient \<Rightarrow> int \<Rightarrow> reqMeta \<times> exchange \<Rightarrow> (reqMeta \<times> exchange) \<times> bool" where
  "tryFailoverUnary pc primaryStatus = (\<lambda>(rm, x).
     if \<not> isRetryable primaryStatus \<or> dec_Fallbacks (rm_decision rm) = [] then ((rm, x), False)
     else failoverLoop pc (RequestedProvider (rm_decision rm)) primaryStatus (dec_Fallbacks (rm_decision rm)) (rm, x))"

definition unary :: "('req, 'resp) providerClient \<Rightarrow> reqMeta \<times> exchange \<Rightarrow> reqMeta \<times> exchange" where
  "unary pc = (\<lambda>(rm, x0).
     let x = x0\<lparr>ex_calls := ex_calls x0 @ [(rm_provider rm, rm_model rm)]\<rparr>
     in case pc_Passthrough pc (rm_provider rm) (rm_model rm) of
          PassErr code \<Rightarrow>
            (case tryFailoverUnary pc (statusOf code) (rm, x) of
               (s, True) \<Rightarrow> s
             | ((rm', x'), False) \<Rightarrow> (rm', meterOne rm' (statusOf code) (writeStatus (statusOf code) x')))
        | PassOK status body \<Rightarrow>
            (case (if isRetryable status then tryFailoverUnary pc status (rm, x) else ((rm, x), False)) of
               (s, True) \<Rightarrow> s
             | ((rm', x'), False) \<Rightarrow> (rm', meterOne rm' status (writeStatus status x'))))"

section \<open>Properties\<close>

text \<open>A fallback that would serve the request.\<close>

definition serves :: "('req, 'resp) providerClient \<Rightarrow> string \<Rightarrow> string \<Rightarrow> Endpoint \<Rightarrow> bool" where
  "serves pc client body fb \<longleftrightarrow> ep_Model fb \<noteq> '''' \<and>
     (case failoverTarget client fb of (target, model) \<Rightarrow>
       \<exists>breq resp out. pc_parse pc client body = Some breq \<and> pc_call pc target model breq = Some resp \<and>
         pc_encode pc client resp = Some out)"

lemma failoverLoop_outcome:
  assumes "failoverLoop pc client st fbs (rm, x) = ((rm', x'), ok)"
  shows "length (ex_calls x') \<le> length (ex_calls x) + length fbs \<and>
    (case find (serves pc client (rm_body rm)) fbs of
       None \<Rightarrow> \<not> ok \<and> rm' = rm \<and> ex_written x' = ex_written x \<and> ex_metered x' = ex_metered x
     | Some fb \<Rightarrow> ok \<and> (case failoverTarget client fb of (target, model) \<Rightarrow>
         rm' = markFailover target model st rm \<and> ex_written x' = ex_written x @ [200] \<and>
         ex_metered x' = ex_metered x @ [\<lparr>mr_provider = target, mr_model = model, mr_status = 200, mr_reason = ReasonFallback\<rparr>]))"
  using assms
proof (induction fbs arbitrary: x)
  case (Cons fb fbs)
  obtain target model where t: "failoverTarget client fb = (target, model)" by (cases "failoverTarget client fb")
  have m: "model = ep_Model fb" using t by (simp add: failoverTarget_def)
  show ?case
  proof (cases "serves pc client (rm_body rm) fb")
    case True
    then show ?thesis
      using Cons.prems t m
      by (auto simp: serves_def attemptTranslatedUnary_def markFailover_def meterOne_def writeStatus_def)
  next
    case False
    then obtain x1 where x1: "failoverLoop pc client st fbs (rm, x1) = ((rm', x'), ok)"
      "length (ex_calls x1) \<le> Suc (length (ex_calls x))" "ex_written x1 = ex_written x" "ex_metered x1 = ex_metered x"
      using Cons.prems t m
      by (auto simp: serves_def attemptTranslatedUnary_def Let_def split: if_splits option.splits)
    from Cons.IH [OF x1(1)] x1(2-4) False show ?thesis by (auto split: option.splits)
  qed
qed simp

text \<open>The status the primary attempt came back with.\<close>

definition primaryStatus :: "passResult \<Rightarrow> int" where
  "primaryStatus r = (case r of PassErr code \<Rightarrow> statusOf code | PassOK status body \<Rightarrow> status)"

text \<open>C17: Every native unary request is answered once and metered once, whatever the provider and the
fallbacks do, with at most one call per configured endpoint. If the primary attempt fails in a way
another provider can fix and some fallback serves the request, the first such fallback answers and
is the one metered; otherwise the client gets the primary's own status, metered for the primary.\<close>

theorem unary_answers_once:
  fixes pc :: "('req, 'resp) providerClient" and rm :: reqMeta
  defines "d \<equiv> rm_decision rm" and "p \<equiv> primaryStatus (pc_Passthrough pc (rm_provider rm) (rm_model rm))"
  assumes "unary pc (rm, x) = (rm', x')"
  shows "length (ex_calls x') \<le> length (ex_calls x) + 1 + length (dec_Fallbacks d) \<and>
    (case (if isRetryable p then find (serves pc (RequestedProvider d) (rm_body rm)) (dec_Fallbacks d) else None) of
       Some fb \<Rightarrow> (case failoverTarget (RequestedProvider d) fb of (target, model) \<Rightarrow>
         ex_written x' = ex_written x @ [200] \<and>
         ex_metered x' = ex_metered x @ [\<lparr>mr_provider = target, mr_model = model, mr_status = 200, mr_reason = ReasonFallback\<rparr>])
     | None \<Rightarrow> ex_written x' = ex_written x @ [p] \<and>
         ex_metered x' = ex_metered x @ [\<lparr>mr_provider = rm_provider rm, mr_model = rm_model rm, mr_status = p, mr_reason = dec_Reason d\<rparr>])"
proof -
  define x1 where "x1 = x\<lparr>ex_calls := ex_calls x @ [(rm_provider rm, rm_model rm)]\<rparr>"
  define t where "t = (if isRetryable p then tryFailoverUnary pc p (rm, x1) else ((rm, x1), False))"
  have skip: "tryFailoverUnary pc p (rm, x1) = t" by (simp add: t_def tryFailoverUnary_def)
  obtain rm2 x2 ok where t2: "t = ((rm2, x2), ok)" by (metis prod.collapse)
  have u: "(rm', x') = (if ok then (rm2, x2) else (rm2, meterOne rm2 p (writeStatus p x2)))"
    using assms(3) skip t2
    by (cases "pc_Passthrough pc (rm_provider rm) (rm_model rm)")
      (auto simp: unary_def Let_def x1_def p_def primaryStatus_def t_def split: if_splits bool.splits)
  show ?thesis
  proof (cases "isRetryable p \<and> dec_Fallbacks d \<noteq> []")
    case True
    then have "failoverLoop pc (RequestedProvider d) p (dec_Fallbacks d) (rm, x1) = ((rm2, x2), ok)"
      using t2 by (simp add: t_def tryFailoverUnary_def d_def)
    from failoverLoop_outcome [OF this] u True show ?thesis
      by (auto simp: x1_def meterOne_def writeStatus_def d_def split: option.splits if_splits)
  next
    case False
    then have "t = ((rm, x1), False)" by (cases "isRetryable p") (simp_all add: t_def tryFailoverUnary_def d_def)
    with t2 have "rm2 = rm \<and> x2 = x1 \<and> \<not> ok" by simp
    then show ?thesis using u False by (auto simp: x1_def meterOne_def writeStatus_def d_def)
  qed
qed

definition demoClient :: "(unit, unit) providerClient" where
  "demoClient =
     \<lparr>pc_Passthrough = (\<lambda>p m. PassErr (Some 503)), pc_parse = (\<lambda>c b. Some ()),
      pc_call = (\<lambda>t m r. if m = ''gemini-x'' then Some () else None), pc_encode = (\<lambda>c r. Some ''{}'')\<rparr>"

definition demoEndpoint :: "string \<Rightarrow> string \<Rightarrow> Endpoint" where
  "demoEndpoint p m = Endpoint.truncate ((rule_Target zeroRule)\<lparr>ep_Provider := p, ep_Model := m\<rparr>)"

definition demoMeta :: reqMeta where
  "demoMeta = \<lparr>rm_provider = ''anthropic'', rm_model = ''m'', rm_body = ''{}'',
     rm_decision = (passthrough exInput)\<lparr>dec_Fallbacks := [demoEndpoint '''' ''m2'', demoEndpoint ''gemini'' ''gemini-x'']\<rparr>,
     rm_failover = None\<rparr>"

theorem unary_answers_once_witness:
  "\<exists>rm' x'. unary demoClient (demoMeta, \<lparr>ex_calls = [], ex_written = [], ex_metered = []\<rparr>) = (rm', x') \<and>
     ex_written x' = [200] \<and> length (ex_calls x') \<le> 3"
proof -
  obtain rm' x' where u: "unary demoClient (demoMeta, \<lparr>ex_calls = [], ex_written = [], ex_metered = []\<rparr>) = (rm', x')"
    by (metis prod.collapse)
  from unary_answers_once [OF u] have "ex_written x' = [200] \<and> length (ex_calls x') \<le> 3"
    by (simp add: demoClient_def demoMeta_def demoEndpoint_def Endpoint.defs zeroRule_def passthrough_def exInput_def primaryStatus_def
        statusOf_def isRetryable_def serves_def failoverTarget_def)
  with u show ?thesis by blast
qed

end
