(* ===== verification/IncidentGroup.thy ===== *)
theory IncidentGroup
  imports GoStrings
begin

text \<open>
  The decision half of incident grouping
  (\<open>api-server/services/triage/incident_group_decide.go\<close>): which incident the alert being triaged
  (the seed) belongs to and which alert heads it. Embedded structs are record extensions, Go maps
  are partial maps read with their zero value, and the loops over the related alerts are folds.
  The row lists, ranks and maps of the input are whatever the loader found, so the properties
  are stated for arbitrary inputs.
\<close>

section \<open>Data\<close>

record alertMember =
  Fingerprint :: string
  RepRow :: string
  Rows :: "string list"
  AggregationKey :: string
  SubjectKey :: string
  ServiceKey :: string
  Subject :: string
  Namespace :: string
  StartsAt :: instant
  Recent :: bool
  Open :: bool

type_synonym relation = int

definition relSameSubject :: relation where "relSameSubject = 1"
definition relConnected :: relation where "relConnected = 2"
definition relDependency :: relation where "relDependency = 3"
definition relNode :: relation where "relNode = 4"

lemmas rel_defs = relSameSubject_def relConnected_def relDependency_def relNode_def

record relatedMember = alertMember +
  Relation :: relation
  Hops :: int
  GroupHead :: string

definition zeroRelated :: relatedMember where
  "zeroRelated =
     \<lparr>Fingerprint = '''', RepRow = '''', Rows = [], AggregationKey = '''', SubjectKey = '''',
      ServiceKey = '''', Subject = '''', Namespace = '''', StartsAt = 0, Recent = False, Open = False,
      Relation = 0, Hops = 0, GroupHead = ''''\<rparr>"

record decideInput =
  Seed :: alertMember
  SeedKey :: string
  OwnHead :: string
  OwnLeads :: string
  OwnRep :: string
  Related :: "relatedMember list"
  HeadStarts :: "string \<rightharpoonup> instant"
  HeadAlerts :: "string \<rightharpoonup> string"
  Noisy :: "string \<rightharpoonup> bool"
  DependedOnBy :: "string \<rightharpoonup> int"
  TakeoverEnabled :: bool
  Node :: string

datatype groupOutcome = outcomeNone | outcomeJoin | outcomeLead | outcomeTakeOver

record bringRow =
  br_Row :: string
  br_Reason :: string
  br_Starts :: instant

record groupDecision =
  gd_Outcome :: groupOutcome
  gd_HeadRow :: string
  gd_MoveFrom :: string
  gd_Reason :: string
  gd_DepDistance :: int
  gd_SeedIsChild :: bool
  gd_HeadStart :: instant
  gd_Bring :: "bringRow list"
  gd_Why :: string

definition zeroDecision :: groupDecision where
  "zeroDecision =
     \<lparr>gd_Outcome = outcomeNone, gd_HeadRow = '''', gd_MoveFrom = '''', gd_Reason = '''',
      gd_DepDistance = 0, gd_SeedIsChild = False, gd_HeadStart = 0, gd_Bring = [], gd_Why = ''''\<rparr>"

section \<open>Ranks\<close>

record rankKey =
  noisy :: bool
  dependedOnBy :: int
  rk_start :: instant
  rk_fingerprint :: string

definition rank :: "decideInput \<Rightarrow> 'a alertMember_scheme \<Rightarrow> rankKey" where
  "rank inp m =
     \<lparr>noisy = map_get False (Noisy inp) (Fingerprint m),
      dependedOnBy = map_get 0 (DependedOnBy inp) (Fingerprint m),
      rk_start = StartsAt m, rk_fingerprint = Fingerprint m\<rparr>"

definition better :: "rankKey \<Rightarrow> rankKey \<Rightarrow> bool" where
  "better a b =
     (if noisy a \<noteq> noisy b then \<not> noisy a
      else if dependedOnBy a \<noteq> dependedOnBy b then dependedOnBy a > dependedOnBy b
      else if rk_start a \<noteq> rk_start b then rk_start a < rk_start b
      else rk_fingerprint a < rk_fingerprint b)"

definition outranks :: "rankKey \<Rightarrow> rankKey \<Rightarrow> bool" where
  "outranks a b =
     (if noisy a \<noteq> noisy b then \<not> noisy a else dependedOnBy a > dependedOnBy b)"

section \<open>The decision\<close>

definition leaderTakeoverReasonPrefix :: string where
  "leaderTakeoverReasonPrefix = ''dependency leads:''"

definition nodeMemoryReasonPrefix :: string where
  "nodeMemoryReasonPrefix = ''node memory:''"

definition fmtBool :: "bool \<Rightarrow> string" where
  "fmtBool b = (if b then ''true'' else ''false'')"

definition linkReason :: "decideInput \<Rightarrow> relatedMember \<Rightarrow> string \<times> int" where
  "linkReason inp via =
     (if Relation via = relSameSubject then
        (''same subject ('' @ SeedKey inp @ '') within incident attach window'', 0)
      else if Relation via = relConnected then
        (SeedKey inp @ '' is '' @ Itoa (Hops via)
           @ '' hop(s) away, both firing within the incident attach window'', Hops via)
      else if Relation via = relDependency then
        (SeedKey inp @ '' depends on '' @ SubjectKey via
           @ '', which was still firing when this alert started'', Hops via)
      else if Relation via = relNode then
        (nodeMemoryReasonPrefix @ '' node '' @ Node inp @ '' ran out of memory; '' @ SeedKey inp
           @ '' failed on it within the incident attach window'', 0)
      else (SeedKey inp @ '' within incident attach window'', 0))"

text \<open>The groups the related alerts are already in, and the loop that collects them.\<close>

record group =
  g_head :: string
  g_ranked :: bool
  g_rank :: rankKey
  g_via :: relatedMember
  g_hasVia :: bool
  g_headFP :: string
  g_started :: instant

definition newGroup :: "decideInput \<Rightarrow> string \<Rightarrow> group" where
  "newGroup inp h =
     \<lparr>g_head = h, g_ranked = False,
      g_rank = \<lparr>noisy = False, dependedOnBy = 0, rk_start = 0, rk_fingerprint = ''''\<rparr>,
      g_via = zeroRelated, g_hasVia = False,
      g_headFP = map_get '''' (HeadAlerts inp) h, g_started = map_get 0 (HeadStarts inp) h\<rparr>"

definition updVia :: "relatedMember \<Rightarrow> group \<Rightarrow> group" where
  "updVia m g =
     (if \<not> g_hasVia g \<or> Relation m < Relation (g_via g) \<or>
         (Relation m = Relation (g_via g) \<and> Fingerprint m < Fingerprint (g_via g))
      then g\<lparr>g_via := m, g_hasVia := True\<rparr> else g)"

definition updRank :: "decideInput \<Rightarrow> relatedMember \<Rightarrow> group \<Rightarrow> group" where
  "updRank inp m g =
     foldl (\<lambda>g row. if row = GroupHead m
        then g\<lparr>g_ranked := True, g_rank := rank inp m, g_headFP := Fingerprint m\<rparr> else g) g (Rows m)"

definition collect ::
  "decideInput \<Rightarrow> (string \<rightharpoonup> group) \<times> string list \<Rightarrow> relatedMember \<Rightarrow> (string \<rightharpoonup> group) \<times> string list" where
  "collect inp go m =
     (let (groups, order) = go; h = GroupHead m
      in if h = '''' then (groups, order)
         else
           let (g, order) = (case groups h of
                Some g \<Rightarrow> (g, order)
              | None \<Rightarrow> (newGroup inp h, order @ [h]))
           in (groups(h \<mapsto> updRank inp m (updVia m g)), order))"

definition collectGroups :: "decideInput \<Rightarrow> (string \<rightharpoonup> group) \<times> string list" where
  "collectGroups inp = foldl (collect inp) (Map.empty, []) (Related inp)"

definition earlier :: "group \<Rightarrow> group \<Rightarrow> bool" where
  "earlier g b \<longleftrightarrow> g_started g < g_started b \<or> (g_started g = g_started b \<and> g_head g < g_head b)"

definition ownGroup :: "decideInput \<Rightarrow> group list \<Rightarrow> group option" where
  "ownGroup inp gs =
     foldl (\<lambda>own g.
        if g_headFP g \<noteq> Fingerprint (Seed inp) then own
        else case own of None \<Rightarrow> Some g | Some b \<Rightarrow> if earlier g b then Some g else own) None gs"

definition betterGroup :: "group \<Rightarrow> group \<Rightarrow> bool" where
  "betterGroup g best =
     (if g_ranked g \<noteq> g_ranked best then g_ranked g
      else if g_ranked g \<and> better (g_rank g) (g_rank best) then True
      else \<not> g_ranked g \<and> earlier g best)"

text \<open>The election when no related alert is in a group.\<close>

definition elect ::
  "decideInput \<Rightarrow> alertMember \<times> rankKey \<times> bool \<times> relatedMember \<Rightarrow> relatedMember \<Rightarrow>
     alertMember \<times> rankKey \<times> bool \<times> relatedMember" where
  "elect inp acc m =
     (let (head, headRank, isSeed, via) = acc; r = rank inp m
      in if better r headRank then (alertMember.truncate m, r, False, m)
         else (head, headRank, isSeed, via))"

definition leadsReason :: "decideInput \<Rightarrow> string" where
  "leadsReason inp = SeedKey inp @ '' leads this incident: another firing or copy of the same alert''"

definition decide :: "decideInput \<Rightarrow> groupDecision" where
  "decide inp =
     (if OwnHead inp \<noteq> '''' then
        zeroDecision\<lparr>gd_Outcome := outcomeJoin, gd_HeadRow := OwnHead inp, gd_SeedIsChild := True,
          gd_HeadStart := map_get 0 (HeadStarts inp) (OwnHead inp),
          gd_Reason := SeedKey inp @ '' is already in this incident: another firing or copy of the same alert'',
          gd_Why := ''own alert already filed under this head''\<rparr>
      else if OwnLeads inp \<noteq> '''' then
        zeroDecision\<lparr>gd_Outcome := outcomeLead, gd_HeadRow := OwnLeads inp,
          gd_HeadStart := map_get 0 (HeadStarts inp) (OwnLeads inp),
          gd_Reason := leadsReason inp, gd_Why := ''own alert already heads this group''\<rparr>
      else if Related inp = [] then
        zeroDecision\<lparr>gd_Outcome := outcomeNone, gd_Why := ''no related alert active''\<rparr>
      else
        let seedRank = rank inp (Seed inp);
            (groups, order) = collectGroups inp;
            gs = map (\<lambda>h. the (groups h)) order
        in case ownGroup inp gs of
             Some own \<Rightarrow>
               zeroDecision\<lparr>gd_Outcome := outcomeLead, gd_HeadRow := g_head own,
                 gd_HeadStart := g_started own, gd_Reason := leadsReason inp,
                 gd_Why := ''an earlier firing of this alert heads a related alert's group''\<rparr>
           | None \<Rightarrow>
               (case gs of
                  g # gs' \<Rightarrow>
                    let best = scanBest betterGroup g gs'
                    in if TakeoverEnabled inp \<and> g_ranked best \<and> outranks seedRank (g_rank best) then
                         zeroDecision\<lparr>gd_Outcome := outcomeTakeOver, gd_HeadRow := RepRow (Seed inp),
                           gd_MoveFrom := g_head best, gd_HeadStart := g_started best,
                           gd_DepDistance := Hops (g_via best),
                           gd_Reason := leaderTakeoverReasonPrefix @ '' '' @ Itoa (dependedOnBy seedRank)
                             @ '' alert(s) in this incident depend on '' @ SeedKey inp,
                           gd_Why := ''outranks the head (noisy '' @ fmtBool (noisy seedRank) @ ''/''
                             @ fmtBool (noisy (g_rank best)) @ '', depended on by ''
                             @ Itoa (dependedOnBy seedRank) @ ''/''
                             @ Itoa (dependedOnBy (g_rank best)) @ '')''\<rparr>
                       else
                         let (reason, dist) = linkReason inp (g_via best)
                         in zeroDecision\<lparr>gd_Outcome := outcomeJoin, gd_HeadRow := g_head best,
                              gd_SeedIsChild := True, gd_HeadStart := g_started best,
                              gd_Reason := reason, gd_DepDistance := dist,
                              gd_Why := ''joins an existing group ('' @ Itoa (int (length order))
                                @ '' group(s) among related alerts)''\<rparr>
                | [] \<Rightarrow>
                    let (head, headRank, isSeed, via) =
                          foldl (elect inp) (Seed inp, seedRank, True, zeroRelated) (Related inp)
                    in if isSeed then
                         zeroDecision\<lparr>gd_Outcome := outcomeLead, gd_HeadRow := OwnRep inp,
                           gd_HeadStart := map_get 0 (HeadStarts inp) (OwnRep inp),
                           gd_Reason := leadsReason inp, gd_Why := ''best-ranked of the active set''\<rparr>
                       else
                         let (reason, dist) = linkReason inp via
                         in zeroDecision\<lparr>gd_Outcome := outcomeJoin, gd_HeadRow := RepRow head,
                              gd_SeedIsChild := True, gd_HeadStart := StartsAt head,
                              gd_Reason := reason, gd_DepDistance := dist,
                              gd_Why := ''new group; head is the best-ranked of the active set''\<rparr>))"

text \<open>The rows an ungrouped related alert brings to the head \<open>head\<close>.\<close>

definition bringRows :: "decideInput \<Rightarrow> string \<Rightarrow> relatedMember \<Rightarrow> bringRow list" where
  "bringRows inp head m =
     (if GroupHead m \<noteq> '''' then []
      else
        let reason = (if Relation m = relNode then fst (linkReason inp m)
                      else SubjectKey m @ '' is related to '' @ SeedKey inp
                        @ '', both firing within the incident attach window'')
        in map (\<lambda>row. \<lparr>br_Row = row, br_Reason = reason, br_Starts = StartsAt m\<rparr>)
             (filter (\<lambda>row. row \<noteq> head) (Rows m)))"

definition decideGroup :: "decideInput \<Rightarrow> groupDecision" where
  "decideGroup inp =
     (let d = decide inp
      in if gd_Outcome d = outcomeNone then d
         else
           let head = (if gd_Outcome d = outcomeLead \<and> gd_HeadRow d = '''' then RepRow (Seed inp)
                       else gd_HeadRow d)
           in d\<lparr>gd_Bring := gd_Bring d @ concat (map (bringRows inp head) (Related inp))\<rparr>)"

section \<open>Orders\<close>

interpretation rank_order: strict_linear_order better
proof
  show "\<not> better x x" for x by (simp add: better_def)
  show "\<not> better y x" if "better x y" for x y
    using that by (auto simp: better_def split: if_splits)
  show "better x y \<or> better y z" if "better x z" for x y z
    using that by (auto simp: better_def split: if_splits)
  show "better x y \<or> better y x" if "x \<noteq> y" for x y
    using that by (auto simp: better_def intro: rankKey.equality split: if_splits)
qed

interpretation group_order: strict_weak_order betterGroup
proof
  show "\<not> betterGroup x x" for x
    by (simp add: betterGroup_def earlier_def rank_order.irreflexive)
  show "\<not> betterGroup y x" if "betterGroup x y" for x y
    using that by (auto simp: betterGroup_def earlier_def dest: rank_order.asymmetric split: if_splits)
  show "betterGroup x y \<or> betterGroup y z" if "betterGroup x z" for x y z
    using that rank_order.neg_transitive [of "g_rank x" "g_rank z" "g_rank y"]
    by (auto simp: betterGroup_def earlier_def split: if_splits)
qed

section \<open>The election\<close>

lemma truncate_fields [simp]:
  "Fingerprint (alertMember.truncate m) = Fingerprint m" "RepRow (alertMember.truncate m) = RepRow m"
  "StartsAt (alertMember.truncate m) = StartsAt m"
  by (simp_all add: alertMember.truncate_def)

lemma rank_truncate [simp]: "rank inp (alertMember.truncate m) = rank inp m"
  by (simp add: rank_def)

lemma elect_step:
  "elect inp (h, r, b, via) m =
     (if better (rank inp m) r then (alertMember.truncate m, rank inp m, False, m) else (h, r, b, via))"
  by (simp add: elect_def Let_def)

lemma elect_fold:
  assumes "foldl (elect inp) (h, rank inp h, b, via) ms = (h', r', b', via')"
  shows "r' = scanBest better (rank inp h) (map (rank inp) ms)" "r' = rank inp h'"
    "b' \<Longrightarrow> h' = h" "b \<Longrightarrow> \<not> b' \<Longrightarrow> via' \<in> set ms \<and> alertMember.truncate via' = h'"
    "h' \<in> insert h (alertMember.truncate ` set ms)"
proof -
  have "r' = scanBest better (rank inp h) (map (rank inp) ms) \<and> r' = rank inp h' \<and>
    (b' \<longrightarrow> b \<and> h' = h) \<and>
    (\<not> b' \<longrightarrow> (\<not> b \<and> via' = via \<and> h' = h) \<or> via' \<in> set ms \<and> alertMember.truncate via' = h')"
    using assms
  proof (induction ms arbitrary: h b via)
    case (Cons m ms)
    show ?case
    proof (cases "better (rank inp m) (rank inp h)")
      case True
      then have "foldl (elect inp) (alertMember.truncate m, rank inp (alertMember.truncate m), False, m) ms
          = (h', r', b', via')"
        using Cons.prems by (simp add: elect_step)
      from Cons.IH [OF this] True show ?thesis by auto
    next
      case False
      then have "foldl (elect inp) (h, rank inp h, b, via) ms = (h', r', b', via')"
        using Cons.prems by (simp add: elect_step)
      from Cons.IH [OF this] False show ?thesis by auto
    qed
  qed auto
  then show "r' = scanBest better (rank inp h) (map (rank inp) ms)" "r' = rank inp h'"
    "b' \<Longrightarrow> h' = h" "b \<Longrightarrow> \<not> b' \<Longrightarrow> via' \<in> set ms \<and> alertMember.truncate via' = h'"
    "h' \<in> insert h (alertMember.truncate ` set ms)"
    by auto
qed

text \<open>The row the group is filed under.\<close>

definition headRow :: "decideInput \<Rightarrow> string" where
  "headRow inp =
     (if gd_Outcome (decideGroup inp) = outcomeLead \<and> gd_HeadRow (decideGroup inp) = ''''
      then RepRow (Seed inp) else gd_HeadRow (decideGroup inp))"

text \<open>A fresh election: nothing about the seed's alert or its related alerts is placed yet.\<close>

definition fresh :: "decideInput \<Rightarrow> bool" where
  "fresh inp \<longleftrightarrow> OwnHead inp = '''' \<and> OwnLeads inp = '''' \<and> OwnRep inp = '''' \<and> Related inp \<noteq> [] \<and>
     (\<forall>m\<in>set (Related inp). GroupHead m = '''')"

definition active :: "decideInput \<Rightarrow> alertMember set" where
  "active inp = insert (Seed inp) (alertMember.truncate ` set (Related inp))"

lemma collect_ungrouped:
  "\<forall>m\<in>set ms. GroupHead m = '''' \<Longrightarrow> foldl (collect inp) go ms = go"
  by (induction ms arbitrary: go) (auto simp: collect_def split: prod.splits)

lemma decideGroup_outcome [simp]:
  "gd_Outcome (decideGroup inp) = gd_Outcome (decide inp)"
  "gd_HeadRow (decideGroup inp) = gd_HeadRow (decide inp)"
  "gd_MoveFrom (decideGroup inp) = gd_MoveFrom (decide inp)"
  by (simp_all add: decideGroup_def Let_def)

lemma fresh_head:
  assumes "fresh inp"
  shows "\<exists>a\<in>active inp. headRow inp = RepRow a \<and>
    (\<forall>b\<in>active inp. \<not> better (rank inp b) (rank inp a))"
proof -
  obtain h r isSeed via where f:
    "foldl (elect inp) (Seed inp, rank inp (Seed inp), True, zeroRelated) (Related inp) = (h, r, isSeed, via)"
    by (metis prod_cases4)
  note e = elect_fold [OF f]
  have c: "collectGroups inp = (Map.empty, [])"
    using assms by (simp add: collectGroups_def collect_ungrouped fresh_def)
  have "headRow inp = RepRow h"
    using assms f c e(3) by (auto simp: headRow_def decide_def fresh_def ownGroup_def zeroDecision_def
        split: prod.splits)
  moreover have "\<not> better (rank inp b) (rank inp h)" if "b \<in> active inp" for b
    using that rank_order.scanBest_least [of "rank inp b" "rank inp (Seed inp)" "map (rank inp) (Related inp)"]
    by (auto simp: active_def e(1,2) [symmetric])
  moreover have "h \<in> active inp" using e(5) by (simp add: active_def)
  ultimately show ?thesis by blast
qed

section \<open>Collecting the groups\<close>

text \<open>\<open>m\<close> heads the group it is in.\<close>

definition heads :: "relatedMember \<Rightarrow> bool" where
  "heads m \<longleftrightarrow> GroupHead m \<noteq> '''' \<and> GroupHead m \<in> set (Rows m)"

lemma updRank_eq:
  "updRank inp m g = (if GroupHead m \<in> set (Rows m)
     then g\<lparr>g_ranked := True, g_rank := rank inp m, g_headFP := Fingerprint m\<rparr> else g)"
proof -
  have "foldl (\<lambda>g row. if row = GroupHead m
        then g\<lparr>g_ranked := True, g_rank := rank inp m, g_headFP := Fingerprint m\<rparr> else g) g rows =
      (if GroupHead m \<in> set rows
       then g\<lparr>g_ranked := True, g_rank := rank inp m, g_headFP := Fingerprint m\<rparr> else g)" for rows
    by (induction rows arbitrary: g) auto
  then show ?thesis by (simp add: updRank_def)
qed

text \<open>What a collected group records of the members it was collected from.\<close>

definition group_ok :: "decideInput \<Rightarrow> relatedMember list \<Rightarrow> string \<Rightarrow> group \<Rightarrow> bool" where
  "group_ok inp ms h g \<longleftrightarrow> g_head g = h \<and> g_started g = map_get 0 (HeadStarts inp) h \<and>
     (g_ranked g \<longleftrightarrow> (\<exists>m\<in>set ms. heads m \<and> GroupHead m = h)) \<and>
     (g_ranked g \<longrightarrow> (\<exists>m\<in>set ms. heads m \<and> GroupHead m = h \<and>
        g_rank g = rank inp m \<and> g_headFP g = Fingerprint m)) \<and>
     (\<not> g_ranked g \<longrightarrow> g_headFP g = map_get '''' (HeadAlerts inp) h) \<and>
     g_hasVia g \<and> g_via g \<in> set ms \<and> GroupHead (g_via g) = h"

lemma collect_ok:
  assumes "foldl (collect inp) (Map.empty, []) ms = (groups, order)"
  shows "set order = {GroupHead m | m. m \<in> set ms \<and> GroupHead m \<noteq> ''''} \<and> dom groups = set order \<and>
    (\<forall>h\<in>set order. group_ok inp ms h (the (groups h)))"
  using assms
proof (induction ms arbitrary: groups order rule: rev_induct)
  case (snoc m ms)
  obtain gs ord where f: "foldl (collect inp) (Map.empty, []) ms = (gs, ord)" by force
  note IH = snoc.IH [OF f]
  have st: "collect inp (gs, ord) m = (groups, order)" using snoc.prems f by simp
  have mono: "group_ok inp (ms @ [m]) h g" if "group_ok inp ms h g" "GroupHead m \<noteq> h" for h g
    using that by (auto simp: group_ok_def)
  show ?case
  proof (cases "GroupHead m = ''''")
    case True
    with st have "groups = gs" "order = ord" by (simp_all add: collect_def)
    moreover have "\<forall>h\<in>set ord. group_ok inp (ms @ [m]) h (the (gs h))"
    proof
      fix h assume "h \<in> set ord"
      with IH have "group_ok inp ms h (the (gs h))" "h \<noteq> ''''" by auto
      with mono True show "group_ok inp (ms @ [m]) h (the (gs h))" by simp
    qed
    ultimately show ?thesis using IH True by auto
  next
    case False
    let ?h = "GroupHead m"
    define g where "g = (case gs ?h of Some g \<Rightarrow> g | None \<Rightarrow> newGroup inp ?h)"
    have new: "groups = gs(?h \<mapsto> updRank inp m (updVia m g))"
      "order = (if ?h \<in> set ord then ord else ord @ [?h])"
      using st False IH by (auto simp: collect_def g_def Let_def split: option.splits)
    have g: "g = newGroup inp ?h \<and> ?h \<notin> set ord \<or> group_ok inp ms ?h g"
    proof (cases "gs ?h")
      case None
      then have "?h \<notin> set ord" using IH by (metis domIff)
      with None show ?thesis by (simp add: g_def)
    next
      case (Some g')
      then have "?h \<in> set ord" using IH by (metis domI)
      with Some IH have "group_ok inp ms ?h (the (gs ?h))" by blast
      with Some show ?thesis by (simp add: g_def)
    qed
    have none: "\<not> (\<exists>m'\<in>set ms. heads m' \<and> GroupHead m' = ?h)" if "?h \<notin> set ord"
      using that IH False by auto
    have "group_ok inp (ms @ [m]) ?h (updRank inp m (updVia m g))"
      using g none False
      by (auto simp: group_ok_def updRank_eq updVia_def newGroup_def heads_def)
    moreover have "\<forall>h\<in>set ord. h \<noteq> ?h \<longrightarrow> group_ok inp (ms @ [m]) h (the (gs h))"
      using conjunct2 [OF conjunct2 [OF IH]] mono by simp
    ultimately have "\<forall>h\<in>set order. group_ok inp (ms @ [m]) h (the (groups h))"
      using new by auto
    moreover have "set order = insert ?h (set ord)" "dom groups = insert ?h (dom gs)" using new by auto
    ultimately show ?thesis using IH False by auto
  qed
qed simp

lemma fresh_outcome: "fresh inp \<Longrightarrow> gd_Outcome (decideGroup inp) \<noteq> outcomeNone"
  by (auto simp: decide_def fresh_def ownGroup_def zeroDecision_def collectGroups_def collect_ungrouped
      split: prod.splits)

text \<open>The seed's alert neither is placed nor heads one of the groups in sight, and some related
  alert is in a group.\<close>

definition joining :: "decideInput \<Rightarrow> bool" where
  "joining inp \<longleftrightarrow> OwnHead inp = '''' \<and> OwnLeads inp = '''' \<and>
     (\<exists>m\<in>set (Related inp). GroupHead m \<noteq> '''') \<and>
     (\<forall>m\<in>set (Related inp). GroupHead m \<noteq> '''' \<longrightarrow>
        map_get '''' (HeadAlerts inp) (GroupHead m) \<noteq> Fingerprint (Seed inp) \<and>
        Fingerprint m \<noteq> Fingerprint (Seed inp))"

lemma ownGroup_None:
  "\<forall>g\<in>set gs. g_headFP g \<noteq> Fingerprint (Seed inp) \<Longrightarrow> ownGroup inp gs = None"
proof -
  have "\<forall>g\<in>set gs. g_headFP g \<noteq> Fingerprint (Seed inp) \<Longrightarrow>
    foldl (\<lambda>own g. if g_headFP g \<noteq> Fingerprint (Seed inp) then own
        else case own of None \<Rightarrow> Some g | Some b \<Rightarrow> if earlier g b then Some g else own) x gs = x" for x
    by (induction gs) auto
  then show "\<forall>g\<in>set gs. g_headFP g \<noteq> Fingerprint (Seed inp) \<Longrightarrow> ownGroup inp gs = None"
    by (simp add: ownGroup_def)
qed

text \<open>The group whose head the decision is about.\<close>

lemma joining_best:
  assumes "joining inp" "collectGroups inp = (groups, order)"
  obtains best where "best \<in> (\<lambda>h. the (groups h)) ` set order"
    "\<forall>h\<in>set order. group_ok inp (Related inp) h (the (groups h))"
    "\<forall>h\<in>set order. \<not> betterGroup (the (groups h)) best"
    "gd_Outcome (decide inp) = (if TakeoverEnabled inp \<and> g_ranked best \<and>
       outranks (rank inp (Seed inp)) (g_rank best) then outcomeTakeOver else outcomeJoin)"
    "(if gd_Outcome (decide inp) = outcomeTakeOver then gd_MoveFrom (decide inp)
      else gd_HeadRow (decide inp)) = g_head best"
    "gd_Outcome (decide inp) = outcomeTakeOver \<longrightarrow> gd_HeadRow (decide inp) = RepRow (Seed inp)"
proof -
  note c = collect_ok [OF assms(2) [unfolded collectGroups_def]]
  let ?gs = "map (\<lambda>h. the (groups h)) order"
  have "order \<noteq> []" using assms(1) c by (fastforce simp: joining_def)
  then obtain g gs where gs: "?gs = g # gs" by (cases order) auto
  have "\<forall>g\<in>set ?gs. g_headFP g \<noteq> Fingerprint (Seed inp)"
  proof
    fix g assume "g \<in> set ?gs"
    then obtain h where h: "h \<in> set order" "group_ok inp (Related inp) h g" using c by auto
    then obtain m where "m \<in> set (Related inp)" "GroupHead m = h" "h \<noteq> ''''" using c by auto
    with h assms(1) show "g_headFP g \<noteq> Fingerprint (Seed inp)"
      by (cases "g_ranked g") (auto simp: group_ok_def joining_def)
  qed
  from ownGroup_None [OF this] have own: "ownGroup inp (g # gs) = None" by (simp add: gs)
  have rel: "Related inp \<noteq> []" "OwnHead inp = ''''" "OwnLeads inp = ''''"
    using assms(1) by (auto simp: joining_def)
  let ?best = "scanBest betterGroup g gs"
  have "insert g (set gs) = (\<lambda>h. the (groups h)) ` set order" using gs by (metis list.set(2) set_map)
  then have "?best \<in> (\<lambda>h. the (groups h)) ` set order"
    "\<forall>h\<in>set order. \<not> betterGroup (the (groups h)) ?best"
    using scanBest_in [of betterGroup g gs] group_order.scanBest_least [of _ g gs] by auto
  moreover have "gd_Outcome (decide inp) = (if TakeoverEnabled inp \<and> g_ranked ?best \<and>
       outranks (rank inp (Seed inp)) (g_rank ?best) then outcomeTakeOver else outcomeJoin)"
    "(if gd_Outcome (decide inp) = outcomeTakeOver then gd_MoveFrom (decide inp)
      else gd_HeadRow (decide inp)) = g_head ?best"
    "gd_Outcome (decide inp) = outcomeTakeOver \<longrightarrow> gd_HeadRow (decide inp) = RepRow (Seed inp)"
    using rel own assms(2) gs
    by (auto simp: decide_def Let_def zeroDecision_def split: prod.splits)
  ultimately show ?thesis using c that by blast
qed

text \<open>What it means for the members that no collected group is better than \<open>best\<close>.\<close>

lemma best_members:
  assumes ok: "\<forall>h\<in>set order. group_ok inp ms h (the (groups h))"
    and least: "\<forall>h\<in>set order. \<not> betterGroup (the (groups h)) best"
    and m: "m \<in> set ms" "GroupHead m \<in> set order"
  shows "heads m \<Longrightarrow> g_ranked best"
    and "heads m \<Longrightarrow> (\<And>m'. m' \<in> set ms \<Longrightarrow> heads m' \<Longrightarrow> GroupHead m' = GroupHead m \<Longrightarrow>
      rank inp m' = rank inp m) \<Longrightarrow> \<not> better (rank inp m) (g_rank best)"
    and "\<not> g_ranked best \<Longrightarrow> g_started best \<le> map_get 0 (HeadStarts inp) (GroupHead m)"
proof -
  let ?g = "the (groups (GroupHead m))"
  have g: "group_ok inp ms (GroupHead m) ?g" "\<not> betterGroup ?g best" using ok least m(2) by auto
  show rk: "g_ranked best" if "heads m"
    using g that m(1) by (auto simp: group_ok_def betterGroup_def split: if_splits)
  show "\<not> better (rank inp m) (g_rank best)" if "heads m"
    and same: "\<And>m'. m' \<in> set ms \<Longrightarrow> heads m' \<Longrightarrow> GroupHead m' = GroupHead m \<Longrightarrow> rank inp m' = rank inp m"
  proof -
    have r: "g_ranked ?g" using g(1) m(1) that(1) by (auto simp: group_ok_def)
    then obtain m' where "m' \<in> set ms" "heads m'" "GroupHead m' = GroupHead m" "g_rank ?g = rank inp m'"
      using g(1) by (auto simp: group_ok_def)
    then have "g_rank ?g = rank inp m" using same by simp
    with g(2) rk [OF that(1)] r show ?thesis by (auto simp: betterGroup_def)
  qed
  show "g_started best \<le> map_get 0 (HeadStarts inp) (GroupHead m)" if "\<not> g_ranked best"
    using g that by (auto simp: group_ok_def betterGroup_def earlier_def split: if_splits)
qed

text \<open>Three alerts, on which the properties are instantiated: the middle one is the one the others
  depend on.\<close>

definition exMember :: "string \<Rightarrow> instant \<Rightarrow> alertMember" where
  "exMember f t =
     \<lparr>Fingerprint = f, RepRow = f @ ''-row'', Rows = [f @ ''-row'', f @ ''-copy''], AggregationKey = '''',
      SubjectKey = f, ServiceKey = '''', Subject = f, Namespace = '''', StartsAt = t, Recent = True,
      Open = True\<rparr>"

definition exRelated :: "alertMember \<Rightarrow> string \<Rightarrow> relatedMember" where
  "exRelated a gh = alertMember.extend a (relatedMember.fields relConnected 1 gh)"

definition exDecide :: "alertMember \<Rightarrow> relatedMember list \<Rightarrow> decideInput" where
  "exDecide a rel =
     \<lparr>Seed = a, SeedKey = Subject a, OwnHead = '''', OwnLeads = '''', OwnRep = '''', Related = rel,
      HeadStarts = Map.empty, HeadAlerts = Map.empty, Noisy = Map.empty,
      DependedOnBy = [''db'' \<mapsto> 2], TakeoverEnabled = True, Node = ''''\<rparr>"

lemmas ex_defs = exMember_def exRelated_def exDecide_def alertMember.extend_def relatedMember.fields_def

lemma truncate_exRelated: "alertMember.truncate (exRelated a gh) = a"
  by (cases a) (simp add: exRelated_def alertMember.extend_def relatedMember.fields_def alertMember.truncate_def)

lemma exRelated_fields [simp]: "GroupHead (exRelated a gh) = gh" "Rows (exRelated a gh) = Rows a"
  by (simp_all add: exRelated_def alertMember.extend_def relatedMember.fields_def)

section \<open>The properties of grouping\<close>

lemma unbeaten:
  "\<not> better b a \<Longrightarrow> (noisy a \<longrightarrow> noisy b) \<and>
     (noisy a = noisy b \<longrightarrow> dependedOnBy b \<le> dependedOnBy a \<and> (dependedOnBy b = dependedOnBy a \<longrightarrow> rk_start a \<le> rk_start b))"
  by (auto simp: better_def split: if_splits)

text \<open>C11: the election agrees. Two alerts of the same active set, triaged in either order with the
  same noise and dependency counts, elect the same head row, whatever the order their related
  alerts are listed in: the row of the one alert of the set that no other ranks better than. That
  alert is noisy only if all are; of the alerts as noisy as it, none is depended on by more, and of
  those depended on by as many none started earlier.\<close>

theorem election_agrees:
  assumes "fresh i1" "fresh i2" "active i1 = active i2" "inj_on Fingerprint (active i1)"
    and "Noisy i1 = Noisy i2" "DependedOnBy i1 = DependedOnBy i2"
  shows "headRow i1 = headRow i2 \<and>
    (\<exists>!a. a \<in> active i1 \<and> (\<forall>b\<in>active i1. \<not> better (rank i1 b) (rank i1 a))) \<and>
    (\<exists>a\<in>active i1. headRow i1 = RepRow a \<and> (\<forall>b\<in>active i1. \<not> better (rank i1 b) (rank i1 a) \<and>
       (noisy (rank i1 a) \<longrightarrow> noisy (rank i1 b)) \<and>
       (noisy (rank i1 a) = noisy (rank i1 b) \<longrightarrow> dependedOnBy (rank i1 b) \<le> dependedOnBy (rank i1 a) \<and>
          (dependedOnBy (rank i1 b) = dependedOnBy (rank i1 a) \<longrightarrow> rk_start (rank i1 a) \<le> rk_start (rank i1 b)))))"
proof -
  have r: "rank i2 a = rank i1 a" for a :: alertMember using assms(5,6) by (simp add: rank_def)
  obtain a1 where a1: "a1 \<in> active i1" "headRow i1 = RepRow a1"
    "\<forall>b\<in>active i1. \<not> better (rank i1 b) (rank i1 a1)" using fresh_head [OF assms(1)] by blast
  obtain a2 where a2: "a2 \<in> active i1" "headRow i2 = RepRow a2"
    "\<forall>b\<in>active i1. \<not> better (rank i1 b) (rank i1 a2)"
    using fresh_head [OF assms(2)] assms(3) r by auto
  have uniq: "a = a1" if "a \<in> active i1" "\<forall>b\<in>active i1. \<not> better (rank i1 b) (rank i1 a)" for a
  proof -
    have "rank i1 a = rank i1 a1" using that a1 rank_order.total by blast
    then have "Fingerprint a = Fingerprint a1" by (simp add: rank_def)
    with that(1) a1(1) assms(4) show ?thesis by (simp add: inj_on_def)
  qed
  have "headRow i1 = headRow i2" using uniq [of a2] a1(2) a2 by simp
  moreover have "\<exists>!a. a \<in> active i1 \<and> (\<forall>b\<in>active i1. \<not> better (rank i1 b) (rank i1 a))"
    using a1(1,3) uniq by blast
  moreover have "\<forall>b\<in>active i1. \<not> better (rank i1 b) (rank i1 a1) \<and> (noisy (rank i1 a1) \<longrightarrow> noisy (rank i1 b)) \<and>
       (noisy (rank i1 a1) = noisy (rank i1 b) \<longrightarrow> dependedOnBy (rank i1 b) \<le> dependedOnBy (rank i1 a1) \<and>
          (dependedOnBy (rank i1 b) = dependedOnBy (rank i1 a1) \<longrightarrow> rk_start (rank i1 a1) \<le> rk_start (rank i1 b)))"
    using a1(3) unbeaten by blast
  ultimately show ?thesis using a1(1,2) by blast
qed

theorem election_agrees_witness:
  "headRow (exDecide (exMember ''api'' 1) [exRelated (exMember ''db'' 9) '''', exRelated (exMember ''web'' 2) ''''])
   = headRow (exDecide (exMember ''db'' 9) [exRelated (exMember ''web'' 2) '''', exRelated (exMember ''api'' 1) ''''])"
  (is "headRow ?i1 = headRow ?i2")
proof -
  have "active ?i1 = active ?i2" "inj_on Fingerprint (active ?i1)"
    by (auto simp: active_def truncate_exRelated exDecide_def exMember_def)
  moreover have "fresh ?i1" "fresh ?i2" by (simp_all add: fresh_def ex_defs)
  ultimately show ?thesis using election_agrees [of ?i1 ?i2] by (simp add: exDecide_def)
qed

text \<open>What the ranks compare.\<close>

lemma not_better_iff:
  "\<not> better a b \<longleftrightarrow> (noisy b \<longrightarrow> noisy a) \<and> (noisy a = noisy b \<longrightarrow> dependedOnBy a \<le> dependedOnBy b \<and>
     (dependedOnBy a = dependedOnBy b \<longrightarrow> rk_start b \<le> rk_start a \<and>
        (rk_start a = rk_start b \<longrightarrow> rk_fingerprint b \<le> rk_fingerprint a)))"
  by (auto simp: better_def)

lemma outranks_iff:
  "outranks a b \<longleftrightarrow> \<not> noisy a \<and> noisy b \<or> noisy a = noisy b \<and> dependedOnBy b < dependedOnBy a"
  by (auto simp: outranks_def)

text \<open>C32: joining and taking over. When related alerts are already in groups (none headed by the
  seed's own alert), the seed is filed under an existing head or takes its place. If some of the
  related alerts head their groups, the head chosen is one of those, and no other of them is better:
  quieter, or as quiet and depended on by more, or also that and started earlier (or at the same time
  with a smaller fingerprint). The seed takes its place exactly if takeover is enabled and the seed
  is quiet where the head is noisy, or as quiet and depended on by strictly more; a tie, or an earlier
  start alone, does not move the group. If no related alert heads its group, the seed joins the group
  whose head started first.\<close>

theorem join_or_take_over:
  assumes "joining inp"
    and "\<And>m m'. m \<in> set (Related inp) \<Longrightarrow> m' \<in> set (Related inp) \<Longrightarrow> heads m \<Longrightarrow> heads m' \<Longrightarrow>
      GroupHead m = GroupHead m' \<Longrightarrow> rank inp m = rank inp m'"
  defines "taken \<equiv> gd_Outcome (decideGroup inp) = outcomeTakeOver"
  defines "target \<equiv> (if taken then gd_MoveFrom (decideGroup inp) else gd_HeadRow (decideGroup inp))"
  defines "noisyIn \<equiv> \<lambda>m :: relatedMember. map_get False (Noisy inp) (Fingerprint m)"
    and "dependents \<equiv> \<lambda>m :: relatedMember. map_get 0 (DependedOnBy inp) (Fingerprint m)"
  shows "gd_Outcome (decideGroup inp) \<in> {outcomeJoin, outcomeTakeOver} \<and>
    (taken \<longrightarrow> gd_HeadRow (decideGroup inp) = RepRow (Seed inp)) \<and>
    (if \<exists>m\<in>set (Related inp). heads m
     then \<exists>m\<in>set (Related inp). heads m \<and> GroupHead m = target \<and>
       (\<forall>m'\<in>set (Related inp). heads m' \<longrightarrow>
          (noisyIn m \<longrightarrow> noisyIn m') \<and> (noisyIn m' = noisyIn m \<longrightarrow> dependents m' \<le> dependents m \<and>
             (dependents m' = dependents m \<longrightarrow> StartsAt m \<le> StartsAt m' \<and>
                (StartsAt m' = StartsAt m \<longrightarrow> Fingerprint m \<le> Fingerprint m')))) \<and>
       (taken \<longleftrightarrow> TakeoverEnabled inp \<and>
          (\<not> map_get False (Noisy inp) (Fingerprint (Seed inp)) \<and> noisyIn m \<or>
           map_get False (Noisy inp) (Fingerprint (Seed inp)) = noisyIn m \<and>
           dependents m < map_get 0 (DependedOnBy inp) (Fingerprint (Seed inp))))
     else \<not> taken \<and> (\<exists>m\<in>set (Related inp). GroupHead m = target \<and> target \<noteq> '''') \<and>
       (\<forall>m\<in>set (Related inp). GroupHead m \<noteq> '''' \<longrightarrow>
          map_get 0 (HeadStarts inp) target \<le> map_get 0 (HeadStarts inp) (GroupHead m)))"
proof -
  obtain groups order where c: "collectGroups inp = (groups, order)" by force
  note ord = collect_ok [OF c [unfolded collectGroups_def]]
  obtain best where best: "best \<in> (\<lambda>h. the (groups h)) ` set order"
    and ok: "\<forall>h\<in>set order. group_ok inp (Related inp) h (the (groups h))"
    and least: "\<forall>h\<in>set order. \<not> betterGroup (the (groups h)) best"
    and out: "gd_Outcome (decide inp) = (if TakeoverEnabled inp \<and> g_ranked best \<and>
       outranks (rank inp (Seed inp)) (g_rank best) then outcomeTakeOver else outcomeJoin)"
    and tgt: "(if gd_Outcome (decide inp) = outcomeTakeOver then gd_MoveFrom (decide inp)
      else gd_HeadRow (decide inp)) = g_head best"
    and tk: "gd_Outcome (decide inp) = outcomeTakeOver \<longrightarrow> gd_HeadRow (decide inp) = RepRow (Seed inp)"
    by (rule joining_best [OF assms(1) c])
  from best obtain h where h: "h \<in> set order" and bok: "group_ok inp (Related inp) h best"
    using ok by auto
  then have target: "target = h" and start: "g_started best = map_get 0 (HeadStarts inp) h"
    using tgt by (simp_all add: target_def taken_def group_ok_def split: if_splits)
  have inord: "GroupHead m \<in> set order" if "m \<in> set (Related inp)" "GroupHead m \<noteq> ''''" for m
    using that ord by auto
  note bm = best_members [OF ok least]
  have out': "gd_Outcome (decideGroup inp) \<in> {outcomeJoin, outcomeTakeOver} \<and>
    (taken \<longrightarrow> gd_HeadRow (decideGroup inp) = RepRow (Seed inp))" using out tk by (simp add: taken_def)
  have flds: "noisy (rank inp m) = noisyIn m" "dependedOnBy (rank inp m) = dependents m" "rk_start (rank inp m) = StartsAt m"
    "rk_fingerprint (rank inp m) = Fingerprint m" for m :: relatedMember
    by (simp_all add: rank_def noisyIn_def dependents_def)
  have seed: "noisy (rank inp (Seed inp)) = map_get False (Noisy inp) (Fingerprint (Seed inp))"
    "dependedOnBy (rank inp (Seed inp)) = map_get 0 (DependedOnBy inp) (Fingerprint (Seed inp))"
    by (simp_all add: rank_def)
  show ?thesis
  proof (cases "g_ranked best")
    case True
    then obtain m where m: "m \<in> set (Related inp)" "heads m" "GroupHead m = h"
      "g_rank best = rank inp m" using bok by (auto simp: group_ok_def)
    have "\<not> better (rank inp m') (rank inp m)" if m': "m' \<in> set (Related inp)" "heads m'" for m'
    proof -
      have "GroupHead m' \<noteq> ''''" using m'(2) by (simp add: heads_def)
      from bm(2) [OF m'(1) inord [OF m'(1) this] m'(2)] assms(2) [OF _ m'(1) _ m'(2)] m(4)
      show ?thesis by simp
    qed
    then have best: "\<forall>m'\<in>set (Related inp). heads m' \<longrightarrow>
          (noisyIn m \<longrightarrow> noisyIn m') \<and> (noisyIn m' = noisyIn m \<longrightarrow> dependents m' \<le> dependents m \<and>
             (dependents m' = dependents m \<longrightarrow> StartsAt m \<le> StartsAt m' \<and>
                (StartsAt m' = StartsAt m \<longrightarrow> Fingerprint m \<le> Fingerprint m')))"
      unfolding not_better_iff flds by blast
    have "taken \<longleftrightarrow> TakeoverEnabled inp \<and> outranks (rank inp (Seed inp)) (rank inp m)"
      using True m(4) out by (simp add: taken_def)
    then have "taken \<longleftrightarrow> TakeoverEnabled inp \<and>
          (\<not> map_get False (Noisy inp) (Fingerprint (Seed inp)) \<and> noisyIn m \<or>
           map_get False (Noisy inp) (Fingerprint (Seed inp)) = noisyIn m \<and>
           dependents m < map_get 0 (DependedOnBy inp) (Fingerprint (Seed inp)))"
      unfolding outranks_iff flds seed .
    moreover have "\<exists>m\<in>set (Related inp). heads m" using m by blast
    moreover have "GroupHead m = target" using m(3) target by simp
    ultimately show ?thesis using out' m(1,2) best by (simp only: if_True) blast
  next
    case False
    then have none: "\<not> (\<exists>m\<in>set (Related inp). heads m)"
      using bm(1) inord by (auto simp: heads_def)
    moreover have "\<not> taken" using False out by (simp add: taken_def)
    moreover have "\<exists>m\<in>set (Related inp). GroupHead m = target \<and> target \<noteq> ''''"
      using h ord target by auto
    ultimately show ?thesis using out' bm(3) [OF _ inord False] start target by simp
  qed
qed

theorem join_or_take_over_witness:
  "gd_Outcome (decideGroup (exDecide (exMember ''db'' 9) [exRelated (exMember ''api'' 1) ''api-row'']))
     = outcomeTakeOver"
  using join_or_take_over [of "exDecide (exMember ''db'' 9) [exRelated (exMember ''api'' 1) ''api-row'']"]
  by (simp add: joining_def heads_def ex_defs rank_def)

text \<open>the alerts that come along. A decision with an outcome files exactly the rows of the
  related alerts that are in no group, apart from the head row itself, which is never linked
  to itself; alerts already in a group are left where they are.\<close>

theorem bring_exactly_ungrouped:
  assumes "gd_Outcome (decideGroup inp) \<noteq> outcomeNone"
  shows "br_Row ` set (gd_Bring (decideGroup inp)) =
    (\<Union>m\<in>{m \<in> set (Related inp). GroupHead m = ''''}. set (Rows m)) - {headRow inp}"
proof -
  have "gd_Bring (decide inp) = []"
    by (simp add: decide_def zeroDecision_def Let_def split: prod.splits option.splits list.splits)
  then show ?thesis
    using assms by (auto simp: decideGroup_def headRow_def bringRows_def Let_def image_iff split: if_splits)
qed

theorem bring_exactly_ungrouped_witness:
  "br_Row ` set (gd_Bring (decideGroup
     (exDecide (exMember ''api'' 1) [exRelated (exMember ''db'' 9) '''', exRelated (exMember ''web'' 2) '''']))) =
   {''db-copy'', ''web-row'', ''web-copy''}"
proof -
  define inp where "inp =
    exDecide (exMember ''api'' 1) [exRelated (exMember ''db'' 9) '''', exRelated (exMember ''web'' 2) '''']"
  have f: "fresh inp" by (simp add: inp_def fresh_def ex_defs)
  obtain a where a: "a \<in> active inp" "headRow inp = RepRow a"
    "\<forall>b\<in>active inp. \<not> better (rank inp b) (rank inp a)" using fresh_head [OF f] by blast
  have act: "active inp = {exMember ''api'' 1, exMember ''db'' 9, exMember ''web'' 2}"
    by (simp add: inp_def active_def truncate_exRelated exDecide_def)
  have "better (rank inp (exMember ''db'' 9)) (rank inp (exMember ''api'' 1))"
    "better (rank inp (exMember ''db'' 9)) (rank inp (exMember ''web'' 2))"
    by (simp_all add: inp_def better_def rank_def exMember_def exDecide_def)
  with a(1,3) have "a = exMember ''db'' 9" unfolding act by blast
  then have "headRow inp = ''db-row''" using a(2) by (simp add: exMember_def)
  moreover have "(\<Union>m\<in>{m \<in> set (Related inp). GroupHead m = ''''}. set (Rows m)) =
      {''db-row'', ''db-copy'', ''web-row'', ''web-copy''}"
  proof -
    have "{m \<in> set (Related inp). GroupHead m = ''''} =
        {exRelated (exMember ''db'' 9) '''', exRelated (exMember ''web'' 2) ''''}"
      by (auto simp: inp_def exDecide_def)
    then show ?thesis by (simp add: exMember_def insert_commute)
  qed
  ultimately have "br_Row ` set (gd_Bring (decideGroup inp)) = {''db-copy'', ''web-row'', ''web-copy''}"
    using bring_exactly_ungrouped [OF fresh_outcome [OF f]] by auto
  then show ?thesis by (simp only: inp_def)
qed

end
