(* ===== verification/GoAny.thy ===== *)
theory GoAny
  imports Prelude "HOL-Library.AList"
begin

text \<open>
  Values of Go's \<open>any\<close> as the components store and read them: what \<open>encoding/json\<close> decodes into, and
  what is put into a \<open>map[string]any\<close>. An object is an association list, looked up with \<open>map_of\<close>
  and written with \<open>AList.update\<close>. A type assertion with the comma-ok form is an option.
\<close>

datatype any =
    ANil
  | ABool bool
  | AInt int
  | AFloat rat
  | AStr string
  | AArr "any list"
  | AObj "(string \<times> any) list"

type_synonym object = "(string \<times> any) list"

fun asStr :: "any \<Rightarrow> string option" where
  "asStr (AStr s) = Some s"
| "asStr _ = None"

fun asFloat :: "any \<Rightarrow> rat option" where
  "asFloat (AFloat x) = Some x"
| "asFloat _ = None"

fun asObj :: "any \<Rightarrow> object option" where
  "asObj (AObj m) = Some m"
| "asObj _ = None"

text \<open>\<open>v, ok := m[k].(T)\<close>: absent keys read as nil, on which the assertion fails.\<close>

definition getStr :: "object \<Rightarrow> string \<Rightarrow> string option" where
  "getStr m k = Option.bind (map_of m k) asStr"

definition getFloat :: "object \<Rightarrow> string \<Rightarrow> rat option" where
  "getFloat m k = Option.bind (map_of m k) asFloat"

definition getObj :: "object \<Rightarrow> string \<Rightarrow> object option" where
  "getObj m k = Option.bind (map_of m k) asObj"

definition setKey :: "string \<Rightarrow> any \<Rightarrow> object \<Rightarrow> object" where
  "setKey k v m = AList.update k v m"

lemma map_of_setKey [simp]: "map_of (setKey k v m) = (map_of m)(k \<mapsto> v)"
  by (simp add: setKey_def update_conv')

lemma getStr_setKey [simp]:
  "getStr (setKey k v m) k' = (if k' = k then asStr v else getStr m k')"
  by (simp add: getStr_def)

text \<open>\<open>models.Json\<close>: a decoded column, either an array or an object.\<close>

record ModelsJson =
  js_isArray :: bool
  js_array :: "any list"
  js_object :: any

end
