(* ===== verification/TriageRules.thy ===== *)
theory TriageRules
  imports GoStrings GoAny GoTime
begin

text \<open>
  Triage rules (\<open>api-server/services/triage/rules.go\<close>, \<open>mute.go\<close> and the rule types of \<open>models.go\<close>): loading the
  rules of an account through the process-wide cache, matching an event against a rule and
  combining the matching rules into one result.

  Pointers are options. The regular expression engine and the JSON decoders are arguments,
  collected in the record \<open>Lib\<close>; so are the answers of the database, with what the query promises
  as a predicate. The match counters and the drill-down records are written for reporting only
  and are the list of matches of the result. Calls on the rule cache are atomic here: in the code a
  load queries outside the lock, so a load that overlaps an invalidation may store what it read
  before it, until the entry expires.
\<close>

section \<open>Events and rules\<close>

record Event =
  ev_Id :: string
  ev_Tenant :: "string option"
  ev_CloudAccountId :: "string option"
  ev_Fingerprint :: "string option"
  ev_AggregationKey :: "string option"
  ev_SubjectNamespace :: "string option"
  ev_SubjectOwner :: "string option"
  ev_SubjectName :: "string option"
  ev_Source :: "string option"
  ev_Priority :: "string option"
  ev_FindingType :: "string option"
  ev_Labels :: "ModelsJson option"
  ev_Evidences :: "ModelsJson option"

definition NBStatusSuppressed :: string where "NBStatusSuppressed = ''SUPPRESSED''"
definition NBStatusDropped :: string where "NBStatusDropped = ''DROPPED''"
definition NBStatusDuplicate :: string where "NBStatusDuplicate = ''DUPLICATE''"

definition ClassificationFalsePositive :: string where "ClassificationFalsePositive = ''false_positive''"
definition ClassificationDuplicate :: string where "ClassificationDuplicate = ''duplicate''"

definition RuleTypeSuppression :: string where "RuleTypeSuppression = ''suppression''"
definition RuleTypeScoring :: string where "RuleTypeScoring = ''scoring''"
definition RuleTypeClassification :: string where "RuleTypeClassification = ''classification''"
definition RuleTypePriorityPin :: string where "RuleTypePriorityPin = ''priority_pin''"

lemmas ruleType_defs =
  RuleTypeSuppression_def RuleTypeScoring_def RuleTypeClassification_def RuleTypePriorityPin_def

definition ActionDrop :: string where "ActionDrop = ''drop''"
definition ActionAdjustScore :: string where "ActionAdjustScore = ''adjust_score''"
definition ActionAutoClassifyFP :: string where "ActionAutoClassifyFP = ''auto_classify_fp''"

definition MuteMarkerKey :: string where "MuteMarkerKey = ''mute_event_rule_id''"
definition MuteScopeKey :: string where "MuteScopeKey = ''mute_scope''"

record TriageRule =
  tr_ID :: string
  tr_TenantID :: "string option"
  tr_AccountID :: "string option"
  tr_RuleType :: string
  MatchSource :: "string option"
  MatchAlertname :: "string option"
  MatchNamespace :: "string option"
  MatchService :: "string option"
  MatchFingerprint :: "string option"
  MatchLabels :: "string option"
  MatchPriority :: "string option"
  MatchFindingType :: "string option"
  MatchOccurrenceGreaterThan :: "int option"
  tr_Action :: string
  tr_ActionValue :: "string option"
  tr_Priority :: int
  tr_Enabled :: bool
  tr_CreatedAt :: instant
  tr_IsSystemRule :: bool
  tr_IsOverridden :: bool

record ActionValueData =
  av_Adjustment :: "int option"
  av_Reason :: "string option"
  av_LinkedEventID :: "string option"
  av_Classification :: "string option"
  av_ReasonCode :: "string option"
  av_Priority :: "string option"

record SuppressionResult =
  su_Action :: string
  su_NewStatus :: string
  su_Muted :: bool

record ScoreAdjustment =
  sa_Adjustment :: int
  sa_Reason :: string

record AutoClassification =
  ac_Classification :: string
  ac_LinkedEventID :: "string option"
  ac_ReasonCode :: string
  ac_NewStatus :: string
  ac_RuleID :: "string option"

record TriageRuleResult =
  rr_RuleID :: string
  rr_RuleType :: string
  rr_Action :: string
  rr_Suppression :: "SuppressionResult option"
  rr_ScoreAdjustment :: "ScoreAdjustment option"
  rr_AutoClassification :: "AutoClassification option"

text \<open>\<open>regexp.Compile\<close> (\<open>None\<close> on an invalid pattern), the JSON decoders and \<open>fmt.Sprintf("%v")\<close>.\<close>

record Lib =
  lib_compile :: "string \<Rightarrow> (string \<Rightarrow> bool) option"
  lib_decodeObject :: "string \<Rightarrow> object option"
  lib_decodeAction :: "string \<Rightarrow> ActionValueData option"
  lib_sprint :: "any \<Rightarrow> string"

section \<open>Matching an event against a rule\<close>

text \<open>The pattern cache: a compiled pattern, or nil for one that does not compile.\<close>

type_synonym regexCache = "string \<rightharpoonup> (string \<Rightarrow> bool) option"

definition matchesRegex :: "Lib \<Rightarrow> regexCache \<Rightarrow> string \<Rightarrow> string \<Rightarrow> regexCache \<times> bool" where
  "matchesRegex lib cache v pattern =
     (case cache pattern of
        Some re \<Rightarrow> (cache, case re of None \<Rightarrow> False | Some f \<Rightarrow> f v)
      | None \<Rightarrow>
          let re = lib_compile lib pattern
          in (cache(pattern \<mapsto> re), case re of None \<Rightarrow> False | Some f \<Rightarrow> f v))"

text \<open>What the cached matcher computes, whatever the cache holds of earlier calls.\<close>

definition regexMatch :: "Lib \<Rightarrow> string \<Rightarrow> string \<Rightarrow> bool" where
  "regexMatch lib v pattern = (case lib_compile lib pattern of None \<Rightarrow> False | Some f \<Rightarrow> f v)"

definition matchesLabels :: "Lib \<Rightarrow> ModelsJson option \<Rightarrow> string \<Rightarrow> bool" where
  "matchesLabels lib eventLabels ruleLabels =
     (case eventLabels of
        None \<Rightarrow> False
      | Some j \<Rightarrow>
          (case lib_decodeObject lib ruleLabels of
             None \<Rightarrow> False
           | Some ruleLabelMap \<Rightarrow>
               (case asObj (js_object j) of
                  None \<Rightarrow> False
                | Some eventLabelMap \<Rightarrow>
                    list_all (\<lambda>(k, v).
                      case map_of eventLabelMap k of
                        None \<Rightarrow> False
                      | Some w \<Rightarrow> lib_sprint lib w = lib_sprint lib v) ruleLabelMap)))"

text \<open>One criterion: absent or empty matches everything.\<close>

definition criterion :: "(string \<Rightarrow> string \<Rightarrow> bool) \<Rightarrow> string option \<Rightarrow> string option \<Rightarrow> bool" where
  "criterion test fld want =
     (case want of
        None \<Rightarrow> True
      | Some w \<Rightarrow> w = '''' \<or> (case fld of None \<Rightarrow> False | Some v \<Rightarrow> test v w))"

definition MatchesRuleWithOccurrence :: "Lib \<Rightarrow> Event \<Rightarrow> TriageRule \<Rightarrow> int \<Rightarrow> bool" where
  "MatchesRuleWithOccurrence lib event rule occurrenceNumber =
     (if (case MatchOccurrenceGreaterThan rule of None \<Rightarrow> False | Some n \<Rightarrow> occurrenceNumber \<le> n) then False
      else if \<not> criterion (=) (ev_Fingerprint event) (MatchFingerprint rule) then False
      else if \<not> criterion (regexMatch lib) (ev_AggregationKey event) (MatchAlertname rule) then False
      else if \<not> criterion (=) (ev_SubjectNamespace event) (MatchNamespace rule) then False
      else if \<not> criterion (regexMatch lib) (ev_SubjectOwner event) (MatchService rule) then False
      else if \<not> criterion (=) (ev_Source event) (MatchSource rule) then False
      else if \<not> criterion (=) (ev_Priority event) (MatchPriority rule) then False
      else if \<not> criterion (=) (ev_FindingType event) (MatchFindingType rule) then False
      else (case MatchLabels rule of
              None \<Rightarrow> True
            | Some w \<Rightarrow> w = '''' \<or> matchesLabels lib (ev_Labels event) w))"

section \<open>Applying a rule\<close>

text \<open>\<open>ParseActionValue\<close>: an error, nil for an absent or empty value, or the decoded data.\<close>

definition ParseActionValue :: "Lib \<Rightarrow> string option \<Rightarrow> ActionValueData option result" where
  "ParseActionValue lib v =
     (case v of
        None \<Rightarrow> Inr None
      | Some s \<Rightarrow>
          if s = '''' then Inr None
          else case lib_decodeAction lib s of None \<Rightarrow> Inl ''json'' | Some d \<Rightarrow> Inr (Some d))"

definition isMuteRule :: "Lib \<Rightarrow> TriageRule \<Rightarrow> bool" where
  "isMuteRule lib rule =
     (case tr_ActionValue rule of
        None \<Rightarrow> False
      | Some s \<Rightarrow>
          s \<noteq> '''' \<and>
          (case lib_decodeObject lib s of
             None \<Rightarrow> False
           | Some v \<Rightarrow> map_of v MuteMarkerKey \<noteq> None \<or> map_of v MuteScopeKey \<noteq> None))"

definition applySuppressionRule :: "Lib \<Rightarrow> TriageRule \<Rightarrow> SuppressionResult" where
  "applySuppressionRule lib rule =
     \<lparr>su_Action = tr_Action rule,
      su_NewStatus = (if tr_Action rule = ActionDrop then NBStatusDropped else NBStatusSuppressed),
      su_Muted = isMuteRule lib rule\<rparr>"

definition applyScoringRule :: "Lib \<Rightarrow> TriageRule \<Rightarrow> ScoreAdjustment" where
  "applyScoringRule lib rule =
     (case tr_ActionValue rule of
        None \<Rightarrow> \<lparr>sa_Adjustment = 0, sa_Reason = ''''\<rparr>
      | Some v \<Rightarrow>
          (case ParseActionValue lib (Some v) of
             Inr (Some d) \<Rightarrow>
               \<lparr>sa_Adjustment = (case av_Adjustment d of None \<Rightarrow> 0 | Some a \<Rightarrow> a),
                sa_Reason = (case av_Reason d of None \<Rightarrow> '''' | Some r \<Rightarrow> r)\<rparr>
           | _ \<Rightarrow> \<lparr>sa_Adjustment = 0, sa_Reason = ''''\<rparr>))"

definition applyClassificationRule :: "Lib \<Rightarrow> TriageRule \<Rightarrow> AutoClassification" where
  "applyClassificationRule lib rule =
     (let (classification, linkedEventID, reasonCode) =
        (case tr_ActionValue rule of
           None \<Rightarrow> (ClassificationDuplicate, None, ''duplicate_incident'')
         | Some v \<Rightarrow>
             (case ParseActionValue lib (Some v) of
                Inr (Some d) \<Rightarrow>
                  (case av_Classification d of None \<Rightarrow> ClassificationDuplicate | Some c \<Rightarrow> c,
                   av_LinkedEventID d,
                   case av_ReasonCode d of None \<Rightarrow> ''duplicate_incident'' | Some r \<Rightarrow> r)
              | _ \<Rightarrow> (ClassificationDuplicate, None, ''duplicate_incident'')));
        (newStatus, classification) =
          (if tr_Action rule = ActionAutoClassifyFP then (NBStatusSuppressed, ClassificationFalsePositive)
           else (NBStatusDuplicate, classification))
      in \<lparr>ac_Classification = classification, ac_LinkedEventID = linkedEventID, ac_ReasonCode = reasonCode,
          ac_NewStatus = newStatus, ac_RuleID = Some (tr_ID rule)\<rparr>)"

section \<open>Evaluating the rules of an event\<close>

record evaluation =
  suppressionResult :: "SuppressionResult option"
  scoreAdjustment :: "ScoreAdjustment option"
  autoClassification :: "AutoClassification option"
  suppressionRuleID :: string
  scoringRuleID :: string
  classificationRuleID :: string
  matched :: "(string \<times> string \<times> string) list"

definition startEvaluation :: evaluation where
  "startEvaluation =
     \<lparr>suppressionResult = None, scoreAdjustment = None, autoClassification = None,
      suppressionRuleID = '''', scoringRuleID = '''', classificationRuleID = '''', matched = []\<rparr>"

definition pendingMatch :: "TriageRule \<Rightarrow> string \<times> string \<times> string" where
  "pendingMatch rule = (tr_ID rule, tr_RuleType rule, tr_Action rule)"

definition evalRule :: "Lib \<Rightarrow> Event \<Rightarrow> int \<Rightarrow> evaluation \<Rightarrow> TriageRule \<Rightarrow> evaluation" where
  "evalRule lib event occ e rule =
     (if \<not> MatchesRuleWithOccurrence lib event rule occ then e
      else if tr_RuleType rule = RuleTypeSuppression then
        (case suppressionResult e of
           None \<Rightarrow>
             e\<lparr>suppressionResult := Some (applySuppressionRule lib rule), suppressionRuleID := tr_ID rule,
               matched := matched e @ [pendingMatch rule]\<rparr>
         | Some _ \<Rightarrow> e)
      else if tr_RuleType rule = RuleTypeScoring then
        (let adj = applyScoringRule lib rule;
             e = (case scoreAdjustment e of
                    None \<Rightarrow> e\<lparr>scoreAdjustment := Some adj, scoringRuleID := tr_ID rule\<rparr>
                  | Some a \<Rightarrow>
                      e\<lparr>scoreAdjustment := Some (a\<lparr>sa_Adjustment := sa_Adjustment a + sa_Adjustment adj\<rparr>)\<rparr>)
         in e\<lparr>matched := matched e @ [pendingMatch rule]\<rparr>)
      else if tr_RuleType rule = RuleTypeClassification then
        (case autoClassification e of
           None \<Rightarrow>
             e\<lparr>autoClassification := Some (applyClassificationRule lib rule), classificationRuleID := tr_ID rule,
               matched := matched e @ [pendingMatch rule]\<rparr>
         | Some _ \<Rightarrow> e)
      else e)"

definition buildResult :: "evaluation \<Rightarrow> TriageRuleResult option" where
  "buildResult e =
     (if suppressionResult e = None \<and> scoreAdjustment e = None \<and> autoClassification e = None then None
      else
        let (rid, rtype, act) =
          (case suppressionResult e of
             Some s \<Rightarrow> (suppressionRuleID e, RuleTypeSuppression, su_Action s)
           | None \<Rightarrow>
               (case autoClassification e of
                  Some c \<Rightarrow> (classificationRuleID e, RuleTypeClassification, ac_Classification c)
                | None \<Rightarrow> (scoringRuleID e, RuleTypeScoring, ActionAdjustScore)))
        in Some \<lparr>rr_RuleID = rid, rr_RuleType = rtype, rr_Action = act,
             rr_Suppression = suppressionResult e, rr_ScoreAdjustment = scoreAdjustment e,
             rr_AutoClassification = autoClassification e\<rparr>)"

text \<open>\<open>CheckTriageRules\<close>, given the answer of \<open>LoadMatchingRules\<close>.\<close>

definition CheckTriageRules ::
  "Lib \<Rightarrow> (string \<Rightarrow> string \<Rightarrow> TriageRule list result) \<Rightarrow> Event \<Rightarrow> int \<Rightarrow> TriageRuleResult option result" where
  "CheckTriageRules lib load event occ =
     (case (ev_CloudAccountId event, ev_Tenant event) of
        (Some account, Some tenant) \<Rightarrow>
          (case load tenant account of
             Inl err \<Rightarrow> Inl err
           | Inr rules \<Rightarrow>
               if rules = [] then Inr None
               else Inr (buildResult (foldl (evalRule lib event occ) startEvaluation rules)))
      | _ \<Rightarrow> Inr None)"

definition GetScoreAdjustmentFromRules :: "TriageRuleResult option \<Rightarrow> int" where
  "GetScoreAdjustmentFromRules r =
     (case r of None \<Rightarrow> 0
      | Some r \<Rightarrow> (case rr_ScoreAdjustment r of None \<Rightarrow> 0 | Some a \<Rightarrow> sa_Adjustment a))"

section \<open>Loading the rules of an account\<close>

record triageRulesCacheEntry =
  ce_rules :: "TriageRule list"
  ce_expiresAt :: instant

type_synonym triageRulesCache = "string \<rightharpoonup> triageRulesCacheEntry"

definition triageRulesTTL :: duration where "triageRulesTTL = 60 * Second"

definition ClearTriageRulesCache :: "triageRulesCache \<Rightarrow> triageRulesCache" where
  "ClearTriageRulesCache cache = Map.empty"

text \<open>\<open>getAccountOverrides\<close>: a later row of the same system rule overwrites an earlier one.\<close>

definition getAccountOverrides :: "(string \<times> bool) list result \<Rightarrow> (string \<rightharpoonup> bool) result" where
  "getAccountOverrides answer =
     (case answer of Inl err \<Rightarrow> Inl err
      | Inr rows \<Rightarrow> Inr (foldl (\<lambda>m (k, v). m(k \<mapsto> v)) Map.empty rows))"

text \<open>
  A call of \<open>LoadMatchingRules\<close>: its arguments, the instants it reads the clock at for the lookup and
  for the store, and the answers the two queries give when they are asked.
\<close>

record LoadCall =
  lc_tenantID :: string
  lc_accountID :: string
  lc_now :: instant
  lc_storedAt :: instant
  lc_overrides :: "(string \<times> bool) list result"
  lc_rows :: "TriageRule list result"

definition cacheKey :: "LoadCall \<Rightarrow> string" where
  "cacheKey c = lc_tenantID c @ '':'' @ lc_accountID c"

definition filterOverridden :: "(string \<rightharpoonup> bool) \<Rightarrow> TriageRule list \<Rightarrow> TriageRule list" where
  "filterOverridden overrides rules =
     concat (map (\<lambda>r.
       let r = r\<lparr>tr_IsSystemRule := (tr_TenantID r = None \<and> tr_AccountID r = None)\<rparr>
       in if tr_IsSystemRule r \<and> overrides (tr_ID r) = Some True then [] else [r]) rules)"

definition LoadMatchingRules ::
  "LoadCall \<Rightarrow> triageRulesCache \<Rightarrow> triageRulesCache \<times> TriageRule list result" where
  "LoadMatchingRules c cache =
     (if lc_tenantID c = '''' then (cache, Inl ''tenant ID cannot be empty'')
      else
        let fetch =
          (let overrides = (case getAccountOverrides (lc_overrides c) of Inl err \<Rightarrow> Map.empty | Inr m \<Rightarrow> m)
           in case lc_rows c of
                Inl err \<Rightarrow> (cache, Inl err)
              | Inr rules \<Rightarrow>
                  let filtered = filterOverridden overrides rules
                  in (cache(cacheKey c \<mapsto>
                        \<lparr>ce_rules = filtered, ce_expiresAt = lc_storedAt c + triageRulesTTL\<rparr>),
                      Inr filtered))
        in case cache (cacheKey c) of
             Some entry \<Rightarrow> if lc_now c < ce_expiresAt entry then (cache, Inr (ce_rules entry)) else fetch
           | None \<Rightarrow> fetch)"

section \<open>Matching\<close>

definition regexCacheOK :: "Lib \<Rightarrow> regexCache \<Rightarrow> bool" where
  "regexCacheOK lib cache \<longleftrightarrow> (\<forall>p re. cache p = Some re \<longrightarrow> re = lib_compile lib p)"

lemma matchesRegex_correct:
  "regexCacheOK lib cache \<Longrightarrow>
     snd (matchesRegex lib cache v p) = regexMatch lib v p \<and>
     regexCacheOK lib (fst (matchesRegex lib cache v p))"
  by (auto simp: regexCacheOK_def matchesRegex_def regexMatch_def Let_def split: option.splits)

section \<open>What evaluation computes\<close>

definition matching :: "Lib \<Rightarrow> Event \<Rightarrow> int \<Rightarrow> string \<Rightarrow> TriageRule list \<Rightarrow> TriageRule list" where
  "matching lib event occ rtype rules =
     filter (\<lambda>r. MatchesRuleWithOccurrence lib event r occ \<and> tr_RuleType r = rtype) rules"

lemma matching_simps [simp]:
  "matching lib event occ rtype [] = []"
  "matching lib event occ rtype (rules @ [r]) =
     matching lib event occ rtype rules @
       (if MatchesRuleWithOccurrence lib event r occ \<and> tr_RuleType r = rtype then [r] else [])"
  by (simp_all add: matching_def)

lemma ruleTypes_distinct [simp]:
  "RuleTypeSuppression \<noteq> RuleTypeScoring" "RuleTypeSuppression \<noteq> RuleTypeClassification"
  "RuleTypeScoring \<noteq> RuleTypeSuppression" "RuleTypeScoring \<noteq> RuleTypeClassification"
  "RuleTypeClassification \<noteq> RuleTypeSuppression" "RuleTypeClassification \<noteq> RuleTypeScoring"
  by (simp_all add: ruleType_defs)

text \<open>The first matching rule of a type, and its identifier.\<close>

definition firstOf :: "TriageRule list \<Rightarrow> TriageRule option" where
  "firstOf rules = (case rules of [] \<Rightarrow> None | r # _ \<Rightarrow> Some r)"

definition idOf :: "TriageRule list \<Rightarrow> string" where
  "idOf rules = (case rules of [] \<Rightarrow> '''' | r # _ \<Rightarrow> tr_ID r)"

lemma firstOf_simps [simp]:
  "firstOf [] = None" "firstOf (r # rs) = Some r" "idOf [] = ''''" "idOf (r # rs) = tr_ID r"
  "firstOf (rs @ rs') = (case firstOf rs of None \<Rightarrow> firstOf rs' | Some r \<Rightarrow> Some r)"
  "idOf (rs @ rs') = (if rs = [] then idOf rs' else idOf rs)"
  "firstOf rs = None \<longleftrightarrow> rs = []"
  by (auto simp: firstOf_def idOf_def split: list.splits)

definition totalAdjustment :: "Lib \<Rightarrow> TriageRule list \<Rightarrow> ScoreAdjustment option" where
  "totalAdjustment lib rules =
     map_option (\<lambda>r. (applyScoringRule lib r)\<lparr>sa_Adjustment :=
       sum_list (map (\<lambda>r. sa_Adjustment (applyScoringRule lib r)) rules)\<rparr>) (firstOf rules)"

abbreviation evaluate :: "Lib \<Rightarrow> Event \<Rightarrow> int \<Rightarrow> TriageRule list \<Rightarrow> evaluation" where
  "evaluate lib event occ rules \<equiv> foldl (evalRule lib event occ) startEvaluation rules"

lemma evaluate_suppression:
  "suppressionResult (evaluate lib event occ rules) =
     map_option (applySuppressionRule lib) (firstOf (matching lib event occ RuleTypeSuppression rules)) \<and>
   suppressionRuleID (evaluate lib event occ rules) = idOf (matching lib event occ RuleTypeSuppression rules)"
proof (induction rules rule: rev_induct)
  case (snoc r rules)
  then show ?case
    by (cases "matching lib event occ RuleTypeSuppression rules")
      (simp_all add: evalRule_def Let_def split: option.split)
qed (simp add: startEvaluation_def)

lemma evaluate_classification:
  "autoClassification (evaluate lib event occ rules) =
     map_option (applyClassificationRule lib) (firstOf (matching lib event occ RuleTypeClassification rules)) \<and>
   classificationRuleID (evaluate lib event occ rules) = idOf (matching lib event occ RuleTypeClassification rules)"
proof (induction rules rule: rev_induct)
  case (snoc r rules)
  then show ?case
    by (cases "matching lib event occ RuleTypeClassification rules")
      (simp_all add: evalRule_def Let_def split: option.split)
qed (simp add: startEvaluation_def)

lemma evaluate_scoring:
  "scoreAdjustment (evaluate lib event occ rules) =
     totalAdjustment lib (matching lib event occ RuleTypeScoring rules) \<and>
   scoringRuleID (evaluate lib event occ rules) = idOf (matching lib event occ RuleTypeScoring rules)"
proof (induction rules rule: rev_induct)
  case (snoc r rules)
  then show ?case
    by (cases "matching lib event occ RuleTypeScoring rules")
      (simp_all add: evalRule_def Let_def totalAdjustment_def split: option.split)
qed (simp add: startEvaluation_def totalAdjustment_def)

lemmas evaluate_fields = evaluate_suppression evaluate_classification evaluate_scoring

section \<open>The cache of loaded rules\<close>

text \<open>What the two queries answer for a call, before the cache.\<close>

definition fetched :: "LoadCall \<Rightarrow> TriageRule list option" where
  "fetched c =
     (case lc_rows c of
        Inl err \<Rightarrow> None
      | Inr rules \<Rightarrow> Some (filterOverridden
          (case getAccountOverrides (lc_overrides c) of Inl err \<Rightarrow> Map.empty | Inr m \<Rightarrow> m) rules))"

text \<open>The calls on the cache: loads, and the invalidation after a rule was changed.\<close>

datatype CacheOp = OpLoad LoadCall | OpClear

fun cacheStep :: "triageRulesCache \<Rightarrow> CacheOp \<Rightarrow> triageRulesCache" where
  "cacheStep cache (OpLoad c) = fst (LoadMatchingRules c cache)"
| "cacheStep cache OpClear = ClearTriageRulesCache cache"

text \<open>The loads since the last invalidation.\<close>

fun sinceClear :: "CacheOp list \<Rightarrow> LoadCall set" where
  "sinceClear [] = {}"
| "sinceClear (OpLoad c # ops) =
     (if OpClear \<in> set ops then sinceClear ops else insert c (sinceClear ops))"
| "sinceClear (OpClear # ops) = sinceClear ops"

lemma sinceClear_snoc:
  "sinceClear (ops @ [OpClear]) = {}"
  "sinceClear (ops @ [OpLoad c]) = insert c (sinceClear ops)"
  by (induction ops rule: sinceClear.induct) auto

definition entryFrom :: "LoadCall set \<Rightarrow> string \<Rightarrow> triageRulesCacheEntry \<Rightarrow> bool" where
  "entryFrom cs k e \<longleftrightarrow> (\<exists>c\<in>cs. cacheKey c = k \<and> fetched c = Some (ce_rules e) \<and>
     ce_expiresAt e = lc_storedAt c + triageRulesTTL)"

lemma LoadMatchingRules_cases:
  "LoadMatchingRules c cache = (cache', r) \<Longrightarrow>
     (\<exists>e. cache' = cache \<and> cache (cacheKey c) = Some e \<and> lc_now c < ce_expiresAt e \<and> r = Inr (ce_rules e)) \<or>
     (\<exists>rules. fetched c = Some rules \<and> r = Inr rules \<and> cache' = cache(cacheKey c \<mapsto>
        \<lparr>ce_rules = rules, ce_expiresAt = lc_storedAt c + triageRulesTTL\<rparr>)) \<or>
     (\<exists>err. cache' = cache \<and> r = Inl err)"
  by (auto simp: LoadMatchingRules_def fetched_def Let_def split: if_splits option.splits sum.splits)

lemma cache_invariant:
  "foldl cacheStep Map.empty ops k = Some e \<Longrightarrow> entryFrom (sinceClear ops) k e"
proof (induction ops arbitrary: k e rule: rev_induct)
  case (snoc op ops)
  let ?cache = "foldl cacheStep Map.empty ops"
  have mono: "entryFrom (insert c (sinceClear ops)) k e" if "?cache k = Some e" for c k e
    using snoc.IH [OF that] by (auto simp: entryFrom_def)
  show ?case
  proof (cases op)
    case (OpLoad c)
    obtain cache' r where l: "LoadMatchingRules c ?cache = (cache', r)" by force
    have e: "cache' k = Some e" using snoc.prems OpLoad l by simp
    have "entryFrom (insert c (sinceClear ops)) k e"
    proof (cases "?cache k = Some e")
      case False
      with LoadMatchingRules_cases [OF l] e show ?thesis by (auto simp: entryFrom_def split: if_splits)
    qed (rule mono)
    then show ?thesis by (simp add: OpLoad sinceClear_snoc)
  next
    case OpClear
    with snoc.prems show ?thesis by (simp add: ClearTriageRulesCache_def)
  qed
qed simp

lemma cacheKey_inj:
  "CHR '':'' \<notin> set (lc_tenantID c) \<Longrightarrow> CHR '':'' \<notin> set (lc_tenantID c') \<Longrightarrow> cacheKey c = cacheKey c' \<Longrightarrow>
     lc_tenantID c = lc_tenantID c' \<and> lc_accountID c = lc_accountID c'"
  using split_at_sep [of "lc_tenantID c" "CHR '':''" "lc_accountID c" "lc_tenantID c'" "lc_accountID c'"]
  by (auto simp: cacheKey_def)

text \<open>What the rule query promises of its rows: its WHERE clause and its ORDER BY.\<close>

definition inScope :: "string \<Rightarrow> string \<Rightarrow> TriageRule \<Rightarrow> bool" where
  "inScope tenant account r \<longleftrightarrow> tr_Enabled r \<and> (tr_TenantID r = None \<or> tr_TenantID r = Some tenant) \<and>
     (tr_AccountID r = None \<or> tr_AccountID r = Some account)"

definition queryOK :: "LoadCall \<Rightarrow> bool" where
  "queryOK c \<longleftrightarrow> CHR '':'' \<notin> set (lc_tenantID c) \<and>
     (case lc_rows c of Inl err \<Rightarrow> True
      | Inr rules \<Rightarrow> (\<forall>r\<in>set rules. inScope (lc_tenantID c) (lc_accountID c) r) \<and>
          sorted_wrt (\<lambda>r r'. tr_Priority r \<le> tr_Priority r') rules)"

lemma filterOverridden_props:
  "\<forall>r\<in>set rules. inScope t a r \<Longrightarrow> \<forall>r\<in>set (filterOverridden ov rules). inScope t a r"
  "sorted_wrt (\<lambda>r r'. tr_Priority r \<le> tr_Priority r') rules \<Longrightarrow>
     sorted_wrt (\<lambda>r r'. tr_Priority r \<le> tr_Priority r') (filterOverridden ov rules)"
  "\<forall>r\<in>set (filterOverridden ov rules). tr_TenantID r = None \<longrightarrow> tr_AccountID r = None \<longrightarrow> ov (tr_ID r) \<noteq> Some True"
proof -
  show "\<forall>r\<in>set rules. inScope t a r \<Longrightarrow> \<forall>r\<in>set (filterOverridden ov rules). inScope t a r"
    by (auto simp: filterOverridden_def inScope_def Let_def split: if_splits)
  show "sorted_wrt (\<lambda>r r'. tr_Priority r \<le> tr_Priority r') rules \<Longrightarrow>
     sorted_wrt (\<lambda>r r'. tr_Priority r \<le> tr_Priority r') (filterOverridden ov rules)"
    by (induction rules) (auto simp: filterOverridden_def Let_def split: if_splits)
  show "\<forall>r\<in>set (filterOverridden ov rules). tr_TenantID r = None \<longrightarrow> tr_AccountID r = None \<longrightarrow> ov (tr_ID r) \<noteq> Some True"
    by (auto simp: filterOverridden_def Let_def split: if_splits)
qed

text \<open>A small configuration, on which the properties are instantiated.\<close>

definition exLib :: Lib where
  "exLib = \<lparr>lib_compile = (\<lambda>p. Some (\<lambda>v. v = p)), lib_decodeObject = (\<lambda>s. Some []),
     lib_decodeAction = (\<lambda>s. Some \<lparr>av_Adjustment = Some 7, av_Reason = Some s, av_LinkedEventID = None,
        av_Classification = None, av_ReasonCode = None, av_Priority = Some ''P1''\<rparr>),
     lib_sprint = (\<lambda>v. case v of AStr s \<Rightarrow> s | _ \<Rightarrow> '''')\<rparr>"

definition exTriageRule :: "string \<Rightarrow> string \<Rightarrow> string option \<Rightarrow> TriageRule" where
  "exTriageRule i rtype tenant =
     \<lparr>tr_ID = i, tr_TenantID = tenant, tr_AccountID = None, tr_RuleType = rtype, MatchSource = None,
      MatchAlertname = Some ''CrashLoop'', MatchNamespace = None, MatchService = None, MatchFingerprint = None,
      MatchLabels = None, MatchPriority = None, MatchFindingType = None, MatchOccurrenceGreaterThan = None,
      tr_Action = ''adjust_score'', tr_ActionValue = Some ''{}'', tr_Priority = 10, tr_Enabled = True,
      tr_CreatedAt = 0, tr_IsSystemRule = False, tr_IsOverridden = False\<rparr>"

definition exEvent :: Event where
  "exEvent =
     \<lparr>ev_Id = ''e1'', ev_Tenant = Some ''t1'', ev_CloudAccountId = Some ''a1'', ev_Fingerprint = Some ''f1'',
      ev_AggregationKey = Some ''CrashLoop'', ev_SubjectNamespace = None, ev_SubjectOwner = None,
      ev_SubjectName = None, ev_Source = None, ev_Priority = Some ''HIGH'', ev_FindingType = None,
      ev_Labels = None, ev_Evidences = None\<rparr>"

lemma exTriageRule_matches: "MatchesRuleWithOccurrence exLib exEvent (exTriageRule i rtype tenant) occ"
  by (simp add: MatchesRuleWithOccurrence_def criterion_def regexMatch_def exLib_def exTriageRule_def exEvent_def)

lemma exTriageRule_facts:
  "sa_Adjustment (applyScoringRule exLib (exTriageRule i rtype tenant)) = 7"
  "tr_RuleType (exTriageRule i rtype tenant) = rtype"
  "ev_Tenant exEvent = Some ''t1''" "ev_CloudAccountId exEvent = Some ''a1''"
  by (simp_all add: exTriageRule_def applyScoringRule_def ParseActionValue_def exLib_def exEvent_def)

section \<open>The properties of triage rules\<close>

text \<open>C33: how rules combine. For an event of a tenant and account with loaded rules, the first
  matching suppression rule suppresses (with status DROPPED exactly for the drop action), the
  first matching classification rule classifies, all matching scoring rules add up, and the
  result names as its own the rule of the strongest kind: suppression, then classification,
  then scoring. There is no result exactly if no rule of these kinds matches.\<close>

theorem CheckTriageRules_spec:
  fixes lib :: Lib and occ :: int
  assumes "ev_Tenant event = Some tenant" "ev_CloudAccountId event = Some account"
    and "load tenant account = Inr rules"
  defines "sups \<equiv> matching lib event occ RuleTypeSuppression rules"
    and "clss \<equiv> matching lib event occ RuleTypeClassification rules"
    and "scos \<equiv> matching lib event occ RuleTypeScoring rules"
  shows "CheckTriageRules lib load event occ =
    Inr (if sups = [] \<and> clss = [] \<and> scos = [] then None
      else Some
        \<lparr>rr_RuleID = (if sups \<noteq> [] then tr_ID (hd sups) else if clss \<noteq> [] then tr_ID (hd clss) else tr_ID (hd scos)),
         rr_RuleType = (if sups \<noteq> [] then RuleTypeSuppression else if clss \<noteq> [] then RuleTypeClassification
                        else RuleTypeScoring),
         rr_Action = (if sups \<noteq> [] then tr_Action (hd sups)
                      else if clss \<noteq> [] then ac_Classification (applyClassificationRule lib (hd clss))
                      else ActionAdjustScore),
         rr_Suppression = (if sups = [] then None else Some (applySuppressionRule lib (hd sups))),
         rr_ScoreAdjustment = (if scos = [] then None
           else Some \<lparr>sa_Adjustment = (\<Sum>r\<leftarrow>scos. sa_Adjustment (applyScoringRule lib r)),
                      sa_Reason = sa_Reason (applyScoringRule lib (hd scos))\<rparr>),
         rr_AutoClassification = (if clss = [] then None else Some (applyClassificationRule lib (hd clss)))\<rparr>)"
proof (cases "rules = []")
  case True
  then show ?thesis using assms by (simp add: CheckTriageRules_def)
next
  case False
  then have "CheckTriageRules lib load event occ = Inr (buildResult (evaluate lib event occ rules))"
    using assms(1-3) by (simp add: CheckTriageRules_def)
  then show ?thesis
    unfolding sups_def clss_def scos_def
    by (cases "matching lib event occ RuleTypeSuppression rules";
        cases "matching lib event occ RuleTypeClassification rules";
        cases "matching lib event occ RuleTypeScoring rules")
      (simp_all add: buildResult_def evaluate_fields totalAdjustment_def applySuppressionRule_def)
qed


theorem CheckTriageRules_spec_witness:
  "\<exists>r. CheckTriageRules exLib
     (\<lambda>t a. Inr [exTriageRule ''r1'' RuleTypeScoring (Some t), exTriageRule ''r2'' RuleTypeScoring None]) exEvent 1 =
     Inr (Some r) \<and> GetScoreAdjustmentFromRules (Some r) = 14"
  using CheckTriageRules_spec [of exEvent "''t1''" "''a1''"
      "\<lambda>t a. Inr [exTriageRule ''r1'' RuleTypeScoring (Some t), exTriageRule ''r2'' RuleTypeScoring None]"
      "[exTriageRule ''r1'' RuleTypeScoring (Some ''t1''), exTriageRule ''r2'' RuleTypeScoring None]" exLib 1]
  by (simp add: matching_def exTriageRule_matches exTriageRule_facts GetScoreAdjustmentFromRules_def)

text \<open>The rule cache. After any sequence of loads and invalidations, a load that answers returns
  what the queries gave to a load of the same tenant and account since the last invalidation,
  less than a minute ago by the clock, or to itself; so every rule it returns is enabled and of
  that tenant and account or global, in priority order, whatever other tenants loaded.\<close>

theorem LoadMatchingRules_fresh_and_scoped:
  assumes "\<forall>c'. OpLoad c' \<in> set ops \<longrightarrow> queryOK c'" "queryOK c"
    and "snd (LoadMatchingRules c (foldl cacheStep Map.empty ops)) = Inr rules"
  shows "(\<exists>c'\<in>insert c (sinceClear ops).
      lc_tenantID c' = lc_tenantID c \<and> lc_accountID c' = lc_accountID c \<and> fetched c' = Some rules \<and>
      (c' = c \<or> lc_now c < lc_storedAt c' + triageRulesTTL)) \<and>
    (\<forall>r\<in>set rules. inScope (lc_tenantID c) (lc_accountID c) r) \<and>
    sorted_wrt (\<lambda>r r'. tr_Priority r \<le> tr_Priority r') rules"
proof -
  have sub: "c' \<in> sinceClear ops \<Longrightarrow> OpLoad c' \<in> set ops" for c'
    by (induction ops rule: sinceClear.induct) (auto split: if_splits)
  obtain cache' r where l: "LoadMatchingRules c (foldl cacheStep Map.empty ops) = (cache', r)" by force
  then have r: "r = Inr rules" using assms(3) by simp
  from LoadMatchingRules_cases [OF l] r
  have "\<exists>c'\<in>insert c (sinceClear ops). cacheKey c' = cacheKey c \<and> fetched c' = Some rules \<and>
      (c' = c \<or> lc_now c < lc_storedAt c' + triageRulesTTL)"
    using cache_invariant [of ops "cacheKey c"] by (fastforce simp: entryFrom_def)
  then obtain c' where c': "c' \<in> insert c (sinceClear ops)" "cacheKey c' = cacheKey c" "fetched c' = Some rules"
    "c' = c \<or> lc_now c < lc_storedAt c' + triageRulesTTL" by blast
  have q: "queryOK c'" using c'(1) assms(1,2) sub by auto
  then have same: "lc_tenantID c' = lc_tenantID c" "lc_accountID c' = lc_accountID c"
    using cacheKey_inj [OF _ _ c'(2)] assms(2) by (auto simp: queryOK_def)
  obtain ov rows where f: "lc_rows c' = Inr rows" "rules = filterOverridden ov rows"
    using c'(3) by (auto simp: fetched_def split: sum.splits)
  have "(\<forall>r\<in>set rules. inScope (lc_tenantID c) (lc_accountID c) r) \<and>
    sorted_wrt (\<lambda>r r'. tr_Priority r \<le> tr_Priority r') rules"
    using q f same filterOverridden_props(1) [of rows "lc_tenantID c" "lc_accountID c" ov]
      filterOverridden_props(2) [of rows ov] by (simp add: queryOK_def)
  with c' same show ?thesis by blast
qed

theorem LoadMatchingRules_fresh_and_scoped_witness:
  "\<exists>c'\<in>{\<lparr>lc_tenantID = ''t1'', lc_accountID = ''a1'', lc_now = 9, lc_storedAt = 9, lc_overrides = Inr [],
        lc_rows = Inr [exTriageRule ''r1'' RuleTypeScoring (Some ''t1'')]\<rparr>}.
     fetched c' = Some [exTriageRule ''r1'' RuleTypeScoring (Some ''t1'')]"
proof -
  let ?c = "\<lparr>lc_tenantID = ''t1'', lc_accountID = ''a1'', lc_now = 9, lc_storedAt = 9, lc_overrides = Inr [],
        lc_rows = Inr [exTriageRule ''r1'' RuleTypeScoring (Some ''t1'')]\<rparr>"
  have "queryOK ?c" by (simp add: queryOK_def inScope_def exTriageRule_def)
  moreover have "snd (LoadMatchingRules ?c (foldl cacheStep Map.empty [OpLoad ?c, OpClear])) =
      Inr [exTriageRule ''r1'' RuleTypeScoring (Some ''t1'')]"
    by (simp add: ClearTriageRulesCache_def LoadMatchingRules_def getAccountOverrides_def filterOverridden_def
        exTriageRule_def Let_def)
  ultimately show ?thesis
    using LoadMatchingRules_fresh_and_scoped [of "[OpLoad ?c, OpClear]" ?c] by auto
qed

end
