(* ===== verification/TriageScoring.thy ===== *)
theory TriageScoring
  imports TriageRules GoNumbers
begin

text \<open>
  Priority scoring of events (\<open>api-server/services/triage\<close>): the severity formula (\<open>scoring.go\<close>), the
  policy over a cached model verdict (\<open>llm_scoring.go\<close>, \<open>llm_scoring_entry.go\<close>), the correlation term
  both share (\<open>incident_scoring.go\<close>), human overrides (\<open>human_override.go\<close>), and the step of
  \<open>processor.go\<close> that applies the scoring rules to the result.

  Floats are rationals rounded to 53 bits after each operation. The factors of a score are an
  object of \<open>any\<close> values; what the database answers, and the feature flags, are arguments.
\<close>

section \<open>Levels and bands\<close>

record ScoreResult =
  Score :: int
  Priority :: string
  Factors :: object
  Confidence :: rat

definition SeverityHigh :: int where "SeverityHigh = 25"
definition SeverityMedium :: int where "SeverityMedium = 15"
definition SeverityLow :: int where "SeverityLow = 10"
definition SeverityInfo :: int where "SeverityInfo = 5"
definition SeverityDebug :: int where "SeverityDebug = 3"

definition EnvMultiplierProd :: rat where "EnvMultiplierProd = 1"
definition EnvMultiplierNonProd :: rat where "EnvMultiplierNonProd = f64 (3 / 10)"
definition EnvMultiplierDefault :: rat where "EnvMultiplierDefault = 1 / 2"

definition DuplicatePenaltyPerOccurrence :: int where "DuplicatePenaltyPerOccurrence = 5"
definition MaxDuplicatePenalty :: int where "MaxDuplicatePenalty = 30"

definition CorrelationBonusRootCause :: int where "CorrelationBonusRootCause = 15"
definition CorrelationPenaltyDownstream :: int where "CorrelationPenaltyDownstream = - 10"
definition CorrelationPenaltyUpstream :: int where "CorrelationPenaltyUpstream = - 10"
definition CorrelationPenaltySameService :: int where "CorrelationPenaltySameService = - 5"
definition IncidentChildPenalty :: int where "IncidentChildPenalty = - 10"
definition MinCorrelationScoreForAdjustment :: rat where "MinCorrelationScoreForAdjustment = 1 / 2"

definition FindingTypeBonusSLO :: int where "FindingTypeBonusSLO = 10"
definition FindingTypeBonusAnomaly :: int where "FindingTypeBonusAnomaly = 5"
definition FindingTypePenaltyConfigChange :: int where "FindingTypePenaltyConfigChange = - 10"

definition EvidenceBonusOOMKilled :: int where "EvidenceBonusOOMKilled = 15"
definition EvidenceBonusRestarts :: int where "EvidenceBonusRestarts = 10"
definition RestartThreshold :: int where "RestartThreshold = 3"
definition ScoreMultiplier :: rat where "ScoreMultiplier = 4"

lemmas severity_defs = SeverityHigh_def SeverityMedium_def SeverityLow_def SeverityInfo_def SeverityDebug_def
lemmas correlation_defs = CorrelationBonusRootCause_def CorrelationPenaltyDownstream_def
  CorrelationPenaltyUpstream_def CorrelationPenaltySameService_def IncidentChildPenalty_def

definition scoreToPriority :: "int \<Rightarrow> string" where
  "scoreToPriority score =
     (if score \<ge> 80 then ''P0'' else if score \<ge> 60 then ''P1'' else if score \<ge> 40 then ''P2'' else ''P3'')"

definition priorityToMinScore :: "string \<Rightarrow> int" where
  "priorityToMinScore priority =
     (let p = ToUpper priority
      in if p = ''P0'' then 80 else if p = ''P1'' then 60 else if p = ''P2'' then 40 else 20)"

definition clamp :: "int \<Rightarrow> int \<Rightarrow> int \<Rightarrow> int" where
  "clamp v lo hi = (if v < lo then lo else if v > hi then hi else v)"

definition calculateConfidence :: "int \<Rightarrow> rat \<Rightarrow> rat" where
  "calculateConfidence factorCount envMultiplier =
     (let confidence = f64 (1 / 2 + f64 (of_int factorCount * f64 (1 / 10)));
          confidence = (if envMultiplier \<noteq> EnvMultiplierDefault then f64 (confidence + f64 (1 / 10)) else confidence)
      in if confidence > 1 then 1 else confidence)"

section \<open>The severity formula\<close>

definition getBaseSeverity :: "string option \<Rightarrow> int" where
  "getBaseSeverity priority =
     (case priority of
        None \<Rightarrow> SeverityLow
      | Some p \<Rightarrow>
          let u = ToUpper p
          in if u = ''HIGH'' then SeverityHigh else if u = ''MEDIUM'' then SeverityMedium
             else if u = ''LOW'' then SeverityLow else if u = ''INFO'' then SeverityInfo
             else if u = ''DEBUG'' then SeverityDebug else SeverityLow)"

record envCacheEntry =
  ece_env :: string
  ece_expiresAt :: instant

type_synonym envCache = "string \<rightharpoonup> envCacheEntry"

definition envCacheTTL :: duration where "envCacheTTL = 5 * Minute"

text \<open>The account's environment: the clock at the lookup and at the store, and the query's answer.\<close>

definition getAccountEnv ::
  "instant \<Rightarrow> instant \<Rightarrow> string result \<Rightarrow> string \<Rightarrow> envCache \<Rightarrow> envCache \<times> string option" where
  "getAccountEnv now storedAt answer cloudAccountID cache =
     (if cloudAccountID = '''' then (cache, None)
      else
        let query =
          (case answer of
             Inl err \<Rightarrow> (cache, None)
           | Inr env \<Rightarrow>
               (cache(cloudAccountID \<mapsto> \<lparr>ece_env = env, ece_expiresAt = storedAt + envCacheTTL\<rparr>), Some env))
        in case cache cloudAccountID of
             Some entry \<Rightarrow> if now < ece_expiresAt entry then (cache, Some (ece_env entry)) else query
           | None \<Rightarrow> query)"

definition parseEnvMultiplier :: "string \<Rightarrow> rat" where
  "parseEnvMultiplier accountEnv =
     (let e = ToLower accountEnv
      in if e = ''prod'' then EnvMultiplierProd
         else if e = ''non_prod'' \<or> e = ''non-prod'' then EnvMultiplierNonProd
         else EnvMultiplierDefault)"

text \<open>Given what \<open>getAccountEnv\<close> returned.\<close>

definition getEnvironmentMultiplier :: "string option \<Rightarrow> rat" where
  "getEnvironmentMultiplier env = (case env of None \<Rightarrow> EnvMultiplierDefault | Some e \<Rightarrow> parseEnvMultiplier e)"

definition getEnvironmentCategory :: "string option \<Rightarrow> string" where
  "getEnvironmentCategory env =
     (case env of
        None \<Rightarrow> ''unknown''
      | Some e \<Rightarrow>
          let l = ToLower e
          in if l = ''prod'' then ''prod'' else if l = ''non_prod'' \<or> l = ''non-prod'' then ''non_prod''
             else ''unknown'')"

definition getDuplicatePenalty :: "int \<Rightarrow> int" where
  "getDuplicatePenalty occurrenceNumber =
     (if occurrenceNumber \<le> 1 then 0
      else
        let penalty = (occurrenceNumber - 1) * DuplicatePenaltyPerOccurrence
        in if penalty > MaxDuplicatePenalty then MaxDuplicatePenalty else penalty)"

definition getCorrelationAdjustment :: "string \<Rightarrow> rat \<Rightarrow> int \<times> string" where
  "getCorrelationAdjustment correlationType correlationScore =
     (if correlationScore < MinCorrelationScoreForAdjustment then (0, correlationType)
      else if correlationType = ''likely_root_cause'' then (CorrelationBonusRootCause, correlationType)
      else if correlationType = ''downstream_impact'' then (CorrelationPenaltyDownstream, correlationType)
      else if correlationType = ''upstream_dependency'' then (CorrelationPenaltyUpstream, correlationType)
      else if correlationType = ''same_service'' then (CorrelationPenaltySameService, correlationType)
      else (0, correlationType))"

definition getFindingTypeAdjustment :: "string option \<Rightarrow> int" where
  "getFindingTypeAdjustment findingType =
     (case findingType of
        None \<Rightarrow> 0
      | Some f \<Rightarrow>
          let l = ToLower f
          in if l = ''slo'' then FindingTypeBonusSLO
             else if l = ''anomaly'' then FindingTypeBonusAnomaly
             else if l = ''configuration_change'' then FindingTypePenaltyConfigChange
             else 0)"

text \<open>The bonus of one element of the evidences array.\<close>

definition evidenceItemBonus :: "any \<Rightarrow> int" where
  "evidenceItemBonus item =
     (case asObj item of
        None \<Rightarrow> 0
      | Some evidence \<Rightarrow>
          (case getStr evidence ''type'' of
             None \<Rightarrow> 0
           | Some evidenceType \<Rightarrow>
               if evidenceType \<noteq> ''pod_enricher'' then 0
               else
                 (case getObj evidence ''data'' of
                    None \<Rightarrow> 0
                  | Some data \<Rightarrow>
                      (case Option.bind (getObj data ''lastStatus'') (\<lambda>ls. getStr ls ''reason'') of
                         Some reason \<Rightarrow> if Contains (ToLower reason) ''oomkill'' then EvidenceBonusOOMKilled else 0
                       | None \<Rightarrow> 0) +
                      (case getFloat data ''restarts'' of
                         Some restarts \<Rightarrow> if trunc_int restarts \<ge> RestartThreshold then EvidenceBonusRestarts else 0
                       | None \<Rightarrow> 0))))"

definition getEvidenceBonus :: "ModelsJson option \<Rightarrow> int" where
  "getEvidenceBonus evidences =
     (case evidences of
        None \<Rightarrow> 0
      | Some j \<Rightarrow> if \<not> js_isArray j then 0 else foldl (\<lambda>bonus item. bonus + evidenceItemBonus item) 0 (js_array j))"

section \<open>The correlation term\<close>

definition SameIncidentCorrelationType :: string where "SameIncidentCorrelationType = ''same_incident''"

definition correlationTypeAdjustment :: "string \<Rightarrow> int" where
  "correlationTypeAdjustment corrType =
     (if corrType = ''likely_root_cause'' then CorrelationBonusRootCause
      else if corrType = ''downstream_impact'' \<or> corrType = ''upstream_dependency'' then CorrelationPenaltyDownstream
      else if corrType = ''same_service'' \<or> corrType = ''same_resource'' then CorrelationPenaltySameService
      else 0)"

definition llmCorrelationAdjustment :: "string \<Rightarrow> rat \<Rightarrow> int \<times> string" where
  "llmCorrelationAdjustment correlationType correlationScore =
     (if correlationScore < MinCorrelationScoreForAdjustment then (0, correlationType)
      else (correlationTypeAdjustment correlationType, correlationType))"

definition incidentCorrelationAdjustment :: "bool \<Rightarrow> string \<Rightarrow> rat \<Rightarrow> int \<times> string" where
  "incidentCorrelationAdjustment isIncidentChild correlationType correlationScore =
     (if isIncidentChild then (IncidentChildPenalty, SameIncidentCorrelationType)
      else if correlationScore \<ge> MinCorrelationScoreForAdjustment \<and> correlationType = ''likely_root_cause''
        then (CorrelationBonusRootCause, correlationType)
      else (0, correlationType))"

text \<open>\<open>grouping\<close> is the answer of \<open>incidentGroupingEnabled\<close>, from the value of its environment variable.\<close>

definition incidentGroupingEnabled :: "string \<Rightarrow> bool" where
  "incidentGroupingEnabled envValue =
     (let v = TrimSpace envValue in \<not> EqualFold v ''false'' \<and> v \<noteq> ''0'')"

definition resolveCorrelationAdjustment ::
  "bool \<Rightarrow> bool \<Rightarrow> string \<Rightarrow> rat \<Rightarrow> (string \<Rightarrow> rat \<Rightarrow> int \<times> string) \<Rightarrow> int \<times> string" where
  "resolveCorrelationAdjustment grouping isIncidentChild correlationType correlationScore fallback =
     (if \<not> grouping then fallback correlationType correlationScore
      else incidentCorrelationAdjustment isIncidentChild correlationType correlationScore)"

text \<open>
  \<open>computeLegacyScore\<close>. \<open>env\<close> is what \<open>getAccountEnv\<close> returned for the event's account, read only when
  the event names one.
\<close>

definition computeLegacyScore ::
  "bool \<Rightarrow> string option \<Rightarrow> Event \<Rightarrow> int \<Rightarrow> string \<Rightarrow> rat \<Rightarrow> bool \<Rightarrow> ScoreResult" where
  "computeLegacyScore grouping env event occurrenceNumber correlationType correlationScore isIncidentChild =
     (let baseSeverity = getBaseSeverity (ev_Priority event);
          envMultiplier = (case ev_CloudAccountId event of None \<Rightarrow> EnvMultiplierDefault
                           | Some a \<Rightarrow> getEnvironmentMultiplier env);
          rawScore = f64 (f64 (of_int baseSeverity * envMultiplier) * ScoreMultiplier);
          duplicatePenalty = (if ev_Id event \<noteq> '''' then getDuplicatePenalty occurrenceNumber else 0);
          (correlationAdj, corrType) =
            (if ev_Id event \<noteq> ''''
             then resolveCorrelationAdjustment grouping isIncidentChild correlationType correlationScore
                    getCorrelationAdjustment
             else (0, correlationType));
          findingTypeAdj = getFindingTypeAdjustment (ev_FindingType event);
          evidenceBonus = getEvidenceBonus (ev_Evidences event);
          factorCount = 2 + (if duplicatePenalty \<noteq> 0 then 1 else 0) + (if correlationAdj \<noteq> 0 then 1 else 0)
            + (if findingTypeAdj \<noteq> 0 then 1 else 0) + (if evidenceBonus \<noteq> 0 then 1 else 0);
          totalAdjustments = - duplicatePenalty + correlationAdj + findingTypeAdj + evidenceBonus;
          finalScore = clamp (trunc_int rawScore + totalAdjustments) 0 100;
          priority = scoreToPriority finalScore;
          confidence = calculateConfidence factorCount envMultiplier
      in \<lparr>Score = finalScore, Priority = priority,
          Factors =
            [(''base_severity'', AInt baseSeverity), (''base_severity_source'', AStr ''event.priority''),
             (''env_multiplier'', AFloat envMultiplier), (''raw_score'', AFloat rawScore),
             (''duplicate_penalty'', AInt duplicatePenalty), (''correlation_adjustment'', AInt correlationAdj),
             (''correlation_type'', AStr corrType), (''finding_type_adjustment'', AInt findingTypeAdj),
             (''evidence_bonus'', AInt evidenceBonus), (''total_adjustments'', AInt totalAdjustments),
             (''final_score'', AInt finalScore), (''priority'', AStr priority),
             (''confidence'', AFloat confidence)],
          Confidence = confidence\<rparr>)"

section \<open>The policy over a model verdict\<close>

record SignalVerdict =
  v_Category :: string
  v_Intrinsic :: string
  v_Blast :: string
  v_RecurrenceSemantics :: string
  v_EnvSensitivity :: string
  v_BandFloor :: string
  v_BandCeiling :: string
  v_Confidence :: rat
  v_Reasoning :: string
  v_SourceModel :: string
  v_PromptVersion :: int

definition CriticalityCritical :: string where "CriticalityCritical = ''critical''"
definition CriticalityHigh :: string where "CriticalityHigh = ''high''"
definition CriticalityMedium :: string where "CriticalityMedium = ''medium''"
definition CriticalityLow :: string where "CriticalityLow = ''low''"
definition CriticalitySourceUser :: string where "CriticalitySourceUser = ''user''"

lemmas criticality_defs = CriticalityCritical_def CriticalityHigh_def CriticalityMedium_def
  CriticalityLow_def CriticalitySourceUser_def

definition intrinsicBase :: "string \<rightharpoonup> int" where
  "intrinsicBase = map_of [(''critical'', 80), (''high'', 62), (''medium'', 42), (''low'', 24), (''info'', 10)]"

definition envPenalty :: "string \<rightharpoonup> int" where
  "envPenalty = map_of [(''prod'', 0), (''unknown'', - 6), (''non_prod'', - 15)]"

definition envSensitivityScale :: "string \<rightharpoonup> rat" where
  "envSensitivityScale = map_of [(''none'', 0), (''partial'', 1 / 2), (''full'', 1)]"

definition blastAdj :: "string \<rightharpoonup> int" where
  "blastAdj = map_of [(''control_plane'', 10), (''customer_facing'', 10), (''data_durability'', 8),
     (''monitoring_backbone'', 6), (''single_workload'', 0), (''expected_change'', - 8)]"

definition criticalityAdj :: "string \<rightharpoonup> int" where
  "criticalityAdj = map_of [(CriticalityCritical, 12), (CriticalityHigh, 6), (CriticalityMedium, 0),
     (CriticalityLow, - 10)]"

definition bandFloorScore :: "string \<rightharpoonup> int" where
  "bandFloorScore = map_of [(''P0'', 80), (''P1'', 60), (''P2'', 40), (''P3'', 0)]"

definition bandCeilScore :: "string \<rightharpoonup> int" where
  "bandCeilScore = map_of [(''P0'', 100), (''P1'', 79), (''P2'', 59), (''P3'', 39)]"

text \<open>Floor and ceiling an operator's tier forces; an empty string leaves that end alone.\<close>

definition userCriticalityBand :: "string \<rightharpoonup> string \<times> string" where
  "userCriticalityBand = map_of [(CriticalityCritical, (''P1'', '''')), (CriticalityHigh, (''P2'', '''')),
     (CriticalityLow, ('''', ''P3''))]"

definition clampToBand :: "int \<Rightarrow> object \<Rightarrow> int" where
  "clampToBand score factors =
     (case getStr factors ''band'' of
        None \<Rightarrow> score
      | Some band \<Rightarrow>
          if band = '''' then score
          else
            let (lo, hi, found) = Cut band ''..''
            in if \<not> found then score
               else
                 (case (bandFloorScore (ToUpper (TrimSpace lo)), bandCeilScore (ToUpper (TrimSpace hi))) of
                    (Some fl, Some ce) \<Rightarrow> if fl > ce then score else clamp score fl ce
                  | _ \<Rightarrow> score))"

definition recurrenceAdjustment :: "int \<Rightarrow> string \<Rightarrow> int" where
  "recurrenceAdjustment occurrences semantics =
     (if semantics = ''neutral'' \<or> occurrences \<le> 1 then 0
      else
        let tier = (if occurrences \<ge> 50 then 15 else if occurrences \<ge> 10 then 10 else if occurrences \<ge> 3 then 6 else 2)
        in if semantics = ''noise'' then - tier else tier)"

record workloadTier =
  wt_level :: string
  wt_source :: string

definition isUserDeclared :: "workloadTier \<Rightarrow> bool" where
  "isUserDeclared t = (wt_source t = CriticalitySourceUser)"

definition bandFloorOf :: "string \<Rightarrow> int" where
  "bandFloorOf p = (case bandFloorScore (ToUpper p) of Some s \<Rightarrow> s | None \<Rightarrow> 0)"

definition bandCeilOf :: "string \<Rightarrow> int" where
  "bandCeilOf p = (case bandCeilScore (ToUpper p) of Some s \<Rightarrow> s | None \<Rightarrow> 100)"

definition applyCriticalityBand :: "string \<Rightarrow> string \<Rightarrow> workloadTier \<Rightarrow> string \<times> string" where
  "applyCriticalityBand floorP ceilP tier =
     (if \<not> isUserDeclared tier then (floorP, ceilP)
      else
        (case userCriticalityBand (wt_level tier) of
           None \<Rightarrow> (floorP, ceilP)
         | Some (bfloor, bceil) \<Rightarrow>
             let newFloor = (if bfloor \<noteq> '''' \<and> bandFloorOf bfloor > bandFloorOf floorP then bfloor else floorP);
                 newCeil = (if bceil \<noteq> '''' \<and> bandCeilOf bceil < bandCeilOf ceilP then bceil else ceilP)
             in if bandFloorOf newFloor > bandCeilOf newCeil
                then if bfloor \<noteq> '''' then (newFloor, ''P0'') else (''P3'', newCeil)
                else (newFloor, newCeil)))"

text \<open>The five terms of the raw score: intrinsic base, environment, blast radius, recurrence and
  criticality.\<close>

definition verdictTerms :: "SignalVerdict \<Rightarrow> string \<Rightarrow> int \<Rightarrow> workloadTier \<Rightarrow> int \<times> int \<times> int \<times> int \<times> int" where
  "verdictTerms v envCategory recurrenceCount tier =
     (let base = (case intrinsicBase (ToLower (v_Intrinsic v)) of Some b \<Rightarrow> b
                  | None \<Rightarrow> map_get 0 intrinsicBase ''low'');
          envPen = (case envPenalty (ToLower envCategory) of Some p \<Rightarrow> p | None \<Rightarrow> 0);
          sens = (case envSensitivityScale (ToLower (v_EnvSensitivity v)) of Some s \<Rightarrow> s
                  | None \<Rightarrow> map_get 0 envSensitivityScale ''partial'');
          envTerm = trunc_int (math_Round (f64 (of_int envPen * sens)));
          blast = map_get 0 blastAdj (ToLower (v_Blast v));
          recur = recurrenceAdjustment recurrenceCount (ToLower (v_RecurrenceSemantics v));
          crit = map_get 0 criticalityAdj (ToLower (wt_level tier))
      in (base, envTerm, blast, recur, crit))"

definition computeVerdictScore ::
  "SignalVerdict \<Rightarrow> string \<Rightarrow> int \<Rightarrow> workloadTier \<Rightarrow> int \<times> string \<times> object" where
  "computeVerdictScore v envCategory recurrenceCount tier =
     (let (base, envTerm, blast, recur, crit) = verdictTerms v envCategory recurrenceCount tier;
          raw = base + envTerm + blast + recur + crit;
          (floorP, ceilP) = applyCriticalityBand (v_BandFloor v) (v_BandCeiling v) tier;
          score = clamp (clamp raw (bandFloorOf floorP) (bandCeilOf ceilP)) 0 100;
          factors =
            [(''scoring_path'', AStr ''llm_verdict''), (''category'', AStr (v_Category v)),
             (''intrinsic'', AStr (v_Intrinsic v)), (''intrinsic_base'', AInt base),
             (''env_category'', AStr envCategory), (''env_sensitivity'', AStr (v_EnvSensitivity v)),
             (''env_adjustment'', AInt envTerm), (''blast'', AStr (v_Blast v)),
             (''blast_adjustment'', AInt blast), (''recurrence_semantics'', AStr (v_RecurrenceSemantics v)),
             (''recurrence_count'', AInt recurrenceCount), (''recurrence_adjust'', AInt recur),
             (''raw_score'', AInt raw), (''band'', AStr (floorP @ ''..'' @ ceilP)),
             (''verdict_source'', AStr (v_SourceModel v)), (''verdict_confidence'', AFloat (v_Confidence v)),
             (''reasoning'', AStr (v_Reasoning v)), (''final_score'', AInt score)];
          factors =
            (if wt_level tier = '''' then factors
             else
               let factors = setKey ''criticality_adjustment'' (AInt crit)
                 (setKey ''criticality_source'' (AStr (wt_source tier))
                   (setKey ''criticality'' (AStr (wt_level tier)) factors))
               in if floorP \<noteq> v_BandFloor v \<or> ceilP \<noteq> v_BandCeiling v
                  then setKey ''criticality_band_override''
                    (AStr (v_BandFloor v @ ''..'' @ v_BandCeiling v @ '' -> '' @ floorP @ ''..'' @ ceilP)) factors
                  else factors)
      in (score, scoreToPriority score, factors))"

definition fallbackVerdict :: "Event \<Rightarrow> SignalVerdict" where
  "fallbackVerdict event =
     \<lparr>v_Category = ''unclassified'',
      v_Intrinsic =
        (case ev_Priority event of
           None \<Rightarrow> ''low''
         | Some p \<Rightarrow>
             let u = ToUpper p
             in if u = ''HIGH'' then ''high'' else if u = ''MEDIUM'' then ''medium'' else if u = ''LOW'' then ''low''
                else if u = ''INFO'' \<or> u = ''DEBUG'' then ''info'' else ''low''),
      v_Blast = ''single_workload'', v_RecurrenceSemantics = ''neutral'', v_EnvSensitivity = ''partial'',
      v_BandFloor = ''P3'', v_BandCeiling = ''P1'', v_Confidence = f64 (3 / 10), v_Reasoning = '''',
      v_SourceModel = ''fallback'', v_PromptVersion = 0\<rparr>"

definition isProviderLifecycleNotification :: "Event \<Rightarrow> bool" where
  "isProviderLifecycleNotification event =
     (case ev_AggregationKey event of
        None \<Rightarrow> False
      | Some k \<Rightarrow>
          let agg = ToLower k
          in if Contains agg ''alarm'' \<or> Contains agg ''cloudwatch'' then False
             else Contains agg ''state-change notification'' \<or> Contains agg ''state change notification'' \<or>
               Contains agg ''instance interruption'' \<or> Contains agg ''scheduled change'')"

definition applyDeterministicGuardrails :: "SignalVerdict \<Rightarrow> Event \<Rightarrow> SignalVerdict \<times> string list" where
  "applyDeterministicGuardrails v event =
     (if isProviderLifecycleNotification event
      then (v\<lparr>v_Intrinsic := ''info'', v_Blast := ''expected_change'', v_BandFloor := ''P3'', v_BandCeiling := ''P3''\<rparr>,
            [''lifecycle_floor''])
      else (v, []))"

text \<open>
  What scoring reads besides the event: the answers of the lookups and the feature flags. The
  verdict is the row of the class, if there is one.
\<close>

record TriageFacts =
  tf_corrected :: string
  tf_rules :: "TriageRule list result"
  tf_occurrence :: int
  tf_env :: "string option"
  tf_verdict :: "SignalVerdict option"
  tf_classKey :: string
  tf_recurrence :: int
  tf_tier :: workloadTier
  tf_grouping :: bool
  tf_llmForced :: bool
  tf_llmTenant :: bool
  tf_shadow :: bool
  tf_remint :: bool

definition classificationPromptVersion :: int where "classificationPromptVersion = 4"

text \<open>The asynchronous work a scoring call starts.\<close>

datatype mintAction = NoMint | Mint | Remint

text \<open>The verdict that is served, how it was found, and the mint it triggers.\<close>

definition lookupVerdict :: "TriageFacts \<Rightarrow> Event \<Rightarrow> SignalVerdict \<times> string \<times> mintAction" where
  "lookupVerdict f event =
     (let tenantID = (case ev_Tenant event of None \<Rightarrow> '''' | Some t \<Rightarrow> t)
      in case (if tenantID \<noteq> '''' \<and> tf_classKey f \<noteq> '''' then tf_verdict f else None) of
           Some v \<Rightarrow>
             if tf_remint f \<and> v_PromptVersion v < classificationPromptVersion
             then (v, ''cache_stale_remint'', Remint) else (v, ''cache'', NoMint)
         | None \<Rightarrow> (fallbackVerdict event, ''fallback'', if tenantID \<noteq> '''' then Mint else NoMint))"

text \<open>The correlation term, applied after the verdict score.\<close>

definition correlationStep ::
  "TriageFacts \<Rightarrow> Event \<Rightarrow> string \<Rightarrow> rat \<Rightarrow> bool \<Rightarrow> int \<times> string \<times> object \<Rightarrow> int \<times> string \<times> object" where
  "correlationStep f event correlationType correlationScore isIncidentChild spf =
     (let (score, priority, factors) = spf;
          (adj, corrType) =
            (if ev_Id event \<noteq> ''''
             then resolveCorrelationAdjustment (tf_grouping f) isIncidentChild correlationType correlationScore
                    llmCorrelationAdjustment
             else (0, ''''))
      in if adj \<noteq> 0 then
           let score = clampToBand (clamp (score + adj) 0 100) factors
           in (score, scoreToPriority score,
               setKey ''correlation_adjustment'' (AInt adj) (setKey ''correlation_type'' (AStr corrType) factors))
         else (score, priority, factors))"

definition ComputeScoreLLM ::
  "TriageFacts \<Rightarrow> Event \<Rightarrow> string \<Rightarrow> rat \<Rightarrow> bool \<Rightarrow> ScoreResult \<times> mintAction" where
  "ComputeScoreLLM f event correlationType correlationScore isIncidentChild =
     (let (verdict, lkp, mint) = lookupVerdict f event;
          (verdict, guardrails) = applyDeterministicGuardrails verdict event;
          envCategory = (case ev_CloudAccountId event of None \<Rightarrow> ''unknown'' | Some a \<Rightarrow> getEnvironmentCategory (tf_env f));
          (score, priority, factors) = computeVerdictScore verdict envCategory (tf_recurrence f) (tf_tier f);
          factors = setKey ''verdict_lookup'' (AStr lkp) (setKey ''class_key'' (AStr (tf_classKey f)) factors);
          factors = (if guardrails = [] then factors else setKey ''guardrails'' (AArr (map AStr guardrails)) factors);
          (score, priority, factors) =
            correlationStep f event correlationType correlationScore isIncidentChild (score, priority, factors)
      in (\<lparr>Score = score, Priority = priority, Factors = factors, Confidence = v_Confidence verdict\<rparr>, mint))"

section \<open>Human overrides\<close>

definition authorityHumanEvent :: string where "authorityHumanEvent = ''human:event''"
definition authorityHumanClass :: string where "authorityHumanClass = ''human:class''"

definition pinScopeRank :: "TriageRule \<Rightarrow> int" where
  "pinScopeRank r = (if tr_AccountID r \<noteq> None then 2 else if tr_TenantID r \<noteq> None then 1 else 0)"

definition pinMoreSpecific :: "TriageRule \<Rightarrow> TriageRule \<Rightarrow> bool" where
  "pinMoreSpecific a b =
     (if pinScopeRank a \<noteq> pinScopeRank b then pinScopeRank a > pinScopeRank b
      else if tr_Priority a \<noteq> tr_Priority b then tr_Priority a < tr_Priority b
      else tr_CreatedAt a > tr_CreatedAt b)"

definition isValidPriority :: "string \<Rightarrow> bool" where
  "isValidPriority s = (ToUpper (TrimSpace s) \<in> {''P0'', ''P1'', ''P2'', ''P3''})"

definition absoluteHumanResult :: "string \<Rightarrow> string \<Rightarrow> string \<Rightarrow> ScoreResult" where
  "absoluteHumanResult priority authority ruleID =
     (let priority = ToUpper (TrimSpace priority);
          score = priorityToMinScore priority;
          factors = [(''scoring_path'', AStr ''human_override''), (''authority'', AStr authority),
            (''priority'', AStr priority), (''final_score'', AInt score)];
          factors = (if ruleID \<noteq> '''' then setKey ''winning_rule_id'' (AStr ruleID) factors else factors)
      in \<lparr>Score = score, Priority = priority, Factors = factors, Confidence = 1\<rparr>)"

text \<open>The priority and the rule of the winning pin.\<close>

definition pinLoop :: "Lib \<Rightarrow> Event \<Rightarrow> int \<Rightarrow> TriageRule list \<Rightarrow> TriageRule option" where
  "pinLoop lib event occ rules =
     foldl (\<lambda>best r.
       if tr_RuleType r \<noteq> RuleTypePriorityPin then best
       else if \<not> MatchesRuleWithOccurrence lib event r occ then best
       else case best of None \<Rightarrow> Some r | Some b \<Rightarrow> if pinMoreSpecific r b then Some r else best) None rules"

definition resolvePriorityPin :: "Lib \<Rightarrow> TriageFacts \<Rightarrow> Event \<Rightarrow> (string \<times> string) option" where
  "resolvePriorityPin lib f event =
     (case (ev_Tenant event, ev_CloudAccountId event) of
        (Some t, Some a) \<Rightarrow>
          if t = '''' \<or> a = '''' then None
          else
            (case tf_rules f of
               Inl err \<Rightarrow> None
             | Inr rules \<Rightarrow>
                 (case pinLoop lib event (if ev_Fingerprint event \<noteq> None then tf_occurrence f else 0) rules of
                    None \<Rightarrow> None
                  | Some best \<Rightarrow>
                      (case ParseActionValue lib (tr_ActionValue best) of
                         Inr (Some av) \<Rightarrow>
                           (case av_Priority av of
                              None \<Rightarrow> None
                            | Some p \<Rightarrow> if TrimSpace p = '''' then None else Some (p, tr_ID best))
                       | _ \<Rightarrow> None)))
      | _ \<Rightarrow> None)"

definition resolveHumanOverride :: "Lib \<Rightarrow> TriageFacts \<Rightarrow> Event \<Rightarrow> ScoreResult option" where
  "resolveHumanOverride lib f event =
     (if ev_Id event = '''' then None
      else if tf_corrected f \<noteq> '''' then Some (absoluteHumanResult (tf_corrected f) authorityHumanEvent '''')
      else
        (case resolvePriorityPin lib f event of
           Some (p, rid) \<Rightarrow> Some (absoluteHumanResult p authorityHumanClass rid)
         | None \<Rightarrow> None))"

definition IsHumanAuthority :: "ScoreResult \<Rightarrow> bool" where
  "IsHumanAuthority r =
     HasPrefix (case getStr (Factors r) ''authority'' of None \<Rightarrow> '''' | Some a \<Rightarrow> a) ''human:''"

section \<open>Scoring an event\<close>

definition llmTriageScoringEnabled :: "TriageFacts \<Rightarrow> Event \<Rightarrow> bool" where
  "llmTriageScoringEnabled f event =
     (if tf_llmForced f then True
      else case ev_Tenant event of None \<Rightarrow> False | Some t \<Rightarrow> t \<noteq> '''' \<and> tf_llmTenant f)"

text \<open>Neither scorer returns an error or nil, so the fallback of \<open>ComputeScore\<close> for a failed verdict
  score is never taken and a legacy result is always there to attach the shadow factors to.\<close>

definition ComputeScore ::
  "Lib \<Rightarrow> TriageFacts \<Rightarrow> Event \<Rightarrow> int \<Rightarrow> string \<Rightarrow> rat \<Rightarrow> bool \<Rightarrow> ScoreResult" where
  "ComputeScore lib f event occurrenceNumber correlationType correlationScore isIncidentChild =
     (let legacy = computeLegacyScore (tf_grouping f) (tf_env f) event occurrenceNumber correlationType
            correlationScore isIncidentChild;
          llm = fst (ComputeScoreLLM f event correlationType correlationScore isIncidentChild)
      in case resolveHumanOverride lib f event of
           Some override \<Rightarrow> override
         | None \<Rightarrow>
             if \<not> llmTriageScoringEnabled f event then legacy
             else if \<not> tf_shadow f then llm
             else legacy\<lparr>Factors :=
               setKey ''shadow_llm_factors'' (AObj (Factors llm))
                 (setKey ''shadow_llm_priority'' (AStr (Priority llm))
                   (setKey ''shadow_llm_score'' (AInt (Score llm)) (Factors legacy)))\<rparr>)"

text \<open>The scoring step of \<open>ProcessEvent\<close>: the result that is stored for the event.\<close>

definition scoreEvent ::
  "Lib \<Rightarrow> TriageFacts \<Rightarrow> TriageRuleResult option \<Rightarrow> Event \<Rightarrow> int \<Rightarrow> string \<Rightarrow> rat \<Rightarrow> bool \<Rightarrow> ScoreResult" where
  "scoreEvent lib f ruleResult event occurrence corrType corrScore isIncidentChild =
     (let result = ComputeScore lib f event occurrence corrType corrScore isIncidentChild
      in case ruleResult of
           None \<Rightarrow> result
         | Some rr \<Rightarrow>
             (case rr_ScoreAdjustment rr of
                None \<Rightarrow> result
              | Some adj \<Rightarrow>
                  if IsHumanAuthority result then result
                  else
                    let score = clampToBand (clamp (Score result + sa_Adjustment adj) 0 100) (Factors result)
                    in result\<lparr>Score := score, Priority := scoreToPriority score\<rparr>))"

section \<open>Bands\<close>

definition isLevel :: "string \<Rightarrow> bool" where
  "isLevel p \<longleftrightarrow> p \<in> {''P0'', ''P1'', ''P2'', ''P3''}"

lemma ToUpper_levels [simp]:
  "ToUpper ''P0'' = ''P0''" "ToUpper ''P1'' = ''P1''" "ToUpper ''P2'' = ''P2''" "ToUpper ''P3'' = ''P3''"
  by code_simp+

lemma TrimSpace_levels [simp]:
  "TrimSpace ''P0'' = ''P0''" "TrimSpace ''P1'' = ''P1''" "TrimSpace ''P2'' = ''P2''" "TrimSpace ''P3'' = ''P3''"
  by code_simp+

lemma band_scores [simp]:
  "bandFloorOf ''P0'' = 80" "bandFloorOf ''P1'' = 60" "bandFloorOf ''P2'' = 40" "bandFloorOf ''P3'' = 0"
  "bandCeilOf ''P0'' = 100" "bandCeilOf ''P1'' = 79" "bandCeilOf ''P2'' = 59" "bandCeilOf ''P3'' = 39"
  by (simp_all add: bandFloorOf_def bandCeilOf_def bandFloorScore_def bandCeilScore_def)

lemma band_bounds: "0 \<le> bandFloorOf p \<and> bandFloorOf p \<le> 80 \<and> 39 \<le> bandCeilOf p \<and> bandCeilOf p \<le> 100"
  by (simp add: bandFloorOf_def bandCeilOf_def bandFloorScore_def bandCeilScore_def)

lemma clamp_bounds: "lo \<le> hi \<Longrightarrow> lo \<le> clamp v lo hi \<and> clamp v lo hi \<le> hi"
  by (simp add: clamp_def)

lemma clamp_id: "lo \<le> v \<Longrightarrow> v \<le> hi \<Longrightarrow> clamp v lo hi = v"
  by (simp add: clamp_def)

lemma clampToBand_levels:
  assumes "isLevel f" "isLevel c" "bandFloorOf f \<le> bandCeilOf c" "getStr fs ''band'' = Some (f @ ''..'' @ c)"
  shows "clampToBand s fs = clamp s (bandFloorOf f) (bandCeilOf c)"
  using assms unfolding isLevel_def
  by (elim insertE emptyE) (simp_all add: clampToBand_def Cut_def bandFloorScore_def bandCeilScore_def)

lemma clampToBand_range: "0 \<le> s \<Longrightarrow> s \<le> 100 \<Longrightarrow> 0 \<le> clampToBand s fs \<and> clampToBand s fs \<le> 100"
  by (auto simp: clampToBand_def clamp_def bandFloorScore_def bandCeilScore_def
      split: option.splits prod.splits if_splits)

text \<open>An operator's tier forces its end of the band and never leaves the band inverted.\<close>

lemma userCriticalityBand_levels:
  "userCriticalityBand CriticalityCritical = Some (''P1'', '''')"
  "userCriticalityBand CriticalityHigh = Some (''P2'', '''')"
  "userCriticalityBand CriticalityLow = Some ('''', ''P3'')"
  by (simp_all add: userCriticalityBand_def criticality_defs)

lemma levels [simp]: "isLevel ''P0''" "isLevel ''P1''" "isLevel ''P2''" "isLevel ''P3''"
  by (simp_all add: isLevel_def)

lemma applyCriticalityBand_floor:
  assumes "isLevel f" "isLevel c" "isUserDeclared tier" "applyCriticalityBand f c tier = (f', c')"
    and "userCriticalityBand (wt_level tier) = Some (b, '''')" "isLevel b"
  shows "isLevel f' \<and> isLevel c' \<and> bandFloorOf f' \<le> bandCeilOf c' \<and> bandFloorOf b \<le> bandFloorOf f'"
proof -
  have "b \<noteq> ''''" using assms(6) by (auto simp: isLevel_def)
  with assms band_bounds [of f] band_bounds [of b] show ?thesis
    by (auto simp: applyCriticalityBand_def Let_def split: if_splits)
qed

lemma applyCriticalityBand_ceiling:
  assumes "isLevel f" "isLevel c" "isUserDeclared tier" "applyCriticalityBand f c tier = (f', c')"
    and "userCriticalityBand (wt_level tier) = Some ('''', ''P3'')"
  shows "isLevel f' \<and> isLevel c' \<and> bandFloorOf f' \<le> bandCeilOf c' \<and> bandCeilOf c' \<le> 39"
  using assms band_bounds [of c] by (auto simp: applyCriticalityBand_def Let_def split: if_splits)

section \<open>The verdict score stays in its band\<close>

lemma verdict_facts:
  assumes "computeVerdictScore v env n tier = (s, p, fs)"
    and "applyCriticalityBand (v_BandFloor v) (v_BandCeiling v) tier = (f, c)"
  shows "p = scoreToPriority s" "0 \<le> s" "s \<le> 100"
    "bandFloorOf f \<le> bandCeilOf c \<Longrightarrow> bandFloorOf f \<le> s \<and> s \<le> bandCeilOf c"
    "getStr fs ''band'' = Some (f @ ''..'' @ c)" "getStr fs ''authority'' = None"
proof -
  obtain base envTerm blast recur crit
    where t: "verdictTerms v env n tier = (base, envTerm, blast, recur, crit)" by (metis prod_cases5)
  note d = assms(1) [unfolded computeVerdictScore_def t assms(2) Let_def prod.case, simplified]
  show "p = scoreToPriority s" using d by auto
  have s: "s = clamp (clamp (base + envTerm + blast + recur + crit) (bandFloorOf f) (bandCeilOf c)) 0 100"
    using d by auto
  then show "0 \<le> s" "s \<le> 100" by (simp_all add: clamp_def)
  show "bandFloorOf f \<le> s \<and> s \<le> bandCeilOf c" if "bandFloorOf f \<le> bandCeilOf c"
    using s that band_bounds [of f] band_bounds [of c] by (auto simp: clamp_def)
  show "getStr fs ''band'' = Some (f @ ''..'' @ c)" "getStr fs ''authority'' = None"
    using d by (auto simp: getStr_def split: if_splits)
qed

text \<open>What holds of every result of the verdict path: consistency of score and priority, and the
  band it carries, in which the score lies.\<close>

definition inBand :: "string \<Rightarrow> string \<Rightarrow> int \<Rightarrow> string \<Rightarrow> object \<Rightarrow> bool" where
  "inBand f c s p fs \<longleftrightarrow> p = scoreToPriority s \<and> 0 \<le> s \<and> s \<le> 100 \<and>
     getStr fs ''band'' = Some (f @ ''..'' @ c) \<and> getStr fs ''authority'' = None \<and>
     (isLevel f \<and> isLevel c \<and> bandFloorOf f \<le> bandCeilOf c \<longrightarrow> bandFloorOf f \<le> s \<and> s \<le> bandCeilOf c)"

lemma correlationStep_inBand:
  assumes "inBand f c s p fs" "correlationStep tf ev ct cs child (s, p, fs) = (s', p', fs')"
  shows "inBand f c s' p' fs'"
proof -
  obtain adj corrType where a: "(if ev_Id ev \<noteq> '''' then resolveCorrelationAdjustment (tf_grouping tf) child ct cs
      llmCorrelationAdjustment else (0, '''')) = (adj, corrType)" by force
  let ?s = "clampToBand (clamp (s + adj) 0 100) fs"
  have "0 \<le> ?s \<and> ?s \<le> 100" by (rule clampToBand_range) (simp_all add: clamp_def)
  moreover have "bandFloorOf f \<le> ?s \<and> ?s \<le> bandCeilOf c"
    if "isLevel f" "isLevel c" "bandFloorOf f \<le> bandCeilOf c"
    using clampToBand_levels [OF that] assms(1) clamp_bounds [OF that(3)] by (simp add: inBand_def)
  ultimately show ?thesis
    using assms by (auto simp: correlationStep_def a inBand_def Let_def split: if_splits)
qed

lemma ComputeScoreLLM_inBand:
  fixes ct :: string and cs :: rat and child :: bool
  assumes "lookupVerdict tf ev = (v, lkp, mint)" "applyDeterministicGuardrails v ev = (v', gs)"
    and "applyCriticalityBand (v_BandFloor v') (v_BandCeiling v') (tf_tier tf) = (f, c)"
  defines "r \<equiv> fst (ComputeScoreLLM tf ev ct cs child)"
  shows "inBand f c (Score r) (Priority r) (Factors r)"
proof -
  let ?env = "case ev_CloudAccountId ev of None \<Rightarrow> ''unknown'' | Some a \<Rightarrow> getEnvironmentCategory (tf_env tf)"
  obtain s p fs where v: "computeVerdictScore v' ?env (tf_recurrence tf) (tf_tier tf) = (s, p, fs)"
    by (metis prod_cases3)
  define fs1 where "fs1 = setKey ''verdict_lookup'' (AStr lkp) (setKey ''class_key'' (AStr (tf_classKey tf)) fs)"
  define fs2 where "fs2 = (if gs = [] then fs1 else setKey ''guardrails'' (AArr (map AStr gs)) fs1)"
  obtain s' p' fs' where c: "correlationStep tf ev ct cs child (s, p, fs2) = (s', p', fs')" by (metis prod_cases3)
  have "inBand f c s p fs2"
    using verdict_facts [OF v assms(3)] by (auto simp: inBand_def fs2_def fs1_def)
  from correlationStep_inBand [OF this c] show ?thesis
    using assms(1,2) v c by (simp add: r_def ComputeScoreLLM_def fs1_def [symmetric] fs2_def [symmetric])
qed

lemma lookupVerdict_cases:
  "fst (lookupVerdict f event) = fallbackVerdict event \<or> tf_verdict f = Some (fst (lookupVerdict f event))"
  by (auto simp: lookupVerdict_def Let_def split: option.splits if_splits)

text \<open>A scoring rule leaves a verdict score in its band.\<close>

definition adjustResult :: "TriageRuleResult option \<Rightarrow> ScoreResult \<Rightarrow> ScoreResult" where
  "adjustResult rr result =
     (case Option.bind rr rr_ScoreAdjustment of
        None \<Rightarrow> result
      | Some adj \<Rightarrow>
          if IsHumanAuthority result then result
          else
            let score = clampToBand (clamp (Score result + sa_Adjustment adj) 0 100) (Factors result)
            in result\<lparr>Score := score, Priority := scoreToPriority score\<rparr>)"

lemma scoreEvent_adjustResult:
  "scoreEvent lib f rr event occ ct cs child = adjustResult rr (ComputeScore lib f event occ ct cs child)"
  by (auto simp: scoreEvent_def adjustResult_def Let_def split: option.splits)

lemma adjustResult_inBand:
  assumes "inBand f c (Score r) (Priority r) (Factors r)"
  shows "inBand f c (Score (adjustResult rr r)) (Priority (adjustResult rr r)) (Factors (adjustResult rr r))"
proof (cases "Option.bind rr rr_ScoreAdjustment")
  case (Some adj)
  let ?s = "clampToBand (clamp (Score r + sa_Adjustment adj) 0 100) (Factors r)"
  have "0 \<le> ?s \<and> ?s \<le> 100" by (rule clampToBand_range) (simp_all add: clamp_def)
  moreover have "bandFloorOf f \<le> ?s \<and> ?s \<le> bandCeilOf c"
    if "isLevel f" "isLevel c" "bandFloorOf f \<le> bandCeilOf c"
    using clampToBand_levels [OF that] assms clamp_bounds [OF that(3)] by (simp add: inBand_def)
  ultimately show ?thesis
    using assms Some by (auto simp: adjustResult_def inBand_def Let_def)
qed (use assms in \<open>simp add: adjustResult_def\<close>)

section \<open>Pins\<close>

interpretation pin_order: strict_weak_order pinMoreSpecific
proof
  show "\<not> pinMoreSpecific x x" for x by (simp add: pinMoreSpecific_def)
  show "\<not> pinMoreSpecific y x" if "pinMoreSpecific x y" for x y
    using that by (auto simp: pinMoreSpecific_def split: if_splits)
  show "pinMoreSpecific x y \<or> pinMoreSpecific y z" if "pinMoreSpecific x z" for x y z
    using that by (auto simp: pinMoreSpecific_def split: if_splits)
qed

definition isPin :: "Lib \<Rightarrow> Event \<Rightarrow> int \<Rightarrow> TriageRule \<Rightarrow> bool" where
  "isPin lib event occ r \<longleftrightarrow> tr_RuleType r = RuleTypePriorityPin \<and> MatchesRuleWithOccurrence lib event r occ"

lemma pinLoop_scan:
  "pinLoop lib event occ rules =
     (case filter (isPin lib event occ) rules of [] \<Rightarrow> None | r # rs \<Rightarrow> Some (scanBest pinMoreSpecific r rs))"
proof -
  define step where "step = (\<lambda>best r. if isPin lib event occ r then
      (case best of None \<Rightarrow> Some r | Some b \<Rightarrow> if pinMoreSpecific r b then Some r else best) else best)"
  have some: "foldl step (Some b) rs = Some (scanBest pinMoreSpecific b (filter (isPin lib event occ) rs))" for b rs
    by (induction rs arbitrary: b) (auto simp: step_def)
  have "pinLoop lib event occ rules = foldl step None rules"
    unfolding pinLoop_def step_def isPin_def by (rule arg_cong [of _ _ "\<lambda>g. foldl g None rules"]) (auto simp: fun_eq_iff)
  also have "\<dots> =
     (case filter (isPin lib event occ) rules of [] \<Rightarrow> None | r # rs \<Rightarrow> Some (scanBest pinMoreSpecific r rs))"
  proof (induction rules)
    case (Cons r rules)
    then show ?case using some [of r rules] by (auto simp: step_def)
  qed simp
  finally show ?thesis .
qed

lemma pinLoop_winner:
  assumes "r \<in> set rules" "isPin lib event occ r"
    and "\<And>r'. r' \<in> set rules \<Longrightarrow> isPin lib event occ r' \<Longrightarrow> r' \<noteq> r \<Longrightarrow> pinMoreSpecific r r'"
  shows "pinLoop lib event occ rules = Some r"
proof -
  let ?pins = "filter (isPin lib event occ) rules"
  have "r \<in> set ?pins" using assms by simp
  then obtain p ps where ps: "?pins = p # ps" by (cases ?pins) auto
  let ?best = "scanBest pinMoreSpecific p ps"
  have mem: "set ?pins = insert p (set ps)" by (simp add: ps)
  have "?best \<in> set ?pins" using scanBest_in [of pinMoreSpecific p ps] by (simp only: mem)
  moreover have "r \<in> insert p (set ps)" using \<open>r \<in> set ?pins\<close> mem by blast
  then have "\<not> pinMoreSpecific r ?best" by (rule pin_order.scanBest_least)
  ultimately have "?best = r" using assms(3) [of ?best] by auto
  then show ?thesis by (simp add: pinLoop_scan ps)
qed

text \<open>A small configuration, on which the properties are instantiated.\<close>

definition exFacts :: "string \<Rightarrow> string \<Rightarrow> TriageFacts" where
  "exFacts corrected level =
     \<lparr>tf_corrected = corrected, tf_rules = Inr [], tf_occurrence = 1, tf_env = Some ''prod'',
      tf_verdict = None, tf_classKey = ''k'', tf_recurrence = 1,
      tf_tier = \<lparr>wt_level = level, wt_source = (if level = '''' then '''' else CriticalitySourceUser)\<rparr>,
      tf_grouping = True, tf_llmForced = True, tf_llmTenant = False, tf_shadow = False, tf_remint = False\<rparr>"

lemma exFacts_override: "resolveHumanOverride exLib (exFacts '''' level) event = None"
  by (simp add: resolveHumanOverride_def resolvePriorityPin_def pinLoop_def exFacts_def split: option.split)

section \<open>The properties of scoring\<close>

text \<open>A human decision is final. Whatever the scorers, the shadow mode, the correlation and the
  scoring rules say, an event with a human correction is stored with exactly the corrected
  priority; and with no correction, a matching priority pin that is more specific than every
  other matching pin decides in the same way.\<close>

theorem human_override_absolute:
  assumes "ev_Id event \<noteq> ''''"
    and "(isValidPriority p \<and> tf_corrected f = p \<and> p \<noteq> '''') \<or>
      (tf_corrected f = '''' \<and> isValidPriority p \<and> tf_rules f = Inr rules \<and> r \<in> set rules \<and>
       (\<exists>t a. ev_Tenant event = Some t \<and> ev_CloudAccountId event = Some a \<and> t \<noteq> '''' \<and> a \<noteq> '''') \<and>
       (\<exists>av. ParseActionValue lib (tr_ActionValue r) = Inr (Some av) \<and> av_Priority av = Some p) \<and>
       isPin lib event (if ev_Fingerprint event \<noteq> None then tf_occurrence f else 0) r \<and>
       (\<forall>r'\<in>set rules. isPin lib event (if ev_Fingerprint event \<noteq> None then tf_occurrence f else 0) r' \<longrightarrow>
          r' = r \<or> pinMoreSpecific r r'))"
  shows "Priority (scoreEvent lib f rr event occ ct cs child) = ToUpper (TrimSpace p) \<and>
    Score (scoreEvent lib f rr event occ ct cs child) = priorityToMinScore (ToUpper (TrimSpace p)) \<and>
    scoreToPriority (Score (scoreEvent lib f rr event occ ct cs child)) = ToUpper (TrimSpace p)"
proof -
  have p: "TrimSpace p \<noteq> ''''" "ToUpper (TrimSpace p) \<in> {''P0'', ''P1'', ''P2'', ''P3''}"
    using assms(2) by (auto simp: isValidPriority_def ToUpper_def)
  obtain auth rid where o: "resolveHumanOverride lib f event = Some (absoluteHumanResult p auth rid)"
    and auth: "HasPrefix auth ''human:''"
  proof (cases "tf_corrected f = ''''")
    case True
    let ?occ = "if ev_Fingerprint event \<noteq> None then tf_occurrence f else 0"
    from assms(2) True have r: "tf_rules f = Inr rules" "r \<in> set rules" "isPin lib event ?occ r"
      "\<forall>r'\<in>set rules. isPin lib event ?occ r' \<longrightarrow> r' = r \<or> pinMoreSpecific r r'" by auto
    have "pinLoop lib event ?occ rules = Some r" by (rule pinLoop_winner) (use r in auto)
    then have "resolvePriorityPin lib f event = Some (p, tr_ID r)"
      using assms(2) True p(1) by (auto simp: resolvePriorityPin_def)
    then have "resolveHumanOverride lib f event = Some (absoluteHumanResult p authorityHumanClass (tr_ID r))"
      using assms(1) True by (simp add: resolveHumanOverride_def)
    then show thesis using that by (simp add: authorityHumanClass_def)
  next
    case False
    then have "resolveHumanOverride lib f event = Some (absoluteHumanResult p authorityHumanEvent '''')"
      using assms by (auto simp: resolveHumanOverride_def)
    then show thesis using that by (simp add: authorityHumanEvent_def)
  qed
  have "IsHumanAuthority (absoluteHumanResult p auth rid)"
    using auth by (simp add: IsHumanAuthority_def absoluteHumanResult_def Let_def getStr_def)
  then have s: "scoreEvent lib f rr event occ ct cs child = absoluteHumanResult p auth rid"
    by (simp add: scoreEvent_adjustResult adjustResult_def ComputeScore_def o Let_def split: option.split)
  have "scoreToPriority (priorityToMinScore q) = q" if "q \<in> {''P0'', ''P1'', ''P2'', ''P3''}" for q
    using that by (auto simp: scoreToPriority_def priorityToMinScore_def)
  then show ?thesis using p(2) by (simp add: s absoluteHumanResult_def Let_def)
qed

theorem human_override_absolute_witness:
  "Priority (scoreEvent exLib (exFacts ''P2'' ''critical'')
     (Some \<lparr>rr_RuleID = ''r'', rr_RuleType = RuleTypeScoring, rr_Action = ''adjust_score'', rr_Suppression = None,
        rr_ScoreAdjustment = Some \<lparr>sa_Adjustment = 50, sa_Reason = ''''\<rparr>, rr_AutoClassification = None\<rparr>)
     exEvent 1 '''' 0 False) = ''P2''"
  using human_override_absolute [of exEvent "''P2''" "exFacts ''P2'' ''critical''"]
  by (simp add: isValidPriority_def) (simp add: exFacts_def exEvent_def)

text \<open>C8: an operator's declaration survives the whole pipeline. When the verdict path decides and no
  human override applies, an event of a workload an operator declared critical is stored with
  at least the P1 score, high with at least the P2 score, and low with at most the P3 score,
  whatever the model verdict, the environment, the recurrence, the correlation and the scoring
  rules contribute.\<close>

theorem operator_tier_respected:
  fixes occ :: int and ct :: string and cs :: rat and child :: bool
  assumes "resolveHumanOverride lib f event = None" "llmTriageScoringEnabled f event" "\<not> tf_shadow f"
    and "isUserDeclared (tf_tier f)"
    and "\<And>v. tf_verdict f = Some v \<Longrightarrow> isLevel (v_BandFloor v) \<and> isLevel (v_BandCeiling v)"
  defines "result \<equiv> \<lambda>rr. scoreEvent lib f rr event occ ct cs child"
  shows "(wt_level (tf_tier f) = CriticalityCritical \<longrightarrow> 60 \<le> Score (result rr)) \<and>
    (wt_level (tf_tier f) = CriticalityHigh \<longrightarrow> 40 \<le> Score (result rr)) \<and>
    (wt_level (tf_tier f) = CriticalityLow \<longrightarrow> Score (result rr) \<le> 39)"
proof -
  obtain v lkp mint where l: "lookupVerdict f event = (v, lkp, mint)" by (metis prod_cases3)
  obtain v' gs where g: "applyDeterministicGuardrails v event = (v', gs)" by force
  obtain fl ce where b: "applyCriticalityBand (v_BandFloor v') (v_BandCeiling v') (tf_tier f) = (fl, ce)" by force
  have "isLevel (v_BandFloor v) \<and> isLevel (v_BandCeiling v)"
    using lookupVerdict_cases [of f event] l assms(5) by (auto simp: fallbackVerdict_def)
  then have lv: "isLevel (v_BandFloor v')" "isLevel (v_BandCeiling v')"
    using g by (auto simp: applyDeterministicGuardrails_def split: if_splits)
  have r: "result rr = adjustResult rr (fst (ComputeScoreLLM f event ct cs child))"
    using assms(1-3) by (simp add: result_def scoreEvent_adjustResult ComputeScore_def Let_def)
  have "inBand fl ce (Score (result rr)) (Priority (result rr)) (Factors (result rr))"
    unfolding r by (rule adjustResult_inBand) (rule ComputeScoreLLM_inBand [OF l g b])
  then have band: "isLevel fl \<and> isLevel ce \<and> bandFloorOf fl \<le> bandCeilOf ce \<longrightarrow>
      bandFloorOf fl \<le> Score (result rr) \<and> Score (result rr) \<le> bandCeilOf ce" by (simp add: inBand_def)
  note fl = applyCriticalityBand_floor [OF lv assms(4) b] and ce = applyCriticalityBand_ceiling [OF lv assms(4) b]
  show ?thesis
    using band fl [of "''P1''"] fl [of "''P2''"] ce userCriticalityBand_levels by auto
qed

theorem operator_tier_respected_witness:
  "60 \<le> Score (scoreEvent exLib (exFacts '''' CriticalityCritical) None exEvent 1 '''' 0 True)"
  using operator_tier_respected [where lib = exLib and f = "exFacts '''' CriticalityCritical" and event = exEvent
      and occ = 1 and ct = "''''" and cs = 0 and child = True and rr = None, OF exFacts_override]
  by (simp add: exFacts_def llmTriageScoringEnabled_def isUserDeclared_def criticality_defs)

text \<open>lifecycle notifications stay at the bottom. A provider state-change notification of a
  workload without an operator's tier is scored at most 39 (P3) by the verdict path, whatever
  the model said of its class and also when it is a correlated root cause or a scoring rule
  raises it: the band is asserted again after each of these terms.\<close>

theorem lifecycle_pinned:
  assumes "isProviderLifecycleNotification event" "\<not> isUserDeclared (tf_tier f)"
    and "resolveHumanOverride lib f event = None" "llmTriageScoringEnabled f event" "\<not> tf_shadow f"
  shows "Score (scoreEvent lib f rr event occ ct cs child) \<le> 39 \<and>
    Priority (scoreEvent lib f rr event occ ct cs child) = ''P3''"
proof -
  obtain v lkp mint where l: "lookupVerdict f event = (v, lkp, mint)" by (metis prod_cases3)
  obtain v' gs where g: "applyDeterministicGuardrails v event = (v', gs)" by force
  then have "v_BandFloor v' = ''P3''" "v_BandCeiling v' = ''P3''"
    using assms(1) by (auto simp: applyDeterministicGuardrails_def)
  then have b: "applyCriticalityBand (v_BandFloor v') (v_BandCeiling v') (tf_tier f) = (''P3'', ''P3'')"
    using assms(2) by (simp add: applyCriticalityBand_def)
  let ?r = "scoreEvent lib f rr event occ ct cs child"
  have "?r = adjustResult rr (fst (ComputeScoreLLM f event ct cs child))"
    using assms(3-5) by (simp add: scoreEvent_adjustResult ComputeScore_def Let_def)
  then have "inBand ''P3'' ''P3'' (Score ?r) (Priority ?r) (Factors ?r)"
    using adjustResult_inBand [OF ComputeScoreLLM_inBand [OF l g b]] by simp
  then show ?thesis by (auto simp: inBand_def scoreToPriority_def)
qed

theorem lifecycle_pinned_witness:
  "Priority (scoreEvent exLib (exFacts '''' '''') None
     (exEvent\<lparr>ev_AggregationKey := Some ''EC2 Instance State-change Notification''\<rparr>) 1 ''likely_root_cause'' 1 False) = ''P3''"
proof -
  let ?e = "exEvent\<lparr>ev_AggregationKey := Some ''EC2 Instance State-change Notification''\<rparr>"
  have "isProviderLifecycleNotification ?e" by code_simp
  then show ?thesis
    using lifecycle_pinned [of ?e "exFacts '''' ''''" exLib, OF _ _ exFacts_override]
    by (simp add: exFacts_def llmTriageScoringEnabled_def isUserDeclared_def criticality_defs)
qed

text \<open>the severity formula. Its score is always between 0 and 100 with the priority of that
  score, and a further occurrence of the same event, or filing it under an incident head, never
  raises it.\<close>

theorem legacy_score_sound:
  fixes event :: Event and env :: "string option" and ct :: string and cs :: rat
  defines "sc \<equiv> \<lambda>g n child. computeLegacyScore g env event n ct cs child"
  shows "0 \<le> Score (sc g n child) \<and> Score (sc g n child) \<le> 100 \<and>
    Priority (sc g n child) = scoreToPriority (Score (sc g n child)) \<and>
    (n \<le> n' \<longrightarrow> Score (sc g n' child) \<le> Score (sc g n child)) \<and>
    Score (sc True n True) \<le> Score (sc True n False)"
proof -
  define raw where "raw = trunc_int (f64 (f64 (of_int (getBaseSeverity (ev_Priority event)) *
    (case ev_CloudAccountId event of None \<Rightarrow> EnvMultiplierDefault | Some a \<Rightarrow> getEnvironmentMultiplier env)) * ScoreMultiplier))"
  define dup where "dup = (\<lambda>n. if ev_Id event \<noteq> '''' then getDuplicatePenalty n else 0)"
  define cor where "cor = (\<lambda>g child. fst (if ev_Id event \<noteq> '''' then
    resolveCorrelationAdjustment g child ct cs getCorrelationAdjustment else (0, ct)))"
  define rest where "rest = getFindingTypeAdjustment (ev_FindingType event) + getEvidenceBonus (ev_Evidences event)"
  have s: "Score (sc g n child) = clamp (raw - dup n + cor g child + rest) 0 100"
    "Priority (sc g n child) = scoreToPriority (Score (sc g n child))" for g n child
    by (simp_all add: sc_def computeLegacyScore_def Let_def raw_def dup_def cor_def rest_def algebra_simps
        split: prod.splits)
  have "dup n \<le> dup n'" if "n \<le> n'"
    using that by (auto simp: dup_def getDuplicatePenalty_def DuplicatePenaltyPerOccurrence_def
        MaxDuplicatePenalty_def Let_def)
  moreover have "cor True True \<le> cor True False"
    by (auto simp: cor_def resolveCorrelationAdjustment_def incidentCorrelationAdjustment_def correlation_defs)
  ultimately show ?thesis by (auto simp: s clamp_def)
qed

theorem legacy_score_sound_witness:
  "Score (computeLegacyScore True (Some ''prod'') exEvent 9 '''' 0 False)
     \<le> Score (computeLegacyScore True (Some ''prod'') exEvent 2 '''' 0 False)"
  using legacy_score_sound [where g = True and env = "Some ''prod''" and event = exEvent and n = 2
      and ct = "''''" and cs = 0 and child = False and n' = 9] by simp

end
