(* ===== verification/WorkflowDag.thy ===== *)
theory WorkflowDag
  imports GoAny GoStrings
begin

text \<open>
  Validation of workflow definitions (\<open>runbook-server/internal/workflow\<close>): the dependency graph
  (\<open>dag_validation.go\<close>), and the data of a task the other workflow theories build on.

  A task carries, beside its parameters, the tasks that \<open>extractSubtasksFromParams\<close> decodes from
  \<open>params["tasks"]\<close> (in Go they are read again from the parameters on each use). Go iterates over
  maps in an unspecified order: the topological sort takes the order of the keys as an argument,
  and the maps of a task are association lists in whatever order the iteration has. The depth
  first search carries fuel; it is called with one unit per name that occurs in the graph, which
  is shown to be enough.
\<close>

datatype Action = Action
  (action_Type: string)
  (action_Params: object)

datatype Hooks = Hooks
  (hooks_Success: "Action list")
  (hooks_Failure: "Action list")
  (hooks_Always: "Action list")

text \<open>\<open>task_FailureAction\<close> is \<open>FailurePolicy.Action\<close>, empty without a policy. Timeouts, retries and layout are left out.\<close>

datatype Task = Task
  (task_ID: string)
  (task_Type: string)
  (task_Params: object)
  (task_Tasks: "Task list")
  (task_ParamTasks: "Task list")
  (task_SetVars: object)
  (task_SetState: object)
  (task_DependsOn: "string list")
  (task_If: string)
  (task_Matrix: object)
  (task_FailureAction: string)
  (task_Hooks: "Hooks option")
  (task_Disabled: bool)

text \<open>A task that sets none of the control fields.\<close>

abbreviation plainTask ::
  "string \<Rightarrow> string \<Rightarrow> object \<Rightarrow> Task list \<Rightarrow> Task list \<Rightarrow> object \<Rightarrow> object \<Rightarrow> string list \<Rightarrow> Task" where
  "plainTask i ty ps sub psub vs ss ds \<equiv> Task i ty ps sub psub vs ss ds [] [] [] None False"

definition zeroTask :: Task where
  "zeroTask = plainTask '''' '''' [] [] [] [] [] []"

section \<open>Topological sort\<close>

record dfsState =
  visiting :: "string set"
  visited :: "string set"
  finished :: "string list"

text \<open>\<open>dfs\<close> and its loop over the neighbours; the error is the task at which a cycle closed.\<close>

function dfs :: "nat \<Rightarrow> (string \<rightharpoonup> string list) \<Rightarrow> string \<Rightarrow> dfsState \<Rightarrow> (dfsState \<times> string option) option"
  and dfsNeighbors ::
    "nat \<Rightarrow> (string \<rightharpoonup> string list) \<Rightarrow> string \<Rightarrow> string list \<Rightarrow> dfsState \<Rightarrow> (dfsState \<times> string option) option"
where
  "dfs 0 g node st = None"
| "dfs (Suc n) g node st =
     (case dfsNeighbors n g node (map_get [] g node)
        (st\<lparr>visiting := insert node (visiting st), visited := insert node (visited st)\<rparr>) of
        None \<Rightarrow> None
      | Some (st', Some err) \<Rightarrow> Some (st', Some err)
      | Some (st', None) \<Rightarrow>
          Some (st'\<lparr>visiting := visiting st' - {node}, finished := finished st' @ [node]\<rparr>, None))"
| "dfsNeighbors n g node [] st = Some (st, None)"
| "dfsNeighbors n g node (nb # nbs) st =
     (if nb \<in> visiting st then Some (st, Some node)
      else if nb \<notin> visited st then
        (case dfs n g nb st of
           None \<Rightarrow> None
         | Some (st', Some err) \<Rightarrow> Some (st', Some err)
         | Some (st', None) \<Rightarrow> dfsNeighbors n g node nbs st')
      else dfsNeighbors n g node nbs st)"
  by pat_completeness auto
termination
  by (relation "measures
        [\<lambda>x. case x of Inl (n, g, node, st) \<Rightarrow> n | Inr (n, g, node, nbs, st) \<Rightarrow> n,
         \<lambda>x. case x of Inl (n, g, node, st) \<Rightarrow> 0 | Inr (n, g, node, nbs, st) \<Rightarrow> Suc (length nbs)]") auto

text \<open>The loop over the keys of the graph.\<close>

fun dfsAll :: "nat \<Rightarrow> (string \<rightharpoonup> string list) \<Rightarrow> string list \<Rightarrow> dfsState \<Rightarrow> (dfsState \<times> string option) option" where
  "dfsAll n g [] st = Some (st, None)"
| "dfsAll n g (k # ks) st =
     (if k \<notin> visited st then
        (case dfs n g k st of
           None \<Rightarrow> None
         | Some (st', Some err) \<Rightarrow> Some (st', Some err)
         | Some (st', None) \<Rightarrow> dfsAll n g ks st')
      else dfsAll n g ks st)"

definition taskGraph :: "Task list \<Rightarrow> (string \<rightharpoonup> string list)" where
  "taskGraph tasks = foldl (\<lambda>g t. g(task_ID t \<mapsto> task_DependsOn t)) Map.empty tasks"

definition taskMap :: "Task list \<Rightarrow> (string \<rightharpoonup> Task)" where
  "taskMap tasks = foldl (\<lambda>m t. m(task_ID t \<mapsto> t)) Map.empty tasks"

text \<open>Every name in the graph; its length is the fuel.\<close>

definition taskNames :: "Task list \<Rightarrow> string list" where
  "taskNames tasks = remdups (map task_ID tasks @ concat (map task_DependsOn tasks))"

definition startState :: dfsState where
  "startState = \<lparr>visiting = {}, visited = {}, finished = []\<rparr>"

datatype DagError =
    DuplicateID string
  | InGroup string DagError
  | InForeach string DagError
  | MissingDep string string
  | Circular string

definition runTopologicalSort ::
  "(string list \<Rightarrow> string list) \<Rightarrow> Task list \<Rightarrow> (DagError + Task list) option" where
  "runTopologicalSort ord tasks =
     (case dfsAll (length (taskNames tasks)) (taskGraph tasks) (ord (remdups (map task_ID tasks))) startState of
        None \<Rightarrow> None
      | Some (st, Some node) \<Rightarrow> Some (Inl (Circular node))
      | Some (st, None) \<Rightarrow> Some (Inr (map (map_get zeroTask (taskMap tasks)) (finished st))))"

definition TopologicalSort :: "(string list \<Rightarrow> string list) \<Rightarrow> Task list \<Rightarrow> DagError + Task list" where
  "TopologicalSort ord tasks = the (runTopologicalSort ord tasks)"

section \<open>Validation\<close>

text \<open>The second pass: dependencies that exist.\<close>

fun missingDep :: "string set \<Rightarrow> Task list \<Rightarrow> DagError option" where
  "missingDep ids [] = None"
| "missingDep ids (t # ts) =
     (case find (\<lambda>d. d \<notin> ids) (task_DependsOn t) of
        Some d \<Rightarrow> Some (MissingDep (task_ID t) d)
      | None \<Rightarrow> missingDep ids ts)"

text \<open>The first pass, with the identifiers seen so far, and \<open>ValidateDAG\<close> itself.\<close>

function validateTasks :: "(string list \<Rightarrow> string list) \<Rightarrow> string set \<Rightarrow> Task list \<Rightarrow> DagError option"
  and ValidateDAG :: "(string list \<Rightarrow> string list) \<Rightarrow> Task list \<Rightarrow> DagError option"
where
  "validateTasks ord seen [] = None"
| "validateTasks ord seen (t # ts) =
     (if task_ID t \<in> seen then Some (DuplicateID (task_ID t))
      else
        case (if task_Tasks t \<noteq> [] then map_option (InGroup (task_ID t)) (ValidateDAG ord (task_Tasks t)) else None) of
          Some err \<Rightarrow> Some err
        | None \<Rightarrow>
            (case (if task_Type t = ''core.foreach'' \<and> task_ParamTasks t \<noteq> []
                   then map_option (InForeach (task_ID t)) (ValidateDAG ord (task_ParamTasks t)) else None) of
               Some err \<Rightarrow> Some err
             | None \<Rightarrow> validateTasks ord (insert (task_ID t) seen) ts))"
| "ValidateDAG ord tasks =
     (case validateTasks ord {} tasks of
        Some err \<Rightarrow> Some err
      | None \<Rightarrow>
          (case missingDep (set (map task_ID tasks)) tasks of
             Some err \<Rightarrow> Some err
           | None \<Rightarrow> (case TopologicalSort ord tasks of Inl err \<Rightarrow> Some err | Inr _ \<Rightarrow> None)))"
  by pat_completeness auto
termination
proof (relation "measures
    [\<lambda>x. case x of Inl (ord, seen, ts) \<Rightarrow> size_list size ts | Inr (ord, ts) \<Rightarrow> size_list size ts,
     \<lambda>x. case x of Inl _ \<Rightarrow> 0 | Inr _ \<Rightarrow> 1]", goal_cases)
  case (2 ord seen t ts)
  then show ?case by (cases t) simp
next
  case (3 ord seen t ts)
  then show ?case by (cases t) simp
qed auto

declare ValidateDAG.simps [simp del]

section \<open>The depth first search\<close>

abbreviation deps :: "(string \<rightharpoonup> string list) \<Rightarrow> string \<Rightarrow> string set" where
  "deps g x \<equiv> set (map_get [] g x)"

definition edges :: "(string \<rightharpoonup> string list) \<Rightarrow> (string \<times> string) set" where
  "edges g = {(x, y). y \<in> deps g x}"

text \<open>Everything a finished task depends on was finished before it.\<close>

definition topo :: "(string \<rightharpoonup> string list) \<Rightarrow> string list \<Rightarrow> bool" where
  "topo g F \<longleftrightarrow> (\<forall>us x vs. F = us @ x # vs \<longrightarrow> deps g x \<subseteq> set us)"

lemma topo_Nil [simp]: "topo g []"
  by (simp add: topo_def)

lemma topo_snoc [simp]: "topo g (F @ [x]) \<longleftrightarrow> topo g F \<and> deps g x \<subseteq> set F"
proof
  assume t: "topo g (F @ [x])"
  have "topo g F"
    unfolding topo_def
  proof (intro allI impI)
    fix us y vs assume "F = us @ y # vs"
    then have "F @ [x] = us @ y # (vs @ [x])" by simp
    then show "deps g y \<subseteq> set us" using t unfolding topo_def by blast
  qed
  moreover have "deps g x \<subseteq> set F" using t unfolding topo_def by blast
  ultimately show "topo g F \<and> deps g x \<subseteq> set F" ..
next
  assume t: "topo g F \<and> deps g x \<subseteq> set F"
  show "topo g (F @ [x])"
    unfolding topo_def
  proof (intro allI impI)
    fix us y vs assume e: "F @ [x] = us @ y # vs"
    show "deps g y \<subseteq> set us"
    proof (cases vs rule: rev_cases)
      case Nil
      then show ?thesis using e t by simp
    next
      case (snoc ws z)
      then have "F = us @ y # ws" using e by simp
      then show ?thesis using t unfolding topo_def by blast
    qed
  qed
qed

definition dfsInv :: "(string \<rightharpoonup> string list) \<Rightarrow> dfsState \<Rightarrow> bool" where
  "dfsInv g st \<longleftrightarrow> visited st = visiting st \<union> set (finished st) \<and> visiting st \<inter> set (finished st) = {} \<and>
     distinct (finished st) \<and> topo g (finished st)"

abbreviation cyclic :: "(string \<rightharpoonup> string list) \<Rightarrow> bool" where
  "cyclic g \<equiv> \<exists>x. (x, x) \<in> (edges g)\<^sup>+"

text \<open>The stack of the search: every task on it reaches the current one.\<close>

abbreviation stacked :: "(string \<rightharpoonup> string list) \<Rightarrow> string \<Rightarrow> dfsState \<Rightarrow> bool" where
  "stacked g node st \<equiv> \<forall>v\<in>visiting st. (v, node) \<in> (edges g)\<^sup>*"

lemma dfs_mono:
  "dfs n g node st = Some (st', r) \<Longrightarrow> visited st \<subseteq> visited st' \<and> node \<in> visited st'"
  "dfsNeighbors n g node nbs st = Some (st', r) \<Longrightarrow> visited st \<subseteq> visited st'"
proof (induction n g node st and n g node nbs st arbitrary: st' r and st' r rule: dfs_dfsNeighbors.induct)
  case (4 n g node nb nbs st)
  then show ?case by (auto split: if_splits option.splits prod.splits) blast+
qed (auto split: option.splits prod.splits)

lemma dfs_sound:
  "dfsInv g st \<Longrightarrow> node \<notin> visited st \<Longrightarrow> stacked g node st \<Longrightarrow> dfs n g node st = Some (st', r) \<Longrightarrow>
     (case r of None \<Rightarrow> dfsInv g st' \<and> visiting st' = visiting st | Some e \<Rightarrow> cyclic g)"
  "dfsInv g st \<Longrightarrow> node \<in> visiting st \<Longrightarrow> stacked g node st \<Longrightarrow> set nbs \<subseteq> deps g node \<Longrightarrow>
   dfsNeighbors n g node nbs st = Some (st', r) \<Longrightarrow>
     (case r of None \<Rightarrow> dfsInv g st' \<and> visiting st' = visiting st \<and> set nbs \<subseteq> set (finished st')
      | Some e \<Rightarrow> cyclic g)"
proof (induction n g node st and n g node nbs st arbitrary: st' r and st' r rule: dfs_dfsNeighbors.induct)
  case (2 n g node st)
  let ?st = "st\<lparr>visiting := insert node (visiting st), visited := insert node (visited st)\<rparr>"
  obtain st1 r1 where n: "dfsNeighbors n g node (map_get [] g node) ?st = Some (st1, r1)"
    using "2.prems"(4) by (auto split: option.splits)
  have "dfsInv g ?st" using "2.prems"(1,2) by (auto simp: dfsInv_def)
  from "2.IH" [OF this _ _ _ n] "2.prems"(3)
  have IH: "case r1 of None \<Rightarrow> dfsInv g st1 \<and> visiting st1 = visiting ?st \<and> deps g node \<subseteq> set (finished st1)
      | Some e \<Rightarrow> cyclic g" by simp
  show ?case
  proof (cases r1)
    case None
    then have "st' = st1\<lparr>visiting := visiting st1 - {node}, finished := finished st1 @ [node]\<rparr>" "r = None"
      using "2.prems"(4) n by auto
    moreover have "node \<notin> visiting st" using "2.prems"(1,2) by (auto simp: dfsInv_def)
    ultimately show ?thesis using IH None by (auto simp: dfsInv_def)
  next
    case (Some e)
    then show ?thesis using IH "2.prems"(4) n by auto
  qed
next
  case (4 n g node nb nbs st)
  have edge: "(node, nb) \<in> edges g" using "4.prems"(4) by (simp add: edges_def)
  consider (onstack) "nb \<in> visiting st" | (unseen) "nb \<notin> visiting st" "nb \<notin> visited st"
    | (seen) "nb \<notin> visiting st" "nb \<in> visited st" by blast
  then show ?case
  proof cases
    case onstack
    then have "(nb, node) \<in> (edges g)\<^sup>*" using "4.prems"(3) by blast
    with edge have "(node, node) \<in> (edges g)\<^sup>+" by (rule rtrancl_into_trancl2)
    moreover have "r = Some node" using "4.prems"(5) onstack by simp
    ultimately show ?thesis by auto
  next
    case unseen
    obtain st1 r1 where d: "dfs n g nb st = Some (st1, r1)"
      using "4.prems"(5) unseen by (auto split: option.splits)
    have "stacked g nb st" using "4.prems"(3) edge by (meson rtrancl.rtrancl_into_rtrancl)
    from "4.IH"(1) [OF unseen "4.prems"(1) unseen(2) this d]
    have IH: "case r1 of None \<Rightarrow> dfsInv g st1 \<and> visiting st1 = visiting st | Some e \<Rightarrow> cyclic g" .
    show ?thesis
    proof (cases r1)
      case None
      then have rest: "dfsNeighbors n g node nbs st1 = Some (st', r)" using "4.prems"(5) unseen d by simp
      have "nb \<in> visited st1" using dfs_mono(1) [OF d] by blast
      then have fin: "nb \<in> set (finished st1)" using IH None unseen(1) by (auto simp: dfsInv_def)
      have "visited st1 \<subseteq> visited st'" by (rule dfs_mono(2) [OF rest])
      moreover have "case r of None \<Rightarrow> dfsInv g st' \<and> visiting st' = visiting st1 \<and> set nbs \<subseteq> set (finished st')
          | Some e \<Rightarrow> cyclic g"
        using "4.IH"(2) [OF unseen d [unfolded None] refl refl _ _ _ _ rest] IH None "4.prems"(2-4) by auto
      ultimately show ?thesis using IH None fin by (auto simp: dfsInv_def split: option.splits)
    next
      case (Some e)
      then show ?thesis using IH "4.prems"(5) unseen d by auto
    qed
  next
    case seen
    then have rest: "dfsNeighbors n g node nbs st = Some (st', r)" using "4.prems"(5) by simp
    have "visited st \<subseteq> visited st'" by (rule dfs_mono(2) [OF rest])
    moreover have "case r of None \<Rightarrow> dfsInv g st' \<and> visiting st' = visiting st \<and> set nbs \<subseteq> set (finished st')
        | Some e \<Rightarrow> cyclic g"
      using "4.IH"(3) [OF _ _ "4.prems"(1-3) _ rest] seen "4.prems"(4) by auto
    ultimately show ?thesis using seen "4.prems"(1) by (auto simp: dfsInv_def split: option.splits)
  qed
qed auto

text \<open>One unit of fuel per unvisited name of a closed universe is enough.\<close>

definition closedUnder :: "(string \<rightharpoonup> string list) \<Rightarrow> string set \<Rightarrow> bool" where
  "closedUnder g U \<longleftrightarrow> finite U \<and> (\<forall>x\<in>U. deps g x \<subseteq> U)"

lemma dfs_fuel:
  "closedUnder g U \<Longrightarrow> node \<in> U - visited st \<Longrightarrow> card (U - visited st) \<le> n \<Longrightarrow> visited st \<subseteq> U \<Longrightarrow>
     \<exists>st' r. dfs n g node st = Some (st', r) \<and> visited st' \<subseteq> U"
  "closedUnder g U \<Longrightarrow> set nbs \<subseteq> U \<Longrightarrow> card (U - visited st) \<le> n \<Longrightarrow> visited st \<subseteq> U \<Longrightarrow>
     \<exists>st' r. dfsNeighbors n g node nbs st = Some (st', r) \<and> visited st' \<subseteq> U"
proof (induction n g node st and n g node nbs st rule: dfs_dfsNeighbors.induct)
  case (1 g node st)
  then show ?case by (auto simp: closedUnder_def)
next
  case (2 n g node st)
  let ?st = "st\<lparr>visiting := insert node (visiting st), visited := insert node (visited st)\<rparr>"
  have "U - visited ?st = (U - visited st) - {node}" by auto
  then have "card (U - visited ?st) \<le> n"
    using "2.prems" by (simp add: closedUnder_def card_Diff_singleton)
  moreover have "visited ?st \<subseteq> U" "deps g node \<subseteq> U" using "2.prems" by (auto simp: closedUnder_def)
  ultimately obtain st1 r1 where
    "dfsNeighbors n g node (map_get [] g node) ?st = Some (st1, r1)" "visited st1 \<subseteq> U"
    using "2.IH" "2.prems"(1) by blast
  then show ?case by (cases r1) auto
next
  case (4 n g node nb nbs st)
  show ?case
  proof (cases "nb \<notin> visiting st \<and> nb \<notin> visited st")
    case True
    then obtain st1 r1 where d: "dfs n g nb st = Some (st1, r1)" "visited st1 \<subseteq> U"
      using "4.IH"(1) "4.prems" by auto
    show ?thesis
    proof (cases r1)
      case None
      have "U - visited st1 \<subseteq> U - visited st" using dfs_mono(1) [OF d(1)] by auto
      then have "card (U - visited st1) \<le> n"
        using card_mono [of "U - visited st" "U - visited st1"] "4.prems" by (simp add: closedUnder_def)
      then have "\<exists>st' r. dfsNeighbors n g node nbs st1 = Some (st', r) \<and> visited st' \<subseteq> U"
        using "4.IH"(2) [of "(st1, None)" st1 None] True d None "4.prems" by simp
      then show ?thesis using True d None by simp
    next
      case (Some e)
      then show ?thesis using True d by simp
    qed
  next
    case False
    then show ?thesis using "4.IH"(3) "4.prems" by auto
  qed
qed auto

lemma dfsAll_total:
  "closedUnder g U \<Longrightarrow> set ks \<subseteq> U \<Longrightarrow> card U \<le> n \<Longrightarrow> visited st \<subseteq> U \<Longrightarrow>
     \<exists>st' r. dfsAll n g ks st = Some (st', r) \<and> visited st' \<subseteq> U"
proof (induction ks arbitrary: st)
  case (Cons k ks)
  show ?case
  proof (cases "k \<in> visited st")
    case True
    then show ?thesis using Cons by simp
  next
    case False
    have "card (U - visited st) \<le> n"
      using Cons.prems card_mono [of U "U - visited st"] by (simp add: closedUnder_def)
    with False Cons.prems obtain st1 r1 where d: "dfs n g k st = Some (st1, r1)" "visited st1 \<subseteq> U"
      using dfs_fuel(1) [of g U k st n] by auto
    then show ?thesis using Cons.IH [of st1] Cons.prems False by (cases r1) auto
  qed
qed simp

lemma dfsAll_sound:
  "dfsInv g st \<Longrightarrow> visiting st = {} \<Longrightarrow> dfsAll n g ks st = Some (st', r) \<Longrightarrow>
     (case r of None \<Rightarrow> dfsInv g st' \<and> visiting st' = {} \<and> visited st \<union> set ks \<subseteq> visited st' | Some e \<Rightarrow> cyclic g)"
proof (induction ks arbitrary: st)
  case (Cons k ks)
  show ?case
  proof (cases "k \<in> visited st")
    case True
    then show ?thesis using Cons.IH [of st] Cons.prems by (auto split: option.splits)
  next
    case False
    then obtain st1 r1 where d: "dfs n g k st = Some (st1, r1)"
      using Cons.prems(3) by (auto split: option.splits)
    from dfs_sound(1) [OF Cons.prems(1) False _ d] Cons.prems(2)
    have s: "case r1 of None \<Rightarrow> dfsInv g st1 \<and> visiting st1 = {} | Some e \<Rightarrow> cyclic g"
      by (auto split: option.splits)
    show ?thesis
      using Cons.IH [of st1] Cons.prems(3) False d s dfs_mono(1) [OF d] by (cases r1) (auto split: option.splits)
  qed
qed simp

section \<open>Sorted exactly if acyclic\<close>

lemma topo_acyclic:
  assumes "topo g F" "distinct F" "\<And>x. deps g x \<noteq> {} \<Longrightarrow> x \<in> set F"
  shows "\<not> cyclic g"
proof -
  define idx where "idx = (\<lambda>z. length (takeWhile (\<lambda>y. y \<noteq> z) F))"
  have step: "idx y < idx x" if "(x, y) \<in> edges g" for x y
  proof -
    have "x \<in> set F" using that assms(3) [of x] by (fastforce simp: edges_def)
    then obtain us vs where F: "F = us @ x # vs" by (meson split_list)
    then have y: "y \<in> set us" using that assms(1) by (auto simp: topo_def edges_def)
    then obtain as bs where us: "us = as @ y # bs" "y \<notin> set as" by (meson split_list_first)
    have "idx x = length us" using assms(2) by (auto simp: idx_def F takeWhile_append)
    moreover have "idx y = length as" using us assms(2) by (auto simp: idx_def F takeWhile_append)
    ultimately show ?thesis by (simp add: us)
  qed
  have "idx y < idx x" if "(x, y) \<in> (edges g)\<^sup>+" for x y
    using that by (induction rule: trancl_induct) (auto intro: step less_trans)
  then show ?thesis by blast
qed

lemma foldl_map_upds:
  "foldl (\<lambda>m t. m(k t \<mapsto> v t)) m0 ts = m0 ++ map_of (rev (map (\<lambda>t. (k t, v t)) ts))"
  by (induction ts rule: rev_induct) (simp_all add: map_add_def fun_eq_iff)

lemma taskGraph_map_of: "taskGraph ts = map_of (rev (map (\<lambda>t. (task_ID t, task_DependsOn t)) ts))"
  and taskMap_map_of: "taskMap ts = map_of (rev (map (\<lambda>t. (task_ID t, t)) ts))"
  by (simp_all add: taskGraph_def taskMap_def foldl_map_upds)

lemma taskGraph_dom: "dom (taskGraph ts) = task_ID ` set ts"
  by (force simp: taskGraph_map_of dom_map_of_conv_image_fst)

lemma taskGraph_lookup:
  assumes "distinct (map task_ID ts)" "t \<in> set ts"
  shows "taskGraph ts (task_ID t) = Some (task_DependsOn t)" "taskMap ts (task_ID t) = Some t"
proof -
  have d: "distinct (map fst (rev (map (\<lambda>t. (task_ID t, task_DependsOn t)) ts)))"
    "distinct (map fst (rev (map (\<lambda>t. (task_ID t, t)) ts)))"
    using assms(1) by (simp_all add: rev_map [symmetric] comp_def)
  show "taskGraph ts (task_ID t) = Some (task_DependsOn t)"
    unfolding taskGraph_map_of by (rule map_of_is_SomeI [OF d(1)]) (use assms(2) in auto)
  show "taskMap ts (task_ID t) = Some t"
    unfolding taskMap_map_of by (rule map_of_is_SomeI [OF d(2)]) (use assms(2) in auto)
qed

text \<open>The dependencies of a list of tasks, as a relation.\<close>

definition depends :: "Task list \<Rightarrow> (string \<times> string) set" where
  "depends ts = {(task_ID t, d) | t d. t \<in> set ts \<and> d \<in> set (task_DependsOn t)}"

lemma edges_taskGraph:
  assumes "distinct (map task_ID ts)"
  shows "edges (taskGraph ts) = depends ts"
proof -
  have "(x, y) \<in> edges (taskGraph ts) \<longleftrightarrow> (x, y) \<in> depends ts" for x y
  proof
    assume "(x, y) \<in> edges (taskGraph ts)"
    then have y: "y \<in> deps (taskGraph ts) x" by (simp add: edges_def)
    then have "x \<in> dom (taskGraph ts)" by (cases "taskGraph ts x") (auto simp: map_get_def)
    then obtain t where "t \<in> set ts" "task_ID t = x" by (auto simp: taskGraph_dom)
    with y taskGraph_lookup(1) [OF assms] show "(x, y) \<in> depends ts"
      by (auto simp: depends_def map_get_def)
  next
    assume "(x, y) \<in> depends ts"
    then obtain t where "t \<in> set ts" "task_ID t = x" "y \<in> set (task_DependsOn t)" by (auto simp: depends_def)
    with taskGraph_lookup(1) [OF assms] show "(x, y) \<in> edges (taskGraph ts)"
      by (auto simp: edges_def map_get_def)
  qed
  then show ?thesis by auto
qed

text \<open>The sort of tasks whose dependencies exist, for any iteration order.\<close>

lemma runTopologicalSort_spec:
  assumes dist: "distinct (map task_ID ts)" and ex: "\<forall>t\<in>set ts. set (task_DependsOn t) \<subseteq> task_ID ` set ts"
    and ord: "\<And>ks. set (ord ks) = set ks"
  shows "\<exists>r. runTopologicalSort ord ts = Some r \<and>
    (case r of
       Inl e \<Rightarrow> \<not> acyclic (depends ts)
     | Inr out \<Rightarrow> acyclic (depends ts) \<and> mset out = mset ts \<and>
         (\<forall>us t vs. out = us @ t # vs \<longrightarrow> set (task_DependsOn t) \<subseteq> task_ID ` set us))"
proof -
  let ?g = "taskGraph ts" and ?U = "task_ID ` set ts"
  have U: "set (taskNames ts) = ?U" using ex by (auto simp: taskNames_def)
  have "closedUnder ?g ?U"
    using ex taskGraph_lookup(1) [OF dist] by (auto simp: closedUnder_def map_get_def)
  moreover have "set (ord (remdups (map task_ID ts))) \<subseteq> ?U" using ord by simp
  moreover have "card ?U \<le> length (taskNames ts)" using card_length [of "taskNames ts"] U by simp
  ultimately obtain st r where
    d: "dfsAll (length (taskNames ts)) ?g (ord (remdups (map task_ID ts))) startState = Some (st, r)"
    and vis: "visited st \<subseteq> ?U"
    using dfsAll_total [of ?g ?U "ord (remdups (map task_ID ts))" "length (taskNames ts)" startState]
    by (auto simp: startState_def)
  have "dfsInv ?g startState" "visiting startState = {}" by (simp_all add: dfsInv_def startState_def)
  note s = dfsAll_sound [OF this d]
  show ?thesis
  proof (cases r)
    case (Some e)
    then show ?thesis using s d edges_taskGraph [OF dist] by (auto simp: runTopologicalSort_def acyclic_def)
  next
    case None
    then have inv: "dfsInv ?g st" "visiting st = {}" "?U \<subseteq> visited st" using s ord by auto
    let ?F = "finished st"
    let ?out = "map (map_get zeroTask (taskMap ts)) ?F"
    have F: "set ?F = ?U" "distinct ?F" "topo ?g ?F" using inv vis by (auto simp: dfsInv_def)
    have idt: "map_get zeroTask (taskMap ts) (task_ID t) = t" if "t \<in> set ts" for t
      using taskGraph_lookup(2) [OF dist that] by (simp add: map_get_def)
    then have idF: "task_ID (map_get zeroTask (taskMap ts) x) = x" if "x \<in> ?U" for x using that by auto
    have "inj_on (map_get zeroTask (taskMap ts)) (set ?F)" by (rule inj_on_inverseI [where g = task_ID]) (simp add: F idF)
    then have "distinct ?out" using F(2) by (simp add: distinct_map)
    moreover have "set ?out = set ts" using F(1) idt by (auto simp: image_image)
    moreover have "distinct ts" using dist by (simp add: distinct_map)
    ultimately have perm: "mset ?out = mset ts" using set_eq_iff_mset_eq_distinct by blast
    have order: "set (task_DependsOn t) \<subseteq> task_ID ` set us" if e: "?out = us @ t # vs" for us t vs
    proof -
      from e obtain xs x ys where x: "?F = xs @ x # ys" "us = map (map_get zeroTask (taskMap ts)) xs"
        "t = map_get zeroTask (taskMap ts) x" by (auto simp: map_eq_append_conv)
      then have xU: "x \<in> ?U" "set xs \<subseteq> ?U" using F(1) by auto
      have "deps ?g x \<subseteq> set xs" using F(3) x(1) by (auto simp: topo_def)
      moreover have "deps ?g x = set (task_DependsOn t)"
        using xU(1) x(3) idt taskGraph_lookup(1) [OF dist] by (auto simp: map_get_def)
      moreover have "task_ID ` set us = set xs"
        using xU(2) idF unfolding x(2) by (force simp: image_image)
      ultimately show ?thesis by simp
    qed
    have "\<not> cyclic ?g"
    proof (rule topo_acyclic [OF F(3,2)])
      show "x \<in> set ?F" if "deps ?g x \<noteq> {}" for x
      proof -
        have "x \<in> dom ?g" using that by (cases "?g x") (auto simp: map_get_def)
        then show ?thesis by (simp add: taskGraph_dom F(1))
      qed
    qed
    then have "acyclic (depends ts)" by (simp add: acyclic_def edges_taskGraph [OF dist])
    moreover have "runTopologicalSort ord ts = Some (Inr ?out)" by (simp add: runTopologicalSort_def d None)
    ultimately show ?thesis using perm order by simp
  qed
qed

lemma runTopologicalSort_total:
  assumes ord: "\<And>ks. set (ord ks) = set ks"
  shows "\<exists>r. runTopologicalSort ord ts = Some r"
proof -
  let ?U = "set (taskNames ts)"
  have "deps (taskGraph ts) x \<subseteq> ?U" for x
  proof (cases "taskGraph ts x")
    case (Some ds)
    then have "(x, ds) \<in> set (rev (map (\<lambda>t. (task_ID t, task_DependsOn t)) ts))"
      unfolding taskGraph_map_of by (rule map_of_SomeD)
    then show ?thesis using Some by (auto simp: taskNames_def map_get_def)
  qed (simp add: map_get_def)
  then have "closedUnder (taskGraph ts) ?U" by (simp add: closedUnder_def)
  moreover have "set (ord (remdups (map task_ID ts))) \<subseteq> ?U" using ord by (auto simp: taskNames_def)
  moreover have "card ?U \<le> length (taskNames ts)" by (rule card_length)
  ultimately obtain st r where
    "dfsAll (length (taskNames ts)) (taskGraph ts) (ord (remdups (map task_ID ts))) startState = Some (st, r)"
    using dfsAll_total [of "taskGraph ts" ?U "ord (remdups (map task_ID ts))" "length (taskNames ts)" startState]
    by (auto simp: startState_def)
  then show ?thesis by (cases r) (simp_all add: runTopologicalSort_def)
qed

section \<open>Validation accepts exactly the well-formed definitions\<close>

text \<open>
  What a definition promises the executor: at every level unique identifiers, dependencies that
  exist, no cycle, and the same for the tasks inside groups and loops.
\<close>

inductive wellFormed :: "Task list \<Rightarrow> bool" where
  level: "wellFormed ts"
  if "distinct (map task_ID ts)"
    and "\<forall>t\<in>set ts. set (task_DependsOn t) \<subseteq> task_ID ` set ts"
    and "acyclic (depends ts)"
    and "\<forall>t\<in>set ts. wellFormed (task_Tasks t)"
    and "\<forall>t\<in>set ts. task_Type t = ''core.foreach'' \<longrightarrow> wellFormed (task_ParamTasks t)"

inductive_simps wellFormed_iff: "wellFormed ts"

lemma wellFormed_Nil [simp]: "wellFormed []"
  by (rule level) (simp_all add: depends_def acyclic_def)

lemma missingDep_None:
  "missingDep ids ts = None \<longleftrightarrow> (\<forall>t\<in>set ts. set (task_DependsOn t) \<subseteq> ids)"
  by (induction ts) (auto split: option.splits simp: find_None_iff find_Some_iff subset_iff)

lemma ValidateDAG_iff:
  assumes ord: "\<And>ks. set (ord ks) = set ks"
  shows "validateTasks ord seen ts = None \<longleftrightarrow>
      distinct (map task_ID ts) \<and> task_ID ` set ts \<inter> seen = {} \<and> (\<forall>t\<in>set ts. wellFormed (task_Tasks t)) \<and>
      (\<forall>t\<in>set ts. task_Type t = ''core.foreach'' \<longrightarrow> wellFormed (task_ParamTasks t))"
    and "ValidateDAG ord ts = None \<longleftrightarrow> wellFormed ts"
  using ord
proof (induction ord seen ts and ord ts rule: validateTasks_ValidateDAG.induct)
  case (1 ord seen)
  then show ?case by simp
next
  case (2 ord seen t ts)
  show ?case
  proof (cases "task_ID t \<in> seen")
    case False
    define G where "G = (if task_Tasks t \<noteq> [] then map_option (InGroup (task_ID t)) (ValidateDAG ord (task_Tasks t)) else None)"
    define F where "F = (if task_Type t = ''core.foreach'' \<and> task_ParamTasks t \<noteq> []
      then map_option (InForeach (task_ID t)) (ValidateDAG ord (task_ParamTasks t)) else None)"
    note IH = "2.IH" [OF False, folded G_def]
    have g: "G = None \<longleftrightarrow> wellFormed (task_Tasks t)"
      using IH(1) "2.prems" by (cases "task_Tasks t = []") (auto simp: G_def)
    have f: "F = None \<longleftrightarrow> (task_Type t = ''core.foreach'' \<longrightarrow> wellFormed (task_ParamTasks t))" if "G = None"
      using IH(2) [OF that] "2.prems"
      by (cases "task_Type t = ''core.foreach'' \<and> task_ParamTasks t \<noteq> []") (auto simp: F_def)
    have "validateTasks ord seen (t # ts) = None \<longleftrightarrow>
        G = None \<and> F = None \<and> validateTasks ord (insert (task_ID t) seen) ts = None"
      using False by (simp add: G_def [symmetric] F_def [symmetric] split: option.split)
    also have "\<dots> \<longleftrightarrow> wellFormed (task_Tasks t) \<and> (task_Type t = ''core.foreach'' \<longrightarrow> wellFormed (task_ParamTasks t)) \<and>
        distinct (map task_ID ts) \<and> task_ID ` set ts \<inter> insert (task_ID t) seen = {} \<and>
        (\<forall>t\<in>set ts. wellFormed (task_Tasks t)) \<and>
        (\<forall>t\<in>set ts. task_Type t = ''core.foreach'' \<longrightarrow> wellFormed (task_ParamTasks t))"
      using IH(3) [folded F_def, OF _ _ "2.prems"] g f by (cases "G = None"; cases "F = None") simp_all
    finally show ?thesis using False by auto
  qed simp
next
  case (3 ord ts)
  have v: "validateTasks ord {} ts = None \<longleftrightarrow>
      distinct (map task_ID ts) \<and> (\<forall>t\<in>set ts. wellFormed (task_Tasks t)) \<and>
      (\<forall>t\<in>set ts. task_Type t = ''core.foreach'' \<longrightarrow> wellFormed (task_ParamTasks t))"
    using "3.IH" "3.prems" by simp
  have t: "(case TopologicalSort ord ts of Inl e \<Rightarrow> Some e | Inr _ \<Rightarrow> None) = None \<longleftrightarrow> acyclic (depends ts)"
    if "distinct (map task_ID ts)" "\<forall>t\<in>set ts. set (task_DependsOn t) \<subseteq> task_ID ` set ts"
  proof -
    note spec = runTopologicalSort_spec [OF that "3.prems"]
    obtain r where "runTopologicalSort ord ts = Some r"
      "case r of Inl e \<Rightarrow> \<not> acyclic (depends ts)
       | Inr out \<Rightarrow> acyclic (depends ts) \<and> mset out = mset ts \<and>
         (\<forall>us t vs. out = us @ t # vs \<longrightarrow> set (task_DependsOn t) \<subseteq> task_ID ` set us)"
      using spec by blast
    then show ?thesis by (cases r) (simp_all add: TopologicalSort_def)
  qed
  show ?case
    unfolding ValidateDAG.simps [of ord ts] wellFormed_iff [of ts]
    using v t by (auto split: option.splits simp: missingDep_None)
qed

text \<open>A well-formed list sorts, each task after everything it depends on.\<close>

lemma wellFormed_sorts:
  assumes "wellFormed ts" "\<And>ks. set (ord' ks) = set ks"
  shows "\<exists>out. TopologicalSort ord' ts = Inr out \<and> mset out = mset ts \<and>
    (\<forall>us t vs. out = us @ t # vs \<longrightarrow> set (task_DependsOn t) \<subseteq> task_ID ` set us)"
proof -
  have "distinct (map task_ID ts)" "\<forall>t\<in>set ts. set (task_DependsOn t) \<subseteq> task_ID ` set ts" "acyclic (depends ts)"
    using assms(1) unfolding wellFormed_iff [of ts] by blast+
  with runTopologicalSort_spec [of ts ord'] assms(2)
  obtain r where "runTopologicalSort ord' ts = Some r" and
    "case r of Inl e \<Rightarrow> \<not> acyclic (depends ts)
     | Inr out \<Rightarrow> acyclic (depends ts) \<and> mset out = mset ts \<and>
         (\<forall>us t vs. out = us @ t # vs \<longrightarrow> set (task_DependsOn t) \<subseteq> task_ID ` set us)" by blast
  with \<open>acyclic (depends ts)\<close> show ?thesis by (cases r) (simp_all add: TopologicalSort_def)
qed

section \<open>Properties\<close>

text \<open>Whatever order Go iterates its maps in, the topological sort of any list of tasks (duplicate
identifiers, missing dependencies and cycles included) returns: the recursion ends within one call
per name that occurs.\<close>

theorem TopologicalSort_terminates:
  assumes "\<And>ks. set (ord ks) = set ks"
  shows "\<exists>r. runTopologicalSort ord ts = Some r"
  using assms by (rule runTopologicalSort_total)

theorem TopologicalSort_terminates_witness:
  "\<exists>r. runTopologicalSort rev
     [plainTask ''a'' ''core.print'' [] [] [] [] [] [''b''], plainTask ''b'' ''core.print'' [] [] [] [] [] [''a'', ''zz'']] = Some r"
  by (rule TopologicalSort_terminates) simp

text \<open>C13: \<open>ValidateDAG\<close> accepts a definition exactly if it is well-formed: at every level, and inside
every group and loop, the identifiers are unique, every dependency exists and the dependencies
have no cycle. The verdict does not depend on the iteration order of the maps.\<close>

theorem ValidateDAG_wellFormed:
  assumes "\<And>ks. set (ord ks) = set ks"
  shows "ValidateDAG ord ts = None \<longleftrightarrow> wellFormed ts"
  using ValidateDAG_iff(2) [of ord ts] assms by blast

theorem ValidateDAG_wellFormed_witness:
  "ValidateDAG rev [plainTask ''g'' ''core.group'' [] [zeroTask] [] [] [] [], plainTask ''b'' '''' [] [] [] [] [] [''g'']] = None \<longleftrightarrow>
   wellFormed [plainTask ''g'' ''core.group'' [] [zeroTask] [] [] [] [], plainTask ''b'' '''' [] [] [] [] [] [''g'']]"
  by (rule ValidateDAG_wellFormed) simp

text \<open>A definition that was accepted sorts at run time, under whatever iteration order the executor
then sees: the result has exactly the tasks of the definition, each after everything it depends on.\<close>

theorem accepted_definition_sorts:
  assumes "ValidateDAG ord ts = None" "\<And>ks. set (ord ks) = set ks" "\<And>ks. set (ord' ks) = set ks"
  shows "\<exists>out. TopologicalSort ord' ts = Inr out \<and> mset out = mset ts \<and>
    (\<forall>us t vs. out = us @ t # vs \<longrightarrow> set (task_DependsOn t) \<subseteq> task_ID ` set us)"
proof (rule wellFormed_sorts)
  show "wellFormed ts" using ValidateDAG_iff(2) [of ord ts] assms(1,2) by blast
qed (rule assms(3))

definition fetchReport :: "Task list" where
  "fetchReport = [plainTask ''report'' ''core.print'' [] [] [] [] [] [''fetch''], plainTask ''fetch'' ''core.http'' [] [] [] [] [] []]"

theorem accepted_definition_sorts_witness:
  "\<exists>out. TopologicalSort rev fetchReport = Inr out \<and> mset out = mset fetchReport \<and>
    (\<forall>us t vs. out = us @ t # vs \<longrightarrow> set (task_DependsOn t) \<subseteq> task_ID ` set us)"
proof (rule accepted_definition_sorts [where ord = "\<lambda>ks. ks"])
  show "ValidateDAG (\<lambda>ks. ks) fetchReport = None"
    by (simp add: fetchReport_def ValidateDAG.simps TopologicalSort_def runTopologicalSort_def taskNames_def
        taskGraph_def taskMap_def startState_def map_get_def eval_nat_numeral)
qed simp_all

end
