(* ===== verification/WorkflowSwitch.thy ===== *)
theory WorkflowSwitch
  imports WorkflowDag
begin

text \<open>
  The switch task: which branch it takes (\<open>internal/tasks/core/switch_task.go\<close>) and how the executor
  records the outcome (\<open>internal/workflow/switch_routing.go\<close>).

  Decoding a list of tasks from untyped data (\<open>unmarshalTasks\<close>) and the text \<open>fmt\<close> prints for floats,
  lists and maps are arguments. A task status is its string; \<open>childTasks\<close> and \<open>parentTasks\<close> are the
  \<open>Tasks\<close> maps of the two template contexts.
\<close>

section \<open>Choosing the branch\<close>

text \<open>\<open>fmt.Sprintf("%v", v)\<close>.\<close>

fun Sprintv :: "(any \<Rightarrow> string) \<Rightarrow> any \<Rightarrow> string" where
  "Sprintv fmtv (AStr s) = s"
| "Sprintv fmtv (AInt n) = Itoa n"
| "Sprintv fmtv (ABool b) = (if b then ''true'' else ''false'')"
| "Sprintv fmtv ANil = ''<nil>''"
| "Sprintv fmtv v = fmtv v"

fun asArr :: "any \<Rightarrow> any list option" where
  "asArr (AArr vs) = Some vs"
| "asArr _ = None"

definition getAny :: "object \<Rightarrow> string \<Rightarrow> any" where
  "getAny m k = (case map_of m k of None \<Rightarrow> ANil | Some v \<Rightarrow> v)"

text \<open>\<open>s, _ := m[k].(string)\<close>.\<close>

definition strOr :: "object \<Rightarrow> string \<Rightarrow> string" where
  "strOr m k = (case getStr m k of None \<Rightarrow> '''' | Some s \<Rightarrow> s)"

record WorkflowDefinition =
  def_Tasks :: "Task list"
  def_Output :: object

definition newSwitchResult :: "Task list \<Rightarrow> string \<Rightarrow> WorkflowDefinition" where
  "newSwitchResult tasks selectedCase = \<lparr>def_Tasks = tasks, def_Output = [(''selected_case'', AStr selectedCase)]\<rparr>"

abbreviation bareTask :: "string \<Rightarrow> Task" where
  "bareTask i \<equiv> plainTask i '''' [] [] [] [] [] []"

definition resolveCase ::
  "(any \<Rightarrow> string + Task list) \<Rightarrow> object \<Rightarrow> string \<Rightarrow> string + WorkflowDefinition" where
  "resolveCase unmarshalTasks caseMap caseValue =
     (if strOr caseMap ''next'' \<noteq> '''' then Inr (newSwitchResult [bareTask (strOr caseMap ''next'')] caseValue)
      else case map_of caseMap ''tasks'' of
        Some tasksData \<Rightarrow>
          (case unmarshalTasks tasksData of
             Inl err \<Rightarrow> Inl err
           | Inr tasks \<Rightarrow> Inr (newSwitchResult tasks caseValue))
      | None \<Rightarrow> Inl ''switch: case matched but has no 'next' task configured'')"

text \<open>\<open>matchCase\<close>: \<open>None\<close> when no case matches.\<close>

fun matchCase ::
  "(any \<Rightarrow> string) \<Rightarrow> (any \<Rightarrow> string + Task list) \<Rightarrow> any list \<Rightarrow> string \<Rightarrow> (string + WorkflowDefinition) option" where
  "matchCase fmtv um [] ev = None"
| "matchCase fmtv um (c # cs) ev =
     (case asObj c of
        None \<Rightarrow> matchCase fmtv um cs ev
      | Some caseMap \<Rightarrow>
          (let caseValue = (case map_of caseMap ''value'' of None \<Rightarrow> '''' | Some v \<Rightarrow> Sprintv fmtv v)
           in if ev \<noteq> caseValue then matchCase fmtv um cs ev else Some (resolveCase um caseMap caseValue)))"

definition resolveDefault :: "(any \<Rightarrow> string + Task list) \<Rightarrow> object \<Rightarrow> string + WorkflowDefinition" where
  "resolveDefault um params =
     (if strOr params ''default_next'' \<noteq> '''' then Inr (newSwitchResult [bareTask (strOr params ''default_next'')] ''default'')
      else case map_of params ''default'' of
        Some tasksData \<Rightarrow>
          (case um tasksData of Inl err \<Rightarrow> Inl err | Inr tasks \<Rightarrow> Inr (newSwitchResult tasks ''default''))
      | None \<Rightarrow> Inl ''switch: no default is configured'')"

definition casesOf :: "object \<Rightarrow> any list" where
  "casesOf params = (case Option.bind (map_of params ''cases'') asArr of None \<Rightarrow> [] | Some cs \<Rightarrow> cs)"

definition getChildWorkflowFromExpression ::
  "(any \<Rightarrow> string) \<Rightarrow> (any \<Rightarrow> string + Task list) \<Rightarrow> object \<Rightarrow> string + WorkflowDefinition" where
  "getChildWorkflowFromExpression fmtv um params =
     (case matchCase fmtv um (casesOf params) (Sprintv fmtv (getAny params ''expression'')) of
        Some r \<Rightarrow> r
      | None \<Rightarrow>
          if strOr params ''default_next'' = '''' \<and> map_of params ''default'' = None
          then Inl ''switch: expression value did not match any case and no default is configured''
          else resolveDefault um params)"

text \<open>\<open>strconv.ParseBool\<close>.\<close>

definition ParseBool :: "string \<Rightarrow> bool option" where
  "ParseBool s =
     (if s \<in> {''1'', ''t'', ''T'', ''true'', ''TRUE'', ''True''} then Some True
      else if s \<in> {''0'', ''f'', ''F'', ''false'', ''FALSE'', ''False''} then Some False
      else None)"

definition conditionTrue :: "any \<Rightarrow> bool" where
  "conditionTrue v =
     (case v of ABool b \<Rightarrow> b | AStr s \<Rightarrow> (case ParseBool s of None \<Rightarrow> False | Some b \<Rightarrow> b) | _ \<Rightarrow> False)"

text \<open>The loop over legacy branches: the tasks of the first branch that holds and has tasks.\<close>

fun selectBranch :: "(any \<Rightarrow> string + Task list) \<Rightarrow> any list \<Rightarrow> (string + Task list) option" where
  "selectBranch um [] = None"
| "selectBranch um (b # bs) =
     (case asObj b of
        None \<Rightarrow> selectBranch um bs
      | Some branchMap \<Rightarrow>
          (case map_of branchMap ''condition'' of
             None \<Rightarrow> selectBranch um bs
           | Some condVal \<Rightarrow>
               (case (if conditionTrue condVal then map_of branchMap ''tasks'' else None) of
                  None \<Rightarrow> selectBranch um bs
                | Some tasksData \<Rightarrow> Some (um tasksData))))"

definition getChildWorkflowFromConditions ::
  "(any \<Rightarrow> string + Task list) \<Rightarrow> object \<Rightarrow> string + WorkflowDefinition" where
  "getChildWorkflowFromConditions um params =
     (case (case selectBranch um
                   (case Option.bind (map_of params ''branches'') asArr of None \<Rightarrow> [] | Some bs \<Rightarrow> bs) of
              Some r \<Rightarrow> r
            | None \<Rightarrow>
                (case map_of params ''default'' of
                   None \<Rightarrow> Inl ''switch: no branch condition matched and no default is configured''
                 | Some d \<Rightarrow> um d)) of
        Inl err \<Rightarrow> Inl err
      | Inr tasks \<Rightarrow> Inr \<lparr>def_Tasks = tasks, def_Output = []\<rparr>)"

definition GetChildWorkflowDefinition ::
  "(any \<Rightarrow> string) \<Rightarrow> (any \<Rightarrow> string + Task list) \<Rightarrow> object \<Rightarrow> string + WorkflowDefinition" where
  "GetChildWorkflowDefinition fmtv um params =
     (if map_of params ''expression'' \<noteq> None then getChildWorkflowFromExpression fmtv um params
      else if map_of params ''branches'' \<noteq> None then getChildWorkflowFromConditions um params
      else Inr \<lparr>def_Tasks = [], def_Output = []\<rparr>)"

section \<open>Recording the outcome\<close>

definition caseTargets :: "any list \<Rightarrow> string set" where
  "caseTargets cs = (\<Union>c\<in>set cs. case asObj c of None \<Rightarrow> {} | Some cm \<Rightarrow> {strOr cm ''next''} - {''''})"

definition collectSwitchTargetTaskIDs :: "Task list \<Rightarrow> string set" where
  "collectSwitchTargetTaskIDs tasks =
     (\<Union>t\<in>set tasks. caseTargets (casesOf (task_Params t)) \<union> ({strOr (task_Params t) ''default_next''} - {''''}))"

definition TaskStatusSkipped :: string where "TaskStatusSkipped = ''SKIPPED''"

record switchState =
  parentTasks :: "string \<rightharpoonup> object"
  switchBranchDone :: "string set"

definition resolve ::
  "string \<Rightarrow> (string \<rightharpoonup> string) \<Rightarrow> (string \<rightharpoonup> object) \<Rightarrow> string \<Rightarrow> string \<Rightarrow> switchState \<Rightarrow> switchState" where
  "resolve selectedCase renamed childTasks branchID caseValue st =
     (if branchID = '''' then st
      else
        let tasks' =
          (if caseValue = selectedCase then
             (case childTasks (map_get '''' renamed branchID) of
                Some val \<Rightarrow> (parentTasks st)(branchID \<mapsto> val)
              | None \<Rightarrow> parentTasks st)
           else (parentTasks st)(branchID \<mapsto> [(''status'', AStr TaskStatusSkipped)]))
        in \<lparr>parentTasks = tasks', switchBranchDone = insert branchID (switchBranchDone st)\<rparr>)"

text \<open>The branches a switch lists, each with the case value it is compared with.\<close>

definition branchesOf :: "(any \<Rightarrow> string) \<Rightarrow> object \<Rightarrow> (string \<times> string) list" where
  "branchesOf fmtv params =
     map (\<lambda>cm. (strOr cm ''next'', Sprintv fmtv (getAny cm ''value''))) (List.map_filter asObj (casesOf params)) @
     (if strOr params ''default_next'' \<noteq> '''' then [(strOr params ''default_next'', ''default'')] else [])"

definition propagateSwitchBranchState ::
  "(any \<Rightarrow> string) \<Rightarrow> Task \<Rightarrow> any \<Rightarrow> (string \<rightharpoonup> string) \<Rightarrow> (string \<rightharpoonup> object) \<Rightarrow> switchState \<Rightarrow> switchState" where
  "propagateSwitchBranchState fmtv switchTask childOutput renamed childTasks st =
     (let selectedCase = (case asObj childOutput of None \<Rightarrow> '''' | Some om \<Rightarrow> strOr om ''selected_case'')
      in foldl (\<lambda>st (branchID, caseValue). resolve selectedCase renamed childTasks branchID caseValue st)
           st (branchesOf fmtv (task_Params switchTask)))"

section \<open>The recorded outcome agrees with the branch taken\<close>

text \<open>What one branch looks like to the parent after the switch.\<close>

definition branchOutcome ::
  "string \<Rightarrow> (string \<rightharpoonup> string) \<Rightarrow> (string \<rightharpoonup> object) \<Rightarrow> string \<Rightarrow> string \<Rightarrow> object option \<Rightarrow> object option" where
  "branchOutcome sel renamed childTasks b cv old =
     (if cv = sel then (case childTasks (map_get '''' renamed b) of Some val \<Rightarrow> Some val | None \<Rightarrow> old)
      else Some [(''status'', AStr TaskStatusSkipped)])"

lemma resolve_fields:
  assumes "b \<noteq> ''''"
  shows "parentTasks (resolve sel renamed childTasks b cv st) =
      (parentTasks st)(b := branchOutcome sel renamed childTasks b cv (parentTasks st b))"
    and "switchBranchDone (resolve sel renamed childTasks b cv st) = insert b (switchBranchDone st)"
  using assms by (auto simp: resolve_def branchOutcome_def Let_def split: option.split)

lemma foldl_resolve:
  fixes sel renamed childTasks
  assumes "distinct (map fst bs)" "''''\<notin> fst ` set bs"
  defines "step \<equiv> \<lambda>st (b, cv). resolve sel renamed childTasks b cv st"
  shows "parentTasks (foldl step st bs) x =
      (case map_of bs x of
         None \<Rightarrow> parentTasks st x
       | Some cv \<Rightarrow> branchOutcome sel renamed childTasks x cv (parentTasks st x)) \<and>
    switchBranchDone (foldl step st bs) = switchBranchDone st \<union> fst ` set bs"
  using assms(1,2)
proof (induction bs arbitrary: st)
  case (Cons e bs)
  obtain b cv where e: "e = (b, cv)" by (cases e)
  have b: "b \<noteq> ''''" using Cons.prems e by auto
  have x: "map_of bs b = None" using Cons.prems e by (auto simp: map_of_eq_None_iff)
  have "step st e = resolve sel renamed childTasks b cv st" by (simp add: step_def e)
  then show ?case
    using Cons.IH [of "step st e"] Cons.prems x by (auto simp: e resolve_fields [OF b] split: option.split)
qed simp

text \<open>
  Switches in the current format: every case is an object with a value and a target, and no
  target or value is used twice (the default counts as the value \<open>default\<close>).
\<close>

definition wellRouted :: "(any \<Rightarrow> string) \<Rightarrow> object \<Rightarrow> bool" where
  "wellRouted fmtv params \<longleftrightarrow>
     (\<forall>c\<in>set (casesOf params). \<exists>cm. c = AObj cm \<and> map_of cm ''value'' \<noteq> None) \<and>
     '''' \<notin> fst ` set (branchesOf fmtv params) \<and>
     distinct (map fst (branchesOf fmtv params)) \<and> distinct (map snd (branchesOf fmtv params)) \<and>
     map_of params ''default'' = None"

lemma set_map_filter_asObj: "set (List.map_filter asObj cs) = {cm. AObj cm \<in> set cs}"
proof (induction cs)
  case (Cons c cs)
  then show ?case by (cases c) (auto simp: List.map_filter_simps)
qed (simp add: List.map_filter_simps)

lemma matchCase_branch:
  assumes "matchCase fmtv um cs ev = Some r" "\<forall>c\<in>set cs. \<exists>cm. c = AObj cm \<and> map_of cm ''value'' \<noteq> None"
  shows "\<exists>cm. AObj cm \<in> set cs \<and> ev = Sprintv fmtv (getAny cm ''value'') \<and> r = resolveCase um cm ev"
  using assms
proof (induction cs)
  case (Cons c cs)
  then obtain cm v where c: "c = AObj cm" "map_of cm ''value'' = Some v" by auto
  show ?case using Cons by (auto simp: c Let_def getAny_def split: if_splits)
qed simp

lemma expression_takes_branch:
  assumes w: "wellRouted fmtv params" and r: "getChildWorkflowFromExpression fmtv um params = Inr d"
  shows "\<exists>b cv. (b, cv) \<in> set (branchesOf fmtv params) \<and> d = newSwitchResult [bareTask b] cv"
proof (cases "matchCase fmtv um (casesOf params) (Sprintv fmtv (getAny params ''expression''))")
  case (Some q)
  from matchCase_branch [OF Some] w obtain cm ev where
    cm: "AObj cm \<in> set (casesOf params)" "ev = Sprintv fmtv (getAny cm ''value'')" "q = resolveCase um cm ev"
    unfolding wellRouted_def by blast
  then have "(strOr cm ''next'', ev) \<in> set (branchesOf fmtv params)"
    by (auto simp: branchesOf_def set_map_filter_asObj)
  moreover from this have "strOr cm ''next'' \<noteq> ''''" using w by (force simp: wellRouted_def)
  moreover have "resolveCase um cm ev = Inr d" using r Some cm(3) by (simp add: getChildWorkflowFromExpression_def)
  ultimately show ?thesis by (auto simp: resolveCase_def)
next
  case None
  then have "strOr params ''default_next'' \<noteq> ''''" "resolveDefault um params = Inr d"
    using r w by (auto simp: getChildWorkflowFromExpression_def wellRouted_def split: if_splits)
  then show ?thesis by (auto simp: resolveDefault_def branchesOf_def)
qed

lemma branch_targets:
  assumes "wellRouted fmtv (task_Params t)"
  shows "fst ` set (branchesOf fmtv (task_Params t)) = collectSwitchTargetTaskIDs [t]"
proof -
  define cs dn where "cs = casesOf (task_Params t)" and "dn = {strOr (task_Params t) ''default_next''} - {''''}"
  have b: "fst ` set (branchesOf fmtv (task_Params t)) = (\<lambda>cm. strOr cm ''next'') ` {cm. AObj cm \<in> set cs} \<union> dn"
    by (auto simp: branchesOf_def cs_def dn_def image_Un image_image set_map_filter_asObj)
  have ne: "strOr cm ''next'' \<noteq> ''''" if "AObj cm \<in> set cs" for cm
    using that assms b by (auto simp: wellRouted_def image_iff)
  have "caseTargets cs = (\<lambda>cm. strOr cm ''next'') ` {cm. AObj cm \<in> set cs}"
  proof -
    have obj: "asObj c = Some cm \<longleftrightarrow> c = AObj cm" for c cm by (cases c) auto
    show ?thesis using ne by (auto simp: caseTargets_def obj split: option.splits)
  qed
  then show ?thesis by (simp add: b collectSwitchTargetTaskIDs_def cs_def [symmetric] dn_def [symmetric])
qed

text \<open>The parent's record of a switch agrees with the branch the switch took. For a switch whose
targets and values are not used twice, the task run is one of the listed branches; afterwards
exactly that branch shows the data of the child run, every other branch is marked skipped, every
task the scheduling loop had left to the switch is resolved, and nothing else changes.\<close>

theorem switch_outcome_recorded:
  assumes "wellRouted fmtv (task_Params t)" "map_of (task_Params t) ''expression'' \<noteq> None"
    "GetChildWorkflowDefinition fmtv um (task_Params t) = Inr d"
    "st' = propagateSwitchBranchState fmtv t (AObj (def_Output d)) renamed childTasks st"
  shows "\<exists>b. def_Tasks d = [bareTask b] \<and> b \<in> collectSwitchTargetTaskIDs [t] \<and>
    parentTasks st' b = (case childTasks (map_get '''' renamed b) of Some val \<Rightarrow> Some val | None \<Rightarrow> parentTasks st b) \<and>
    (\<forall>x\<in>collectSwitchTargetTaskIDs [t] - {b}. parentTasks st' x = Some [(''status'', AStr TaskStatusSkipped)]) \<and>
    (\<forall>x. x \<notin> collectSwitchTargetTaskIDs [t] \<longrightarrow> parentTasks st' x = parentTasks st x) \<and>
    switchBranchDone st' = switchBranchDone st \<union> collectSwitchTargetTaskIDs [t]"
proof -
  let ?bs = "branchesOf fmtv (task_Params t)"
  obtain b cv where b: "(b, cv) \<in> set ?bs" "d = newSwitchResult [bareTask b] cv"
    using expression_takes_branch [OF assms(1), of um d] assms(2,3) by (auto simp: GetChildWorkflowDefinition_def)
  have w: "distinct (map fst ?bs)" "'''' \<notin> fst ` set ?bs" "distinct (map snd ?bs)"
    using assms(1) by (auto simp: wellRouted_def)
  have sel: "strOr (def_Output d) ''selected_case'' = cv" by (simp add: b newSwitchResult_def strOr_def getStr_def)
  have st': "st' = foldl (\<lambda>st (b, c). resolve cv renamed childTasks b c st) st ?bs"
    by (simp add: assms(4) propagateSwitchBranchState_def sel)
  note f = foldl_resolve [OF w(1,2), of cv renamed childTasks st, folded st', THEN conjunct1]
    and marked = foldl_resolve [OF w(1,2), of cv renamed childTasks st, folded st', THEN conjunct2]
  have look: "map_of ?bs x = Some c \<longleftrightarrow> (x, c) \<in> set ?bs" for x c using w(1) by simp
  have other: "c \<noteq> cv" if "(x, c) \<in> set ?bs" "x \<noteq> b" for x c
  proof
    assume "c = cv"
    have "inj_on snd (set ?bs)" using w(3) by (simp add: distinct_map)
    from inj_onD [OF this _ that(1) b(1)] \<open>c = cv\<close> that(2) show False by simp
  qed
  note targets = branch_targets [OF assms(1), symmetric]
  have "parentTasks st' b = (case childTasks (map_get '''' renamed b) of Some val \<Rightarrow> Some val | None \<Rightarrow> parentTasks st b)"
    using f [of b] look [of b cv, THEN iffD2, OF b(1)] by (simp add: branchOutcome_def)
  moreover have "parentTasks st' x = Some [(''status'', AStr TaskStatusSkipped)]" if "x \<in> collectSwitchTargetTaskIDs [t] - {b}" for x
  proof -
    from that obtain c where c: "(x, c) \<in> set ?bs" "x \<noteq> b" unfolding targets by force
    then show ?thesis using f [of x] look [of x c, THEN iffD2, OF c(1)] other [OF c] by (simp add: branchOutcome_def)
  qed
  moreover have "parentTasks st' x = parentTasks st x" if "x \<notin> collectSwitchTargetTaskIDs [t]" for x
    using f [of x] that unfolding targets by (auto simp: map_of_eq_None_iff [symmetric] split: option.split)
  moreover have "b \<in> collectSwitchTargetTaskIDs [t]" unfolding targets using b(1) by force
  moreover have "switchBranchDone st' = switchBranchDone st \<union> collectSwitchTargetTaskIDs [t]"
    unfolding targets by (rule marked)
  ultimately show ?thesis using b(2) by (simp add: newSwitchResult_def)
qed

definition demoSwitch :: Task where
  "demoSwitch = plainTask ''route'' ''core.switch''
     [(''expression'', AStr ''prod''),
      (''cases'', AArr [AObj [(''value'', AStr ''prod''), (''next'', AStr ''page'')],
                        AObj [(''value'', AStr ''dev''), (''next'', AStr ''note'')]]),
      (''default_next'', AStr ''drop'')] [] [] [] [] []"

theorem switch_outcome_recorded_witness:
  defines "st \<equiv> propagateSwitchBranchState (\<lambda>v. '''') demoSwitch (AObj [(''selected_case'', AStr ''prod'')])
      [''page'' \<mapsto> ''route-page''] [''route-page'' \<mapsto> [(''status'', AStr ''COMPLETED'')]]
      \<lparr>parentTasks = Map.empty, switchBranchDone = {}\<rparr>"
  shows "switchBranchDone st = collectSwitchTargetTaskIDs [demoSwitch]"
proof -
  let ?d = "newSwitchResult [bareTask ''page''] ''prod''"
  have g: "GetChildWorkflowDefinition (\<lambda>v. '''') (\<lambda>v. Inl ''no'') (task_Params demoSwitch) = Inr ?d"
    by (simp add: demoSwitch_def GetChildWorkflowDefinition_def getChildWorkflowFromExpression_def casesOf_def
        getAny_def resolveCase_def strOr_def getStr_def)
  have w: "wellRouted (\<lambda>v. '''') (task_Params demoSwitch)"
    by (simp add: demoSwitch_def wellRouted_def branchesOf_def casesOf_def List.map_filter_def getAny_def strOr_def getStr_def)
  have e: "map_of (task_Params demoSwitch) ''expression'' \<noteq> None" by (simp add: demoSwitch_def)
  have "st = propagateSwitchBranchState (\<lambda>v. '''') demoSwitch (AObj (def_Output ?d))
      [''page'' \<mapsto> ''route-page''] [''route-page'' \<mapsto> [(''status'', AStr ''COMPLETED'')]]
      \<lparr>parentTasks = Map.empty, switchBranchDone = {}\<rparr>"
    by (simp add: st_def newSwitchResult_def)
  from switch_outcome_recorded [OF w e g this] show ?thesis by auto
qed

text \<open>
  Two things the record gets wrong. A target used by two cases is marked skipped by the later,
  unselected case although it ran; and a case without a value matches the empty expression, but is
  recorded as skipped.
\<close>

lemma shared_target_overwritten:
  "parentTasks (propagateSwitchBranchState fmtv
      (plainTask ''route'' ''core.switch''
        [(''cases'', AArr [AObj [(''value'', AStr ''prod''), (''next'', AStr ''page'')],
                           AObj [(''value'', AStr ''stage''), (''next'', AStr ''page'')]])] [] [] [] [] [])
      (AObj [(''selected_case'', AStr ''prod'')]) [''page'' \<mapsto> ''r''] [''r'' \<mapsto> [(''status'', AStr ''COMPLETED'')]] st) ''page''
   = Some [(''status'', AStr TaskStatusSkipped)]"
  by (simp add: propagateSwitchBranchState_def branchesOf_def casesOf_def List.map_filter_def getAny_def strOr_def getStr_def
      resolve_def map_get_def)

lemma valueless_case_skipped:
  fixes fmtv um st
  defines "params \<equiv> [(''expression'', AStr ''''), (''cases'', AArr [AObj [(''next'', AStr ''page'')]])]"
  shows "GetChildWorkflowDefinition fmtv um params = Inr (newSwitchResult [bareTask ''page''] '''')"
    and "parentTasks (propagateSwitchBranchState fmtv (plainTask ''route'' ''core.switch'' params [] [] [] [] [])
        (AObj [(''selected_case'', AStr '''')]) [''page'' \<mapsto> ''r''] [''r'' \<mapsto> [(''status'', AStr ''COMPLETED'')]] st) ''page''
      = Some [(''status'', AStr TaskStatusSkipped)]"
  by (simp_all add: params_def propagateSwitchBranchState_def branchesOf_def casesOf_def List.map_filter_def getAny_def strOr_def
      getStr_def resolve_def map_get_def GetChildWorkflowDefinition_def getChildWorkflowFromExpression_def resolveCase_def)

end
