(* ===== verification/WorkflowMatrix.thy ===== *)
theory WorkflowMatrix
  imports WorkflowSwitch
begin

text \<open>
  Matrix tasks (\<open>runbook-server/internal/workflow/templating.go\<close>: \<open>generateMatrixCombinations\<close>): the
  combinations a matrix stands for and the guard on their number. The object is the map in the order
  in which Go iterates over it. The guard multiplies only below the cap, so Go's integers do not wrap.
\<close>

definition valueLists :: "object \<Rightarrow> (string \<times> any list) list" where
  "valueLists matrix = map (\<lambda>(key, val). (key, case asArr val of Some l \<Rightarrow> l | None \<Rightarrow> [val])) matrix"

text \<open>The loop that guards the size: \<open>False\<close> for an error, \<open>True\<close> when it ends or breaks.\<close>

fun withinCap :: "int \<Rightarrow> int \<Rightarrow> any list list \<Rightarrow> bool" where
  "withinCap maxCombinations acc [] = True"
| "withinCap maxCombinations acc (l # ls) =
     (let n = int (length l)
      in if n = 0 then True
         else if acc > maxCombinations div n then False
         else withinCap maxCombinations (acc * n) ls)"

fun generate :: "(string \<times> any list) list \<Rightarrow> object \<Rightarrow> object list" where
  "generate [] current = [current]"
| "generate ((key, values) # rest) current = concat (map (\<lambda>v. generate rest (setKey key v current)) values)"

definition generateMatrixCombinations :: "object \<Rightarrow> int \<Rightarrow> string + object list" where
  "generateMatrixCombinations matrix maxCombinations =
     (if matrix = [] then Inr [[]]
      else if maxCombinations > 0 \<and> \<not> withinCap maxCombinations 1 (map snd (valueLists matrix))
      then Inl ''matrix expands to more than the allowed combinations''
      else Inr (generate (valueLists matrix) []))"

section \<open>The combinations are the product of the dimensions\<close>

lemma setKey_new: "k \<notin> fst ` set m \<Longrightarrow> setKey k v m = m @ [(k, v)]"
  by (induction m) (auto simp: setKey_def)

lemma generate_product:
  assumes "distinct (map fst dims)" "fst ` set dims \<inter> fst ` set current = {}"
  shows "generate dims current = map (\<lambda>vs. current @ zip (map fst dims) vs) (product_lists (map snd dims))"
  using assms
proof (induction dims arbitrary: current)
  case (Cons d dims)
  obtain k vs where d: "d = (k, vs)" by (cases d)
  have k: "k \<notin> fst ` set current" using Cons.prems d by auto
  have "generate dims (current @ [(k, v)]) = map (\<lambda>us. (current @ [(k, v)]) @ zip (map fst dims) us) (product_lists (map snd dims))" for v
    using Cons.prems d by (intro Cons.IH) auto
  then show ?case by (simp add: d setKey_new [OF k] map_concat comp_def)
qed simp

lemma length_product_lists: "length (product_lists ls) = prod_list (map length ls)"
proof (induction ls)
  case (Cons l ls)
  then show ?case by (induction l) (auto simp: length_concat comp_def sum_list_triv)
qed simp

text \<open>The size the guard looks at: the product of the dimensions before the first empty one.\<close>

definition guardedSize :: "any list list \<Rightarrow> int" where
  "guardedSize ls = prod_list (map (\<lambda>l. int (length l)) (takeWhile (\<lambda>l. l \<noteq> []) ls))"

lemma guardedSize_pos: "guardedSize ls > 0"
  by (induction ls) (auto simp: guardedSize_def)

lemma div_less_iff_nat:
  fixes n :: int
  assumes "0 < n"
  shows "c div n < t \<longleftrightarrow> c < t * n"
proof
  assume "c div n < t"
  then have "(c div n + 1) * n \<le> t * n" using assms by (intro mult_right_mono) auto
  moreover have "c < (c div n + 1) * n"
    using pos_mod_bound [OF assms, of c] by (simp add: algebra_simps minus_mod_eq_mult_div [symmetric])
  ultimately show "c < t * n" by linarith
next
  assume "c < t * n"
  show "c div n < t"
  proof (rule ccontr)
    assume "\<not> c div n < t"
    then have "t * n \<le> c div n * n" using assms by (intro mult_right_mono) auto
    also have "\<dots> \<le> c" using pos_mod_sign [OF assms, of c] by (simp add: minus_mod_eq_div_mult [symmetric])
    finally show False using \<open>c < t * n\<close> by simp
  qed
qed

lemma withinCap_iff:
  assumes "0 < t" "t \<le> c"
  shows "withinCap c t ls \<longleftrightarrow> t * guardedSize ls \<le> c"
  using assms
proof (induction ls arbitrary: t)
  case (Cons l ls)
  show ?case
  proof (cases "l = []")
    case True
    then show ?thesis using Cons.prems by (simp add: guardedSize_def)
  next
    case False
    then have n: "int (length l) > 0" by simp
    have g: "guardedSize (l # ls) = int (length l) * guardedSize ls" using False by (simp add: guardedSize_def)
    have d: "t > c div int (length l) \<longleftrightarrow> t * int (length l) > c"
      using div_less_iff_nat [OF n] by blast
    have big: "c < t * int (length l) * guardedSize ls" if "c < t * int (length l)"
    proof -
      have "t * int (length l) * 1 \<le> t * int (length l) * guardedSize ls"
        using guardedSize_pos [of ls] Cons.prems n by (intro mult_left_mono) auto
      with that show ?thesis by simp
    qed
    show ?thesis
    proof (cases "c < t * int (length l)")
      case True
      then show ?thesis using False d big g by (simp add: mult.assoc)
    next
      case le: False
      have "withinCap c (t * int (length l)) ls \<longleftrightarrow> t * int (length l) * guardedSize ls \<le> c"
        using Cons.prems n le by (intro Cons.IH) auto
      then show ?thesis using False d le g by (simp add: mult.assoc)
    qed
  qed
qed (simp add: guardedSize_def)


text \<open>A matrix expands to exactly the combinations of its dimensions, one for each choice of a value from
every dimension, in their lexicographic order (an empty dimension gives none), and never to more than the
cap. It is refused exactly if the dimensions before the first empty one alone multiply beyond the cap.\<close>

theorem matrix_combinations_exact:
  assumes "distinct (map fst matrix)" "0 < cap"
  shows "case generateMatrixCombinations matrix cap of
      Inr combos \<Rightarrow>
        combos = map (zip (map fst matrix)) (product_lists (map snd (valueLists matrix))) \<and>
        length combos = prod_list (map (\<lambda>d. length (snd d)) (valueLists matrix)) \<and> int (length combos) \<le> cap
    | Inl err \<Rightarrow> cap < guardedSize (map snd (valueLists matrix))"
proof -
  define dims where "dims = valueLists matrix"
  have keys: "map fst dims = map fst matrix" by (simp add: dims_def valueLists_def split_def comp_def)
  have gen: "generate dims [] = map (zip (map fst matrix)) (product_lists (map snd dims))"
    using generate_product [of dims "[]"] assms(1) keys by simp
  have len: "length (product_lists (map snd dims)) = prod_list (map (\<lambda>d. length (snd d)) dims)"
    by (simp add: length_product_lists comp_def)
  have size: "int (prod_list (map length ls)) \<le> guardedSize ls" for ls :: "any list list"
    by (induction ls) (auto simp: guardedSize_def mult_left_mono)
  have cap: "withinCap cap 1 (map snd dims) \<longleftrightarrow> guardedSize (map snd dims) \<le> cap"
    using withinCap_iff [of 1 cap] assms(2) by simp
  show ?thesis
  proof (cases "matrix = []")
    case True
    then show ?thesis using assms(2) by (simp add: generateMatrixCombinations_def valueLists_def)
  next
    case False
    then show ?thesis
      using assms(2) cap gen len size [of "map snd dims"]
      by (auto simp: generateMatrixCombinations_def dims_def [symmetric] comp_def)
  qed
qed

theorem matrix_combinations_exact_witness:
  "generateMatrixCombinations [(''os'', AArr [AStr ''a'', AStr ''b'']), (''n'', AInt 1)] 2 =
     Inr [[(''os'', AStr ''a''), (''n'', AInt 1)], [(''os'', AStr ''b''), (''n'', AInt 1)]]"
  using matrix_combinations_exact [of "[(''os'', AArr [AStr ''a'', AStr ''b'']), (''n'', AInt 1)]" 2]
  by (simp add: valueLists_def guardedSize_def split: sum.splits)

text \<open>
  The guard stops at an empty dimension, so whether a matrix with one is refused depends on the order
  in which the map is iterated: the same matrix gives no combination or an error.
\<close>

lemma empty_dimension_order:
  "generateMatrixCombinations [(''a'', AArr []), (''b'', AArr [AInt 1, AInt 2, AInt 3])] 2 = Inr []"
  "\<exists>err. generateMatrixCombinations [(''b'', AArr [AInt 1, AInt 2, AInt 3]), (''a'', AArr [])] 2 = Inl err"
  by (simp_all add: generateMatrixCombinations_def valueLists_def)

end
