(* ===== verification/WorkflowSecrets.thy ===== *)
theory WorkflowSecrets
  imports WorkflowDag "HOL-Library.List_Lexorder" "HOL-Library.Char_ord"
begin

text \<open>
  Credentials in workflow definitions (\<open>runbook-server/internal/workflow\<close>): the rule that no
  credential is written to persistent state (\<open>state_validation.go\<close>).

  The regular expressions are written out as matchers. The maps of a task are association lists;
  since Go iterates a map in an unspecified order, anew on each pass, the marking loop takes the
  order of the entries of pass \<open>i\<close> as an argument. The loop carries fuel, one pass more than there
  are keys to mark, which is shown to be enough.
\<close>

section \<open>References in templates\<close>

text \<open>The class \<open>\\s\<close> of Go's regular expressions.\<close>

definition reSpace :: "char \<Rightarrow> bool" where
  "reSpace c \<longleftrightarrow> c \<in> {CHR '' '', CHR 0x09, CHR 0x0A, CHR 0x0C, CHR 0x0D}"

text \<open>\<open>secretRefPattern.MatchString\<close>: \<open>Secrets\<close> followed by a bracket, a dot or a space.\<close>

fun secretRefPattern :: "string \<Rightarrow> bool" where
  "secretRefPattern [] = False"
| "secretRefPattern (c # cs) =
     ((HasPrefix (c # cs) ''Secrets'' \<and>
        (case drop 7 (c # cs) of [] \<Rightarrow> False | d # _ \<Rightarrow> d = CHR ''['' \<or> d = CHR ''.'' \<or> reSpace d)) \<or>
      secretRefPattern cs)"

fun containsSecretReference :: "any \<Rightarrow> bool"
  and containsSecretReferenceMap :: "object \<Rightarrow> bool"
  and containsSecretReferenceList :: "any list \<Rightarrow> bool"
where
  "containsSecretReference (AStr s) = secretRefPattern s"
| "containsSecretReference (AObj m) = containsSecretReferenceMap m"
| "containsSecretReference (AArr vs) = containsSecretReferenceList vs"
| "containsSecretReference ANil = False"
| "containsSecretReference (ABool b) = False"
| "containsSecretReference (AInt n) = False"
| "containsSecretReference (AFloat x) = False"
| "containsSecretReferenceMap [] = False"
| "containsSecretReferenceMap ((k, v) # m) = (containsSecretReference v \<or> containsSecretReferenceMap m)"
| "containsSecretReferenceList [] = False"
| "containsSecretReferenceList (v # vs) = (containsSecretReference v \<or> containsSecretReferenceList vs)"

definition wordChar :: "char \<Rightarrow> bool" where
  "wordChar c \<longleftrightarrow>
     (CHR ''A'' \<le> c \<and> c \<le> CHR ''Z'') \<or> (CHR ''a'' \<le> c \<and> c \<le> CHR ''z'') \<or> isDigit c \<or>
     c = CHR ''_'' \<or> c = CHR ''-''"

definition quoteChar :: "char \<Rightarrow> bool" where
  "quoteChar c \<longleftrightarrow> c = CHR 0x27 \<or> c = CHR 0x22"

text \<open>
  One match of \<open>Root(?:.([A-Za-z0-9_-]+)|[ 'name' ])\<close> at the start of the text: the two capture
  groups (the one that took no part is empty) and the text after the match.
\<close>

definition refMatch :: "string \<Rightarrow> string \<Rightarrow> (string \<times> string \<times> string) option" where
  "refMatch nm s =
     (if \<not> HasPrefix s nm then None
      else case drop (length nm) s of
        [] \<Rightarrow> None
      | c # r \<Rightarrow>
          (if c = CHR ''.'' then
             (if takeWhile wordChar r = [] then None else Some (takeWhile wordChar r, '''', dropWhile wordChar r))
           else if c = CHR ''['' then
             (case dropWhile reSpace r of
                [] \<Rightarrow> None
              | q # r2 \<Rightarrow>
                  (if \<not> quoteChar q \<or> takeWhile (\<lambda>d. \<not> quoteChar d) r2 = [] then None
                   else case dropWhile (\<lambda>d. \<not> quoteChar d) r2 of
                     [] \<Rightarrow> None
                   | _ # r3 \<Rightarrow>
                       (case dropWhile reSpace r3 of
                          [] \<Rightarrow> None
                        | d # r4 \<Rightarrow>
                            (if d = CHR '']'' then Some ('''', takeWhile (\<lambda>d. \<not> quoteChar d) r2, r4) else None))))
           else None))"

lemma refMatch_shorter: "refMatch nm s = Some (m1, m2, r) \<Longrightarrow> length r < length s"
proof -
  assume m: "refMatch nm s = Some (m1, m2, r)"
  then obtain c t where s: "drop (length nm) s = c # t" by (auto simp: refMatch_def split: if_splits list.splits)
  have drop: "length (dropWhile P xs) \<le> length xs" for P and xs :: string by (rule length_dropWhile_le)
  have "length r \<le> length t"
    using m s drop [of wordChar t] drop [of reSpace t]
    apply (auto simp: refMatch_def split: if_splits list.splits)
    by (metis Suc_leD drop le_trans length_Cons)
  moreover have "length (c # t) \<le> length s" unfolding s [symmetric] by simp
  ultimately show ?thesis by simp
qed

text \<open>\<open>FindAllStringSubmatch\<close>: leftmost matches that do not overlap.\<close>

function FindAllRefs :: "string \<Rightarrow> string \<Rightarrow> (string \<times> string) list" where
  "FindAllRefs nm s =
     (case refMatch nm s of
        Some (m1, m2, r) \<Rightarrow> (m1, m2) # FindAllRefs nm r
      | None \<Rightarrow> (case s of [] \<Rightarrow> [] | _ # s' \<Rightarrow> FindAllRefs nm s'))"
  by pat_completeness auto
termination
  by (relation "measure (\<lambda>(nm, s). length s)") (auto dest: refMatch_shorter)

declare FindAllRefs.simps [simp del]

definition varRefPattern :: "string \<Rightarrow> (string \<times> string) list" where
  "varRefPattern = FindAllRefs ''Vars''"

definition stateRefPattern :: "string \<Rightarrow> (string \<times> string) list" where
  "stateRefPattern = FindAllRefs ''State''"

text \<open>\<open>readsAny\<close>: the walk visits keys and values.\<close>

fun walk :: "(string \<Rightarrow> (string \<times> string) list) \<Rightarrow> string set \<Rightarrow> any \<Rightarrow> bool"
  and walkMap :: "(string \<Rightarrow> (string \<times> string) list) \<Rightarrow> string set \<Rightarrow> object \<Rightarrow> bool"
  and walkList :: "(string \<Rightarrow> (string \<times> string) list) \<Rightarrow> string set \<Rightarrow> any list \<Rightarrow> bool"
where
  "walk pat names (AStr s) = list_ex (\<lambda>(m1, m2). m1 \<in> names \<or> m2 \<in> names) (pat s)"
| "walk pat names (AObj m) = walkMap pat names m"
| "walk pat names (AArr vs) = walkList pat names vs"
| "walk pat names ANil = False"
| "walk pat names (ABool b) = False"
| "walk pat names (AInt n) = False"
| "walk pat names (AFloat x) = False"
| "walkMap pat names [] = False"
| "walkMap pat names ((k, v) # m) = (walk pat names (AStr k) \<or> walk pat names v \<or> walkMap pat names m)"
| "walkList pat names [] = False"
| "walkList pat names (v # vs) = (walk pat names v \<or> walkList pat names vs)"

definition readsAny :: "string \<Rightarrow> any \<Rightarrow> (string \<Rightarrow> (string \<times> string) list) \<Rightarrow> string set \<Rightarrow> bool" where
  "readsAny key v pat names =
     (if names = {} then False else walk pat names (AStr key) \<or> walk pat names v)"

section \<open>No credential in persistent state\<close>

record secretMarks =
  secretVars :: "string set"
  secretState :: "string set"

definition carries :: "secretMarks \<Rightarrow> string \<Rightarrow> any \<Rightarrow> bool" where
  "carries st k v \<longleftrightarrow>
     secretRefPattern k \<or> containsSecretReference v \<or>
     readsAny k v varRefPattern (secretVars st) \<or> readsAny k v stateRefPattern (secretState st)"

text \<open>\<open>flatten\<close>: a task, the tasks of its group, the tasks in its parameters.\<close>

fun flatten :: "Task list \<Rightarrow> Task list" where
  "flatten [] = []"
| "flatten (Task i ty ps sub psub vs ss ds c mx fa hk dis # ts) =
     Task i ty ps sub psub vs ss ds c mx fa hk dis # flatten sub @ flatten psub @ flatten ts"

definition markVar :: "secretMarks \<times> bool \<Rightarrow> string \<times> any \<Rightarrow> secretMarks \<times> bool" where
  "markVar = (\<lambda>(st, changed) (k, v).
     if k \<notin> secretVars st \<and> carries st k v then (st\<lparr>secretVars := insert k (secretVars st)\<rparr>, True)
     else (st, changed))"

definition markState :: "secretMarks \<times> bool \<Rightarrow> string \<times> any \<Rightarrow> secretMarks \<times> bool" where
  "markState = (\<lambda>(st, changed) (k, v).
     if k \<notin> secretState st \<and> carries st k v then (st\<lparr>secretState := insert k (secretState st)\<rparr>, True)
     else (st, changed))"

text \<open>One pass over the tasks, and the passes until nothing changes.\<close>

definition markPass :: "(object \<Rightarrow> object) \<Rightarrow> Task list \<Rightarrow> secretMarks \<Rightarrow> secretMarks \<times> bool" where
  "markPass ord all st =
     foldl (\<lambda>a t. foldl markState (foldl markVar a (ord (task_SetVars t))) (ord (task_SetState t))) (st, False) all"

fun markLoop :: "nat \<Rightarrow> (nat \<Rightarrow> object \<Rightarrow> object) \<Rightarrow> nat \<Rightarrow> Task list \<Rightarrow> secretMarks \<Rightarrow> secretMarks option" where
  "markLoop 0 ord i all st = None"
| "markLoop (Suc n) ord i all st =
     (let (st', changed) = markPass (ord i) all st
      in if changed then markLoop n ord (Suc i) all st' else Some st')"

definition markFuel :: "Task list \<Rightarrow> nat" where
  "markFuel all = Suc (length (concat (map task_SetVars all)) + length (concat (map task_SetState all)))"

definition offendingKeys :: "secretMarks \<Rightarrow> Task list \<Rightarrow> string list" where
  "offendingKeys st all =
     concat (map (\<lambda>t. map (\<lambda>(k, v). task_ID t @ ''.'' @ k) (filter (\<lambda>(k, v). carries st k v) (task_SetState t))) all)"

text \<open>The error carries the sorted list of offending keys.\<close>

definition ValidateNoSecretsInState ::
  "(nat \<Rightarrow> object \<Rightarrow> object) \<Rightarrow> Task list \<Rightarrow> string list option option" where
  "ValidateNoSecretsInState ord tasks =
     (let all = flatten tasks
      in case markLoop (markFuel all) ord 0 all \<lparr>secretVars = {}, secretState = {}\<rparr> of
           None \<Rightarrow> None
         | Some st \<Rightarrow>
             Some (if offendingKeys st all = [] then None else Some (sort (offendingKeys st all))))"

section \<open>What the marking loop computes\<close>

text \<open>
  A slot is a variable or a key of the persistent state. \<open>credential\<close> says which slots may hold a
  credential: those written from \<open>Secrets\<close>, and those written from a slot that may.
\<close>

datatype slot = VarSlot string | StateSlot string

definition writes :: "Task list \<Rightarrow> (slot \<times> string \<times> any) set" where
  "writes all = (\<Union>t\<in>set all. (\<lambda>(k, v). (VarSlot k, k, v)) ` set (task_SetVars t) \<union>
     (\<lambda>(k, v). (StateSlot k, k, v)) ` set (task_SetState t))"

definition namesSecret :: "string \<Rightarrow> any \<Rightarrow> bool" where
  "namesSecret k v \<longleftrightarrow> secretRefPattern k \<or> containsSecretReference v"

fun readsSlot :: "string \<Rightarrow> any \<Rightarrow> slot \<Rightarrow> bool" where
  "readsSlot k v (VarSlot n) = readsAny k v varRefPattern {n}"
| "readsSlot k v (StateSlot n) = readsAny k v stateRefPattern {n}"

inductive credential :: "Task list \<Rightarrow> slot \<Rightarrow> bool" for all where
  direct: "(s, k, v) \<in> writes all \<Longrightarrow> namesSecret k v \<Longrightarrow> credential all s"
| flow: "(s, k, v) \<in> writes all \<Longrightarrow> readsSlot k v s' \<Longrightarrow> credential all s' \<Longrightarrow> credential all s"

lemma walk_mono:
  "walk pat M v \<Longrightarrow> M \<subseteq> N \<Longrightarrow> walk pat N v"
  "walkMap pat M m \<Longrightarrow> M \<subseteq> N \<Longrightarrow> walkMap pat N m"
  "walkList pat M vs \<Longrightarrow> M \<subseteq> N \<Longrightarrow> walkList pat N vs"
  by (induction pat M v and pat M m and pat M vs rule: walk_walkMap_walkList.induct)
    (fastforce simp: list_ex_iff)+

lemma walk_some:
  "walk pat N v \<Longrightarrow> \<exists>n\<in>N. walk pat {n} v"
  "walkMap pat N m \<Longrightarrow> \<exists>n\<in>N. walkMap pat {n} m"
  "walkList pat N vs \<Longrightarrow> \<exists>n\<in>N. walkList pat {n} vs"
  by (induction pat N v and pat N m and pat N vs rule: walk_walkMap_walkList.induct)
    (fastforce simp: list_ex_iff)+

lemma readsAny_singletons: "readsAny k v pat N \<longleftrightarrow> (\<exists>n\<in>N. readsAny k v pat {n})"
proof
  assume "readsAny k v pat N"
  then show "\<exists>n\<in>N. readsAny k v pat {n}"
    using walk_some(1) [of pat N] by (auto simp: readsAny_def simp del: walk.simps split: if_splits)
next
  assume "\<exists>n\<in>N. readsAny k v pat {n}"
  then obtain n where "n \<in> N" "readsAny k v pat {n}" ..
  then show "readsAny k v pat N"
    using walk_mono(1) [of pat "{n}" _ N] by (auto simp: readsAny_def simp del: walk.simps)
qed

definition slots :: "secretMarks \<Rightarrow> slot set" where
  "slots st = VarSlot ` secretVars st \<union> StateSlot ` secretState st"

definition carriesSlot :: "slot set \<Rightarrow> string \<Rightarrow> any \<Rightarrow> bool" where
  "carriesSlot S k v \<longleftrightarrow> namesSecret k v \<or> (\<exists>s\<in>S. readsSlot k v s)"

lemma carries_slots: "carries st k v \<longleftrightarrow> carriesSlot (slots st) k v"
  using readsAny_singletons [of k v varRefPattern "secretVars st"]
    readsAny_singletons [of k v stateRefPattern "secretState st"]
  by (auto simp: carries_def carriesSlot_def slots_def namesSecret_def bex_Un)

lemma slots_mem [simp]:
  "VarSlot k \<in> slots st \<longleftrightarrow> k \<in> secretVars st" "StateSlot k \<in> slots st \<longleftrightarrow> k \<in> secretState st"
  by (auto simp: slots_def)

text \<open>The abstract step: mark one slot. A pass is a fold of it over the writes.\<close>

definition markSlot :: "slot set \<times> bool \<Rightarrow> slot \<times> string \<times> any \<Rightarrow> slot set \<times> bool" where
  "markSlot = (\<lambda>(S, changed) (s, k, v). if s \<notin> S \<and> carriesSlot S k v then (insert s S, True) else (S, changed))"

abbreviation absMarks :: "secretMarks \<times> bool \<Rightarrow> slot set \<times> bool" where
  "absMarks a \<equiv> (slots (fst a), snd a)"

lemma absMarks_markVar: "absMarks (markVar a (k, v)) = markSlot (absMarks a) (VarSlot k, k, v)"
  by (cases a) (auto simp: markVar_def markSlot_def carries_slots slots_def)

lemma absMarks_markState: "absMarks (markState a (k, v)) = markSlot (absMarks a) (StateSlot k, k, v)"
  by (cases a) (auto simp: markState_def markSlot_def carries_slots slots_def)

lemma foldl_refines:
  assumes "\<And>a x. h (f a x) = g (h a) (c x)"
  shows "h (foldl f a xs) = foldl g (h a) (map c xs)"
  by (induction xs arbitrary: a) (simp_all add: assms)

definition passWrites :: "(object \<Rightarrow> object) \<Rightarrow> Task list \<Rightarrow> (slot \<times> string \<times> any) list" where
  "passWrites ord all = concat (map (\<lambda>t. map (\<lambda>(k, v). (VarSlot k, k, v)) (ord (task_SetVars t)) @
     map (\<lambda>(k, v). (StateSlot k, k, v)) (ord (task_SetState t))) all)"

lemma absMarks_markPass: "absMarks (markPass ord all st) = foldl markSlot (slots st, False) (passWrites ord all)"
proof -
  have v: "absMarks (foldl markVar a m) = foldl markSlot (absMarks a) (map (\<lambda>(k, v). (VarSlot k, k, v)) m)" for a m
    by (rule foldl_refines [where h = absMarks]) (auto simp: absMarks_markVar simp del: prod.inject)
  have s: "absMarks (foldl markState a m) = foldl markSlot (absMarks a) (map (\<lambda>(k, v). (StateSlot k, k, v)) m)" for a m
    by (rule foldl_refines [where h = absMarks]) (auto simp: absMarks_markState simp del: prod.inject)
  have "absMarks (foldl (\<lambda>a t. foldl markState (foldl markVar a (ord (task_SetVars t))) (ord (task_SetState t))) a all)
      = foldl markSlot (absMarks a) (passWrites ord all)" for a
  proof (induction all arbitrary: a)
    case (Cons t all)
    then show ?case by (simp only: foldl.simps s v) (simp add: passWrites_def)
  qed (simp add: passWrites_def)
  from this [of "(st, False)"] show ?thesis unfolding markPass_def by simp
qed

lemma set_passWrites:
  assumes "\<And>m. set (ord m) = set m"
  shows "set (passWrites ord all) = writes all"
  using assms by (auto simp: passWrites_def writes_def)

lemma markSlots_bounds:
  assumes "foldl markSlot (S, b) ws = (S', b')"
  shows "S \<subseteq> S' \<and> S' \<subseteq> S \<union> fst ` set ws \<and> (b' \<longrightarrow> b \<or> S \<subset> S') \<and>
    (\<not> b' \<longrightarrow> S' = S \<and> (\<forall>(s, k, v)\<in>set ws. carriesSlot S k v \<longrightarrow> s \<in> S))"
  using assms
proof (induction ws arbitrary: S b)
  case (Cons w ws)
  obtain s k v where w: "w = (s, k, v)" by (cases w)
  show ?case
  proof (cases "s \<notin> S \<and> carriesSlot S k v")
    case True
    then have "foldl markSlot (insert s S, True) ws = (S', b')" using Cons.prems by (simp add: w markSlot_def)
    then have b: "b'"
      by (induction ws arbitrary: S s) (auto simp: markSlot_def insert_commute split: prod.splits if_splits)
    show ?thesis using Cons.IH [of "insert s S" True] Cons.prems True b by (auto simp: w markSlot_def)
  next
    case False
    then show ?thesis using Cons.IH [of S b] Cons.prems by (auto simp: w markSlot_def)
  qed
qed simp

lemma markSlots_sound:
  assumes "set ws \<subseteq> writes all" "S \<subseteq> Collect (credential all)" "foldl markSlot (S, b) ws = (S', b')"
  shows "S' \<subseteq> Collect (credential all)"
  using assms
proof (induction ws arbitrary: S b)
  case (Cons w ws)
  obtain s k v where w: "w = (s, k, v)" by (cases w)
  have "credential all s" if "carriesSlot S k v"
    using that Cons.prems(1,2) w by (auto simp: carriesSlot_def intro: credential.intros)
  then show ?case
    using Cons.IH [of "insert s S" True] Cons.IH [of S b] Cons.prems
    by (auto simp: w markSlot_def split: if_splits)
qed simp

lemma credential_closed:
  assumes closed: "\<forall>(s, k, v)\<in>writes all. carriesSlot S k v \<longrightarrow> s \<in> S" and "credential all s"
  shows "s \<in> S"
  using assms(2)
proof induction
  case (direct s k v)
  then show ?case using closed by (auto simp: carriesSlot_def)
next
  case (flow s k v s')
  then have "carriesSlot S k v" by (auto simp: carriesSlot_def)
  then show ?case using closed flow.hyps(1) by auto
qed

abbreviation writtenSlots :: "Task list \<Rightarrow> slot set" where
  "writtenSlots all \<equiv> fst ` writes all"

lemma finite_writes [simp]: "finite (writes all)"
  by (simp add: writes_def)

lemma markLoop_computes:
  assumes ord: "\<And>i m. set (ord i m) = set m" and "slots st \<subseteq> Collect (credential all)"
    and "card (writtenSlots all - slots st) < n"
  shows "\<exists>st'. markLoop n ord i all st = Some st' \<and> slots st' = Collect (credential all)"
  using assms(2,3)
proof (induction n arbitrary: i st)
  case (Suc n)
  obtain st' b where p: "markPass (ord i) all st = (st', b)" by (cases "markPass (ord i) all st")
  define ws where "ws = passWrites (ord i) all"
  have ws: "set ws = writes all" unfolding ws_def by (rule set_passWrites) (rule ord)
  have f: "foldl markSlot (slots st, False) ws = (slots st', b)"
    using absMarks_markPass [of "ord i" all st] by (simp add: p ws_def)
  note bounds = markSlots_bounds [OF f, unfolded ws]
  have sound: "slots st' \<subseteq> Collect (credential all)"
    by (rule markSlots_sound [OF _ Suc.prems(1) f]) (simp add: ws)
  show ?case
  proof (cases b)
    case True
    then have "slots st \<subset> slots st'" "slots st' \<subseteq> slots st \<union> writtenSlots all" using bounds by auto
    then have "writtenSlots all - slots st' \<subset> writtenSlots all - slots st" by blast
    then have "card (writtenSlots all - slots st') < card (writtenSlots all - slots st)"
      by (rule psubset_card_mono [rotated]) simp
    then show ?thesis using Suc.IH [OF sound, of "Suc i"] Suc.prems(2) True by (simp add: p)
  next
    case False
    then have "slots st' = slots st" "\<forall>(s, k, v)\<in>writes all. carriesSlot (slots st) k v \<longrightarrow> s \<in> slots st"
      using bounds by auto
    then have "slots st' = Collect (credential all)" using sound credential_closed [of all "slots st"] by auto
    then show ?thesis using False by (simp add: p)
  qed
qed simp

lemma card_writtenSlots: "card (writtenSlots all) < markFuel all"
proof -
  let ?ws = "passWrites (\<lambda>m. m) all"
  have "card (writtenSlots all) = card (fst ` set ?ws)" by (simp add: set_passWrites)
  also have "\<dots> \<le> length ?ws" by (metis card_length length_map list.set_map)
  also have "\<dots> < markFuel all" by (induction all) (simp_all add: passWrites_def markFuel_def)
  finally show ?thesis .
qed

text \<open>The keys the error lists: those written from a credential.\<close>

definition leaks :: "Task list \<Rightarrow> string \<Rightarrow> any \<Rightarrow> bool" where
  "leaks all k v \<longleftrightarrow> carriesSlot (Collect (credential all)) k v"

definition leakingKeys :: "Task list \<Rightarrow> string set" where
  "leakingKeys all =
     {task_ID t @ ''.'' @ k | t k v. t \<in> set all \<and> (k, v) \<in> set (task_SetState t) \<and> leaks all k v}"

lemma leaks_credential: "(s, k, v) \<in> writes all \<Longrightarrow> leaks all k v \<Longrightarrow> credential all s"
  by (auto simp: leaks_def carriesSlot_def intro: credential.intros)

lemma credential_leaks:
  assumes "credential all s"
  shows "\<exists>k v. (s, k, v) \<in> writes all \<and> leaks all k v"
  using assms by cases (auto simp: leaks_def carriesSlot_def)

lemma StateSlot_writes: "(StateSlot k, k', v) \<in> writes all \<longleftrightarrow> k' = k \<and> (\<exists>t\<in>set all. (k, v) \<in> set (task_SetState t))"
  by (auto simp: writes_def)

lemma set_offendingKeys:
  assumes "slots st = Collect (credential all)"
  shows "set (offendingKeys st all) = leakingKeys all"
  using assms by (force simp: offendingKeys_def carries_slots leaks_def leakingKeys_def)

lemma offendingKeys_Nil:
  assumes "slots st = Collect (credential all)"
  shows "offendingKeys st all = [] \<longleftrightarrow> (\<forall>k. \<not> credential all (StateSlot k))"
proof -
  have "offendingKeys st all = [] \<longleftrightarrow> (\<nexists>t k v. t \<in> set all \<and> (k, v) \<in> set (task_SetState t) \<and> leaks all k v)"
    using set_offendingKeys [OF assms] by (auto simp: leakingKeys_def simp flip: set_empty)
  also have "\<dots> \<longleftrightarrow> (\<forall>k. \<not> credential all (StateSlot k))"
  proof
    assume none: "\<nexists>t k v. t \<in> set all \<and> (k, v) \<in> set (task_SetState t) \<and> leaks all k v"
    show "\<forall>k. \<not> credential all (StateSlot k)"
    proof (intro allI notI)
      fix k assume "credential all (StateSlot k)"
      then obtain k' v where "(StateSlot k, k', v) \<in> writes all" "leaks all k' v" using credential_leaks by blast
      with none show False by (auto simp: StateSlot_writes)
    qed
  next
    assume none: "\<forall>k. \<not> credential all (StateSlot k)"
    show "\<nexists>t k v. t \<in> set all \<and> (k, v) \<in> set (task_SetState t) \<and> leaks all k v"
    proof (intro notI, elim exE conjE)
      fix t k v assume "t \<in> set all" "(k, v) \<in> set (task_SetState t)" "leaks all k v"
      then have "credential all (StateSlot k)" by (intro leaks_credential [of _ k v]) (auto simp: StateSlot_writes)
      with none show False by blast
    qed
  qed
  finally show ?thesis .
qed

lemma ValidateNoSecretsInState_computes:
  assumes "\<And>i m. set (ord i m) = set m"
  shows "\<exists>st. slots st = Collect (credential (flatten ts)) \<and>
    ValidateNoSecretsInState ord ts =
      Some (if offendingKeys st (flatten ts) = [] then None else Some (sort (offendingKeys st (flatten ts))))"
proof -
  let ?all = "flatten ts"
  have "slots \<lparr>secretVars = {}, secretState = {}\<rparr> = {}" by (simp add: slots_def)
  then obtain st where "markLoop (markFuel ?all) ord 0 ?all \<lparr>secretVars = {}, secretState = {}\<rparr> = Some st"
    "slots st = Collect (credential ?all)"
    using markLoop_computes [where ord = ord, OF assms, where st = "\<lparr>secretVars = {}, secretState = {}\<rparr>" and all = ?all and
        n = "markFuel ?all" and i = 0]
      card_writtenSlots [of ?all] by auto
  then show ?thesis by (intro exI [of _ st]) (simp add: ValidateNoSecretsInState_def)
qed

text \<open>C10: The check of \<open>set_state\<close> always ends, whatever order the maps are iterated in and however it
changes between passes. It accepts a definition exactly if no state key may hold a credential,
where credentials flow through any chain of variables and state keys across all nested tasks; and
it rejects with exactly the keys written from a credential, sorted.\<close>

theorem no_credential_in_state:
  assumes "\<And>i m. set (ord i m) = set m"
  shows "\<exists>r. ValidateNoSecretsInState ord ts = Some r \<and>
    (r = None \<longleftrightarrow> (\<forall>k. \<not> credential (flatten ts) (StateSlot k))) \<and>
    (\<forall>ks. r = Some ks \<longrightarrow> sorted ks \<and> set ks = leakingKeys (flatten ts))"
proof -
  obtain st where st: "slots st = Collect (credential (flatten ts))"
    and r: "ValidateNoSecretsInState ord ts =
      Some (if offendingKeys st (flatten ts) = [] then None else Some (sort (offendingKeys st (flatten ts))))"
    using ValidateNoSecretsInState_computes [where ord = ord and ts = ts, OF assms] by auto
  show ?thesis
  proof (cases "offendingKeys st (flatten ts) = []")
    case True
    then show ?thesis using offendingKeys_Nil [OF st] by (simp add: r)
  next
    case False
    define ks where "ks = sort (offendingKeys st (flatten ts))"
    have "ValidateNoSecretsInState ord ts = Some (Some ks)" using False r by (simp add: ks_def)
    moreover have "sorted ks" "set ks = leakingKeys (flatten ts)" using set_offendingKeys [OF st] by (simp_all add: ks_def)
    moreover have "\<not> (\<forall>k. \<not> credential (flatten ts) (StateSlot k))" using False offendingKeys_Nil [OF st] by simp
    ultimately show ?thesis by simp
  qed
qed

definition alternating :: "nat \<Rightarrow> object \<Rightarrow> object" where
  "alternating i m = (if even i then rev m else m)"

definition stashToken :: "Task list" where
  "stashToken =
     [plainTask ''login'' ''core.http'' [] [] [] [(''pw'', AStr ''{{ Secrets.db }}'')] [] [],
      plainTask ''keep'' ''core.print'' [] [] [] [] [(''copy'', AStr ''{{ Vars.pw }}'')] [''login'']]"

theorem no_credential_in_state_witness:
  "\<exists>ks. ValidateNoSecretsInState alternating stashToken = Some (Some ks) \<and>
     ''keep.copy'' \<in> set ks"
proof -
  let ?all = "flatten stashToken"
  have all: "?all = stashToken" by (simp add: stashToken_def)
  have w: "(VarSlot ''pw'', ''pw'', AStr ''{{ Secrets.db }}'') \<in> writes ?all"
    "(StateSlot ''copy'', ''copy'', AStr ''{{ Vars.pw }}'') \<in> writes ?all"
    unfolding all by (simp_all add: stashToken_def writes_def)
  have "namesSecret ''pw'' (AStr ''{{ Secrets.db }}'')" by (simp add: namesSecret_def)
  then have "credential ?all (VarSlot ''pw'')" by (rule credential.direct [OF w(1)])
  moreover have "readsSlot ''copy'' (AStr ''{{ Vars.pw }}'') (VarSlot ''pw'')"
    by (simp add: readsAny_def varRefPattern_def FindAllRefs.simps refMatch_def wordChar_def reSpace_def isDigit_def)
  ultimately have l: "leaks ?all ''copy'' (AStr ''{{ Vars.pw }}'')"
    unfolding leaks_def carriesSlot_def by blast
  have o: "set (alternating i m) = set m" for i m by (simp add: alternating_def)
  from l have c: "credential ?all (StateSlot ''copy'')" by (rule leaks_credential [OF w(2)])
  obtain r where r: "ValidateNoSecretsInState alternating stashToken = Some r"
    "r = None \<longleftrightarrow> (\<forall>k. \<not> credential ?all (StateSlot k))"
    "\<forall>ks. r = Some ks \<longrightarrow> sorted ks \<and> set ks = leakingKeys ?all"
    using no_credential_in_state [where ord = alternating and ts = stashToken, OF o] by blast
  then obtain ks where "ValidateNoSecretsInState alternating stashToken = Some (Some ks)"
    "set ks = leakingKeys ?all"
    using c by blast
  moreover have "''keep.copy'' \<in> leakingKeys ?all"
    unfolding leakingKeys_def using l by (intro CollectI exI [of _ "stashToken ! 1"] exI [of _ "''copy''"] exI [of _ "AStr ''{{ Vars.pw }}''"]) (simp add: stashToken_def)
  ultimately show ?thesis by blast
qed

end
