(* ===== verification/WorkflowRedaction.thy ===== *)
theory WorkflowRedaction
  imports WorkflowSecrets
begin

text \<open>
  Redaction of workflow executions (\<open>runbook-server/internal/workflow/redaction.go\<close>) and the
  rendering of parameters it follows (\<open>ProcessValue\<close> of \<open>templating.go\<close>).

  The rendering of one template string is an argument: the value of a plain variable expression
  (\<open>EvaluateSimpleVariable\<close>) and the text of any other template (\<open>Render\<close>). A
  nil map and an empty map are the same object here. Where Go looks for a task by suffix in a map,
  the order of the map is an argument. Text is ASCII: \<open>ReplaceAll\<close> with an empty old string and
  the escaping functions go byte by byte.
\<close>

section \<open>Rendering\<close>

text \<open>\<open>ProcessValue\<close>: values are rendered, keys are not; the first error ends it.\<close>

record TemplateContext =
  EvaluateSimpleVariable :: "string \<Rightarrow> any option"
  Render :: "string \<Rightarrow> string + string"

fun ProcessValue :: "TemplateContext \<Rightarrow> any \<Rightarrow> string + any"
  and ProcessValueMap :: "TemplateContext \<Rightarrow> object \<Rightarrow> string + object"
  and ProcessValueList :: "TemplateContext \<Rightarrow> any list \<Rightarrow> string + any list"
where
  "ProcessValue ctx (AStr s) =
     (case EvaluateSimpleVariable ctx s of
        Some v \<Rightarrow> Inr v
      | None \<Rightarrow> (case Render ctx s of Inl e \<Rightarrow> Inl e | Inr r \<Rightarrow> Inr (AStr r)))"
| "ProcessValue ctx (AObj m) = (case ProcessValueMap ctx m of Inl e \<Rightarrow> Inl e | Inr m' \<Rightarrow> Inr (AObj m'))"
| "ProcessValue ctx (AArr vs) = (case ProcessValueList ctx vs of Inl e \<Rightarrow> Inl e | Inr vs' \<Rightarrow> Inr (AArr vs'))"
| "ProcessValue ctx ANil = Inr ANil"
| "ProcessValue ctx (ABool b) = Inr (ABool b)"
| "ProcessValue ctx (AInt n) = Inr (AInt n)"
| "ProcessValue ctx (AFloat x) = Inr (AFloat x)"
| "ProcessValueMap ctx [] = Inr []"
| "ProcessValueMap ctx ((k, v) # m) =
     (case ProcessValue ctx v of
        Inl e \<Rightarrow> Inl e
      | Inr v' \<Rightarrow> (case ProcessValueMap ctx m of Inl e \<Rightarrow> Inl e | Inr m' \<Rightarrow> Inr ((k, v') # m')))"
| "ProcessValueList ctx [] = Inr []"
| "ProcessValueList ctx (v # vs) =
     (case ProcessValue ctx v of
        Inl e \<Rightarrow> Inl e
      | Inr v' \<Rightarrow> (case ProcessValueList ctx vs of Inl e \<Rightarrow> Inl e | Inr vs' \<Rightarrow> Inr (v' # vs')))"

section \<open>Blanking parameters that name secrets\<close>

definition RedactedValue :: string where "RedactedValue = ''***REDACTED***''"

text \<open>\<open>buildTaskDefinitionMap\<close>: the first definition of an identifier wins, unless it has no type.\<close>

definition defineTask :: "Task \<Rightarrow> (string \<times> Task) list \<Rightarrow> (string \<times> Task) list" where
  "defineTask t m =
     (case map_of m (task_ID t) of
        None \<Rightarrow> AList.update (task_ID t) t m
      | Some existing \<Rightarrow> if task_Type existing = '''' then AList.update (task_ID t) t m else m)"

definition buildTaskDefinitionMap :: "Task list \<Rightarrow> (string \<times> Task) list" where
  "buildTaskDefinitionMap tasks = fold defineTask (flatten tasks) []"

abbreviation isContainer :: "any \<Rightarrow> bool" where
  "isContainer v \<equiv> (case v of AObj _ \<Rightarrow> True | AArr _ \<Rightarrow> True | _ \<Rightarrow> False)"

text \<open>\<open>collectSecretParamKeys\<close>: the flag and the keys collected so far.\<close>

fun collectSecretParamKeys :: "any \<Rightarrow> string set \<Rightarrow> bool \<times> string set"
  and collectMap :: "object \<Rightarrow> bool \<Rightarrow> string set \<Rightarrow> bool \<times> string set"
  and collectList :: "any list \<Rightarrow> bool \<Rightarrow> string set \<Rightarrow> bool \<times> string set"
where
  "collectSecretParamKeys (AObj m) out = collectMap m False out"
| "collectSecretParamKeys (AArr vs) out = collectList vs False out"
| "collectSecretParamKeys (AStr s) out = (False, out)"
| "collectSecretParamKeys ANil out = (False, out)"
| "collectSecretParamKeys (ABool b) out = (False, out)"
| "collectSecretParamKeys (AInt n) out = (False, out)"
| "collectSecretParamKeys (AFloat x) out = (False, out)"
| "collectMap [] u out = (u, out)"
| "collectMap ((k, v) # m) u out =
     (let u' = (u \<or> secretRefPattern k) in
      if isContainer v then
        (let (inner, out') = collectSecretParamKeys v out
         in collectMap m u' (if inner then insert k out' else out'))
      else collectMap m u' (if containsSecretReference v then insert k out else out))"
| "collectList [] u out = (u, out)"
| "collectList (v # vs) u out =
     (if isContainer v then
        (let (inner, out') = collectSecretParamKeys v out in collectList vs (u \<or> inner) out')
      else collectList vs (u \<or> containsSecretReference v) out)"

definition buildSecretParamKeys :: "(string \<times> Task) list \<Rightarrow> (string \<times> string set) list" where
  "buildSecretParamKeys taskDefs =
     filter (\<lambda>(taskID, keys). keys \<noteq> {})
       (map (\<lambda>(taskID, task). (taskID, snd (collectSecretParamKeys (AObj (task_Params task)) {}))) taskDefs)"

fun redactDeep :: "any \<Rightarrow> string set \<Rightarrow> any"
  and redactMap :: "object \<Rightarrow> string set \<Rightarrow> object"
  and redactList :: "any list \<Rightarrow> string set \<Rightarrow> any list"
where
  "redactDeep (AObj m) keys = AObj (redactMap m keys)"
| "redactDeep (AArr vs) keys = AArr (redactList vs keys)"
| "redactDeep (AStr s) keys = AStr s"
| "redactDeep ANil keys = ANil"
| "redactDeep (ABool b) keys = ABool b"
| "redactDeep (AInt n) keys = AInt n"
| "redactDeep (AFloat x) keys = AFloat x"
| "redactMap [] keys = []"
| "redactMap ((k, v) # m) keys =
     (k, if k \<in> keys then AStr RedactedValue else redactDeep v keys) # redactMap m keys"
| "redactList [] keys = []"
| "redactList (v # vs) keys = redactDeep v keys # redactList vs keys"

definition redactTaskParams :: "object \<Rightarrow> string set \<Rightarrow> object" where
  "redactTaskParams params keys = (if keys = {} \<or> params = [] then params else redactMap params keys)"

text \<open>\<open>resolveSecretKeysForTask\<close>; the list is the map in the order it is iterated in.\<close>

definition resolveSecretKeysForTask :: "string \<Rightarrow> (string \<times> string set) list \<Rightarrow> string set option" where
  "resolveSecretKeysForTask taskID secretParamKeys =
     (case map_of secretParamKeys taskID of
        Some keys \<Rightarrow> Some keys
      | None \<Rightarrow> map_option snd (find (\<lambda>(defID, keys). HasSuffix taskID (''-'' @ defID)) secretParamKeys))"

datatype TaskExecutionDetails = TaskExecutionDetails
  (ted_ID: string)
  (ted_Input: object)
  (ted_RenderedParams: object)
  (ted_Output: any)
  (ted_Error: string)
  (ted_Children: "TaskExecutionDetails list")

fun redactRecursive ::
  "(string \<Rightarrow> (string \<times> string set) list) \<Rightarrow> TaskExecutionDetails list \<Rightarrow> TaskExecutionDetails list" where
  "redactRecursive spk [] = []"
| "redactRecursive spk (TaskExecutionDetails i inp ren out err cs # ts) =
     (case resolveSecretKeysForTask i (spk i) of
        Some keys \<Rightarrow> TaskExecutionDetails i (redactTaskParams inp keys) (redactTaskParams ren keys) out err (redactRecursive spk cs)
      | None \<Rightarrow> TaskExecutionDetails i inp ren out err (redactRecursive spk cs)) # redactRecursive spk ts"

text \<open>The order in which the map is searched for a task is the argument \<open>ord\<close>.\<close>

definition RedactSecretsFromTasks ::
  "(string \<Rightarrow> (string \<times> string set) list \<Rightarrow> (string \<times> string set) list) \<Rightarrow> TaskExecutionDetails list \<Rightarrow> Task list \<Rightarrow>
     TaskExecutionDetails list" where
  "RedactSecretsFromTasks ord tasks wfTasks =
     (let spk = buildSecretParamKeys (buildTaskDefinitionMap wfTasks)
      in if spk = [] then tasks else redactRecursive (\<lambda>i. ord i spk) tasks)"

section \<open>Scrubbing credential values\<close>

definition ScrubbedValue :: string where "ScrubbedValue = ''***''"
definition minScrubLength :: nat where "minScrubLength = 6"

fun ScrubSecretValues :: "string \<Rightarrow> string list \<Rightarrow> string" where
  "ScrubSecretValues s [] = s"
| "ScrubSecretValues s (v # vs) = ScrubSecretValues (ReplaceAll s v ScrubbedValue) vs"

fun scrubValue :: "any \<Rightarrow> string list \<Rightarrow> any"
  and scrubMap :: "object \<Rightarrow> string list \<Rightarrow> object \<Rightarrow> object"
  and scrubList :: "any list \<Rightarrow> string list \<Rightarrow> any list"
where
  "scrubValue (AStr s) sv = AStr (ScrubSecretValues s sv)"
| "scrubValue (AObj m) sv = AObj (scrubMap m sv [])"
| "scrubValue (AArr vs) sv = AArr (scrubList vs sv)"
| "scrubValue ANil sv = ANil"
| "scrubValue (ABool b) sv = ABool b"
| "scrubValue (AInt n) sv = AInt n"
| "scrubValue (AFloat x) sv = AFloat x"
| "scrubMap [] sv out = out"
| "scrubMap ((k, v) # m) sv out = scrubMap m sv (setKey (ScrubSecretValues k sv) (scrubValue v sv) out)"
| "scrubList [] sv = []"
| "scrubList (v # vs) sv = scrubValue v sv # scrubList vs sv"

text \<open>\<open>task.Input, _ = scrubValue(...).(map[string]any)\<close>.\<close>

fun scrubTasks :: "TaskExecutionDetails list \<Rightarrow> string list \<Rightarrow> TaskExecutionDetails list" where
  "scrubTasks [] sv = []"
| "scrubTasks (TaskExecutionDetails i inp ren out err cs # ts) sv =
     TaskExecutionDetails i (scrubMap inp sv []) (scrubMap ren sv []) out (ScrubSecretValues err sv) (scrubTasks cs sv)
       # scrubTasks ts sv"

definition ScrubTaskValues :: "TaskExecutionDetails list \<Rightarrow> string list \<Rightarrow> TaskExecutionDetails list" where
  "ScrubTaskValues tasks sv = (if sv = [] then tasks else scrubTasks tasks sv)"

record WorkflowExecutionDetails =
  wed_Error :: string
  wed_Tasks :: "TaskExecutionDetails list"

definition RedactExecutionSecrets ::
  "(string \<Rightarrow> (string \<times> string set) list \<Rightarrow> (string \<times> string set) list) \<Rightarrow>
     WorkflowExecutionDetails option \<Rightarrow> Task list \<Rightarrow> string list \<Rightarrow> WorkflowExecutionDetails option" where
  "RedactExecutionSecrets ord details wfTasks sv =
     map_option (\<lambda>d. d\<lparr>wed_Tasks := ScrubTaskValues (RedactSecretsFromTasks ord (wed_Tasks d) wfTasks) sv,
                      wed_Error := ScrubSecretValues (wed_Error d) sv\<rparr>) details"

text \<open>\<open>SecretValues\<close>: every form, longest first, then alphabetically.\<close>

definition secretForms :: "object \<Rightarrow> string list" where
  "secretForms secrets =
     concat (map (\<lambda>(k, v). case v of
         AStr s \<Rightarrow> if length s < minScrubLength then [] else [s, QueryEscape s, PathEscape s]
       | _ \<Rightarrow> []) secrets)"

definition longerFirst :: "string \<Rightarrow> string \<Rightarrow> bool" where
  "longerFirst a b \<longleftrightarrow> (if length a \<noteq> length b then length a > length b else a < b)"

definition SecretValues :: "object \<Rightarrow> string list" where
  "SecretValues secrets = SliceStable longerFirst (remdups (secretForms secrets))"

section \<open>Redaction hides what depends on secrets\<close>

text \<open>
  A text refers to the secrets if \<open>Secrets\<close> stands in it before a bracket, a dot or white space. Two
  contexts differ only in the secrets if every other text renders the same in both.
\<close>

definition refersToSecrets :: "string \<Rightarrow> bool" where
  "refersToSecrets s \<longleftrightarrow>
     (\<exists>pre post. s = pre @ ''Secrets'' @ post \<and> post \<noteq> [] \<and>
        hd post \<in> {CHR ''['', CHR ''.'', CHR '' '', CHR 0x09, CHR 0x0A, CHR 0x0C, CHR 0x0D})"

lemma somewhere_Cons:
  "(\<exists>pre r. c # s = pre @ w @ r \<and> E r) \<longleftrightarrow> (\<exists>r. c # s = w @ r \<and> E r) \<or> (\<exists>pre r. s = pre @ w @ r \<and> E r)"
proof
  assume "\<exists>pre r. c # s = pre @ w @ r \<and> E r"
  then obtain pre r where "c # s = pre @ w @ r" "E r" by blast
  then show "(\<exists>r. c # s = w @ r \<and> E r) \<or> (\<exists>pre r. s = pre @ w @ r \<and> E r)" by (cases pre) auto
next
  assume "(\<exists>r. c # s = w @ r \<and> E r) \<or> (\<exists>pre r. s = pre @ w @ r \<and> E r)"
  then show "\<exists>pre r. c # s = pre @ w @ r \<and> E r" by (metis append_Cons append_Nil)
qed

lemma secretRefPattern_refers: "secretRefPattern s \<longleftrightarrow> refersToSecrets s"
proof (induction s)
  case Nil
  then show ?case by (simp add: refersToSecrets_def)
next
  case (Cons c s)
  define E where "E post \<longleftrightarrow> post \<noteq> [] \<and> hd post \<in> {CHR ''['', CHR ''.'', CHR '' '', CHR 0x09, CHR 0x0A, CHR 0x0C, CHR 0x0D}"
    for post
  define w where "w = ''Secrets''"
  have w: "length w = 7" by (simp add: w_def)
  have E: "E post \<longleftrightarrow> (case post of [] \<Rightarrow> False | d # _ \<Rightarrow> d = CHR ''['' \<or> d = CHR ''.'' \<or> reSpace d)" for post
    by (cases post) (auto simp: E_def reSpace_def)
  have "HasPrefix (c # s) w \<and> E (drop 7 (c # s)) \<longleftrightarrow> (\<exists>r. c # s = w @ r \<and> E r)"
    using w by (metis HasPrefix_iff append_eq_conv_conj)
  moreover have "refersToSecrets s \<longleftrightarrow> (\<exists>pre r. s = pre @ w @ r \<and> E r)" for s
    unfolding refersToSecrets_def E_def w_def ..
  moreover have "secretRefPattern (c # s) \<longleftrightarrow> HasPrefix (c # s) w \<and> E (drop 7 (c # s)) \<or> secretRefPattern s"
    unfolding E w_def by (rule secretRefPattern.simps(2))
  ultimately show ?case using Cons.IH by (simp only: somewhere_Cons)
qed

definition sameOutsideSecrets :: "TemplateContext \<Rightarrow> TemplateContext \<Rightarrow> bool" where
  "sameOutsideSecrets c c' \<longleftrightarrow>
     (\<forall>s. \<not> refersToSecrets s \<longrightarrow> EvaluateSimpleVariable c s = EvaluateSimpleVariable c' s \<and> Render c s = Render c' s)"

lemma ProcessValue_leaf:
  "sameOutsideSecrets c c' \<Longrightarrow> \<not> isContainer v \<Longrightarrow> \<not> containsSecretReference v \<Longrightarrow> ProcessValue c v = ProcessValue c' v"
  by (cases v) (auto simp: sameOutsideSecrets_def secretRefPattern_refers split: option.split)

lemma collect_mono:
  "collectSecretParamKeys v out = (u', out') \<Longrightarrow> out \<subseteq> out'"
  "collectMap m u out = (u', out') \<Longrightarrow> out \<subseteq> out' \<and> (u \<longrightarrow> u')"
  "collectList vs u out = (u', out') \<Longrightarrow> out \<subseteq> out' \<and> (u \<longrightarrow> u')"
proof (induction v out and m u out and vs u out arbitrary: u' out' and u' out' and u' out'
    rule: collectSecretParamKeys_collectMap_collectList.induct)
  case (9 k v m u out)
  obtain i o1 where c: "collectSecretParamKeys v out = (i, o1)" by (cases "collectSecretParamKeys v out")
  show ?case
  proof (cases "isContainer v")
    case True
    note sub = "9.IH"(1) [OF refl True c]
    have "collectMap m (u \<or> secretRefPattern k) (if i then insert k o1 else o1) = (u', out')"
      using "9.prems" True by (simp add: c)
    from "9.IH"(2) [OF refl True c [symmetric] refl this] sub show ?thesis by (auto split: if_splits)
  next
    case False
    then have "collectMap m (u \<or> secretRefPattern k) (if containsSecretReference v then insert k out else out) = (u', out')"
      using "9.prems" by simp
    from "9.IH"(3) [OF refl False this] show ?thesis by (auto split: if_splits)
  qed
next
  case (11 v vs u out)
  obtain i o1 where c: "collectSecretParamKeys v out = (i, o1)" by (cases "collectSecretParamKeys v out")
  show ?case
  proof (cases "isContainer v")
    case True
    have "collectList vs (u \<or> i) o1 = (u', out')" using "11.prems" True by (simp add: c)
    from "11.IH"(2) [OF True c [symmetric] refl this] "11.IH"(1) [OF True c] show ?thesis by auto
  next
    case False
    then have "collectList vs (u \<or> containsSecretReference v) out = (u', out')" using "11.prems" by simp
    from "11.IH"(3) [OF False this] show ?thesis by auto
  qed
qed auto

lemma redact_noninterference:
  assumes same: "sameOutsideSecrets c c'"
  shows "collectSecretParamKeys v out = (u', out') \<Longrightarrow> isContainer v \<Longrightarrow> \<not> u' \<Longrightarrow> out' \<subseteq> keys \<Longrightarrow>
      ProcessValue c v = Inr w \<Longrightarrow> ProcessValue c' v = Inr w' \<Longrightarrow> redactDeep w keys = redactDeep w' keys"
    and "collectMap m u out = (u', out') \<Longrightarrow> out' \<subseteq> keys \<Longrightarrow>
      ProcessValueMap c m = Inr n \<Longrightarrow> ProcessValueMap c' m = Inr n' \<Longrightarrow> redactMap n keys = redactMap n' keys"
    and "collectList vs u out = (u', out') \<Longrightarrow> \<not> u' \<Longrightarrow> out' \<subseteq> keys \<Longrightarrow>
      ProcessValueList c vs = Inr ws \<Longrightarrow> ProcessValueList c' vs = Inr ws' \<Longrightarrow> redactList ws keys = redactList ws' keys"
proof (induction v out and m u out and vs u out arbitrary: u' out' w w' and u' out' n n' and u' out' ws ws'
    rule: collectSecretParamKeys_collectMap_collectList.induct)
  case (1 m out)
  then show ?case by (fastforce split: sum.splits)
next
  case (2 vs out)
  then show ?case by (fastforce split: sum.splits)
next
  case (9 k v m u out)
  obtain x r where 1: "ProcessValue c v = Inr x" "ProcessValueMap c m = Inr r" "n = (k, x) # r"
    using "9.prems"(3) by (auto split: sum.splits)
  obtain x' r' where 2: "ProcessValue c' v = Inr x'" "ProcessValueMap c' m = Inr r'" "n' = (k, x') # r'"
    using "9.prems"(4) by (auto split: sum.splits)
  obtain i o1 where c: "collectSecretParamKeys v out = (i, o1)" by (cases "collectSecretParamKeys v out")
  show ?case
  proof (cases "isContainer v")
    case True
    have rest: "collectMap m (u \<or> secretRefPattern k) (if i then insert k o1 else o1) = (u', out')"
      using "9.prems"(1) True by (simp add: c)
    have tail: "redactMap r keys = redactMap r' keys"
      by (rule "9.IH"(2) [OF refl True c [symmetric] refl rest "9.prems"(2) 1(2) 2(2)])
    have "(if i then insert k o1 else o1) \<subseteq> keys" using collect_mono(2) [OF rest] "9.prems"(2) by blast
    then have "k \<in> keys \<or> \<not> i" "o1 \<subseteq> keys" by (auto split: if_splits)
    then show ?thesis using "9.IH"(1) [OF refl True c True _ _ 1(1) 2(1)] tail by (auto simp: 1(3) 2(3))
  next
    case False
    have rest: "collectMap m (u \<or> secretRefPattern k) (if containsSecretReference v then insert k out else out) = (u', out')"
      using "9.prems"(1) False by simp
    have tail: "redactMap r keys = redactMap r' keys"
      by (rule "9.IH"(3) [OF refl False rest "9.prems"(2) 1(2) 2(2)])
    have "(if containsSecretReference v then insert k out else out) \<subseteq> keys"
      using collect_mono(2) [OF rest] "9.prems"(2) by blast
    then have "k \<in> keys \<or> \<not> containsSecretReference v" by (auto split: if_splits)
    then show ?thesis using ProcessValue_leaf [OF same False] 1(1) 2(1) tail by (auto simp: 1(3) 2(3))
  qed
next
  case (11 v vs u out)
  obtain x r where 1: "ProcessValue c v = Inr x" "ProcessValueList c vs = Inr r" "ws = x # r"
    using "11.prems"(4) by (auto split: sum.splits)
  obtain x' r' where 2: "ProcessValue c' v = Inr x'" "ProcessValueList c' vs = Inr r'" "ws' = x' # r'"
    using "11.prems"(5) by (auto split: sum.splits)
  obtain i o1 where c: "collectSecretParamKeys v out = (i, o1)" by (cases "collectSecretParamKeys v out")
  show ?case
  proof (cases "isContainer v")
    case True
    have rest: "collectList vs (u \<or> i) o1 = (u', out')" using "11.prems"(1) True by (simp add: c)
    have tail: "redactList r keys = redactList r' keys"
      by (rule "11.IH"(2) [OF True c [symmetric] refl rest "11.prems"(2,3) 1(2) 2(2)])
    have "o1 \<subseteq> keys" "\<not> i" using collect_mono(3) [OF rest] "11.prems"(2,3) by blast+
    then show ?thesis using "11.IH"(1) [OF True c True _ _ 1(1) 2(1)] tail by (auto simp: 1(3) 2(3))
  next
    case False
    have rest: "collectList vs (u \<or> containsSecretReference v) out = (u', out')" using "11.prems"(1) False by simp
    have tail: "redactList r keys = redactList r' keys"
      by (rule "11.IH"(3) [OF False rest "11.prems"(2,3) 1(2) 2(2)])
    have "\<not> containsSecretReference v" using collect_mono(3) [OF rest] "11.prems"(2) by blast
    then show ?thesis using ProcessValue_leaf [OF same False] 1(1) 2(1) tail by (auto simp: 1(3) 2(3))
  qed
qed auto

lemma redact_none:
  "redactDeep v {} = v" "redactMap m {} = m" "redactList vs {} = vs"
  by (induction v "{} :: string set" and m "{} :: string set" and vs "{} :: string set" rule: redactDeep_redactMap_redactList.induct) auto

lemma distinct_buildTaskDefinitionMap: "distinct (map fst (buildTaskDefinitionMap ts))"
proof -
  have "distinct (map fst (fold defineTask us m))" if "distinct (map fst m)" for us m
    using that by (induction us arbitrary: m) (auto simp: defineTask_def distinct_update split: option.splits)
  then show ?thesis by (simp add: buildTaskDefinitionMap_def)
qed

lemma fst_buildSecretParamKeys: "fst ` set (buildSecretParamKeys defs) \<subseteq> fst ` set defs"
  by (force simp: buildSecretParamKeys_def)

lemma map_of_buildSecretParamKeys:
  assumes "distinct (map fst defs)"
  shows "map_of (buildSecretParamKeys defs) d =
    (case map_of defs d of
       None \<Rightarrow> None
     | Some t \<Rightarrow> (let keys = snd (collectSecretParamKeys (AObj (task_Params t)) {}) in if keys = {} then None else Some keys))"
  using assms
proof (induction defs)
  case (Cons e defs)
  obtain i t where e: "e = (i, t)" by (cases e)
  define keys where "keys = snd (collectSecretParamKeys (AObj (task_Params t)) {})"
  have b: "buildSecretParamKeys (e # defs) = (if keys = {} then [] else [(i, keys)]) @ buildSecretParamKeys defs"
    by (simp add: buildSecretParamKeys_def e keys_def)
  show ?case
  proof (cases "d = i")
    case True
    then have "d \<notin> fst ` set (buildSecretParamKeys defs)" using Cons.prems fst_buildSecretParamKeys [of defs] e by auto
    then have "map_of (buildSecretParamKeys defs) d = None" by (simp add: map_of_eq_None_iff)
    then show ?thesis unfolding b by (simp add: e True keys_def Let_def)
  next
    case False
    then have "map_of (buildSecretParamKeys (e # defs)) d = map_of (buildSecretParamKeys defs) d" unfolding b by simp
    then show ?thesis using Cons False by (simp add: e)
  qed
qed (simp add: buildSecretParamKeys_def)

lemma distinct_buildSecretParamKeys:
  "distinct (map fst defs) \<Longrightarrow> distinct (map fst (buildSecretParamKeys defs))"
  by (induction defs) (auto simp: buildSecretParamKeys_def image_iff)

text \<open>
  The task a run identifier stands for: its own definition, or the one definition whose identifier
  it ends with (a child of a loop runs as \<open>loop-index-child\<close>).
\<close>

definition standsFor :: "(string \<times> Task) list \<Rightarrow> string \<Rightarrow> string \<Rightarrow> bool" where
  "standsFor defs i d \<longleftrightarrow> d \<in> fst ` set defs \<and>
     (i = d \<or> i \<notin> fst ` set defs \<and> HasSuffix i (''-'' @ d) \<and>
       (\<forall>d'\<in>fst ` set defs. HasSuffix i (''-'' @ d') \<longrightarrow> d' = d))"

lemma resolve_standsFor:
  assumes dist: "distinct (map fst defs)" and "standsFor defs i d" and perm: "mset l = mset (buildSecretParamKeys defs)"
    and keys: "map_of (buildSecretParamKeys defs) d = Some ks"
  shows "resolveSecretKeysForTask i l = Some ks"
proof -
  let ?spk = "buildSecretParamKeys defs"
  have l: "set l = set ?spk" using perm by (rule mset_eq_setD)
  have "mset (map fst l) = mset (map fst ?spk)" using perm by simp
  then have dl: "distinct (map fst l)" using distinct_buildSecretParamKeys [OF dist] by (metis mset_eq_imp_distinct_iff)
  have look: "map_of l = map_of ?spk" using map_of_inject_set dl distinct_buildSecretParamKeys [OF dist] l by metis
  show ?thesis
  proof (cases "i = d")
    case True
    then show ?thesis using keys by (simp add: resolveSecretKeysForTask_def look)
  next
    case False
    then have i: "i \<notin> fst ` set defs" "HasSuffix i (''-'' @ d)"
      and u: "\<And>d'. d' \<in> fst ` set defs \<Longrightarrow> HasSuffix i (''-'' @ d') \<Longrightarrow> d' = d"
      using assms(2) by (auto simp: standsFor_def)
    have "map_of l i = None" using i(1) fst_buildSecretParamKeys [of defs] by (auto simp: look map_of_eq_None_iff)
    moreover have m: "(d, ks) \<in> set l" using keys look by (metis map_of_SomeD)
    moreover have "find (\<lambda>(defID, keys). HasSuffix i (''-'' @ defID)) l = Some (d, ks)"
    proof (cases "find (\<lambda>(defID, keys). HasSuffix i (''-'' @ defID)) l")
      case None
      then show ?thesis using m i(2) by (auto simp: find_None_iff)
    next
      case (Some e)
      then have e: "e \<in> set l" "HasSuffix i (''-'' @ fst e)" using find_Some_in [OF Some] by (auto split: prod.splits)
      then have "fst e = d" using u fst_buildSecretParamKeys [of defs] l by blast
      then show ?thesis using Some e(1) m dl by (metis eq_key_imp_eq_value prod.collapse)
    qed
    ultimately show ?thesis by (simp add: resolveSecretKeysForTask_def)
  qed
qed

text \<open>
  Two recordings of the same run under the two contexts: the same tasks at every depth, each with
  the parameters its definition renders to. Outputs and errors are whatever the runs gave.
\<close>

definition sameParams :: "TemplateContext \<Rightarrow> TemplateContext \<Rightarrow> (string \<times> Task) list \<Rightarrow> string \<Rightarrow> object \<Rightarrow> object \<Rightarrow> bool" where
  "sameParams c c' defs i p p' \<longleftrightarrow> p = p' \<or>
     (\<exists>d t. standsFor defs i d \<and> map_of defs d = Some t \<and>
        ProcessValueMap c (task_Params t) = Inr p \<and> ProcessValueMap c' (task_Params t) = Inr p')"

inductive sameRuns ::
  "TemplateContext \<Rightarrow> TemplateContext \<Rightarrow> (string \<times> Task) list \<Rightarrow> TaskExecutionDetails list \<Rightarrow> TaskExecutionDetails list \<Rightarrow> bool"
  for c c' defs where
  Nil: "sameRuns c c' defs [] []"
| Cons: "sameParams c c' defs i inp inp' \<Longrightarrow> sameParams c c' defs i ren ren' \<Longrightarrow> sameRuns c c' defs cs cs' \<Longrightarrow>
    sameRuns c c' defs ts ts' \<Longrightarrow>
    sameRuns c c' defs (TaskExecutionDetails i inp ren out err cs # ts) (TaskExecutionDetails i inp' ren' out' err' cs' # ts')"

text \<open>What a recording shows of the parameters: its outputs and errors left out.\<close>

datatype Params = Params (pr_ID: string) (pr_Input: object) (pr_Rendered: object) (pr_Children: "Params list")

fun parametersOf :: "TaskExecutionDetails list \<Rightarrow> Params list" where
  "parametersOf [] = []"
| "parametersOf (TaskExecutionDetails i inp ren out err cs # ts) = Params i inp ren (parametersOf cs) # parametersOf ts"

lemma ProcessValueMap_Nil: "ProcessValueMap c m = Inr [] \<Longrightarrow> m = []"
  by (cases m) (auto split: sum.splits)

lemma sameParams_redacted:
  assumes same: "sameOutsideSecrets c c'" and dist: "distinct (map fst defs)"
    and "sameParams c c' defs i p p'" and perm: "mset l = mset (buildSecretParamKeys defs)"
  shows "case resolveSecretKeysForTask i l of None \<Rightarrow> p = p' | Some ks \<Rightarrow> redactTaskParams p ks = redactTaskParams p' ks"
proof (cases "p = p'")
  case True
  then show ?thesis by (simp split: option.split)
next
  case False
  then obtain d t where t: "standsFor defs i d" "map_of defs d = Some t"
    "ProcessValueMap c (task_Params t) = Inr p" "ProcessValueMap c' (task_Params t) = Inr p'"
    using assms(3) by (auto simp: sameParams_def)
  obtain u ks where k: "collectMap (task_Params t) False {} = (u, ks)" by (cases "collectMap (task_Params t) False {}")
  have r: "redactMap p ks = redactMap p' ks" by (rule redact_noninterference(2) [OF same k _ t(3,4)]) simp
  have "ks \<noteq> {}" using r redact_none(2) False by metis
  then have "map_of (buildSecretParamKeys defs) d = Some ks"
    using t(2) k by (simp add: map_of_buildSecretParamKeys [OF dist])
  then have "resolveSecretKeysForTask i l = Some ks" by (rule resolve_standsFor [OF dist t(1) perm])
  moreover have "p = [] \<longleftrightarrow> p' = []" using ProcessValueMap_Nil t(3,4) by fastforce
  ultimately show ?thesis using r \<open>ks \<noteq> {}\<close> by (auto simp: redactTaskParams_def)
qed

lemma sameRuns_redacted:
  assumes same: "sameOutsideSecrets c c'" and dist: "distinct (map fst defs)"
    and perm: "\<And>i. mset (spk i) = mset (buildSecretParamKeys defs)"
    and "sameRuns c c' defs ts ts'"
  shows "parametersOf (redactRecursive spk ts) = parametersOf (redactRecursive spk ts')"
  using assms(4)
proof induction
  case (Cons i inp inp' ren ren' cs cs' ts ts' out err out' err')
  note p = sameParams_redacted [OF same dist _ perm [of i]]
  show ?case using p [OF Cons.hyps(1)] p [OF Cons.hyps(2)] Cons.IH by (auto split: option.splits)
qed simp

lemma sameRuns_trivial:
  assumes same: "sameOutsideSecrets c c'" and dist: "distinct (map fst defs)" and "buildSecretParamKeys defs = []"
    and "sameRuns c c' defs ts ts'"
  shows "parametersOf ts = parametersOf ts'"
  using assms(4)
proof induction
  case (Cons i inp inp' ren ren' cs cs' ts ts' out err out' err')
  have p: "p = p'" if "sameParams c c' defs i p p'" for p p'
    using sameParams_redacted [OF same dist that, of "[]"] assms(3) by (simp add: resolveSecretKeysForTask_def)
  show ?case using p Cons by auto
qed simp


definition demoContext :: "string \<Rightarrow> TemplateContext" where
  "demoContext tok = \<lparr>EvaluateSimpleVariable = (\<lambda>s. if s = ''{{ Secrets.tok }}'' then Some (AStr tok) else None), Render = Inr\<rparr>"

definition demoCall :: "Task list" where
  "demoCall = [plainTask ''call'' ''core.http'' [(''auth'', AStr ''{{ Secrets.tok }}''), (''url'', AStr ''https://x'')] [] [] [] [] []]"


text \<open>
  Where a run identifier ends in the identifiers of two definitions, which one is taken depends on
  the order of the map: the parameters of the other one stay in the recording.
\<close>

lemma foreach_suffix_ambiguous:
  defines "def \<equiv> [plainTask ''pay'' ''core.http'' [(''pw'', AStr ''{{ Secrets.pw }}'')] [] [] [] [] [],
                 plainTask ''pre-pay'' ''core.http'' [(''tok'', AStr ''{{ Secrets.tok }}'')] [] [] [] [] []]"
    and "run \<equiv> [TaskExecutionDetails ''loop-0-pre-pay'' [(''tok'', AStr ''hunter2'')] [] ANil '''' []]"
  shows "RedactSecretsFromTasks (\<lambda>i l. l) run def = run"
    and "RedactSecretsFromTasks (\<lambda>i. rev) run def =
      [TaskExecutionDetails ''loop-0-pre-pay'' [(''tok'', AStr RedactedValue)] [] ANil '''' []]"
  by (simp_all add: def_def run_def RedactSecretsFromTasks_def buildSecretParamKeys_def buildTaskDefinitionMap_def
      defineTask_def reSpace_def resolveSecretKeysForTask_def HasSuffix_def redactTaskParams_def)

section \<open>Scrubbing removes every credential value\<close>

lemma Contains_Nil [simp]: "Contains s []"
  by (cases s) (simp_all add: Contains_def)

lemma ReplaceAll_scrubbed:
  assumes "v \<noteq> []"
  shows "ReplaceAll s v ScrubbedValue = replaceFrom v (replicate (Suc 2) (CHR ''*'')) s"
  using assms by (simp add: ReplaceAll_def ScrubbedValue_def numeral_eq_Suc)

lemma Scrub_keeps_out:
  assumes "CHR ''*'' \<notin> set w" "w \<noteq> []" "[] \<notin> set sv" "\<not> Contains s w"
  shows "\<not> Contains (ScrubSecretValues s sv) w"
  using assms(3,4)
proof (induction sv arbitrary: s)
  case (Cons v sv)
  then have "\<not> Contains (ReplaceAll s v ScrubbedValue) w"
    using Contains_replaceFrom [OF assms(1,2)] ReplaceAll_scrubbed by (metis list.set_intros(1))
  then show ?case using Cons by simp
qed simp

lemma Scrub_removes:
  assumes "w \<in> set sv" "\<forall>v\<in>set sv. v \<noteq> [] \<and> CHR ''*'' \<notin> set v"
  shows "\<not> Contains (ScrubSecretValues s sv) w"
  using assms
proof (induction sv arbitrary: s)
  case (Cons v sv)
  show ?case
  proof (cases "w \<in> set sv")
    case True
    then show ?thesis using Cons by simp
  next
    case False
    then have "w = v" using Cons.prems(1) by simp
    have v: "v \<noteq> []" "CHR ''*'' \<notin> set v" using Cons.prems(2) by auto
    have "\<not> Contains (ReplaceAll s v ScrubbedValue) w"
      unfolding ReplaceAll_scrubbed [OF v(1)] \<open>w = v\<close> by (rule replaceFrom_removes [OF v(2,1)])
    then show ?thesis using Scrub_keeps_out [of w sv] Cons.prems(2) \<open>w = v\<close> by auto
  qed
qed simp

text \<open>All text in a value: its strings and its keys.\<close>

fun texts :: "any \<Rightarrow> string set" and textsMap :: "object \<Rightarrow> string set" and textsList :: "any list \<Rightarrow> string set" where
  "texts (AStr s) = {s}"
| "texts (AObj m) = textsMap m"
| "texts (AArr vs) = textsList vs"
| "texts ANil = {}"
| "texts (ABool b) = {}"
| "texts (AInt n) = {}"
| "texts (AFloat x) = {}"
| "textsMap [] = {}"
| "textsMap ((k, v) # m) = insert k (texts v \<union> textsMap m)"
| "textsList [] = {}"
| "textsList (v # vs) = texts v \<union> textsList vs"

lemma textsMap_setKey: "textsMap (setKey k v m) \<subseteq> insert k (texts v \<union> textsMap m)"
proof (induction m)
  case (Cons e m)
  then show ?case by (cases e) (auto simp: setKey_def)
qed (simp add: setKey_def)

lemma texts_scrub:
  "s \<in> texts (scrubValue v sv) \<Longrightarrow> \<exists>s'. s = ScrubSecretValues s' sv"
  "s \<in> textsMap (scrubMap m sv out) \<Longrightarrow> s \<in> textsMap out \<or> (\<exists>s'. s = ScrubSecretValues s' sv)"
  "s \<in> textsList (scrubList vs sv) \<Longrightarrow> \<exists>s'. s = ScrubSecretValues s' sv"
proof (induction v sv and m sv out and vs sv rule: scrubValue_scrubMap_scrubList.induct)
  case (9 k v m sv out)
  then show ?case using textsMap_setKey [of "ScrubSecretValues k sv" "scrubValue v sv" out] by auto
qed auto

text \<open>All text an execution shows, outputs apart.\<close>

fun taskTexts :: "TaskExecutionDetails list \<Rightarrow> string set" where
  "taskTexts [] = {}"
| "taskTexts (TaskExecutionDetails i inp ren out err cs # ts) =
     textsMap inp \<union> textsMap ren \<union> {err} \<union> taskTexts cs \<union> taskTexts ts"

lemma taskTexts_scrubTasks: "s \<in> taskTexts (scrubTasks ts sv) \<Longrightarrow> \<exists>s'. s = ScrubSecretValues s' sv"
  by (induction ts sv rule: scrubTasks.induct) (auto dest!: texts_scrub(2))

lemma set_SecretValues: "set (SecretValues secrets) = set (secretForms secrets)"
  by (simp add: SecretValues_def)

lemma secretForms_shape:
  assumes "\<And>k s. (k, AStr s) \<in> set secrets \<Longrightarrow> CHR ''*'' \<notin> set s" "w \<in> set (secretForms secrets)"
  shows "w \<noteq> [] \<and> CHR ''*'' \<notin> set w"
proof -
  obtain k s where s: "(k, AStr s) \<in> set secrets" "minScrubLength \<le> length s" "w \<in> {s, QueryEscape s, PathEscape s}"
    using assms(2) by (auto simp: secretForms_def split: any.splits if_splits)
  then have "minScrubLength \<le> length w" using length_escape [of s] by auto
  then show ?thesis using assms(1) [OF s(1)] s(3) escape_no_star by (auto simp: minScrubLength_def)
qed

text \<open>After \<open>RedactExecutionSecrets\<close> with the values of the configured secrets, no credential of six
characters or more is left in an error, an input or a rendered parameter, in values or keys, of any
task or child task: neither verbatim nor in its query-escaped or path-escaped form, for secrets
without an asterisk.\<close>

theorem scrubbing_removes_secrets:
  assumes stars: "\<And>k s. (k, AStr s) \<in> set secrets \<Longrightarrow> CHR ''*'' \<notin> set s"
    and d: "RedactExecutionSecrets ord (Some d) def (SecretValues secrets) = Some d'"
    and shown: "t \<in> insert (wed_Error d') (taskTexts (wed_Tasks d'))"
    and secret: "(k, AStr s) \<in> set secrets" "6 \<le> length s"
  shows "\<not> Contains t s \<and> \<not> Contains t (QueryEscape s) \<and> \<not> Contains t (PathEscape s)"
proof -
  let ?sv = "SecretValues secrets"
  have forms: "{s, QueryEscape s, PathEscape s} \<subseteq> set ?sv"
    using secret by (force simp: set_SecretValues secretForms_def minScrubLength_def)
  then have "?sv \<noteq> []" by auto
  then obtain t' where t: "t = ScrubSecretValues t' ?sv"
    using shown d taskTexts_scrubTasks by (fastforce simp: RedactExecutionSecrets_def ScrubTaskValues_def)
  have "\<forall>v\<in>set ?sv. v \<noteq> [] \<and> CHR ''*'' \<notin> set v"
    using secretForms_shape [OF stars] by (auto simp: set_SecretValues)
  then have "\<not> Contains t w" if "w \<in> set ?sv" for w unfolding t using Scrub_removes that by blast
  then show ?thesis using forms by simp
qed

definition demoRun :: WorkflowExecutionDetails where
  "demoRun = \<lparr>wed_Error = ''dial: bad password p@ss w0rd'', wed_Tasks = [TaskExecutionDetails ''t''
     [(''q'', AArr [AStr ''u?x=p%40ss+w0rd''])] [] ANil '''' []]\<rparr>"

theorem scrubbing_removes_secrets_witness:
  "\<exists>d. RedactExecutionSecrets (\<lambda>i l. l) (Some demoRun) [] (SecretValues [(''db'', AStr ''p@ss w0rd'')]) = Some d \<and>
     (\<forall>t \<in> insert (wed_Error d) (taskTexts (wed_Tasks d)). \<not> Contains t ''p@ss w0rd'')"
proof -
  let ?r = "RedactExecutionSecrets (\<lambda>i l. l) (Some demoRun) [] (SecretValues [(''db'', AStr ''p@ss w0rd'')])"
  obtain d where d: "?r = Some d" by (simp add: RedactExecutionSecrets_def)
  have "\<not> Contains t ''p@ss w0rd''" if "t \<in> insert (wed_Error d) (taskTexts (wed_Tasks d))" for t
    using scrubbing_removes_secrets [OF _ d that, of "''db''" "''p@ss w0rd''"] by simp
  with d show ?thesis by blast
qed

text \<open>The restriction is needed: a value with the replacement inside can survive.\<close>

lemma scrub_star_survives:
  "SecretValues [(''k'', AStr ''ab***cd'')] = [''ab%2A%2A%2Acd'', ''ab***cd'']"
  "Contains (ScrubSecretValues ''abab***cdcd'' [''ab%2A%2A%2Acd'', ''ab***cd'']) ''ab***cd''"
  by (simp_all add: SecretValues_def secretForms_def minScrubLength_def QueryEscape_def PathEscape_def percent_def
      hexUpper_def unreserved_def isDigit_def longerFirst_def ReplaceAll_def ScrubbedValue_def Contains_def)

end
