(* ===== verification/WorkflowExecutor.thy ===== *)
theory WorkflowExecutor
  imports WorkflowMatrix WorkflowRedaction
begin

text \<open>
  The workflow executor (\<open>runbook-server/internal/workflow/executor.go\<close>): the task loop (\<open>processTaskLoop\<close>)
  that schedules the tasks of a definition as their dependencies complete, and what the completion
  of a task does to the run (\<open>handleTaskCompletion\<close>, \<open>executeSimpleActions\<close>).

  The loop is a transition system. A state is a position of the loop (scanning the task list, waiting
  in the selector, or returned) with the variables of the function. Between two steps of the loop any
  future may settle: what an activity, a child workflow or an inline sub-execution returns, and what
  an inline sub-execution of a switch leaves in its own context, is part of that event. A
  sub-execution is another run of this loop on the tasks prepared for it here.

  Arguments: the template engine (\<open>le_engine\<close>), the kind of a task type (\<open>le_kind\<close>; \<open>PlainTask\<close> also for a
  type the registry does not know), and, chosen anew at every step, what the task implementations and
  hook activities answer (\<open>answers\<close>). A task status is its string. Logging, activity options and the
  children and times in the trace are left out.
\<close>

section \<open>State\<close>

text \<open>
  The template context. In the context of a run, \<open>Inputs\<close> and \<open>Vars\<close> are one map (\<open>xc_shared\<close>); in a
  clone they are two.
\<close>

record execContext =
  xc_Inputs :: object
  xc_Tasks :: "string \<rightharpoonup> object"
  xc_Matrix :: object
  xc_Secrets :: object
  xc_Vars :: object
  xc_State :: object
  xc_Self :: object
  xc_shared :: bool

definition Clone :: "execContext \<Rightarrow> execContext" where
  "Clone c = c\<lparr>xc_Matrix := [], xc_shared := False\<rparr>"

definition setVar :: "string \<Rightarrow> any \<Rightarrow> execContext \<Rightarrow> execContext" where
  "setVar k v c = c\<lparr>xc_Vars := setKey k v (xc_Vars c),
     xc_Inputs := (if xc_shared c then setKey k v (xc_Inputs c) else xc_Inputs c)\<rparr>"

definition setInput :: "string \<Rightarrow> any \<Rightarrow> execContext \<Rightarrow> execContext" where
  "setInput k v c = c\<lparr>xc_Inputs := setKey k v (xc_Inputs c),
     xc_Vars := (if xc_shared c then setKey k v (xc_Vars c) else xc_Vars c)\<rparr>"

datatype taskKind = PlainTask | InlineTask bool | LoopTask

record loopConfig =
  lc_Items :: "any list"
  lc_ItemVarName :: string
  lc_Tasks :: "Task list"
  lc_Output :: "object option"
  lc_BatchSize :: int

record workflowMeta =
  wf_ID :: string
  wf_TenantID :: string
  wf_AccountID :: string
  wf_UpdatedBy :: string
  wf_Name :: string
  wf_DisplayName :: string
  wf_DryRun :: bool
  wf_Tasks :: "Task list"

record loopEnv =
  le_ord :: "string list \<Rightarrow> string list"
  le_fmtv :: "any \<Rightarrow> string"
  le_engine :: "execContext \<Rightarrow> TemplateContext"
  le_kind :: "string \<Rightarrow> taskKind"
  le_unmarshalTasks :: "any list \<Rightarrow> Task list"
  le_decodeObject :: "string \<Rightarrow> object option"
  le_maxCombinations :: int
  le_callDepth :: int
  le_wf :: workflowMeta

text \<open>
  What code outside the loop answers: the definition an inline task gives for its parameters, the
  result of the routing activity, the configuration of a loop task, the error of a hook activity.
\<close>

record answers =
  an_childDef :: "Task \<Rightarrow> object \<Rightarrow> string + WorkflowDefinition"
  an_route :: "Task \<Rightarrow> object \<Rightarrow> string + any"
  an_loopConfig :: "Task \<Rightarrow> object \<Rightarrow> string + loopConfig"
  an_action :: "string \<Rightarrow> object \<Rightarrow> string option"

text \<open>
  A running task: an activity with its parameters, a child workflow with its call depth, an inline
  sub-execution with its prepared tasks and the new name of each, a loop with the number of
  iterations started, the tokens left in the channel it takes one from for every iteration, the
  counter of finished iterations, and the outcome of each.
\<close>

datatype future =
    Activity object
  | ChildWorkflow WorkflowDefinition int
  | SubExecution Task "Task list" "string \<rightharpoonup> string" WorkflowDefinition
  | LoopExecution Task loopConfig nat nat nat "(string + any) option list"

text \<open>A settled future; a failed one carries its error. \<open>FOk ANil\<close> is a missing output.\<close>

datatype futureResult = FErr string | FOk any

record traceEntry =
  tr_ID :: string
  tr_Type :: string
  tr_Status :: string
  tr_Output :: any
  tr_Error :: string

datatype effect =
    RunAction string object
  | PersistState string "(string \<times> any \<times> string) list"

record loopState =
  ls_sorted :: "Task list"
  ls_taskMap :: "string \<rightharpoonup> Task"
  ls_futures :: "string \<rightharpoonup> future"
  ls_results :: "string \<rightharpoonup> futureResult"
  ls_completed :: "string set"
  ls_trace :: "traceEntry list"
  ls_replacements :: "string \<rightharpoonup> string list"
  ls_parent :: "string \<rightharpoonup> string \<times> nat"
  ls_waits :: "string set"
  ls_branchDone :: "string set"
  ls_ctx :: execContext
  ls_tokens :: "string \<rightharpoonup> string"
  ls_effects :: "effect list"

datatype loopError =
    SortFailed DagError
  | MissingDependencies "(string \<times> string list) list"
  | TypeMissing string
  | MatrixFailed string string
  | ConditionFailed string string
  | ParamsFailed string string
  | CallDepthExceeded string
  | ResolutionFailed string
  | TaskFailed string
  | HookFailed string
  | Stalled

definition TaskStatusCompleted :: string where "TaskStatusCompleted = ''COMPLETED''"
definition TaskStatusFailed :: string where "TaskStatusFailed = ''FAILED''"
definition MaxCallWorkflowDepth :: int where "MaxCallWorkflowDepth = 10"

definition setTask :: "string \<Rightarrow> object \<Rightarrow> loopState \<Rightarrow> loopState" where
  "setTask i d s = s\<lparr>ls_ctx := (ls_ctx s)\<lparr>xc_Tasks := (xc_Tasks (ls_ctx s))(i \<mapsto> d)\<rparr>\<rparr>"

definition processValue :: "loopEnv \<Rightarrow> execContext \<Rightarrow> any \<Rightarrow> string + any" where
  "processValue env c v = ProcessValue (le_engine env c) v"

text \<open>\<open>RenderMap\<close>: strings are rendered, an error gives the empty string.\<close>

definition RenderMap :: "loopEnv \<Rightarrow> execContext \<Rightarrow> object \<Rightarrow> object" where
  "RenderMap env c m =
     map (\<lambda>(k, v). (k, case v of AStr s \<Rightarrow> AStr (case Render (le_engine env c) s of Inr r \<Rightarrow> r | Inl e \<Rightarrow> '''') | _ \<Rightarrow> v)) m"

definition extractEventIDFromInputs :: "object \<Rightarrow> string" where
  "extractEventIDFromInputs inputs =
     (case getObj inputs ''event'' of
        None \<Rightarrow> ''''
      | Some ev \<Rightarrow> if strOr ev ''id'' \<noteq> '''' then strOr ev ''id'' else strOr ev ''event_id'')"

definition setInternalTaskParams :: "loopEnv \<Rightarrow> string \<Rightarrow> object \<Rightarrow> object" where
  "setInternalTaskParams env eventID params =
     (let wf = le_wf env;
          p = setKey ''_workflow_name'' (AStr (wf_Name wf)) (setKey ''_user_id'' (AStr (wf_UpdatedBy wf))
               (setKey ''_workflow_id'' (AStr (wf_ID wf)) (setKey ''_account_id'' (AStr (wf_AccountID wf))
               (setKey ''_tenant_id'' (AStr (wf_TenantID wf)) params))));
          p = (if eventID \<noteq> '''' then setKey ''_event_id'' (AStr eventID) p else AList.delete ''_event_id'' p)
      in if wf_DisplayName wf \<noteq> '''' then setKey ''_user_display_name'' (AStr (wf_DisplayName wf)) p
         else AList.delete ''_user_display_name'' p)"

section \<open>Readiness\<close>

definition isSkipped :: "execContext \<Rightarrow> string \<Rightarrow> bool" where
  "isSkipped c i = (case xc_Tasks c i of None \<Rightarrow> False | Some d \<Rightarrow> getStr d ''status'' = Some TaskStatusSkipped)"

text \<open>The first dependency that was expanded, replaced by its expansions.\<close>

fun replaceDeps :: "(string \<rightharpoonup> string list) \<Rightarrow> string list \<Rightarrow> string list option" where
  "replaceDeps repl [] = None"
| "replaceDeps repl (d # ds) =
     (case repl d of Some rs \<Rightarrow> Some (rs @ ds) | None \<Rightarrow> map_option ((#) d) (replaceDeps repl ds))"

text \<open>The loop over the dependencies: whether all are met, whether a plain one was skipped, how many were skipped.\<close>

fun scanDeps :: "string set \<Rightarrow> string set \<Rightarrow> execContext \<Rightarrow> string list \<Rightarrow> bool \<Rightarrow> nat \<Rightarrow> bool \<times> bool \<times> nat" where
  "scanDeps branchDone completed c [] plainSkipped n = (True, plainSkipped, n)"
| "scanDeps branchDone completed c (d # ds) plainSkipped n =
     (if d \<in> branchDone then scanDeps branchDone completed c ds plainSkipped (if isSkipped c d then n + 1 else n)
      else if d \<notin> completed then (False, plainSkipped, n)
      else if isSkipped c d then scanDeps branchDone completed c ds True (n + 1)
      else scanDeps branchDone completed c ds plainSkipped n)"

definition evaluateTaskCondition :: "loopEnv \<Rightarrow> Task \<Rightarrow> execContext \<Rightarrow> loopError + bool" where
  "evaluateTaskCondition env task c =
     (if task_If task = '''' then Inr True
      else case Render (le_engine env c) (task_If task) of
             Inl e \<Rightarrow> Inl (ConditionFailed (task_ID task) e)
           | Inr r \<Rightarrow> Inr (ToLower (TrimSpace r) = ''true''))"

section \<open>Matrix expansion\<close>

fun resolveMatrix :: "loopEnv \<Rightarrow> execContext \<Rightarrow> object \<Rightarrow> string + object" where
  "resolveMatrix env c [] = Inr []"
| "resolveMatrix env c ((k, v) # m) =
     (case processValue env c v of
        Inl e \<Rightarrow> Inl e
      | Inr v' \<Rightarrow> (case resolveMatrix env c m of Inl e \<Rightarrow> Inl e | Inr m' \<Rightarrow> Inr ((k, v') # m')))"

definition expandedID :: "string \<Rightarrow> nat \<Rightarrow> string" where
  "expandedID i j = i @ ''-'' @ Itoa (int j)"

definition withIdentity :: "string \<Rightarrow> string list \<Rightarrow> Task \<Rightarrow> Task" where
  "withIdentity i ds t = Task i (task_Type t) (task_Params t) (task_Tasks t) (task_ParamTasks t) (task_SetVars t) (task_SetState t)
     ds (task_If t) (task_Matrix t) (task_FailureAction t) (task_Hooks t) (task_Disabled t)"

definition expandedTask :: "Task \<Rightarrow> nat \<Rightarrow> object \<Rightarrow> Task" where
  "expandedTask t j params = Task (expandedID (task_ID t) j) (task_Type t) params (task_Tasks t) (task_ParamTasks t) (task_SetVars t)
     (task_SetState t) (task_DependsOn t) (task_If t) [] (task_FailureAction t) (task_Hooks t) (task_Disabled t)"

fun expandAll :: "loopEnv \<Rightarrow> execContext \<Rightarrow> Task \<Rightarrow> nat \<Rightarrow> object list \<Rightarrow> string + Task list" where
  "expandAll env c t j [] = Inr []"
| "expandAll env c t j (combo # combos) =
     (case processValue env ((Clone c)\<lparr>xc_Matrix := combo\<rparr>) (AObj (task_Params t)) of
        Inl e \<Rightarrow> Inl e
      | Inr v \<Rightarrow>
          (case expandAll env c t (Suc j) combos of
             Inl e \<Rightarrow> Inl e
           | Inr ts \<Rightarrow> Inr (expandedTask t j (case asObj v of Some p \<Rightarrow> p | None \<Rightarrow> []) # ts)))"

definition addExpansions :: "Task \<Rightarrow> Task list \<Rightarrow> loopState \<Rightarrow> loopState" where
  "addExpansions t ts s =
     s\<lparr>ls_sorted := ls_sorted s @ ts,
       ls_taskMap := foldl (\<lambda>m t. m(task_ID t \<mapsto> t)) (ls_taskMap s) ts,
       ls_parent := foldl (\<lambda>m (j, e). m(task_ID e \<mapsto> (task_ID t, j))) (ls_parent s) (enumerate 0 ts),
       ls_replacements := (ls_replacements s)(task_ID t \<mapsto> map task_ID ts),
       ls_completed := insert (task_ID t) (ls_completed s)\<rparr>"

definition expandMatrix :: "loopEnv \<Rightarrow> Task \<Rightarrow> loopState \<Rightarrow> loopError + loopState" where
  "expandMatrix env t s =
     (case resolveMatrix env (ls_ctx s) (task_Matrix t) of
        Inl e \<Rightarrow> Inl (MatrixFailed (task_ID t) e)
      | Inr resolved \<Rightarrow>
          (case generateMatrixCombinations resolved (le_maxCombinations env) of
             Inl e \<Rightarrow> Inl (MatrixFailed (task_ID t) e)
           | Inr combos \<Rightarrow>
               (let data = (case xc_Tasks (ls_ctx s) (task_ID t) of Some d \<Rightarrow> d | None \<Rightarrow> []);
                    s1 = setTask (task_ID t) (setKey ''output'' (AArr (replicate (length combos) ANil)) data) s
                in case expandAll env (ls_ctx s1) t 0 combos of
                     Inl e \<Rightarrow> Inl (MatrixFailed (task_ID t) e)
                   | Inr ts \<Rightarrow> Inr (addExpansions t ts s1))))"

section \<open>Starting a task\<close>

definition buildRoutingDef :: "loopEnv \<Rightarrow> any \<Rightarrow> WorkflowDefinition" where
  "buildRoutingDef env raw =
     (case asObj raw of
        None \<Rightarrow> \<lparr>def_Tasks = [], def_Output = []\<rparr>
      | Some m \<Rightarrow>
          (let out = (case getStr m ''selected_case'' of Some sc \<Rightarrow> [(''selected_case'', AStr sc)] | None \<Rightarrow> []);
               embedded = (case asArr (getAny m ''embedded_tasks'') of Some l \<Rightarrow> l | None \<Rightarrow> []);
               routed = (case asArr (getAny m ''routed_to'') of Some l \<Rightarrow> l | None \<Rightarrow> [])
           in if embedded \<noteq> [] then \<lparr>def_Tasks = le_unmarshalTasks env embedded, def_Output = out\<rparr>
              else \<lparr>def_Tasks = map bareTask (List.map_filter asStr routed), def_Output = out\<rparr>))"

text \<open>The tasks of a sub-execution get new names, and their dependencies follow.\<close>

definition rewire :: "(string \<rightharpoonup> string) \<Rightarrow> Task \<Rightarrow> Task" where
  "rewire renamed t =
     withIdentity (task_ID t) (map (\<lambda>d. case renamed d of Some n \<Rightarrow> n | None \<Rightarrow> d) (task_DependsOn t)) t"

definition renameTasks :: "(Task \<Rightarrow> Task) \<Rightarrow> Task list \<Rightarrow> Task list \<times> (string \<rightharpoonup> string)" where
  "renameTasks f ts =
     (let renamed = foldl (\<lambda>m t. m(task_ID t \<mapsto> task_ID (f t))) Map.empty ts
      in (map (\<lambda>t. rewire renamed (f t)) ts, renamed))"

text \<open>A reference (no type) is looked up in the definition of the whole workflow.\<close>

definition hydrateTask :: "loopEnv \<Rightarrow> Task \<Rightarrow> Task \<Rightarrow> Task" where
  "hydrateTask env task t =
     (if task_Type t = '''' \<and> task_ID t \<noteq> '''' then
        (case taskMap (wf_Tasks (le_wf env)) (task_ID t) of
           Some full \<Rightarrow> withIdentity (task_ID task @ ''-'' @ task_ID full) (task_DependsOn full) full
         | None \<Rightarrow> t)
      else withIdentity (task_ID task @ ''-'' @ task_ID t) (task_DependsOn t) t)"

definition iterationTasks :: "Task \<Rightarrow> nat \<Rightarrow> Task list \<Rightarrow> Task list \<times> (string \<rightharpoonup> string)" where
  "iterationTasks task idx body =
     renameTasks (\<lambda>t. withIdentity (task_ID task @ ''-'' @ Itoa (int idx) @ ''-'' @ task_ID t) (task_DependsOn t) t) body"

definition skipTask :: "Task \<Rightarrow> object \<Rightarrow> loopState \<Rightarrow> loopState" where
  "skipTask t d s =
     (setTask (task_ID t) d s)\<lparr>ls_completed := insert (task_ID t) (ls_completed s),
        ls_trace := ls_trace s @ [\<lparr>tr_ID = task_ID t, tr_Type = task_Type t, tr_Status = TaskStatusSkipped, tr_Output = ANil, tr_Error = ''''\<rparr>]\<rparr>"

abbreviation skippedData :: object where
  "skippedData \<equiv> [(''status'', AStr TaskStatusSkipped)]"

definition startFuture :: "string \<Rightarrow> future \<Rightarrow> loopState \<Rightarrow> loopState" where
  "startFuture i f s = s\<lparr>ls_futures := (ls_futures s)(i \<mapsto> f)\<rparr>"

definition startWait :: "string \<Rightarrow> future \<Rightarrow> loopState \<Rightarrow> loopState" where
  "startWait i f s = (startFuture i f s)\<lparr>ls_waits := insert i (ls_waits s)\<rparr>"

text \<open>The keys a loop task keeps unrendered.\<close>

definition preservedKey :: "loopEnv \<Rightarrow> Task \<Rightarrow> string \<Rightarrow> bool" where
  "preservedKey env task k \<longleftrightarrow> le_kind env (task_Type task) = LoopTask \<and> k \<in> {''tasks'', ''output''}"

definition taskParams :: "loopEnv \<Rightarrow> Task \<Rightarrow> execContext \<Rightarrow> loopError + object" where
  "taskParams env task c =
     (case processValue env c (AObj (filter (\<lambda>(k, v). \<not> preservedKey env task k) (task_Params task))) of
        Inl e \<Rightarrow> Inl (ParamsFailed (task_ID task) e)
      | Inr v \<Rightarrow>
          (let p = (case asObj v of Some p \<Rightarrow> p | None \<Rightarrow> if v \<noteq> ANil then [(''_raw'', v)] else []);
               p = foldl (\<lambda>p (k, v). setKey k v p) p (filter (\<lambda>(k, v). preservedKey env task k) (task_Params task))
           in Inr (setInternalTaskParams env (extractEventIDFromInputs (xc_Inputs c)) p)))"

definition startChild :: "loopEnv \<Rightarrow> answers \<Rightarrow> Task \<Rightarrow> object \<Rightarrow> loopState \<Rightarrow> loopError + loopState" where
  "startChild env an task p s =
     (if le_callDepth env \<ge> MaxCallWorkflowDepth then Inl (CallDepthExceeded (task_ID task))
      else case an_childDef an task p of
             Inl e \<Rightarrow> Inl (ResolutionFailed e)
           | Inr d \<Rightarrow> Inr (startFuture (task_ID task) (ChildWorkflow d (le_callDepth env + 1)) s))"

definition startInline :: "loopEnv \<Rightarrow> answers \<Rightarrow> Task \<Rightarrow> object \<Rightarrow> loopState \<Rightarrow> loopError + loopState" where
  "startInline env an task p s =
     (case (if map_of (task_Params task) ''cases'' \<noteq> None
            then (case an_route an task p of Inl e \<Rightarrow> Inl e | Inr raw \<Rightarrow> Inr (buildRoutingDef env raw))
            else an_childDef an task p) of
        Inl e \<Rightarrow> Inl (ResolutionFailed e)
      | Inr d \<Rightarrow>
          (let (ts, renamed) = renameTasks (hydrateTask env task) (def_Tasks d)
           in Inr (startWait (task_ID task) (SubExecution task ts renamed d) s)))"

text \<open>The capacity of the token channel of a loop, which is filled before the first iteration.\<close>

definition concurrency :: "loopConfig \<Rightarrow> nat" where
  "concurrency cfg = nat (min (if lc_BatchSize cfg \<le> 0 then 1 else lc_BatchSize cfg) (int (length (lc_Items cfg))))"

definition startLoop :: "answers \<Rightarrow> Task \<Rightarrow> object \<Rightarrow> loopState \<Rightarrow> loopError + loopState" where
  "startLoop an task p s =
     (case an_loopConfig an task p of
        Inl e \<Rightarrow> Inl (ResolutionFailed e)
      | Inr cfg \<Rightarrow>
          if lc_Items cfg = [] \<or> lc_Tasks cfg = [] then Inr (skipTask task (skippedData @ [(''output'', AArr [])]) s)
          else Inr (startWait (task_ID task)
            (LoopExecution task cfg 0 (concurrency cfg) 0 (replicate (length (lc_Items cfg)) None)) s))"

definition dispatch :: "loopEnv \<Rightarrow> answers \<Rightarrow> Task \<Rightarrow> loopState \<Rightarrow> loopError + loopState" where
  "dispatch env an task s =
     (case taskParams env task (Clone (ls_ctx s)) of
        Inl e \<Rightarrow> Inl e
      | Inr p \<Rightarrow>
          (case le_kind env (task_Type task) of
             InlineTask asChild \<Rightarrow>
               if asChild \<and> \<not> wf_DryRun (le_wf env) then startChild env an task p s else startInline env an task p s
           | LoopTask \<Rightarrow> startLoop an task p s
           | PlainTask \<Rightarrow>
               Inr (startFuture (task_ID task)
                 (Activity (if wf_DryRun (le_wf env) then setKey ''_dry_run'' (ABool True) p else p)) s)))"

section \<open>One position of the scan\<close>

datatype scanOutcome = Advance loopState | Again loopState | Abort loopError

definition skipPropagates :: "Task \<Rightarrow> bool \<Rightarrow> nat \<Rightarrow> bool" where
  "skipPropagates task plainSkipped n \<longleftrightarrow>
     task_DependsOn task \<noteq> [] \<and> (plainSkipped \<or> n = length (task_DependsOn task))"

definition outcome :: "loopError + loopState \<Rightarrow> scanOutcome" where
  "outcome r = (case r of Inl e \<Rightarrow> Abort e | Inr s \<Rightarrow> Advance s)"

definition runReady :: "loopEnv \<Rightarrow> answers \<Rightarrow> Task \<Rightarrow> bool \<Rightarrow> loopState \<Rightarrow> scanOutcome" where
  "runReady env an task skippedDependency s =
     (if task_Matrix task \<noteq> [] then outcome (expandMatrix env task s)
      else if skippedDependency \<and> task_If task = '''' then Advance (skipTask task skippedData s)
      else case evaluateTaskCondition env task (Clone (ls_ctx s)) of
             Inl e \<Rightarrow> Abort e
           | Inr shouldExecute \<Rightarrow>
               if \<not> shouldExecute then Advance (skipTask task skippedData s)
               else outcome (dispatch env an task s))"

definition scanTask :: "loopEnv \<Rightarrow> answers \<Rightarrow> nat \<Rightarrow> loopState \<Rightarrow> scanOutcome" where
  "scanTask env an i s =
     (let task = ls_sorted s ! i
      in if ls_futures s (task_ID task) \<noteq> None \<or> task_ID task \<in> ls_completed s then Advance s
         else if task_Disabled task then
           Advance (skipTask task (setKey ''status'' (AStr TaskStatusSkipped)
             (case xc_Tasks (ls_ctx s) (task_ID task) of Some d \<Rightarrow> d | None \<Rightarrow> [])) s)
         else if task_Type task = '''' then Abort (TypeMissing (task_ID task))
         else case replaceDeps (ls_replacements s) (task_DependsOn task) of
                Some ds \<Rightarrow> Again (s\<lparr>ls_sorted := (ls_sorted s)[i := withIdentity (task_ID task) ds task]\<rparr>)
              | None \<Rightarrow>
                  (case scanDeps (ls_branchDone s) (ls_completed s) (ls_ctx s) (task_DependsOn task) False 0 of
                     (met, plainSkipped, n) \<Rightarrow>
                       if met then runReady env an task (skipPropagates task plainSkipped n) s else Advance s))"

section \<open>Completion\<close>

text \<open>All the actions run; the first error is returned.\<close>

definition actionParams :: "loopEnv \<Rightarrow> execContext \<Rightarrow> Action \<Rightarrow> object" where
  "actionParams env c a =
     (let p = setInternalTaskParams env (extractEventIDFromInputs (xc_Inputs c)) (RenderMap env c (action_Params a))
      in if wf_DryRun (le_wf env) then setKey ''_dry_run'' (ABool True) p else p)"

definition executeSimpleActions ::
  "loopEnv \<Rightarrow> answers \<Rightarrow> Action list \<Rightarrow> loopState \<Rightarrow> loopState \<times> string option" where
  "executeSimpleActions env an actions s =
     (let calls = map (\<lambda>a. (action_Type a, actionParams env (ls_ctx s) a)) actions
      in (s\<lparr>ls_effects := ls_effects s @ map (\<lambda>(ty, p). RunAction ty p) calls\<rparr>,
          case List.map_filter (\<lambda>(ty, p). an_action an ty p) calls of [] \<Rightarrow> None | e # _ \<Rightarrow> Some e))"

definition hookActions :: "(Hooks \<Rightarrow> Action list) \<Rightarrow> Task \<Rightarrow> Action list" where
  "hookActions sel t = (case task_Hooks t of None \<Rightarrow> [] | Some h \<Rightarrow> sel h)"

definition valueField :: "any \<Rightarrow> any" where
  "valueField v = (case asObj v of None \<Rightarrow> v | Some m \<Rightarrow> (case map_of m ''value'' of Some x \<Rightarrow> x | None \<Rightarrow> v))"

definition ttlField :: "any \<Rightarrow> string" where
  "ttlField v = (case asObj v of
     None \<Rightarrow> ''''
   | Some m \<Rightarrow> if map_of m ''value'' = None then '''' else strOr m ''ttl'')"

definition applySetVars :: "loopEnv \<Rightarrow> Task \<Rightarrow> object \<Rightarrow> execContext \<Rightarrow> execContext" where
  "applySetVars env t self c =
     (let c' = (Clone c)\<lparr>xc_Self := self\<rparr>
      in foldl (\<lambda>c (k, tpl). case processValue env c' tpl of Inl e \<Rightarrow> c | Inr v \<Rightarrow> setVar k (valueField v) c) c (task_SetVars t))"

text \<open>The updates of the persistent state, in the order of the iteration: key, value and lifetime.\<close>

definition stateUpdates :: "loopEnv \<Rightarrow> Task \<Rightarrow> object \<Rightarrow> execContext \<Rightarrow> (string \<times> any \<times> string) list" where
  "stateUpdates env t self c =
     (let c' = (Clone c)\<lparr>xc_Self := self\<rparr>
      in List.map_filter (\<lambda>(k, tpl).
           case processValue env c' tpl of
             Inl e \<Rightarrow> None
           | Inr v \<Rightarrow> Some (case Render (le_engine env c') k of Inr rk \<Rightarrow> rk | Inl e \<Rightarrow> k, valueField v, ttlField v)) (task_SetState t))"

definition applySetState :: "loopEnv \<Rightarrow> Task \<Rightarrow> object \<Rightarrow> loopState \<Rightarrow> loopState" where
  "applySetState env t self s =
     (let ups = stateUpdates env t self (ls_ctx s);
          s' = s\<lparr>ls_ctx := (ls_ctx s)\<lparr>xc_State := foldl (\<lambda>m (k, v, ttl). setKey k v m) (xc_State (ls_ctx s)) ups\<rparr>\<rparr>
      in if ups = [] \<or> HasPrefix (wf_ID (le_wf env)) ''inline-'' \<or> wf_DryRun (le_wf env) then s'
         else s'\<lparr>ls_effects := ls_effects s' @ [PersistState (task_ID t) ups]\<rparr>)"

definition decodeResult :: "loopEnv \<Rightarrow> any \<Rightarrow> any" where
  "decodeResult env v =
     (case asStr v of
        None \<Rightarrow> v
      | Some str \<Rightarrow> (case le_decodeObject env str of Some m \<Rightarrow> AObj m | None \<Rightarrow> v))"

definition afterFailure :: "loopEnv \<Rightarrow> answers \<Rightarrow> Task \<Rightarrow> string \<Rightarrow> string \<Rightarrow> loopState \<Rightarrow> loopState \<times> loopError option" where
  "afterFailure env an t taskID e s =
     (let errText = ScrubSecretValues e (SecretValues (xc_Secrets (ls_ctx s)))
      in case executeSimpleActions env an (hookActions hooks_Failure t) s of
           (s1, Some he) \<Rightarrow> (s1, Some (HookFailed he))
         | (s1, None) \<Rightarrow>
             if task_FailureAction t = ''continue''
             then (setTask taskID [(''status'', AStr TaskStatusFailed), (''error'', AStr errText)] s1, None)
             else (s1, Some (TaskFailed e)))"

definition afterSuccess :: "loopEnv \<Rightarrow> answers \<Rightarrow> Task \<Rightarrow> string \<Rightarrow> any \<Rightarrow> loopState \<Rightarrow> loopState \<times> loopError option" where
  "afterSuccess env an t taskID v s =
     (let self = [(''status'', AStr TaskStatusCompleted), (''output'', v)];
          s1 = setTask taskID self s;
          s2 = s1\<lparr>ls_ctx := applySetVars env t self (ls_ctx s1)\<rparr>;
          s3 = applySetState env t self s2
      in case executeSimpleActions env an (hookActions hooks_Success t) s3 of
           (s4, Some he) \<Rightarrow> (s4, Some (HookFailed he))
         | (s4, None) \<Rightarrow>
             (case executeSimpleActions env an (hookActions hooks_Always t) s4 of
                (s5, Some he) \<Rightarrow> (s5, Some (HookFailed he))
              | (s5, None) \<Rightarrow> (s5, None)))"

definition handleTaskCompletion ::
  "loopEnv \<Rightarrow> answers \<Rightarrow> string \<Rightarrow> futureResult \<Rightarrow> loopState \<Rightarrow> loopState \<times> loopError option" where
  "handleTaskCompletion env an taskID r s =
     (case ls_taskMap s taskID of
        None \<Rightarrow> (s, case r of FErr e \<Rightarrow> Some (TaskFailed e) | FOk v \<Rightarrow> None)
      | Some t \<Rightarrow>
          (case r of
             FErr e \<Rightarrow> afterFailure env an t taskID e s
           | FOk v \<Rightarrow> afterSuccess env an t taskID (decodeResult env v) s))"

definition markCompleted :: "string \<Rightarrow> loopState \<Rightarrow> loopState" where
  "markCompleted i s = s\<lparr>ls_completed := insert i (ls_completed s)\<rparr>"

text \<open>The result of an expansion is copied to its place in the output of the matrix task.\<close>

definition copyToParent :: "string \<Rightarrow> loopState \<Rightarrow> loopState" where
  "copyToParent i s =
     (case ls_parent s i of
        None \<Rightarrow> s
      | Some (parentID, j) \<Rightarrow>
          (case Option.bind (xc_Tasks (ls_ctx s) i) (\<lambda>d. map_of d ''output'') of
             None \<Rightarrow> s
           | Some out \<Rightarrow>
               (case xc_Tasks (ls_ctx s) parentID of
                  None \<Rightarrow> s
                | Some pd \<Rightarrow>
                    (case asArr (getAny pd ''output'') of
                       None \<Rightarrow> s
                     | Some outs \<Rightarrow>
                         if j < length outs then setTask parentID (setKey ''output'' (AArr (outs[j := out])) pd) s else s))))"

definition completeWait :: "string \<Rightarrow> futureResult \<Rightarrow> loopState \<Rightarrow> loopState \<times> loopError option" where
  "completeWait i r s =
     (let ty = (case ls_taskMap s i of Some t \<Rightarrow> task_Type t | None \<Rightarrow> '''');
          entry = (case r of
             FErr e \<Rightarrow> \<lparr>tr_ID = i, tr_Type = ty, tr_Status = TaskStatusFailed, tr_Output = ANil, tr_Error = e\<rparr>
           | FOk v \<Rightarrow> \<lparr>tr_ID = i, tr_Type = ty, tr_Status = TaskStatusCompleted, tr_Output = v, tr_Error = ''''\<rparr>);
          s1 = s\<lparr>ls_trace := ls_trace s @ [entry]\<rparr>
      in case r of
           FErr e \<Rightarrow> (markCompleted i s1, Some (TaskFailed e))
         | FOk v \<Rightarrow>
             (markCompleted i (setTask i
                ((''status'', AStr TaskStatusCompleted) # (if v \<noteq> ANil then [(''output'', v)] else [])) s1), None))"

definition completeTask :: "loopEnv \<Rightarrow> answers \<Rightarrow> string \<Rightarrow> futureResult \<Rightarrow> loopState \<Rightarrow> loopState \<times> loopError option" where
  "completeTask env an i r s =
     (if i \<in> ls_waits s then completeWait i r s
      else case handleTaskCompletion env an i r s of (s1, err) \<Rightarrow> (copyToParent i (markCompleted i s1), err))"

section \<open>Sub-executions\<close>

definition mappedTasks :: "(string \<rightharpoonup> string) \<Rightarrow> (string \<rightharpoonup> object) \<Rightarrow> string \<rightharpoonup> object" where
  "mappedTasks renamed childTasks = (\<lambda>orig. Option.bind (renamed orig) childTasks)"

definition inlineOutput :: "loopEnv \<Rightarrow> execContext \<Rightarrow> WorkflowDefinition \<Rightarrow> (string \<rightharpoonup> string) \<Rightarrow> (string \<rightharpoonup> object) \<Rightarrow> any" where
  "inlineOutput env c d renamed childTasks =
     (if def_Output d \<noteq> [] then AObj (RenderMap env ((Clone c)\<lparr>xc_Tasks := mappedTasks renamed childTasks\<rparr>) (def_Output d))
      else ANil)"

text \<open>The end of an inline sub-execution: its error, or the tasks of its context.\<close>

definition settleInline ::
  "loopEnv \<Rightarrow> string \<Rightarrow> Task \<Rightarrow> WorkflowDefinition \<Rightarrow> (string \<rightharpoonup> string) \<Rightarrow> string + (string \<rightharpoonup> object) \<Rightarrow> loopState \<Rightarrow> loopState" where
  "settleInline env i task d renamed ending s =
     (case ending of
        Inl e \<Rightarrow> s\<lparr>ls_results := (ls_results s)(i \<mapsto> FErr e)\<rparr>
      | Inr childTasks \<Rightarrow>
          (let out = inlineOutput env (ls_ctx s) d renamed childTasks;
               s1 = (if task_Type task = ''core.switch'' then
                       (let st = propagateSwitchBranchState (le_fmtv env) task out renamed childTasks
                                   \<lparr>parentTasks = xc_Tasks (ls_ctx s), switchBranchDone = ls_branchDone s\<rparr>
                        in s\<lparr>ls_ctx := (ls_ctx s)\<lparr>xc_Tasks := parentTasks st\<rparr>, ls_branchDone := switchBranchDone st\<rparr>)
                     else s)
           in s1\<lparr>ls_results := (ls_results s1)(i \<mapsto> FOk out)\<rparr>))"

definition iterationOutput :: "loopEnv \<Rightarrow> execContext \<Rightarrow> Task \<Rightarrow> loopConfig \<Rightarrow> nat \<Rightarrow> (string \<rightharpoonup> object) \<Rightarrow> any" where
  "iterationOutput env c task cfg idx childTasks =
     (case lc_Output cfg of
        None \<Rightarrow> ANil
      | Some out \<Rightarrow>
          AObj (RenderMap env (setVar ''LoopItem'' (AObj [(lc_ItemVarName cfg, lc_Items cfg ! idx)])
            ((Clone c)\<lparr>xc_Tasks := mappedTasks (snd (iterationTasks task idx (lc_Tasks cfg))) childTasks\<rparr>)) out))"


definition loopResult :: "(string + any) option list \<Rightarrow> futureResult" where
  "loopResult outs =
     (case List.map_filter (\<lambda>r. case r of Some (Inl e) \<Rightarrow> Some e | _ \<Rightarrow> None) outs of
        e # _ \<Rightarrow> FErr (''loop iteration failed: '' @ e)
      | [] \<Rightarrow> FOk (AArr (map (\<lambda>r. case r of Some (Inr v) \<Rightarrow> v | _ \<Rightarrow> ANil) outs)))"

section \<open>The loop\<close>

datatype position = Scanning nat | Waiting | Done | Failed loopError

type_synonym config = "position \<times> loopState"

definition missingDeps :: "Task list \<Rightarrow> (string \<times> string list) list" where
  "missingDeps ts =
     filter (\<lambda>(i, ds). ds \<noteq> []) (map (\<lambda>t. (task_ID t, filter (\<lambda>d. d \<notin> task_ID ` set ts) (task_DependsOn t))) ts)"

definition startLoopState :: "loopEnv \<Rightarrow> Task list \<Rightarrow> execContext \<Rightarrow> (string \<rightharpoonup> string) \<Rightarrow> loopError + loopState" where
  "startLoopState env tasksToRun c tokens =
     (case TopologicalSort (le_ord env) tasksToRun of
        Inl e \<Rightarrow> Inl (SortFailed e)
      | Inr initialSorted \<Rightarrow>
          if missingDeps initialSorted \<noteq> [] then Inl (MissingDependencies (missingDeps initialSorted))
          else
            (let sorted = filter (\<lambda>t. task_ID t \<notin> collectSwitchTargetTaskIDs initialSorted) initialSorted
             in Inr \<lparr>ls_sorted = sorted, ls_taskMap = taskMap sorted, ls_futures = Map.empty, ls_results = Map.empty,
                     ls_completed = {}, ls_trace = [], ls_replacements = Map.empty, ls_parent = Map.empty,
                     ls_waits = {}, ls_branchDone = {}, ls_ctx = c, ls_tokens = tokens, ls_effects = []\<rparr>))"

text \<open>The futures that have not completed; every future belongs to a task of the list.\<close>

definition pending :: "loopState \<Rightarrow> string set" where
  "pending s = Set.filter (\<lambda>i. ls_futures s i \<noteq> None \<and> i \<notin> ls_completed s) (task_ID ` set (ls_sorted s))"

definition loopHead :: "loopState \<Rightarrow> position" where
  "loopHead s = (if card (ls_completed s) < length (ls_sorted s) then Scanning 0 else Done)"

definition afterScan :: "loopState \<Rightarrow> position" where
  "afterScan s =
     (if pending s \<noteq> {} then Waiting
      else if card (ls_completed s) < length (ls_sorted s) then Failed Stalled
      else loopHead s)"

definition afterSelect :: "loopState \<times> loopError option \<Rightarrow> config" where
  "afterSelect r = (case r of (s, Some e) \<Rightarrow> (Failed e, s) | (s, None) \<Rightarrow> (loopHead s, s))"

definition afterTask :: "nat \<Rightarrow> loopState \<Rightarrow> scanOutcome \<Rightarrow> config" where
  "afterTask i s out = (case out of Advance s' \<Rightarrow> (Scanning (Suc i), s') | Again s' \<Rightarrow> (Scanning i, s') | Abort e \<Rightarrow> (Failed e, s))"

text \<open>
  What the futures do while the loop runs. The coroutine of a loop task takes a token from the
  channel for each item in order (\<open>sem.Receive\<close> waits while there is none) and starts the iteration;
  an iteration that ends writes its outcome, puts its token back (\<open>sem.Send\<close> waits while the channel
  is full) and counts itself as finished. When every item is started and counted, the loop settles.
\<close>

inductive background :: "loopEnv \<Rightarrow> loopState \<Rightarrow> loopState \<Rightarrow> bool" for env where
  settleActivity: "ls_futures s i = Some (Activity p) \<Longrightarrow> ls_results s i = None \<Longrightarrow>
     background env s (s\<lparr>ls_results := (ls_results s)(i \<mapsto> r)\<rparr>)"
| settleChild: "ls_futures s i = Some (ChildWorkflow d n) \<Longrightarrow> ls_results s i = None \<Longrightarrow>
     background env s (s\<lparr>ls_results := (ls_results s)(i \<mapsto> r)\<rparr>)"
| settleSub: "ls_futures s i = Some (SubExecution t ts renamed d) \<Longrightarrow> ls_results s i = None \<Longrightarrow>
     background env s (settleInline env i t d renamed ending s)"
| iterationStart: "ls_futures s i = Some (LoopExecution t cfg started tokens ended outs) \<Longrightarrow>
     started < length (lc_Items cfg) \<Longrightarrow> 0 < tokens \<Longrightarrow>
     background env s (startFuture i (LoopExecution t cfg (Suc started) (tokens - 1) ended outs) s)"
| iterationEnd: "ls_futures s i = Some (LoopExecution t cfg started tokens ended outs) \<Longrightarrow>
     idx < started \<Longrightarrow> outs ! idx = None \<Longrightarrow> tokens < concurrency cfg \<Longrightarrow>
     background env s (startFuture i (LoopExecution t cfg started (Suc tokens) (Suc ended) (outs[idx := Some
       (case ending of Inl e \<Rightarrow> Inl e | Inr childTasks \<Rightarrow> Inr (iterationOutput env (ls_ctx s) t cfg idx childTasks))])) s)"
| settleLoop: "ls_futures s i = Some (LoopExecution t cfg started tokens ended outs) \<Longrightarrow> ls_results s i = None \<Longrightarrow>
     started = length (lc_Items cfg) \<Longrightarrow> ended = length (lc_Items cfg) \<Longrightarrow>
     background env s (s\<lparr>ls_results := (ls_results s)(i \<mapsto> loopResult outs)\<rparr>)"

inductive taskStep :: "loopEnv \<Rightarrow> config \<Rightarrow> config \<Rightarrow> bool" for env where
  scan: "i < length (ls_sorted s) \<Longrightarrow> taskStep env (Scanning i, s) (afterTask i s (scanTask env an i s))"
| scanned: "length (ls_sorted s) \<le> i \<Longrightarrow> taskStep env (Scanning i, s) (afterScan s, s)"
| completed: "i \<in> pending s \<Longrightarrow> ls_results s i = Some r \<Longrightarrow>
     taskStep env (Waiting, s) (afterSelect (completeTask env an i r s))"
| running: "background env s s' \<Longrightarrow> p = Waiting \<or> p = Scanning i \<Longrightarrow> taskStep env (p, s) (p, s')"

inductive signalStep :: "config \<Rightarrow> config \<Rightarrow> bool" where
  approvalToken: "signalStep (Waiting, s)
     (let s' = (case (sd ''task_id'', sd ''task_token'') of
          (Some i, Some tok) \<Rightarrow> s\<lparr>ls_tokens := (ls_tokens s)(i \<mapsto> tok)\<rparr> | _ \<Rightarrow> s) in (loopHead s', s'))"
| inputUpdate: "signalStep (Waiting, s)
     (let s' = s\<lparr>ls_ctx := foldl (\<lambda>c (k, v). setInput k v c) (ls_ctx s) inputs\<rparr> in (loopHead s', s'))"

inductive reachableRun :: "loopEnv \<Rightarrow> Task list \<Rightarrow> config \<Rightarrow> bool" for env ts where
  start: "startLoopState env ts c tokens = Inr s \<Longrightarrow> reachableRun env ts (loopHead s, s)"
| taskStep: "reachableRun env ts x \<Longrightarrow> taskStep env x y \<Longrightarrow> reachableRun env ts y"
| signalStep: "reachableRun env ts x \<Longrightarrow> signalStep x y \<Longrightarrow> reachableRun env ts y"

end
