(* ===== verification/WorkflowRuns.thy ===== *)
theory WorkflowRuns
  imports WorkflowExecutor
begin

text \<open>
  Runs of the workflow executor: what every reachable state of the task loop satisfies (a task starts
  only after everything it depends on, loops keep to their batch size), that the run of an accepted
  definition without matrix tasks makes progress and ends, and two definitions on which the loop
  gives up as stalled.
\<close>

section \<open>What the operations leave alone\<close>

definition control where
  "control s = (ls_sorted s, ls_futures s, ls_completed s, ls_replacements s, ls_branchDone s, ls_results s)"

lemma control_updates [simp]:
  "control (setTask i d s) = control s"
  "control (s\<lparr>ls_trace := tr\<rparr>) = control s"
  "control (s\<lparr>ls_ctx := c\<rparr>) = control s"
  "control (s\<lparr>ls_effects := ef\<rparr>) = control s"
  "control (s\<lparr>ls_waits := ws\<rparr>) = control s"
  "control (s\<lparr>ls_tokens := tk\<rparr>) = control s"
  by (simp_all add: control_def setTask_def)

lemma control_startWait: "control (startWait i f s) = control (startFuture i f s)"
  by (simp add: startWait_def)

lemma control_skipTask: "control (skipTask t d s) = control (markCompleted (task_ID t) s)"
  by (simp add: skipTask_def control_def markCompleted_def setTask_def)

lemma control_actions: "executeSimpleActions env an as s = (s', r) \<Longrightarrow> control s' = control s"
  by (auto simp: executeSimpleActions_def Let_def)

lemma control_applySetState [simp]: "control (applySetState env t self s) = control s"
  by (simp add: applySetState_def Let_def)

lemma control_handleTaskCompletion: "control (fst (handleTaskCompletion env an i r s)) = control s"
proof -
  have F: "control (fst (afterFailure env an t i e s)) = control s" for t e
    by (auto simp: afterFailure_def Let_def split: prod.split option.split dest: control_actions)
  have "control (fst (afterSuccess env an t i v s)) = control s" for t v
  proof -
    define s3 where "s3 = (let self = [(''status'', AStr TaskStatusCompleted), (''output'', v)]; s1 = setTask i self s;
      s2 = s1\<lparr>ls_ctx := applySetVars env t self (ls_ctx s1)\<rparr> in applySetState env t self s2)"
    have 3: "control s3 = control s" by (simp add: s3_def Let_def)
    obtain s4 r4 where e4: "executeSimpleActions env an (hookActions hooks_Success t) s3 = (s4, r4)" by fastforce
    have 4: "control s4 = control s" using control_actions [OF e4] 3 by simp
    obtain s5 r5 where e5: "executeSimpleActions env an (hookActions hooks_Always t) s4 = (s5, r5)" by fastforce
    have 5: "control s5 = control s" using control_actions [OF e5] 4 by simp
    have "afterSuccess env an t i v s = (case r4 of Some he \<Rightarrow> (s4, Some (HookFailed he)) | None \<Rightarrow> (s5, map_option HookFailed r5))"
      using e4 e5 unfolding s3_def by (simp add: afterSuccess_def Let_def split: option.split)
    then show ?thesis using 4 5 by (simp split: option.split)
  qed
  then show ?thesis using F by (auto simp: handleTaskCompletion_def split: option.split futureResult.split)
qed

lemma control_copyToParent [simp]: "control (copyToParent i s) = control s"
  by (auto simp: copyToParent_def split: option.split)

lemma control_cong_markCompleted: "control s = control s' \<Longrightarrow> control (markCompleted i s) = control (markCompleted i s')"
  by (simp add: control_def markCompleted_def)

lemma control_completeTask: "control (fst (completeTask env an i r s)) = control (markCompleted i s)"
proof -
  have "control (markCompleted i (fst (handleTaskCompletion env an i r s))) = control (markCompleted i s)"
    by (rule control_cong_markCompleted) (rule control_handleTaskCompletion)
  then show ?thesis
    by (auto simp: completeTask_def completeWait_def Let_def split: prod.split futureResult.split
        intro: control_cong_markCompleted)
qed

lemma branchDone_resolve: "switchBranchDone st \<subseteq> switchBranchDone (resolve sel ren ct b cv st)"
  by (simp add: resolve_def Let_def subset_insertI)

lemma branchDone_propagate: "switchBranchDone st \<subseteq> switchBranchDone (propagateSwitchBranchState fmtv t out ren ct st)"
proof -
  have "switchBranchDone st \<subseteq> switchBranchDone (foldl (\<lambda>st (b, cv). resolve sel ren ct b cv st) st bs)" for sel bs
  proof (induction bs arbitrary: st)
    case (Cons x bs)
    then show ?case using branchDone_resolve by (cases x) (fastforce intro: order_trans)
  qed simp
  then show ?thesis by (simp add: propagateSwitchBranchState_def Let_def)
qed

lemma settleInline_fields:
  "ls_sorted (settleInline env i t d ren en s) = ls_sorted s" "ls_futures (settleInline env i t d ren en s) = ls_futures s"
  "ls_completed (settleInline env i t d ren en s) = ls_completed s"
  "ls_replacements (settleInline env i t d ren en s) = ls_replacements s"
  "ls_branchDone s \<subseteq> ls_branchDone (settleInline env i t d ren en s)"
  "\<exists>r. ls_results (settleInline env i t d ren en s) = (ls_results s)(i \<mapsto> r)"
  using branchDone_propagate [of "\<lparr>parentTasks = xc_Tasks (ls_ctx s), switchBranchDone = ls_branchDone s\<rparr>"]
  by (auto simp: settleInline_def Let_def split: sum.split)

text \<open>A step of the futures: the loop's own variables stay, switch branches are only added.\<close>

lemma background_fields:
  assumes "background env s s'"
  shows "ls_sorted s' = ls_sorted s" "dom (ls_futures s') = dom (ls_futures s)" "ls_completed s' = ls_completed s"
    "ls_replacements s' = ls_replacements s" "ls_branchDone s \<subseteq> ls_branchDone s'"
  using assms by (cases; auto simp: settleInline_fields startFuture_def)+

section \<open>The scan\<close>

definition ready :: "loopState \<Rightarrow> Task \<Rightarrow> bool" where
  "ready s t \<longleftrightarrow> ls_futures s (task_ID t) = None \<and> task_ID t \<notin> ls_completed s \<and> \<not> task_Disabled t \<and> task_Type t \<noteq> '''' \<and>
     (\<forall>d\<in>set (task_DependsOn t). ls_replacements s d = None \<and> (d \<in> ls_completed s \<or> d \<in> ls_branchDone s))"

definition idle :: "loopState \<Rightarrow> Task \<Rightarrow> bool" where
  "idle s t \<longleftrightarrow> task_ID t \<in> dom (ls_futures s) \<union> ls_completed s \<or>
     (\<exists>d\<in>set (task_DependsOn t). d \<notin> ls_completed s \<and> d \<notin> ls_branchDone s)"

lemma replaceDeps_None: "replaceDeps repl ds = None \<longleftrightarrow> (\<forall>d\<in>set ds. repl d = None)"
  by (induction ds) (auto split: option.splits)

lemma scanDeps_met:
  "fst (scanDeps bd cs c ds b n) \<longleftrightarrow> (\<forall>d\<in>set ds. d \<in> bd \<or> d \<in> cs)"
  by (induction ds arbitrary: b n) auto

text \<open>A loop that starts has items and has run none of them.\<close>

fun freshFuture :: "future \<Rightarrow> bool" where
  "freshFuture (LoopExecution t cfg started tokens ended outs) \<longleftrightarrow>
     lc_Items cfg \<noteq> [] \<and> started = 0 \<and> tokens = concurrency cfg \<and> ended = 0 \<and>
     outs = replicate (length (lc_Items cfg)) None"
| "freshFuture _ = True"

lemma dispatch_control:
  assumes "dispatch env an t s = Inr s'"
  shows "control s' = control (markCompleted (task_ID t) s) \<or>
    (\<exists>f. freshFuture f \<and> control s' = control (startFuture (task_ID t) f s))"
  using assms
  by (auto simp: dispatch_def startChild_def startInline_def startLoop_def Let_def
      control_skipTask control_startWait split: sum.splits taskKind.splits if_splits prod.splits
      intro!: exI [of _ "_ :: future"])

lemma expandMatrix_control:
  assumes "expandMatrix env t s = Inr s'"
  obtains c ts combos where "expandAll env c t 0 combos = Inr ts" "control s' = control (addExpansions t ts s)"
proof -
  obtain d c ts combos where "expandAll env c t 0 combos = Inr ts" "s' = addExpansions t ts (setTask (task_ID t) d s)"
    using assms by (auto simp: expandMatrix_def Let_def split: sum.splits)
  then show thesis using that by (simp add: control_def addExpansions_def setTask_def)
qed

lemma scanTask_cases:
  assumes "scanTask env an i s = Advance s'"
  obtains
    (idle) "s' = s" "idle s (ls_sorted s ! i)"
  | (skip) "control s' = control (markCompleted (task_ID (ls_sorted s ! i)) s)" "task_ID (ls_sorted s ! i) \<notin> ls_completed s"
  | (start) f where "control s' = control (startFuture (task_ID (ls_sorted s ! i)) f s)"
      "ready s (ls_sorted s ! i)" "task_Matrix (ls_sorted s ! i) = []" "freshFuture f"
  | (expand) c ts combos where "control s' = control (addExpansions (ls_sorted s ! i) ts s)"
      "ready s (ls_sorted s ! i)" "task_Matrix (ls_sorted s ! i) \<noteq> []"
      "expandAll env c (ls_sorted s ! i) 0 combos = Inr ts"
proof -
  let ?t = "ls_sorted s ! i"
  consider (present) "ls_futures s (task_ID ?t) \<noteq> None \<or> task_ID ?t \<in> ls_completed s" "s' = s"
    | (disabled) d where "s' = skipTask ?t d s" "task_ID ?t \<notin> ls_completed s"
    | (unmet) "s' = s" "\<not> fst (scanDeps (ls_branchDone s) (ls_completed s) (ls_ctx s) (task_DependsOn ?t) False 0)"
    | (met) sk where "ls_futures s (task_ID ?t) = None" "task_ID ?t \<notin> ls_completed s" "\<not> task_Disabled ?t" "task_Type ?t \<noteq> ''''"
        "replaceDeps (ls_replacements s) (task_DependsOn ?t) = None"
        "fst (scanDeps (ls_branchDone s) (ls_completed s) (ls_ctx s) (task_DependsOn ?t) False 0)"
        "runReady env an ?t sk s = Advance s'"
    using assms by (auto simp: scanTask_def Let_def split: if_splits option.splits prod.splits)
  then show thesis
  proof cases
    case present
    then show thesis using idle by (auto simp: idle_def)
  next
    case disabled
    then show thesis using skip by (simp add: control_skipTask)
  next
    case unmet
    then show thesis using idle by (auto simp: scanDeps_met idle_def)
  next
    case met
    then have r: "ready s ?t" by (auto simp: ready_def replaceDeps_None scanDeps_met)
    show thesis
    proof (cases "task_Matrix ?t = []")
      case True
      with met(7) consider d where "s' = skipTask ?t d s" | "dispatch env an ?t s = Inr s'"
        by (auto simp: runReady_def outcome_def split: if_splits sum.splits)
      then show thesis
        by cases (use skip start r True met(2) in \<open>auto simp: control_skipTask dest: dispatch_control\<close>)
    next
      case False
      with met(7) have "expandMatrix env ?t s = Inr s'" by (auto simp: runReady_def outcome_def split: sum.splits)
      then show thesis using expand r False by (blast elim: expandMatrix_control)
    qed
  qed
qed

section \<open>Tasks start after everything they depend on\<close>

text \<open>
  A dependency is resolved when a switch settled it, when it completed, or, for a matrix task, when
  each of its expansions is resolved.
\<close>

inductive resolvedDep :: "loopState \<Rightarrow> string \<Rightarrow> bool" for s where
  routed: "d \<in> ls_branchDone s \<Longrightarrow> resolvedDep s d"
| finished: "d \<in> ls_completed s \<Longrightarrow> ls_replacements s d = None \<Longrightarrow> resolvedDep s d"
| expanded: "ls_replacements s d = Some rs \<Longrightarrow> \<forall>e\<in>set rs. resolvedDep s e \<Longrightarrow> resolvedDep s d"

text \<open>A dependency of the definition, as it appears among the current dependencies of the task.\<close>

inductive awaited :: "(string \<rightharpoonup> string list) \<Rightarrow> string set \<Rightarrow> string \<Rightarrow> bool" for repl D where
  self: "d \<in> D \<Longrightarrow> awaited repl D d"
| replaced: "repl d = Some rs \<Longrightarrow> \<forall>e\<in>set rs. awaited repl D e \<Longrightarrow> awaited repl D d"

lemma awaited_trans:
  assumes "awaited repl D d" "\<And>e. e \<in> D \<Longrightarrow> awaited repl D' e"
  shows "awaited repl D' d"
  using assms by induction (auto intro: awaited.intros)

lemma awaited_mono:
  assumes "awaited repl D d" "repl \<subseteq>\<^sub>m repl'"
  shows "awaited repl' D d"
  using assms(1)
proof induction
  case (replaced d rs)
  then have "repl' d = Some rs" using assms(2) by (auto simp: map_le_def dom_def)
  then show ?case using replaced by (auto intro: awaited.replaced)
qed (rule awaited.self)

lemma awaited_resolved:
  assumes "awaited (ls_replacements s) D d" "\<And>e. e \<in> D \<Longrightarrow> resolvedDep s e"
  shows "resolvedDep s d"
  using assms by induction (auto intro: resolvedDep.expanded)

lemma resolvedDep_mono:
  assumes "resolvedDep s d" "ls_branchDone s \<subseteq> ls_branchDone s'" "ls_completed s \<subseteq> ls_completed s'"
    "ls_replacements s \<subseteq>\<^sub>m ls_replacements s'" "\<And>d. d \<in> ls_completed s \<Longrightarrow> ls_replacements s' d = ls_replacements s d"
  shows "resolvedDep s' d"
  using assms(1)
proof induction
  case (expanded d rs)
  then have "ls_replacements s' d = Some rs" using assms(4) by (auto simp: map_le_def dom_def)
  then show ?case using expanded by (auto intro: resolvedDep.expanded)
qed (use assms in \<open>auto intro: resolvedDep.intros\<close>)

text \<open>A task of the loop comes from a task of the definition, itself or as one of its expansions.\<close>

definition comesFrom :: "Task \<Rightarrow> Task \<Rightarrow> bool" where
  "comesFrom t u \<longleftrightarrow> task_Disabled t = task_Disabled u \<and> task_Type t = task_Type u \<and>
     (task_ID t = task_ID u \<and> task_Matrix t = task_Matrix u \<or>
      task_Matrix u \<noteq> [] \<and> task_Matrix t = [] \<and> (\<exists>j. task_ID t = expandedID (task_ID u) j))"

definition traced :: "Task list \<Rightarrow> (string \<rightharpoonup> string list) \<Rightarrow> Task \<Rightarrow> bool" where
  "traced ts repl t \<longleftrightarrow> (\<exists>u\<in>insert zeroTask (set ts). comesFrom t u \<and>
     (\<forall>d\<in>set (task_DependsOn u). awaited repl (set (task_DependsOn t)) d))"

definition startedFrom :: "Task list \<Rightarrow> loopState \<Rightarrow> string \<Rightarrow> bool" where
  "startedFrom ts s i \<longleftrightarrow> (\<exists>u\<in>set ts. \<not> task_Disabled u \<and>
     (if task_Matrix u = [] then i = task_ID u else \<exists>j. i = expandedID (task_ID u) j) \<and>
     (\<forall>d\<in>set (task_DependsOn u). resolvedDep s d))"

definition runInv :: "Task list \<Rightarrow> loopState \<Rightarrow> bool" where
  "runInv ts s \<longleftrightarrow> dom (ls_replacements s) \<subseteq> ls_completed s \<and> dom (ls_futures s) \<subseteq> task_ID ` set (ls_sorted s) \<and>
     (\<forall>t\<in>set (ls_sorted s). traced ts (ls_replacements s) t) \<and> (\<forall>i\<in>dom (ls_futures s). startedFrom ts s i)"

lemma traced_mono: "traced ts repl t \<Longrightarrow> repl \<subseteq>\<^sub>m repl' \<Longrightarrow> traced ts repl' t"
  unfolding traced_def by (meson awaited_mono)

lemma startedFrom_mono:
  assumes "startedFrom ts s i" "ls_branchDone s \<subseteq> ls_branchDone s'" "ls_completed s \<subseteq> ls_completed s'"
    "ls_replacements s \<subseteq>\<^sub>m ls_replacements s'" "\<And>d. d \<in> ls_completed s \<Longrightarrow> ls_replacements s' d = ls_replacements s d"
  shows "startedFrom ts s' i"
  using assms(1) resolvedDep_mono [OF _ assms(2-5)] unfolding startedFrom_def by blast

text \<open>Steps that complete tasks or settle branches keep the invariant.\<close>

lemma runInv_grow:
  assumes "runInv ts s" "ls_sorted s' = ls_sorted s" "ls_replacements s' = ls_replacements s"
    "dom (ls_futures s') = dom (ls_futures s)" "ls_completed s \<subseteq> ls_completed s'" "ls_branchDone s \<subseteq> ls_branchDone s'"
  shows "runInv ts s'"
  using assms startedFrom_mono [of ts s _ s'] by (auto simp: runInv_def)

lemma runInv_control: "control s' = control s \<Longrightarrow> runInv ts s = runInv ts s'"
  by (rule iffI; erule runInv_grow) (auto simp: control_def)

lemma runInv_markCompleted: "runInv ts s \<Longrightarrow> runInv ts (markCompleted i s)"
  by (erule runInv_grow) (auto simp: markCompleted_def)

lemma runInv_start:
  assumes inv: "runInv ts s" and r: "ready s t" and t: "t \<in> set (ls_sorted s)" and m: "task_Matrix t = []"
  shows "runInv ts (startFuture (task_ID t) f s)"
proof -
  have res: "resolvedDep s d" if "d \<in> set (task_DependsOn t)" for d
    using r that by (auto simp: ready_def intro: resolvedDep.intros)
  have "traced ts (ls_replacements s) t" using inv t by (auto simp: runInv_def)
  then obtain u where u: "u \<in> insert zeroTask (set ts)" "comesFrom t u"
      "\<forall>d\<in>set (task_DependsOn u). awaited (ls_replacements s) (set (task_DependsOn t)) d"
    unfolding traced_def by blast
  have "u \<noteq> zeroTask" using u(2) r by (auto simp: comesFrom_def ready_def zeroTask_def)
  moreover have "\<forall>d\<in>set (task_DependsOn u). resolvedDep s d" using u(3) res awaited_resolved by blast
  ultimately have "startedFrom ts s (task_ID t)"
    using u r m by (auto simp: startedFrom_def comesFrom_def ready_def)
  moreover have "startedFrom ts (startFuture (task_ID t) f s) i" if "startedFrom ts s i" for i
    by (rule startedFrom_mono [OF that]) (auto simp: startFuture_def)
  ultimately show ?thesis using inv t by (auto simp: runInv_def startFuture_def)
qed

lemma expandAll_tasks:
  "expandAll env c t j combos = Inr es \<Longrightarrow> e \<in> set es \<Longrightarrow> \<exists>k p. e = expandedTask t k p"
proof (induction combos arbitrary: j es)
  case (Cons combo combos)
  then obtain es' p where "expandAll env c t (Suc j) combos = Inr es'" "es = expandedTask t j p # es'"
    by (auto split: sum.splits)
  then show ?case using Cons by auto
qed simp

lemma runInv_expand:
  assumes inv: "runInv ts s" and r: "ready s t" and t: "t \<in> set (ls_sorted s)" and m: "task_Matrix t \<noteq> []"
    and es: "\<And>e. e \<in> set es \<Longrightarrow> \<exists>k p. e = expandedTask t k p"
  shows "runInv ts (addExpansions t es s)"
proof -
  let ?s = "addExpansions t es s"
  have new: "ls_replacements s (task_ID t) = None" using inv r by (auto simp: runInv_def ready_def)
  then have le: "ls_replacements s \<subseteq>\<^sub>m ls_replacements ?s" by (auto simp: addExpansions_def map_le_def)
  have tr: "traced ts (ls_replacements s) t" using inv t by (auto simp: runInv_def)
  have "traced ts (ls_replacements s) e" if e: "e \<in> set es" for e
  proof -
    obtain k p where e: "e = expandedTask t k p" using es [OF e] by blast
    then have "task_DependsOn e = task_DependsOn t" "comesFrom t u \<Longrightarrow> comesFrom e u" for u
      using m by (auto simp: expandedTask_def comesFrom_def)
    then show ?thesis using tr by (auto simp: traced_def)
  qed
  then have "\<forall>u\<in>set (ls_sorted ?s). traced ts (ls_replacements ?s) u"
    using inv le by (auto simp: addExpansions_def runInv_def intro: traced_mono)
  moreover have "startedFrom ts ?s i" if "startedFrom ts s i" for i
    using r le by (intro startedFrom_mono [OF that]) (auto simp: addExpansions_def ready_def)
  ultimately show ?thesis using inv by (auto simp: runInv_def addExpansions_def)
qed

lemma replaceDeps_awaited:
  assumes "replaceDeps repl ds = Some ds'" "d \<in> set ds"
  shows "awaited repl (set ds') d"
  using assms
proof (induction ds arbitrary: ds')
  case (Cons x ds)
  show ?case
  proof (cases "repl x")
    case None
    then obtain ds'' where "replaceDeps repl ds = Some ds''" "ds' = x # ds''" using Cons.prems by auto
    then show ?thesis
      using Cons.IH [of ds''] Cons.prems(2) by (auto intro: awaited.self elim!: awaited_trans)
  next
    case (Some rs)
    then have ds': "ds' = rs @ ds" using Cons.prems by simp
    have "awaited repl (set ds') x" by (rule awaited.replaced [of repl, OF Some]) (auto simp: ds' intro: awaited.self)
    then show ?thesis using Cons.prems(2) by (auto simp: ds' intro: awaited.self)
  qed
qed simp

lemma runInv_replace:
  assumes inv: "runInv ts s" and i: "i < length (ls_sorted s)"
    and r: "replaceDeps (ls_replacements s) (task_DependsOn (ls_sorted s ! i)) = Some ds"
  shows "runInv ts (s\<lparr>ls_sorted := (ls_sorted s)[i := withIdentity (task_ID (ls_sorted s ! i)) ds (ls_sorted s ! i)]\<rparr>)"
proof -
  let ?t = "ls_sorted s ! i" and ?t' = "withIdentity (task_ID (ls_sorted s ! i)) ds (ls_sorted s ! i)"
  let ?s = "s\<lparr>ls_sorted := (ls_sorted s)[i := ?t']\<rparr>"
  have "traced ts (ls_replacements s) ?t" using inv i by (auto simp: runInv_def)
  then obtain u where u: "u \<in> insert zeroTask (set ts)" "comesFrom ?t u"
      "\<forall>d\<in>set (task_DependsOn u). awaited (ls_replacements s) (set (task_DependsOn ?t)) d" by (auto simp: traced_def)
  have "\<forall>d\<in>set (task_DependsOn u). awaited (ls_replacements s) (set ds) d"
    using u(3) replaceDeps_awaited [OF r] by (blast intro: awaited_trans)
  then have "traced ts (ls_replacements s) ?t'" using u by (auto simp: traced_def comesFrom_def withIdentity_def)
  then have "\<forall>t\<in>set (ls_sorted ?s). traced ts (ls_replacements ?s) t"
    using inv by (auto simp: runInv_def dest!: set_update_subset_insert [THEN subsetD])
  moreover have "startedFrom ts ?s j" if "startedFrom ts s j" for j
    by (rule startedFrom_mono [OF that]) auto
  moreover have "map task_ID (ls_sorted ?s) = map task_ID (ls_sorted s)"
    by (simp add: map_update withIdentity_def list_update_same_conv i)
  then have "task_ID ` set (ls_sorted ?s) = task_ID ` set (ls_sorted s)" by (metis list.set_map)
  ultimately show ?thesis using inv by (simp add: runInv_def)
qed

lemma scanTask_Again:
  assumes "scanTask env an i s = Again s'"
  obtains ds where "replaceDeps (ls_replacements s) (task_DependsOn (ls_sorted s ! i)) = Some ds"
    "s' = s\<lparr>ls_sorted := (ls_sorted s)[i := withIdentity (task_ID (ls_sorted s ! i)) ds (ls_sorted s ! i)]\<rparr>"
  using assms
  by (auto simp: scanTask_def Let_def runReady_def outcome_def split: if_splits option.splits prod.splits sum.splits)

lemma runInv_scan:
  assumes inv: "runInv ts s" and i: "i < length (ls_sorted s)"
  shows "runInv ts (snd (afterTask i s (scanTask env an i s)))"
proof (cases "scanTask env an i s")
  case (Advance s')
  have t: "ls_sorted s ! i \<in> set (ls_sorted s)" using i by simp
  from Advance have "runInv ts s'"
  proof (cases rule: scanTask_cases)
    case idle
    then show ?thesis using inv by simp
  next
    case skip
    then show ?thesis using runInv_markCompleted [OF inv] runInv_control by blast
  next
    case (start f)
    then show ?thesis using runInv_start [OF inv _ t] runInv_control by blast
  next
    case (expand c es combos)
    have "runInv ts (addExpansions (ls_sorted s ! i) es s)"
      by (rule runInv_expand [OF inv expand(2) t expand(3)]) (rule expandAll_tasks [OF expand(4)])
    then show ?thesis using runInv_control [OF expand(1)] by blast
  qed
  then show ?thesis by (simp add: afterTask_def Advance)
next
  case (Again s')
  then show ?thesis by (rule scanTask_Again) (use runInv_replace [OF inv i] in \<open>simp add: afterTask_def Again\<close>)
qed (use inv in \<open>simp add: afterTask_def\<close>)

lemma snd_afterSelect [simp]: "snd (afterSelect r) = fst r"
  by (auto simp: afterSelect_def split: prod.split option.split)

lemma runInv_taskStep:
  assumes "taskStep env x y" "runInv ts (snd x)"
  shows "runInv ts (snd y)"
  using assms
proof cases
  case (scan i s an)
  then show ?thesis using assms(2) runInv_scan by simp
next
  case (completed i s r an)
  then show ?thesis
    using runInv_markCompleted [of ts s i] assms(2) runInv_control [OF control_completeTask] by auto
next
  case (running s s' p i)
  then show ?thesis using assms(2) background_fields [OF running(3)] by (auto elim!: runInv_grow)
qed simp

lemma runInv_signalStep: "signalStep x y \<Longrightarrow> runInv ts (snd x) \<Longrightarrow> runInv ts (snd y)"
  by (cases rule: signalStep.cases, assumption)
     (auto simp: Let_def split: option.split elim!: runInv_control [THEN iffD1, rotated])

lemma TopologicalSort_tasks:
  assumes "TopologicalSort ord ts = Inr out" "t \<in> set out" "\<And>ks. set (ord ks) = set ks"
  shows "t \<in> insert zeroTask (set ts)"
proof -
  obtain r where r: "runTopologicalSort ord ts = Some r" using runTopologicalSort_total [of ord ts] assms(3) by blast
  then obtain fs where out: "out = map (map_get zeroTask (taskMap ts)) fs"
    using assms(1) by (auto simp: TopologicalSort_def runTopologicalSort_def split: option.splits prod.splits)
  have "u \<in> set ts" if "taskMap ts k = Some u" for k u
    using that by (auto simp: taskMap_map_of dest!: map_of_SomeD)
  then show ?thesis using assms(2) unfolding out by (auto simp: map_get_def split: option.splits)
qed

lemma runInv_reachable:
  assumes "reachableRun env ts x" "\<And>ks. set (le_ord env ks) = set ks"
  shows "runInv ts (snd x)"
  using assms(1)
proof induction
  case (start c tokens s)
  have "traced ts Map.empty t" if "t \<in> set (ls_sorted s)" for t
  proof -
    have "t \<in> insert zeroTask (set ts)"
      using start that TopologicalSort_tasks assms(2) by (fastforce simp: startLoopState_def Let_def split: sum.splits if_splits)
    then show ?thesis by (auto simp: traced_def comesFrom_def intro: awaited.self)
  qed
  then show ?case using start by (auto simp: runInv_def startLoopState_def Let_def split: sum.splits if_splits)
qed (auto intro: runInv_taskStep runInv_signalStep)

lemma pending_futures:
  assumes "reachableRun env ts (p, s)" "\<And>ks. set (le_ord env ks) = set ks"
  shows "pending s = dom (ls_futures s) - ls_completed s"
  using runInv_reachable [OF assms] by (auto simp: runInv_def pending_def)

section \<open>Loop tasks keep to their batch size\<close>

text \<open>
  What the code keeps of a loop that runs: no item is started twice, the counter counts the outcomes,
  and every token is either in the channel or held by an iteration that has started and not ended.
  A loop that has given its result has run every item.
\<close>

definition recorded :: "(string + any) option list \<Rightarrow> nat" where
  "recorded outs = length (filter (\<lambda>r. r \<noteq> None) outs)"

definition loopOK :: "loopConfig \<Rightarrow> nat \<Rightarrow> nat \<Rightarrow> nat \<Rightarrow> (string + any) option list \<Rightarrow> bool" where
  "loopOK cfg started tokens ended outs \<longleftrightarrow>
     lc_Items cfg \<noteq> [] \<and> length outs = length (lc_Items cfg) \<and> started \<le> length outs \<and>
     (\<forall>idx. started \<le> idx \<and> idx < length outs \<longrightarrow> outs ! idx = None) \<and>
     ended = recorded outs \<and> started + tokens = ended + concurrency cfg"

definition loopsInv :: "loopState \<Rightarrow> bool" where
  "loopsInv s \<longleftrightarrow> dom (ls_results s) \<subseteq> dom (ls_futures s) \<and>
     (\<forall>i t cfg started tokens ended outs. ls_futures s i = Some (LoopExecution t cfg started tokens ended outs) \<longrightarrow>
        loopOK cfg started tokens ended outs \<and> (ls_results s i \<noteq> None \<longrightarrow> ended = length (lc_Items cfg)))"

lemma recorded_update:
  assumes "idx < length outs" "outs ! idx = None"
  shows "recorded (outs[idx := Some r]) = Suc (recorded outs)"
proof -
  have outs: "outs = take idx outs @ None # drop (Suc idx) outs" using id_take_nth_drop [OF assms(1)] assms(2) by simp
  have "recorded outs = recorded (take idx outs) + recorded (drop (Suc idx) outs)"
    by (subst outs) (simp add: recorded_def)
  then show ?thesis using assms(1) by (simp add: upd_conv_take_nth_drop recorded_def)
qed

lemma recorded_le: "recorded outs \<le> length outs"
  by (simp add: recorded_def)

lemma concurrency_pos: "lc_Items cfg \<noteq> [] \<Longrightarrow> 0 < concurrency cfg"
  by (cases "lc_Items cfg") (auto simp: concurrency_def)

text \<open>The iterations that are running.\<close>

definition runningSet :: "nat \<Rightarrow> (string + any) option list \<Rightarrow> nat set" where
  "runningSet started outs = {idx. idx < started \<and> outs ! idx = None}"

lemma runningSet_card:
  assumes "started \<le> length outs" "\<forall>idx. started \<le> idx \<and> idx < length outs \<longrightarrow> outs ! idx = None"
  shows "card (runningSet started outs) + recorded outs = started"
proof -
  have r: "recorded outs = card {idx. idx < length outs \<and> outs ! idx \<noteq> None}"
    by (simp add: recorded_def length_filter_conv_card)
  have "{idx. idx < length outs \<and> outs ! idx \<noteq> None} = {idx. idx < started \<and> outs ! idx \<noteq> None}"
    using assms by (auto simp: not_less [symmetric])
  moreover have "{..<started} = runningSet started outs \<union> {idx. idx < started \<and> outs ! idx \<noteq> None}"
    by (auto simp: runningSet_def)
  moreover have "card (runningSet started outs \<union> {idx. idx < started \<and> outs ! idx \<noteq> None}) =
      card (runningSet started outs) + card {idx. idx < started \<and> outs ! idx \<noteq> None}"
    by (rule card_Un_disjoint) (auto simp: runningSet_def)
  ultimately show ?thesis using r by (metis card_lessThan)
qed

lemma loopOK_running:
  assumes "loopOK cfg started tokens ended outs"
  shows "card (runningSet started outs) + ended = started" "card (runningSet started outs) + tokens = concurrency cfg"
  using assms runningSet_card [of started outs] by (auto simp: loopOK_def)

lemma loopOK_running_ex:
  assumes "loopOK cfg started tokens ended outs" "idx < started" "outs ! idx = None"
  shows "tokens < concurrency cfg" "ended < length (lc_Items cfg)" "ended < started"
proof -
  have "idx \<in> runningSet started outs" using assms by (simp add: runningSet_def)
  moreover have "finite (runningSet started outs)" by (simp add: runningSet_def)
  ultimately have "0 < card (runningSet started outs)" using card_gt_0_iff by blast
  then show "tokens < concurrency cfg" "ended < length (lc_Items cfg)" "ended < started"
    using loopOK_running [OF assms(1)] assms(1) by (auto simp: loopOK_def)
qed

lemma loopOK_fresh: "freshFuture (LoopExecution t cfg started tokens ended outs) \<Longrightarrow> loopOK cfg started tokens ended outs"
  by (simp add: loopOK_def recorded_def)

lemma loopOK_start:
  assumes "loopOK cfg started tokens ended outs" "started < length (lc_Items cfg)" "0 < tokens"
  shows "loopOK cfg (Suc started) (tokens - Suc 0) ended outs"
  using assms by (auto simp: loopOK_def)

lemma loopOK_end:
  assumes "loopOK cfg started tokens ended outs" "idx < started" "outs ! idx = None"
  shows "loopOK cfg started (Suc tokens) (Suc ended) (outs[idx := Some r])"
  using assms recorded_update [of idx outs r] by (auto simp: loopOK_def nth_list_update)

lemma loopsInv_results:
  assumes "loopsInv s" "i \<in> dom (ls_futures s)" "ls_results s' = (ls_results s)(i \<mapsto> r)" "ls_futures s' = ls_futures s"
    "\<And>t cfg started tokens ended outs. ls_futures s i = Some (LoopExecution t cfg started tokens ended outs) \<Longrightarrow>
       ended = length (lc_Items cfg)"
  shows "loopsInv s'"
  using assms unfolding loopsInv_def by (auto split: if_splits)

lemma loopsInv_futureUpdate:
  assumes "loopsInv s" "ls_results s' = ls_results s" "ls_futures s' = (ls_futures s)(i \<mapsto> f)"
    "\<And>t cfg started tokens ended outs. f = LoopExecution t cfg started tokens ended outs \<Longrightarrow>
       loopOK cfg started tokens ended outs \<and> (ls_results s i \<noteq> None \<longrightarrow> ended = length (lc_Items cfg))"
  shows "loopsInv s'"
  using assms unfolding loopsInv_def by (simp, blast)

lemma loopsInv_background:
  assumes "background env s s'" "loopsInv s"
  shows "loopsInv s'"
  using assms(1)
proof cases
  case (settleSub i t ts renamed d ending)
  obtain r where "ls_results s' = (ls_results s)(i \<mapsto> r)" using settleSub settleInline_fields(6) by metis
  then show ?thesis
    by (intro loopsInv_results [OF assms(2), of i s' r]) (use settleSub in \<open>auto simp: settleInline_fields(2)\<close>)
next
  case (iterationStart i t cfg started tokens ended outs)
  then have "loopOK cfg started tokens ended outs" "ls_results s i \<noteq> None \<longrightarrow> ended = length (lc_Items cfg)"
    using assms(2) by (auto simp: loopsInv_def)
  then show ?thesis
    by (intro loopsInv_futureUpdate [OF assms(2), of s' i]) (use iterationStart in \<open>auto simp: startFuture_def loopOK_start\<close>)
next
  case (iterationEnd i t cfg started tokens ended outs idx ending)
  then have ok: "loopOK cfg started tokens ended outs" "ls_results s i \<noteq> None \<longrightarrow> ended = length (lc_Items cfg)"
    using assms(2) by (auto simp: loopsInv_def)
  then have "ls_results s i = None" using loopOK_running_ex(2) [OF ok(1) iterationEnd(3,4)] by auto
  then show ?thesis using ok(1)
    by (intro loopsInv_futureUpdate [OF assms(2), of s' i]) (use iterationEnd in \<open>auto simp: startFuture_def loopOK_end\<close>)
qed (use assms(2) in \<open>auto intro: loopsInv_results\<close>)

lemma loopsInv_control: "control s' = control s \<Longrightarrow> loopsInv s = loopsInv s'"
  by (simp add: loopsInv_def control_def)

lemma loopsInv_scan:
  assumes "loopsInv s"
  shows "loopsInv (snd (afterTask i s (scanTask env an i s)))"
proof (cases "scanTask env an i s")
  case (Advance s')
  from Advance have "loopsInv s'"
  proof (cases rule: scanTask_cases)
    case (start f)
    have "ls_results s (task_ID (ls_sorted s ! i)) = None"
      using start(2) assms by (auto simp: ready_def loopsInv_def)
    then show ?thesis using start loopOK_fresh
      by (intro loopsInv_futureUpdate [OF assms, of s' "task_ID (ls_sorted s ! i)" f]) (auto simp: control_def startFuture_def)
  qed (use assms in \<open>auto simp: control_def markCompleted_def addExpansions_def loopsInv_def\<close>)
  then show ?thesis by (simp add: afterTask_def Advance)
next
  case (Again s')
  then show ?thesis by (rule scanTask_Again) (use assms in \<open>simp add: afterTask_def Again loopsInv_def\<close>)
qed (use assms in \<open>simp add: afterTask_def\<close>)

lemma loopsInv_step:
  assumes "taskStep env x y" "loopsInv (snd x)"
  shows "loopsInv (snd y)"
  using assms
proof cases
  case (completed i s r an)
  have "ls_futures (fst (completeTask env an i r s)) = ls_futures s" "ls_results (fst (completeTask env an i r s)) = ls_results s"
    using control_completeTask [of env an i r s] by (simp_all add: control_def markCompleted_def)
  then show ?thesis using completed assms(2) by (simp add: loopsInv_def)
qed (use assms(2) in \<open>auto intro: loopsInv_scan loopsInv_background\<close>)

lemma signalStep_control: "signalStep x y \<Longrightarrow> control (snd y) = control (snd x)"
  by (cases rule: signalStep.cases, assumption) (auto simp: Let_def split: option.split)

lemma loopsInv_reachable: "reachableRun env ts x \<Longrightarrow> loopsInv (snd x)"
proof (induction rule: reachableRun.induct)
  case (start c tokens s)
  then show ?case by (auto simp: loopsInv_def startLoopState_def Let_def split: sum.splits if_splits)
next
  case (signalStep x y)
  then show ?case using signalStep_control loopsInv_control by blast
qed (rule loopsInv_step)

section \<open>Definitions without matrix tasks run to the end\<close>

text \<open>
  A schedule: no matrix task, unique names, every task after its dependencies, and none of them
  routed by a switch.
\<close>

definition schedule :: "Task list \<Rightarrow> bool" where
  "schedule W \<longleftrightarrow> distinct (map task_ID W) \<and> (\<forall>t\<in>set W. task_Matrix t = []) \<and>
     (\<forall>us t vs. W = us @ t # vs \<longrightarrow> set (task_DependsOn t) \<subseteq> task_ID ` set us)"

abbreviation blocked :: "loopState \<Rightarrow> Task \<Rightarrow> bool" where
  "blocked s t \<equiv> \<exists>d\<in>set (task_DependsOn t). d \<notin> ls_completed s"

definition scannedTo :: "nat \<Rightarrow> loopState \<Rightarrow> bool" where
  "scannedTo k s \<longleftrightarrow> (\<forall>j<length (ls_sorted s). j < k \<longrightarrow>
     task_ID (ls_sorted s ! j) \<in> dom (ls_futures s) \<union> ls_completed s \<or> blocked s (ls_sorted s ! j))"

lemma pending_alt: "pending s = task_ID ` set (ls_sorted s) \<inter> dom (ls_futures s) - ls_completed s"
  by (auto simp: pending_def)

lemma scannedToD:
  "scannedTo k s \<Longrightarrow> ls_sorted s = W \<Longrightarrow> j < length W \<Longrightarrow> j < k \<Longrightarrow>
   task_ID (W ! j) \<in> dom (ls_futures s) \<or> task_ID (W ! j) \<in> ls_completed s \<or> blocked s (W ! j)"
  unfolding scannedTo_def by blast

definition scheduleInv :: "Task list \<Rightarrow> loopState \<Rightarrow> bool" where
  "scheduleInv W s \<longleftrightarrow> ls_sorted s = W \<and> ls_replacements s = Map.empty \<and>
     ls_completed s \<subseteq> task_ID ` set W \<and> dom (ls_futures s) \<subseteq> task_ID ` set W"

fun positionInv :: "position \<Rightarrow> loopState \<Rightarrow> bool" where
  "positionInv (Scanning k) s = scannedTo k s"
| "positionInv Waiting s \<longleftrightarrow> pending s \<noteq> {}"
| "positionInv Done s \<longleftrightarrow> ls_completed s = task_ID ` set (ls_sorted s)"
| "positionInv (Failed e) s \<longleftrightarrow> e \<noteq> Stalled"

definition plainInv :: "Task list \<Rightarrow> config \<Rightarrow> bool" where
  "plainInv W x \<longleftrightarrow> scheduleInv W (snd x) \<and> positionInv (fst x) (snd x)"

lemma schedule_earlier:
  assumes "schedule W" "j < length W" "d \<in> set (task_DependsOn (W ! j))"
  shows "\<exists>i<j. task_ID (W ! i) = d"
proof -
  have "W = take j W @ W ! j # drop (Suc j) W" using assms(2) by (rule id_take_nth_drop)
  then have "d \<in> task_ID ` set (take j W)" using assms(1,3) unfolding schedule_def by blast
  then obtain i where "i < length (take j W)" "d = task_ID (take j W ! i)" by (auto simp: in_set_conv_nth)
  then show ?thesis by (intro exI [of _ i]) simp
qed

lemma schedule_card: "schedule W \<Longrightarrow> card (task_ID ` set W) = length W"
  by (metis distinct_card length_map list.set_map schedule_def)

text \<open>A whole scan leaves no task that could have started: the loop never stalls.\<close>

lemma scanned_pending:
  assumes W: "schedule W" and inv: "scheduleInv W s" and sc: "scannedTo (length W) s" and p: "pending s = {}"
  shows "ls_completed s = task_ID ` set W"
proof (rule ccontr)
  assume "ls_completed s \<noteq> task_ID ` set W"
  then have "\<exists>j<length W. task_ID (W ! j) \<notin> ls_completed s"
    using inv by (auto simp: scheduleInv_def in_set_conv_nth)
  then obtain j where j: "j < length W" "task_ID (W ! j) \<notin> ls_completed s"
    and first: "\<forall>i<j. \<not> (i < length W \<and> task_ID (W ! i) \<notin> ls_completed s)"
    using exists_least_iff [of "\<lambda>j. j < length W \<and> task_ID (W ! j) \<notin> ls_completed s"] by blast
  have least: "task_ID (W ! i) \<in> ls_completed s" if "i < j" for i using first that j(1) by auto
  have w: "ls_sorted s = W" using inv by (simp add: scheduleInv_def)
  moreover have "task_ID (W ! j) \<in> task_ID ` set W" using j(1) by simp
  then have "task_ID (W ! j) \<notin> dom (ls_futures s)" using j(2) p unfolding pending_alt w by blast
  ultimately obtain d where d: "d \<in> set (task_DependsOn (W ! j))" "d \<notin> ls_completed s"
    using scannedToD [OF sc _ j(1) j(1)] j(2) by blast
  then show False using schedule_earlier [OF W j(1) d(1)] least by auto
qed

lemma loopHead_position:
  assumes "schedule W" "scheduleInv W s"
  shows "positionInv (loopHead s) s"
proof -
  have fin: "finite (task_ID ` set W)" by simp
  have "ls_completed s = task_ID ` set W" if "length W \<le> card (ls_completed s)"
    using that assms schedule_card [OF assms(1)] by (intro card_seteq [OF fin]) (auto simp: scheduleInv_def)
  then show ?thesis using assms by (auto simp: loopHead_def scannedTo_def scheduleInv_def)
qed

lemma afterScan_position:
  assumes "schedule W" "scheduleInv W s" "scannedTo i s" "length W \<le> i"
  shows "positionInv (afterScan s) s"
proof (cases "pending s = {}")
  case True
  have "scannedTo (length W) s" using assms(2-4) by (auto simp: scannedTo_def scheduleInv_def)
  then have "ls_completed s = task_ID ` set W" using scanned_pending [OF assms(1,2) _ True] by blast
  then show ?thesis
    using True assms schedule_card [OF assms(1)] loopHead_position [OF assms(1,2)] by (auto simp: afterScan_def scheduleInv_def)
qed (simp add: afterScan_def)

lemma dispatch_not_stalled: "dispatch env an t s \<noteq> Inl Stalled"
proof -
  have "taskParams env t c \<noteq> Inl Stalled" "startChild env an t p s \<noteq> Inl Stalled" "startInline env an t p s \<noteq> Inl Stalled"
    "startLoop an t p s \<noteq> Inl Stalled" for c p
    by (simp_all add: taskParams_def startChild_def startInline_def startLoop_def Let_def split: sum.split prod.split)
  then show ?thesis by (auto simp: dispatch_def split: sum.split taskKind.split)
qed

lemma expandMatrix_not_stalled: "expandMatrix env t s \<noteq> Inl Stalled"
  by (simp add: expandMatrix_def Let_def split: sum.split)

lemma runReady_not_stalled: "runReady env an t b s \<noteq> Abort Stalled"
proof -
  have "outcome r = Abort Stalled \<longleftrightarrow> r = Inl Stalled" for r by (simp add: outcome_def split: sum.split)
  then show ?thesis
    by (simp add: runReady_def evaluateTaskCondition_def dispatch_not_stalled expandMatrix_not_stalled split: sum.split)
qed

lemma scanTask_not_stalled: "scanTask env an i s \<noteq> Abort Stalled"
  by (simp add: scanTask_def Let_def runReady_not_stalled split: option.split prod.split)

lemma completeTask_not_stalled: "snd (completeTask env an i r s) \<noteq> Some Stalled"
  by (auto simp: completeTask_def completeWait_def handleTaskCompletion_def afterFailure_def afterSuccess_def Let_def
      split: prod.split option.split futureResult.split)

lemma scannedTo_mark:
  assumes W: "schedule W" and inv: "scheduleInv W s" and sc: "scannedTo i s" and i: "i < length W"
  shows "scannedTo (Suc i) (markCompleted (task_ID (W ! i)) s)"
proof -
  have "blocked (markCompleted (task_ID (W ! i)) s) (W ! j)" if j: "j < i" and "blocked s (W ! j)" for j
  proof -
    obtain d where d: "d \<in> set (task_DependsOn (W ! j))" "d \<notin> ls_completed s" using \<open>blocked s (W ! j)\<close> by blast
    obtain k where "k < j" "task_ID (W ! k) = d" using schedule_earlier [OF W _ d(1)] j i by auto
    then have "d \<noteq> task_ID (W ! i)" using W j i by (auto simp: schedule_def distinct_conv_nth)
    then show ?thesis using d by (auto simp: markCompleted_def)
  qed
  moreover have w: "ls_sorted s = W" using inv by (simp add: scheduleInv_def)
  ultimately have "task_ID (W ! j) \<in> dom (ls_futures s) \<or> task_ID (W ! j) \<in> ls_completed s \<or>
      blocked (markCompleted (task_ID (W ! i)) s) (W ! j)" if "j < i" for j
    using scannedToD [OF sc _ _ that] i that by (metis order.strict_trans)
  then show ?thesis using w unfolding scannedTo_def by (auto simp: markCompleted_def less_Suc_eq)
qed

lemma scheduleInv_control: "control s' = control s \<Longrightarrow> scheduleInv W s = scheduleInv W s'"
  by (auto simp: control_def scheduleInv_def)

lemma scannedTo_control: "control s' = control s \<Longrightarrow> scannedTo k s = scannedTo k s'"
  by (auto simp: control_def scannedTo_def)

lemma plainInv_scan:
  assumes W: "schedule W" and inv: "scheduleInv W s" "scannedTo i s" and i: "i < length W"
  shows "plainInv W (afterTask i s (scanTask env an i s))"
proof (cases "scanTask env an i s")
  case (Advance s')
  have t: "ls_sorted s ! i = W ! i" "W ! i \<in> set W" using inv i by (auto simp: scheduleInv_def)
  from Advance have "scheduleInv W s' \<and> scannedTo (Suc i) s'"
  proof (cases rule: scanTask_cases)
    case idle
    then show ?thesis using inv t by (auto simp: scannedTo_def scheduleInv_def idle_def less_Suc_eq)
  next
    case skip
    have "scheduleInv W (markCompleted (task_ID (W ! i)) s)" using inv t by (auto simp: scheduleInv_def markCompleted_def)
    then show ?thesis
      using scheduleInv_control [OF skip(1)] scannedTo_control [OF skip(1)] scannedTo_mark [OF W inv i] t by simp
  next
    case (start f)
    have "scheduleInv W (startFuture (task_ID (W ! i)) f s)" using inv t by (auto simp: scheduleInv_def startFuture_def)
    moreover have "scannedTo (Suc i) (startFuture (task_ID (W ! i)) f s)"
      using inv by (auto simp: scannedTo_def scheduleInv_def startFuture_def less_Suc_eq)
    ultimately show ?thesis using scheduleInv_control [OF start(1)] scannedTo_control [OF start(1)] t by simp
  next
    case expand
    then show ?thesis using W t by (simp add: schedule_def)
  qed
  then show ?thesis by (simp add: plainInv_def afterTask_def Advance)
next
  case (Again s')
  then show ?thesis
    by (rule scanTask_Again) (use inv replaceDeps_None [of Map.empty] in \<open>auto simp: scheduleInv_def\<close>)
next
  case (Abort e)
  then show ?thesis using inv scanTask_not_stalled by (auto simp: plainInv_def afterTask_def)
qed

lemma plainInv_background:
  assumes "background env s s'" "plainInv W (p, s)"
  shows "plainInv W (p, s')"
proof -
  note f = background_fields [OF assms(1)]
  have "scheduleInv W s' \<longleftrightarrow> scheduleInv W s" "scannedTo k s' \<longleftrightarrow> scannedTo k s" "pending s' = pending s" for k
    by (simp_all add: scheduleInv_def scannedTo_def pending_alt f)
  then show ?thesis using assms(2) f by (cases p) (simp_all add: plainInv_def)
qed

lemma plainInv_step:
  assumes W: "schedule W" and step: "taskStep env x y" and inv: "plainInv W x"
  shows "plainInv W y"
  using step
proof cases
  case (scan i s an)
  then show ?thesis using inv plainInv_scan [OF W] by (simp add: plainInv_def scheduleInv_def)
next
  case (scanned s i)
  then have "scheduleInv W s" "scannedTo i s" "length W \<le> i" using inv by (auto simp: plainInv_def scheduleInv_def)
  then show ?thesis using scanned afterScan_position [OF W] by (simp add: plainInv_def)
next
  case (completed i s r an)
  have c: "control (fst (completeTask env an i r s)) = control (markCompleted i s)" by (rule control_completeTask)
  have "scheduleInv W (markCompleted i s)"
    using inv completed by (auto simp: plainInv_def scheduleInv_def markCompleted_def pending_def)
  then have "scheduleInv W (fst (completeTask env an i r s))" using scheduleInv_control [OF c] by blast
  then show ?thesis
    using completed completeTask_not_stalled [of env an i r s] loopHead_position [OF W]
    by (auto simp: plainInv_def afterSelect_def split: prod.splits option.split)
next
  case (running s s' p i)
  then show ?thesis using inv plainInv_background by blast
qed

lemma plainInv_signal:
  assumes W: "schedule W" and "signalStep x y" "plainInv W x"
  shows "plainInv W y"
proof -
  have "scheduleInv W (snd y)"
    using scheduleInv_control [OF signalStep_control [OF assms(2)]] assms(3) by (simp add: plainInv_def)
  moreover have "fst y = loopHead (snd y)" using assms(2) by cases (auto simp: Let_def)
  ultimately show ?thesis using loopHead_position [OF W] by (simp add: plainInv_def)
qed

text \<open>A definition of this kind, as it is stored.\<close>

definition plainDefinition :: "Task list \<Rightarrow> bool" where
  "plainDefinition ts \<longleftrightarrow> (\<forall>t\<in>set ts. task_Matrix t = [] \<and>
     (task_ID t \<notin> collectSwitchTargetTaskIDs ts \<longrightarrow> set (task_DependsOn t) \<inter> collectSwitchTargetTaskIDs ts = {}))"

lemma filter_split: "filter P xs = us @ t # vs \<Longrightarrow> \<exists>us' vs'. xs = us' @ t # vs' \<and> us = filter P us'"
proof (induction xs arbitrary: us)
  case (Cons x xs)
  show ?case
  proof (cases "P x \<and> us = []")
    case True
    then have "x = t" using Cons.prems by simp
    then show ?thesis using True by (intro exI [of _ "[]"] exI [of _ xs]) simp
  next
    case False
    then obtain us1 where us1: "filter P xs = us1 @ t # vs" "us = filter P [x] @ us1"
      using Cons.prems by (cases us) (auto split: if_splits)
    then obtain us' vs' where "xs = us' @ t # vs'" "us1 = filter P us'" using Cons.IH by blast
    then show ?thesis using us1 by (intro exI [of _ "x # us'"] exI [of _ vs']) simp
  qed
qed simp

text \<open>A well-formed list starts: it sorts and no dependency is missing.\<close>

lemma wellFormed_starts:
  assumes "wellFormed ts" "\<And>ks. set (le_ord env ks) = set ks"
  obtains out s where "mset out = mset ts" "\<And>us t vs. out = us @ t # vs \<Longrightarrow> set (task_DependsOn t) \<subseteq> task_ID ` set us"
    "startLoopState env ts c tokens = Inr s" "ls_sorted s = filter (\<lambda>t. task_ID t \<notin> collectSwitchTargetTaskIDs ts) out"
    "ls_replacements s = Map.empty" "ls_completed s = {}" "ls_futures s = Map.empty"
proof -
  obtain out where out: "TopologicalSort (le_ord env) ts = Inr out" "mset out = mset ts"
      "\<And>us t vs. out = us @ t # vs \<Longrightarrow> set (task_DependsOn t) \<subseteq> task_ID ` set us"
    using wellFormed_sorts [OF assms] by blast
  have "set out = set ts" using out(2) by (metis set_mset_mset)
  then have T: "collectSwitchTargetTaskIDs out = collectSwitchTargetTaskIDs ts" by (simp add: collectSwitchTargetTaskIDs_def)
  have "set (task_DependsOn t) \<subseteq> task_ID ` set out" if "t \<in> set out" for t
    using out(3) split_list [OF that] by fastforce
  then have "missingDeps out = []" by (force simp: missingDeps_def filter_empty_conv)
  then show thesis using that [OF out(2,3)] by (simp add: startLoopState_def out(1) T Let_def)
qed

lemma schedule_start:
  assumes wf: "wellFormed ts" and pl: "plainDefinition ts" and ord: "\<And>ks. set (le_ord env ks) = set ks"
  shows "\<exists>s. startLoopState env ts c tokens = Inr s \<and> schedule (ls_sorted s) \<and> plainInv (ls_sorted s) (loopHead s, s) \<and>
    task_ID ` set (ls_sorted s) = task_ID ` set ts - collectSwitchTargetTaskIDs ts"
proof -
  let ?T = "collectSwitchTargetTaskIDs ts"
  obtain out s where out: "mset out = mset ts"
      "\<And>us t vs. out = us @ t # vs \<Longrightarrow> set (task_DependsOn t) \<subseteq> task_ID ` set us"
    and s: "startLoopState env ts c tokens = Inr s" "ls_sorted s = filter (\<lambda>t. task_ID t \<notin> ?T) out"
      "ls_replacements s = Map.empty" "ls_completed s = {}" "ls_futures s = Map.empty"
    using wellFormed_starts [OF wf] ord by blast
  let ?W = "filter (\<lambda>t. task_ID t \<notin> ?T) out"
  have set: "set out = set ts" using out(1) by (metis set_mset_mset)
  have "distinct (map task_ID ts)" using wf unfolding wellFormed_iff [of ts] by blast
  then have "distinct (map task_ID out)" by (metis mset_eq_imp_distinct_iff mset_map out(1))
  moreover have "set (task_DependsOn t) \<subseteq> task_ID ` set us" if eq: "?W = us @ t # vs" for us t vs
  proof -
    obtain us' vs' where "out = us' @ t # vs'" "us = filter (\<lambda>t. task_ID t \<notin> ?T) us'"
      using filter_split [OF eq] by blast
    moreover have t: "t \<in> set ?W" by (subst eq) simp
    ultimately have "set (task_DependsOn t) \<subseteq> task_ID ` set us'" "us = filter (\<lambda>t. task_ID t \<notin> ?T) us'" using out(2) by auto
    moreover have "set (task_DependsOn t) \<inter> ?T = {}" using t pl set by (auto simp: plainDefinition_def)
    ultimately show ?thesis by auto
  qed
  ultimately have W: "schedule ?W"
    using pl set by (auto simp: schedule_def plainDefinition_def distinct_map inj_on_def)
  moreover have "scheduleInv ?W s" using s by (simp add: scheduleInv_def)
  moreover have "task_ID ` set ?W = task_ID ` set ts - ?T" using set by auto
  ultimately show ?thesis using s loopHead_position by (auto simp: plainInv_def)
qed

lemma plain_reachable:
  assumes "reachableRun env ts x" "wellFormed ts" "plainDefinition ts" "\<And>ks. set (le_ord env ks) = set ks"
  shows "\<exists>W. schedule W \<and> plainInv W x \<and> task_ID ` set W = task_ID ` set ts - collectSwitchTargetTaskIDs ts"
  using assms(1)
proof induction
  case (start c tokens s)
  then show ?case using schedule_start [OF assms(2,3), of env c tokens] assms(4) by auto
qed (blast intro: plainInv_step plainInv_signal)+

lemma background_progress:
  assumes "loopsInv s" "i \<in> dom (ls_futures s)" "ls_results s i = None"
  shows "\<exists>s'. background env s s'"
proof -
  obtain f where f: "ls_futures s i = Some f" using assms(2) by blast
  show ?thesis
  proof (cases f)
    case (LoopExecution t cfg started tokens ended outs)
    then have ok: "loopOK cfg started tokens ended outs" using assms(1) f by (auto simp: loopsInv_def)
    show ?thesis
    proof (cases "\<exists>idx<started. outs ! idx = None")
      case True
      then show ?thesis using f LoopExecution background.iterationEnd loopOK_running_ex(1) [OF ok] by blast
    next
      case False
      then have "runningSet started outs = {}" by (auto simp: runningSet_def)
      then have "ended = started" "tokens = concurrency cfg" using loopOK_running [OF ok] by auto
      then show ?thesis
        using ok concurrency_pos [of cfg] f LoopExecution assms(3)
          background.iterationStart [of s i t cfg started tokens ended outs env]
          background.settleLoop [of s i t cfg started tokens ended outs env]
        by (cases "started < length (lc_Items cfg)") (auto simp: loopOK_def)
    qed
  qed (use f assms(3) in \<open>blast intro: background.intros\<close>)+
qed

lemma plain_progress:
  assumes "plainInv W (p, s)" "loopsInv s"
  shows "(\<exists>y. taskStep env (p, s) y) \<or> p = Done \<or> (\<exists>e. p = Failed e)"
proof (cases p)
  case (Scanning i)
  then show ?thesis by (cases "i < length (ls_sorted s)") (blast intro: taskStep.scan taskStep.scanned leI)+
next
  case Waiting
  then obtain i where i: "i \<in> pending s" using assms(1) by (auto simp: plainInv_def)
  show ?thesis
  proof (cases "ls_results s i")
    case None
    then obtain s' where "background env s s'" using background_progress [OF assms(2)] i by (auto simp: pending_def)
    then show ?thesis using Waiting taskStep.running by blast
  next
    case (Some r)
    then show ?thesis using Waiting i taskStep.completed by blast
  qed
qed simp_all

section \<open>Runs end\<close>

definition loopWork :: "future option \<Rightarrow> nat" where
  "loopWork f = (case f of
     Some (LoopExecution t cfg started tokens ended outs) \<Rightarrow>
       (length (lc_Items cfg) - started) + (length (lc_Items cfg) - ended)
   | _ \<Rightarrow> 0)"

definition taskWork :: "loopState \<Rightarrow> string \<Rightarrow> nat" where
  "taskWork s i = (if ls_results s i = None then 1 else 0) + loopWork (ls_futures s i)"

definition work :: "loopState \<Rightarrow> nat" where
  "work s = (\<Sum>i\<in>task_ID ` set (ls_sorted s). taskWork s i)"

fun remaining :: "position \<Rightarrow> loopState \<Rightarrow> nat" where
  "remaining (Scanning i) s = Suc (length (ls_sorted s) - i)"
| "remaining _ s = 0"

text \<open>
  What a run has left: tasks to complete, tasks to start, work of the futures, and, for the rest of
  one scan, positions to look at.
\<close>

definition effort :: "loopState \<Rightarrow> nat \<times> nat \<times> nat" where
  "effort s = (length (ls_sorted s) - card (ls_completed s), length (ls_sorted s) - card (dom (ls_futures s)), work s)"

definition effortOrder :: "((nat \<times> nat \<times> nat) \<times> (nat \<times> nat \<times> nat)) set" where
  "effortOrder = less_than <*lex*> less_than <*lex*> less_than"

definition runOrder :: "(config \<times> config) set" where
  "runOrder = inv_image (effortOrder <*lex*> less_than) (\<lambda>(p, s). (effort s, remaining p s))"

lemma effort_control: "control s' = control s \<Longrightarrow> effort s' = effort s"
  by (simp add: control_def effort_def work_def taskWork_def)

lemma wf_effortOrder: "wf effortOrder"
  unfolding effortOrder_def by (intro wf_lex_prod wf_less_than)

lemma wf_runOrder: "wf runOrder"
  unfolding runOrder_def by (intro wf_inv_image wf_lex_prod wf_effortOrder wf_less_than)

lemma work_decreases:
  assumes "ls_sorted s' = ls_sorted s" "i \<in> task_ID ` set (ls_sorted s)" "taskWork s' i < taskWork s i"
    "\<And>j. j \<noteq> i \<Longrightarrow> taskWork s' j = taskWork s j"
  shows "work s' < work s"
  unfolding work_def assms(1)
proof (rule sum_strict_mono_ex1)
  show "\<forall>j\<in>task_ID ` set (ls_sorted s). taskWork s' j \<le> taskWork s j" using assms(3,4) by (metis order.refl order.strict_implies_order)
qed (use assms(2,3) in auto)

lemma background_work:
  assumes "background env s s'" "loopsInv s" "dom (ls_futures s) \<subseteq> task_ID ` set (ls_sorted s)"
  shows "work s' < work s"
proof -
  have "\<exists>i\<in>dom (ls_futures s). taskWork s' i < taskWork s i \<and> (\<forall>j. j \<noteq> i \<longrightarrow> taskWork s' j = taskWork s j)"
    using assms(1)
  proof cases
    case (settleSub i t ts renamed d ending)
    then show ?thesis
      using settleInline_fields(2,6) [of env i t d renamed ending s] by (auto simp: taskWork_def split: if_splits intro!: bexI [of _ i])
  next
    case (iterationStart i t cfg started tokens ended outs)
    then show ?thesis by (auto simp: taskWork_def loopWork_def startFuture_def intro!: bexI [of _ i])
  next
    case (iterationEnd i t cfg started tokens ended outs idx ending)
    then have "loopOK cfg started tokens ended outs" using assms(2) by (auto simp: loopsInv_def)
    from loopOK_running_ex(2) [OF this iterationEnd(3,4)] show ?thesis
      using iterationEnd by (auto simp: taskWork_def loopWork_def startFuture_def intro!: bexI [of _ i])
  qed (auto simp: taskWork_def dom_def intro!: bexI)
  then show ?thesis using work_decreases background_fields(1) [OF assms(1)] assms(3) by (meson subsetD)
qed

lemma card_insert_decreases:
  fixes n :: nat
  assumes "A \<subseteq> B" "finite B" "card B = n" "i \<in> B" "i \<notin> A"
  shows "n - card (insert i A) < n - card A"
proof -
  have "finite A" using assms finite_subset by blast
  moreover have "card A < card B" using assms by (intro psubset_card_mono) auto
  ultimately show ?thesis using assms by simp
qed

lemma effort_scan:
  assumes W: "schedule W" and inv: "scheduleInv W s" and i: "i < length W" and y: "afterTask i s (scanTask env an i s) = (p, s')"
  shows "control s' = control s \<and> remaining p s' < remaining (Scanning i) s \<or> (effort s', effort s) \<in> effortOrder"
proof (cases "scanTask env an i s")
  case (Advance s1)
  have t: "ls_sorted s ! i = W ! i" "task_ID (W ! i) \<in> task_ID ` set W" using inv i by (auto simp: scheduleInv_def)
  have fin: "finite (task_ID ` set W)" by simp
  note dec = card_insert_decreases [OF _ fin schedule_card [OF W] t(2)]
  have y: "p = Scanning (Suc i)" "s' = s1" using y by (simp_all add: afterTask_def Advance)
  from Advance show ?thesis
  proof (cases rule: scanTask_cases)
    case idle
    have "length W - Suc i < length W - i" by (rule diff_less_mono2 [OF lessI i])
    then show ?thesis using inv idle by (simp add: y scheduleInv_def)
  next
    case skip
    then have "ls_completed s' = insert (task_ID (W ! i)) (ls_completed s)" "ls_sorted s' = W"
      using inv t by (auto simp: y control_def markCompleted_def scheduleInv_def)
    then show ?thesis using dec [of "ls_completed s"] skip(2) inv t
      by (simp add: effortOrder_def effort_def scheduleInv_def)
  next
    case (start f)
    then have "dom (ls_futures s') = insert (task_ID (W ! i)) (dom (ls_futures s))" "ls_sorted s' = W" "ls_completed s' = ls_completed s"
      using inv t by (auto simp: y control_def startFuture_def scheduleInv_def)
    then show ?thesis using dec [of "dom (ls_futures s)"] start(2) inv t
      by (simp add: effortOrder_def effort_def scheduleInv_def ready_def domIff)
  next
    case expand
    then show ?thesis using W t i by (auto simp: schedule_def)
  qed
next
  case (Again s')
  then show ?thesis
    by (rule scanTask_Again) (use inv replaceDeps_None [of Map.empty] in \<open>auto simp: scheduleInv_def\<close>)
next
  case (Abort e)
  then show ?thesis using y by (auto simp: afterTask_def)
qed

text \<open>A step that changes what the run has started, completed or learnt takes from what is left; any other only scans on.\<close>

lemma effort_step:
  assumes W: "schedule W" and step: "taskStep env (p, s) (q, s')" and inv: "plainInv W (p, s)" "loopsInv s"
  shows "control s' = control s \<and> remaining q s' < remaining p s \<or> (effort s', effort s) \<in> effortOrder"
  using step
proof cases
  case (scan i an)
  then show ?thesis using inv effort_scan [OF W, of s i env an q s'] by (simp add: plainInv_def scheduleInv_def)
next
  case (scanned i)
  then have "remaining (afterScan s) s = 0" by (simp add: afterScan_def loopHead_def)
  then show ?thesis using scanned by simp
next
  case (completed i r an)
  let ?s = "fst (completeTask env an i r s)"
  have s: "ls_sorted s = W" "ls_completed s \<subseteq> task_ID ` set W" "i \<in> task_ID ` set W" "i \<notin> ls_completed s"
    using inv(1) completed by (auto simp: plainInv_def scheduleInv_def pending_def)
  have "ls_completed ?s = insert i (ls_completed s)" "ls_sorted ?s = W"
    using control_completeTask [of env an i r s] s(1) by (simp_all add: control_def markCompleted_def)
  then have "length (ls_sorted ?s) - card (ls_completed ?s) < length (ls_sorted s) - card (ls_completed s)"
    using card_insert_decreases [OF s(2) _ schedule_card [OF W] s(3,4)] s(1) by simp
  moreover have "s' = ?s" using completed by (metis snd_afterSelect snd_conv)
  ultimately show ?thesis by (simp add: effortOrder_def effort_def)
next
  case (running i)
  have "dom (ls_futures s) \<subseteq> task_ID ` set (ls_sorted s)" using inv(1) by (auto simp: plainInv_def scheduleInv_def)
  then have "work s' < work s" using background_work [OF running(2)] inv(2) by simp
  then show ?thesis using background_fields [OF running(2)] by (simp add: effortOrder_def effort_def)
qed

lemma runOrder_step:
  assumes "schedule W" "taskStep env x y" "plainInv W x" "loopsInv (snd x)"
  shows "(y, x) \<in> runOrder"
  using effort_step [OF assms(1), of env "fst x" "snd x" "fst y" "snd y"] assms effort_control [of "snd y" "snd x"]
  by (auto simp: runOrder_def split_beta)

text \<open>A quantity that stays or descends in a well-founded order changes only finitely often.\<close>

lemma finitely_many_descents:
  assumes "wf r" "\<And>k :: nat. c (Suc k) = c k \<or> (m (Suc k), m k) \<in> r" "\<And>k. c (Suc k) = c k \<Longrightarrow> m (Suc k) = m k"
  shows "finite {k. c (Suc k) \<noteq> c k}"
proof -
  obtain n where n: "\<And>k. (m k, m n) \<notin> r"
    using wfE_min [OF assms(1), of "m 0" "range m"] by (metis rangeE rangeI)
  have eq: "m k = m n" if "n \<le> k" for k
    using that
  proof (induction k rule: dec_induct)
    case (step k)
    then show ?case using assms(2,3) n by metis
  qed simp
  have "c (Suc k) = c k" if "n \<le> k" for k
    using assms(2) [of k] n [of "Suc k"] eq [OF that] by auto
  then have "{k. c (Suc k) \<noteq> c k} \<subseteq> {..<n}" by (auto simp: not_le [symmetric])
  then show ?thesis by (rule finite_subset) simp
qed

section \<open>Where the loop stalls\<close>

text \<open>The scan on its own, for examples.\<close>

fun scanOn :: "loopEnv \<Rightarrow> answers \<Rightarrow> nat \<Rightarrow> config \<Rightarrow> config" where
  "scanOn env an (Suc n) (Scanning i, s) =
     scanOn env an n (if i < length (ls_sorted s) then afterTask i s (scanTask env an i s) else (afterScan s, s))"
| "scanOn env an n x = x"

lemma reachable_scanOn: "reachableRun env ts x \<Longrightarrow> reachableRun env ts (scanOn env an n x)"
proof (induction env an n x rule: scanOn.induct)
  case (1 env an n i s)
  show ?case
  proof (cases "i < length (ls_sorted s)")
    case True
    then show ?thesis using 1 reachableRun.taskStep taskStep.scan by fastforce
  next
    case False
    then have "taskStep env (Scanning i, s) (afterScan s, s)" by (intro taskStep.scanned) simp
    then show ?thesis using 1 False reachableRun.taskStep by fastforce
  qed
qed simp_all

definition literalEnv :: loopEnv where
  "literalEnv =
     \<lparr>le_ord = id, le_fmtv = (\<lambda>v. ''''), le_engine = (\<lambda>c. \<lparr>EvaluateSimpleVariable = (\<lambda>e. None), Render = Inr\<rparr>),
      le_kind = (\<lambda>ty. if ty = ''core.switch'' then InlineTask False else if ty = ''core.foreach'' then LoopTask else PlainTask),
      le_unmarshalTasks = (\<lambda>l. []), le_decodeObject = (\<lambda>s. None), le_maxCombinations = 100, le_callDepth = 0,
      le_wf = \<lparr>wf_ID = ''w1'', wf_TenantID = ''t'', wf_AccountID = ''a'', wf_UpdatedBy = ''u'', wf_Name = ''nightly'',
        wf_DisplayName = '''', wf_DryRun = False, wf_Tasks = []\<rparr>\<rparr>"

definition noAnswers :: answers where
  "noAnswers = \<lparr>an_childDef = (\<lambda>t p. Inl ''unsupported''), an_route = (\<lambda>t p. Inl ''unsupported''),
     an_loopConfig = (\<lambda>t p. Inl ''unsupported''), an_action = (\<lambda>ty p. None)\<rparr>"

definition emptyContext :: execContext where
  "emptyContext = \<lparr>xc_Inputs = [], xc_Tasks = Map.empty, xc_Matrix = [], xc_Secrets = [], xc_Vars = [], xc_State = [],
     xc_Self = [], xc_shared = True\<rparr>"

definition startOf :: "loopEnv \<Rightarrow> Task list \<Rightarrow> config" where
  "startOf env ts = (case startLoopState env ts emptyContext Map.empty of Inr s \<Rightarrow> (loopHead s, s) | Inl e \<Rightarrow> undefined)"

definition starts :: "loopEnv \<Rightarrow> Task list \<Rightarrow> bool" where
  "starts env ts = (case startLoopState env ts emptyContext Map.empty of Inr s \<Rightarrow> True | Inl e \<Rightarrow> False)"

lemma reachable_startOf: "starts env ts \<Longrightarrow> reachableRun env ts (startOf env ts)"
  by (auto simp: starts_def startOf_def split: sum.splits intro: reachableRun.start)

text \<open>
  A matrix task whose expansions are all skipped, and a task after it: when the dependent is looked at,
  the expansions are not completed yet; when they are skipped, later in the same scan, nothing is
  pending and the loop gives up although the dependent could be settled.
\<close>

definition skippedMatrix :: "Task list" where
  "skippedMatrix =
     [Task ''m'' ''core.print'' [] [] [] [] [] [] ''false'' [(''k'', AArr [AStr ''x''])] '''' None False,
      plainTask ''d'' ''core.print'' [] [] [] [] [] [''m'']]"

text \<open>A switch that is skipped settles none of its branches, so a task after a branch waits forever.\<close>

definition skippedSwitch :: "Task list" where
  "skippedSwitch =
     [Task ''s'' ''core.switch'' [(''expression'', AStr ''x''), (''cases'', AArr [AObj [(''value'', AStr ''x''), (''next'', AStr ''b'')]])]
        [] [] [] [] [] ''false'' [] '''' None False,
      plainTask ''b'' ''core.print'' [] [] [] [] [] [],
      plainTask ''d'' ''core.print'' [] [] [] [] [] [''b'']]"

lemma skipped_matrix_stalls:
  "ValidateDAG id skippedMatrix = None \<and> (\<exists>s. reachableRun literalEnv skippedMatrix (Failed Stalled, s))"
proof -
  have "ValidateDAG id skippedMatrix = None" by code_simp
  moreover have "starts literalEnv skippedMatrix" by code_simp
  then have "reachableRun literalEnv skippedMatrix (scanOn literalEnv noAnswers 10 (startOf literalEnv skippedMatrix))"
    by (intro reachable_scanOn reachable_startOf)
  moreover have "fst (scanOn literalEnv noAnswers 10 (startOf literalEnv skippedMatrix)) = Failed Stalled" by code_simp
  ultimately show ?thesis by (metis prod.collapse)
qed

lemma skipped_switch_stalls:
  "ValidateDAG id skippedSwitch = None \<and> (\<exists>s. reachableRun literalEnv skippedSwitch (Failed Stalled, s))"
proof -
  have "ValidateDAG id skippedSwitch = None" by code_simp
  moreover have "starts literalEnv skippedSwitch" by code_simp
  then have "reachableRun literalEnv skippedSwitch (scanOn literalEnv noAnswers 10 (startOf literalEnv skippedSwitch))"
    by (intro reachable_scanOn reachable_startOf)
  moreover have "fst (scanOn literalEnv noAnswers 10 (startOf literalEnv skippedSwitch)) = Failed Stalled" by code_simp
  ultimately show ?thesis by (metis prod.collapse)
qed

text \<open>The hooks of a failed task: only those for failure run, never those for \<open>always\<close>.\<close>

lemma failed_task_hooks:
  assumes "ls_taskMap s i = Some t"
  shows "ls_effects (fst (handleTaskCompletion env an i (FErr e) s)) =
    ls_effects s @ map (\<lambda>a. RunAction (action_Type a) (actionParams env (ls_ctx s) a)) (hookActions hooks_Failure t)"
  using assms
  by (auto simp: handleTaskCompletion_def afterFailure_def executeSimpleActions_def setTask_def Let_def comp_def split: list.split)

section \<open>Properties\<close>

text \<open>C2: In every state a run of the task loop can reach, whatever the tasks, hooks, switches and signals do,
a task that was started belongs to a task of the definition that is not disabled (to one of its
expansions, if that is a matrix task), and everything this task depends on is resolved: completed,
settled by a switch, or, for a matrix task, all of its expansions resolved.\<close>

theorem started_after_dependencies:
  assumes "reachableRun env ts (p, s)" "\<And>ks. set (le_ord env ks) = set ks" "i \<in> dom (ls_futures s)"
  shows "\<exists>u\<in>set ts. \<not> task_Disabled u \<and> (if task_Matrix u = [] then i = task_ID u else \<exists>j. i = expandedID (task_ID u) j) \<and>
    (\<forall>d\<in>set (task_DependsOn u). resolvedDep s d)"
  using runInv_reachable [OF assms(1,2)] assms(3) by (auto simp: runInv_def startedFrom_def)

definition rescue :: "Task list" where
  "rescue =
     [Task ''a'' ''core.print'' [] [] [] [] [] [] ''false'' [] '''' None False,
      Task ''b'' ''core.print'' [] [] [] [] [] [''a''] ''true'' [] '''' None False]"

theorem started_after_dependencies_witness:
  "\<exists>u\<in>set rescue. \<not> task_Disabled u \<and> (if task_Matrix u = [] then ''b'' = task_ID u else \<exists>j. ''b'' = expandedID (task_ID u) j) \<and>
    (\<forall>d\<in>set (task_DependsOn u). resolvedDep (snd (scanOn literalEnv noAnswers 2 (startOf literalEnv rescue))) d)"
proof (rule started_after_dependencies [where env = literalEnv])
  have "starts literalEnv rescue" by code_simp
  then show "reachableRun literalEnv rescue
      (fst (scanOn literalEnv noAnswers 2 (startOf literalEnv rescue)), snd (scanOn literalEnv noAnswers 2 (startOf literalEnv rescue)))"
    by (simp add: reachable_scanOn reachable_startOf)
  show "''b'' \<in> dom (ls_futures (snd (scanOn literalEnv noAnswers 2 (startOf literalEnv rescue))))"
    unfolding domIff by code_simp
qed (simp add: literalEnv_def)


definition pairs :: loopConfig where
  "pairs = \<lparr>lc_Items = [AInt 1, AInt 2, AInt 3], lc_ItemVarName = ''item'', lc_Tasks = [plainTask ''x'' ''core.print'' [] [] [] [] [] []],
     lc_Output = None, lc_BatchSize = 2\<rparr>"

definition loopTask :: Task where
  "loopTask = plainTask ''l'' ''core.foreach'' [] [] [] [] [] []"


text \<open>C4: The run of an accepted definition without matrix tasks, in which no task of the main loop depends on a
task routed by a switch, is never stuck and never stalls: in every state it can reach it either has
another step, or it is over, with exactly the tasks of the main loop completed, or with the error of
a task, a hook or a definition.\<close>

theorem plain_run_progress:
  assumes "ValidateDAG ord ts = None" "\<And>ks. set (ord ks) = set ks" "\<And>ks. set (le_ord env ks) = set ks"
    "plainDefinition ts" "reachableRun env ts (p, s)"
  shows "(\<exists>y. taskStep env (p, s) y) \<or>
    p = Done \<and> ls_completed s = task_ID ` set ts - collectSwitchTargetTaskIDs ts \<or>
    (\<exists>e. p = Failed e \<and> e \<noteq> Stalled)"
proof -
  have wf: "wellFormed ts" using ValidateDAG_iff(2) [of ord ts] assms(1,2) by blast
  obtain W where W: "schedule W" "plainInv W (p, s)" "task_ID ` set W = task_ID ` set ts - collectSwitchTargetTaskIDs ts"
    using plain_reachable [OF assms(5) wf assms(4,3)] by blast
  have "loopsInv s" using loopsInv_reachable [OF assms(5)] by simp
  from plain_progress [OF W(2) this, of env] show ?thesis using W by (auto simp: plainInv_def scheduleInv_def)
qed

theorem plain_run_progress_witness:
  "(\<exists>y. taskStep literalEnv (startOf literalEnv rescue) y) \<or>
    fst (startOf literalEnv rescue) = Done \<and>
      ls_completed (snd (startOf literalEnv rescue)) = task_ID ` set rescue - collectSwitchTargetTaskIDs rescue \<or>
    (\<exists>e. fst (startOf literalEnv rescue) = Failed e \<and> e \<noteq> Stalled)"
proof -
  have "starts literalEnv rescue" by code_simp
  then have "reachableRun literalEnv rescue (fst (startOf literalEnv rescue), snd (startOf literalEnv rescue))"
    by (simp add: reachable_startOf)
  moreover have "ValidateDAG id rescue = None" by code_simp
  moreover have "plainDefinition rescue" by code_simp
  moreover have "set (le_ord literalEnv ks) = set ks" for ks by (simp add: literalEnv_def)
  ultimately show ?thesis using plain_run_progress [of id rescue literalEnv "fst (startOf literalEnv rescue)" "snd (startOf literalEnv rescue)"]
    by simp
qed

text \<open>C7: Such a definition starts, and no run of it goes on forever by itself: a run that receives only finitely
many signals makes only finitely many steps. With signals without end the loop looks at its tasks
again for each of them, but even then only finitely many steps change which tasks are started,
completed or answered, whatever the tasks return.\<close>

theorem plain_run_terminates:
  assumes "ValidateDAG ord ts = None" "\<And>ks. set (ord ks) = set ks" "\<And>ks. set (le_ord env ks) = set ks"
    "plainDefinition ts"
  shows "(\<exists>s. startLoopState env ts c tokens = Inr s) \<and>
    \<not> (\<exists>f. reachableRun env ts (f 0) \<and> (\<forall>k. taskStep env (f k) (f (Suc k)) \<or> signalStep (f k) (f (Suc k))) \<and>
         finite {k. signalStep (f k) (f (Suc k))}) \<and>
    \<not> (\<exists>f. reachableRun env ts (f 0) \<and> (\<forall>k. taskStep env (f k) (f (Suc k)) \<or> signalStep (f k) (f (Suc k))) \<and>
         infinite {k. ls_futures (snd (f (Suc k))) \<noteq> ls_futures (snd (f k)) \<or>
           ls_completed (snd (f (Suc k))) \<noteq> ls_completed (snd (f k)) \<or> ls_results (snd (f (Suc k))) \<noteq> ls_results (snd (f k))})"
proof -
  have wf: "wellFormed ts" using ValidateDAG_iff(2) [of ord ts] assms(1,2) by blast
  have start: "\<exists>s. startLoopState env ts c tokens = Inr s" using schedule_start [OF wf assms(4,3)] by blast
  note plain = plain_reachable [OF _ wf assms(4,3)]
  have no: "finite {k. control (snd (f (Suc k))) \<noteq> control (snd (f k))}" "infinite {k. signalStep (f k) (f (Suc k))}"
    if "reachableRun env ts (f 0)" and step: "\<And>k. taskStep env (f k) (f (Suc k)) \<or> signalStep (f k) (f (Suc k))" for f
  proof -
    have r: "reachableRun env ts (f k)" for k
      by (induction k) (use that reachableRun.taskStep reachableRun.signalStep in blast)+
    have "control (snd (f (Suc k))) = control (snd (f k)) \<or> (effort (snd (f (Suc k))), effort (snd (f k))) \<in> effortOrder" for k
      using plain [OF r [of k]] loopsInv_reachable [OF r [of k]] step [of k] signalStep_control [of "f k" "f (Suc k)"]
        effort_step [of _ env "fst (f k)" "snd (f k)" "fst (f (Suc k))" "snd (f (Suc k))"] by auto
    then show "finite {k. control (snd (f (Suc k))) \<noteq> control (snd (f k))}"
      by (rule finitely_many_descents [OF wf_effortOrder]) (rule effort_control)
    show "infinite {k. signalStep (f k) (f (Suc k))}"
    proof
      assume "finite {k. signalStep (f k) (f (Suc k))}"
      then obtain n where n: "\<forall>k\<in>{k. signalStep (f k) (f (Suc k))}. k < n"
        unfolding finite_nat_set_iff_bounded by (rule exE)
      have "taskStep env (f (k + n)) (f (Suc k + n))" for k
      proof -
        have "\<not> signalStep (f (k + n)) (f (Suc (k + n)))" using n by (metis mem_Collect_eq not_add_less2)
        then show ?thesis using step [of "k + n"] by simp
      qed
      then have "(f (Suc k + n), f (k + n)) \<in> runOrder" for k
        using plain [OF r [of "k + n"]] loopsInv_reachable [OF r [of "k + n"]] runOrder_step by blast
      then have "\<forall>k. ((\<lambda>k. f (k + n)) (Suc k), (\<lambda>k. f (k + n)) k) \<in> runOrder" by blast
      then show False using wf_runOrder unfolding wf_iff_no_infinite_down_chain by (elim notE) (rule exI)
    qed
  qed
  have changes: "finite {k. ls_futures (snd (f (Suc k))) \<noteq> ls_futures (snd (f k)) \<or> ls_completed (snd (f (Suc k))) \<noteq> ls_completed (snd (f k)) \<or>
      ls_results (snd (f (Suc k))) \<noteq> ls_results (snd (f k))}"
    if "finite {k. control (snd (f (Suc k))) \<noteq> control (snd (f k))}" for f :: "nat \<Rightarrow> config"
    by (rule finite_subset [OF _ that]) (auto simp: control_def)
  show ?thesis
  proof (intro conjI notI)
    show "\<exists>s. startLoopState env ts c tokens = Inr s" by (rule start)
  next
    assume "\<exists>f. reachableRun env ts (f 0) \<and> (\<forall>k. taskStep env (f k) (f (Suc k)) \<or> signalStep (f k) (f (Suc k))) \<and>
      finite {k. signalStep (f k) (f (Suc k))}"
    then obtain f where "reachableRun env ts (f 0)" "\<And>k. taskStep env (f k) (f (Suc k)) \<or> signalStep (f k) (f (Suc k))"
      "finite {k. signalStep (f k) (f (Suc k))}" by blast
    with no(2) [of f] show False by blast
  next
    assume "\<exists>f. reachableRun env ts (f 0) \<and> (\<forall>k. taskStep env (f k) (f (Suc k)) \<or> signalStep (f k) (f (Suc k))) \<and>
      infinite {k. ls_futures (snd (f (Suc k))) \<noteq> ls_futures (snd (f k)) \<or> ls_completed (snd (f (Suc k))) \<noteq> ls_completed (snd (f k)) \<or>
        ls_results (snd (f (Suc k))) \<noteq> ls_results (snd (f k))}"
    then obtain f where f: "reachableRun env ts (f 0)" "\<And>k. taskStep env (f k) (f (Suc k)) \<or> signalStep (f k) (f (Suc k))"
      "infinite {k. ls_futures (snd (f (Suc k))) \<noteq> ls_futures (snd (f k)) \<or> ls_completed (snd (f (Suc k))) \<noteq> ls_completed (snd (f k)) \<or>
        ls_results (snd (f (Suc k))) \<noteq> ls_results (snd (f k))}" by blast
    show False using changes [OF no(1) [of f, OF f(1,2)]] f(3) by contradiction
  qed
qed

theorem plain_run_terminates_witness:
  "(\<exists>s. startLoopState literalEnv rescue emptyContext Map.empty = Inr s) \<and>
    \<not> (\<exists>f. reachableRun literalEnv rescue (f 0) \<and> (\<forall>k. taskStep literalEnv (f k) (f (Suc k)) \<or> signalStep (f k) (f (Suc k))) \<and>
         finite {k. signalStep (f k) (f (Suc k))})"
proof -
  have "ValidateDAG id rescue = None" "plainDefinition rescue" by code_simp+
  then show ?thesis using plain_run_terminates [of id rescue literalEnv emptyContext Map.empty] by (simp add: literalEnv_def)
qed

end
