(* ===== verification/WorkflowInline.thy ===== *)
theory WorkflowInline
  imports WorkflowRuns
begin

text \<open>
  Sub-executions and the lint (\<open>runbook-server/internal/workflow/definition_lint.go\<close>, with
  \<open>tasks/scripting/executors/script_login.go\<close>): a list of tasks starts exactly if its dependencies exist and
  have no cycle; the tasks of a group or of a loop iteration keep this under their new names; a branch
  of a switch starts exactly if it has no dependencies, which is what the lint looks at.

  Arguments: the compiled patterns of \<open>loginPatterns\<close> with what each reports. The text of a warning is
  left out.
\<close>

section \<open>The lint\<close>

record LintWarning =
  lw_Code :: string
  lw_TaskID :: string

definition LintScriptLoginCode :: string where "LintScriptLoginCode = ''script_login_code''"
definition LintSwitchTargetDependsOn :: string where "LintSwitchTargetDependsOn = ''switch_target_depends_on''"

definition awsKeyNames :: "string list" where
  "awsKeyNames = [''AWS_ACCESS_KEY_ID'', ''AWS_SECRET_ACCESS_KEY'', ''AWS_SESSION_TOKEN'']"

definition ScriptLogin :: "(string \<times> (string \<Rightarrow> bool)) list \<Rightarrow> string \<Rightarrow> (string \<times> string) list \<Rightarrow> string" where
  "ScriptLogin loginPatterns script env =
     (case find (\<lambda>(what, re). re script) loginPatterns of
        Some (what, re) \<Rightarrow> what
      | None \<Rightarrow> if \<exists>(k, v)\<in>set env. ToUpper k \<in> set awsKeyNames then ''AWS access keys'' else '''')"

definition stringEnv :: "(any \<Rightarrow> string) \<Rightarrow> any \<Rightarrow> (string \<times> string) list" where
  "stringEnv fmtv raw = (case asObj raw of Some m \<Rightarrow> map (\<lambda>(k, v). (k, Sprintv fmtv v)) m | None \<Rightarrow> [])"

definition branchTargets :: "Task \<Rightarrow> string list" where
  "branchTargets t =
     filter (\<lambda>n. n \<noteq> '''') (map (\<lambda>cm. strOr cm ''next'') (List.map_filter asObj (casesOf (task_Params t))) @
       [strOr (task_Params t) ''default_next''])"

definition switchBranches :: "Task list \<Rightarrow> (string \<rightharpoonup> string)" where
  "switchBranches tasks = foldl (\<lambda>m t. foldl (\<lambda>m n. m(n \<mapsto> task_ID t)) m (branchTargets t)) Map.empty tasks"

definition lintTask :: "(string \<times> (string \<Rightarrow> bool)) list \<Rightarrow> (any \<Rightarrow> string) \<Rightarrow> (string \<rightharpoonup> string) \<Rightarrow> Task \<Rightarrow> LintWarning list" where
  "lintTask pats fmtv branchOf t =
     (if task_Type t = ''scripting.run_script'' \<and>
         ScriptLogin pats (strOr (task_Params t) ''script'') (stringEnv fmtv (getAny (task_Params t) ''env'')) \<noteq> ''''
      then [\<lparr>lw_Code = LintScriptLoginCode, lw_TaskID = task_ID t\<rparr>] else []) @
     (if branchOf (task_ID t) \<noteq> None \<and> task_DependsOn t \<noteq> []
      then [\<lparr>lw_Code = LintSwitchTargetDependsOn, lw_TaskID = task_ID t\<rparr>] else [])"

function lintEach :: "(string \<times> (string \<Rightarrow> bool)) list \<Rightarrow> (any \<Rightarrow> string) \<Rightarrow> (string \<rightharpoonup> string) \<Rightarrow> Task list \<Rightarrow> LintWarning list"
  and lintTasks :: "(string \<times> (string \<Rightarrow> bool)) list \<Rightarrow> (any \<Rightarrow> string) \<Rightarrow> Task list \<Rightarrow> LintWarning list"
where
  "lintEach pats fmtv branchOf [] = []"
| "lintEach pats fmtv branchOf (t # ts) =
     lintTask pats fmtv branchOf t @
     (if task_Tasks t \<noteq> [] then lintTasks pats fmtv (task_Tasks t) else []) @
     (if task_Type t = ''core.foreach'' \<and> task_ParamTasks t \<noteq> [] then lintTasks pats fmtv (task_ParamTasks t) else []) @
     lintEach pats fmtv branchOf ts"
| "lintTasks pats fmtv tasks = lintEach pats fmtv (switchBranches tasks) tasks"
  by pat_completeness auto
termination
proof (relation "measures
    [\<lambda>x. case x of Inl (pats, fmtv, br, ts) \<Rightarrow> size_list size ts | Inr (pats, fmtv, ts) \<Rightarrow> size_list size ts,
     \<lambda>x. case x of Inl _ \<Rightarrow> 0 | Inr _ \<Rightarrow> 1]", goal_cases)
  case (2 pats fmtv br t ts)
  then show ?case by (cases t) simp
next
  case (3 pats fmtv br t ts)
  then show ?case by (cases t) simp
qed auto

definition LintDefinition :: "(string \<times> (string \<Rightarrow> bool)) list \<Rightarrow> (any \<Rightarrow> string) \<Rightarrow> Task list \<Rightarrow> LintWarning list" where
  "LintDefinition pats fmtv tasks = lintTasks pats fmtv tasks"

declare lintTasks.simps [simp del]

lemma lintEach_mem: "t \<in> set ts \<Longrightarrow> set (lintTask pats fmtv br t) \<subseteq> set (lintEach pats fmtv br ts)"
  by (induction ts) auto

lemma dom_foldl_upd: "dom (foldl (\<lambda>m n. m(n \<mapsto> v)) m ns) = dom m \<union> set ns"
  by (induction ns arbitrary: m) auto

lemma asObj_Some: "asObj c = Some cm \<longleftrightarrow> c = AObj cm"
  by (cases c) auto

lemma dom_switchBranches: "dom (switchBranches ts) = collectSwitchTargetTaskIDs ts"
proof -
  have c: "caseTargets cs = {n. n \<noteq> '''' \<and> (\<exists>cm. AObj cm \<in> set cs \<and> n = strOr cm ''next'')}" for cs
  proof (rule set_eqI)
    fix n
    have eq: "n \<in> (case asObj c of None \<Rightarrow> {} | Some cm \<Rightarrow> {strOr cm ''next''} - {''''}) \<longleftrightarrow>
        (\<exists>cm. c = AObj cm \<and> n \<noteq> '''' \<and> n = strOr cm ''next'')" for c
      by (cases c) auto
    show "n \<in> caseTargets cs \<longleftrightarrow> n \<in> {n. n \<noteq> '''' \<and> (\<exists>cm. AObj cm \<in> set cs \<and> n = strOr cm ''next'')}"
      by (simp only: caseTargets_def UN_iff eq mem_Collect_eq) blast
  qed
  have "set (branchTargets t) = caseTargets (casesOf (task_Params t)) \<union> ({strOr (task_Params t) ''default_next''} - {''''})" for t
    by (auto simp: branchTargets_def c set_map_filter_asObj)
  moreover have "dom (foldl (\<lambda>m t. foldl (\<lambda>m n. m(n \<mapsto> task_ID t)) m (branchTargets t)) m ts) =
      dom m \<union> (\<Union>t\<in>set ts. set (branchTargets t))" for m
    by (induction ts arbitrary: m) (auto simp: dom_foldl_upd)
  ultimately show ?thesis by (simp add: switchBranches_def collectSwitchTargetTaskIDs_def)
qed

section \<open>The routing activity\<close>

text \<open>\<open>Execute\<close> of the switch task; \<open>marshal\<close> is the JSON encoding of a task.\<close>

definition switchExecute ::
  "(any \<Rightarrow> string) \<Rightarrow> (any \<Rightarrow> string + Task list) \<Rightarrow> (Task \<Rightarrow> any) \<Rightarrow> object \<Rightarrow> string + any" where
  "switchExecute fmtv um marshal params =
     (case GetChildWorkflowDefinition fmtv um params of
        Inl err \<Rightarrow> Inl err
      | Inr d \<Rightarrow>
          (let embedded = filter (\<lambda>t. task_Type t \<noteq> '''') (def_Tasks d)
           in Inr (AObj
             ((case getStr (def_Output d) ''selected_case'' of Some sc \<Rightarrow> [(''selected_case'', AStr sc)] | None \<Rightarrow> []) @
              [(''routed_to'', AArr (map (\<lambda>t. AStr (task_ID t)) (def_Tasks d)))] @
              (if embedded \<noteq> [] then [(''embedded_tasks'', AArr (map marshal embedded))] else [])))))"

lemma switch_output_shape:
  assumes "GetChildWorkflowDefinition fmtv um params = Inr d"
  shows "def_Output d = [] \<or> (\<exists>sc. def_Output d = [(''selected_case'', AStr sc)])"
proof -
  have m: "def_Output d = [] \<or> (\<exists>sc. def_Output d = [(''selected_case'', AStr sc)])"
    if "matchCase fmtv um cs ev = Some (Inr d)" for cs ev d
    using that
    by (induction cs) (auto simp: resolveCase_def newSwitchResult_def Let_def split: option.splits if_splits sum.splits)
  show ?thesis
    using assms
    by (auto simp: GetChildWorkflowDefinition_def getChildWorkflowFromExpression_def getChildWorkflowFromConditions_def
        resolveDefault_def newSwitchResult_def dest!: m split: if_splits option.splits sum.splits)
qed

section \<open>When a list of tasks starts\<close>

lemma TopologicalSort_covers:
  assumes "TopologicalSort ord ts = Inr out" "distinct (map task_ID ts)" "\<And>ks. set (ord ks) = set ks"
  shows "set ts \<subseteq> set out"
proof -
  obtain r where r: "runTopologicalSort ord ts = Some r" using runTopologicalSort_total [of ord ts] assms(3) by blast
  then have "runTopologicalSort ord ts = Some (Inr out)" using assms(1) by (simp add: TopologicalSort_def)
  then obtain st where d: "dfsAll (length (taskNames ts)) (taskGraph ts) (ord (remdups (map task_ID ts))) startState = Some (st, None)"
    and out: "out = map (map_get zeroTask (taskMap ts)) (finished st)"
    by (auto simp: runTopologicalSort_def split: option.splits)
  have "dfsInv (taskGraph ts) startState" "visiting startState = {}" by (simp_all add: dfsInv_def startState_def)
  from dfsAll_sound [OF this d] have "task_ID ` set ts \<subseteq> set (finished st)" using assms(3) by (auto simp: dfsInv_def)
  moreover have "map_get zeroTask (taskMap ts) (task_ID t) = t" if "t \<in> set ts" for t
    using taskGraph_lookup(2) [OF assms(2) that] by (simp add: map_get_def)
  ultimately show ?thesis unfolding out by (force simp: image_iff)
qed

lemma startLoopState_iff:
  assumes dist: "distinct (map task_ID ts)" and ord: "\<And>ks. set (le_ord env ks) = set ks"
    and names: "\<And>t. t \<in> set ts \<Longrightarrow> '''' \<notin> set (task_DependsOn t)"
  shows "(\<exists>s. startLoopState env ts c tokens = Inr s) \<longleftrightarrow>
    (\<forall>t\<in>set ts. set (task_DependsOn t) \<subseteq> task_ID ` set ts) \<and> acyclic (depends ts)"
    (is "?starts \<longleftrightarrow> ?deps \<and> acyclic (depends ts)")
proof
  assume ?starts
  then obtain out where out: "TopologicalSort (le_ord env) ts = Inr out" "missingDeps out = []"
    by (auto simp: startLoopState_def Let_def split: sum.splits if_splits)
  have sub: "set ts \<subseteq> set out" "set out \<subseteq> insert zeroTask (set ts)"
    using TopologicalSort_covers [OF out(1) dist ord] TopologicalSort_tasks [OF out(1) _ ord] by auto
  have d: ?deps
  proof (intro ballI subsetI)
    fix t d assume t: "t \<in> set ts" "d \<in> set (task_DependsOn t)"
    then have "d \<in> task_ID ` set out" using out(2) sub(1) by (force simp: missingDeps_def filter_empty_conv)
    moreover have "d \<noteq> ''''" using names t by blast
    ultimately show "d \<in> task_ID ` set ts" using sub(2) by (auto simp: zeroTask_def)
  qed
  obtain r where "runTopologicalSort (le_ord env) ts = Some r"
      "case r of Inl e \<Rightarrow> \<not> acyclic (depends ts) | Inr out \<Rightarrow> acyclic (depends ts)"
    using runTopologicalSort_spec [OF dist d ord] by (fastforce split: sum.splits)
  then show "?deps \<and> acyclic (depends ts)" using out(1) d by (simp add: TopologicalSort_def)
next
  assume r: "?deps \<and> acyclic (depends ts)"
  then obtain out where "TopologicalSort (le_ord env) ts = Inr out" "mset out = mset ts"
    using runTopologicalSort_spec [OF dist _ ord] by (fastforce simp: TopologicalSort_def split: sum.splits)
  moreover from this have "set out = set ts" by (metis set_mset_mset)
  then have "missingDeps out = []" using r by (force simp: missingDeps_def filter_empty_conv)
  ultimately show ?starts by (simp add: startLoopState_def Let_def)
qed

section \<open>Renamed tasks\<close>

lemma acyclic_inv_image:
  assumes "acyclic r"
  shows "acyclic (inv_image r f)"
proof -
  have "(f x, f y) \<in> r\<^sup>+" if "(x, y) \<in> (inv_image r f)\<^sup>+" for x y
    using that by induction (auto simp: in_inv_image intro: trancl.intros)
  then show ?thesis using assms by (auto simp: acyclic_def)
qed

definition prefixed :: "string \<Rightarrow> Task \<Rightarrow> Task" where
  "prefixed pre t = withIdentity (pre @ task_ID t) (task_DependsOn t) t"

lemma withIdentity_fields [simp]:
  "task_ID (withIdentity i ds t) = i" "task_DependsOn (withIdentity i ds t) = ds" "task_Type (withIdentity i ds t) = task_Type t"
  "task_Tasks (withIdentity i ds t) = task_Tasks t" "task_ParamTasks (withIdentity i ds t) = task_ParamTasks t"
  by (simp_all add: withIdentity_def)

lemma renamed_lookup:
  "snd (renameTasks f ts) = map_of (rev (map (\<lambda>t. (task_ID t, task_ID (f t))) ts))"
  by (simp add: renameTasks_def Let_def foldl_map_upds)

lemma renamed_prefixed:
  assumes "d \<in> task_ID ` set ts"
  shows "snd (renameTasks (prefixed pre) ts) d = Some (pre @ d)"
proof -
  have "d \<in> dom (snd (renameTasks (prefixed pre) ts))"
    using assms by (simp add: renamed_lookup dom_map_of_conv_image_fst image_image)
  then obtain n where n: "snd (renameTasks (prefixed pre) ts) d = Some n" by blast
  then have "(d, n) \<in> set (map (\<lambda>t. (task_ID t, task_ID (prefixed pre t))) ts)"
    by (metis map_of_SomeD renamed_lookup rev_map set_rev)
  then show ?thesis using n by (auto simp: prefixed_def)
qed

lemma renameTasks_prefixed:
  assumes "\<forall>t\<in>set ts. set (task_DependsOn t) \<subseteq> task_ID ` set ts"
  shows "fst (renameTasks (prefixed pre) ts) =
    map (\<lambda>t. withIdentity (pre @ task_ID t) (map ((@) pre) (task_DependsOn t)) t) ts"
proof -
  have "rewire (snd (renameTasks (prefixed pre) ts)) (prefixed pre t) =
      withIdentity (pre @ task_ID t) (map ((@) pre) (task_DependsOn t)) t" if "t \<in> set ts" for t
  proof -
    have "\<forall>d\<in>set (task_DependsOn t). snd (renameTasks (prefixed pre) ts) d = Some (pre @ d)"
      using assms that renamed_prefixed by blast
    then have "map (\<lambda>d. case snd (renameTasks (prefixed pre) ts) d of None \<Rightarrow> d | Some n \<Rightarrow> n) (task_DependsOn t) =
        map ((@) pre) (task_DependsOn t)"
      by (intro map_cong) auto
    then show ?thesis by (simp add: rewire_def prefixed_def withIdentity_def)
  qed
  then show ?thesis by (simp add: renameTasks_def Let_def)
qed

lemma wellFormed_prefixed:
  assumes "wellFormed ts"
  shows "wellFormed (fst (renameTasks (prefixed pre) ts))"
proof -
  note w = assms [unfolded wellFormed_iff [of ts]]
  have ex: "\<forall>t\<in>set ts. set (task_DependsOn t) \<subseteq> task_ID ` set ts" using w by blast
  let ?r = "map (\<lambda>t. withIdentity (pre @ task_ID t) (map ((@) pre) (task_DependsOn t)) t) ts"
  have ids: "task_ID ` set ?r = (@) pre ` task_ID ` set ts" by (auto simp: image_image)
  have "depends ?r \<subseteq> inv_image (depends ts) (drop (length pre))" by (fastforce simp: depends_def in_inv_image)
  then have "acyclic (depends ?r)" using w acyclic_inv_image acyclic_subset by blast
  moreover have "distinct (map task_ID ?r)" using w by (auto simp: comp_def distinct_map inj_on_def)
  moreover have "\<forall>t\<in>set ?r. set (task_DependsOn t) \<subseteq> task_ID ` set ?r" unfolding ids using ex by (simp add: image_mono)
  ultimately have "wellFormed ?r" unfolding wellFormed_iff [of ?r] using w by auto
  then show ?thesis by (simp add: renameTasks_prefixed [OF ex])
qed

text \<open>The tasks of a group and of an iteration are renamed this way.\<close>

lemma hydrate_typed:
  assumes "\<forall>t\<in>set ts. task_Type t \<noteq> ''''"
  shows "renameTasks (hydrateTask env task) ts = renameTasks (prefixed (task_ID task @ ''-'')) ts"
proof -
  have "\<forall>t\<in>set ts. hydrateTask env task t = prefixed (task_ID task @ ''-'') t"
    using assms by (auto simp: hydrateTask_def prefixed_def)
  moreover from this have "foldl (\<lambda>m t. m(task_ID t \<mapsto> task_ID (hydrateTask env task t))) Map.empty ts =
      foldl (\<lambda>m t. m(task_ID t \<mapsto> task_ID (prefixed (task_ID task @ ''-'') t))) Map.empty ts"
    by (intro foldl_cong) auto
  ultimately show ?thesis by (simp add: renameTasks_def Let_def)
qed

lemma iterationTasks_prefixed:
  "iterationTasks task idx body = renameTasks (prefixed (task_ID task @ ''-'' @ Itoa (int idx) @ ''-'')) body"
  unfolding iterationTasks_def by (rule arg_cong [where f = "\<lambda>f. renameTasks f body"]) (simp add: prefixed_def fun_eq_iff)

lemma wellFormed_starts_any:
  assumes "wellFormed ts" "\<And>ks. set (le_ord env ks) = set ks"
  shows "\<exists>s. startLoopState env ts c tokens = Inr s"
  using wellFormed_starts [OF assms] by metis

lemma digits_digit: "c \<in> set (digits n) \<Longrightarrow> 48 \<le> (of_char c :: nat) \<and> (of_char c :: nat) \<le> 57"
proof (induction n rule: digits.induct)
  case (1 n)
  show ?case
  proof (cases "n < 10")
    case True
    then have "c = char_of (48 + n)" using "1.prems" by (subst (asm) digits.simps) simp
    then show ?thesis using True by simp
  next
    case False
    then have "c \<in> set (digits (n div 10)) \<or> c = char_of (48 + n mod 10)"
      using "1.prems" by (subst (asm) digits.simps) auto
    then show ?thesis using 1(1) [OF False] by auto
  qed
qed

lemma Itoa_no_dash: "CHR ''-'' \<notin> set (Itoa (int n))"
proof
  assume "CHR ''-'' \<in> set (Itoa (int n))"
  then have "48 \<le> (of_char (CHR ''-'') :: nat)" using digits_digit [of "CHR ''-''" n] by (simp add: Itoa_def)
  then show False by simp
qed

lemma iteration_name_inj:
  assumes "pre @ ''-'' @ Itoa (int a) @ ''-'' @ x = pre @ ''-'' @ Itoa (int b) @ ''-'' @ y"
  shows "a = b \<and> x = y"
proof -
  have e: "Itoa (int a) @ ''-'' @ x = Itoa (int b) @ ''-'' @ y" using assms by simp
  have "takeWhile (\<lambda>c. c \<noteq> CHR ''-'') (Itoa (int n) @ ''-'' @ z) = Itoa (int n)" for n z
    using Itoa_no_dash [of n] by (subst takeWhile_append2) auto
  with e have "Itoa (int a) = Itoa (int b)" by metis
  then show ?thesis using e digits_inj by (auto simp: Itoa_def)
qed

lemma prefixed_ids:
  assumes "wellFormed ts"
  shows "map task_ID (fst (renameTasks (prefixed pre) ts)) = map (\<lambda>t. pre @ task_ID t) ts"
  using assms unfolding wellFormed_iff [of ts] by (simp add: renameTasks_prefixed)

lemma distinct_concat_upt:
  assumes "\<And>i. distinct (f i)" "\<And>i j. i \<noteq> j \<Longrightarrow> set (f i) \<inter> set (f j) = {}"
  shows "distinct (concat (map f [0..<n]))"
proof (induction n)
  case (Suc n)
  have "set (f i) \<inter> set (f n) = {}" if "i < n" for i using assms(2) [of i n] that by simp
  moreover have "set (concat (map f [0..<n])) = (\<Union>i<n. set (f i))" by auto
  ultimately have "set (concat (map f [0..<n])) \<inter> set (f n) = {}" by blast
  then show ?case using Suc assms(1) by simp
qed simp

section \<open>Properties\<close>

text \<open>C18: A group whose tasks were accepted starts: the executor gives its tasks new names, prefixed by the
group, and the sub-execution of the renamed tasks gets past its own checks, so the dependencies
inside the group survive the renaming.\<close>

theorem group_starts:
  assumes "map_of (task_Params task) ''cases'' = None" "an_childDef an task p = Inr d"
    "ValidateDAG ord (def_Tasks d) = None" "\<forall>t\<in>set (def_Tasks d). task_Type t \<noteq> ''''"
    "\<And>ks. set (ord ks) = set ks" "\<And>ks. set (le_ord env ks) = set ks"
  shows "\<exists>s' ts renamed sub. startInline env an task p s = Inr s' \<and>
    ls_futures s' (task_ID task) = Some (SubExecution task ts renamed d) \<and>
    map task_ID ts = map (\<lambda>t. task_ID task @ ''-'' @ task_ID t) (def_Tasks d) \<and>
    startLoopState env ts c tokens = Inr sub"
proof -
  let ?r = "renameTasks (prefixed (task_ID task @ ''-'')) (def_Tasks d)"
  have wf: "wellFormed (def_Tasks d)" using ValidateDAG_iff(2) [of ord "def_Tasks d"] assms(3,5) by blast
  obtain sub where "startLoopState env (fst ?r) c tokens = Inr sub"
    using wellFormed_starts_any [OF wellFormed_prefixed [OF wf]] assms(6) by blast
  moreover have "startInline env an task p s = Inr (startWait (task_ID task) (SubExecution task (fst ?r) (snd ?r) d) s)"
    by (simp add: startInline_def assms(1,2) hydrate_typed [OF assms(4)] Let_def split: prod.split)
  ultimately show ?thesis using prefixed_ids [OF wf, of "task_ID task @ ''-''"] by (auto simp: startWait_def startFuture_def)
qed

definition twoSteps :: "Task list" where
  "twoSteps = [plainTask ''y'' ''core.print'' [] [] [] [] [] [''x''], plainTask ''x'' ''core.print'' [] [] [] [] [] []]"

definition groupTask :: Task where
  "groupTask = plainTask ''g'' ''core.group'' [] twoSteps [] [] [] []"

theorem group_starts_witness:
  "\<exists>s' ts renamed sub.
    startInline literalEnv (noAnswers\<lparr>an_childDef := \<lambda>t p. Inr \<lparr>def_Tasks = twoSteps, def_Output = []\<rparr>\<rparr>) groupTask []
      (snd (startOf literalEnv [groupTask])) = Inr s' \<and>
    ls_futures s' (task_ID groupTask) = Some (SubExecution groupTask ts renamed \<lparr>def_Tasks = twoSteps, def_Output = []\<rparr>) \<and>
    map task_ID ts = map (\<lambda>t. task_ID groupTask @ ''-'' @ task_ID t) (def_Tasks \<lparr>def_Tasks = twoSteps, def_Output = []\<rparr>) \<and>
    startLoopState literalEnv ts emptyContext Map.empty = Inr sub"
proof (rule group_starts [where ord = id])
  show "ValidateDAG id (def_Tasks \<lparr>def_Tasks = twoSteps, def_Output = []\<rparr>) = None" by code_simp
qed (simp_all add: groupTask_def twoSteps_def literalEnv_def)

text \<open>The iterations of a loop over an accepted body start, and no two tasks of any of its iterations share a
name.\<close>

theorem iterations_start_apart:
  assumes "ValidateDAG ord body = None" "\<And>ks. set (ord ks) = set ks" "\<And>ks. set (le_ord env ks) = set ks"
  shows "(\<exists>sub. startLoopState env (fst (iterationTasks task idx body)) c tokens = Inr sub) \<and>
    distinct (concat (map (\<lambda>idx. map task_ID (fst (iterationTasks task idx body))) [0..<n]))"
proof -
  have wf: "wellFormed body" using ValidateDAG_iff(2) [of ord body] assms(1,2) by blast
  then have dist: "distinct (map task_ID body)" unfolding wellFormed_iff [of body] by blast
  let ?ids = "\<lambda>i. map (\<lambda>t. task_ID task @ ''-'' @ Itoa (int i) @ ''-'' @ task_ID t) body"
  have ids: "map task_ID (fst (iterationTasks task i body)) = ?ids i" for i
    unfolding iterationTasks_prefixed prefixed_ids [OF wf] by simp
  have "distinct (?ids i)" for i using dist by (auto simp: distinct_map inj_on_def)
  moreover have "set (?ids i) \<inter> set (?ids j) = {}" if "i \<noteq> j" for i j
  proof (rule ccontr)
    assume "set (?ids i) \<inter> set (?ids j) \<noteq> {}"
    then obtain t u where "task_ID task @ ''-'' @ Itoa (int i) @ ''-'' @ task_ID t = task_ID task @ ''-'' @ Itoa (int j) @ ''-'' @ task_ID u"
      unfolding set_map by blast
    then show False using iteration_name_inj that by blast
  qed
  ultimately have "distinct (concat (map ?ids [0..<n]))" by (rule distinct_concat_upt)
  moreover have "\<exists>sub. startLoopState env (fst (iterationTasks task idx body)) c tokens = Inr sub"
    unfolding iterationTasks_prefixed by (rule wellFormed_starts_any [OF wellFormed_prefixed [OF wf]]) (rule assms(3))
  ultimately show ?thesis by (simp add: ids)
qed

theorem iterations_start_apart_witness:
  "(\<exists>sub. startLoopState literalEnv (fst (iterationTasks loopTask 1 twoSteps)) emptyContext Map.empty = Inr sub) \<and>
    distinct (concat (map (\<lambda>idx. map task_ID (fst (iterationTasks loopTask idx twoSteps))) [0..<12]))"
proof (rule iterations_start_apart [where ord = id])
  show "ValidateDAG id twoSteps = None" by code_simp
qed (simp_all add: literalEnv_def)

text \<open>C14: The lint foresees which branches of a switch cannot start. When a switch of an accepted definition
routes to a task, the sub-execution of that branch starts exactly if the task has no dependencies;
otherwise it is refused before anything runs, and the lint has warned of this task.\<close>

theorem lint_foresees_branch:
  assumes "wf_Tasks (le_wf env) = ts" "ValidateDAG ord ts = None" "'''' \<notin> task_ID ` set ts" "t \<in> set ts"
    "task_ID t \<in> collectSwitchTargetTaskIDs ts" "\<And>ks. set (ord ks) = set ks" "\<And>ks. set (le_ord env ks) = set ks"
  shows "if task_DependsOn t = []
    then \<exists>sub. startLoopState env (fst (renameTasks (hydrateTask env sw) [bareTask (task_ID t)])) c tokens = Inr sub
    else (\<exists>e. startLoopState env (fst (renameTasks (hydrateTask env sw) [bareTask (task_ID t)])) c tokens = Inl e) \<and>
      \<lparr>lw_Code = LintSwitchTargetDependsOn, lw_TaskID = task_ID t\<rparr> \<in> set (LintDefinition pats fmtv ts)"
proof -
  have wf: "wellFormed ts" using ValidateDAG_iff(2) [of ord ts] assms(2,6) by blast
  then have dist: "distinct (map task_ID ts)" and ex: "set (task_DependsOn t) \<subseteq> task_ID ` set ts" and ac: "acyclic (depends ts)"
    using assms(4) unfolding wellFormed_iff [of ts] by blast+
  define i where "i = task_ID sw @ ''-'' @ task_ID t"
  define w where "w = withIdentity i (map (\<lambda>d. if d = task_ID t then i else d) (task_DependsOn t)) t"
  have "taskMap ts (task_ID t) = Some t" using taskGraph_lookup(2) [OF dist assms(4)] .
  moreover have "task_ID t \<noteq> ''''" using assms(3,4) by (metis image_eqI)
  ultimately have r: "fst (renameTasks (hydrateTask env sw) [bareTask (task_ID t)]) = [w]"
    by (simp add: renameTasks_def hydrateTask_def assms(1) rewire_def withIdentity_def Let_def w_def i_def)
  have self: "task_ID t \<notin> set (task_DependsOn t)"
  proof
    assume "task_ID t \<in> set (task_DependsOn t)"
    then have "(task_ID t, task_ID t) \<in> depends ts" using assms(4) by (auto simp: depends_def)
    then show False using ac by (auto simp: acyclic_def)
  qed
  have w: "task_ID w = i" "task_DependsOn w = task_DependsOn t"
    using self by (auto simp: w_def intro: map_idI)
  have "'''' \<notin> set (task_DependsOn w)" using ex assms(3) by (auto simp: w)
  then have names: "'''' \<notin> set (task_DependsOn u)" if "u \<in> set [w]" for u using that by simp
  have iff: "(\<exists>s. startLoopState env [w] c tokens = Inr s) \<longleftrightarrow>
      set (task_DependsOn w) \<subseteq> {i} \<and> acyclic (depends [w])"
    using startLoopState_iff [where ts = "[w]" and c = c and tokens = tokens, OF _ assms(7) names] by (simp add: w)
  show ?thesis
  proof (cases "task_DependsOn t = []")
    case True
    then show ?thesis using iff by (simp add: r w depends_def acyclic_def)
  next
    case False
    have "\<not> (set (task_DependsOn w) \<subseteq> {i} \<and> acyclic (depends [w]))"
    proof
      assume a: "set (task_DependsOn w) \<subseteq> {i} \<and> acyclic (depends [w])"
      then have "i \<in> set (task_DependsOn w)" using False unfolding w by (cases "task_DependsOn t") auto
      then have "(i, i) \<in> depends [w]" by (simp add: depends_def w)
      then show False using a by (auto simp: acyclic_def)
    qed
    then have "\<exists>e. startLoopState env [w] c tokens = Inl e"
      using iff by (cases "startLoopState env [w] c tokens") auto
    moreover have "switchBranches ts (task_ID t) \<noteq> None" using assms(5) by (metis domIff dom_switchBranches)
    then have "\<lparr>lw_Code = LintSwitchTargetDependsOn, lw_TaskID = task_ID t\<rparr> \<in> set (lintTask pats fmtv (switchBranches ts) t)"
      using False by (simp add: lintTask_def)
    then have "\<lparr>lw_Code = LintSwitchTargetDependsOn, lw_TaskID = task_ID t\<rparr> \<in> set (LintDefinition pats fmtv ts)"
      using lintEach_mem [OF assms(4)] by (fastforce simp: LintDefinition_def lintTasks.simps)
    ultimately show ?thesis using False by (simp add: r)
  qed
qed

definition routedTasks :: "Task list" where
  "routedTasks =
     [plainTask ''s'' ''core.switch'' [(''expression'', AStr ''x''), (''cases'', AArr [AObj [(''value'', AStr ''x''), (''next'', AStr ''b'')]])]
        [] [] [] [] [],
      plainTask ''a'' ''core.print'' [] [] [] [] [] [],
      plainTask ''b'' ''core.print'' [] [] [] [] [] [''a'']]"

theorem lint_foresees_branch_witness:
  "(\<exists>e. startLoopState (literalEnv\<lparr>le_wf := (le_wf literalEnv)\<lparr>wf_Tasks := routedTasks\<rparr>\<rparr>)
      (fst (renameTasks (hydrateTask (literalEnv\<lparr>le_wf := (le_wf literalEnv)\<lparr>wf_Tasks := routedTasks\<rparr>\<rparr>) (routedTasks ! 0)) [bareTask ''b'']))
      emptyContext Map.empty = Inl e) \<and>
    \<lparr>lw_Code = LintSwitchTargetDependsOn, lw_TaskID = ''b''\<rparr> \<in> set (LintDefinition [] (\<lambda>v. '''') routedTasks)"
proof -
  have "ValidateDAG id routedTasks = None" by code_simp
  moreover have "task_ID (routedTasks ! 2) \<in> collectSwitchTargetTaskIDs routedTasks" by code_simp
  moreover have "'''' \<notin> task_ID ` set routedTasks" by code_simp
  moreover have "routedTasks ! 2 \<in> set routedTasks" "task_ID (routedTasks ! 2) = ''b''" "task_DependsOn (routedTasks ! 2) \<noteq> []"
    by (simp_all add: routedTasks_def)
  ultimately show ?thesis
    using lint_foresees_branch [of "literalEnv\<lparr>le_wf := (le_wf literalEnv)\<lparr>wf_Tasks := routedTasks\<rparr>\<rparr>" routedTasks id "routedTasks ! 2"
        "routedTasks ! 0" emptyContext Map.empty "[]" "\<lambda>v. ''''"]
    by (simp add: literalEnv_def)
qed


text \<open>What the executor rebuilds from the result of the routing activity is what the switch decided: for a
branch routed by name, and for one that embeds its tasks, the same tasks and the same case,
provided the embedded tasks survive their JSON encoding.\<close>

theorem routing_roundtrip:
  assumes "GetChildWorkflowDefinition fmtv um params = Inr d"
    "le_unmarshalTasks env (map marshal (filter (\<lambda>t. task_Type t \<noteq> '''') (def_Tasks d))) = filter (\<lambda>t. task_Type t \<noteq> '''') (def_Tasks d)"
    "(\<forall>t\<in>set (def_Tasks d). task_Type t \<noteq> '''') \<or> (\<forall>t\<in>set (def_Tasks d). t = bareTask (task_ID t))"
  shows "\<exists>raw. switchExecute fmtv um marshal params = Inr raw \<and> buildRoutingDef env raw = d"
proof -
  have ids: "List.map_filter asStr (map (\<lambda>t. AStr (task_ID t)) ts) = map task_ID ts" for ts :: "Task list"
    by (induction ts) (simp_all add: List.map_filter_simps)
  let ?emb = "filter (\<lambda>t. task_Type t \<noteq> '''') (def_Tasks d)"
  let ?tail = "if ?emb \<noteq> [] then [(''embedded_tasks'', AArr (map marshal ?emb))] else []"
  let ?raw = "def_Output d @ (''routed_to'', AArr (map (\<lambda>t. AStr (task_ID t)) (def_Tasks d))) # ?tail"
  have shape: "def_Output d = [] \<or> (\<exists>sc. def_Output d = [(''selected_case'', AStr sc)])"
    by (rule switch_output_shape [OF assms(1)])
  then have out: "(case getStr m ''selected_case'' of Some sc \<Rightarrow> [(''selected_case'', AStr sc)] | None \<Rightarrow> []) = def_Output d"
    if "m = def_Output d \<or> m = ?raw" for m
    using that by (auto simp: getStr_def)
  have "asArr (getAny ?raw ''routed_to'') = Some (map (\<lambda>t. AStr (task_ID t)) (def_Tasks d))" using shape by (auto simp: getAny_def)
  moreover have "asArr (getAny ?raw ''embedded_tasks'') = (if ?emb \<noteq> [] then Some (map marshal ?emb) else None)"
    using shape by (auto simp: getAny_def)
  ultimately have "buildRoutingDef env (AObj ?raw) =
      \<lparr>def_Tasks = if ?emb \<noteq> [] then ?emb else map (\<lambda>t. bareTask (task_ID t)) (def_Tasks d), def_Output = def_Output d\<rparr>"
    using out [of ?raw] by (simp add: buildRoutingDef_def Let_def ids assms(2))
  moreover have "(if ?emb \<noteq> [] then ?emb else map (\<lambda>t. bareTask (task_ID t)) (def_Tasks d)) = def_Tasks d"
  proof (cases "\<forall>t\<in>set (def_Tasks d). task_Type t \<noteq> ''''")
    case True
    then show ?thesis by (cases "def_Tasks d") simp_all
  next
    case False
    then have b: "\<forall>t\<in>set (def_Tasks d). t = bareTask (task_ID t)" using assms(3) by blast
    then have "\<forall>t\<in>set (def_Tasks d). task_Type t = ''''" by (metis Task.sel(2))
    then have "?emb = []" by (simp add: filter_empty_conv)
    moreover have "map (\<lambda>t. bareTask (task_ID t)) (def_Tasks d) = def_Tasks d" using b by (intro map_idI) auto
    ultimately show ?thesis by simp
  qed
  moreover have "switchExecute fmtv um marshal params = Inr (AObj ?raw)"
    using out [of "def_Output d"] by (simp add: switchExecute_def assms(1) Let_def)
  ultimately show ?thesis by simp
qed

definition embeddedSwitch :: object where
  "embeddedSwitch = [(''expression'', AStr ''x''), (''cases'', AArr [AObj [(''value'', AStr ''x''), (''tasks'', AArr [])]])]"

theorem routing_roundtrip_witness:
  "\<exists>raw. switchExecute (\<lambda>v. '''') (\<lambda>v. Inr twoSteps) (\<lambda>t. AStr (task_ID t)) embeddedSwitch = Inr raw \<and>
    buildRoutingDef (literalEnv\<lparr>le_unmarshalTasks := \<lambda>l. twoSteps\<rparr>) raw =
      \<lparr>def_Tasks = twoSteps, def_Output = [(''selected_case'', AStr ''x'')]\<rparr>"
proof (rule routing_roundtrip)
  show "GetChildWorkflowDefinition (\<lambda>v. '''') (\<lambda>v. Inr twoSteps) embeddedSwitch =
      Inr \<lparr>def_Tasks = twoSteps, def_Output = [(''selected_case'', AStr ''x'')]\<rparr>" by code_simp
qed (simp_all add: twoSteps_def)

end
