(* ===== verification/WorkflowCodec.thy ===== *)
theory WorkflowCodec
  imports GoStrings "HOL-Library.AList"
begin

text \<open>
  The payload codecs of the workflow engine: compression (\<open>internal/workflow/codec.go\<close>), encryption
  with key rotation (\<open>internal/workflow/encryption_codec.go\<close>) and the order they are chained in
  (\<open>cmd/main.go\<close>).

  The zlib stream, the AEAD of a key, the bytes of a payload message and the random nonces are
  arguments; what the codecs rely on (reading back what was written) appears as hypotheses. The
  metadata of a payload is an association list in the order Go iterates the map.
\<close>

record Payload =
  Metadata :: "(string \<times> string) list"
  Data :: string

text \<open>A loop over payloads that returns at the first error.\<close>

fun mapE :: "('a \<Rightarrow> 'e + 'b) \<Rightarrow> 'a list \<Rightarrow> 'e + 'b list" where
  "mapE f [] = Inr []"
| "mapE f (x # xs) =
     (case f x of
        Inl e \<Rightarrow> Inl e
      | Inr y \<Rightarrow> (case mapE f xs of Inl e \<Rightarrow> Inl e | Inr ys \<Rightarrow> Inr (y # ys)))"

definition metaGet :: "Payload \<Rightarrow> string \<Rightarrow> string" where
  "metaGet p k = (case map_of (Metadata p) k of None \<Rightarrow> '''' | Some v \<Rightarrow> v)"

definition MetadataEncoding :: string where "MetadataEncoding = ''encoding''"
definition originalEncoding :: string where "originalEncoding = ''original-encoding''"
definition zlibEncoding :: string where "zlibEncoding = ''binary/zlib''"

section \<open>Compression\<close>

record zlib =
  zlibWrite :: "string \<Rightarrow> string + string"
  zlibRead :: "string \<Rightarrow> string + string"

definition NewCompressionCodec :: "int \<Rightarrow> nat" where
  "NewCompressionCodec minSize = (if minSize \<le> 0 then 128 else nat minSize)"

definition compressMeta :: "(string \<times> string) list \<Rightarrow> (string \<times> string) list" where
  "compressMeta m =
     foldl (\<lambda>out (k, v). AList.update (if k = MetadataEncoding then originalEncoding else k) v out)
       [(MetadataEncoding, zlibEncoding)] m"

definition compressOne :: "zlib \<Rightarrow> nat \<Rightarrow> Payload \<Rightarrow> string + Payload" where
  "compressOne z minSize p =
     (if length (Data p) < minSize then Inr p
      else case zlibWrite z (Data p) of
        Inl err \<Rightarrow> Inl err
      | Inr buf \<Rightarrow> Inr \<lparr>Metadata = compressMeta (Metadata p), Data = buf\<rparr>)"

definition compressEncode :: "zlib \<Rightarrow> nat \<Rightarrow> Payload list \<Rightarrow> string + Payload list" where
  "compressEncode z minSize = mapE (compressOne z minSize)"

definition decompressMeta :: "(string \<times> string) list \<Rightarrow> (string \<times> string) list" where
  "decompressMeta m =
     foldl (\<lambda>out (k, v).
         if k = originalEncoding then AList.update MetadataEncoding v out
         else if k \<noteq> MetadataEncoding then AList.update k v out else out) [] m"

definition decompressOne :: "zlib \<Rightarrow> Payload \<Rightarrow> string + Payload" where
  "decompressOne z p =
     (if metaGet p MetadataEncoding \<noteq> zlibEncoding then Inr p
      else case zlibRead z (Data p) of
        Inl err \<Rightarrow> Inl err
      | Inr d \<Rightarrow> Inr \<lparr>Metadata = decompressMeta (Metadata p), Data = d\<rparr>)"

definition compressDecode :: "zlib \<Rightarrow> Payload list \<Rightarrow> string + Payload list" where
  "compressDecode z = mapE (decompressOne z)"

section \<open>Encryption\<close>

record AEAD =
  NonceSize :: nat
  Seal :: "string \<Rightarrow> string \<Rightarrow> string"
  Open :: "string \<Rightarrow> string \<Rightarrow> string + string"

record encryptionCodec =
  keys :: "string \<rightharpoonup> AEAD"
  primaryID :: string

definition encryptedEncoding :: string where "encryptedEncoding = ''binary/encrypted''"
definition metadataKeyID :: string where "metadataKeyID = ''key-id''"
definition legacyKeyID :: string where "legacyKeyID = ''''"

datatype codecError =
    NoKeysProvided
  | PrimaryKeyMissing string
  | InvalidKey string string
  | MarshalFailed string
  | NonceFailed string
  | NoKeyForID string
  | CiphertextTooShort
  | DecryptFailed string string
  | UnmarshalFailed string
  | NilDereference

text \<open>\<open>NewEncryptionCodec\<close>: \<open>newAEAD\<close> is the cipher of a raw key, or why the key is invalid.\<close>

definition NewEncryptionCodec ::
  "(string \<Rightarrow> string + AEAD) \<Rightarrow> (string \<times> string) list \<Rightarrow> string \<Rightarrow> codecError + encryptionCodec" where
  "NewEncryptionCodec newAEAD ks primary =
     (if ks = [] then Inl NoKeysProvided
      else if map_of ks primary = None then Inl (PrimaryKeyMissing primary)
      else case mapE (\<lambda>(i, key). case newAEAD key of Inl e \<Rightarrow> Inl (InvalidKey i e) | Inr a \<Rightarrow> Inr (i, a)) ks of
        Inl err \<Rightarrow> Inl err
      | Inr aeads \<Rightarrow> Inr \<lparr>keys = map_of aeads, primaryID = primary\<rparr>)"

record payloadFormat =
  Marshal :: "Payload \<Rightarrow> string + string"
  Unmarshal :: "string \<Rightarrow> string + Payload"

text \<open>The nonce of a payload is the next of the given list, or the error of the random source.\<close>

definition encryptOne ::
  "payloadFormat \<Rightarrow> encryptionCodec \<Rightarrow> AEAD \<Rightarrow> Payload \<times> (string + string) \<Rightarrow> codecError + Payload" where
  "encryptOne fmt c aead = (\<lambda>(p, rand).
     case Marshal fmt p of
       Inl e \<Rightarrow> Inl (MarshalFailed e)
     | Inr plaintext \<Rightarrow>
         (case rand of
            Inl e \<Rightarrow> Inl (NonceFailed e)
          | Inr nonce \<Rightarrow>
              Inr \<lparr>Metadata =
                     (if primaryID c \<noteq> legacyKeyID
                      then AList.update metadataKeyID (primaryID c) [(MetadataEncoding, encryptedEncoding)]
                      else [(MetadataEncoding, encryptedEncoding)]),
                   Data = nonce @ Seal aead nonce plaintext\<rparr>))"

definition encryptEncode ::
  "payloadFormat \<Rightarrow> encryptionCodec \<Rightarrow> (string + string) list \<Rightarrow> Payload list \<Rightarrow> codecError + Payload list" where
  "encryptEncode fmt c rands ps =
     (case keys c (primaryID c) of
        None \<Rightarrow> if ps = [] then Inr [] else Inl NilDereference
      | Some aead \<Rightarrow> mapE (encryptOne fmt c aead) (zip ps rands))"

definition decryptOne :: "payloadFormat \<Rightarrow> encryptionCodec \<Rightarrow> Payload \<Rightarrow> codecError + Payload" where
  "decryptOne fmt c p =
     (if metaGet p MetadataEncoding \<noteq> encryptedEncoding then Inr p
      else case keys c (metaGet p metadataKeyID) of
        None \<Rightarrow> Inl (NoKeyForID (metaGet p metadataKeyID))
      | Some aead \<Rightarrow>
          (let ns = NonceSize aead
           in if length (Data p) < ns then Inl CiphertextTooShort
              else case Open aead (take ns (Data p)) (drop ns (Data p)) of
                Inl e \<Rightarrow> Inl (DecryptFailed (metaGet p metadataKeyID) e)
              | Inr plaintext \<Rightarrow>
                  (case Unmarshal fmt plaintext of Inl e \<Rightarrow> Inl (UnmarshalFailed e) | Inr restored \<Rightarrow> Inr restored)))"

definition encryptDecode :: "payloadFormat \<Rightarrow> encryptionCodec \<Rightarrow> Payload list \<Rightarrow> codecError + Payload list" where
  "encryptDecode fmt c = mapE (decryptOne fmt c)"

section \<open>Round trips\<close>

lemmas codec_names = MetadataEncoding_def originalEncoding_def zlibEncoding_def encryptedEncoding_def metadataKeyID_def legacyKeyID_def


text \<open>Payloads with the same data and the same metadata, in whatever order the map lists it.\<close>

definition samePayload :: "Payload \<Rightarrow> Payload \<Rightarrow> bool" where
  "samePayload p q \<longleftrightarrow> Data p = Data q \<and> map_of (Metadata p) = map_of (Metadata q) \<and>
     distinct (map fst (Metadata p)) \<and> distinct (map fst (Metadata q))"

lemma map_of_snoc:
  assumes "k \<notin> fst ` set m"
  shows "map_of (m @ [(k, v)]) = (map_of m)(k \<mapsto> v)"
proof -
  have "map_of m k = None" using assms by (simp add: map_of_eq_None_iff)
  then show ?thesis by (auto simp: fun_eq_iff map_add_def split: option.split)
qed

lemma compressMeta_lookup:
  assumes "distinct (map fst m)" "originalEncoding \<notin> fst ` set m"
  shows "map_of (compressMeta m) k =
    (if k = MetadataEncoding then Some zlibEncoding
     else if k = originalEncoding then map_of m MetadataEncoding else map_of m k)"
  using assms
proof (induction m arbitrary: k rule: rev_induct)
  case (snoc e m)
  obtain i v where e: "e = (i, v)" by (cases e)
  have n: "i \<notin> fst ` set m" "i \<noteq> originalEncoding" using snoc.prems by (auto simp: e)
  have s: "compressMeta (m @ [e]) = AList.update (if i = MetadataEncoding then originalEncoding else i) v (compressMeta m)"
    by (simp add: compressMeta_def e)
  have o: "MetadataEncoding \<noteq> originalEncoding" by (simp add: codec_names)
  have IH: "map_of (compressMeta m) x =
    (if x = MetadataEncoding then Some zlibEncoding
     else if x = originalEncoding then map_of m MetadataEncoding else map_of m x)" for x
    using snoc by auto
  have "map_of (m @ [e]) = (map_of m)(i \<mapsto> v)" unfolding e by (rule map_of_snoc [OF n(1)])
  then show ?case unfolding s update_conv' using IH n(2) o by simp
qed (simp add: compressMeta_def codec_names)

lemma distinct_compressMeta: "distinct (map fst (compressMeta m))"
proof -
  have "distinct (map fst (foldl (\<lambda>out (k, v). AList.update (f k) v out) out m))" if "distinct (map fst out)"
    for f :: "string \<Rightarrow> string" and out using that
    by (induction m arbitrary: out) (auto simp: distinct_update)
  then show ?thesis by (simp add: compressMeta_def)
qed

lemma decompressMeta_lookup:
  assumes "distinct (map fst m)"
  shows "map_of (decompressMeta m) k =
    (if k = MetadataEncoding then map_of m originalEncoding else if k = originalEncoding then None else map_of m k)"
  using assms
proof (induction m arbitrary: k rule: rev_induct)
  case (snoc e m)
  obtain i v where e: "e = (i, v)" by (cases e)
  have n: "i \<notin> fst ` set m" using snoc.prems by (auto simp: e)
  have s: "decompressMeta (m @ [e]) = (if i = originalEncoding then AList.update MetadataEncoding v (decompressMeta m)
      else if i \<noteq> MetadataEncoding then AList.update i v (decompressMeta m) else decompressMeta m)"
    by (simp add: decompressMeta_def e)
  have o: "MetadataEncoding \<noteq> originalEncoding" by (simp add: codec_names)
  have IH: "map_of (decompressMeta m) x =
    (if x = MetadataEncoding then map_of m originalEncoding else if x = originalEncoding then None else map_of m x)" for x
    using snoc by auto
  have "map_of (m @ [e]) = (map_of m)(i \<mapsto> v)" unfolding e by (rule map_of_snoc [OF n])
  then show ?case unfolding s using IH o by (simp add: update_conv')
qed (simp add: decompressMeta_def)

lemma distinct_decompressMeta: "distinct (map fst (decompressMeta m))"
proof -
  have "distinct (map fst (foldl (\<lambda>out (k, v). if k = originalEncoding then AList.update MetadataEncoding v out
         else if k \<noteq> MetadataEncoding then AList.update k v out else out) out m))" if "distinct (map fst out)" for out
    using that by (induction m arbitrary: out) (auto simp: distinct_update)
  then show ?thesis by (simp add: decompressMeta_def)
qed

text \<open>What the compression codec can restore: no stray \<open>original-encoding\<close>, no small zlib payload.\<close>

definition restorable :: "nat \<Rightarrow> Payload \<Rightarrow> bool" where
  "restorable minSize p \<longleftrightarrow> distinct (map fst (Metadata p)) \<and> originalEncoding \<notin> fst ` set (Metadata p) \<and>
     (length (Data p) < minSize \<longrightarrow> metaGet p MetadataEncoding \<noteq> zlibEncoding)"

definition zlibLaw :: "zlib \<Rightarrow> bool" where
  "zlibLaw z \<longleftrightarrow> (\<forall>d b. zlibWrite z d = Inr b \<longrightarrow> zlibRead z b = Inr d)"

lemma decompressOne_compressOne:
  assumes "zlibLaw z" "restorable minSize p" "compressOne z minSize p = Inr q" "samePayload q q'"
  shows "\<exists>p'. decompressOne z q' = Inr p' \<and> samePayload p p'"
proof (cases "length (Data p) < minSize")
  case True
  then have "q = p" using assms(3) by (simp add: compressOne_def)
  moreover have "metaGet q' MetadataEncoding = metaGet q MetadataEncoding"
    using assms(4) by (simp add: metaGet_def samePayload_def)
  ultimately show ?thesis using True assms(2,4) by (auto simp: decompressOne_def restorable_def)
next
  case False
  obtain buf where buf: "zlibWrite z (Data p) = Inr buf" "q = \<lparr>Metadata = compressMeta (Metadata p), Data = buf\<rparr>"
    using assms(3) False by (auto simp: compressOne_def split: sum.splits)
  have p: "distinct (map fst (Metadata p))" "originalEncoding \<notin> fst ` set (Metadata p)"
    using assms(2) by (auto simp: restorable_def)
  have q': "map_of (Metadata q') = map_of (compressMeta (Metadata p))" "Data q' = buf" "distinct (map fst (Metadata q'))"
    using assms(4) buf(2) by (auto simp: samePayload_def)
  have "metaGet q' MetadataEncoding = zlibEncoding" by (simp add: metaGet_def q'(1) compressMeta_lookup [OF p])
  moreover have "zlibRead z buf = Inr (Data p)" using assms(1) buf(1) by (simp add: zlibLaw_def)
  ultimately have d: "decompressOne z q' = Inr \<lparr>Metadata = decompressMeta (Metadata q'), Data = Data p\<rparr>"
    by (simp add: decompressOne_def q'(2))
  have "map_of (Metadata p) originalEncoding = None" using p(2) by (simp add: map_of_eq_None_iff)
  then have "map_of (decompressMeta (Metadata q')) k = map_of (Metadata p) k" for k
    unfolding decompressMeta_lookup [OF q'(3)] q'(1) compressMeta_lookup [OF p]
    by (auto simp: codec_names)
  then have "samePayload p \<lparr>Metadata = decompressMeta (Metadata q'), Data = Data p\<rparr>"
    using p(1) by (auto simp: samePayload_def distinct_decompressMeta)
  with d show ?thesis by blast
qed

lemma compressDecode_compressEncode:
  assumes "zlibLaw z" "list_all (restorable minSize) ps" "compressEncode z minSize ps = Inr qs" "list_all2 samePayload qs qs'"
  shows "\<exists>ps'. compressDecode z qs' = Inr ps' \<and> list_all2 samePayload ps ps'"
  using assms(2-4)
proof (induction ps arbitrary: qs qs')
  case Nil
  then show ?case by (simp add: compressEncode_def compressDecode_def)
next
  case (Cons p ps)
  obtain q qs1 where q: "qs = q # qs1" "compressOne z minSize p = Inr q" "compressEncode z minSize ps = Inr qs1"
    using Cons.prems(2) by (auto simp: compressEncode_def split: sum.splits)
  then obtain q' qs2 where q': "qs' = q' # qs2" "samePayload q q'" "list_all2 samePayload qs1 qs2"
    using Cons.prems(3) by (auto simp: list_all2_Cons1)
  obtain p' where "decompressOne z q' = Inr p'" "samePayload p p'"
    using decompressOne_compressOne [OF assms(1) _ q(2) q'(2)] Cons.prems(1) by auto
  moreover obtain ps' where "compressDecode z qs2 = Inr ps'" "list_all2 samePayload ps ps'"
    using Cons.IH [OF _ q(3) q'(3)] Cons.prems(1) by auto
  ultimately show ?case by (simp add: compressDecode_def q'(1))
qed

text \<open>Compression loses nothing: whatever order the metadata is iterated in, decoding what the codec
encoded gives back the payloads, data and metadata, large and small alike.\<close>

theorem compression_roundtrip:
  assumes "zlibLaw z" "list_all (restorable minSize) ps" "compressEncode z minSize ps = Inr qs" "list_all2 samePayload qs qs'"
  shows "\<exists>ps'. compressDecode z qs' = Inr ps' \<and> list_all2 samePayload ps ps'"
  using assms by (rule compressDecode_compressEncode)

definition demoZlib :: zlib where
  "demoZlib = \<lparr>zlibWrite = (\<lambda>d. Inr (''x'' @ d)), zlibRead = (\<lambda>b. if b = [] then Inl ''zlib: invalid header'' else Inr (tl b))\<rparr>"

definition demoPayload :: Payload where
  "demoPayload = \<lparr>Metadata = [(''encoding'', ''json/plain''), (''messageType'', ''Task'')], Data = ''0123456789''\<rparr>"

lemma demoZlib_law: "zlibLaw demoZlib"
  by (simp add: zlibLaw_def demoZlib_def)

lemma demoPayload_restorable: "restorable n demoPayload"
  by (simp add: restorable_def demoPayload_def codec_names metaGet_def)

theorem compression_roundtrip_witness:
  "\<exists>qs ps'. compressEncode demoZlib 4 [demoPayload] = Inr qs \<and>
     compressDecode demoZlib (map (\<lambda>q. q\<lparr>Metadata := rev (Metadata q)\<rparr>) qs) = Inr ps' \<and> list_all2 samePayload [demoPayload] ps'"
proof -
  define q where "q = \<lparr>Metadata = compressMeta (Metadata demoPayload), Data = ''x0123456789''\<rparr>"
  have e: "compressEncode demoZlib 4 [demoPayload] = Inr [q]"
    by (simp add: compressEncode_def compressOne_def demoZlib_def demoPayload_def q_def)
  have d: "distinct (map fst (Metadata q))" by (simp add: q_def distinct_compressMeta)
  have "map_of (rev (Metadata q)) = map_of (Metadata q)"
    using d by (intro map_of_inject_set [THEN iffD2]) (simp_all add: rev_map [symmetric])
  then have "list_all2 samePayload [q] (map (\<lambda>q. q\<lparr>Metadata := rev (Metadata q)\<rparr>) [q])"
    using d by (simp add: samePayload_def rev_map [symmetric])
  from compression_roundtrip [OF demoZlib_law _ e this] demoPayload_restorable e show ?thesis by auto
qed

lemma compressEncode_length: "compressEncode z minSize ps = Inr qs \<Longrightarrow> length qs = length ps"
  by (induction ps arbitrary: qs) (auto simp: compressEncode_def split: sum.splits)

lemma compressEncode_distinct:
  "list_all (restorable minSize) ps \<Longrightarrow> compressEncode z minSize ps = Inr qs \<Longrightarrow> list_all2 samePayload qs qs"
proof (induction ps arbitrary: qs)
  case (Cons p ps)
  obtain q qs1 where q: "qs = q # qs1" "compressOne z minSize p = Inr q" "compressEncode z minSize ps = Inr qs1"
    using Cons.prems(2) by (auto simp: compressEncode_def split: sum.splits)
  have "samePayload q q"
    using q(2) Cons.prems(1) by (auto simp: compressOne_def samePayload_def restorable_def distinct_compressMeta split: if_splits sum.splits)
  then show ?case using Cons.IH [OF _ q(3)] Cons.prems(1) q(1) by simp
qed (simp add: compressEncode_def)

section \<open>Encryption and key rotation\<close>

definition aeadLaw :: "AEAD \<Rightarrow> bool" where
  "aeadLaw a \<longleftrightarrow> (\<forall>n d. length n = NonceSize a \<longrightarrow> Open a n (Seal a n d) = Inr d)"

definition formatLaw :: "payloadFormat \<Rightarrow> bool" where
  "formatLaw fmt \<longleftrightarrow> (\<forall>p b. Marshal fmt p = Inr b \<longrightarrow> Unmarshal fmt b = Inr p)"

definition nonceOK :: "AEAD \<Rightarrow> string + string \<Rightarrow> bool" where
  "nonceOK a r \<longleftrightarrow> (case r of Inl e \<Rightarrow> True | Inr n \<Rightarrow> length n = NonceSize a)"

lemma encryptOne_meta:
  assumes "encryptOne fmt c a (p, r) = Inr q"
  shows "metaGet q MetadataEncoding = encryptedEncoding" "metaGet q metadataKeyID = primaryID c"
  using assms by (auto simp: encryptOne_def metaGet_def codec_names split: sum.splits)

lemma decryptOne_encryptOne:
  assumes "formatLaw fmt" "aeadLaw a" "nonceOK a r" "encryptOne fmt c a (p, r) = Inr q" "keys c' (primaryID c) = Some a"
  shows "decryptOne fmt c' q = Inr p"
proof -
  obtain b n where b: "Marshal fmt p = Inr b" "r = Inr n" "Data q = n @ Seal a n b"
    using assms(4) by (auto simp: encryptOne_def split: sum.splits)
  then have "length n = NonceSize a" using assms(3) by (simp add: nonceOK_def)
  then show ?thesis
    using assms(1,2,5) b by (simp add: decryptOne_def encryptOne_meta [OF assms(4)] Let_def aeadLaw_def formatLaw_def)
qed

lemma encryptDecode_encryptEncode:
  assumes laws: "formatLaw fmt" "aeadLaw a" "keys c (primaryID c) = Some a" "keys c' (primaryID c) = Some a"
    and "list_all (nonceOK a) rs" "length rs = length ps" "encryptEncode fmt c rs ps = Inr qs"
  shows "encryptDecode fmt c' qs = Inr ps"
  using assms(5-7)
proof (induction ps arbitrary: rs qs)
  case Nil
  then show ?case using laws(3) by (simp add: encryptEncode_def encryptDecode_def)
next
  case (Cons p ps)
  then obtain r rs' where r: "rs = r # rs'" by (cases rs) auto
  obtain q qs' where q: "qs = q # qs'" "encryptOne fmt c a (p, r) = Inr q" "encryptEncode fmt c rs' ps = Inr qs'"
    using Cons.prems(3) laws(3) by (auto simp: encryptEncode_def r split: sum.splits)
  have "decryptOne fmt c' q = Inr p"
    using decryptOne_encryptOne [OF laws(1,2) _ q(2) laws(4)] Cons.prems(1) r by simp
  moreover have "encryptDecode fmt c' qs' = Inr ps" using Cons.IH [OF _ _ q(3)] Cons.prems(1,2) r by simp
  ultimately show ?case by (simp add: encryptDecode_def q(1))
qed

text \<open>C34: History stays readable across key rotation. What was compressed and then sealed under the
primary key of one codec decodes, under any later codec that still holds that key under its
identifier (whatever its own primary key and other keys are), to the original payloads.\<close>

theorem history_readable_after_rotation:
  assumes "zlibLaw z" "formatLaw fmt" "aeadLaw a" "keys c (primaryID c) = Some a" "keys c' (primaryID c) = Some a"
    "list_all (restorable minSize) ps" "list_all (nonceOK a) rs" "length rs = length ps"
    "compressEncode z minSize ps = Inr qs" "encryptEncode fmt c rs qs = Inr es"
  shows "\<exists>ps'. encryptDecode fmt c' es = Inr qs \<and> compressDecode z qs = Inr ps' \<and> list_all2 samePayload ps ps'"
proof -
  have len: "length qs = length ps" by (rule compressEncode_length [OF assms(9)])
  have "encryptDecode fmt c' es = Inr qs"
    by (rule encryptDecode_encryptEncode [OF assms(2-5,7) _ assms(10)]) (simp add: len assms(8))
  then show ?thesis
    using compressDecode_compressEncode [OF assms(1,6,9) compressEncode_distinct [OF assms(6,9)]] by blast
qed

definition demoAEAD :: AEAD where
  "demoAEAD = \<lparr>NonceSize = 2, Seal = (\<lambda>n d. rev d), Open = (\<lambda>n d. Inr (rev d))\<rparr>"

definition demoFormat :: "Payload \<Rightarrow> payloadFormat" where
  "demoFormat q = \<lparr>Marshal = (\<lambda>p. if p = q then Inr ''q'' else Inl ''too large''), Unmarshal = (\<lambda>b. Inr q)\<rparr>"

theorem history_readable_after_rotation_witness:
  "\<exists>es ps'. encryptEncode (demoFormat demoPayload) \<lparr>keys = [''k1'' \<mapsto> demoAEAD], primaryID = ''k1''\<rparr> [Inr ''n1''] [demoPayload] = Inr es \<and>
     encryptDecode (demoFormat demoPayload) \<lparr>keys = [''k1'' \<mapsto> demoAEAD, ''k2'' \<mapsto> demoAEAD], primaryID = ''k2''\<rparr> es = Inr [demoPayload] \<and>
     compressDecode demoZlib [demoPayload] = Inr ps' \<and> list_all2 samePayload [demoPayload] ps'"
proof -
  let ?c = "\<lparr>keys = [''k1'' \<mapsto> demoAEAD], primaryID = ''k1''\<rparr>"
  let ?c' = "\<lparr>keys = [''k1'' \<mapsto> demoAEAD, ''k2'' \<mapsto> demoAEAD], primaryID = ''k2''\<rparr>"
  have s: "compressEncode demoZlib 1024 [demoPayload] = Inr [demoPayload]"
    by (simp add: compressEncode_def compressOne_def demoPayload_def)
  obtain es where es: "encryptEncode (demoFormat demoPayload) ?c [Inr ''n1''] [demoPayload] = Inr es"
    by (simp add: encryptEncode_def encryptOne_def demoFormat_def)
  have laws: "formatLaw (demoFormat demoPayload)" "aeadLaw demoAEAD"
    by (auto simp: formatLaw_def aeadLaw_def demoFormat_def demoAEAD_def split: if_splits)
  have "\<exists>ps'. encryptDecode (demoFormat demoPayload) ?c' es = Inr [demoPayload] \<and> compressDecode demoZlib [demoPayload] = Inr ps' \<and>
      list_all2 samePayload [demoPayload] ps'"
    by (rule history_readable_after_rotation [OF demoZlib_law laws _ _ _ _ _ s es])
      (simp_all add: demoPayload_restorable nonceOK_def demoAEAD_def)
  with es show ?thesis by blast
qed

text \<open>A retired key is an error, not garbage: a payload sealed under a key the codec no longer holds is
refused with the identifier of that key.\<close>

theorem retired_key_refused:
  assumes "encryptEncode fmt c rs ps = Inr es" "es \<noteq> []" "keys c' (primaryID c) = None"
  shows "encryptDecode fmt c' es = Inl (NoKeyForID (primaryID c))"
proof -
  obtain a p r q qs where q: "es = q # qs" "encryptOne fmt c a (p, r) = Inr q"
  proof (cases "keys c (primaryID c)")
    case None
    then show ?thesis using assms(1,2) by (auto simp: encryptEncode_def split: if_splits)
  next
    case (Some a)
    then show ?thesis
      using assms(1,2) that by (cases "zip ps rs") (auto simp: encryptEncode_def split: sum.splits)
  qed
  have "decryptOne fmt c' q = Inl (NoKeyForID (primaryID c))"
    using assms(3) by (simp add: decryptOne_def encryptOne_meta [OF q(2)])
  then show ?thesis by (simp add: encryptDecode_def q(1))
qed

theorem retired_key_refused_witness:
  "\<exists>es. encryptEncode (demoFormat demoPayload) \<lparr>keys = [''k1'' \<mapsto> demoAEAD], primaryID = ''k1''\<rparr> [Inr ''n1''] [demoPayload] = Inr es \<and>
     encryptDecode (demoFormat demoPayload) \<lparr>keys = [''k2'' \<mapsto> demoAEAD], primaryID = ''k2''\<rparr> es = Inl (NoKeyForID ''k1'')"
proof -
  let ?c = "\<lparr>keys = [''k1'' \<mapsto> demoAEAD], primaryID = ''k1''\<rparr>"
  obtain es where es: "encryptEncode (demoFormat demoPayload) ?c [Inr ''n1''] [demoPayload] = Inr es" "es \<noteq> []"
    by (simp add: encryptEncode_def encryptOne_def demoFormat_def)
  with retired_key_refused [OF es, of "\<lparr>keys = [''k2'' \<mapsto> demoAEAD], primaryID = ''k2''\<rparr>"] show ?thesis by simp
qed

lemma mapE_keys:
  assumes "mapE (\<lambda>(i, key). case newAEAD key of Inl e \<Rightarrow> Inl (InvalidKey i e) | Inr a \<Rightarrow> Inr (i, a)) ks = Inr as"
  shows "map fst as = map fst ks"
  using assms by (induction ks arbitrary: as) (auto split: sum.splits prod.splits)

text \<open>C35: A codec that could be built can always seal: its primary key is among its keys, so encoding
never runs into a missing cipher.\<close>

theorem built_codec_has_primary:
  assumes "NewEncryptionCodec newAEAD ks primary = Inr c"
  shows "primaryID c = primary \<and> keys c primary \<noteq> None \<and> encryptEncode fmt c rs ps \<noteq> Inl NilDereference"
proof -
  obtain as where as: "mapE (\<lambda>(i, key). case newAEAD key of Inl e \<Rightarrow> Inl (InvalidKey i e) | Inr a \<Rightarrow> Inr (i, a)) ks = Inr as"
    "c = \<lparr>keys = map_of as, primaryID = primary\<rparr>" "map_of ks primary \<noteq> None"
    using assms by (auto simp: NewEncryptionCodec_def split: if_splits sum.splits)
  have "primary \<in> set (map fst as)" unfolding mapE_keys [OF as(1)] using as(3) by (simp add: map_of_eq_None_iff)
  then obtain a where a: "map_of as primary = Some a" by (metis map_of_eq_None_iff not_None_eq set_map)
  have one: "encryptOne fmt c a x \<noteq> Inl NilDereference" for x
    by (auto simp: encryptOne_def split: prod.splits sum.splits)
  have "mapE (encryptOne fmt c a) xs \<noteq> Inl NilDereference" for xs
    using one by (induction xs) (auto split: sum.splits)
  then show ?thesis using a by (simp add: as(2) encryptEncode_def)
qed

theorem built_codec_has_primary_witness:
  "\<exists>c. NewEncryptionCodec (\<lambda>k. Inr demoAEAD) [('''', ''0011'')] '''' = Inr c \<and> keys c '''' \<noteq> None"
proof -
  obtain c where c: "NewEncryptionCodec (\<lambda>k. Inr demoAEAD) [('''', ''0011'')] '''' = Inr c"
    by (simp add: NewEncryptionCodec_def)
  from built_codec_has_primary [OF c, of "demoFormat demoPayload" "[]" "[]"] c show ?thesis by blast
qed

end
