(* ===== verification/RegionBackoff.thy ===== *)
theory RegionBackoff
  imports GoStrings
begin

text \<open>
  The memory of unreachable regions of the cloud collector
  (\<open>collector-server/cloud-collector/providers/aws/region_skip.go\<close>): \<open>regionBackoff\<close>, its operations
  and the two instances the collector keeps. Instants and durations are nanoseconds; each operation
  takes the time its call of \<open>now\<close> returns. The lock makes each operation atomic, so a run of the
  collector is a sequence of steps. Which errors mean a region is skipped (\<open>classifyRegionSkip\<close>)
  depends on the errors of the AWS client and is not modelled.
\<close>

record regionBackoffEntry =
  consecutiveFailures :: int
  retryAfter :: instant

record regionBackoff =
  failuresBeforeBackoff :: int
  cooldown :: duration
  entries :: "string \<rightharpoonup> regionBackoffEntry"

definition newRegionBackoff :: "int \<Rightarrow> duration \<Rightarrow> regionBackoff" where
  "newRegionBackoff failures cool =
     \<lparr>failuresBeforeBackoff = failures, cooldown = cool, entries = Map.empty\<rparr>"

definition regionBackoffKey :: "string \<Rightarrow> string \<Rightarrow> string" where
  "regionBackoffKey accountNumber region = accountNumber @ ''/'' @ region"

definition shouldSkip :: "instant \<Rightarrow> string \<Rightarrow> string \<Rightarrow> regionBackoff \<Rightarrow> bool" where
  "shouldSkip now accountNumber region b =
     (case entries b (regionBackoffKey accountNumber region) of
        None \<Rightarrow> False
      | Some entry \<Rightarrow> now < retryAfter entry)"

text \<open>The zero time of a fresh entry.\<close>

definition zeroTime :: instant where "zeroTime = - 62135596800 * 1000000000"

definition recordUnreachable :: "instant \<Rightarrow> string \<Rightarrow> string \<Rightarrow> regionBackoff \<Rightarrow> regionBackoff \<times> bool" where
  "recordUnreachable now accountNumber region b =
     (let k = regionBackoffKey accountNumber region;
          entry0 = (case entries b k of
                      None \<Rightarrow> \<lparr>consecutiveFailures = 0, retryAfter = zeroTime\<rparr>
                    | Some e \<Rightarrow> e);
          entry = entry0\<lparr>consecutiveFailures := consecutiveFailures entry0 + 1\<rparr>
      in if consecutiveFailures entry \<ge> failuresBeforeBackoff b
         then (b\<lparr>entries := (entries b)(k \<mapsto> entry\<lparr>retryAfter := now + cooldown b\<rparr>)\<rparr>, True)
         else (b\<lparr>entries := (entries b)(k \<mapsto> entry)\<rparr>, False))"

definition recordSuccess :: "string \<Rightarrow> string \<Rightarrow> regionBackoff \<Rightarrow> regionBackoff" where
  "recordSuccess accountNumber region b =
     b\<lparr>entries := (entries b)(regionBackoffKey accountNumber region := None)\<rparr>"

definition alarmPollUnreachableFailures :: int where "alarmPollUnreachableFailures = 2"
definition alarmPollUnreachableCooldown :: duration where "alarmPollUnreachableCooldown = 30 * 60 * 1000000000"
definition alarmPollBackoff :: regionBackoff where
  "alarmPollBackoff = newRegionBackoff alarmPollUnreachableFailures alarmPollUnreachableCooldown"

definition resourceListUnreachableFailures :: int where "resourceListUnreachableFailures = 2"
definition resourceListUnreachableCooldown :: duration where "resourceListUnreachableCooldown = 30 * 60 * 1000000000"
definition resourceListBackoff :: regionBackoff where
  "resourceListBackoff = newRegionBackoff resourceListUnreachableFailures resourceListUnreachableCooldown"

section \<open>Runs\<close>

text \<open>What the collector reports to the memory: the outcome of one connection.\<close>

datatype outcome =
    Unreachable (oc_at: instant) (oc_account: string) (oc_region: string)
  | Reached (oc_at: instant) (oc_account: string) (oc_region: string)

fun apply_outcome :: "outcome \<Rightarrow> regionBackoff \<Rightarrow> regionBackoff" where
  "apply_outcome (Unreachable now a r) b = fst (recordUnreachable now a r b)"
| "apply_outcome (Reached now a r) b = recordSuccess a r b"

inductive step :: "regionBackoff \<Rightarrow> outcome \<Rightarrow> regionBackoff \<Rightarrow> bool" where
  unreachable: "recordUnreachable now a r b = (b', aside) \<Longrightarrow> step b (Unreachable now a r) b'"
| reached: "step b (Reached now a r) (recordSuccess a r b)"

inductive_simps step_simps [simp]: "step b (Unreachable now a r) b'" "step b (Reached now a r) b'"

text \<open>\<open>run b os b'\<close>: the outcomes \<open>os\<close>, oldest first, take \<open>b\<close> to \<open>b'\<close>.\<close>

inductive run :: "regionBackoff \<Rightarrow> outcome list \<Rightarrow> regionBackoff \<Rightarrow> bool" for b where
  start: "run b [] b"
| more: "run b os b' \<Longrightarrow> step b' oc b'' \<Longrightarrow> run b (os @ [oc]) b''"

section \<open>The memory as a function of the history\<close>

text \<open>
  The specification reads the history of one region backwards: the times of the failures since
  the last success, latest first.
\<close>

fun trailingFailures :: "string \<Rightarrow> string \<Rightarrow> outcome list \<Rightarrow> instant list" where
  "trailingFailures a r [] = []"
| "trailingFailures a r (Unreachable t a' r' # os) =
     (if a' = a \<and> r' = r then t # trailingFailures a r os else trailingFailures a r os)"
| "trailingFailures a r (Reached t a' r' # os) =
     (if a' = a \<and> r' = r then [] else trailingFailures a r os)"

definition setAside :: "int \<Rightarrow> duration \<Rightarrow> string \<Rightarrow> string \<Rightarrow> outcome list \<Rightarrow> instant \<Rightarrow> bool" where
  "setAside failures cool a r os now =
     (case trailingFailures a r (rev os) of
        [] \<Rightarrow> False
      | t # ts \<Rightarrow> int (length (t # ts)) \<ge> failures \<and> now < t + cool)"

definition failuresOf :: "string \<Rightarrow> string \<Rightarrow> outcome list \<Rightarrow> outcome list" where
  "failuresOf a r os = filter (\<lambda>oc. \<exists>t. oc = Unreachable t a r) os"

definition plainAccount :: "outcome \<Rightarrow> bool" where
  "plainAccount oc \<longleftrightarrow> CHR ''/'' \<notin> set (oc_account oc)"

lemma regionBackoffKey_inj:
  assumes "CHR ''/'' \<notin> set a" "CHR ''/'' \<notin> set a'"
  shows "regionBackoffKey a r = regionBackoffKey a' r' \<longleftrightarrow> a = a' \<and> r = r'"
  using split_at_sep [of a "CHR ''/''" r a' r'] assms by (auto simp: regionBackoffKey_def)

text \<open>What an entry records of the history of its region.\<close>

definition entryFor :: "int \<Rightarrow> duration \<Rightarrow> instant list \<Rightarrow> regionBackoffEntry option" where
  "entryFor failures cool ts =
     (case ts of
        [] \<Rightarrow> None
      | t # _ \<Rightarrow> Some \<lparr>consecutiveFailures = int (length ts),
                      retryAfter = (if int (length ts) \<ge> failures then t + cool else zeroTime)\<rparr>)"

lemma recordUnreachable_entry:
  assumes "recordUnreachable now a r b = (b', aside)"
    and "entries b (regionBackoffKey a r) = entryFor (failuresBeforeBackoff b) (cooldown b) ts"
  shows "entries b' = (entries b)(regionBackoffKey a r := entryFor (failuresBeforeBackoff b) (cooldown b) (now # ts))"
    and "failuresBeforeBackoff b' = failuresBeforeBackoff b" "cooldown b' = cooldown b"
    and "aside \<longleftrightarrow> int (length (now # ts)) \<ge> failuresBeforeBackoff b"
  using assms by (auto simp: recordUnreachable_def entryFor_def Let_def split: list.splits if_splits)

definition invariant :: "int \<Rightarrow> duration \<Rightarrow> outcome list \<Rightarrow> regionBackoff \<Rightarrow> bool" where
  "invariant failures cool os b \<longleftrightarrow> failuresBeforeBackoff b = failures \<and> cooldown b = cool \<and>
     (\<forall>a r. CHR ''/'' \<notin> set a \<longrightarrow>
        entries b (regionBackoffKey a r) = entryFor failures cool (trailingFailures a r (rev os)))"

lemma run_invariant:
  assumes "run (newRegionBackoff failures cool) os b" "list_all plainAccount os"
  shows "invariant failures cool os b"
  using assms
proof (induction rule: run.induct)
  case start
  then show ?case by (simp add: invariant_def newRegionBackoff_def entryFor_def)
next
  case (more os b' oc b'')
  then have inv: "invariant failures cool os b'" and oc: "CHR ''/'' \<notin> set (oc_account oc)"
    by (auto simp: plainAccount_def)
  show ?case
  proof (cases oc)
    case (Unreachable t a r)
    then obtain aside where u: "recordUnreachable t a r b' = (b'', aside)" using more.hyps(2) by auto
    have "entries b' (regionBackoffKey a r) =
        entryFor (failuresBeforeBackoff b') (cooldown b') (trailingFailures a r (rev os))"
      using inv oc Unreachable by (simp add: invariant_def)
    note e = recordUnreachable_entry [OF u this]
    show ?thesis
      using inv oc e(1-3) regionBackoffKey_inj [of _ a _ r] unfolding invariant_def Unreachable by auto
  next
    case (Reached t a r)
    then have "b'' = recordSuccess a r b'" using more.hyps(2) by simp
    then show ?thesis
      using inv oc regionBackoffKey_inj [of _ a _ r] unfolding invariant_def Reached
      by (auto simp: recordSuccess_def entryFor_def)
  qed
qed

lemma shouldSkip_entryFor:
  assumes "entries b (regionBackoffKey a r) = entryFor failures cool (trailingFailures a r (rev os))" "zeroTime \<le> now"
  shows "shouldSkip now a r b \<longleftrightarrow> setAside failures cool a r os now"
  using assms by (auto simp: shouldSkip_def setAside_def entryFor_def split: list.splits)

lemma shouldSkip_history:
  assumes "run (newRegionBackoff failures cool) os b" "list_all plainAccount os" "CHR ''/'' \<notin> set a" "zeroTime \<le> now"
  shows "shouldSkip now a r b \<longleftrightarrow> setAside failures cool a r os now"
  by (rule shouldSkip_entryFor) (use run_invariant [OF assms(1,2)] assms(3,4) in \<open>auto simp: invariant_def\<close>)

lemma trailingFailures_in: "t \<in> set (trailingFailures a r os) \<Longrightarrow> Unreachable t a r \<in> set os"
  by (induction os rule: trailingFailures.induct [of _ a r]) (auto split: if_splits)

lemma run_total: "\<exists>b'. run b os b'"
proof (induction os rule: rev_induct)
  case Nil
  then show ?case using run.start by blast
next
  case (snoc oc os)
  then obtain b' where "run b os b'" by blast
  moreover have "\<exists>b''. step b' oc b''" by (cases oc) auto
  ultimately show ?case using run.more by blast
qed

section \<open>Properties\<close>

text \<open>C16: After any history of outcomes, for all accounts and regions and with any clock, the memory
sets a region aside exactly if the region has failed at least the configured number of times in a
row since it last answered, and the last of these failures is less than the cooldown ago. Outcomes
of other accounts and regions never matter.\<close>

theorem backoff_follows_history:
  assumes "run (newRegionBackoff failures cool) os b" "list_all plainAccount os" "CHR ''/'' \<notin> set a" "zeroTime \<le> now"
  shows "shouldSkip now a r b \<longleftrightarrow>
    (\<exists>t ts. trailingFailures a r (rev os) = t # ts \<and> failures \<le> int (length (t # ts)) \<and> now < t + cool)"
  using shouldSkip_history [OF assms] by (auto simp: setAside_def split: list.splits)

theorem backoff_follows_history_witness:
  "\<exists>b. run alarmPollBackoff [Unreachable 0 ''1'' ''us'', Unreachable 5 ''1'' ''us'', Unreachable 6 ''1'' ''eu''] b \<and>
     shouldSkip 7 ''1'' ''us'' b \<and> \<not> shouldSkip 7 ''1'' ''eu'' b"
proof -
  let ?os = "[Unreachable 0 ''1'' ''us'', Unreachable 5 ''1'' ''us'', Unreachable 6 ''1'' ''eu'']"
  obtain b where b: "run alarmPollBackoff ?os b" using run_total by blast
  note h = backoff_follows_history [OF b [unfolded alarmPollBackoff_def], of "''1''" 7]
  have "shouldSkip 7 ''1'' ''us'' b" "\<not> shouldSkip 7 ''1'' ''eu'' b"
    using h [of "''us''"] h [of "''eu''"]
    by (simp_all add: plainAccount_def zeroTime_def alarmPollUnreachableFailures_def alarmPollUnreachableCooldown_def)
  with b show ?thesis by blast
qed

lemma trailingFailures_since:
  "length (trailingFailures a r (xs @ Reached t a r # ys)) \<le> length (failuresOf a r xs)"
  by (induction xs rule: trailingFailures.induct [of _ a r]) (auto simp: failuresOf_def)

text \<open>No region is silenced for good. Whatever was reported, once the cooldown has passed since the
last failure of a region it is tried again; and once it has answered, it is not set aside before
it has failed the configured number of times again.\<close>

theorem region_is_retried:
  assumes "run (newRegionBackoff failures cool) os b" "list_all plainAccount os" "CHR ''/'' \<notin> set a" "zeroTime \<le> now"
  shows "((\<forall>t. Unreachable t a r \<in> set os \<longrightarrow> t + cool \<le> now) \<longrightarrow> \<not> shouldSkip now a r b) \<and>
    (\<forall>os1 t os2. os = os1 @ Reached t a r # os2 \<and> int (length (failuresOf a r os2)) < failures \<longrightarrow> \<not> shouldSkip now a r b)"
proof (intro conjI impI allI)
  assume late: "\<forall>t. Unreachable t a r \<in> set os \<longrightarrow> t + cool \<le> now"
  show "\<not> shouldSkip now a r b"
  proof
    assume "shouldSkip now a r b"
    then obtain t ts where t: "trailingFailures a r (rev os) = t # ts" "now < t + cool"
      using shouldSkip_history [OF assms] by (auto simp: setAside_def split: list.splits)
    have "Unreachable t a r \<in> set os" using trailingFailures_in [of t a r "rev os"] t(1) by simp
    then show False using late t(2) by fastforce
  qed
next
  fix os1 t os2
  assume os: "os = os1 @ Reached t a r # os2 \<and> int (length (failuresOf a r os2)) < failures"
  then have "length (trailingFailures a r (rev os)) \<le> length (failuresOf a r os2)"
    using trailingFailures_since [of a r "rev os2" t "rev os1"] by (simp add: failuresOf_def rev_filter [symmetric])
  then show "\<not> shouldSkip now a r b"
    using os shouldSkip_history [OF assms] by (auto simp: setAside_def split: list.splits)
qed

theorem region_is_retried_witness:
  "\<exists>b. run resourceListBackoff [Unreachable 0 ''1'' ''us'', Unreachable 5 ''1'' ''us''] b \<and>
     \<not> shouldSkip (5 + resourceListUnreachableCooldown) ''1'' ''us'' b"
proof -
  let ?os = "[Unreachable 0 ''1'' ''us'', Unreachable 5 ''1'' ''us'']"
  obtain b where b: "run resourceListBackoff ?os b" using run_total by blast
  from region_is_retried [OF b [unfolded resourceListBackoff_def], of "''1''" "5 + resourceListUnreachableCooldown" "''us''"]
  have "\<not> shouldSkip (5 + resourceListUnreachableCooldown) ''1'' ''us'' b"
    by (simp add: plainAccount_def zeroTime_def resourceListUnreachableCooldown_def)
  with b show ?thesis by blast
qed

end
