(* ===== verification/CircuitBreakers.thy ===== *)
theory CircuitBreakers
  imports GoStrings
begin

text \<open>
  The circuit breakers of the LLM server: the breaker per model
  (\<open>llm/llm-server/agents/core/llm_circuit_breaker.go\<close>), which fails fast while an endpoint is known to be
  down, and the breaker per tool target (\<open>llm/llm-server/tools/core/circuit_breaker.go\<close>) with the place in
  \<open>executor_planner.go\<close> that asks it before a tool call and tells it the outcome.

  Each operation takes the time its call of \<open>time.Now\<close> returns and is atomic under the lock of the
  breaker; the status of a model takes the lock twice and is modelled as its two parts, between which
  other callers may act. A run is a sequence of such operations. Instants and durations are
  nanoseconds. Configuration, reread on each call, is an argument,
  with seconds small enough that nothing overflows; log lines and metrics are left out.
\<close>

section \<open>Memories with a slot per key\<close>

text \<open>
  Both breakers keep a map from keys to entries, and every operation acts on the slot of a key by a
  function of that slot alone. So what a breaker knows of a key is a function of its history.
\<close>

locale slot_memory =
  fixes good :: "'s \<Rightarrow> bool"
    and slot :: "'s \<Rightarrow> 'k \<Rightarrow> 'e option"
    and apply_op :: "'op \<Rightarrow> 's \<Rightarrow> 's"
    and update :: "'k \<Rightarrow> 'op \<Rightarrow> 'e option \<Rightarrow> 'e option"
  assumes good_apply: "good s \<Longrightarrow> good (apply_op x s)"
    and slot_apply: "good s \<Longrightarrow> slot (apply_op x s) k = update k x (slot s k)"
begin

lemma good_fold: "good s \<Longrightarrow> good (fold apply_op xs s)"
  by (induction xs arbitrary: s) (simp_all add: good_apply)

lemma slot_fold: "good s \<Longrightarrow> slot (fold apply_op xs s) k = fold (update k) xs (slot s k)"
  by (induction xs arbitrary: s) (simp_all add: slot_apply good_apply)

lemma slot_invariant:
  assumes "good s" "P [] (slot s k)" "\<And>xs x e. P xs e \<Longrightarrow> x \<in> set ys \<Longrightarrow> P (xs @ [x]) (update k x e)"
  shows "P ys (slot (fold apply_op ys s) k)"
proof -
  have "set xs \<subseteq> set ys \<Longrightarrow> P xs (fold (update k) xs (slot s k))" for xs
    using assms(2,3) by (induction xs rule: rev_induct) auto
  then show ?thesis by (simp add: slot_fold [OF assms(1)])
qed

end

section \<open>The breaker of tool targets\<close>

record circuitStateKey =
  sk_toolType :: string
  sk_accountId :: string
  sk_instanceId :: string

record circuitStateEntry =
  consecutiveFails :: int
  lastFailure :: instant

record toolCircuitBreaker =
  tb_state :: "circuitStateKey \<rightharpoonup> circuitStateEntry"
  defaultThreshold :: int
  defaultCooldownSec :: int
  forceEnabled :: bool
  overrideConfig :: bool

record toolBreakerConfig =
  ToolCircuitBreakerEnabled :: bool
  ToolCircuitBreakerFailureThreshold :: int
  ToolCircuitBreakerCooldownSeconds :: int

abbreviation second :: duration where "second \<equiv> 1000000000"

definition staleEntryEvictionAge :: duration where "staleEntryEvictionAge = 24 * 3600 * second"

definition toolCircuitBreakerInstance :: toolCircuitBreaker where
  "toolCircuitBreakerInstance =
     \<lparr>tb_state = Map.empty, defaultThreshold = 3, defaultCooldownSec = 60, forceEnabled = False, overrideConfig = False\<rparr>"

definition breakerThreshold :: "toolBreakerConfig \<Rightarrow> toolCircuitBreaker \<Rightarrow> int" where
  "breakerThreshold cfg b =
     (if \<not> overrideConfig b \<and> ToolCircuitBreakerFailureThreshold cfg > 0 then ToolCircuitBreakerFailureThreshold cfg
      else defaultThreshold b)"

definition breakerCooldown :: "toolBreakerConfig \<Rightarrow> toolCircuitBreaker \<Rightarrow> duration" where
  "breakerCooldown cfg b =
     (if \<not> overrideConfig b \<and> ToolCircuitBreakerCooldownSeconds cfg > 0 then ToolCircuitBreakerCooldownSeconds cfg * second
      else defaultCooldownSec b * second)"

definition breakerEnabled :: "toolBreakerConfig \<Rightarrow> toolCircuitBreaker \<Rightarrow> bool" where
  "breakerEnabled cfg b \<longleftrightarrow> forceEnabled b \<or> ToolCircuitBreakerEnabled cfg"

definition IsHealthy :: "toolBreakerConfig \<Rightarrow> instant \<Rightarrow> circuitStateKey \<Rightarrow> toolCircuitBreaker \<Rightarrow> bool" where
  "IsHealthy cfg now k b =
     (if \<not> breakerEnabled cfg b then True
      else case tb_state b k of
             None \<Rightarrow> True
           | Some entry \<Rightarrow>
               if consecutiveFails entry < breakerThreshold cfg b then True
               else now - lastFailure entry \<ge> breakerCooldown cfg b)"

definition RecordSuccess :: "circuitStateKey \<Rightarrow> toolCircuitBreaker \<Rightarrow> toolCircuitBreaker" where
  "RecordSuccess k b = b\<lparr>tb_state := (tb_state b)(k := None)\<rparr>"

definition RecordFailure :: "toolBreakerConfig \<Rightarrow> instant \<Rightarrow> circuitStateKey \<Rightarrow> toolCircuitBreaker \<Rightarrow> toolCircuitBreaker" where
  "RecordFailure cfg now k b =
     (if \<not> breakerEnabled cfg b then b
      else
        let fails = (case tb_state b k of None \<Rightarrow> 0 | Some entry \<Rightarrow> consecutiveFails entry)
        in b\<lparr>tb_state := (tb_state b)(k \<mapsto> \<lparr>consecutiveFails = fails + 1, lastFailure = now\<rparr>)\<rparr>)"

text \<open>What the snapshot reports of each key, and the breaker without the entries it drops.\<close>

definition entryHealthy :: "toolBreakerConfig \<Rightarrow> instant \<Rightarrow> toolCircuitBreaker \<Rightarrow> circuitStateEntry \<Rightarrow> bool" where
  "entryHealthy cfg now b e \<longleftrightarrow> consecutiveFails e < breakerThreshold cfg b \<or> now - lastFailure e \<ge> breakerCooldown cfg b"

definition stale :: "toolBreakerConfig \<Rightarrow> instant \<Rightarrow> toolCircuitBreaker \<Rightarrow> circuitStateEntry \<Rightarrow> bool" where
  "stale cfg now b e \<longleftrightarrow> entryHealthy cfg now b e \<and> now - lastFailure e \<ge> staleEntryEvictionAge"

definition snapshot ::
  "toolBreakerConfig \<Rightarrow> instant \<Rightarrow> toolCircuitBreaker \<Rightarrow> (circuitStateKey \<rightharpoonup> bool) \<times> toolCircuitBreaker" where
  "snapshot cfg now b =
     (let kept = (\<lambda>k. case tb_state b k of None \<Rightarrow> None | Some e \<Rightarrow> if stale cfg now b e then None else Some e)
      in (\<lambda>k. map_option (entryHealthy cfg now b) (kept k), b\<lparr>tb_state := kept\<rparr>))"

text \<open>A tool call: asked before, told after. \<open>active\<close>: the tool takes part for this call.\<close>

datatype 'r callOutcome = CircuitOpen int | Called 'r

definition guardedCall ::
  "toolBreakerConfig \<Rightarrow> instant \<Rightarrow> instant \<Rightarrow> bool \<Rightarrow> circuitStateKey \<Rightarrow> ('r \<Rightarrow> bool) \<Rightarrow> 'r \<Rightarrow> toolCircuitBreaker \<Rightarrow>
     'r callOutcome \<times> toolCircuitBreaker" where
  "guardedCall cfg asked told active k isInfraFailure r b =
     (if active \<and> \<not> IsHealthy cfg asked k b then (CircuitOpen (breakerThreshold cfg b), b)
      else (Called r, if active then (if isInfraFailure r then RecordFailure cfg told k b else RecordSuccess k b) else b))"

datatype toolOp = ToolFailed instant circuitStateKey | ToolSucceeded circuitStateKey | Snapshot instant

fun applyTool :: "toolBreakerConfig \<Rightarrow> toolOp \<Rightarrow> toolCircuitBreaker \<Rightarrow> toolCircuitBreaker" where
  "applyTool cfg (ToolFailed now k) b = RecordFailure cfg now k b"
| "applyTool cfg (ToolSucceeded k) b = RecordSuccess k b"
| "applyTool cfg (Snapshot now) b = snd (snapshot cfg now b)"

section \<open>The breaker of models\<close>

datatype circuitBreakerState = StateClosed | StateOpen | StateHalfOpen

datatype fallbackCause = fallbackCauseQuota | fallbackCauseUnavailable

record RateLimitDetail =
  rl_Scope :: string
  rl_Window :: string

definition UnknownRateLimitDetail :: RateLimitDetail where
  "UnknownRateLimitDetail = \<lparr>rl_Scope = ''unknown'', rl_Window = ''unknown''\<rparr>"

record circuitBreakerEntry =
  cb_State :: circuitBreakerState
  cb_OpenedAt :: instant
  cb_CooldownUntil :: instant
  cb_FailureCount :: int
  cb_TripCause :: fallbackCause
  cb_TripDetail :: RateLimitDetail

record circuitStatus =
  cs_Open :: bool
  cs_Cause :: fallbackCause
  cs_Detail :: RateLimitDetail

type_synonym circuitBreakerMap = "string \<rightharpoonup> circuitBreakerEntry"

definition getCircuitBreakerKey :: "string \<Rightarrow> string \<Rightarrow> string" where
  "getCircuitBreakerKey provider model = provider @ '':'' @ model"

definition getCircuitBreakerCooldownSeconds :: "int \<Rightarrow> int" where
  "getCircuitBreakerCooldownSeconds configured = (if configured > 0 then configured else 60)"

definition maxCircuitBreakerCooldownSeconds :: int where "maxCircuitBreakerCooldownSeconds = 300"
definition circuitBreakerProbeExtension :: duration where "circuitBreakerProbeExtension = 15 * second"

definition closedStatus :: circuitStatus where
  "closedStatus = \<lparr>cs_Open = False, cs_Cause = fallbackCauseUnavailable, cs_Detail = UnknownRateLimitDetail\<rparr>"

definition circuitStatusOf :: "bool \<Rightarrow> circuitBreakerEntry \<Rightarrow> circuitStatus" where
  "circuitStatusOf opened e = \<lparr>cs_Open = opened, cs_Cause = cb_TripCause e, cs_Detail = cb_TripDetail e\<rparr>"

text \<open>The first part of \<open>modelCircuitStatus\<close>, under the read lock; \<open>None\<close> goes on to the second.\<close>

definition statusRead :: "instant \<Rightarrow> string \<Rightarrow> circuitBreakerMap \<Rightarrow> circuitStatus option" where
  "statusRead now key m =
     (case m key of
        None \<Rightarrow> Some closedStatus
      | Some entry \<Rightarrow>
          if cb_State entry = StateClosed then Some closedStatus
          else if now < cb_CooldownUntil entry then Some (circuitStatusOf True entry)
          else None)"

text \<open>The second part, under the write lock; \<open>later\<close> is the second reading of the clock.\<close>

definition statusLocked :: "instant \<Rightarrow> instant \<Rightarrow> string \<Rightarrow> circuitBreakerMap \<Rightarrow> circuitStatus \<times> circuitBreakerMap" where
  "statusLocked now later key m =
     (case m key of
        None \<Rightarrow> (closedStatus, m)
      | Some entry \<Rightarrow>
          if cb_State entry = StateClosed then (closedStatus, m)
          else if now > cb_CooldownUntil entry
          then (circuitStatusOf False entry, m(key \<mapsto> entry\<lparr>cb_CooldownUntil := later + circuitBreakerProbeExtension\<rparr>))
          else (circuitStatusOf True entry, m))"

definition modelCircuitStatus ::
  "instant \<Rightarrow> instant \<Rightarrow> instant \<Rightarrow> string \<Rightarrow> string \<Rightarrow> circuitBreakerMap \<Rightarrow> circuitStatus \<times> circuitBreakerMap" where
  "modelCircuitStatus t1 t2 t3 provider model m =
     (let key = getCircuitBreakerKey provider model
      in case statusRead t1 key m of Some st \<Rightarrow> (st, m) | None \<Rightarrow> statusLocked t2 t3 key m)"

definition IsModelCircuitOpen ::
  "instant \<Rightarrow> instant \<Rightarrow> instant \<Rightarrow> string \<Rightarrow> string \<Rightarrow> circuitBreakerMap \<Rightarrow> bool \<times> circuitBreakerMap" where
  "IsModelCircuitOpen t1 t2 t3 provider model m =
     (case modelCircuitStatus t1 t2 t3 provider model m of (st, m') \<Rightarrow> (cs_Open st, m'))"

text \<open>The loop over the earlier failures.\<close>

fun escalate :: "nat \<Rightarrow> int \<Rightarrow> int" where
  "escalate 0 c = c"
| "escalate (Suc n) c =
     (if c * 2 > maxCircuitBreakerCooldownSeconds then maxCircuitBreakerCooldownSeconds else escalate n (c * 2))"

definition recordModelFailure ::
  "int \<Rightarrow> instant \<Rightarrow> string \<Rightarrow> string \<Rightarrow> fallbackCause \<Rightarrow> RateLimitDetail \<Rightarrow> circuitBreakerMap \<Rightarrow> circuitBreakerMap" where
  "recordModelFailure configured now provider model cause detail m =
     (let key = getCircuitBreakerKey provider model;
          count = (case m key of None \<Rightarrow> 0 | Some e \<Rightarrow> cb_FailureCount e) + 1;
          cooldownSeconds = escalate (nat (count - 1)) (getCircuitBreakerCooldownSeconds configured)
      in m(key \<mapsto> \<lparr>cb_State = StateOpen, cb_OpenedAt = now, cb_CooldownUntil = now + cooldownSeconds * second,
                   cb_FailureCount = count, cb_TripCause = cause, cb_TripDetail = detail\<rparr>))"

definition RecordModelFailure :: "int \<Rightarrow> instant \<Rightarrow> string \<Rightarrow> string \<Rightarrow> circuitBreakerMap \<Rightarrow> circuitBreakerMap" where
  "RecordModelFailure configured now provider model m =
     recordModelFailure configured now provider model fallbackCauseUnavailable UnknownRateLimitDetail m"

definition RecordModelRateLimitHit ::
  "int \<Rightarrow> instant \<Rightarrow> string \<Rightarrow> string \<Rightarrow> RateLimitDetail \<Rightarrow> circuitBreakerMap \<Rightarrow> circuitBreakerMap" where
  "RecordModelRateLimitHit configured now provider model detail m =
     recordModelFailure configured now provider model fallbackCauseQuota detail m"

definition RecordModelSuccess :: "string \<Rightarrow> string \<Rightarrow> circuitBreakerMap \<Rightarrow> circuitBreakerMap" where
  "RecordModelSuccess provider model m =
     (let key = getCircuitBreakerKey provider model
      in case m key of
           None \<Rightarrow> m
         | Some entry \<Rightarrow> if cb_State entry = StateClosed then m else m(key := None))"

datatype modelOp =
    ModelFailed instant string string fallbackCause RateLimitDetail
  | ModelSucceeded string string
  | StatusLocked instant instant string string

fun applyModel :: "int \<Rightarrow> modelOp \<Rightarrow> circuitBreakerMap \<Rightarrow> circuitBreakerMap" where
  "applyModel cfg (ModelFailed now p mo cause detail) m = recordModelFailure cfg now p mo cause detail m"
| "applyModel cfg (ModelSucceeded p mo) m = RecordModelSuccess p mo m"
| "applyModel cfg (StatusLocked now later p mo) m = snd (statusLocked now later (getCircuitBreakerKey p mo) m)"


section \<open>The tool breaker follows its history\<close>

definition sameSettings :: "toolCircuitBreaker \<Rightarrow> toolCircuitBreaker \<Rightarrow> bool" where
  "sameSettings b0 b \<longleftrightarrow> b\<lparr>tb_state := Map.empty\<rparr> = b0\<lparr>tb_state := Map.empty\<rparr>"

lemma sameSettings_eqs:
  assumes "sameSettings b0 b"
  shows "breakerThreshold cfg b = breakerThreshold cfg b0" "breakerCooldown cfg b = breakerCooldown cfg b0"
    "breakerEnabled cfg b = breakerEnabled cfg b0"
proof -
  have "defaultThreshold b = defaultThreshold b0" "defaultCooldownSec b = defaultCooldownSec b0"
    "forceEnabled b = forceEnabled b0" "overrideConfig b = overrideConfig b0"
    using assms by (cases b; cases b0; simp add: sameSettings_def)+
  then show "breakerThreshold cfg b = breakerThreshold cfg b0" "breakerCooldown cfg b = breakerCooldown cfg b0"
    "breakerEnabled cfg b = breakerEnabled cfg b0"
    by (simp_all add: breakerThreshold_def breakerCooldown_def breakerEnabled_def)
qed

definition toolUpdate ::
  "toolBreakerConfig \<Rightarrow> toolCircuitBreaker \<Rightarrow> circuitStateKey \<Rightarrow> toolOp \<Rightarrow> circuitStateEntry option \<Rightarrow> circuitStateEntry option" where
  "toolUpdate cfg b0 k x e =
     (case x of
        ToolFailed now k' \<Rightarrow>
          if k' = k \<and> breakerEnabled cfg b0
          then Some \<lparr>consecutiveFails = (case e of None \<Rightarrow> 0 | Some en \<Rightarrow> consecutiveFails en) + 1, lastFailure = now\<rparr> else e
      | ToolSucceeded k' \<Rightarrow> if k' = k then None else e
      | Snapshot now \<Rightarrow> (case e of None \<Rightarrow> None | Some en \<Rightarrow> if stale cfg now b0 en then None else Some en))"

interpretation tool: slot_memory "sameSettings base" tb_state "applyTool cfg" "toolUpdate cfg base" for base cfg
proof
  fix s x k
  assume s: "sameSettings base s"
  show "sameSettings base (applyTool cfg x s)"
    using s by (cases x) (simp_all add: sameSettings_def RecordFailure_def RecordSuccess_def snapshot_def Let_def)
  note eqs = sameSettings_eqs [OF s]
  show "tb_state (applyTool cfg x s) k = toolUpdate cfg base k x (tb_state s k)"
    by (cases x)
      (simp_all add: toolUpdate_def RecordFailure_def RecordSuccess_def snapshot_def Let_def eqs stale_def entryHealthy_def split: option.split)
qed

text \<open>The failures of a target since its last success, latest first; the operations latest first.\<close>

fun toolFailures :: "circuitStateKey \<Rightarrow> toolOp list \<Rightarrow> instant list" where
  "toolFailures k [] = []"
| "toolFailures k (ToolFailed now k' # xs) = (if k' = k then now # toolFailures k xs else toolFailures k xs)"
| "toolFailures k (ToolSucceeded k' # xs) = (if k' = k then [] else toolFailures k xs)"
| "toolFailures k (Snapshot now # xs) = toolFailures k xs"

definition tripped :: "int \<Rightarrow> duration \<Rightarrow> instant \<Rightarrow> instant list \<Rightarrow> bool" where
  "tripped thr cool now ts = (case ts of [] \<Rightarrow> False | t # _ \<Rightarrow> int (length ts) \<ge> thr \<and> now - t < cool)"

fun isSnapshot :: "toolOp \<Rightarrow> bool" where
  "isSnapshot (Snapshot now) = True"
| "isSnapshot _ = False"

definition toolEntry :: "instant list \<Rightarrow> circuitStateEntry option \<Rightarrow> bool" where
  "toolEntry ts e = (case e of None \<Rightarrow> True | Some en \<Rightarrow>
     (case ts of [] \<Rightarrow> False | t # _ \<Rightarrow> lastFailure en = t \<and> consecutiveFails en \<le> int (length ts)))"

definition toolEntryExact :: "instant list \<Rightarrow> circuitStateEntry option" where
  "toolEntryExact ts = (case ts of [] \<Rightarrow> None | t # _ \<Rightarrow> Some \<lparr>consecutiveFails = int (length ts), lastFailure = t\<rparr>)"

lemma tool_slot_bound:
  assumes "tb_state b0 = Map.empty" "breakerEnabled cfg b0"
  shows "toolEntry (toolFailures k (rev xs)) (tb_state (fold (applyTool cfg) xs b0) k)"
proof (rule tool.slot_invariant [where P = "\<lambda>xs. toolEntry (toolFailures k (rev xs))" and base = b0])
  fix xs x e
  assume "toolEntry (toolFailures k (rev xs)) e"
  then show "toolEntry (toolFailures k (rev (xs @ [x]))) (toolUpdate cfg b0 k x e)"
    using assms(2) by (cases x) (auto simp: toolEntry_def toolUpdate_def split: option.splits list.splits)
qed (simp_all add: assms sameSettings_def toolEntry_def)

lemma tool_slot_exact:
  assumes "tb_state b0 = Map.empty" "breakerEnabled cfg b0" "\<forall>x\<in>set xs. \<not> isSnapshot x"
  shows "tb_state (fold (applyTool cfg) xs b0) k = toolEntryExact (toolFailures k (rev xs))"
proof (rule tool.slot_invariant [where P = "\<lambda>xs e. e = toolEntryExact (toolFailures k (rev xs))" and base = b0])
  fix zs x e
  assume "e = toolEntryExact (toolFailures k (rev zs))" "x \<in> set xs"
  then show "toolUpdate cfg b0 k x e = toolEntryExact (toolFailures k (rev (zs @ [x])))"
    using assms(2,3) by (cases x) (auto simp: toolEntryExact_def toolUpdate_def split: option.splits list.splits)
qed (simp_all add: assms sameSettings_def toolEntryExact_def)

lemma IsHealthy_iff:
  "IsHealthy cfg now k b \<longleftrightarrow> \<not> breakerEnabled cfg b \<or> (case tb_state b k of None \<Rightarrow> True | Some e \<Rightarrow> entryHealthy cfg now b e)"
  by (auto simp: IsHealthy_def entryHealthy_def split: option.split)

section \<open>The model breaker follows its history\<close>

text \<open>The clock does not run backwards within a call.\<close>

fun timed :: "modelOp \<Rightarrow> bool" where
  "timed (StatusLocked now later p mo) \<longleftrightarrow> now \<le> later"
| "timed _ = True"

fun opKey :: "modelOp \<Rightarrow> string" where
  "opKey (ModelFailed now p mo cause detail) = getCircuitBreakerKey p mo"
| "opKey (ModelSucceeded p mo) = getCircuitBreakerKey p mo"
| "opKey (StatusLocked now later p mo) = getCircuitBreakerKey p mo"

fun isStatus :: "modelOp \<Rightarrow> bool" where
  "isStatus (StatusLocked now later p mo) = True"
| "isStatus _ = False"

fun modelUpdate :: "int \<Rightarrow> string \<Rightarrow> modelOp \<Rightarrow> circuitBreakerEntry option \<Rightarrow> circuitBreakerEntry option" where
  "modelUpdate cfg k (ModelFailed now p mo cause detail) e =
     (if getCircuitBreakerKey p mo = k then
        (let n = (case e of None \<Rightarrow> 0 | Some en \<Rightarrow> cb_FailureCount en) + 1
         in Some \<lparr>cb_State = StateOpen, cb_OpenedAt = now,
              cb_CooldownUntil = now + escalate (nat (n - 1)) (getCircuitBreakerCooldownSeconds cfg) * second,
              cb_FailureCount = n, cb_TripCause = cause, cb_TripDetail = detail\<rparr>)
      else e)"
| "modelUpdate cfg k (ModelSucceeded p mo) e =
     (if getCircuitBreakerKey p mo = k then
        (case e of None \<Rightarrow> None | Some en \<Rightarrow> if cb_State en = StateClosed then e else None)
      else e)"
| "modelUpdate cfg k (StatusLocked now later p mo) e =
     (if getCircuitBreakerKey p mo = k then
        (case e of
           None \<Rightarrow> None
         | Some en \<Rightarrow> if cb_State en \<noteq> StateClosed \<and> now > cb_CooldownUntil en
             then Some (en\<lparr>cb_CooldownUntil := later + circuitBreakerProbeExtension\<rparr>) else e)
      else e)"

interpretation models: slot_memory "\<lambda>_. True" "\<lambda>m k. m k" "applyModel cfg" "modelUpdate cfg" for cfg
proof
  fix m x k
  show "applyModel cfg x m k = modelUpdate cfg k x (m k)"
    by (cases x) (auto simp: recordModelFailure_def RecordModelSuccess_def statusLocked_def Let_def split: option.split)
qed simp

text \<open>The failures of a model since its last success, latest first, each with what it reported.\<close>

fun modelFailures :: "string \<Rightarrow> modelOp list \<Rightarrow> (instant \<times> fallbackCause \<times> RateLimitDetail) list" where
  "modelFailures k [] = []"
| "modelFailures k (ModelFailed now p mo cause detail # xs) =
     (if getCircuitBreakerKey p mo = k then (now, cause, detail) # modelFailures k xs else modelFailures k xs)"
| "modelFailures k (ModelSucceeded p mo # xs) = (if getCircuitBreakerKey p mo = k then [] else modelFailures k xs)"
| "modelFailures k (StatusLocked now later p mo # xs) = modelFailures k xs"

definition cooldownAfter :: "int \<Rightarrow> nat \<Rightarrow> duration" where
  "cooldownAfter cfg n = escalate (n - 1) (getCircuitBreakerCooldownSeconds cfg) * second"

definition modelEntry :: "int \<Rightarrow> (instant \<times> fallbackCause \<times> RateLimitDetail) list \<Rightarrow> circuitBreakerEntry option \<Rightarrow> bool" where
  "modelEntry cfg fs e =
     (case fs of
        [] \<Rightarrow> e = None
      | (t, cause, detail) # _ \<Rightarrow>
          (\<exists>until \<ge> t + cooldownAfter cfg (length fs).
             e = Some \<lparr>cb_State = StateOpen, cb_OpenedAt = t, cb_CooldownUntil = until, cb_FailureCount = int (length fs),
                       cb_TripCause = cause, cb_TripDetail = detail\<rparr>))"

lemma modelEntry_step:
  assumes "modelEntry cfg (modelFailures k (rev xs)) e" "timed x"
  shows "modelEntry cfg (modelFailures k (rev (xs @ [x]))) (modelUpdate cfg k x e)"
proof (cases x)
  case (ModelFailed now p mo cause detail)
  then show ?thesis using assms(1)
    by (cases "modelFailures k (rev xs)") (auto simp: modelEntry_def cooldownAfter_def Let_def nat_add_distrib)
next
  case (ModelSucceeded p mo)
  then show ?thesis using assms(1) by (cases "modelFailures k (rev xs)") (auto simp: modelEntry_def)
next
  case (StatusLocked now later p mo)
  then show ?thesis using assms
    by (cases "modelFailures k (rev xs)") (auto simp: modelEntry_def circuitBreakerProbeExtension_def)
qed

lemma model_slot:
  assumes "\<forall>x\<in>set xs. timed x"
  shows "modelEntry cfg (modelFailures k (rev xs)) (fold (applyModel cfg) xs Map.empty k)"
proof (rule models.slot_invariant [where P = "\<lambda>xs. modelEntry cfg (modelFailures k (rev xs))"])
  fix ys x e
  assume "modelEntry cfg (modelFailures k (rev ys)) e" "x \<in> set xs"
  then show "modelEntry cfg (modelFailures k (rev (ys @ [x]))) (modelUpdate cfg k x e)"
    using assms by (blast intro: modelEntry_step)
qed (simp_all add: modelEntry_def)

text \<open>A model nobody reports on or asks about keeps its entry, except that granted probes move its cooldown on.\<close>

lemma probe_kept:
  assumes "m k = Some e" "cb_State e \<noteq> StateClosed" "u \<le> cb_CooldownUntil e" "\<forall>x\<in>set xs. timed x \<and> (isStatus x \<or> opKey x \<noteq> k)"
  shows "\<exists>en. fold (applyModel cfg) xs m k = Some en \<and> cb_State en \<noteq> StateClosed \<and> u \<le> cb_CooldownUntil en"
proof (rule models.slot_invariant [where P = "\<lambda>xs e. \<exists>en. e = Some en \<and> cb_State en \<noteq> StateClosed \<and> u \<le> cb_CooldownUntil en"])
  fix ys x and e' :: "circuitBreakerEntry option"
  assume "\<exists>en. e' = Some en \<and> cb_State en \<noteq> StateClosed \<and> u \<le> cb_CooldownUntil en" "x \<in> set xs"
  then show "\<exists>en. modelUpdate cfg k x e' = Some en \<and> cb_State en \<noteq> StateClosed \<and> u \<le> cb_CooldownUntil en"
    using assms(4) by (cases x) (auto simp: circuitBreakerProbeExtension_def)
qed (use assms in simp_all)

lemma escalate_closed:
  assumes "0 < c" "c \<le> maxCircuitBreakerCooldownSeconds"
  shows "escalate n c = min (c * 2 ^ n) maxCircuitBreakerCooldownSeconds"
  using assms
proof (induction n arbitrary: c)
  case (Suc n)
  show ?case
  proof (cases "c * 2 > maxCircuitBreakerCooldownSeconds")
    case True
    have "c * 2 \<le> c * 2 ^ Suc n" using Suc.prems by simp
    then show ?thesis using True by simp
  next
    case False
    then show ?thesis using Suc.IH [of "c * 2"] Suc.prems by (simp add: mult.assoc)
  qed
qed simp

lemma cooldown_pos: "0 < getCircuitBreakerCooldownSeconds cfg"
  by (simp add: getCircuitBreakerCooldownSeconds_def)

text \<open>
  A configured cooldown above the maximum: the first failure waits longer than the second, since the
  maximum is only applied after a doubling.
\<close>

lemma oversized_cooldown_shrinks: "cooldownAfter 600 1 = 600 * second \<and> cooldownAfter 600 2 = 300 * second"
  by (simp add: cooldownAfter_def getCircuitBreakerCooldownSeconds_def maxCircuitBreakerCooldownSeconds_def)

lemma failed_entry:
  assumes "\<forall>x\<in>set zs. opKey x \<noteq> getCircuitBreakerKey p mo" "\<forall>x\<in>set ys. timed x"
  shows "\<exists>e. fold (applyModel cfg) (ys @ ModelFailed t p mo c d # zs) Map.empty (getCircuitBreakerKey p mo) = Some e \<and>
    cb_State e = StateOpen \<and>
    cb_CooldownUntil e = t + cooldownAfter cfg (Suc (length (modelFailures (getCircuitBreakerKey p mo) (rev ys))))"
proof -
  let ?k = "getCircuitBreakerKey p mo" and ?m = "fold (applyModel cfg) ys Map.empty"
  have "modelUpdate cfg ?k x e = e" if "x \<in> set zs" for x e using assms(1) that by (cases x) auto
  then have z: "fold (modelUpdate cfg ?k) zs e = e" for e by (induction zs) auto
  have "modelEntry cfg (modelFailures ?k (rev ys)) (?m ?k)" by (rule model_slot [OF assms(2)])
  then have n: "(case ?m ?k of None \<Rightarrow> 0 | Some en \<Rightarrow> cb_FailureCount en) = int (length (modelFailures ?k (rev ys)))"
    by (auto simp: modelEntry_def split: list.splits)
  have "fold (applyModel cfg) (ys @ ModelFailed t p mo c d # zs) Map.empty ?k =
      fold (modelUpdate cfg ?k) zs (modelUpdate cfg ?k (ModelFailed t p mo c d) (?m ?k))"
    using models.slot_fold [where k = ?k and cfg = cfg and s = "applyModel cfg (ModelFailed t p mo c d) ?m" and xs = zs]
      models.slot_apply [where k = ?k and cfg = cfg and x = "ModelFailed t p mo c d" and s = ?m]
    by (simp del: modelUpdate.simps applyModel.simps)
  then show ?thesis using n by (simp add: z cooldownAfter_def Let_def)
qed

section \<open>Properties\<close>

text \<open>The breaker of tool targets refuses a call only if it is enabled and the target failed at least as often in
a row as the threshold says, the last time within the cooldown; and if no snapshot dropped entries, it
refuses every such call.\<close>

theorem tool_breaker_trips:
  assumes "tb_state b0 = Map.empty"
  shows "(\<not> IsHealthy cfg now k (fold (applyTool cfg) xs b0) \<longrightarrow>
       breakerEnabled cfg b0 \<and> tripped (breakerThreshold cfg b0) (breakerCooldown cfg b0) now (toolFailures k (rev xs))) \<and>
    ((\<forall>x\<in>set xs. \<not> isSnapshot x) \<longrightarrow>
       (\<not> IsHealthy cfg now k (fold (applyTool cfg) xs b0) \<longleftrightarrow>
        breakerEnabled cfg b0 \<and> tripped (breakerThreshold cfg b0) (breakerCooldown cfg b0) now (toolFailures k (rev xs))))"
proof -
  let ?b = "fold (applyTool cfg) xs b0"
  have good: "sameSettings b0 ?b" by (rule tool.good_fold) (simp add: sameSettings_def)
  note eqs = sameSettings_eqs [OF good, where cfg = cfg]
  show ?thesis
  proof (cases "breakerEnabled cfg b0")
    case True
    note bound = tool_slot_bound [OF assms True, of k xs] and exact = tool_slot_exact [OF assms True, of xs k]
    show ?thesis
      using bound exact True
      by (auto simp: IsHealthy_iff eqs entryHealthy_def toolEntry_def toolEntryExact_def tripped_def split: option.splits list.splits)
  next
    case False
    then show ?thesis by (simp add: IsHealthy_iff eqs)
  qed
qed


definition brokenTool :: circuitStateKey where
  "brokenTool = \<lparr>sk_toolType = ''mcp'', sk_accountId = ''acc'', sk_instanceId = ''i1''\<rparr>"

theorem tool_breaker_trips_witness:
  "\<not> IsHealthy \<lparr>ToolCircuitBreakerEnabled = True, ToolCircuitBreakerFailureThreshold = 2, ToolCircuitBreakerCooldownSeconds = 60\<rparr> (5 * second) brokenTool
      (fold (applyTool \<lparr>ToolCircuitBreakerEnabled = True, ToolCircuitBreakerFailureThreshold = 2, ToolCircuitBreakerCooldownSeconds = 60\<rparr>)
        [ToolFailed 0 brokenTool, ToolFailed second brokenTool] toolCircuitBreakerInstance)"
proof -
  define cfg where "cfg = \<lparr>ToolCircuitBreakerEnabled = True, ToolCircuitBreakerFailureThreshold = 2, ToolCircuitBreakerCooldownSeconds = 60\<rparr>"
  have "breakerEnabled cfg toolCircuitBreakerInstance \<and> tripped (breakerThreshold cfg toolCircuitBreakerInstance)
      (breakerCooldown cfg toolCircuitBreakerInstance) (5 * second) (toolFailures brokenTool (rev [ToolFailed 0 brokenTool, ToolFailed second brokenTool]))"
    by (simp add: cfg_def breakerEnabled_def breakerThreshold_def breakerCooldown_def toolCircuitBreakerInstance_def tripped_def)
  then show ?thesis
    using tool_breaker_trips [of toolCircuitBreakerInstance cfg "5 * second" brokenTool "[ToolFailed 0 brokenTool, ToolFailed second brokenTool]"]
    unfolding cfg_def by (simp add: toolCircuitBreakerInstance_def)
qed

text \<open>The answer about a model follows from what was reported of it: after no failure since the last
success the model is used; otherwise the answer names the cause and the limit of the latest failure,
and until the cooldown of that failure is over every caller is told to fail fast, whatever other
models, other callers and granted probes did.\<close>

theorem model_status_explained:
  assumes "\<forall>x\<in>set xs. timed x"
    "modelCircuitStatus t1 t2 t3 p mo (fold (applyModel cfg) xs Map.empty) = (st, m)"
  shows "case modelFailures (getCircuitBreakerKey p mo) (rev xs) of
      [] \<Rightarrow> \<not> cs_Open st
    | (t, cause, detail) # fs \<Rightarrow> cs_Cause st = cause \<and> cs_Detail st = detail \<and>
        (t1 < t + cooldownAfter cfg (Suc (length fs)) \<longrightarrow> cs_Open st)"
  using model_slot [OF assms(1), of cfg "getCircuitBreakerKey p mo"] assms(2)
  by (auto simp: modelEntry_def modelCircuitStatus_def statusRead_def statusLocked_def circuitStatusOf_def closedStatus_def Let_def
      split: list.splits if_splits)

definition dayLimit :: RateLimitDetail where
  "dayLimit = \<lparr>rl_Scope = ''requests'', rl_Window = ''day''\<rparr>"

definition throttled :: "modelOp list" where
  "throttled = [ModelFailed 0 ''openai'' ''gpt'' fallbackCauseUnavailable UnknownRateLimitDetail,
     StatusLocked (61 * second) (61 * second) ''openai'' ''gpt'',
     ModelFailed (62 * second) ''openai'' ''gpt'' fallbackCauseQuota dayLimit,
     ModelSucceeded ''openai'' ''mini'']"

theorem model_status_explained_witness:
  "case modelFailures (getCircuitBreakerKey ''openai'' ''gpt'') (rev throttled) of
      [] \<Rightarrow> False
    | (t, cause, detail) # fs \<Rightarrow>
        cs_Cause (fst (modelCircuitStatus (63 * second) 0 0 ''openai'' ''gpt'' (fold (applyModel 60) throttled Map.empty))) = cause \<and>
        cs_Detail (fst (modelCircuitStatus (63 * second) 0 0 ''openai'' ''gpt'' (fold (applyModel 60) throttled Map.empty))) = detail \<and>
        (63 * second < t + cooldownAfter 60 (Suc (length fs)) \<longrightarrow>
          cs_Open (fst (modelCircuitStatus (63 * second) 0 0 ''openai'' ''gpt'' (fold (applyModel 60) throttled Map.empty))))"
proof -
  have "\<forall>x\<in>set throttled. timed x" by (simp add: throttled_def)
  then show ?thesis
    using model_status_explained [of throttled "63 * second" 0 0 "''openai''" "''gpt''" 60, OF _ prod.collapse [symmetric]]
    by (simp add: throttled_def getCircuitBreakerKey_def)
qed

text \<open>C20: While a model is failing, at most one caller in fifteen seconds is let through to try it: a probe granted
after another one, with no outcome of the model reported in between, comes later than fifteen seconds
after it, whatever other callers asked meanwhile.\<close>

theorem one_probe_per_window:
  assumes "statusLocked n1 l1 k m = (st1, m1)" "m k = Some e" "\<not> cs_Open st1" "cb_State e \<noteq> StateClosed"
    "\<forall>x\<in>set xs. timed x \<and> (isStatus x \<or> opKey x \<noteq> k)"
    "statusLocked n2 l2 k (fold (applyModel cfg) xs m1) = (st2, m2)" "\<not> cs_Open st2"
  shows "n2 > l1 + circuitBreakerProbeExtension"
proof -
  have "m1 k = Some (e\<lparr>cb_CooldownUntil := l1 + circuitBreakerProbeExtension\<rparr>)"
    using assms(1-4) by (auto simp: statusLocked_def circuitStatusOf_def split: if_splits)
  then obtain en where "fold (applyModel cfg) xs m1 k = Some en" "cb_State en \<noteq> StateClosed"
      "l1 + circuitBreakerProbeExtension \<le> cb_CooldownUntil en"
    using probe_kept [of m1 k _ "l1 + circuitBreakerProbeExtension" xs cfg] assms(4,5) by fastforce
  then show ?thesis using assms(6,7) by (auto simp: statusLocked_def circuitStatusOf_def split: if_splits)
qed

definition downEntry :: circuitBreakerEntry where
  "downEntry = \<lparr>cb_State = StateOpen, cb_OpenedAt = 0, cb_CooldownUntil = 60 * second, cb_FailureCount = 1,
     cb_TripCause = fallbackCauseUnavailable, cb_TripDetail = UnknownRateLimitDetail\<rparr>"

theorem one_probe_per_window_witness:
  "77 * second > 61 * second + circuitBreakerProbeExtension"
proof (rule one_probe_per_window [where xs = "[StatusLocked (70 * second) (70 * second) ''openai'' ''gpt'']" and cfg = 60 and e = downEntry])
  let ?m = "[''openai:gpt'' \<mapsto> downEntry]"
  show "statusLocked (61 * second) (61 * second) ''openai:gpt'' ?m =
      (circuitStatusOf False downEntry, [''openai:gpt'' \<mapsto> downEntry\<lparr>cb_CooldownUntil := 76 * second\<rparr>])"
    by (simp add: statusLocked_def downEntry_def circuitBreakerProbeExtension_def)
  show "statusLocked (77 * second) (77 * second) ''openai:gpt''
      (fold (applyModel 60) [StatusLocked (70 * second) (70 * second) ''openai'' ''gpt''] [''openai:gpt'' \<mapsto> downEntry\<lparr>cb_CooldownUntil := 76 * second\<rparr>]) =
      (circuitStatusOf False downEntry, [''openai:gpt'' \<mapsto> downEntry\<lparr>cb_CooldownUntil := 92 * second\<rparr>])"
    by (simp add: statusLocked_def downEntry_def circuitBreakerProbeExtension_def getCircuitBreakerKey_def circuitStatusOf_def)
  show "cb_State downEntry \<noteq> StateClosed" by (simp add: downEntry_def)
qed (simp_all add: circuitStatusOf_def)

text \<open>A failing model is tried again: when more than the cooldown of its latest failure has passed and no other
caller asked about it, the next caller is let through; with a configured cooldown of at most five
minutes this cooldown is the configured one, doubled for every earlier failure since the last
success, and never above five minutes.\<close>

theorem model_is_retried:
  assumes "\<forall>x\<in>set ys. timed x" "\<forall>x\<in>set zs. opKey x \<noteq> getCircuitBreakerKey p mo"
    "n = length (modelFailures (getCircuitBreakerKey p mo) (rev ys))" "t + cooldownAfter cfg (Suc n) < t1" "t1 \<le> t2"
    "getCircuitBreakerCooldownSeconds cfg \<le> maxCircuitBreakerCooldownSeconds"
  shows "\<not> fst (IsModelCircuitOpen t1 t2 t3 p mo (fold (applyModel cfg) (ys @ ModelFailed t p mo c d # zs) Map.empty)) \<and>
    cooldownAfter cfg (Suc n) = min (getCircuitBreakerCooldownSeconds cfg * 2 ^ n) 300 * second"
proof
  let ?k = "getCircuitBreakerKey p mo" and ?m = "fold (applyModel cfg) (ys @ ModelFailed t p mo c d # zs) Map.empty"
  obtain e where e: "?m ?k = Some e" "cb_State e = StateOpen" "cb_CooldownUntil e = t + cooldownAfter cfg (Suc n)"
    using failed_entry [OF assms(2,1), of cfg t c d] assms(3) by blast
  then show "\<not> fst (IsModelCircuitOpen t1 t2 t3 p mo ?m)"
    using assms(4,5)
    by (simp add: IsModelCircuitOpen_def modelCircuitStatus_def statusRead_def statusLocked_def circuitStatusOf_def Let_def split: prod.split)
  show "cooldownAfter cfg (Suc n) = min (getCircuitBreakerCooldownSeconds cfg * 2 ^ n) 300 * second"
    using escalate_closed [OF cooldown_pos assms(6)] by (simp add: cooldownAfter_def maxCircuitBreakerCooldownSeconds_def)
qed

theorem model_is_retried_witness:
  "\<not> fst (IsModelCircuitOpen (62 * second) (62 * second) (62 * second) ''openai'' ''gpt''
      (fold (applyModel 60) ([] @ ModelFailed 0 ''openai'' ''gpt'' fallbackCauseQuota dayLimit # [ModelSucceeded ''openai'' ''mini'']) Map.empty)) \<and>
    cooldownAfter 60 (Suc 0) = min (getCircuitBreakerCooldownSeconds 60 * 2 ^ 0) 300 * second"
  by (rule model_is_retried)
     (simp_all add: getCircuitBreakerKey_def cooldownAfter_def getCircuitBreakerCooldownSeconds_def maxCircuitBreakerCooldownSeconds_def)

end
