(* ===== verification/GoRegexp.thy ===== *)
theory GoRegexp
  imports GoStrings
begin

text \<open>
  The part of Go's package \<open>regexp\<close> that the detectors use. A pattern at an offset yields the ends of
  its matches in the order of preference of leftmost-first matching: greedy repetition prefers
  longer runs, an alternative prefers its left side. A text is a list of bytes; the patterns modelled
  consist of ASCII classes, which no byte of a multi-byte character satisfies.
\<close>

datatype rx =
    Eps
  | Cls "char \<Rightarrow> bool"
  | StarC "char \<Rightarrow> bool"
  | Opt rx
  | Then rx rx
  | Alt rx rx
  | WordB

section \<open>Matching\<close>

text \<open>The slice \<open>s[i:j]\<close>.\<close>

definition sub :: "string \<Rightarrow> nat \<Rightarrow> nat \<Rightarrow> string" where
  "sub s i j = take (j - i) (drop i s)"

definition isLetter :: "char \<Rightarrow> bool" where
  "isLetter c = (let n = of_char c :: nat in (65 \<le> n \<and> n \<le> 90) \<or> (97 \<le> n \<and> n \<le> 122))"

definition isWordChar :: "char \<Rightarrow> bool" where
  "isWordChar c \<longleftrightarrow> isDigit c \<or> isLetter c \<or> c = CHR ''_''"

definition wordAt :: "string \<Rightarrow> nat \<Rightarrow> bool" where
  "wordAt s i \<longleftrightarrow> i < length s \<and> isWordChar (s ! i)"

primrec ends :: "rx \<Rightarrow> string \<Rightarrow> nat \<Rightarrow> nat list" where
  "ends Eps s i = [i]"
| "ends (Cls P) s i = (if i < length s \<and> P (s ! i) then [Suc i] else [])"
| "ends (StarC P) s i = rev [i..<Suc (i + length (takeWhile P (drop i s)))]"
| "ends (Opt r) s i = ends r s i @ [i]"
| "ends (Then r1 r2) s i = concat (map (ends r2 s) (ends r1 s i))"
| "ends (Alt r1 r2) s i = ends r1 s i @ ends r2 s i"
| "ends WordB s i = (if (i > 0 \<and> wordAt s (i - 1)) \<noteq> wordAt s i then [i] else [])"

text \<open>\<open>copies k P r\<close> is \<open>P{k}\<close> followed by \<open>r\<close>; \<open>upTo k P\<close> is \<open>P{0,k}\<close>. So \<open>P{2,4}\<close> is
\<open>copies 2 P (upTo 2 P)\<close> and \<open>P+\<close> is \<open>copies 1 P (StarC P)\<close>.\<close>

fun upTo :: "nat \<Rightarrow> (char \<Rightarrow> bool) \<Rightarrow> rx" where
  "upTo 0 P = Eps"
| "upTo (Suc k) P = Opt (Then (Cls P) (upTo k P))"

fun copies :: "nat \<Rightarrow> (char \<Rightarrow> bool) \<Rightarrow> rx \<Rightarrow> rx" where
  "copies 0 P r = r"
| "copies (Suc k) P r = Then (Cls P) (copies k P r)"

fun Seq :: "rx list \<Rightarrow> rx" where
  "Seq [] = Eps"
| "Seq [r] = r"
| "Seq (r # rs) = Then r (Seq rs)"

text \<open>The leftmost match from an offset on, and its end of first preference.\<close>

definition firstMatch :: "rx \<Rightarrow> string \<Rightarrow> nat \<Rightarrow> (nat \<times> nat) option" where
  "firstMatch r s pos =
     map_option (\<lambda>j. (j, hd (ends r s j))) (find (\<lambda>j. ends r s j \<noteq> []) [pos..<Suc (length s)])"

section \<open>Where matches lie\<close>

lemma sub_append:
  assumes "i \<le> j" "j \<le> k"
  shows "sub s i k = sub s i j @ sub s j k"
proof -
  obtain m n where "j = i + m" "k = i + m + n" using assms by (metis le_Suc_ex)
  then show ?thesis by (simp add: sub_def take_add add.commute)
qed

lemma sub_step: "i < length s \<Longrightarrow> sub s i (Suc i) = [s ! i]"
  by (simp add: sub_def take_Suc hd_drop_conv_nth)

lemma ends_bounds: "j \<in> set (ends r s i) \<Longrightarrow> i \<le> length s \<Longrightarrow> i \<le> j \<and> j \<le> length s"
proof (induction r arbitrary: i j)
  case (StarC P)
  have "length (takeWhile P (drop i s)) \<le> length s - i" using length_takeWhile_le [of P "drop i s"] by simp
  with StarC show ?case by auto
next
  case (Then r1 r2)
  then show ?case by fastforce
qed (auto split: if_splits)

lemma firstMatch_Some:
  assumes "firstMatch r s pos = Some (a, b)"
  shows "pos \<le> a \<and> a \<le> length s \<and> b \<in> set (ends r s a)"
  using assms by (auto simp: firstMatch_def dest!: find_Some_in)

lemma firstMatch_bounds: "firstMatch r s pos = Some (a, b) \<Longrightarrow> pos \<le> a \<and> a \<le> b \<and> b \<le> length s"
  using firstMatch_Some ends_bounds by blast

text \<open>\<open>FindAllStringIndex(s, -1)\<close>: an empty match right after the previous one is passed over. Only
empty matches step by a character, which the model takes to be one byte; the patterns below have none.\<close>

function findAllFrom :: "rx \<Rightarrow> string \<Rightarrow> nat \<Rightarrow> nat option \<Rightarrow> (nat \<times> nat) list" where
  "findAllFrom r s pos prev =
     (case firstMatch r s pos of
        None \<Rightarrow> []
      | Some (a, b) \<Rightarrow>
          let rest = findAllFrom r s (if b = pos then Suc pos else b) (Some b)
          in if b = pos \<and> prev = Some a then rest else (a, b) # rest)"
  by pat_completeness auto
termination
  by (relation "measure (\<lambda>(r, s, pos, prev). Suc (length s) - pos)") (auto dest!: firstMatch_bounds)

declare findAllFrom.simps [simp del]

definition FindAllStringIndex :: "rx \<Rightarrow> string \<Rightarrow> (nat \<times> nat) list" where
  "FindAllStringIndex r s = findAllFrom r s 0 None"

text \<open>Ranges in ascending order that do not overlap, from an offset on.\<close>

fun ascending :: "nat \<Rightarrow> nat \<Rightarrow> (nat \<times> nat) list \<Rightarrow> bool" where
  "ascending p n [] \<longleftrightarrow> p \<le> n"
| "ascending p n ((a, b) # rs) \<longleftrightarrow> p \<le> a \<and> a \<le> b \<and> ascending b n rs"

lemma ascending_weaken: "ascending p n rs \<Longrightarrow> q \<le> p \<Longrightarrow> ascending q n rs"
  by (cases rs) auto

lemma ascending_filter: "ascending p n rs \<Longrightarrow> ascending p n (filter P rs)"
proof (induction rs arbitrary: p)
  case (Cons r rs)
  obtain a b where r: "r = (a, b)" by force
  with Cons have "ascending b n (filter P rs)" by simp
  with Cons.prems r show ?case by (auto intro: ascending_weaken)
qed simp

lemma findAllFrom_ascending: "pos \<le> length s \<Longrightarrow> ascending pos (length s) (findAllFrom r s pos prev)"
proof (induction r s pos prev rule: findAllFrom.induct)
  case (1 r s pos prev)
  show ?case
  proof (cases "firstMatch r s pos")
    case None
    with 1 show ?thesis by (simp add: findAllFrom.simps)
  next
    case (Some ab)
    obtain a b where ab: "ab = (a, b)" by force
    note bounds = firstMatch_bounds [OF Some [unfolded ab]]
    let ?pos = "if b = pos then Suc pos else b"
    have "ascending b (length s) (findAllFrom r s ?pos (Some b))"
    proof (cases "?pos \<le> length s")
      case True
      then have "ascending ?pos (length s) (findAllFrom r s ?pos (Some b))" using 1(1) [OF Some ab [symmetric]] by simp
      then show ?thesis using bounds by (elim ascending_weaken) auto
    next
      case False
      then have "firstMatch r s ?pos = None" using firstMatch_bounds [of r s ?pos] by (cases "firstMatch r s ?pos") auto
      then show ?thesis using bounds by (simp add: findAllFrom.simps [of r s ?pos])
    qed
    then show ?thesis using Some ab bounds
      by (auto simp: findAllFrom.simps [of r s pos] Let_def intro: ascending_weaken)
  qed
qed

lemma findAllFrom_match: "(a, b) \<in> set (findAllFrom r s pos prev) \<Longrightarrow> a \<le> length s \<and> b \<in> set (ends r s a)"
proof (induction r s pos prev rule: findAllFrom.induct)
  case (1 r s pos prev)
  show ?case
  proof (cases "firstMatch r s pos")
    case None
    with 1(2) show ?thesis by (simp add: findAllFrom.simps [of r s pos])
  next
    case (Some cd)
    obtain c d where cd: "cd = (c, d)" by force
    from 1(2) Some cd have "(a, b) = (c, d) \<or> (a, b) \<in> set (findAllFrom r s (if d = pos then Suc pos else d) (Some d))"
      by (auto simp: findAllFrom.simps [of r s pos] Let_def split: if_splits)
    then show ?thesis using 1(1) [OF Some cd [symmetric]] firstMatch_Some [OF Some [unfolded cd]] by blast
  qed
qed

lemmas FindAllStringIndex_ascending = findAllFrom_ascending [where pos = 0 and prev = None, OF le0, folded FindAllStringIndex_def]
lemmas FindAllStringIndex_match = findAllFrom_match [where pos = 0 and prev = None, folded FindAllStringIndex_def]

section \<open>Which characters a match has\<close>

text \<open>Characters a pattern never matches, and characters of which every match has one.\<close>

primrec avoids :: "rx \<Rightarrow> char \<Rightarrow> bool" where
  "avoids Eps c \<longleftrightarrow> True"
| "avoids (Cls P) c \<longleftrightarrow> \<not> P c"
| "avoids (StarC P) c \<longleftrightarrow> \<not> P c"
| "avoids (Opt r) c \<longleftrightarrow> avoids r c"
| "avoids (Then r1 r2) c \<longleftrightarrow> avoids r1 c \<and> avoids r2 c"
| "avoids (Alt r1 r2) c \<longleftrightarrow> avoids r1 c \<and> avoids r2 c"
| "avoids WordB c \<longleftrightarrow> True"

primrec needs :: "rx \<Rightarrow> (char \<Rightarrow> bool) \<Rightarrow> bool" where
  "needs Eps Q \<longleftrightarrow> False"
| "needs (Cls P) Q \<longleftrightarrow> (\<forall>c. P c \<longrightarrow> Q c)"
| "needs (StarC P) Q \<longleftrightarrow> False"
| "needs (Opt r) Q \<longleftrightarrow> False"
| "needs (Then r1 r2) Q \<longleftrightarrow> needs r1 Q \<or> needs r2 Q"
| "needs (Alt r1 r2) Q \<longleftrightarrow> needs r1 Q \<and> needs r2 Q"
| "needs WordB Q \<longleftrightarrow> False"

lemma ends_avoids: "j \<in> set (ends r s i) \<Longrightarrow> i \<le> length s \<Longrightarrow> avoids r c \<Longrightarrow> c \<notin> set (sub s i j)"
proof (induction r arbitrary: i j)
  case (StarC P)
  let ?n = "length (takeWhile P (drop i s))"
  have "set (sub s i j) \<subseteq> set (takeWhile P (drop i s))"
  proof -
    have "j - i \<le> ?n" using StarC by auto
    then have "sub s i j = take (j - i) (take ?n (drop i s))" by (simp add: sub_def min_def)
    then show ?thesis by (metis set_take_subset takeWhile_eq_take)
  qed
  with StarC show ?case by (auto dest: set_takeWhileD)
next
  case (Then r1 r2)
  then obtain k where k: "k \<in> set (ends r1 s i)" "j \<in> set (ends r2 s k)" by auto
  then have "i \<le> k" "k \<le> length s" "k \<le> j" using ends_bounds [OF k(1) Then.prems(2)] ends_bounds [OF k(2)] by auto
  with Then k show ?case by (simp add: sub_append [of i k j])
qed (auto simp: sub_def take_Suc hd_drop_conv_nth split: if_splits)

lemma ends_needs: "j \<in> set (ends r s i) \<Longrightarrow> i \<le> length s \<Longrightarrow> needs r Q \<Longrightarrow> \<exists>c\<in>set (sub s i j). Q c"
proof (induction r arbitrary: i j)
  case (Then r1 r2)
  then obtain k where k: "k \<in> set (ends r1 s i)" "j \<in> set (ends r2 s k)" by auto
  then have "i \<le> k" "k \<le> length s" "k \<le> j" using ends_bounds [OF k(1) Then.prems(2)] ends_bounds [OF k(2)] by auto
  then have "set (sub s i j) = set (sub s i k) \<union> set (sub s k j)" by (simp add: sub_append [of i k j])
  with Then k \<open>k \<le> length s\<close> show ?case by (cases "needs r1 Q") (simp, blast)+
qed (auto simp: sub_step split: if_splits)

end
