(* ===== verification/PiiAudit.thy ===== *)
theory PiiAudit
  imports GoRegexp "HOL-Library.AList" "HOL-Library.Product_Lexorder" "HOL-Library.Sublist"
begin

text \<open>
  The audit record of scrubbed personal data in the LLM server
  (\<open>llm/llm-server/security/egressfilter/pii_scrub_event.go\<close>, \<open>pii_provenance.go\<close>, \<open>value_shape.go\<close>):
  the mask kept in place of a value, where in the prompt a value came from, the accumulator of a
  conversation turn and the event it is consolidated into.

  Maps are association lists in their iteration order. The Unicode tables beyond ASCII (\<open>uni\<close>), the
  random part of an audit id and the lookup of the reveal flag are arguments. The accumulator is never
  nil; its lock makes each call atomic, so concurrent calls are some sequence of calls.
\<close>

section \<open>Runes\<close>

definition contByte :: "nat \<Rightarrow> nat \<Rightarrow> nat \<Rightarrow> bool" where
  "contByte lo hi b \<longleftrightarrow> lo \<le> b \<and> b \<le> hi"

text \<open>\<open>utf8.DecodeRune\<close> on a non-empty list of bytes: the rune and its width; an invalid byte is \<open>U+FFFD\<close> of width one.\<close>

fun decodeRune :: "nat list \<Rightarrow> nat \<times> nat" where
  "decodeRune (b0 # bs) =
     (if b0 < 0x80 then (b0, 1)
      else case bs of
        b1 # bs1 \<Rightarrow>
          if 0xC2 \<le> b0 \<and> b0 \<le> 0xDF \<and> contByte 0x80 0xBF b1 then ((b0 - 0xC0) * 64 + (b1 - 0x80), 2)
          else (case bs1 of
            b2 # bs2 \<Rightarrow>
              if 0xE0 \<le> b0 \<and> b0 \<le> 0xEF \<and> contByte (if b0 = 0xE0 then 0xA0 else 0x80) (if b0 = 0xED then 0x9F else 0xBF) b1 \<and>
                 contByte 0x80 0xBF b2
              then ((b0 - 0xE0) * 4096 + (b1 - 0x80) * 64 + (b2 - 0x80), 3)
              else (case bs2 of
                b3 # bs3 \<Rightarrow>
                  if 0xF0 \<le> b0 \<and> b0 \<le> 0xF4 \<and> contByte (if b0 = 0xF0 then 0x90 else 0x80) (if b0 = 0xF4 then 0x8F else 0xBF) b1 \<and>
                     contByte 0x80 0xBF b2 \<and> contByte 0x80 0xBF b3
                  then ((b0 - 0xF0) * 262144 + (b1 - 0x80) * 4096 + (b2 - 0x80) * 64 + (b3 - 0x80), 4)
                  else (0xFFFD, 1)
              | [] \<Rightarrow> (0xFFFD, 1))
          | [] \<Rightarrow> (0xFFFD, 1))
      | [] \<Rightarrow> (0xFFFD, 1))"
| "decodeRune [] = (0xFFFD, 0)"

function runesOf :: "nat list \<Rightarrow> nat list" where
  "runesOf [] = []"
| "runesOf (b # bs) = (case decodeRune (b # bs) of (r, w) \<Rightarrow> r # runesOf (drop (w - 1) bs))"
  by pat_completeness auto
termination
  by (relation "measure length") auto

definition runes :: "string \<Rightarrow> nat list" where
  "runes s = runesOf (map of_char s)"

definition RuneCountInString :: "string \<Rightarrow> int" where
  "RuneCountInString s = int (length (runes s))"

section \<open>Masks\<close>

datatype runeClass = LowerCase | UpperCase | CaselessLetter | Digit | OtherRune

definition classOf :: "(nat \<Rightarrow> runeClass) \<Rightarrow> nat \<Rightarrow> runeClass" where
  "classOf uni r =
     (if r \<ge> 128 then uni r
      else if 97 \<le> r \<and> r \<le> 122 then LowerCase
      else if 65 \<le> r \<and> r \<le> 90 then UpperCase
      else if 48 \<le> r \<and> r \<le> 57 then Digit
      else OtherRune)"

definition maxShapeLen :: nat where "maxShapeLen = 64"

definition structuralRunes :: string where "structuralRunes = ''@.-_/:+ ''"

definition ellipsis :: string where "ellipsis = [CHR 0xE2, CHR 0x80, CHR 0xA6]"

definition maskRune :: "(nat \<Rightarrow> runeClass) \<Rightarrow> nat \<Rightarrow> char" where
  "maskRune uni r =
     (case classOf uni r of
        LowerCase \<Rightarrow> CHR ''a'' | UpperCase \<Rightarrow> CHR ''A'' | CaselessLetter \<Rightarrow> CHR ''a'' | Digit \<Rightarrow> CHR ''9''
      | OtherRune \<Rightarrow> if r < 128 \<and> char_of r \<in> set structuralRunes then char_of r else CHR ''#'')"

fun shapeLoop :: "(nat \<Rightarrow> runeClass) \<Rightarrow> nat \<Rightarrow> nat list \<Rightarrow> string" where
  "shapeLoop uni n [] = []"
| "shapeLoop uni n (r # rs) = (if n \<ge> maxShapeLen then ellipsis else maskRune uni r # shapeLoop uni (n + 1) rs)"

definition ValueShape :: "(nat \<Rightarrow> runeClass) \<Rightarrow> string \<Rightarrow> string" where
  "ValueShape uni v = (if v = '''' then '''' else shapeLoop uni 0 (runes v))"

definition RevealValues :: "(string \<Rightarrow> bool result) \<Rightarrow> string option \<Rightarrow> bool" where
  "RevealValues revealLookup tenantID =
     (case tenantID of
        None \<Rightarrow> False
      | Some tid \<Rightarrow> (case revealLookup tid of Inl err \<Rightarrow> False | Inr flag \<Rightarrow> flag))"

definition revealed :: "bool \<Rightarrow> string \<Rightarrow> string" where
  "revealed reveal v = (if reveal then v else '''')"

section \<open>Tokens\<close>

text \<open>\<open>strings.LastIndex\<close>, \<open>strings.Compare\<close> and \<open>strconv.Atoi\<close>.\<close>

definition LastIndex :: "string \<Rightarrow> string \<Rightarrow> nat option" where
  "LastIndex s p =
     (case rev (filter (\<lambda>i. HasPrefix (drop i s) p) [0..<Suc (length s)]) of [] \<Rightarrow> None | i # _ \<Rightarrow> Some i)"

definition compareStrings :: "string \<Rightarrow> string \<Rightarrow> int" where
  "compareStrings a b = (if a < b then -1 else if a = b then 0 else 1)"

definition Atoi :: "string \<Rightarrow> int option" where
  "Atoi s =
     (let neg = (s \<noteq> [] \<and> hd s = CHR ''-'');
          ds = (if s \<noteq> [] \<and> (hd s = CHR ''-'' \<or> hd s = CHR ''+'') then tl s else s);
          n = (if neg then - int (digitsVal ds) else int (digitsVal ds))
      in if ds = [] \<or> \<not> list_all isDigit ds then None
         else if n < - (2 ^ 63) \<or> n \<ge> 2 ^ 63 then None
         else Some n)"

definition piiTokenCategory :: "string \<Rightarrow> string" where
  "piiTokenCategory tok =
     (if length tok < 2 \<or> hd tok \<noteq> CHR ''['' \<or> last tok \<noteq> CHR '']'' then ''''
      else
        let inner = butlast (tl tok)
        in case LastIndex inner ''_'' of
             None \<Rightarrow> ''''
           | Some i \<Rightarrow> if i = 0 then '''' else take i inner)"

definition piiTokenIndex :: "string \<Rightarrow> int" where
  "piiTokenIndex tok =
     (case LastIndex tok ''_'' of
        None \<Rightarrow> 0
      | Some i \<Rightarrow>
          if \<not> HasSuffix tok '']'' then 0
          else case Atoi (sub tok (i + 1) (length tok - 1)) of None \<Rightarrow> 0 | Some n \<Rightarrow> n)"

definition compareTokens :: "string \<Rightarrow> string \<Rightarrow> int" where
  "compareTokens a b =
     (if piiTokenCategory a \<noteq> piiTokenCategory b then compareStrings (piiTokenCategory a) (piiTokenCategory b)
      else if piiTokenIndex a < piiTokenIndex b then -1
      else if piiTokenIndex a > piiTokenIndex b then 1
      else compareStrings a b)"

text \<open>Nil stands for the absent second map.\<close>

definition FilterPIIMappingByCategory ::
  "(string \<times> string) list \<Rightarrow> string list \<Rightarrow> (string \<times> string) list \<times> (string \<times> string) list" where
  "FilterPIIMappingByCategory mapping disabledCategories =
     (if disabledCategories = [] then (mapping, [])
      else
        let disabledSet = set (map (\<lambda>c. ToUpper (TrimSpace c)) disabledCategories)
        in (filter (\<lambda>(tok, v). piiTokenCategory tok \<notin> disabledSet) mapping,
            filter (\<lambda>(tok, v). piiTokenCategory tok \<in> disabledSet) mapping))"

section \<open>Provenance\<close>

record PIIValueDetail =
  pv_Token :: string
  pv_Category :: string
  pv_Source :: string
  pv_Agent :: string
  pv_Tool :: string
  pv_Origin :: string
  pv_DocURL :: string
  pv_Length :: int
  pv_Shape :: string
  pv_Value :: string

definition zeroDetail :: PIIValueDetail where
  "zeroDetail = \<lparr>pv_Token = '''', pv_Category = '''', pv_Source = '''', pv_Agent = '''', pv_Tool = '''', pv_Origin = '''',
     pv_DocURL = '''', pv_Length = 0, pv_Shape = '''', pv_Value = ''''\<rparr>"

record PIIPiece =
  pc_Text :: string
  pc_Source :: string
  pc_Tool :: string

definition newline :: string where "newline = [CHR 0x0A]"

definition kbBlockOpen :: string where "kbBlockOpen = ''<retrieved_knowledge>''"
definition kbBlockClose :: string where "kbBlockClose = ''</retrieved_knowledge>''"
definition kbSourceTag :: string where "kbSourceTag = newline @ ''Source: ''"
definition kbDocSeparator :: string where "kbDocSeparator = newline @ ''---'' @ newline"
definition OriginKnowledgeBase :: string where "OriginKnowledgeBase = ''knowledge_base''"
definition maxDocURLLen :: nat where "maxDocURLLen = 512"

definition sanitizeDocURL :: "string \<Rightarrow> string" where
  "sanitizeDocURL u0 =
     (let u1 = TrimSpace u0;
          u = takeWhile (\<lambda>c. c \<notin> {CHR '' '', CHR 0x09, CHR 0x0D, CHR 0x0A}) u1
      in if length u > maxDocURLLen then ''''
         else
           let lower = ToLower u
           in if \<not> HasPrefix lower ''https://'' \<and> \<not> HasPrefix lower ''http://'' then '''' else u)"

definition docBounds :: "string \<Rightarrow> nat \<Rightarrow> nat \<Rightarrow> nat \<times> nat" where
  "docBounds s opened idx =
     (let start0 = opened + length kbBlockOpen;
          docStart = (case LastIndex (sub s start0 idx) kbDocSeparator of
             None \<Rightarrow> start0 | Some i \<Rightarrow> start0 + i + length kbDocSeparator);
          end0 = (case Index (drop idx s) kbBlockClose of None \<Rightarrow> length s | Some i \<Rightarrow> idx + i);
          docEnd = (case Index (sub s idx end0) kbDocSeparator of None \<Rightarrow> end0 | Some i \<Rightarrow> idx + i)
      in (docStart, docEnd))"

definition kbOriginAt :: "string \<Rightarrow> nat \<Rightarrow> (string \<times> string) option" where
  "kbOriginAt s idx =
     (case LastIndex (take idx s) kbBlockOpen of
        None \<Rightarrow> None
      | Some opened \<Rightarrow>
          (case Index (sub s opened idx) kbBlockClose of
             Some _ \<Rightarrow> None
           | None \<Rightarrow>
               (case docBounds s opened idx of (docStart, docEnd) \<Rightarrow>
                  case LastIndex (sub s docStart docEnd) kbSourceTag of
                    None \<Rightarrow> Some (OriginKnowledgeBase, '''')
                  | Some src \<Rightarrow>
                      let rawURL = sub s (docStart + src + length kbSourceTag) docEnd
                      in Some (OriginKnowledgeBase, sanitizeDocURL (takeWhile (\<lambda>c. c \<noteq> CHR 0x0A) rawURL)))))"

fun attribution :: "PIIPiece list \<Rightarrow> string \<Rightarrow> PIIValueDetail option" where
  "attribution [] v = None"
| "attribution (p # ps) v =
     (case Index (pc_Text p) v of
        None \<Rightarrow> attribution ps v
      | Some idx \<Rightarrow>
          let d = zeroDetail\<lparr>pv_Source := pc_Source p, pv_Tool := pc_Tool p\<rparr>
          in Some (case kbOriginAt (pc_Text p) idx of
                     None \<Rightarrow> d
                   | Some (origin, docURL) \<Rightarrow> d\<lparr>pv_Origin := origin, pv_DocURL := docURL\<rparr>))"

definition BuildPIIProvenance :: "PIIPiece list \<Rightarrow> (string \<times> string) list \<Rightarrow> (string \<rightharpoonup> PIIValueDetail)" where
  "BuildPIIProvenance pieces mapping =
     (if pieces = [] \<or> mapping = [] then Map.empty
      else fold (\<lambda>(tok, v) out.
             if v = '''' then out
             else case attribution pieces v of None \<Rightarrow> out | Some d \<Rightarrow> out(v \<mapsto> d)) mapping Map.empty)"

text \<open>The hits of the secret filter are described in the same way.\<close>

record auditHit =
  ah_RuleID :: string
  ah_Start :: int
  ah_End :: int
  ah_Source :: string
  ah_Tool :: string
  ah_Origin :: string
  ah_DocURL :: string
  ah_Length :: int
  ah_Shape :: string
  ah_Value :: string
  ah_CustomRuleName :: string

definition annotateHit :: "(nat \<Rightarrow> runeClass) \<Rightarrow> bool \<Rightarrow> string \<Rightarrow> auditHit \<Rightarrow> auditHit" where
  "annotateHit uni reveal payload h =
     (if ah_Start h < 0 \<or> ah_End h > int (length payload) \<or> ah_End h < ah_Start h then h
      else
        let start = nat (ah_Start h);
            v = sub payload start (nat (ah_End h));
            h1 = h\<lparr>ah_Length := RuneCountInString v, ah_Shape := ValueShape uni v, ah_Value := revealed reveal v\<rparr>
        in case Index payload kbBlockOpen of
             None \<Rightarrow> h1
           | Some kbOpen \<Rightarrow>
               if start > kbOpen then
                 (case kbOriginAt payload start of
                    None \<Rightarrow> h1
                  | Some (origin, docURL) \<Rightarrow> h1\<lparr>ah_Origin := origin, ah_DocURL := docURL\<rparr>)
               else h1)"

definition annotateHits :: "(nat \<Rightarrow> runeClass) \<Rightarrow> bool \<Rightarrow> auditHit list \<Rightarrow> string \<Rightarrow> auditHit list" where
  "annotateHits uni reveal hits payload = (if hits = [] then hits else map (annotateHit uni reveal payload) hits)"

section \<open>The accumulator of a turn\<close>

record PIIValueAccumulator =
  acc_values :: "(string \<times> PIIValueDetail) list"
  acc_order :: "string list"
  acc_payloadBytes :: int
  acc_agents :: "(string \<times> int) list"

definition NewPIIValueAccumulator :: PIIValueAccumulator where
  "NewPIIValueAccumulator = \<lparr>acc_values = [], acc_order = [], acc_payloadBytes = 0, acc_agents = []\<rparr>"

text \<open>The tokens in their total order; \<open>slices.SortFunc\<close> is not stable, but no two tokens compare as equal.\<close>

definition sortTokens :: "string list \<Rightarrow> string list" where
  "sortTokens toks = SliceStable (\<lambda>a b. compareTokens a b < 0) toks"

definition detailOf ::
  "(nat \<Rightarrow> runeClass) \<Rightarrow> bool \<Rightarrow> (string \<rightharpoonup> PIIValueDetail) \<Rightarrow> string \<Rightarrow> string \<Rightarrow> string \<Rightarrow> PIIValueDetail" where
  "detailOf uni reveal provenance agentName tok v =
     (let d = map_get zeroDetail provenance v
      in d\<lparr>pv_Token := tok, pv_Category := piiTokenCategory tok, pv_Length := RuneCountInString v,
           pv_Shape := ValueShape uni v, pv_Value := revealed reveal v,
           pv_Agent := (if pv_Agent d = '''' then agentName else pv_Agent d)\<rparr>)"

fun addTokens ::
  "(nat \<Rightarrow> runeClass) \<Rightarrow> bool \<Rightarrow> (string \<rightharpoonup> PIIValueDetail) \<Rightarrow> string \<Rightarrow> (string \<times> string) list \<Rightarrow> string list \<Rightarrow>
     PIIValueAccumulator \<Rightarrow> int \<Rightarrow> PIIValueAccumulator \<times> int" where
  "addTokens uni reveal provenance agentName mapping [] a new = (a, new)"
| "addTokens uni reveal provenance agentName mapping (tok # toks) a new =
     (let v = map_get '''' (map_of mapping) tok
      in if map_of (acc_values a) v \<noteq> None then addTokens uni reveal provenance agentName mapping toks a new
         else addTokens uni reveal provenance agentName mapping toks
                (a\<lparr>acc_values := AList.update v (detailOf uni reveal provenance agentName tok v) (acc_values a),
                   acc_order := acc_order a @ [v]\<rparr>) (new + 1))"

definition AddWithProvenance ::
  "(nat \<Rightarrow> runeClass) \<Rightarrow> bool \<Rightarrow> (string \<times> string) list \<Rightarrow> (string \<rightharpoonup> PIIValueDetail) \<Rightarrow> string \<Rightarrow> int \<Rightarrow>
     PIIValueAccumulator \<Rightarrow> PIIValueAccumulator" where
  "AddWithProvenance uni reveal mapping provenance agentName payloadBytes a =
     (if mapping = [] then a
      else
        case addTokens uni reveal provenance agentName mapping (sortTokens (map fst mapping)) a 0 of (a1, new) \<Rightarrow>
          let a2 = a1\<lparr>acc_payloadBytes := acc_payloadBytes a1 + payloadBytes\<rparr>
          in if agentName \<noteq> '''' \<and> new > 0
             then a2\<lparr>acc_agents := AList.update agentName (map_get 0 (map_of (acc_agents a2)) agentName + new) (acc_agents a2)\<rparr>
             else a2)"

definition AddUnattributed ::
  "(nat \<Rightarrow> runeClass) \<Rightarrow> bool \<Rightarrow> (string \<times> string) list \<Rightarrow> string \<Rightarrow> int \<Rightarrow> PIIValueAccumulator \<Rightarrow> PIIValueAccumulator" where
  "AddUnattributed uni reveal mapping agentName payloadBytes a =
     AddWithProvenance uni reveal mapping Map.empty agentName payloadBytes a"

section \<open>Events\<close>

record PIIScrubEvent =
  ev_AuditID :: string
  ev_Detector :: string
  ev_HitCount :: int
  ev_Categories :: "string list"
  ev_Reversible :: bool
  ev_PayloadBytes :: int
  ev_AgentName :: string
  ev_CategoryCounts :: "(string \<times> int) list"
  ev_AgentCounts :: "(string \<times> int) list"
  ev_Values :: "PIIValueDetail list"
  ev_ValuesTruncated :: bool

definition DetectorPII :: string where "DetectorPII = ''pii''"
definition maxDetailValues :: nat where "maxDetailValues = 250"

definition newPIIAuditID :: "string \<Rightarrow> string" where
  "newPIIAuditID uuid = ''scrub-'' @ take 12 (ReplaceAll uuid ''-'' '''')"

definition NewPIIScrubEvent :: "string \<Rightarrow> (string \<times> string) list \<Rightarrow> bool \<Rightarrow> int \<Rightarrow> string \<Rightarrow> PIIScrubEvent" where
  "NewPIIScrubEvent uuid mapping reversible payloadBytes agentName =
     \<lparr>ev_AuditID = newPIIAuditID uuid, ev_Detector = DetectorPII, ev_HitCount = int (length mapping),
      ev_Categories = sort (remdups (filter (\<lambda>c. c \<noteq> '''') (map (\<lambda>(tok, v). piiTokenCategory tok) mapping))),
      ev_Reversible = reversible, ev_PayloadBytes = payloadBytes, ev_AgentName = agentName,
      ev_CategoryCounts = [], ev_AgentCounts = [], ev_Values = [], ev_ValuesTruncated = False\<rparr>"

fun countCategories :: "PIIValueDetail list \<Rightarrow> (string \<times> int) list \<Rightarrow> (string \<times> int) list" where
  "countCategories [] counts = counts"
| "countCategories (d # ds) counts =
     countCategories ds
       (if pv_Category d \<noteq> '''' then AList.update (pv_Category d) (map_get 0 (map_of counts) (pv_Category d) + 1) counts
        else counts)"

definition Consolidated :: "string \<Rightarrow> PIIValueAccumulator \<Rightarrow> PIIScrubEvent option" where
  "Consolidated uuid a =
     (if acc_values a = [] then None
      else
        let details0 = map snd (acc_values a);
            limit = (if length (acc_order a) > maxDetailValues then maxDetailValues else length (acc_order a));
            details = concat (map (\<lambda>v. case map_of (acc_values a) v of None \<Rightarrow> [] | Some d \<Rightarrow> [d]) (take limit (acc_order a)))
        in Some
          \<lparr>ev_AuditID = newPIIAuditID uuid, ev_Detector = DetectorPII, ev_HitCount = int (length (acc_values a)),
           ev_Categories = sort (remdups (filter (\<lambda>c. c \<noteq> '''') (map pv_Category details0))),
           ev_Reversible = True, ev_PayloadBytes = acc_payloadBytes a,
           ev_AgentName = Join (sort (map fst (acc_agents a))) '','',
           ev_CategoryCounts = countCategories details0 [], ev_AgentCounts = acc_agents a,
           ev_Values = details, ev_ValuesTruncated = (length (acc_order a) > maxDetailValues)\<rparr>)"

section \<open>Counting in association lists\<close>

lemma update_absent: "map_of ps k = None \<Longrightarrow> AList.update k v ps = ps @ [(k, v)]"
  by (induction ps) (auto split: if_splits)

lemma update_adds:
  "distinct (map fst ps) \<Longrightarrow>
     sum_list (map snd (AList.update k (map_get 0 (map_of ps) k + n) ps)) = sum_list (map snd ps) + (n :: int)"
  by (induction ps) (auto simp: map_get_def)

definition total :: "('k \<times> int) list \<Rightarrow> int" where
  "total counts = sum_list (map snd counts)"

lemma countCategories_total:
  "distinct (map fst counts) \<Longrightarrow>
     total (countCategories ds counts) = total counts + int (length (filter (\<lambda>d. pv_Category d \<noteq> '''') ds))"
  by (induction ds arbitrary: counts) (simp_all add: update_adds total_def distinct_update)

section \<open>The accumulator\<close>

definition accInv :: "PIIValueAccumulator \<Rightarrow> bool" where
  "accInv a \<longleftrightarrow> map fst (acc_values a) = acc_order a \<and> distinct (acc_order a) \<and> distinct (map fst (acc_agents a))"

lemma accInv_new: "accInv NewPIIValueAccumulator"
  by (simp add: accInv_def NewPIIValueAccumulator_def)

lemma seen_iff: "accInv a \<Longrightarrow> map_of (acc_values a) v = None \<longleftrightarrow> v \<notin> set (acc_order a)"
  by (metis accInv_def map_of_eq_None_iff set_map)

definition detailsIn :: "PIIValueAccumulator \<Rightarrow> PIIValueDetail set" where
  "detailsIn a = snd ` set (acc_values a)"

definition written ::
  "(nat \<Rightarrow> runeClass) \<Rightarrow> bool \<Rightarrow> (string \<rightharpoonup> PIIValueDetail) \<Rightarrow> string \<Rightarrow> (string \<times> string) list \<Rightarrow> PIIValueDetail set" where
  "written uni reveal prov ag m = (\<lambda>(tok, v). detailOf uni reveal prov ag tok v) ` set m"

lemma detailOf_written:
  assumes "tok \<in> fst ` set m"
  shows "detailOf uni reveal prov ag tok (map_get '''' (map_of m) tok) \<in> written uni reveal prov ag m"
proof -
  obtain v where v: "map_of m tok = Some v" using assms by (metis image_iff map_of_eq_None_iff option.exhaust)
  then have "(tok, v) \<in> set m" by (rule map_of_SomeD)
  then show ?thesis unfolding written_def using v by (force simp: map_get_def)
qed

lemma addTokens_spec:
  assumes "accInv a" "addTokens uni reveal prov ag mapping toks a new = (a', new')" "set toks \<subseteq> fst ` set mapping"
  shows "accInv a' \<and> set (acc_order a') = set (acc_order a) \<union> map_get '''' (map_of mapping) ` set toks \<and>
    new' = new + int (length (acc_order a')) - int (length (acc_order a)) \<and> length (acc_order a) \<le> length (acc_order a') \<and>
    acc_agents a' = acc_agents a \<and> acc_payloadBytes a' = acc_payloadBytes a \<and>
    detailsIn a' \<subseteq> detailsIn a \<union> written uni reveal prov ag mapping"
  using assms
proof (induction toks arbitrary: a new)
  case (Cons tok toks)
  let ?v = "map_get '''' (map_of mapping) tok"
  let ?b = "a\<lparr>acc_values := acc_values a @ [(?v, detailOf uni reveal prov ag tok ?v)], acc_order := acc_order a @ [?v]\<rparr>"
  show ?case
  proof (cases "?v \<in> set (acc_order a)")
    case True
    then have "map_of (acc_values a) ?v \<noteq> None" using Cons.prems(1) seen_iff by blast
    then show ?thesis using Cons.IH [OF Cons.prems(1), of new] Cons.prems(2,3) True by (simp add: Let_def insert_absorb)
  next
    case False
    then have none: "map_of (acc_values a) ?v = None" using Cons.prems(1) seen_iff by blast
    have "accInv ?b" using Cons.prems(1) False by (simp add: accInv_def)
    moreover have "detailOf uni reveal prov ag tok ?v \<in> written uni reveal prov ag mapping"
      using Cons.prems(3) by (intro detailOf_written) simp
    ultimately show ?thesis using Cons.IH [of ?b "new + 1"] Cons.prems(2,3) none
      by (auto simp: Let_def update_absent detailsIn_def)
  qed
qed auto

text \<open>A call of the scrubbing wrapper, and a turn as the sequence of its calls.\<close>

record scrubCall =
  sc_reveal :: bool
  sc_mapping :: "(string \<times> string) list"
  sc_provenance :: "string \<rightharpoonup> PIIValueDetail"
  sc_agent :: string
  sc_bytes :: int

definition addCall :: "(nat \<Rightarrow> runeClass) \<Rightarrow> scrubCall \<Rightarrow> PIIValueAccumulator \<Rightarrow> PIIValueAccumulator" where
  "addCall uni c = AddWithProvenance uni (sc_reveal c) (sc_mapping c) (sc_provenance c) (sc_agent c) (sc_bytes c)"

definition afterTurn :: "(nat \<Rightarrow> runeClass) \<Rightarrow> scrubCall list \<Rightarrow> PIIValueAccumulator" where
  "afterTurn uni calls = fold (addCall uni) calls NewPIIValueAccumulator"

definition scrubbedValues :: "scrubCall list \<Rightarrow> string set" where
  "scrubbedValues calls = (\<Union>c\<in>set calls. snd ` set (sc_mapping c))"

lemma mapped_values:
  "distinct (map fst m) \<Longrightarrow> map_get '''' (map_of m) ` set (sortTokens (map fst m)) = snd ` set m"
  by (force simp: sortTokens_def map_get_def image_iff)

lemma addCall_spec:
  assumes "accInv a" "distinct (map fst (sc_mapping c))"
  shows "accInv (addCall uni c a) \<and>
    set (acc_order (addCall uni c a)) = set (acc_order a) \<union> snd ` set (sc_mapping c) \<and>
    acc_payloadBytes (addCall uni c a) = acc_payloadBytes a + (if sc_mapping c = [] then 0 else sc_bytes c) \<and>
    (sc_agent c \<noteq> '''' \<longrightarrow>
       total (acc_agents (addCall uni c a)) - int (length (acc_order (addCall uni c a))) = total (acc_agents a) - int (length (acc_order a))) \<and>
    detailsIn (addCall uni c a) \<subseteq> detailsIn a \<union> written uni (sc_reveal c) (sc_provenance c) (sc_agent c) (sc_mapping c)"
proof (cases "sc_mapping c = []")
  case True
  with assms show ?thesis by (simp add: addCall_def AddWithProvenance_def)
next
  case False
  obtain a1 new where add: "addTokens uni (sc_reveal c) (sc_provenance c) (sc_agent c) (sc_mapping c)
      (sortTokens (map fst (sc_mapping c))) a 0 = (a1, new)" by force
  have "set (sortTokens (map fst (sc_mapping c))) \<subseteq> fst ` set (sc_mapping c)"
    by (simp add: sortTokens_def)
  note spec = addTokens_spec [OF assms(1) add this, unfolded mapped_values [OF assms(2)]]
  have ca: "addCall uni c a =
      (let a2 = a1\<lparr>acc_payloadBytes := acc_payloadBytes a1 + sc_bytes c\<rparr>
       in if sc_agent c \<noteq> '''' \<and> new > 0
          then a2\<lparr>acc_agents := AList.update (sc_agent c) (map_get 0 (map_of (acc_agents a2)) (sc_agent c) + new) (acc_agents a2)\<rparr>
          else a2)"
    using False add by (simp add: addCall_def AddWithProvenance_def)
  have "accInv (addCall uni c a)" using spec unfolding ca by (auto simp: accInv_def Let_def distinct_update)
  moreover have "acc_order (addCall uni c a) = acc_order a1" "detailsIn (addCall uni c a) = detailsIn a1"
      "acc_payloadBytes (addCall uni c a) = acc_payloadBytes a1 + sc_bytes c"
    unfolding ca by (simp_all add: Let_def detailsIn_def)
  moreover have "total (acc_agents (addCall uni c a)) = total (acc_agents a1) + new" if "sc_agent c \<noteq> ''''"
  proof -
    have "distinct (map fst (acc_agents a1))" "new \<ge> 0" using spec by (auto simp: accInv_def)
    then show ?thesis using that unfolding ca by (auto simp: Let_def total_def update_adds)
  qed
  ultimately show ?thesis using spec False by auto
qed

lemma afterTurn_spec:
  assumes "\<forall>c\<in>set calls. distinct (map fst (sc_mapping c))"
  shows "accInv (afterTurn uni calls) \<and> set (acc_order (afterTurn uni calls)) = scrubbedValues calls \<and>
    acc_payloadBytes (afterTurn uni calls) = (\<Sum>c\<leftarrow>calls. if sc_mapping c = [] then 0 else sc_bytes c) \<and>
    ((\<forall>c\<in>set calls. sc_agent c \<noteq> '''') \<longrightarrow> total (acc_agents (afterTurn uni calls)) = int (length (acc_order (afterTurn uni calls)))) \<and>
    detailsIn (afterTurn uni calls) \<subseteq>
      (\<Union>c\<in>set calls. written uni (sc_reveal c) (sc_provenance c) (sc_agent c) (sc_mapping c))"
  using assms
proof (induction calls rule: rev_induct)
  case Nil
  show ?case by (simp add: afterTurn_def scrubbedValues_def accInv_new) (simp add: NewPIIValueAccumulator_def total_def detailsIn_def)
next
  case (snoc c calls)
  have a: "afterTurn uni (calls @ [c]) = addCall uni c (afterTurn uni calls)" by (simp add: afterTurn_def)
  have "accInv (afterTurn uni calls)" "distinct (map fst (sc_mapping c))" using snoc by simp_all
  from addCall_spec [OF this, of uni] snoc show ?case unfolding a by (auto simp: scrubbedValues_def)
qed

lemma listed_details:
  assumes "accInv a"
  shows "concat (map (\<lambda>v. case map_of (acc_values a) v of None \<Rightarrow> [] | Some d \<Rightarrow> [d]) (take n (acc_order a))) =
    take n (map snd (acc_values a))"
proof -
  have "concat (map (\<lambda>v. case map_of (acc_values a) v of None \<Rightarrow> [] | Some d \<Rightarrow> [d]) (map fst ps)) = map snd ps"
    if "set ps \<subseteq> set (acc_values a)" for ps
    using that assms by (induction ps) (auto simp: accInv_def)
  from this [of "take n (acc_values a)"] show ?thesis
    using assms set_take_subset by (metis accInv_def take_map)
qed

text \<open>The order in which the tokens of a call come does not matter.\<close>

definition tokenKey :: "string \<Rightarrow> string \<times> int \<times> string" where
  "tokenKey t = (piiTokenCategory t, piiTokenIndex t, t)"

lemma compareTokens_less: "compareTokens a b < 0 \<longleftrightarrow> tokenKey a < tokenKey b"
  by (auto simp: compareTokens_def compareStrings_def tokenKey_def less_prod_def')

lemma sortTokens_key: "sortTokens ts = sort_key tokenKey ts"
proof -
  have "insert_stable (\<lambda>a b. tokenKey a < tokenKey b) x xs = insort_key tokenKey x xs" for x xs
    by (induction xs) auto
  then show ?thesis unfolding sortTokens_def compareTokens_less by (induction ts) simp_all
qed

lemma sortTokens_mset: "mset xs = mset ys \<Longrightarrow> sortTokens xs = sortTokens ys"
  unfolding sortTokens_key by (intro sort_key_inj_key_eq) (auto simp: inj_on_def tokenKey_def)

lemma addTokens_cong:
  "map_of m = map_of m' \<Longrightarrow> addTokens uni reveal prov ag m toks a new = addTokens uni reveal prov ag m' toks a new"
  by (induction toks arbitrary: a new) (simp_all add: Let_def)

section \<open>What is kept of a value\<close>

definition maskChars :: "char set" where
  "maskChars = set ''aA9#'' \<union> set ''@.-_/:+ '' \<union> {CHR 0xE2, CHR 0x80, CHR 0xA6}"

lemma shapeLoop_masked: "set (shapeLoop uni n rs) \<subseteq> maskChars"
proof (induction rs arbitrary: n)
  case (Cons r rs)
  have "maskRune uni r \<in> maskChars"
    by (auto simp: maskRune_def maskChars_def structuralRunes_def split: runeClass.splits)
  with Cons [of "n + 1"] show ?case by (auto simp: maskChars_def ellipsis_def)
qed simp

lemma shapeLoop_length: "n \<le> 64 \<Longrightarrow> length (shapeLoop uni n rs) \<le> (64 - n) + 3"
proof (induction rs arbitrary: n)
  case (Cons r rs)
  show ?case
  proof (cases "n = 64")
    case False
    then show ?thesis using Cons.IH [of "n + 1"] Cons.prems by (simp add: maxShapeLen_def)
  qed (simp add: maxShapeLen_def ellipsis_def)
qed simp

lemma ValueShape_masked: "set (ValueShape uni v) \<subseteq> maskChars"
  by (simp add: ValueShape_def shapeLoop_masked)

lemma ValueShape_length: "length (ValueShape uni v) \<le> 67"
  using shapeLoop_length [of 0 uni "runes v"] by (simp add: ValueShape_def)

definition safeURL :: "string \<Rightarrow> bool" where
  "safeURL u \<longleftrightarrow> u = '''' \<or>
     (length u \<le> 512 \<and> (HasPrefix (ToLower u) ''https://'' \<or> HasPrefix (ToLower u) ''http://'') \<and>
      (\<forall>c\<in>set u. c \<notin> {CHR '' '', CHR 0x09, CHR 0x0D, CHR 0x0A}))"

lemma sanitizeDocURL_safe: "safeURL (sanitizeDocURL u)"
  unfolding sanitizeDocURL_def safeURL_def by (auto simp: Let_def maxDocURLLen_def dest: set_takeWhileD)

lemma sublist_trimBy: "sublist (trimBy P s) s"
proof -
  have "sublist (dropWhile P (rev (dropWhile P s))) (rev (dropWhile P s))" by simp
  then have "sublist (trimBy P s) (dropWhile P s)" unfolding trimBy_def by (simp only: sublist_rev_left)
  then show ?thesis by (rule sublist_order.order.trans) simp
qed

lemma sublist_sub: "sublist (sub s i j) s"
  unfolding sub_def by (rule sublist_order.order.trans [OF sublist_take sublist_drop])

lemma sublist_sanitized: "sublist (sanitizeDocURL u) u"
proof -
  have "sublist (takeWhile P (TrimSpace u)) u" for P
    unfolding TrimSpace_def by (rule sublist_order.order.trans [OF sublist_takeWhile sublist_trimBy])
  then show ?thesis by (simp add: sanitizeDocURL_def Let_def)
qed

text \<open>
  The labels a value may be given: those of the first piece of the prompt it stands in, and an
  address that stands in that piece.
\<close>

definition labelledBy :: "PIIPiece list \<Rightarrow> string \<Rightarrow> PIIValueDetail \<Rightarrow> bool" where
  "labelledBy pieces v d \<longleftrightarrow>
     (\<exists>before p after. pieces = before @ p # after \<and> (\<forall>q\<in>set before. \<not> sublist v (pc_Text q)) \<and> sublist v (pc_Text p) \<and>
        pv_Source d = pc_Source p \<and> pv_Tool d = pc_Tool p \<and>
        (pv_Origin d = '''' \<and> pv_DocURL d = '''' \<or>
         pv_Origin d = ''knowledge_base'' \<and> safeURL (pv_DocURL d) \<and> sublist (pv_DocURL d) (pc_Text p)))"

lemma kbOriginAt_url:
  assumes "kbOriginAt s idx = Some (origin, url)"
  shows "origin = ''knowledge_base'' \<and> safeURL url \<and> sublist url s"
proof -
  have "sublist (sanitizeDocURL (takeWhile P (sub s i j))) s" for P i j
    by (rule sublist_order.order.trans [OF sublist_sanitized]) (rule sublist_order.order.trans [OF sublist_takeWhile sublist_sub])
  moreover have "safeURL ''''" by (simp add: safeURL_def)
  ultimately show ?thesis
    using assms sanitizeDocURL_safe by (auto simp: kbOriginAt_def Let_def OriginKnowledgeBase_def split: option.splits prod.splits)
qed

lemma Index_sublist: "Index s v = None \<longleftrightarrow> \<not> sublist v s"
  using Contains_iff [of s v] by (auto simp: Contains_def sublist_def)

lemma attribution_labels:
  assumes "attribution ps v = Some d"
  shows "labelledBy ps v d \<and> pv_Agent d = ''''"
  using assms
proof (induction ps)
  case (Cons p ps)
  show ?case
  proof (cases "Index (pc_Text p) v")
    case None
    with Cons have "labelledBy ps v d" "pv_Agent d = ''''" by auto
    then obtain before q after where "ps = before @ q # after" "\<forall>q\<in>set before. \<not> sublist v (pc_Text q)" "sublist v (pc_Text q)"
      "pv_Source d = pc_Source q" "pv_Tool d = pc_Tool q"
      "pv_Origin d = '''' \<and> pv_DocURL d = '''' \<or>
         pv_Origin d = ''knowledge_base'' \<and> safeURL (pv_DocURL d) \<and> sublist (pv_DocURL d) (pc_Text q)"
      unfolding labelledBy_def by blast
    moreover have "\<not> sublist v (pc_Text p)" using None Index_sublist by blast
    ultimately have "labelledBy (p # ps) v d"
      unfolding labelledBy_def by (intro exI [of _ "p # before"] exI [of _ q] exI [of _ after]) simp
    then show ?thesis using \<open>pv_Agent d = ''''\<close> by blast
  next
    case (Some idx)
    let ?d = "zeroDetail\<lparr>pv_Source := pc_Source p, pv_Tool := pc_Tool p\<rparr>"
    have sub: "sublist v (pc_Text p)" using Some Index_sublist [of "pc_Text p" v] by simp
    have d: "d = (case kbOriginAt (pc_Text p) idx of None \<Rightarrow> ?d | Some (origin, docURL) \<Rightarrow> ?d\<lparr>pv_Origin := origin, pv_DocURL := docURL\<rparr>)"
      using Cons.prems Some by (simp add: Let_def)
    have f: "pv_Source d = pc_Source p" "pv_Tool d = pc_Tool p" "pv_Agent d = ''''"
      "pv_Origin d = '''' \<and> pv_DocURL d = '''' \<or>
         pv_Origin d = ''knowledge_base'' \<and> safeURL (pv_DocURL d) \<and> sublist (pv_DocURL d) (pc_Text p)"
      unfolding d using kbOriginAt_url by (auto simp: zeroDetail_def split: option.split)
    then have "labelledBy (p # ps) v d"
      unfolding labelledBy_def using sub by (intro exI [of _ "[]"] exI [of _ p] exI [of _ ps]) simp
    then show ?thesis using f(3) by blast
  qed
qed simp

definition attribute :: "PIIPiece list \<Rightarrow> string \<times> string \<Rightarrow> (string \<rightharpoonup> PIIValueDetail) \<Rightarrow> (string \<rightharpoonup> PIIValueDetail)" where
  "attribute pieces = (\<lambda>(tok, v) out.
     if v = [] then out else case attribution pieces v of None \<Rightarrow> out | Some d \<Rightarrow> out(v \<mapsto> d))"

lemma attribute_fold:
  assumes "\<forall>v d. out v = Some d \<longrightarrow> attribution pieces v = Some d"
  shows "\<forall>v d. fold (attribute pieces) m out v = Some d \<longrightarrow> attribution pieces v = Some d"
  using assms
proof (induction m arbitrary: out)
  case (Cons x m)
  have "\<forall>v d. attribute pieces x out v = Some d \<longrightarrow> attribution pieces v = Some d"
  proof (intro allI impI)
    fix v d
    assume a: "attribute pieces x out v = Some d"
    show "attribution pieces v = Some d"
    proof (cases "out v = Some d")
      case True
      then show ?thesis using Cons.prems by blast
    next
      case False
      obtain tok w where x: "x = (tok, w)" by (cases x)
      obtain g where g: "attribution pieces w = Some g" "w \<noteq> []"
        using a False by (cases "attribution pieces w"; cases "w = []") (simp_all add: attribute_def x)
      then show ?thesis using a False by (cases "v = w") (simp_all add: attribute_def x)
    qed
  qed
  then show ?case unfolding fold_simps by (rule Cons.IH)
qed simp

lemma provenance_attribution:
  assumes "BuildPIIProvenance pieces m v = Some d"
  shows "attribution pieces v = Some d"
proof -
  have "fold (attribute pieces) m Map.empty v = Some d"
    using assms by (simp add: BuildPIIProvenance_def attribute_def split: if_splits)
  then show ?thesis using attribute_fold [of Map.empty pieces m] by simp
qed

lemma Consolidated_values:
  assumes "accInv a" "Consolidated uuid a = Some e"
  shows "ev_Values e = take 250 (map snd (acc_values a))"
proof -
  have "length (acc_values a) = length (acc_order a)" using assms(1) by (metis accInv_def length_map)
  then show ?thesis
    using assms by (auto simp: Consolidated_def Let_def listed_details maxDetailValues_def split: if_splits)
qed

section \<open>Properties\<close>

text \<open>C22: The audit event of a turn counts right: there is one exactly if some value was scrubbed, its hit count is
the number of different values of the whole turn, however often and by whichever agent they were
seen; the list has as many entries, or the first 250 with the truncation marked; with every call
attributed the counts of the agents add up to the hit count; the counts of the categories add up to the
values that have a category; and the payload is that of the calls that found something.\<close>

theorem audit_counts:
  assumes "\<forall>c\<in>set calls. distinct (map fst (sc_mapping c))"
  shows "case Consolidated uuid (afterTurn uni calls) of
      None \<Rightarrow> scrubbedValues calls = {}
    | Some e \<Rightarrow> scrubbedValues calls \<noteq> {} \<and> ev_HitCount e = int (card (scrubbedValues calls)) \<and>
        int (length (ev_Values e)) = min 250 (ev_HitCount e) \<and> ev_ValuesTruncated e = (ev_HitCount e > 250) \<and>
        ((\<forall>c\<in>set calls. sc_agent c \<noteq> '''') \<longrightarrow> total (ev_AgentCounts e) = ev_HitCount e) \<and>
        total (ev_CategoryCounts e) \<le> ev_HitCount e \<and>
        (\<not> ev_ValuesTruncated e \<longrightarrow> total (ev_CategoryCounts e) = int (length (filter (\<lambda>d. pv_Category d \<noteq> '''') (ev_Values e)))) \<and>
        ev_PayloadBytes e = (\<Sum>c\<leftarrow>calls. if sc_mapping c = [] then 0 else sc_bytes c)"
proof -
  let ?a = "afterTurn uni calls"
  note spec = afterTurn_spec [OF assms, of uni]
  then have inv: "map fst (acc_values ?a) = acc_order ?a" "distinct (acc_order ?a)" "accInv ?a" by (auto simp: accInv_def)
  have len: "length (acc_values ?a) = length (acc_order ?a)" using inv(1) by (metis length_map)
  have card: "length (acc_order ?a) = card (scrubbedValues calls)" using inv(2) spec by (metis distinct_card)
  show ?thesis
  proof (cases "acc_values ?a = []")
    case True
    then have "Consolidated uuid ?a = None" "acc_order ?a = []" using len by (auto simp: Consolidated_def)
    then show ?thesis using spec by auto
  next
    case False
    then have "scrubbedValues calls \<noteq> {}" using spec len by auto
    moreover obtain e where e: "Consolidated uuid ?a = Some e" using False by (auto simp: Consolidated_def Let_def)
    moreover from e False have "ev_HitCount e = int (length (acc_order ?a))" "ev_AgentCounts e = acc_agents ?a"
        "ev_CategoryCounts e = countCategories (map snd (acc_values ?a)) []" "ev_PayloadBytes e = acc_payloadBytes ?a"
        "ev_ValuesTruncated e = (length (acc_order ?a) > 250)"
      by (auto simp: Consolidated_def Let_def len maxDetailValues_def)
    moreover note Consolidated_values [OF inv(3) e]
    moreover have "total (countCategories (map snd (acc_values ?a)) []) = int (length (filter (\<lambda>d. pv_Category d \<noteq> '''') (map snd (acc_values ?a))))"
      by (simp add: countCategories_total) (simp add: total_def)
    moreover have "length (filter (\<lambda>d. pv_Category d \<noteq> '''') (map snd (acc_values ?a))) \<le> length (acc_order ?a)"
      using length_filter_le [of _ "map snd (acc_values ?a)"] len by simp
    ultimately show ?thesis using spec card len by (simp del: filter_map)
  qed
qed

text \<open>C21: What the audit event keeps of a scrubbed value. With value reveal off and origins taken from the prompt,
every entry belongs to a pair of a token and a value of some call: it has the token, its category, the
number of characters of the value and the agent of the call, and no value. Its mask has at most 64
characters and an ellipsis, all of them class letters or the fixed structural characters. It carries
no origin, or the source and the tool of the first piece of the prompt the value stands in; an
address is kept only for a retrieved document, has at most 512 bytes and no white space, begins with
http or https, and stands in that piece. Nothing else of the prompt is kept.\<close>

theorem audit_hides_values:
  assumes "\<forall>c\<in>set calls. distinct (map fst (sc_mapping c))"
    "\<forall>c\<in>set calls. \<not> sc_reveal c \<and> sc_provenance c = BuildPIIProvenance (pieces c) (sc_mapping c)"
    "Consolidated uuid (afterTurn uni calls) = Some e" "d \<in> set (ev_Values e)"
  shows "pv_Value d = '''' \<and> set (pv_Shape d) \<subseteq> maskChars \<and> length (pv_Shape d) \<le> 67 \<and>
    (\<exists>c\<in>set calls. \<exists>(tok, v)\<in>set (sc_mapping c).
       pv_Token d = tok \<and> pv_Category d = piiTokenCategory tok \<and> pv_Length d = RuneCountInString v \<and> pv_Agent d = sc_agent c \<and>
       (pv_Source d = '''' \<and> pv_Tool d = '''' \<and> pv_Origin d = '''' \<and> pv_DocURL d = '''' \<or>
        (\<exists>before p after. pieces c = before @ p # after \<and>
           (\<forall>q\<in>set before. \<not> sublist v (pc_Text q)) \<and> sublist v (pc_Text p) \<and>
           pv_Source d = pc_Source p \<and> pv_Tool d = pc_Tool p \<and>
           (pv_Origin d = '''' \<and> pv_DocURL d = '''' \<or>
            pv_Origin d = ''knowledge_base'' \<and> safeURL (pv_DocURL d) \<and> sublist (pv_DocURL d) (pc_Text p)))))"
proof -
  note spec = afterTurn_spec [OF assms(1), of uni]
  then have "ev_Values e = take 250 (map snd (acc_values (afterTurn uni calls)))" using assms(3) Consolidated_values by blast
  then have "d \<in> detailsIn (afterTurn uni calls)" using assms(4) set_take_subset [of 250 "map snd (acc_values (afterTurn uni calls))"]
    by (auto simp: detailsIn_def)
  then obtain c where c: "c \<in> set calls" "d \<in> written uni (sc_reveal c) (sc_provenance c) (sc_agent c) (sc_mapping c)"
    using spec by blast
  then obtain tok v where m: "(tok, v) \<in> set (sc_mapping c)" and d: "d = detailOf uni False (sc_provenance c) (sc_agent c) tok v"
    using assms(2) by (auto simp: written_def)
  have fields: "pv_Value d = ''''" "pv_Shape d = ValueShape uni v" "pv_Token d = tok" "pv_Category d = piiTokenCategory tok"
    "pv_Length d = RuneCountInString v"
    by (simp_all add: d detailOf_def Let_def revealed_def)
  let ?g = "map_get zeroDetail (sc_provenance c) v"
  have same: "pv_Source d = pv_Source ?g" "pv_Tool d = pv_Tool ?g" "pv_Origin d = pv_Origin ?g" "pv_DocURL d = pv_DocURL ?g"
    "pv_Agent d = (if pv_Agent ?g = '''' then sc_agent c else pv_Agent ?g)"
    by (simp_all add: d detailOf_def Let_def)
  have labels: "pv_Agent d = sc_agent c \<and>
    (pv_Source d = '''' \<and> pv_Tool d = '''' \<and> pv_Origin d = '''' \<and> pv_DocURL d = '''' \<or> labelledBy (pieces c) v d)"
  proof (cases "sc_provenance c v")
    case None
    then show ?thesis using same by (simp add: map_get_def zeroDetail_def)
  next
    case (Some g)
    then have "attribution (pieces c) v = Some g" using assms(2) c(1) provenance_attribution by metis
    from attribution_labels [OF this] Some same show ?thesis by (simp add: map_get_def labelledBy_def)
  qed
  have mask: "set (pv_Shape d) \<subseteq> maskChars" "length (pv_Shape d) \<le> 67"
    unfolding fields(2) by (rule ValueShape_masked, rule ValueShape_length)
  show ?thesis unfolding labelledBy_def [symmetric]
    by (intro conjI fields(1) mask bexI [OF _ c(1)] bexI [OF _ m]) (use fields labels in simp)
qed

text \<open>The accumulator does not depend on the iteration order of the map it is given, though it keeps values in
the order of their first appearance and truncates the list.\<close>

theorem audit_order_independent:
  assumes "mset m = mset m'" "distinct (map fst m)"
  shows "AddWithProvenance uni reveal m prov ag bytes a = AddWithProvenance uni reveal m' prov ag bytes a"
proof -
  have fsts: "mset (map fst m) = mset (map fst m')" using assms(1) by simp
  then have d: "distinct (map fst m')" using assms(2) mset_eq_imp_distinct_iff by blast
  have mo: "map_of m = map_of m'" using map_of_inject_set [OF assms(2) d] mset_eq_setD [OF assms(1)] by blast
  have "m = [] \<longleftrightarrow> m' = []" using assms(1) by auto
  then show ?thesis unfolding AddWithProvenance_def sortTokens_mset [OF fsts] addTokens_cong [OF mo] by simp
qed

text \<open>A turn of two calls that share a value; the first call sits in a retrieved document.\<close>

definition sampleDoc :: string where
  "sampleDoc = kbBlockOpen @ newline @ ''ask al@x.co'' @ kbSourceTag @ ''https://kb.example/page'' @ newline @ kbBlockClose"

definition sampleTurn :: "scrubCall list" where
  "sampleTurn =
     [\<lparr>sc_reveal = False, sc_mapping = [(''[EMAIL_2]'', ''bo@x.co''), (''[EMAIL_1]'', ''al@x.co'')],
       sc_provenance = BuildPIIProvenance [\<lparr>pc_Text = sampleDoc, pc_Source = ''system'', pc_Tool = ''''\<rparr>]
         [(''[EMAIL_2]'', ''bo@x.co''), (''[EMAIL_1]'', ''al@x.co'')],
       sc_agent = ''k8s'', sc_bytes = 90\<rparr>,
      \<lparr>sc_reveal = False, sc_mapping = [(''[EMAIL_1]'', ''bo@x.co'')],
       sc_provenance = BuildPIIProvenance [] [(''[EMAIL_1]'', ''bo@x.co'')], sc_agent = ''logs'', sc_bytes = 10\<rparr>]"

definition asciiOnly :: "nat \<Rightarrow> runeClass" where "asciiOnly r = OtherRune"

lemma sampleTurn_distinct: "\<forall>c\<in>set sampleTurn. distinct (map fst (sc_mapping c))"
  by (simp add: sampleTurn_def)

theorem audit_counts_witness:
  "case Consolidated ''0'' (afterTurn asciiOnly sampleTurn) of
      None \<Rightarrow> False
    | Some e \<Rightarrow> ev_HitCount e = int (card {''al@x.co'', ''bo@x.co''}) \<and> total (ev_AgentCounts e) = ev_HitCount e"
  using audit_counts [OF sampleTurn_distinct, of "''0''" asciiOnly]
  by (auto simp: sampleTurn_def scrubbedValues_def insert_commute split: option.splits)

definition sampleEvent :: PIIScrubEvent where
  "sampleEvent = the (Consolidated ''0'' (afterTurn asciiOnly sampleTurn))"

definition samplePieces :: "scrubCall \<Rightarrow> PIIPiece list" where
  "samplePieces c = (if sc_bytes c = 90 then [\<lparr>pc_Text = sampleDoc, pc_Source = ''system'', pc_Tool = ''''\<rparr>] else [])"

theorem audit_hides_values_witness:
  "pv_Value (hd (ev_Values sampleEvent)) = '''' \<and> set (pv_Shape (hd (ev_Values sampleEvent))) \<subseteq> maskChars \<and>
   pv_Source (hd (ev_Values sampleEvent)) = ''system'' \<and> pv_DocURL (hd (ev_Values sampleEvent)) = ''https://kb.example/page''"
proof -
  have "Consolidated ''0'' (afterTurn asciiOnly sampleTurn) \<noteq> None" by code_simp
  then have e: "Consolidated ''0'' (afterTurn asciiOnly sampleTurn) = Some sampleEvent" by (simp add: sampleEvent_def)
  have off: "\<forall>c\<in>set sampleTurn. \<not> sc_reveal c \<and> sc_provenance c = BuildPIIProvenance (samplePieces c) (sc_mapping c)"
    by (simp add: sampleTurn_def samplePieces_def)
  have "ev_Values sampleEvent \<noteq> []" by code_simp
  then have "hd (ev_Values sampleEvent) \<in> set (ev_Values sampleEvent)" by simp
  moreover have "pv_DocURL (hd (ev_Values sampleEvent)) = ''https://kb.example/page''" "pv_Source (hd (ev_Values sampleEvent)) = ''system''"
    by code_simp+
  ultimately show ?thesis using audit_hides_values [OF sampleTurn_distinct off e] by blast
qed

theorem audit_order_independent_witness:
  "AddWithProvenance asciiOnly False [(''[EMAIL_2]'', ''b''), (''[EMAIL_1]'', ''a'')] Map.empty ''k8s'' 1 NewPIIValueAccumulator =
   AddWithProvenance asciiOnly False [(''[EMAIL_1]'', ''a''), (''[EMAIL_2]'', ''b'')] Map.empty ''k8s'' 1 NewPIIValueAccumulator"
  by (rule audit_order_independent) simp_all

text \<open>A separator inside a document does not only lose its address: a value before it, after a cited source, gets the
cited address although the document has one of its own.\<close>

definition citingDoc :: string where
  "citingDoc = kbBlockOpen @ newline @ ''as in'' @ kbSourceTag @ ''https://cited.example/x'' @ newline @ ''ask al@x.co'' @
     kbDocSeparator @ ''more'' @ kbSourceTag @ ''https://kb.example/page'' @ newline @ kbBlockClose"

lemma cited_source_recorded:
  "map_option pv_DocURL (attribution [\<lparr>pc_Text = citingDoc, pc_Source = ''system'', pc_Tool = ''''\<rparr>] ''al@x.co'') =
    Some ''https://cited.example/x''"
  by code_simp

end
