(* ===== verification/ThresholdStats.thy ===== *)
theory ThresholdStats
  imports GoStrings GoNumbers
begin

text \<open>
  The statistics behind the tuning of alert thresholds
  (\<open>api-server/services/triage/threshold_suggestion.go\<close>, \<open>models.go\<close>): percentiles and robust spread of a
  metric, the threshold they suggest, its confidence, the quality of an alert, and the tuner that
  works on the whole history. A \<open>float64\<close> is a rational number and every operation rounds by itself (no fused multiply-add). Counts and
  seconds stay far below \<open>2\<^sup>5\<^sup>3\<close>. The explaining texts are left out. \<open>sort.Float64s\<close> is the sort of
  rational numbers, equal ones being indistinguishable.
\<close>

section \<open>Data\<close>

record AlertDefinition =
  ad_MetricName :: string
  ad_MetricNamespace :: string
  ad_Operator :: string
  ad_CurrentThreshold :: rat
  ad_Period :: int
  ad_EvaluationPeriods :: int

record MetricHistory =
  mh_Timestamps :: "int list"
  mh_Values :: "rat list"
  mh_Step :: int
  mh_Labels :: "(string \<times> string) list"

record FiringAnalysis =
  fa_AvgFiringsPerDay :: rat
  fa_MetricValuesAtFiring :: "rat list"

record AlertQualityScore =
  aq_FiringFrequency :: rat
  aq_ResolutionRate :: rat
  aq_EngagementRate :: rat
  aq_TransientRate :: rat
  aq_DurationP90 :: rat
  aq_InstantRate :: rat
  aq_Classification :: string
  aq_Recommendation :: string

record DistStats =
  ds_Count :: nat
  ds_P50 :: rat
  ds_P90 :: rat
  ds_P95 :: rat
  ds_P99 :: rat
  ds_Median :: rat
  ds_MAD :: rat

datatype guardWarning =
    AtUpperBound | AtLowerBound | LongerWait | EqualityComparison | NormalAboveThreshold | NormalBelowThreshold
  | EngagedAlertsSuppressed | AlertsSuppressed | ExtremeChange | CapacityLoosened

record ThresholdSuggestion =
  ts_SuggestedThreshold :: rat
  ts_Confidence :: string
  ts_MetricP50 :: rat
  ts_MetricP90 :: rat
  ts_MetricP95 :: rat
  ts_MetricP99 :: rat
  ts_MetricMedian :: rat
  ts_MetricMAD :: rat
  ts_EstimatedReduction :: rat
  ts_Method :: string
  ts_RecommendationType :: string
  ts_SuggestedDuration :: int
  ts_RiskLevel :: string
  ts_RiskWarnings :: "guardWarning list"
  ts_Diagnosis :: string
  ts_Baseline :: "DistStats option"
  ts_Firing :: "DistStats option"
  ts_BaselineCoverage :: rat

definition zeroSuggestion :: ThresholdSuggestion where
  "zeroSuggestion = \<lparr>ts_SuggestedThreshold = 0, ts_Confidence = '''', ts_MetricP50 = 0, ts_MetricP90 = 0, ts_MetricP95 = 0,
     ts_MetricP99 = 0, ts_MetricMedian = 0, ts_MetricMAD = 0, ts_EstimatedReduction = 0, ts_Method = '''',
     ts_RecommendationType = '''', ts_SuggestedDuration = 0, ts_RiskLevel = '''', ts_RiskWarnings = [], ts_Diagnosis = '''',
     ts_Baseline = None, ts_Firing = None, ts_BaselineCoverage = 0\<rparr>"

section \<open>Statistics\<close>

definition isGreaterThanOperator :: "string \<Rightarrow> bool" where
  "isGreaterThanOperator op0 = (let op = ToLower op0 in Contains op ''greater'' \<or> op = ''>'' \<or> op = ''>='')"

definition isLessThanOperator :: "string \<Rightarrow> bool" where
  "isLessThanOperator op0 = (let op = ToLower op0 in Contains op ''less'' \<or> op = ''<'' \<or> op = ''<='')"

definition roundTo :: "rat \<Rightarrow> nat \<Rightarrow> rat" where
  "roundTo val decimals = (let pow = f64 (10 ^ decimals) in f64 (math_Round (f64 (val * pow)) / pow))"

definition float_of :: "int \<Rightarrow> rat" where "float_of n = f64 (of_int n)"

text \<open>An index outside the slice panics: \<open>None\<close>.\<close>

definition elemAt :: "rat list \<Rightarrow> int \<Rightarrow> rat option" where
  "elemAt xs i = (if 0 \<le> i \<and> i < int (length xs) then Some (xs ! nat i) else None)"

definition percentileAt :: "rat list \<Rightarrow> rat \<Rightarrow> rat option" where
  "percentileAt xs p =
     (if xs = [] then Some 0
      else if length xs = 1 then elemAt xs 0
      else
        let rank = f64 (f64 (p / 100) * float_of (int (length xs) - 1));
            lower = \<lfloor>rank\<rfloor>;
            upper = \<lceil>rank\<rceil>
        in if lower = upper \<or> upper \<ge> int (length xs) then elemAt xs lower
           else
             let frac = f64 (rank - float_of lower)
             in case (elemAt xs lower, elemAt xs upper) of
                  (Some lo, Some hi) \<Rightarrow> Some (f64 (lo + f64 (frac * f64 (hi - lo))))
                | _ \<Rightarrow> None)"

text \<open>The percentiles asked for lie in range (\<open>percentile_total\<close> below), so the callers read the value.\<close>

definition percentile :: "rat list \<Rightarrow> rat \<Rightarrow> rat" where
  "percentile xs p = (case percentileAt xs p of Some v \<Rightarrow> v | None \<Rightarrow> 0)"

definition computeMedian :: "rat list \<Rightarrow> rat" where
  "computeMedian xs = percentile xs 50"

definition computeMAD :: "rat list \<Rightarrow> rat" where
  "computeMAD xs =
     (if xs = [] then 0
      else
        let med = computeMedian xs
        in computeMedian (sort (map (\<lambda>v. \<bar>f64 (v - med)\<bar>) xs)))"

definition computeIQR :: "rat list \<Rightarrow> rat" where
  "computeIQR xs = f64 (percentile xs 75 - percentile xs 25)"

definition estimateReduction :: "rat list \<Rightarrow> rat \<Rightarrow> rat \<Rightarrow> bool \<Rightarrow> rat" where
  "estimateReduction xs currentThreshold suggestedThreshold isGreaterThan =
     (if xs = [] then 0
      else
        let fires = (\<lambda>t v. if isGreaterThan then v > t else v < t);
            currentFireCount = int (length (filter (fires currentThreshold) xs));
            newFireCount = int (length (filter (fires suggestedThreshold) xs))
        in if currentFireCount = 0 then 0
           else math_Round (f64 (f64 (float_of (currentFireCount - newFireCount) / float_of currentFireCount) * 100)))"

definition computeUpperThreshold :: "rat list \<Rightarrow> rat \<Rightarrow> rat \<Rightarrow> rat \<Rightarrow> rat \<times> string" where
  "computeUpperThreshold xs med madVal p95 =
     (if madVal > 0 then (roundTo (f64 (med + f64 (3 * madVal))) 2, ''MAD'')
      else
        let iqrVal = computeIQR xs
        in if iqrVal > 0 then (roundTo (f64 (percentile xs 75 + f64 (f64 (3 / 2) * iqrVal))) 2, ''IQR'')
           else (roundTo (f64 (p95 * f64 (11 / 10))) 2, ''P95''))"

definition computeLowerThreshold :: "rat list \<Rightarrow> rat \<Rightarrow> rat \<Rightarrow> rat \<times> string" where
  "computeLowerThreshold xs med madVal =
     (if madVal > 0 then (roundTo (f64 (med - f64 (3 * madVal))) 2, ''MAD'')
      else
        let iqrVal = computeIQR xs
        in if iqrVal > 0 then (roundTo (f64 (percentile xs 25 - f64 (f64 (3 / 2) * iqrVal))) 2, ''IQR'')
           else (roundTo (f64 (percentile xs 5 * f64 (9 / 10))) 2, ''P5''))"

definition applySanityCap :: "rat \<Rightarrow> rat \<Rightarrow> rat \<Rightarrow> rat" where
  "applySanityCap suggested currentThreshold p99 =
     (if currentThreshold = 0 then suggested
      else
        let capV = max (f64 (currentThreshold * 10)) p99
        in if suggested > capV then roundTo capV 2 else suggested)"

definition filterAboveThreshold :: "rat list \<Rightarrow> rat \<Rightarrow> rat list" where
  "filterAboveThreshold xs threshold = filter (\<lambda>v. v > threshold) xs"

definition meanOf :: "rat list \<Rightarrow> rat" where
  "meanOf values = f64 (foldl (\<lambda>acc v. f64 (acc + v)) 0 values / float_of (int (length values)))"

definition varianceSum :: "rat list \<Rightarrow> rat \<Rightarrow> rat" where
  "varianceSum values mean = foldl (\<lambda>acc v. let d = f64 (v - mean) in f64 (acc + f64 (d * d))) 0 values"

definition stabilityScore :: "rat list \<Rightarrow> int" where
  "stabilityScore values =
     (if length values > 1 then
        let mean = meanOf values
        in if mean > 0 then
             let cv = f64 (f64_sqrt (f64 (varianceSum values mean / float_of (int (length values)))) / mean)
             in if cv < 1 / 2 then 25 else if cv < 1 then 15 else 5
           else 0
      else 0)"

definition computeConfidence :: "rat list \<Rightarrow> rat \<Rightarrow> rat \<Rightarrow> AlertQualityScore option \<Rightarrow> string" where
  "computeConfidence values currentThreshold suggestedThreshold alertQuality =
     (let coverage = (if length values > 500 then 30 else if length values > 100 then 20 else 10);
          reasonable =
            (if currentThreshold \<noteq> 0 then
               let ratio = f64 (suggestedThreshold / currentThreshold)
               in if ratio > 1 / 2 \<and> ratio < 2 then 25
                  else if ratio > f64 (1 / 10) \<and> ratio < 10 then 15
                  else 0
             else 0);
          quality =
            (case alertQuality of
               None \<Rightarrow> 0
             | Some q \<Rightarrow> if aq_Classification q = ''noisy_but_real'' then 20
                          else if aq_Classification q = ''healthy'' then 10 else 0);
          score = coverage + stabilityScore values + reasonable + quality
      in if score \<ge> 70 then ''high'' else if score \<ge> 40 then ''medium'' else ''low'')"

section \<open>Duration and quality\<close>

text \<open>Go's integer division truncates.\<close>

definition quo :: "int \<Rightarrow> int \<Rightarrow> int" where
  "quo a b = (if 0 \<le> a then a div b else - ((- a) div b))"

definition suggestedMinutes :: "AlertQualityScore \<Rightarrow> int" where
  "suggestedMinutes q =
     (let durationMinutes = f64 (aq_DurationP90 q / 60);
          m = \<lceil>f64 (f64 (durationMinutes * (3 / 2)) / 5)\<rceil> * 5
      in if m < 10 then 10 else if m > 30 then 30 else m)"

definition computeDurationRecommendation ::
  "AlertDefinition \<Rightarrow> AlertQualityScore option \<Rightarrow> ThresholdSuggestion \<Rightarrow> ThresholdSuggestion" where
  "computeDurationRecommendation alertDef alertQuality s =
     (case alertQuality of
        None \<Rightarrow> s\<lparr>ts_RecommendationType := if ts_EstimatedReduction s > 0 then ''tune_threshold'' else ''none''\<rparr>
      | Some q \<Rightarrow>
          let transient0 = aq_TransientRate q > f64 (7 / 10);
              hasThresholdSuggestion = ts_EstimatedReduction s > 10;
              timed = transient0 \<and> aq_DurationP90 q > 0;
              minutes = (if timed then suggestedMinutes q else 0);
              isTransient = (if timed \<and> quo (wrap64 (ad_Period alertDef * ad_EvaluationPeriods alertDef)) 60 \<ge> minutes then False
                             else transient0)
          in if aq_Classification q = ''broken'' then s\<lparr>ts_RecommendationType := ''review_alert''\<rparr>
             else if isTransient \<and> hasThresholdSuggestion then s\<lparr>ts_RecommendationType := ''tune_both'', ts_SuggestedDuration := minutes\<rparr>
             else if isTransient then s\<lparr>ts_RecommendationType := ''increase_duration'', ts_SuggestedDuration := minutes\<rparr>
             else if hasThresholdSuggestion then s\<lparr>ts_RecommendationType := ''tune_threshold''\<rparr>
             else s\<lparr>ts_RecommendationType := ''none''\<rparr>)"

definition classifyAlertQuality :: "AlertQualityScore \<Rightarrow> AlertQualityScore" where
  "classifyAlertQuality sc =
     (let unattended = aq_FiringFrequency sc > 1 / 2 \<and> aq_ResolutionRate sc > 1 / 2 \<and> aq_EngagementRate sc < f64 (1 / 10)
      in if unattended \<and> aq_TransientRate sc > f64 (7 / 10)
         then sc\<lparr>aq_Classification := ''false_positive'', aq_Recommendation := ''increase_duration''\<rparr>
         else if aq_FiringFrequency sc > 5 \<and> aq_InstantRate sc \<ge> 1 / 2 \<and> aq_EngagementRate sc < f64 (1 / 10)
         then sc\<lparr>aq_Classification := ''false_positive'', aq_Recommendation := ''investigate''\<rparr>
         else if aq_ResolutionRate sc < f64 (1 / 10) \<and> aq_InstantRate sc < 1 / 2
         then sc\<lparr>aq_Classification := ''broken'', aq_Recommendation := ''investigate''\<rparr>
         else if aq_FiringFrequency sc > 1 \<and> aq_ResolutionRate sc > 1 / 2 \<and> aq_EngagementRate sc > f64 (1 / 10)
         then sc\<lparr>aq_Classification := ''noisy_but_real'',
                 aq_Recommendation := if aq_TransientRate sc > f64 (7 / 10) then ''increase_duration'' else ''tune_threshold''\<rparr>
         else if unattended then sc\<lparr>aq_Classification := ''noisy_ignored'', aq_Recommendation := ''tune_threshold''\<rparr>
         else sc\<lparr>aq_Classification := ''healthy'', aq_Recommendation := ''no_action''\<rparr>)"

definition qualityOnlyRecommendation :: "AlertQualityScore option \<Rightarrow> string" where
  "qualityOnlyRecommendation q0 =
     (case q0 of
        None \<Rightarrow> ''''
      | Some q \<Rightarrow>
          if aq_Recommendation q = ''increase_duration'' then ''increase_duration''
          else if aq_Recommendation q = ''investigate'' \<or> aq_Recommendation q = ''tune_threshold'' then ''review_alert''
          else '''')"

section \<open>The tuner on the whole history\<close>

definition minThresholdSamples :: nat where "minThresholdSamples = 20"

definition histogramSaturationShare :: rat where "histogramSaturationShare = f64 (1 / 100)"

definition isHistogramSaturated :: "AlertDefinition \<Rightarrow> rat list \<Rightarrow> bool \<times> rat" where
  "isHistogramSaturated alertDef samples =
     (if samples = [] then (False, 0)
      else if \<not> Contains (ToLower (ad_MetricName alertDef)) ''histogram_quantile('' then (False, 0)
      else
        let ceiling = foldl (\<lambda>c v. if v > c then v else c) 0 samples
        in if ceiling \<le> 0 then (False, 0)
           else
             let atCeiling = int (length (filter (\<lambda>v. v = ceiling) samples))
             in (f64 (float_of atCeiling / float_of (int (length samples))) \<ge> histogramSaturationShare, ceiling))"

definition withStats :: "rat list \<Rightarrow> ThresholdSuggestion \<Rightarrow> ThresholdSuggestion" where
  "withStats xs s =
     s\<lparr>ts_MetricP50 := roundTo (percentile xs 50) 2, ts_MetricP90 := roundTo (percentile xs 90) 2,
       ts_MetricP95 := roundTo (percentile xs 95) 2, ts_MetricP99 := roundTo (percentile xs 99) 2,
       ts_MetricMedian := roundTo (computeMedian xs) 2, ts_MetricMAD := roundTo (computeMAD xs) 2\<rparr>"

definition computeSuggestionFromFiringValues :: "AlertDefinition \<Rightarrow> FiringAnalysis \<Rightarrow> ThresholdSuggestion" where
  "computeSuggestionFromFiringValues alertDef firingAnalysis =
     (let xs = sort (fa_MetricValuesAtFiring firingAnalysis);
          med = computeMedian xs;
          madVal = computeMAD xs;
          s = withStats xs (zeroSuggestion\<lparr>ts_Confidence := ''low'', ts_RecommendationType := ''tune_threshold''\<rparr>)
      in if isGreaterThanOperator (ad_Operator alertDef) then
           (case computeUpperThreshold xs med madVal (percentile xs 95) of (suggested, method) \<Rightarrow>
              s\<lparr>ts_SuggestedThreshold := roundTo (applySanityCap suggested (ad_CurrentThreshold alertDef) (percentile xs 99)) 2,
                ts_Method := method\<rparr>)
         else
           (case computeLowerThreshold xs med madVal of (suggested, method) \<Rightarrow>
              s\<lparr>ts_SuggestedThreshold := roundTo suggested 2, ts_Method := method\<rparr>))"

definition abstain :: "AlertDefinition \<Rightarrow> ThresholdSuggestion" where
  "abstain alertDef =
     zeroSuggestion\<lparr>ts_RecommendationType := ''insufficient_data'', ts_Confidence := ''low'',
       ts_SuggestedThreshold := ad_CurrentThreshold alertDef\<rparr>"

definition spikeThreshold :: "rat list \<Rightarrow> rat \<Rightarrow> rat" where
  "spikeThreshold over currentThreshold =
     (let spikeMed = computeMedian over;
          spikeMAD = computeMAD over;
          s0 = roundTo (if spikeMAD > 0 then f64 (spikeMed + f64 (3 * spikeMAD)) else f64 (spikeMed * f64 (12 / 10))) 2
      in if s0 \<le> currentThreshold then roundTo (f64 (percentile over 95 * f64 (11 / 10))) 2 else s0)"

text \<open>The branch of the greater-than operator in which the suggested value is not above the current one.\<close>

definition spikeSuggestion ::
  "AlertDefinition \<Rightarrow> rat list \<Rightarrow> FiringAnalysis option \<Rightarrow> AlertQualityScore option \<Rightarrow> ThresholdSuggestion \<Rightarrow> ThresholdSuggestion option" where
  "spikeSuggestion alertDef xs firingAnalysis alertQuality s =
     (let current = ad_CurrentThreshold alertDef
      in case firingAnalysis of
           None \<Rightarrow> None
         | Some fa \<Rightarrow>
             if fa_AvgFiringsPerDay fa \<ge> 1 then
               let over = filterAboveThreshold xs current
               in if over = [] then None
                  else
                    let spike = spikeThreshold (sort over) current
                    in if spike > current then
                         let capped = applySanityCap spike current (percentile xs 99)
                         in Some (computeDurationRecommendation alertDef alertQuality
                              (s\<lparr>ts_SuggestedThreshold := capped, ts_Method := ''spike'', ts_RecommendationType := ''tune_threshold'',
                                ts_EstimatedReduction := estimateReduction xs current capped True,
                                ts_Confidence := computeConfidence (sort over) current capped alertQuality\<rparr>))
                       else None
             else None)"

definition keepThreshold :: "AlertDefinition \<Rightarrow> string \<Rightarrow> ThresholdSuggestion \<Rightarrow> ThresholdSuggestion" where
  "keepThreshold alertDef method s =
     s\<lparr>ts_SuggestedThreshold := ad_CurrentThreshold alertDef, ts_Method := method, ts_Confidence := ''low'', ts_EstimatedReduction := 0\<rparr>"

definition moveThreshold :: "rat list \<Rightarrow> rat \<Rightarrow> rat \<Rightarrow> string \<Rightarrow> bool \<Rightarrow> ThresholdSuggestion \<Rightarrow> ThresholdSuggestion" where
  "moveThreshold xs current suggested method isGT s =
     s\<lparr>ts_SuggestedThreshold := roundTo suggested 2, ts_Method := method,
       ts_EstimatedReduction := estimateReduction xs current suggested isGT\<rparr>"

definition finishSuggestion ::
  "AlertDefinition \<Rightarrow> rat list \<Rightarrow> AlertQualityScore option \<Rightarrow> ThresholdSuggestion \<Rightarrow> ThresholdSuggestion" where
  "finishSuggestion alertDef xs alertQuality s =
     computeDurationRecommendation alertDef alertQuality
       (s\<lparr>ts_Confidence := computeConfidence xs (ad_CurrentThreshold alertDef) (ts_SuggestedThreshold s) alertQuality\<rparr>)"

definition computeSuggestion ::
  "AlertDefinition \<Rightarrow> MetricHistory option \<Rightarrow> FiringAnalysis option \<Rightarrow> AlertQualityScore option \<Rightarrow> ThresholdSuggestion option" where
  "computeSuggestion alertDef metricHistory firingAnalysis alertQuality =
     (let values = (case metricHistory of None \<Rightarrow> [] | Some mh \<Rightarrow> mh_Values mh)
      in if values = [] then
           (case firingAnalysis of
              None \<Rightarrow> None
            | Some fa \<Rightarrow> if fa_MetricValuesAtFiring fa = [] then None else Some (computeSuggestionFromFiringValues alertDef fa))
         else if length values < minThresholdSamples then Some (abstain alertDef)
         else
           let xs = sort values
           in if fst (isHistogramSaturated alertDef xs) then Some (abstain alertDef)
              else
                let med = computeMedian xs;
                    madVal = computeMAD xs;
                    s = withStats xs zeroSuggestion;
                    current = ad_CurrentThreshold alertDef
                in Some
                  (if isGreaterThanOperator (ad_Operator alertDef) then
                     (case computeUpperThreshold xs med madVal (percentile xs 95) of (suggested, method) \<Rightarrow>
                        if suggested \<le> current then
                          (case spikeSuggestion alertDef xs firingAnalysis alertQuality s of
                             Some sp \<Rightarrow> sp
                           | None \<Rightarrow> computeDurationRecommendation alertDef alertQuality (keepThreshold alertDef method s))
                        else
                          finishSuggestion alertDef xs alertQuality
                            (moveThreshold xs current (applySanityCap suggested current (percentile xs 99)) method True s))
                   else if isLessThanOperator (ad_Operator alertDef) then
                     (case computeLowerThreshold xs med madVal of (suggested, method) \<Rightarrow>
                        if suggested \<ge> current then computeDurationRecommendation alertDef alertQuality (keepThreshold alertDef method s)
                        else
                          let sanityFloor = min (f64 (current * f64 (1 / 10))) (percentile xs 1)
                          in finishSuggestion alertDef xs alertQuality
                               (moveThreshold xs current (if suggested < sanityFloor then sanityFloor else suggested) method False s))
                   else
                     (case computeUpperThreshold xs med madVal (percentile xs 95) of (suggested, method) \<Rightarrow>
                        finishSuggestion alertDef xs alertQuality
                          (if suggested > current
                           then moveThreshold xs current (applySanityCap suggested current (percentile xs 99)) method True s
                           else keepThreshold alertDef method s))))"

section \<open>Percentiles stay in range\<close>

lemma float_of_exact: "\<bar>n\<bar> < 2 ^ 53 \<Longrightarrow> float_of n = of_int n"
  by (simp add: float_of_def f64_of_int)

lemma rank_bounds:
  assumes "0 \<le> p" "p \<le> 100" "0 \<le> n" "n < 2 ^ 53"
  shows "0 \<le> f64 (f64 (p / 100) * float_of n) \<and> f64 (f64 (p / 100) * float_of n) \<le> of_int n"
proof -
  have q: "0 \<le> f64 (p / 100)" "f64 (p / 100) \<le> 1"
    using assms f64_nonneg [of "p / 100"] f64_le_int [of "p / 100" 1] by simp_all
  have "f64 (p / 100) * of_int n \<le> 1 * of_int n" using q assms(3) by (intro mult_right_mono) simp_all
  then show ?thesis
    using q assms(3,4) f64_nonneg [of "f64 (p / 100) * of_int n"] f64_le_int [of "f64 (p / 100) * of_int n" n]
    by (simp add: float_of_exact)
qed

lemma percentile_total:
  assumes "0 \<le> p" "p \<le> 100" "length xs \<le> 2 ^ 53"
  shows "percentileAt xs p = Some (percentile xs p)"
proof (cases "length xs \<le> 1")
  case True
  then show ?thesis by (cases xs) (auto simp: percentile_def percentileAt_def elemAt_def)
next
  case False
  let ?n = "int (length xs) - 1" and ?r = "f64 (f64 (p / 100) * float_of (int (length xs) - 1))"
  have "0 \<le> ?n" using False by linarith
  moreover have "?n < 2 ^ 53" using assms(3) by simp
  ultimately have r: "0 \<le> ?r" "?r \<le> of_int ?n" using rank_bounds [OF assms(1,2), of ?n] by blast+
  have "\<lfloor>?r\<rfloor> \<le> ?n" using floor_mono [OF r(2)] by (simp only: floor_of_int)
  moreover have "\<lceil>?r\<rceil> \<le> ?n" using ceiling_mono [OF r(2)] by (simp only: ceiling_of_int)
  moreover have "0 \<le> \<lfloor>?r\<rfloor>" "0 \<le> \<lceil>?r\<rceil>" using r(1) by simp_all
  ultimately have "elemAt xs \<lfloor>?r\<rfloor> \<noteq> None" "elemAt xs \<lceil>?r\<rceil> \<noteq> None" by (auto simp: elemAt_def)
  then have "percentileAt xs p \<noteq> None" using False by (auto simp: percentileAt_def Let_def split: option.splits)
  then show ?thesis by (auto simp: percentile_def)
qed

lemma reduction_percent:
  assumes "0 \<le> d" "d \<le> c" "0 < c" "c < 2 ^ 53"
  shows "0 \<le> math_Round (f64 (f64 (float_of d / float_of c) * 100)) \<and> math_Round (f64 (f64 (float_of d / float_of c) * 100)) \<le> 100"
proof -
  let ?q = "f64 (of_int d / of_int c)"
  have e: "float_of d = of_int d" "float_of c = of_int c" using assms by (simp_all add: float_of_exact)
  have "0 \<le> (of_int d / of_int c :: rat)" "(of_int d / of_int c :: rat) \<le> of_int 1" using assms by simp_all
  then have "0 \<le> ?q" "?q \<le> of_int 1" using f64_nonneg f64_le_int [of _ 1] by simp_all
  then have "0 \<le> ?q * 100" "?q * 100 \<le> of_int 100" by simp_all
  then have "of_int 0 \<le> f64 (?q * 100)" "f64 (?q * 100) \<le> of_int 100" using f64_nonneg f64_le_int [of _ 100] by simp_all
  from this [THEN math_Round_mono] show ?thesis unfolding e math_Round_of_int by simp
qed

lemma estimateReduction_bounds:
  assumes "if isGT then cur \<le> new else new \<le> cur" "length xs < 2 ^ 53"
  shows "0 \<le> estimateReduction xs cur new isGT \<and> estimateReduction xs cur new isGT \<le> 100"
proof -
  let ?c = "length (filter (\<lambda>v. if isGT then v > cur else v < cur) xs)"
  let ?n = "length (filter (\<lambda>v. if isGT then v > new else v < new) xs)"
  have le: "?n \<le> ?c" using assms(1) by (induction xs) (auto split: if_splits)
  have "int ?c < 2 ^ 53" using le_less_trans [OF length_filter_le assms(2)] by simp
  then show ?thesis
    using reduction_percent [of "int ?c - int ?n" "int ?c"] le
    by (cases "?c = 0") (simp_all add: estimateReduction_def Let_def if_distrib if_distribR)
qed

end
