(* ===== verification/ThresholdGuardrails.thy ===== *)
theory ThresholdGuardrails
  imports ThresholdStats GoRegexp
begin

text \<open>
  The guardrails on threshold suggestions
  (\<open>api-server/services/triage/threshold_suggestion_guardrails.go\<close>): which alerts may be tuned at all,
  what the name of a metric says about it, the seven gates a computed suggestion passes, and how the
  risk they find lowers its confidence. A warning is named instead of written out.
\<close>

section \<open>Eligibility\<close>

datatype ineligible = NoDefinition | EqualityOperator | IntentionalZero | AbsentMetric

definition checkThresholdEligibility :: "AlertDefinition option \<Rightarrow> ineligible option" where
  "checkThresholdEligibility alertDef0 =
     (case alertDef0 of
        None \<Rightarrow> Some NoDefinition
      | Some alertDef \<Rightarrow>
          let op = ToLower (ad_Operator alertDef);
              metricName = ToLower (ad_MetricName alertDef)
          in if op = ''=='' \<or> op = ''!='' \<or> op = ''eq'' \<or> op = ''ne'' then Some EqualityOperator
             else if ad_CurrentThreshold alertDef = 0 \<and> isGreaterThanOperator (ad_Operator alertDef) then Some IntentionalZero
             else if Contains metricName ''absent('' \<or> Contains metricName ''absent_over_time('' then Some AbsentMetric
             else None)"

section \<open>Hints\<close>

record SuggestionRisk =
  sr_Level :: string
  sr_Warnings :: "guardWarning list"

record metricHint =
  isBounded :: bool
  upperBound :: rat
  lowerBound :: rat
  isMonotonic :: bool
  isBoolean :: bool
  isCapacityLimit :: bool
  metricCategory :: string

definition labelMatchersRe :: rx where
  "labelMatchersRe = Seq [Cls (\<lambda>c. c = CHR 0x7B), StarC (\<lambda>c. c \<noteq> CHR 0x7D), Cls (\<lambda>c. c = CHR 0x7D)]"

text \<open>\<open>ReplaceAllString\<close> with the empty string.\<close>

fun cutRanges :: "string \<Rightarrow> nat \<Rightarrow> (nat \<times> nat) list \<Rightarrow> string" where
  "cutRanges s from [] = drop from s"
| "cutRanges s from ((a, b) # rs) = sub s from a @ cutRanges s b rs"

definition percentagePatterns :: "string list" where
  "percentagePatterns = [''100 *'', ''100*'', ''_percent'', ''percentage'', ''cpu_utilization'', ''memory_utilization'',
     ''disk_utilization'', ''cpuutilization'', ''memoryutilization'', ''statuscheckfailed'']"

definition ratioPatterns :: "string list" where
  "ratioPatterns = [''_ratio'', ''saturation'', ''process_cpu'', ''cpu_usage'', ''cpuusage'']"

definition timePatterns :: "string list" where
  "timePatterns = [''time() -'', ''time()-'', ''_age_seconds'', ''_last_seen'', ''time_since'']"

definition capacityPatterns :: "string list" where
  "capacityPatterns = [''available_bytes'', ''avail_bytes'', ''free_bytes'', ''files_free'', ''inodes_free'', ''freestoragespace'',
     ''freeablememory'', ''volume_stats'', ''resourcequota'', ''not_after'', ''cert_expiry'', ''certificate_expiration'',
     ''expiration_timestamp'', ''expire_time'', ''burstbalance'', ''creditbalance'']"

definition ratePatterns :: "string list" where
  "ratePatterns = [''rate('', ''increase('', ''irate('']"

definition hasPattern :: "string \<Rightarrow> string list \<Rightarrow> bool" where
  "hasPattern s ps \<longleftrightarrow> list_ex (Contains s) ps"

definition noHint :: metricHint where
  "noHint = \<lparr>isBounded = False, upperBound = 0, lowerBound = 0, isMonotonic = False, isBoolean = False, isCapacityLimit = False,
     metricCategory = ''unknown''\<rparr>"

definition asPercentage :: "metricHint \<Rightarrow> metricHint" where
  "asPercentage h = h\<lparr>isBounded := True, upperBound := 100, lowerBound := 0, metricCategory := ''percentage''\<rparr>"

definition asRatio :: "metricHint \<Rightarrow> metricHint" where
  "asRatio h = h\<lparr>isBounded := True, upperBound := 1, lowerBound := 0, metricCategory := ''ratio''\<rparr>"

definition detectMetricHints :: "AlertDefinition \<Rightarrow> metricHint" where
  "detectMetricHints alertDef =
     (let metricName = ToLower (ad_MetricName alertDef);
          metricNS = ToLower (ad_MetricNamespace alertDef);
          op = ToLower (ad_Operator alertDef);
          current = ad_CurrentThreshold alertDef;
          h1 = (if hasPattern metricName percentagePatterns then asPercentage noHint else noHint);
          h2 = (if Contains metricName ''100'' \<and> Contains metricName ''count'' then asPercentage h1 else h1);
          h3 = (if hasPattern metricName ratioPatterns \<and> \<not> isBounded h2 \<and> current \<le> 1 \<and> current \<ge> 0 then asRatio h2 else h2);
          h4 = (if hasPattern metricName timePatterns then h3\<lparr>isMonotonic := True, metricCategory := ''time_since''\<rparr> else h3);
          h5 = (if metricCategory h4 = ''unknown'' \<and> (Contains metricName '' == '' \<or> op = ''=='')
                then h4\<lparr>isBoolean := True, metricCategory := ''boolean''\<rparr> else h4);
          namesOnly = cutRanges metricName 0 (FindAllStringIndex labelMatchersRe metricName);
          h6 = (if hasPattern namesOnly capacityPatterns then h5\<lparr>isCapacityLimit := True\<rparr> else h5);
          h7 = (if hasPattern metricName ratePatterns \<and> metricCategory h6 = ''unknown'' then h6\<lparr>metricCategory := ''rate''\<rparr> else h6)
      in if metricNS = '''' then h7
         else if Contains metricNS ''aws/ec2'' \<and> Contains metricName ''utilization''
         then h7\<lparr>isBounded := True, upperBound := 100, metricCategory := ''percentage''\<rparr>
         else if Contains metricNS ''aws/elb'' \<and> Contains metricName ''count'' then h7\<lparr>metricCategory := ''counter''\<rparr>
         else h7)"

section \<open>The gates\<close>

text \<open>Each gate takes the suggestion and the risk found so far.\<close>

type_synonym assessed = "ThresholdSuggestion \<times> SuggestionRisk"

definition warn :: "guardWarning \<Rightarrow> SuggestionRisk \<Rightarrow> SuggestionRisk" where
  "warn w r = r\<lparr>sr_Warnings := sr_Warnings r @ [w]\<rparr>"

text \<open>\<open>if risk.Level != "dangerous"\<close> raise it to \<open>review\<close>.\<close>

definition atLeastReview :: "SuggestionRisk \<Rightarrow> SuggestionRisk" where
  "atLeastReview r = (if sr_Level r \<noteq> ''dangerous'' then r\<lparr>sr_Level := ''review''\<rparr> else r)"

definition capConfidence :: "ThresholdSuggestion \<Rightarrow> ThresholdSuggestion" where
  "capConfidence s = (if ts_Confidence s = ''high'' then s\<lparr>ts_Confidence := ''medium''\<rparr> else s)"

definition ratioHeuristic :: "AlertDefinition \<Rightarrow> ThresholdSuggestion \<Rightarrow> metricHint \<Rightarrow> metricHint" where
  "ratioHeuristic alertDef s h =
     (if \<not> isBounded h \<and> ad_CurrentThreshold alertDef > 0 \<and> ad_CurrentThreshold alertDef \<le> 1 \<and>
         ts_MetricP95 s > 0 \<and> ts_MetricP95 s \<le> f64 (105 / 100) \<and> ts_MetricP50 s \<ge> 0
      then asRatio h else h)"

definition rejectBound :: "AlertDefinition \<Rightarrow> guardWarning \<Rightarrow> assessed \<Rightarrow> assessed" where
  "rejectBound alertDef w = (\<lambda>(s, r).
     (s\<lparr>ts_SuggestedThreshold := ad_CurrentThreshold alertDef, ts_RecommendationType := ''review_alert'', ts_Confidence := ''low''\<rparr>,
      (warn w r)\<lparr>sr_Level := ''dangerous''\<rparr>))"

definition gateBounded :: "AlertDefinition \<Rightarrow> metricHint \<Rightarrow> assessed \<Rightarrow> assessed" where
  "gateBounded alertDef h sr =
     (if isBounded h then
        let sr1 = (if isGreaterThanOperator (ad_Operator alertDef) \<and> ts_SuggestedThreshold (fst sr) \<ge> upperBound h
                   then rejectBound alertDef AtUpperBound sr else sr)
        in if isLessThanOperator (ad_Operator alertDef) \<and> ts_SuggestedThreshold (fst sr1) \<le> lowerBound h
           then rejectBound alertDef AtLowerBound sr1 else sr1
      else sr)"

definition gateMonotonic :: "AlertDefinition \<Rightarrow> metricHint \<Rightarrow> assessed \<Rightarrow> assessed" where
  "gateMonotonic alertDef h = (\<lambda>(s, r).
     if isMonotonic h \<and> ts_SuggestedThreshold s > f64 (ad_CurrentThreshold alertDef * 3)
     then (s\<lparr>ts_Confidence := ''low''\<rparr>, warn LongerWait (r\<lparr>sr_Level := ''review''\<rparr>)) else (s, r))"

definition gateBoolean :: "metricHint \<Rightarrow> assessed \<Rightarrow> assessed" where
  "gateBoolean h = (\<lambda>(s, r).
     if isBoolean h then (s\<lparr>ts_Confidence := ''low''\<rparr>, warn EqualityComparison (r\<lparr>sr_Level := ''review''\<rparr>)) else (s, r))"

definition mismatch :: "guardWarning \<Rightarrow> assessed \<Rightarrow> assessed" where
  "mismatch w = (\<lambda>(s, r).
     (s\<lparr>ts_RecommendationType := ''review_alert'', ts_Confidence := ''low''\<rparr>, warn w (r\<lparr>sr_Level := ''dangerous''\<rparr>)))"

definition gateBaseline :: "AlertDefinition \<Rightarrow> assessed \<Rightarrow> assessed" where
  "gateBaseline alertDef sr =
     (let current = ad_CurrentThreshold alertDef;
          p50 = ts_MetricP50 (fst sr);
          gtMismatch = (p50 > current \<or> (ad_Operator alertDef = ''>='' \<and> p50 \<ge> current))
      in if isGreaterThanOperator (ad_Operator alertDef) \<and> current > 0 \<and> gtMismatch then mismatch NormalAboveThreshold sr
         else if isLessThanOperator (ad_Operator alertDef) \<and> current > 0 \<and> p50 < current then mismatch NormalBelowThreshold sr
         else sr)"

definition gateSilencing :: "AlertQualityScore option \<Rightarrow> assessed \<Rightarrow> assessed" where
  "gateSilencing alertQuality = (\<lambda>(s, r).
     if ts_EstimatedReduction s \<ge> 95 \<and> ts_RecommendationType s \<noteq> ''disable'' \<and> ts_RecommendationType s \<noteq> ''review_alert'' then
       (if (case alertQuality of None \<Rightarrow> False | Some q \<Rightarrow> aq_EngagementRate q > f64 (2 / 10))
        then (s\<lparr>ts_RecommendationType := ''review_alert'', ts_Confidence := ''low''\<rparr>,
              warn EngagedAlertsSuppressed (r\<lparr>sr_Level := ''dangerous''\<rparr>))
        else (s\<lparr>ts_RecommendationType := ''review_alert''\<rparr>, warn AlertsSuppressed (atLeastReview r)))
     else (s, r))"

definition gateExtreme :: "AlertDefinition \<Rightarrow> assessed \<Rightarrow> assessed" where
  "gateExtreme alertDef = (\<lambda>(s, r).
     if ad_CurrentThreshold alertDef > 0 then
       let ratio = f64 (ts_SuggestedThreshold s / ad_CurrentThreshold alertDef)
       in if ratio > 10 \<or> (ratio < f64 (1 / 10) \<and> ratio > 0) then (capConfidence s, warn ExtremeChange (atLeastReview r)) else (s, r)
     else (s, r))"

definition loosened :: "AlertDefinition \<Rightarrow> ThresholdSuggestion \<Rightarrow> bool" where
  "loosened alertDef s \<longleftrightarrow>
     (isGreaterThanOperator (ad_Operator alertDef) \<and> ts_SuggestedThreshold s > ad_CurrentThreshold alertDef) \<or>
     (isLessThanOperator (ad_Operator alertDef) \<and> ts_SuggestedThreshold s < ad_CurrentThreshold alertDef)"

definition gateCapacity :: "AlertDefinition \<Rightarrow> metricHint \<Rightarrow> assessed \<Rightarrow> assessed" where
  "gateCapacity alertDef h = (\<lambda>(s, r).
     if isCapacityLimit h \<and> loosened alertDef s then (capConfidence s, warn CapacityLoosened (atLeastReview r)) else (s, r))"

definition backstop :: "assessed \<Rightarrow> assessed" where
  "backstop = (\<lambda>(s, r).
     if sr_Level r = ''dangerous'' \<and> ts_RecommendationType s \<noteq> ''disable'' then (s\<lparr>ts_RecommendationType := ''review_alert''\<rparr>, r) else (s, r))"

text \<open>The gates in their order; the suggestion and the alert are never nil here.\<close>

definition ValidateSuggestion :: "AlertDefinition \<Rightarrow> AlertQualityScore option \<Rightarrow> ThresholdSuggestion \<Rightarrow> assessed" where
  "ValidateSuggestion alertDef alertQuality s =
     (let safe = \<lparr>sr_Level = ''safe'', sr_Warnings = []\<rparr>
      in if ts_RecommendationType s = ''insufficient_data'' \<or> ts_RecommendationType s = ''not_eligible'' then (s, safe)
         else
           let h = ratioHeuristic alertDef s (detectMetricHints alertDef)
           in backstop (gateCapacity alertDef h (gateExtreme alertDef (gateSilencing alertQuality
                (gateBaseline alertDef (gateBoolean h (gateMonotonic alertDef h (gateBounded alertDef h (s, safe)))))))))"

definition AdjustConfidenceForRisk :: "string \<Rightarrow> SuggestionRisk option \<Rightarrow> string" where
  "AdjustConfidenceForRisk confidence risk =
     (case risk of
        None \<Rightarrow> confidence
      | Some r \<Rightarrow>
          if sr_Level r = ''dangerous'' then ''low''
          else if sr_Level r = ''review'' then (if confidence = ''high'' then ''medium'' else confidence)
          else confidence)"

section \<open>Gates compose\<close>

text \<open>A gate lets a suggestion it has no objection to pass as it is, raises the risk of any other, and never
declares a risky one safe again.\<close>

locale gate =
  fixes run_gate :: "assessed \<Rightarrow> assessed" and objects :: "assessed \<Rightarrow> bool"
  assumes passes: "\<not> objects x \<Longrightarrow> run_gate x = x"
    and raises: "objects x \<Longrightarrow> sr_Level (snd (run_gate x)) \<noteq> ''safe''"
    and keeps: "sr_Level (snd x) \<noteq> ''safe'' \<Longrightarrow> sr_Level (snd (run_gate x)) \<noteq> ''safe''"
begin

lemma safe_iff: "sr_Level (snd (run_gate x)) = ''safe'' \<longleftrightarrow> sr_Level (snd x) = ''safe'' \<and> \<not> objects x"
  using passes raises keeps by metis

end

lemma gate_comp:
  assumes "gate f c" "gate g d"
  shows "gate (\<lambda>x. g (f x)) (\<lambda>x. c x \<or> d x)"
proof
  fix x :: assessed
  show "\<not> (c x \<or> d x) \<Longrightarrow> g (f x) = x" by (simp add: gate.passes [OF assms(1)] gate.passes [OF assms(2)])
  show "sr_Level (snd (g (f x))) \<noteq> ''safe''" if "c x \<or> d x"
    using that gate.passes [OF assms(1), of x] gate.raises [OF assms(1), of x] gate.raises [OF assms(2), of x] gate.keeps [OF assms(2), of "f x"]
    by (cases "c x") auto
  show "sr_Level (snd x) \<noteq> ''safe'' \<Longrightarrow> sr_Level (snd (g (f x))) \<noteq> ''safe''"
    using gate.keeps [OF assms(1), of x] gate.keeps [OF assms(2), of "f x"] by blast
qed

definition overBound :: "AlertDefinition \<Rightarrow> metricHint \<Rightarrow> ThresholdSuggestion \<Rightarrow> bool" where
  "overBound alertDef h s \<longleftrightarrow> isBounded h \<and>
     ((isGreaterThanOperator (ad_Operator alertDef) \<and> ts_SuggestedThreshold s \<ge> upperBound h) \<or>
      (isLessThanOperator (ad_Operator alertDef) \<and> ts_SuggestedThreshold s \<le> lowerBound h))"

definition normalFires :: "AlertDefinition \<Rightarrow> ThresholdSuggestion \<Rightarrow> bool" where
  "normalFires alertDef s \<longleftrightarrow> ad_CurrentThreshold alertDef > 0 \<and>
     ((isGreaterThanOperator (ad_Operator alertDef) \<and>
         (ts_MetricP50 s > ad_CurrentThreshold alertDef \<or> (ad_Operator alertDef = ''>='' \<and> ts_MetricP50 s = ad_CurrentThreshold alertDef))) \<or>
      (isLessThanOperator (ad_Operator alertDef) \<and> ts_MetricP50 s < ad_CurrentThreshold alertDef))"

definition silences :: "ThresholdSuggestion \<Rightarrow> bool" where
  "silences s \<longleftrightarrow> ts_EstimatedReduction s \<ge> 95 \<and> ts_RecommendationType s \<notin> {''disable'', ''review_alert''}"

definition extreme :: "AlertDefinition \<Rightarrow> ThresholdSuggestion \<Rightarrow> bool" where
  "extreme alertDef s \<longleftrightarrow> ad_CurrentThreshold alertDef > 0 \<and>
     (let ratio = f64 (ts_SuggestedThreshold s / ad_CurrentThreshold alertDef)
      in ratio > 10 \<or> (ratio < f64 (1 / 10) \<and> ratio > 0))"

lemmas gate_defs = gateBounded_def rejectBound_def gateMonotonic_def gateBoolean_def gateBaseline_def mismatch_def gateSilencing_def
  gateExtreme_def gateCapacity_def backstop_def warn_def atLeastReview_def capConfidence_def

interpretation bounded: gate "gateBounded a h" "\<lambda>x. overBound a h (fst x)" for a h
proof
  fix x :: assessed
  show "\<not> overBound a h (fst x) \<Longrightarrow> gateBounded a h x = x"
    by (auto simp: gateBounded_def overBound_def Let_def)
  show "sr_Level (snd (gateBounded a h x)) \<noteq> ''safe''" if "overBound a h (fst x)"
    using that by (auto simp: gateBounded_def overBound_def rejectBound_def Let_def split: prod.splits)
  show "sr_Level (snd x) \<noteq> ''safe'' \<Longrightarrow> sr_Level (snd (gateBounded a h x)) \<noteq> ''safe''"
    by (auto simp: gateBounded_def rejectBound_def Let_def split: prod.splits)
qed

interpretation monotonic: gate "gateMonotonic a h" "\<lambda>x. isMonotonic h \<and> ts_SuggestedThreshold (fst x) > f64 (ad_CurrentThreshold a * 3)" for a h
  by unfold_locales (auto simp: gate_defs split: prod.splits)

interpretation boolean: gate "gateBoolean h" "\<lambda>x. isBoolean h" for h
  by unfold_locales (auto simp: gate_defs split: prod.splits)

interpretation baseline: gate "gateBaseline a" "\<lambda>x. normalFires a (fst x)" for a
  by unfold_locales (auto simp: gateBaseline_def mismatch_def warn_def normalFires_def Let_def split: prod.splits)

interpretation silencing: gate "gateSilencing q" "\<lambda>x. silences (fst x)" for q
  by unfold_locales (auto simp: gate_defs silences_def split: prod.splits)

interpretation extremes: gate "gateExtreme a" "\<lambda>x. extreme a (fst x)" for a
  by unfold_locales (auto simp: gate_defs extreme_def Let_def split: prod.splits)

interpretation capacity: gate "gateCapacity a h" "\<lambda>x. isCapacityLimit h \<and> loosened a (fst x)" for a h
  by unfold_locales (auto simp: gate_defs split: prod.splits)

definition gates :: "AlertDefinition \<Rightarrow> AlertQualityScore option \<Rightarrow> metricHint \<Rightarrow> assessed \<Rightarrow> assessed" where
  "gates alertDef alertQuality h x =
     gateCapacity alertDef h (gateExtreme alertDef (gateSilencing alertQuality
       (gateBaseline alertDef (gateBoolean h (gateMonotonic alertDef h (gateBounded alertDef h x))))))"

definition objectionable :: "AlertDefinition \<Rightarrow> metricHint \<Rightarrow> ThresholdSuggestion \<Rightarrow> bool" where
  "objectionable alertDef h s \<longleftrightarrow>
     overBound alertDef h s \<or> (isMonotonic h \<and> ts_SuggestedThreshold s > f64 (ad_CurrentThreshold alertDef * 3)) \<or> isBoolean h \<or>
     normalFires alertDef s \<or> silences s \<or> extreme alertDef s \<or> (isCapacityLimit h \<and> loosened alertDef s)"

interpretation all_gates: gate "gates a q h" "\<lambda>x. objectionable a h (fst x)" for a q h
proof -
  note g = bounded.gate_axioms [of a h] monotonic.gate_axioms [of a h] boolean.gate_axioms [of h] baseline.gate_axioms [of a]
    silencing.gate_axioms [of q] extremes.gate_axioms [of a] capacity.gate_axioms [of a h]
  note gate_comp [OF gate_comp [OF gate_comp [OF gate_comp [OF gate_comp [OF gate_comp [OF g(1) g(2)] g(3)] g(4)] g(5)] g(6)] g(7)]
  then show "gate (gates a q h) (\<lambda>x. objectionable a h (fst x))"
    by (simp add: gates_def [abs_def] objectionable_def disj_assoc)
qed

section \<open>What the gates change\<close>

definition kept :: "assessed \<Rightarrow> assessed \<Rightarrow> bool" where
  "kept x y \<longleftrightarrow> ts_SuggestedThreshold (fst y) = ts_SuggestedThreshold (fst x) \<and>
     ts_EstimatedReduction (fst y) = ts_EstimatedReduction (fst x) \<and>
     (ts_RecommendationType (fst y) = ts_RecommendationType (fst x) \<or> ts_RecommendationType (fst y) = ''review_alert'') \<and>
     (ts_Confidence (fst x) = ''low'' \<longrightarrow> ts_Confidence (fst y) = ''low'')"

lemma kept_trans: "kept x y \<Longrightarrow> kept y z \<Longrightarrow> kept x z"
  unfolding kept_def by metis

lemma gates_keep:
  "kept x (gateMonotonic a h x)" "kept x (gateBoolean h x)" "kept x (gateBaseline a x)" "kept x (gateSilencing q x)"
  "kept x (gateExtreme a x)" "kept x (gateCapacity a h x)" "kept x (backstop x)"
  by (auto simp: kept_def gate_defs Let_def split: prod.splits)

lemma gateBounded_effect:
  "if overBound a h (fst x) then ts_SuggestedThreshold (fst (gateBounded a h x)) = ad_CurrentThreshold a \<and>
       ts_RecommendationType (fst (gateBounded a h x)) = ''review_alert'' \<and> ts_Confidence (fst (gateBounded a h x)) = ''low'' \<and>
       ts_EstimatedReduction (fst (gateBounded a h x)) = ts_EstimatedReduction (fst x)
     else gateBounded a h x = x"
  by (cases x) (auto simp: gateBounded_def overBound_def rejectBound_def Let_def)

lemma gateSilencing_reviews:
  "ts_EstimatedReduction (fst x) \<ge> 95 \<Longrightarrow> ts_RecommendationType (fst (gateSilencing q x)) \<in> {''disable'', ''review_alert''}"
  by (auto simp: gateSilencing_def split: prod.splits)

lemma Level_values:
  "sr_Level (snd x) \<in> {''safe'', ''review'', ''dangerous''} \<Longrightarrow> sr_Level (snd (gates a q h x)) \<in> {''safe'', ''review'', ''dangerous''}"
proof -
  let ?ok = "\<lambda>x :: assessed. sr_Level (snd x) \<in> {''safe'', ''review'', ''dangerous''}"
  have "?ok y \<Longrightarrow> ?ok (gateBounded a h y)" "?ok y \<Longrightarrow> ?ok (gateMonotonic a h y)" "?ok y \<Longrightarrow> ?ok (gateBoolean h y)"
      "?ok y \<Longrightarrow> ?ok (gateBaseline a y)" "?ok y \<Longrightarrow> ?ok (gateSilencing q y)" "?ok y \<Longrightarrow> ?ok (gateExtreme a y)"
      "?ok y \<Longrightarrow> ?ok (gateCapacity a h y)" for y
    by (auto simp: gate_defs Let_def split: prod.splits)
  then show "?ok x \<Longrightarrow> ?ok (gates a q h x)" unfolding gates_def by metis
qed

lemma gates_effect:
  assumes "gates a q h x = y"
  shows "(if overBound a h (fst x) then ts_SuggestedThreshold (fst y) = ad_CurrentThreshold a \<and> ts_RecommendationType (fst y) = ''review_alert'' \<and>
        ts_Confidence (fst y) = ''low''
      else ts_SuggestedThreshold (fst y) = ts_SuggestedThreshold (fst x)) \<and>
    (ts_EstimatedReduction (fst x) \<ge> 95 \<longrightarrow> ts_RecommendationType (fst y) \<in> {''disable'', ''review_alert''})"
proof -
  let ?b = "gateBounded a h x" and ?l = "gateBaseline a (gateBoolean h (gateMonotonic a h (gateBounded a h x)))"
  have l: "kept ?b ?l" by (intro kept_trans [OF gates_keep(1) kept_trans [OF gates_keep(2) gates_keep(3)]])
  have r: "kept (gateSilencing q ?l) y" using kept_trans [OF gates_keep(5) gates_keep(6)] assms unfolding gates_def by blast
  have all: "kept ?b y" by (rule kept_trans [OF kept_trans [OF l gates_keep(4)] r])
  have "ts_EstimatedReduction (fst ?l) = ts_EstimatedReduction (fst x)"
    using l gateBounded_effect [of a h x] by (auto simp: kept_def split: if_splits)
  then have "ts_EstimatedReduction (fst x) \<ge> 95 \<Longrightarrow> ts_RecommendationType (fst y) \<in> {''disable'', ''review_alert''}"
    using gateSilencing_reviews [of ?l q] r by (auto simp: kept_def)
  then show ?thesis using all gateBounded_effect [of a h x] by (auto simp: kept_def split: if_splits)
qed

lemma ValidateSuggestion_spec:
  assumes "ts_RecommendationType s \<notin> {''insufficient_data'', ''not_eligible''}"
    "h = ratioHeuristic alertDef s (detectMetricHints alertDef)" "ValidateSuggestion alertDef q s = (s', r)"
  shows "(sr_Level r = ''safe'' \<longleftrightarrow> \<not> objectionable alertDef h s) \<and> (sr_Level r = ''safe'' \<longrightarrow> s' = s \<and> sr_Warnings r = []) \<and>
    sr_Level r \<in> {''safe'', ''review'', ''dangerous''} \<and>
    (sr_Level r = ''dangerous'' \<longrightarrow> ts_RecommendationType s' \<in> {''review_alert'', ''disable''} \<and>
       AdjustConfidenceForRisk (ts_Confidence s') (Some r) = ''low'') \<and>
    (ts_EstimatedReduction s \<ge> 95 \<longrightarrow> ts_RecommendationType s' \<in> {''review_alert'', ''disable''}) \<and>
    (if overBound alertDef h s then ts_SuggestedThreshold s' = ad_CurrentThreshold alertDef \<and> ts_RecommendationType s' = ''review_alert''
     else ts_SuggestedThreshold s' = ts_SuggestedThreshold s)"
proof -
  let ?x = "(s, \<lparr>sr_Level = ''safe'', sr_Warnings = []\<rparr>)" and ?y = "gates alertDef q h (s, \<lparr>sr_Level = ''safe'', sr_Warnings = []\<rparr>)"
  have v: "(s', r) = backstop ?y" using assms by (auto simp: ValidateSuggestion_def gates_def Let_def)
  then have r: "r = snd ?y" by (auto simp: backstop_def split: prod.splits if_splits)
  have last_kept: "kept ?y (s', r)" using gates_keep(7) [of ?y] v by simp
  have dangerous: "sr_Level r = ''dangerous'' \<longrightarrow> ts_RecommendationType s' \<in> {''review_alert'', ''disable''}"
    using v by (auto simp: backstop_def split: prod.splits if_splits)
  have levels: "sr_Level r \<in> {''safe'', ''review'', ''dangerous''}" unfolding r by (rule Level_values) simp
  have safe: "sr_Level r = ''safe'' \<longleftrightarrow> \<not> objectionable alertDef h s" unfolding r all_gates.safe_iff by simp
  have same: "s' = s \<and> sr_Warnings r = []" if "sr_Level r = ''safe''"
  proof -
    have "?y = ?x" using all_gates.passes [of alertDef h ?x q] safe that by auto
    then show ?thesis using v by (simp add: backstop_def)
  qed
  note effect = gates_effect [OF refl, of alertDef h ?x q]
  have red: "ts_EstimatedReduction s \<ge> 95 \<longrightarrow> ts_RecommendationType s' \<in> {''review_alert'', ''disable''}"
    using effect last_kept by (auto simp: kept_def)
  have bound: "if overBound alertDef h s then ts_SuggestedThreshold s' = ad_CurrentThreshold alertDef \<and> ts_RecommendationType s' = ''review_alert''
     else ts_SuggestedThreshold s' = ts_SuggestedThreshold s"
    using effect last_kept by (auto simp: kept_def split: if_splits)
  show ?thesis using safe same levels dangerous red bound by (simp add: AdjustConfidenceForRisk_def)
qed

section \<open>Properties\<close>

text \<open>C25: A suggestion is passed as safe exactly if no guardrail objects to it, and then as it is and without a
warning: its threshold lies inside the range of the metric, it does not wait three times longer on a
time metric, it compares a magnitude, normal values do not fire, it keeps more than a twentieth of the
alerts, it moves the threshold by at most a factor of ten and does not loosen a capacity limit. A
dangerous suggestion is shown as one to review with low confidence, one that silences nearly all
alerts never as advice to apply, and one at the bound of the metric never with a new threshold.\<close>

theorem guardrails_exact:
  assumes "ts_RecommendationType s \<notin> {''insufficient_data'', ''not_eligible''}"
    "h = ratioHeuristic alertDef s (detectMetricHints alertDef)" "ValidateSuggestion alertDef q s = (s', r)"
  shows "(sr_Level r = ''safe'' \<longleftrightarrow> \<not> objectionable alertDef h s) \<and> (sr_Level r = ''safe'' \<longrightarrow> s' = s \<and> sr_Warnings r = []) \<and>
    sr_Level r \<in> {''safe'', ''review'', ''dangerous''} \<and>
    (sr_Level r = ''dangerous'' \<longrightarrow> ts_RecommendationType s' \<in> {''review_alert'', ''disable''} \<and>
       AdjustConfidenceForRisk (ts_Confidence s') (Some r) = ''low'') \<and>
    (ts_EstimatedReduction s \<ge> 95 \<longrightarrow> ts_RecommendationType s' \<in> {''review_alert'', ''disable''}) \<and>
    (if overBound alertDef h s then ts_SuggestedThreshold s' = ad_CurrentThreshold alertDef \<and> ts_RecommendationType s' = ''review_alert''
     else ts_SuggestedThreshold s' = ts_SuggestedThreshold s)"
  by (rule ValidateSuggestion_spec [OF assms])

definition cpuAlert :: AlertDefinition where
  "cpuAlert = \<lparr>ad_MetricName = ''node_cpu_utilization'', ad_MetricNamespace = '''', ad_Operator = ''>'', ad_CurrentThreshold = 90,
     ad_Period = 0, ad_EvaluationPeriods = 0\<rparr>"

definition beyondBound :: ThresholdSuggestion where
  "beyondBound = zeroSuggestion\<lparr>ts_SuggestedThreshold := 104, ts_Confidence := ''high'', ts_MetricP50 := 60, ts_MetricP95 := 95,
     ts_EstimatedReduction := 100, ts_RecommendationType := ''tune_threshold''\<rparr>"

theorem guardrails_exact_witness:
  "ts_SuggestedThreshold (fst (ValidateSuggestion cpuAlert None beyondBound)) = 90 \<and>
   ts_RecommendationType (fst (ValidateSuggestion cpuAlert None beyondBound)) = ''review_alert'' \<and>
   sr_Level (snd (ValidateSuggestion cpuAlert None beyondBound)) \<noteq> ''safe''"
proof -
  have rt: "ts_RecommendationType beyondBound \<notin> {''insufficient_data'', ''not_eligible''}" by code_simp
  let ?h = "ratioHeuristic cpuAlert beyondBound (detectMetricHints cpuAlert)"
  have "overBound cpuAlert ?h beyondBound" by code_simp
  then show ?thesis
    using guardrails_exact [OF rt refl prod.collapse [symmetric], of cpuAlert None]
    by (auto simp: objectionable_def cpuAlert_def)
qed

text \<open>The gate on equality comparisons sets the level without looking at it, so it hides the danger an earlier gate
found: a suggestion at the bound of its metric is reported as one to review.\<close>

definition stateAlert :: AlertDefinition where
  "stateAlert = cpuAlert\<lparr>ad_MetricName := ''ready == 1'', ad_CurrentThreshold := 1 / 2\<rparr>"

definition atBound :: ThresholdSuggestion where
  "atBound = zeroSuggestion\<lparr>ts_SuggestedThreshold := 1, ts_MetricP50 := 1 / 4, ts_MetricP95 := 1, ts_EstimatedReduction := 50,
     ts_RecommendationType := ''tune_threshold''\<rparr>"

lemma equality_gate_hides_danger:
  "sr_Level (snd (ValidateSuggestion stateAlert None atBound)) = ''review'' \<and>
   AtUpperBound \<in> set (sr_Warnings (snd (ValidateSuggestion stateAlert None atBound)))"
  by code_simp

end
