(* ===== verification/ThresholdBaseline.thy ===== *)
theory ThresholdBaseline
  imports ThresholdGuardrails
begin

text \<open>
  Why an alert fires (\<open>api-server/services/triage/threshold_suggestion_baseline.go\<close>): the metric history is
  split at the windows in which the alert fired, the two distributions are compared, and the diagnosis
  decides whether the threshold, the duration or the alert itself needs work. The end of the theory
  puts the tuner, the diagnosis and the guardrails together as \<open>GetThresholdSuggestion\<close> of
  \<open>threshold_suggestion.go\<close> does once the alert, its history and its firings are at hand.

  Times are seconds. \<open>sort.Slice\<close> leaves the order of windows with the same start open; they merge into one
  window in either order, so the model sorts them stably.
\<close>

section \<open>Firing windows\<close>

record firingInterval =
  fi_start :: int
  fi_end :: int

definition intervalMergeSteps :: int where "intervalMergeSteps = 2"

definition padSeconds :: "AlertDefinition \<Rightarrow> int \<Rightarrow> int" where
  "padSeconds alertDef step =
     (let forSec0 = (if ad_EvaluationPeriods alertDef > 0 then ad_Period alertDef * ad_EvaluationPeriods alertDef
                     else if ad_Period alertDef > 0 then ad_Period alertDef else 0);
          forSec = (if forSec0 \<le> 0 then step else forSec0)
      in forSec + step)"

fun mergeLoop :: "int \<Rightarrow> firingInterval \<Rightarrow> firingInterval list \<Rightarrow> firingInterval list" where
  "mergeLoop gap cur [] = [cur]"
| "mergeLoop gap cur (iv # ivs) =
     (if fi_start iv \<le> fi_end cur + gap
      then mergeLoop gap (if fi_end iv > fi_end cur then cur\<lparr>fi_end := fi_end iv\<rparr> else cur) ivs
      else cur # mergeLoop gap iv ivs)"

definition padAndMergeIntervals :: "firingInterval list \<Rightarrow> AlertDefinition \<Rightarrow> int \<Rightarrow> firingInterval list" where
  "padAndMergeIntervals intervals alertDef stepSeconds =
     (if intervals = [] then []
      else
        let step = (if stepSeconds \<le> 0 then 60 else stepSeconds);
            padSec = padSeconds alertDef step;
            padded = sort_key fi_start (map (\<lambda>iv. iv\<lparr>fi_start := fi_start iv - padSec\<rparr>) intervals)
        in mergeLoop (intervalMergeSteps * step) (hd padded) (tl padded))"

text \<open>\<open>sort.Search\<close>.\<close>

function searchLoop :: "(nat \<Rightarrow> bool) \<Rightarrow> nat \<Rightarrow> nat \<Rightarrow> nat" where
  "searchLoop f i j =
     (if i < j then
        let h = (i + j) div 2
        in if \<not> f h then searchLoop f (h + 1) j else searchLoop f i h
      else i)"
  by pat_completeness auto
termination
  by (relation "measure (\<lambda>(f, i, j). j - i)") auto

declare searchLoop.simps [simp del]

definition intervalIndexer :: "firingInterval list \<Rightarrow> int \<Rightarrow> nat option" where
  "intervalIndexer intervals ts =
     (if intervals = [] then None
      else
        let i = searchLoop (\<lambda>i. fi_start (intervals ! i) > ts) 0 (length intervals)
        in if i = 0 \<or> ts > fi_end (intervals ! (i - 1)) then None else Some (i - 1))"

section \<open>The two distributions\<close>

definition statsOfSorted :: "rat list \<Rightarrow> DistStats" where
  "statsOfSorted xs =
     \<lparr>ds_Count = length xs, ds_P50 = roundTo (percentile xs 50) 2, ds_P90 = roundTo (percentile xs 90) 2,
      ds_P95 = roundTo (percentile xs 95) 2, ds_P99 = roundTo (percentile xs 99) 2,
      ds_Median = roundTo (computeMedian xs) 2, ds_MAD = roundTo (computeMAD xs) 2\<rparr>"

record baselineDecomposition =
  bd_baselineSorted :: "rat list"
  bd_firingSorted :: "rat list"
  bd_Baseline :: DistStats
  bd_Firing :: DistStats
  bd_Coverage :: rat
  bd_IntervalCount :: nat
  bd_SelfCheckFailed :: bool
  bd_SampledIntervals :: nat
  bd_CorroboratedIntervals :: nat
  bd_SeasonalitySuspected :: bool

definition crosses :: "bool \<Rightarrow> rat \<Rightarrow> rat \<Rightarrow> bool" where
  "crosses isGT threshold v \<longleftrightarrow> (isGT \<and> v > threshold) \<or> (\<not> isGT \<and> v < threshold)"

text \<open>Saturdays and Sundays in UTC; the first of January 1970 was a Thursday.\<close>

definition isWeekend :: "int \<Rightarrow> bool" where
  "isWeekend ts = (let wd = (ts div 86400 + 4) mod 7 in wd = 6 \<or> wd = 0)"

definition corroboratedIntervalMin :: rat where "corroboratedIntervalMin = 1 / 2"

definition seasonality :: "(int \<times> rat) list \<Rightarrow> bool" where
  "seasonality offAlert =
     (let we = sort (map snd (filter (\<lambda>(ts, v). isWeekend ts) offAlert));
          wd = sort (map snd (filter (\<lambda>(ts, v). \<not> isWeekend ts) offAlert))
      in if length wd \<ge> 12 \<and> length we \<ge> 12 then
           let wdMed = computeMedian wd;
               weMed = computeMedian we;
               denom = max \<bar>wdMed\<bar> \<bar>weMed\<bar>
           in denom > f64 (1 / 1000000000) \<and> f64 (\<bar>f64 (wdMed - weMed)\<bar> / denom) > f64 (3 / 10)
         else False)"

definition decomposeHistory :: "MetricHistory \<Rightarrow> firingInterval list \<Rightarrow> rat \<Rightarrow> bool \<Rightarrow> baselineDecomposition" where
  "decomposeHistory mh intervals threshold isGT =
     (let samples = zip (mh_Timestamps mh) (mh_Values mh);
          offAlert = filter (\<lambda>(ts, v). intervalIndexer intervals ts = None) samples;
          baseline = sort (map snd offAlert);
          firing = sort (map snd (filter (\<lambda>(ts, v). intervalIndexer intervals ts \<noteq> None) samples));
          samplesPer = (\<lambda>i. length (filter (\<lambda>(ts, v). intervalIndexer intervals ts = Some i) samples));
          violatingPer = (\<lambda>i. length (filter (\<lambda>(ts, v). intervalIndexer intervals ts = Some i \<and> crosses isGT threshold v) samples));
          total = length baseline + length firing;
          sampled = filter (\<lambda>i. samplesPer i \<noteq> 0) [0..<length intervals];
          corroborated = filter (\<lambda>i. violatingPer i > 0) sampled
      in \<lparr>bd_baselineSorted = baseline, bd_firingSorted = firing, bd_Baseline = statsOfSorted baseline, bd_Firing = statsOfSorted firing,
          bd_Coverage = (if total > 0 then f64 (float_of (int (length baseline)) / float_of (int total)) else 1),
          bd_IntervalCount = length intervals,
          bd_SelfCheckFailed = (sampled = [] \<or>
             f64 (float_of (int (length corroborated)) / float_of (int (length sampled))) < corroboratedIntervalMin),
          bd_SampledIntervals = length sampled, bd_CorroboratedIntervals = length corroborated,
          bd_SeasonalitySuspected = seasonality offAlert\<rparr>)"

definition moreExtreme :: "rat \<Rightarrow> rat \<Rightarrow> bool \<Rightarrow> bool" where
  "moreExtreme a b isGT = (if isGT then a > b else a < b)"

text \<open>The count and the most extreme value; \<open>None\<close> is the first round of the loop.\<close>

definition violationScore :: "rat list \<Rightarrow> rat \<Rightarrow> bool \<Rightarrow> nat \<times> rat" where
  "violationScore values threshold isGT =
     (length (filter (crosses isGT threshold) values),
      case foldl (\<lambda>ext v. case ext of None \<Rightarrow> Some v | Some e \<Rightarrow> if moreExtreme v e isGT then Some v else Some e) None values of
        None \<Rightarrow> 0 | Some e \<Rightarrow> e)"

definition violationRate :: "rat list \<Rightarrow> rat \<Rightarrow> bool \<Rightarrow> rat" where
  "violationRate xs threshold isGT =
     (if xs = [] then 0 else f64 (float_of (int (fst (violationScore xs threshold isGT))) / float_of (int (length xs))))"

fun distinctCount :: "rat list \<Rightarrow> nat" where
  "distinctCount [] = 0"
| "distinctCount [x] = 1"
| "distinctCount (x # y # xs) = (if y \<noteq> x then 1 else 0) + distinctCount (y # xs)"

definition boundsFor :: "AlertDefinition \<Rightarrow> DistStats \<Rightarrow> bool \<times> rat \<times> rat" where
  "boundsFor alertDef baseline =
     (let hint = detectMetricHints alertDef
      in if isBounded hint then (True, upperBound hint, lowerBound hint)
         else if ad_CurrentThreshold alertDef > 0 \<and> ad_CurrentThreshold alertDef \<le> 1 \<and> ds_P95 baseline \<le> f64 (105 / 100)
         then (True, 1, 0)
         else (False, 0, 0))"

text \<open>The series that violates the threshold most often, ties going to the more extreme and then the earlier one.\<close>

fun pickSeries :: "rat \<Rightarrow> bool \<Rightarrow> MetricHistory list \<Rightarrow> MetricHistory \<times> nat \<times> rat \<Rightarrow> MetricHistory" where
  "pickSeries threshold isGT [] (best, bv, be) = best"
| "pickSeries threshold isGT (s # ss) (best, bv, be) =
     (case violationScore (mh_Values s) threshold isGT of (viol, ext) \<Rightarrow>
        pickSeries threshold isGT ss
          (if viol > bv \<or> (viol = bv \<and> moreExtreme ext be isGT) then (s, viol, ext) else (best, bv, be)))"

definition selectFiringSeries :: "MetricHistory list \<Rightarrow> rat \<Rightarrow> bool \<Rightarrow> MetricHistory option" where
  "selectFiringSeries seriesList threshold isGT =
     (case seriesList of
        [] \<Rightarrow> None
      | [s] \<Rightarrow> Some s
      | s # ss \<Rightarrow> Some (pickSeries threshold isGT ss (s, violationScore (mh_Values s) threshold isGT)))"

section \<open>The diagnosis\<close>

definition baselineContaminationMax :: rat where "baselineContaminationMax = f64 (40 / 100)"
definition chronicCoverageMax :: rat where "chronicCoverageMax = f64 (30 / 100)"
definition mistunedGap :: rat where "mistunedGap = f64 (10 / 100)"
definition excursionGap :: rat where "excursionGap = f64 (30 / 100)"

definition minOf :: "rat \<Rightarrow> rat \<Rightarrow> rat" where "minOf a b = (if a < b then a else b)"

text \<open>The threshold computed from one distribution and limited by the whole history.\<close>

definition outsideOf :: "bool \<Rightarrow> rat list \<Rightarrow> rat list \<Rightarrow> rat \<Rightarrow> rat \<times> string" where
  "outsideOf isGT xs full theta =
     (let med = computeMedian xs;
          madVal = computeMAD xs
      in if isGT then
           (case computeUpperThreshold xs med madVal (percentile xs 95) of (suggested, method) \<Rightarrow>
              (applySanityCap suggested theta (percentile full 99), method))
         else
           (case computeLowerThreshold xs med madVal of (suggested, method) \<Rightarrow>
              let floorV = minOf (f64 (theta * f64 (1 / 10))) (percentile full 1)
              in (if suggested < floorV then floorV else suggested, method)))"

definition chronic :: "AlertDefinition \<Rightarrow> rat list \<Rightarrow> baselineDecomposition \<Rightarrow> bool \<Rightarrow> bool \<Rightarrow> ThresholdSuggestion \<Rightarrow> ThresholdSuggestion" where
  "chronic alertDef full decomp isGT isLT s0 =
     (let theta = ad_CurrentThreshold alertDef;
          s = s0\<lparr>ts_Diagnosis := ''chronic'', ts_RecommendationType := ''investigate_signal''\<rparr>;
          p50 = ds_P50 (bd_Baseline decomp)
      in case boundsFor alertDef (bd_Baseline decomp) of (bounded, upper, lower) \<Rightarrow>
           let margin = f64 (f64 (upper - lower) * f64 (5 / 100))
           in if bounded \<and> ((isGT \<and> p50 \<ge> f64 (upper - margin)) \<or> (isLT \<and> p50 \<le> f64 (lower + margin))) then s
              else
                case outsideOf isGT full full theta of (outside, method) \<Rightarrow>
                  if (isGT \<and> outside > theta) \<or> (isLT \<and> outside < theta) then
                    let t = roundTo outside 2
                    in s\<lparr>ts_SuggestedThreshold := t, ts_Method := method @ ''-chronic'',
                         ts_EstimatedReduction := estimateReduction full theta t isGT\<rparr>
                  else s)"

definition mistuned ::
  "AlertDefinition \<Rightarrow> AlertQualityScore option \<Rightarrow> rat list \<Rightarrow> baselineDecomposition \<Rightarrow> bool \<Rightarrow> bool \<Rightarrow> ThresholdSuggestion \<Rightarrow> ThresholdSuggestion" where
  "mistuned alertDef alertQuality full decomp isGT isLT s0 =
     (let theta = ad_CurrentThreshold alertDef
      in case outsideOf isGT (bd_baselineSorted decomp) full theta of (suggested, method) \<Rightarrow>
           let t = roundTo suggested 2;
               s1 = s0\<lparr>ts_Diagnosis := ''mistuned'', ts_SuggestedThreshold := t, ts_Method := method @ ''-baseline'',
                       ts_EstimatedReduction := estimateReduction full theta t isGT\<rparr>
           in if (isGT \<and> t \<le> theta) \<or> (isLT \<and> t \<ge> theta) then
                s1\<lparr>ts_Diagnosis := ''ambiguous'', ts_RecommendationType := ''review_alert'', ts_SuggestedThreshold := theta,
                   ts_EstimatedReduction := 0, ts_Confidence := ''low''\<rparr>
              else
                let c1 = computeConfidence (bd_baselineSorted decomp) theta t alertQuality;
                    c2 = (if bd_Coverage decomp < chronicCoverageMax \<and> c1 = ''high'' then ''medium'' else c1);
                    c3 = (if bd_SeasonalitySuspected decomp \<and> c2 = ''high'' then ''medium'' else c2);
                    s2 = computeDurationRecommendation alertDef alertQuality (s1\<lparr>ts_Confidence := c3\<rparr>)
                in s2\<lparr>ts_RecommendationType := if ts_SuggestedDuration s2 > 0 then ''tune_both'' else ''tune_threshold''\<rparr>)"

definition excursion ::
  "AlertDefinition \<Rightarrow> AlertQualityScore option \<Rightarrow> ThresholdSuggestion \<Rightarrow> ThresholdSuggestion" where
  "excursion alertDef alertQuality s0 =
     (let s = s0\<lparr>ts_Diagnosis := ''excursion''\<rparr>
      in if (case alertQuality of None \<Rightarrow> False | Some q \<Rightarrow> aq_TransientRate q > f64 (7 / 10))
         then computeDurationRecommendation alertDef alertQuality (s\<lparr>ts_RecommendationType := ''increase_duration''\<rparr>)
         else s\<lparr>ts_RecommendationType := ''investigate_signal''\<rparr>)"

definition compareBand ::
  "AlertDefinition \<Rightarrow> AlertQualityScore option \<Rightarrow> rat list \<Rightarrow> baselineDecomposition \<Rightarrow> bool \<Rightarrow> bool \<Rightarrow> ThresholdSuggestion \<Rightarrow> ThresholdSuggestion" where
  "compareBand alertDef alertQuality full decomp isGT isLT s =
     (let theta = ad_CurrentThreshold alertDef;
          bandEdge = percentile (bd_baselineSorted decomp) (if isGT then 95 else 5);
          gapFrac = f64 (f64 (if isGT then theta - bandEdge else bandEdge - theta) / theta)
      in if gapFrac \<le> mistunedGap then mistuned alertDef alertQuality full decomp isGT isLT s
         else if gapFrac \<ge> excursionGap then excursion alertDef alertQuality s
         else s\<lparr>ts_Diagnosis := ''ambiguous'', ts_RecommendationType := ''review_alert''\<rparr>)"

definition diagnoseWithBaseline ::
  "AlertDefinition \<Rightarrow> MetricHistory option \<Rightarrow> firingInterval list \<Rightarrow> AlertQualityScore option \<Rightarrow> ThresholdSuggestion option" where
  "diagnoseWithBaseline alertDef history intervals alertQuality =
     (case history of
        None \<Rightarrow> None
      | Some mh \<Rightarrow>
          let isGT = isGreaterThanOperator (ad_Operator alertDef);
              isLT = isLessThanOperator (ad_Operator alertDef);
              theta = ad_CurrentThreshold alertDef
          in if mh_Values mh = [] \<or> (\<not> isGT \<and> \<not> isLT) \<or> theta \<le> 0 then None
             else
               let full = sort (mh_Values mh);
                   step = (if mh_Step mh \<le> 0 then 60 else mh_Step mh);
                   decomp = decomposeHistory mh (padAndMergeIntervals intervals alertDef step) theta isGT;
                   s = withStats full (zeroSuggestion\<lparr>ts_Baseline := Some (bd_Baseline decomp), ts_Firing := Some (bd_Firing decomp),
                         ts_BaselineCoverage := roundTo (bd_Coverage decomp) 4, ts_SuggestedThreshold := theta, ts_Confidence := ''low''\<rparr>)
               in Some
                 (if bd_SelfCheckFailed decomp \<or> ds_Count (bd_Baseline decomp) < minThresholdSamples \<or> fst (isHistogramSaturated alertDef full)
                  then s\<lparr>ts_RecommendationType := ''insufficient_data''\<rparr>
                  else if violationRate (bd_baselineSorted decomp) theta isGT > baselineContaminationMax
                  then chronic alertDef full decomp isGT isLT s
                  else if distinctCount full \<le> 2
                  then s\<lparr>ts_Diagnosis := ''boolean'', ts_RecommendationType := ''review_alert''\<rparr>
                  else compareBand alertDef alertQuality full decomp isGT isLT s))"

section \<open>The whole decision\<close>

definition skipGuardrails :: "ThresholdSuggestion \<Rightarrow> bool" where
  "skipGuardrails s \<longleftrightarrow> ts_RecommendationType s = ''insufficient_data'' \<or>
     (ts_Diagnosis s \<noteq> '''' \<and> ts_RecommendationType s \<noteq> ''tune_threshold'')"

definition guarded ::
  "AlertDefinition \<Rightarrow> MetricHistory option \<Rightarrow> AlertQualityScore option \<Rightarrow> ThresholdSuggestion \<Rightarrow> ThresholdSuggestion" where
  "guarded alertDef history alertQuality s =
     (if skipGuardrails s then s
      else
        case ValidateSuggestion alertDef alertQuality s of (s1, risk) \<Rightarrow>
          let values = (case history of None \<Rightarrow> [] | Some mh \<Rightarrow> mh_Values mh);
              s2 = (if values \<noteq> []
                    then s1\<lparr>ts_EstimatedReduction := estimateReduction (sort values) (ad_CurrentThreshold alertDef)
                           (ts_SuggestedThreshold s1) (isGreaterThanOperator (ad_Operator alertDef))\<rparr>
                    else s1)
          in s2\<lparr>ts_RiskLevel := sr_Level risk, ts_RiskWarnings := sr_Warnings risk,
                ts_Confidence := AdjustConfidenceForRisk (ts_Confidence s2) (Some risk)\<rparr>)"

definition suggestThreshold ::
  "AlertDefinition \<Rightarrow> MetricHistory option \<Rightarrow> firingInterval list \<Rightarrow> FiringAnalysis option \<Rightarrow> AlertQualityScore option \<Rightarrow>
     ThresholdSuggestion option" where
  "suggestThreshold alertDef history intervals firingAnalysis alertQuality =
     (if checkThresholdEligibility (Some alertDef) \<noteq> None
      then Some (zeroSuggestion\<lparr>ts_RecommendationType := ''not_eligible'', ts_Confidence := ''low''\<rparr>)
      else
        map_option (guarded alertDef history alertQuality)
          (case diagnoseWithBaseline alertDef history intervals alertQuality of
             Some s \<Rightarrow> Some s
           | None \<Rightarrow> computeSuggestion alertDef history firingAnalysis alertQuality))"

section \<open>Windows\<close>

lemma searchLoop_least:
  assumes "i \<le> j" "\<forall>k<i. \<not> f k" "\<forall>k\<ge>j. k < n \<longrightarrow> f k" "\<forall>k l. k \<le> l \<longrightarrow> l < n \<longrightarrow> f k \<longrightarrow> f l" "j \<le> n"
  shows "searchLoop f i j \<le> n \<and> (\<forall>k<searchLoop f i j. \<not> f k) \<and> (\<forall>k\<ge>searchLoop f i j. k < n \<longrightarrow> f k)"
  using assms
proof (induction f i j rule: searchLoop.induct)
  case (1 f i j)
  show ?case
  proof (cases "i < j")
    case True
    let ?h = "(i + j) div 2"
    have h: "i \<le> ?h" "?h < j" using True by auto
    show ?thesis
    proof (cases "f ?h")
      case f: True
      then have up: "\<forall>k\<ge>?h. k < n \<longrightarrow> f k" using 1(6) by blast
      have eq: "searchLoop f i j = searchLoop f i ?h" using True f by (simp add: searchLoop.simps [of f i j] Let_def)
      have "?h \<le> n" using h(2) 1(7) by linarith
      then show ?thesis unfolding eq using 1(2) [OF True refl _ h(1) 1(4) up 1(6)] f by blast
    next
      case f: False
      have "?h < n" using h(2) 1(7) by linarith
      then have down: "\<forall>k<?h + 1. \<not> f k" using 1(6) f by (metis Suc_eq_plus1 less_Suc_eq_le)
      have eq: "searchLoop f i j = searchLoop f (?h + 1) j" using True f by (simp add: searchLoop.simps [of f i j] Let_def)
      have "?h + 1 \<le> j" using h(2) by linarith
      then show ?thesis unfolding eq using 1(1) [OF True refl f _ down 1(5,6,7)] by blast
    qed
  next
    case False
    then have "searchLoop f i j = i" by (simp add: searchLoop.simps [of f i j])
    moreover have "i = j" using False 1(3) by simp
    ultimately show ?thesis using 1(4,5,7) by simp
  qed
qed

definition separated :: "int \<Rightarrow> firingInterval list \<Rightarrow> bool" where
  "separated gap ivs \<longleftrightarrow> sorted_wrt (\<lambda>a b. fi_start a \<le> fi_start b \<and> fi_end a + gap < fi_start b) ivs"

lemma intervalIndexer_iff:
  assumes "separated gap ivs" "0 \<le> gap"
  shows "intervalIndexer ivs ts = Some i \<longleftrightarrow> i < length ivs \<and> fi_start (ivs ! i) \<le> ts \<and> ts \<le> fi_end (ivs ! i)"
proof (cases "ivs = []")
  case True
  then show ?thesis by (simp add: intervalIndexer_def)
next
  case False
  let ?f = "\<lambda>i. fi_start (ivs ! i) > ts" and ?n = "length ivs"
  let ?k = "searchLoop (\<lambda>i. fi_start (ivs ! i) > ts) 0 (length ivs)"
  have ord: "k < l \<Longrightarrow> l < ?n \<Longrightarrow> fi_start (ivs ! k) \<le> fi_start (ivs ! l) \<and> fi_end (ivs ! k) + gap < fi_start (ivs ! l)" for k l
    using assms(1) by (auto simp: separated_def sorted_wrt_iff_nth_less)
  have mono: "\<forall>k l. k \<le> l \<longrightarrow> l < ?n \<longrightarrow> ?f k \<longrightarrow> ?f l"
  proof (intro allI impI)
    fix k l assume "k \<le> l" "l < ?n" "?f k"
    then show "?f l" using ord [of k l] by (cases "k = l") auto
  qed
  have "\<forall>k<0. \<not> ?f k" "\<forall>k\<ge>?n. k < ?n \<longrightarrow> ?f k" by simp_all
  note least = searchLoop_least [OF le0 this mono order_refl]
  define k where "k = searchLoop ?f 0 ?n"
  have k: "k \<le> ?n" "\<And>m. m < k \<Longrightarrow> fi_start (ivs ! m) \<le> ts" "\<And>m. k \<le> m \<Longrightarrow> m < ?n \<Longrightarrow> ts < fi_start (ivs ! m)"
    using least unfolding k_def [symmetric] by (blast, meson leI, blast)
  have idx: "intervalIndexer ivs ts = Some i \<longleftrightarrow> k \<noteq> 0 \<and> ts \<le> fi_end (ivs ! (k - 1)) \<and> i = k - 1"
    using False by (auto simp: intervalIndexer_def Let_def k_def)
  show ?thesis
  proof
    assume "intervalIndexer ivs ts = Some i"
    then show "i < ?n \<and> fi_start (ivs ! i) \<le> ts \<and> ts \<le> fi_end (ivs ! i)" using idx k(1) k(2) [of i] by auto
  next
    assume i: "i < ?n \<and> fi_start (ivs ! i) \<le> ts \<and> ts \<le> fi_end (ivs ! i)"
    then have lt: "i < k" using k(3) [of i] by linarith
    have "i = k - 1"
    proof (rule ccontr)
      assume "i \<noteq> k - 1"
      then have "i < k - 1" "k - 1 < ?n" using lt k(1) by auto
      from ord [OF this] have "ts < fi_start (ivs ! (k - 1))" using i assms(2) by linarith
      then show False using k(2) [of "k - 1"] lt by linarith
    qed
    then show "intervalIndexer ivs ts = Some i" using idx i lt by auto
  qed
qed

lemma mergeLoop_spec:
  assumes "sorted_wrt (\<lambda>a b. fi_start a \<le> fi_start b) (cur # ivs)" "0 \<le> gap"
  shows "separated gap (mergeLoop gap cur ivs) \<and> (\<forall>m\<in>set (mergeLoop gap cur ivs). fi_start cur \<le> fi_start m) \<and>
    (\<forall>iv\<in>set (cur # ivs). \<exists>m\<in>set (mergeLoop gap cur ivs). fi_start m \<le> fi_start iv \<and> fi_end iv \<le> fi_end m) \<and>
    (\<forall>m\<in>set (mergeLoop gap cur ivs). \<exists>a\<in>set (cur # ivs). \<exists>b\<in>set (cur # ivs). fi_start m = fi_start a \<and> fi_end m = fi_end b)"
  using assms(1)
proof (induction ivs arbitrary: cur)
  case Nil
  then show ?case by (simp add: separated_def)
next
  case (Cons iv ivs)
  show ?case
  proof (cases "fi_start iv \<le> fi_end cur + gap")
    case True
    let ?c = "if fi_end iv > fi_end cur then cur\<lparr>fi_end := fi_end iv\<rparr> else cur"
    have c: "fi_start ?c = fi_start cur" "fi_end cur \<le> fi_end ?c" "fi_end iv \<le> fi_end ?c" "fi_end ?c = fi_end cur \<or> fi_end ?c = fi_end iv" by auto
    have "sorted_wrt (\<lambda>a b. fi_start a \<le> fi_start b) (?c # ivs)" using Cons.prems by (auto simp: c(1))
    note IH = Cons.IH [OF this]
    have eq: "mergeLoop gap cur (iv # ivs) = mergeLoop gap ?c ivs" using True by simp
    obtain m where "m \<in> set (mergeLoop gap ?c ivs)" "fi_start m \<le> fi_start ?c" "fi_end ?c \<le> fi_end m" using IH by auto
    moreover have "fi_start cur \<le> fi_start iv" using Cons.prems by simp
    ultimately have m: "m \<in> set (mergeLoop gap ?c ivs)" "fi_start m \<le> fi_start cur" "fi_start m \<le> fi_start iv" "fi_end cur \<le> fi_end m" "fi_end iv \<le> fi_end m"
      using c by linarith+
    have ends: "\<exists>a\<in>set (cur # iv # ivs). \<exists>b\<in>set (cur # iv # ivs). fi_start m = fi_start a \<and> fi_end m = fi_end b"
      if h: "\<exists>a\<in>set (?c # ivs). \<exists>b\<in>set (?c # ivs). fi_start m = fi_start a \<and> fi_end m = fi_end b" for m
    proof -
      obtain a b where ab: "a \<in> set (?c # ivs)" "b \<in> set (?c # ivs)" "fi_start m = fi_start a" "fi_end m = fi_end b" using h by blast
      have "\<exists>a\<in>set (cur # iv # ivs). fi_start m = fi_start a" using ab(1,3) c(1) by (cases "a = ?c") auto
      moreover have "\<exists>b\<in>set (cur # iv # ivs). fi_end m = fi_end b" using ab(2,4) c(4) by (cases "b = ?c") auto
      ultimately show ?thesis by blast
    qed
    show ?thesis unfolding eq
      by (intro conjI ballI ends) (use IH c(1) m in \<open>auto simp del: mergeLoop.simps\<close>)
  next
    case False
    have sorted: "sorted_wrt (\<lambda>a b. fi_start a \<le> fi_start b) (iv # ivs)" using Cons.prems by simp
    note IH = Cons.IH [OF sorted]
    have eq: "mergeLoop gap cur (iv # ivs) = cur # mergeLoop gap iv ivs" using False by simp
    have le: "fi_start cur \<le> fi_start iv" using Cons.prems by simp
    have "separated gap (cur # mergeLoop gap iv ivs)"
      using IH False le unfolding separated_def sorted_wrt.simps by (meson leI le_less_trans less_le_trans order_trans not_le)
    then show ?thesis unfolding eq using IH le by (fastforce simp del: mergeLoop.simps)
  qed
qed

lemma padSeconds_pos: "0 < step \<Longrightarrow> 0 < padSeconds alertDef step"
  by (simp add: padSeconds_def Let_def)

definition stepOf :: "int \<Rightarrow> int" where "stepOf step = (if step \<le> 0 then 60 else step)"

lemma padAndMerge_spec:
  fixes alertDef :: AlertDefinition and step :: int and intervals :: "firingInterval list"
  defines "padS \<equiv> padSeconds alertDef (stepOf step)" and "merged \<equiv> padAndMergeIntervals intervals alertDef step"
  shows "separated (2 * stepOf step) merged \<and>
    (\<forall>iv\<in>set intervals. \<exists>m\<in>set merged. fi_start m \<le> fi_start iv - padS \<and> fi_end iv \<le> fi_end m) \<and>
    (\<forall>m\<in>set merged. \<exists>a\<in>set intervals. \<exists>b\<in>set intervals. fi_start m = fi_start a - padS \<and> fi_end m = fi_end b)"
proof (cases "intervals = []")
  case True
  then show ?thesis by (simp add: merged_def padAndMergeIntervals_def separated_def)
next
  case False
  let ?f = "\<lambda>iv. iv\<lparr>fi_start := fi_start iv - padS\<rparr>"
  let ?p = "sort_key fi_start (map ?f intervals)"
  have set: "set ?p = ?f ` set intervals" by simp
  have "length ?p \<noteq> 0" using False by simp
  then obtain c ps where p: "?p = c # ps" by (metis length_0_conv neq_Nil_conv)
  have m: "merged = mergeLoop (2 * stepOf step) c ps"
    using False p by (simp add: merged_def padAndMergeIntervals_def Let_def stepOf_def padS_def intervalMergeSteps_def)
  have "sorted (map fi_start ?p)" by simp
  then have "sorted_wrt (\<lambda>a b. fi_start a \<le> fi_start b) (c # ps)" unfolding p by (simp add: sorted_wrt_map)
  from mergeLoop_spec [OF this, of "2 * stepOf step"]
  have spec: "separated (2 * stepOf step) merged"
      "\<forall>iv\<in>set (c # ps). \<exists>m\<in>set merged. fi_start m \<le> fi_start iv \<and> fi_end iv \<le> fi_end m"
      "\<forall>m\<in>set merged. \<exists>a\<in>set (c # ps). \<exists>b\<in>set (c # ps). fi_start m = fi_start a \<and> fi_end m = fi_end b"
    unfolding m by (auto simp: stepOf_def simp del: mergeLoop.simps)
  then show ?thesis unfolding p [symmetric] set by (simp add: ball_simps bex_simps)
qed

section \<open>What a diagnosis rests on\<close>

definition outsideWindows :: "AlertDefinition \<Rightarrow> int \<Rightarrow> firingInterval list \<Rightarrow> int \<Rightarrow> bool" where
  "outsideWindows alertDef step intervals ts \<longleftrightarrow>
     (\<forall>iv\<in>set intervals. ts < fi_start iv - padSeconds alertDef (stepOf step) \<or> fi_end iv < ts)"

lemma unindexed_outside:
  assumes "intervalIndexer (padAndMergeIntervals intervals alertDef step) ts = None"
  shows "outsideWindows alertDef step intervals ts"
proof (rule ccontr)
  let ?m = "padAndMergeIntervals intervals alertDef step"
  assume "\<not> ?thesis"
  then obtain iv where iv: "iv \<in> set intervals" "fi_start iv - padSeconds alertDef (stepOf step) \<le> ts" "ts \<le> fi_end iv"
    by (auto simp: outsideWindows_def not_less)
  note spec = padAndMerge_spec [of step intervals alertDef]
  then obtain m where "m \<in> set ?m" "fi_start m \<le> ts" "ts \<le> fi_end m" using iv by (meson order_trans)
  then obtain i where "i < length ?m" "fi_start (?m ! i) \<le> ts" "ts \<le> fi_end (?m ! i)" by (metis in_set_conv_nth)
  then have "intervalIndexer ?m ts = Some i" using intervalIndexer_iff spec by (simp add: intervalIndexer_iff [OF conjunct1 [OF spec]] stepOf_def)
  then show False using assms by simp
qed

lemma length_filter_mono: "(\<And>x. x \<in> set xs \<Longrightarrow> P x \<Longrightarrow> Q x) \<Longrightarrow> length (filter P xs) \<le> length (filter Q xs)"
  by (induction xs) (auto simp: le_SucI)

lemma decompose_sound:
  fixes mh :: MetricHistory and alertDef :: AlertDefinition and step :: int and intervals :: "firingInterval list" and theta :: rat and isGT :: bool
  defines "samples \<equiv> zip (mh_Timestamps mh) (mh_Values mh)"
  defines "d \<equiv> decomposeHistory mh (padAndMergeIntervals intervals alertDef step) theta isGT"
  assumes "\<not> bd_SelfCheckFailed d"
  shows "ds_Count (bd_Baseline d) \<le> length (filter (\<lambda>(ts, v). outsideWindows alertDef step intervals ts) samples) \<and>
    (\<exists>(ts, v)\<in>set samples. intervalIndexer (padAndMergeIntervals intervals alertDef step) ts \<noteq> None \<and> crosses isGT theta v)"
proof
  let ?m = "padAndMergeIntervals intervals alertDef step"
  have "ds_Count (bd_Baseline d) = length (filter (\<lambda>(ts, v). intervalIndexer ?m ts = None) samples)"
    by (simp add: d_def decomposeHistory_def Let_def statsOfSorted_def samples_def)
  also have "\<dots> \<le> length (filter (\<lambda>(ts, v). outsideWindows alertDef step intervals ts) samples)"
    by (rule length_filter_mono) (auto dest: unindexed_outside)
  finally show "ds_Count (bd_Baseline d) \<le> length (filter (\<lambda>(ts, v). outsideWindows alertDef step intervals ts) samples)" .
  let ?sampled = "filter (\<lambda>i. length (filter (\<lambda>(ts, v). intervalIndexer ?m ts = Some i) samples) \<noteq> 0) [0..<length ?m]"
  let ?viol = "\<lambda>i. filter (\<lambda>(ts, v). intervalIndexer ?m ts = Some i \<and> crosses isGT theta v) samples"
  have "\<not> f64 (float_of (int (length (filter (\<lambda>i. length (?viol i) > 0) ?sampled))) / float_of (int (length ?sampled))) < 1 / 2"
    using assms(3) by (simp add: d_def decomposeHistory_def Let_def samples_def corroboratedIntervalMin_def)
  moreover have "f64 (float_of (int 0) / x) < 1 / 2" for x by (simp add: float_of_def)
  ultimately have "length (filter (\<lambda>i. length (?viol i) > 0) ?sampled) \<noteq> 0" by metis
  then obtain i where "?viol i \<noteq> []" by (auto simp: filter_empty_conv)
  then obtain ts v where tv: "(ts, v) \<in> set samples" "intervalIndexer ?m ts = Some i" "crosses isGT theta v"
    by (auto simp: filter_empty_conv)
  then show "\<exists>(ts, v)\<in>set samples. intervalIndexer ?m ts \<noteq> None \<and> crosses isGT theta v" by blast
qed

lemma duration_keeps:
  "ts_SuggestedThreshold (computeDurationRecommendation a q s) = ts_SuggestedThreshold s"
  "ts_EstimatedReduction (computeDurationRecommendation a q s) = ts_EstimatedReduction s"
  "ts_Diagnosis (computeDurationRecommendation a q s) = ts_Diagnosis s"
  by (simp_all add: computeDurationRecommendation_def Let_def split: option.split)

definition retunes :: "ThresholdSuggestion \<Rightarrow> bool" where
  "retunes s \<longleftrightarrow> ts_RecommendationType s \<in> {''tune_threshold'', ''tune_both''}"

text \<open>A verdict of the diagnosis: a retune moves the threshold away from firing, by an amount that is a percentage; every
other verdict but a chronic one leaves the threshold alone.\<close>

definition soundVerdict :: "AlertDefinition \<Rightarrow> bool \<Rightarrow> bool \<Rightarrow> ThresholdSuggestion \<Rightarrow> bool" where
  "soundVerdict alertDef isGT isLT s \<longleftrightarrow>
     (if retunes s then ts_Diagnosis s = ''mistuned'' \<and> (isGT \<longrightarrow> ts_SuggestedThreshold s > ad_CurrentThreshold alertDef) \<and>
        (isLT \<longrightarrow> ts_SuggestedThreshold s < ad_CurrentThreshold alertDef) \<and> 0 \<le> ts_EstimatedReduction s \<and> ts_EstimatedReduction s \<le> 100
      else ts_Diagnosis s = ''chronic'' \<or> ts_SuggestedThreshold s = ad_CurrentThreshold alertDef)"

lemma chronic_sound: "soundVerdict a isGT isLT (chronic a full d isGT isLT s)"
  by (simp add: chronic_def soundVerdict_def retunes_def Let_def split: prod.split)

lemma mistuned_sound:
  assumes "isGT \<or> isLT" "length full < 2 ^ 53"
  shows "soundVerdict a isGT isLT (mistuned a q full d isGT isLT s)"
proof -
  obtain sug meth where out: "outsideOf isGT (bd_baselineSorted d) full (ad_CurrentThreshold a) = (sug, meth)" by force
  let ?t = "roundTo sug 2" and ?th = "ad_CurrentThreshold a"
  have "0 \<le> estimateReduction full ?th ?t isGT \<and> estimateReduction full ?th ?t isGT \<le> 100"
    if "\<not> ((isGT \<and> ?t \<le> ?th) \<or> (isLT \<and> ?t \<ge> ?th))"
    by (rule estimateReduction_bounds [OF _ assms(2)]) (use that assms(1) in auto)
  then show ?thesis
    by (auto simp: mistuned_def out soundVerdict_def retunes_def Let_def duration_keeps)
qed

lemma excursion_sound:
  "ts_SuggestedThreshold s = ad_CurrentThreshold a \<Longrightarrow> ts_EstimatedReduction s = 0 \<Longrightarrow> soundVerdict a isGT isLT (excursion a q s)"
  by (auto simp: excursion_def soundVerdict_def retunes_def Let_def computeDurationRecommendation_def split: option.split)

lemma compareBand_sound:
  assumes "isGT \<or> isLT" "length full < 2 ^ 53" "ts_SuggestedThreshold s = ad_CurrentThreshold a" "ts_EstimatedReduction s = 0"
  shows "soundVerdict a isGT isLT (compareBand a q full d isGT isLT s)"
  using mistuned_sound [OF assms(1,2)] excursion_sound [OF assms(3,4)] assms(3)
  by (simp add: compareBand_def Let_def) (simp add: soundVerdict_def retunes_def)

lemma withStats_keeps [simp]:
  "ts_SuggestedThreshold (withStats xs s) = ts_SuggestedThreshold s" "ts_EstimatedReduction (withStats xs s) = ts_EstimatedReduction s"
  "ts_Diagnosis (withStats xs s) = ts_Diagnosis s"
  by (simp_all add: withStats_def)

lemma diagnose_sound:
  assumes "diagnoseWithBaseline alertDef (Some mh) intervals alertQuality = Some s" "ts_RecommendationType s \<noteq> ''insufficient_data''"
    "length (mh_Values mh) < 2 ^ 53"
  shows "soundVerdict alertDef (isGreaterThanOperator (ad_Operator alertDef)) (isLessThanOperator (ad_Operator alertDef)) s \<and>
    20 \<le> length (filter (\<lambda>(ts, v). outsideWindows alertDef (stepOf (mh_Step mh)) intervals ts) (zip (mh_Timestamps mh) (mh_Values mh))) \<and>
    (\<exists>(ts, v)\<in>set (zip (mh_Timestamps mh) (mh_Values mh)).
       intervalIndexer (padAndMergeIntervals intervals alertDef (stepOf (mh_Step mh))) ts \<noteq> None \<and>
       crosses (isGreaterThanOperator (ad_Operator alertDef)) (ad_CurrentThreshold alertDef) v)"
proof -
  let ?gt = "isGreaterThanOperator (ad_Operator alertDef)" and ?lt = "isLessThanOperator (ad_Operator alertDef)"
  let ?th = "ad_CurrentThreshold alertDef" and ?full = "sort (mh_Values mh)" and ?step = "stepOf (mh_Step mh)"
  define d where "d = decomposeHistory mh (padAndMergeIntervals intervals alertDef ?step) ?th ?gt"
  define s0 where "s0 = withStats ?full (zeroSuggestion\<lparr>ts_Baseline := Some (bd_Baseline d), ts_Firing := Some (bd_Firing d),
     ts_BaselineCoverage := roundTo (bd_Coverage d) 4, ts_SuggestedThreshold := ?th, ts_Confidence := ''low''\<rparr>)"
  have pre: "\<not> (mh_Values mh = [] \<or> (\<not> ?gt \<and> \<not> ?lt) \<or> ?th \<le> 0)"
    using assms(1) by (auto simp: diagnoseWithBaseline_def Let_def split: if_splits)
  then have gl: "?gt \<or> ?lt" by blast
  have s: "s = (if bd_SelfCheckFailed d \<or> ds_Count (bd_Baseline d) < minThresholdSamples \<or> fst (isHistogramSaturated alertDef ?full)
     then s0\<lparr>ts_RecommendationType := ''insufficient_data''\<rparr>
     else if violationRate (bd_baselineSorted d) ?th ?gt > baselineContaminationMax then chronic alertDef ?full d ?gt ?lt s0
     else if distinctCount ?full \<le> 2 then s0\<lparr>ts_Diagnosis := ''boolean'', ts_RecommendationType := ''review_alert''\<rparr>
     else compareBand alertDef alertQuality ?full d ?gt ?lt s0)"
    using assms(1) unfolding diagnoseWithBaseline_def Let_def option.case if_not_P [OF pre] option.inject s0_def d_def stepOf_def by (rule sym)
  have ok: "\<not> bd_SelfCheckFailed d" "\<not> ds_Count (bd_Baseline d) < minThresholdSamples" using assms(2) s by (auto split: if_splits)
  have s0: "ts_SuggestedThreshold s0 = ?th" "ts_EstimatedReduction s0 = 0" by (simp_all add: s0_def zeroSuggestion_def)
  have len: "length ?full < 2 ^ 53" using assms(3) by simp
  have "soundVerdict alertDef ?gt ?lt s"
    using assms(2) chronic_sound compareBand_sound [OF gl len s0] s0(1) unfolding s
    by (simp split: if_splits) (auto simp: soundVerdict_def retunes_def)
  then show ?thesis
    using decompose_sound [of mh intervals alertDef ?step ?th ?gt, folded d_def, OF ok(1)] ok(2) by (simp add: minThresholdSamples_def)
qed

section \<open>An example\<close>

definition busyHistory :: "rat list \<Rightarrow> MetricHistory" where
  "busyHistory spikes = \<lparr>mh_Timestamps = map (\<lambda>i. 60 * int i) [0..<25],
     mh_Values = concat (replicate 7 [84, 88, 92]) @ spikes, mh_Step = 60, mh_Labels = []\<rparr>"

definition busyWindow :: "firingInterval list" where
  "busyWindow = [\<lparr>fi_start = 1380, fi_end = 1500\<rparr>]"

definition queueAlert :: AlertDefinition where
  "queueAlert = cpuAlert\<lparr>ad_MetricName := ''pending_jobs''\<rparr>"

definition busyBaseline :: "rat list" where
  "busyBaseline = replicate 7 84 @ replicate 7 88 @ replicate 7 92"

lemma f64_numeral: "(numeral n :: int) < 2 ^ 53 \<Longrightarrow> f64 (numeral n) = numeral n"
  using f64_of_int [of "numeral n"] by simp

lemma f64_half: "f64 (1 / 2) = 1 / 2"
  by code_simp

lemma median_odd:
  assumes "length xs = 2 * k + 1" "k < 2 ^ 52"
  shows "percentile xs 50 = xs ! k"
proof (cases "k = 0")
  case True
  then show ?thesis using assms by (cases xs) (auto simp: percentile_def percentileAt_def elemAt_def)
next
  case False
  have n: "float_of (int (length xs) - 1) = of_nat (2 * k)"
    using float_of_exact [of "2 * int k"] assms by simp
  have "f64 (of_nat k) = of_nat k" using f64_of_int [of "int k"] assms(2) by simp
  then have "f64 (f64 (50 / 100) * float_of (int (length xs) - 1)) = of_nat k" unfolding n by (simp add: f64_half)
  moreover have "xs \<noteq> []" using assms(1) by auto
  ultimately show ?thesis using False assms by (simp add: percentile_def percentileAt_def elemAt_def Let_def)
qed

lemma busy_p95: "percentile busyBaseline 95 = 92"
proof -
  have r: "f64 (f64 (95 / 100) * 20) = 19" by code_simp
  have l: "length busyBaseline = 21" by (simp add: busyBaseline_def)
  have "busyBaseline \<noteq> []" using l by auto
  then show ?thesis
    using r by (simp add: percentile_def percentileAt_def l elemAt_def Let_def float_of_def f64_numeral) (simp add: busyBaseline_def nth_append)
qed

lemma busy_median: "computeMedian busyBaseline = 88"
  unfolding computeMedian_def by (subst median_odd [of _ 10]) (simp_all add: busyBaseline_def nth_append)

lemma busy_MAD: "computeMAD busyBaseline = 4"
proof -
  have "sort (map (\<lambda>v. \<bar>f64 (v - 88)\<bar>) busyBaseline) = replicate 7 0 @ replicate 14 4"
  proof -
    have "map (\<lambda>v. \<bar>f64 (v - 88)\<bar>) busyBaseline = replicate 7 4 @ replicate 7 0 @ replicate 7 4"
      by (simp add: busyBaseline_def map_replicate_const f64_neg f64_numeral) 
    moreover have "sort (replicate 7 4 @ replicate 7 0 @ replicate 7 4) = (replicate 7 0 @ replicate 14 4 :: rat list)" by code_simp
    ultimately show ?thesis by (simp only:)
  qed
  then show ?thesis unfolding computeMAD_def busy_median Let_def
    by (simp add: computeMedian_def) (subst median_odd [of _ 10], simp_all add: busyBaseline_def nth_append)
qed

lemma busy_decomposition:
  fixes spikes :: "rat list"
  defines "d \<equiv> decomposeHistory (busyHistory spikes) (padAndMergeIntervals busyWindow cpuAlert 60) 90 True"
  assumes "length spikes = 4" "\<exists>v\<in>set spikes. v > 90"
  shows "bd_baselineSorted d = busyBaseline \<and> ds_Count (bd_Baseline d) = 21 \<and> \<not> bd_SelfCheckFailed d"
proof -
  let ?iv = "[\<lparr>fi_start = 1260, fi_end = 1500\<rparr>]" and ?early = "map (\<lambda>i. 60 * int i) [0..<21]"
  have iv: "padAndMergeIntervals busyWindow cpuAlert 60 = ?iv" by code_simp
  have ts: "map (\<lambda>i. 60 * int i) [0..<25] = ?early @ [1260, 1320, 1380, 1440]" by code_simp
  have z: "zip (mh_Timestamps (busyHistory spikes)) (mh_Values (busyHistory spikes)) =
      zip ?early (concat (replicate 7 [84, 88, 92])) @ zip [1260, 1320, 1380, 1440] spikes"
    unfolding busyHistory_def MetricHistory.simps ts by (rule zip_append) code_simp
  obtain a b c e where sp: "spikes = [a, b, c, e]"
    using assms(2) by (auto simp: numeral_eq_Suc length_Suc_conv)
  define early where "early = zip ?early (concat (replicate 7 [84, 88, 92 :: rat]))"
  have base: "filter (\<lambda>(ts, v). intervalIndexer ?iv ts = None) early = early" unfolding early_def by code_simp
  have base': "filter (\<lambda>(ts, v). intervalIndexer ?iv ts = Some 0) early = []" unfolding early_def by code_simp
  have base'': "filter (\<lambda>(ts, v). intervalIndexer ?iv ts = Some 0 \<and> crosses True 90 v) early = []" unfolding early_def by code_simp
  have sorted_base: "sort (map snd early) = busyBaseline" unfolding early_def by code_simp
  have late: "intervalIndexer ?iv 1260 = Some 0" "intervalIndexer ?iv 1320 = Some 0" "intervalIndexer ?iv 1380 = Some 0" "intervalIndexer ?iv 1440 = Some 0"
    by code_simp+
  have len: "length busyBaseline = 21" by (simp add: busyBaseline_def)
  have viol: "90 < a \<or> 90 < b \<or> 90 < c \<or> 90 < e" using assms(3) sp by simp
  have one: "f64 1 = 1" using f64_of_int [of 1] by simp
  have half: "\<not> f64 (float_of 1 / float_of 1) < corroboratedIntervalMin" by (simp add: float_of_def one corroboratedIntervalMin_def)
  note dec = decomposeHistory_def Let_def z [folded early_def, unfolded sp] filter_append base base' base'' sp late
  have b: "bd_baselineSorted d = busyBaseline" unfolding d_def iv by (simp add: dec sorted_base)
  have c: "ds_Count (bd_Baseline d) = 21"
  proof -
    have "ds_Count (bd_Baseline d) = length (bd_baselineSorted d)" by (simp add: d_def decomposeHistory_def Let_def statsOfSorted_def)
    then show ?thesis using b len by simp
  qed
  have "\<not> bd_SelfCheckFailed d" unfolding d_def iv using viol half by (auto simp: dec crosses_def)
  then show ?thesis using b c by blast
qed

definition cpuSpikes :: "rat list" where "cpuSpikes = [95, 99, 99, 99]"
definition queueSpikes :: "rat list" where "queueSpikes = [95, 120, 120, 120]"

text \<open>The diagnosis of the busy history under either alert: the threshold is mistuned, and three absolute deviations above the
median of the baseline is 100.\<close>

definition busyDecomp :: "rat list \<Rightarrow> baselineDecomposition" where
  "busyDecomp spikes = decomposeHistory (busyHistory spikes) (padAndMergeIntervals busyWindow cpuAlert 60) 90 True"

definition busyStart :: "rat list \<Rightarrow> ThresholdSuggestion" where
  "busyStart spikes = withStats (busyBaseline @ spikes) (zeroSuggestion\<lparr>ts_Baseline := Some (bd_Baseline (busyDecomp spikes)),
     ts_Firing := Some (bd_Firing (busyDecomp spikes)), ts_BaselineCoverage := roundTo (bd_Coverage (busyDecomp spikes)) 4,
     ts_SuggestedThreshold := 90, ts_Confidence := ''low''\<rparr>)"

lemma busy_alerts:
  assumes "a \<in> {cpuAlert, queueAlert}"
  shows "isGreaterThanOperator (ad_Operator a)" "\<not> isLessThanOperator (ad_Operator a)" "ad_CurrentThreshold a = 90"
    "fst (isHistogramSaturated a xs) = False" "padAndMergeIntervals busyWindow a 60 = padAndMergeIntervals busyWindow cpuAlert 60"
proof -
  have "ad_Operator a = ''>''" using assms by (auto simp: cpuAlert_def queueAlert_def)
  moreover have "isGreaterThanOperator ''>''" "\<not> isLessThanOperator ''>''" by code_simp+
  ultimately show "isGreaterThanOperator (ad_Operator a)" "\<not> isLessThanOperator (ad_Operator a)" by simp_all
  show "ad_CurrentThreshold a = 90" using assms by (auto simp: cpuAlert_def queueAlert_def)
  have "\<not> Contains (ToLower (ad_MetricName cpuAlert)) ''histogram_quantile(''" "\<not> Contains (ToLower (ad_MetricName queueAlert)) ''histogram_quantile(''"
    by code_simp+
  then show "fst (isHistogramSaturated a xs) = False" using assms by (auto simp: isHistogramSaturated_def)
  show "padAndMergeIntervals busyWindow a 60 = padAndMergeIntervals busyWindow cpuAlert 60"
    using assms by (auto simp: queueAlert_def padAndMergeIntervals_def padSeconds_def)
qed

lemma busy_diagnosis:
  assumes "a \<in> {cpuAlert, queueAlert}" "spikes \<in> {cpuSpikes, queueSpikes}"
  shows "diagnoseWithBaseline a (Some (busyHistory spikes)) busyWindow q =
    Some (mistuned a q (busyBaseline @ spikes) (busyDecomp spikes) True False (busyStart spikes))"
proof -
  note al = busy_alerts [OF assms(1)]
  have "length spikes = 4" "\<exists>v\<in>set spikes. v > 90" using assms(2) by (auto simp: cpuSpikes_def queueSpikes_def)
  note d = busy_decomposition [OF this, folded busyDecomp_def]
  have "sort (concat (replicate 7 [84, 88, 92]) @ cpuSpikes) = busyBaseline @ cpuSpikes"
    "sort (concat (replicate 7 [84, 88, 92]) @ queueSpikes) = busyBaseline @ queueSpikes" by code_simp+
  then have full: "sort (mh_Values (busyHistory spikes)) = busyBaseline @ spikes" using assms(2) unfolding busyHistory_def by auto
  have "distinctCount (busyBaseline @ cpuSpikes) = 5" "distinctCount (busyBaseline @ queueSpikes) = 5" by code_simp+
  then have dist: "\<not> distinctCount (busyBaseline @ spikes) \<le> 2" using assms(2) by auto
  have ne: "mh_Values (busyHistory spikes) \<noteq> []" and st: "mh_Step (busyHistory spikes) = 60" by (simp_all add: busyHistory_def)
  have "length (filter (crosses True 90) busyBaseline) = 7" "length busyBaseline = 21" "busyBaseline \<noteq> []"
    by (simp_all add: busyBaseline_def crosses_def)
  then have "violationRate busyBaseline 90 True = f64 (1 / 3)"
    by (simp add: violationRate_def violationScore_def float_of_def f64_numeral)
  also have "\<dots> \<le> baselineContaminationMax" unfolding baselineContaminationMax_def by (rule f64_mono) simp
  finally have rate: "\<not> violationRate busyBaseline 90 True > baselineContaminationMax" by simp
  have "f64 (f64 (90 - 92) / 90) \<le> mistunedGap" unfolding mistunedGap_def by (rule f64_mono) (simp add: f64_neg f64_numeral)
  then have band: "compareBand a q (busyBaseline @ spikes) (busyDecomp spikes) True False s =
      mistuned a q (busyBaseline @ spikes) (busyDecomp spikes) True False s" for s
    using d al by (simp add: compareBand_def busy_p95)
  show ?thesis
    unfolding diagnoseWithBaseline_def Let_def option.case full st
    using al ne d dist rate band by (simp add: minThresholdSamples_def busyStart_def busyDecomp_def [symmetric])
qed

lemma busy_outside: "outsideOf True busyBaseline full 90 = (100, ''MAD'') \<and> roundTo 100 2 = 100"
proof -
  have r: "roundTo 100 2 = 100" by (simp add: roundTo_def f64_numeral math_Round_of_int [of 10000, simplified])
  have cap: "applySanityCap 100 90 p = 100" for p by (simp add: applySanityCap_def f64_numeral)
  show ?thesis using r cap by (simp add: outsideOf_def Let_def busy_median busy_MAD computeUpperThreshold_def f64_numeral)
qed

lemma busy_result:
  assumes "a \<in> {cpuAlert, queueAlert}" "spikes \<in> {cpuSpikes, queueSpikes}"
    "s = mistuned a q (busyBaseline @ spikes) (busyDecomp spikes) True False (busyStart spikes)"
  shows "ts_SuggestedThreshold s = 100 \<and> ts_Diagnosis s = ''mistuned'' \<and> ts_RiskLevel s = '''' \<and> ts_MetricP50 s = 88 \<and>
    ts_EstimatedReduction s = estimateReduction (busyBaseline @ spikes) 90 100 True \<and>
    ts_RecommendationType s = (if ts_SuggestedDuration s > 0 then ''tune_both'' else ''tune_threshold'') \<and>
    (q = None \<longrightarrow> ts_SuggestedDuration s = 0)"
proof -
  have "length spikes = 4" "\<exists>v\<in>set spikes. v > 90" using assms(2) by (auto simp: cpuSpikes_def queueSpikes_def)
  note d = busy_decomposition [OF this, folded busyDecomp_def]
  have "percentile (busyBaseline @ spikes) 50 = 88"
    by (subst median_odd [of _ 12]) (use assms(2) in \<open>auto simp: busyBaseline_def cpuSpikes_def queueSpikes_def nth_append\<close>)
  moreover have "roundTo 88 2 = 88" by (simp add: roundTo_def f64_numeral math_Round_of_int [of 8800, simplified])
  ultimately have p: "ts_MetricP50 (busyStart spikes) = 88" by (simp add: busyStart_def withStats_def)
  have z: "ts_RiskLevel (busyStart spikes) = ''''" "ts_SuggestedDuration (busyStart spikes) = 0"
    by (simp_all add: busyStart_def withStats_def zeroSuggestion_def)
  show ?thesis unfolding assms(3)
    using d busy_outside [of "busyBaseline @ spikes"] busy_alerts(3) [OF assms(1)] p z
    by (auto simp: mistuned_def Let_def computeDurationRecommendation_def split: option.splits)
qed

lemma busy_reduction:
  "estimateReduction (busyBaseline @ cpuSpikes) 90 100 True = 100" "estimateReduction (busyBaseline @ queueSpikes) 90 100 True = 73"
proof -
  have c: "length (filter ((<) 90) busyBaseline) = 7" "length (filter ((<) 100) busyBaseline) = 0" "busyBaseline \<noteq> []"
    by (simp_all add: busyBaseline_def)
  have m: "math_Round (f64 (f64 (8 / 11) * 100)) = 73" by code_simp
  show "estimateReduction (busyBaseline @ cpuSpikes) 90 100 True = 100"
    using c f64_of_int [of 1] by (simp add: estimateReduction_def cpuSpikes_def float_of_def f64_numeral math_Round_of_int [of 100, simplified])
  show "estimateReduction (busyBaseline @ queueSpikes) 90 100 True = 73"
    using c m by (simp add: estimateReduction_def queueSpikes_def float_of_def f64_numeral)
qed

lemma busy_guarded:
  assumes "c = mistuned queueAlert None (busyBaseline @ queueSpikes) (busyDecomp queueSpikes) True False (busyStart queueSpikes)"
  defines "s \<equiv> guarded queueAlert (Some (busyHistory queueSpikes)) None c"
  shows "ts_RecommendationType s = ''tune_threshold'' \<and> ts_SuggestedThreshold s = 100 \<and> ts_RiskLevel s = ''safe''"
proof -
  note c = busy_result [OF _ _ assms(1), simplified]
  note al = busy_alerts [of queueAlert, simplified]
  define h where "h = ratioHeuristic queueAlert c (detectMetricHints queueAlert)"
  have hh: "h = detectMetricHints queueAlert" using al by (simp add: h_def ratioHeuristic_def)
  have "\<not> isBounded h" "\<not> isMonotonic h" "\<not> isBoolean h" "\<not> isCapacityLimit h" unfolding hh by code_simp+
  moreover have "f64 (100 / 90) \<le> 10" "f64 (1 / 10) \<le> f64 (100 / 90)"
    using f64_le_int [of "100 / 90" 10] by (simp, intro f64_mono) simp
  ultimately have ok: "\<not> objectionable queueAlert h c"
    using c al busy_reduction by (simp add: objectionable_def overBound_def normalFires_def silences_def extreme_def Let_def)
  obtain s1 r where v: "ValidateSuggestion queueAlert None c = (s1, r)" by force
  have "ts_RecommendationType c \<notin> {''insufficient_data'', ''not_eligible''}" using c by simp
  from ValidateSuggestion_spec [OF this h_def v] ok have "s1 = c" "sr_Level r = ''safe''" by simp_all
  then show ?thesis using c by (simp add: s_def guarded_def skipGuardrails_def v Let_def)
qed

definition transientQuality :: AlertQualityScore where
  "transientQuality = \<lparr>aq_FiringFrequency = 1, aq_ResolutionRate = 1, aq_EngagementRate = 0, aq_TransientRate = 9 / 10,
     aq_DurationP90 = 300, aq_InstantRate = 0, aq_Classification = ''healthy'', aq_Recommendation = ''no_action''\<rparr>"

lemma busy_duration:
  "0 < ts_SuggestedDuration (mistuned cpuAlert (Some transientQuality) (busyBaseline @ cpuSpikes) (busyDecomp cpuSpikes) True False
     (busyStart cpuSpikes))"
proof -
  have "suggestedMinutes transientQuality = 10" by code_simp
  moreover have "f64 (7 / 10) < 9 / 10" by code_simp
  moreover have "ad_Period cpuAlert = 0" "wrap64 0 = 0" "quo 0 60 = 0" by code_simp+
  moreover have "aq_TransientRate transientQuality = 9 / 10" "aq_DurationP90 transientQuality = 300" "aq_Classification transientQuality \<noteq> ''broken''"
    by (simp_all add: transientQuality_def)
  moreover have "length cpuSpikes = 4" "\<exists>v\<in>set cpuSpikes. v > 90" by (simp_all add: cpuSpikes_def)
  note busy_decomposition [OF this, folded busyDecomp_def]
  ultimately show ?thesis
    using busy_outside busy_reduction(1) busy_alerts(3) [of cpuAlert]
    by (simp add: mistuned_def Let_def computeDurationRecommendation_def)
qed

section \<open>Properties\<close>

text \<open>C26: The windows the history is split at are the firing windows extended backwards by the alert's evaluation time and one
sample, merged: they are in order and more than two samples apart, every extended firing window lies inside
one of them, each begins with an extended firing window and ends with one, and the binary search finds a
sample's window exactly if the sample lies in it.\<close>

theorem windows_exact:
  assumes "merged = padAndMergeIntervals intervals alertDef step" "width = padSeconds alertDef (stepOf step)"
  shows "separated (2 * stepOf step) merged \<and>
    (\<forall>iv\<in>set intervals. \<exists>m\<in>set merged. fi_start m \<le> fi_start iv - width \<and> fi_end iv \<le> fi_end m) \<and>
    (\<forall>m\<in>set merged. \<exists>a\<in>set intervals. \<exists>b\<in>set intervals. fi_start m = fi_start a - width \<and> fi_end m = fi_end b) \<and>
    (\<forall>ts i. intervalIndexer merged ts = Some i \<longleftrightarrow> i < length merged \<and> fi_start (merged ! i) \<le> ts \<and> ts \<le> fi_end (merged ! i))"
proof -
  note spec = padAndMerge_spec [of step intervals alertDef, folded assms]
  have "0 \<le> 2 * stepOf step" by (simp add: stepOf_def)
  from spec intervalIndexer_iff [OF conjunct1 [OF spec] this] show ?thesis by blast
qed

definition cpuWindows :: "firingInterval list" where
  "cpuWindows = [\<lparr>fi_start = 4000, fi_end = 4300\<rparr>, \<lparr>fi_start = 1000, fi_end = 1300\<rparr>, \<lparr>fi_start = 1500, fi_end = 1600\<rparr>]"

theorem windows_exact_witness:
  "padAndMergeIntervals cpuWindows cpuAlert 60 = [\<lparr>fi_start = 880, fi_end = 1600\<rparr>, \<lparr>fi_start = 3880, fi_end = 4300\<rparr>] \<and>
   intervalIndexer (padAndMergeIntervals cpuWindows cpuAlert 60) 1400 = Some 0 \<and>
   intervalIndexer (padAndMergeIntervals cpuWindows cpuAlert 60) 1700 \<noteq> Some 0"
proof -
  have m: "padAndMergeIntervals cpuWindows cpuAlert 60 = [\<lparr>fi_start = 880, fi_end = 1600\<rparr>, \<lparr>fi_start = 3880, fi_end = 4300\<rparr>]" by code_simp
  note w = windows_exact [of _ cpuWindows cpuAlert 60, OF refl refl]
  then show ?thesis unfolding m by simp
qed

text \<open>C24: A diagnosis is given only if at least twenty samples lie outside every firing window and some
sample inside a merged one crosses the threshold, that is, the history bears the firings out. If it advises to retune, the
new threshold lies beyond the current one on the side that fires less, with an estimated reduction
between 0 and 100 percent; unless the alert is chronic, every other verdict leaves the threshold as it is.\<close>

theorem diagnosis_sound:
  assumes "diagnoseWithBaseline alertDef (Some mh) intervals alertQuality = Some s" "ts_RecommendationType s \<noteq> ''insufficient_data''"
    "length (mh_Values mh) < 2 ^ 53"
  shows "soundVerdict alertDef (isGreaterThanOperator (ad_Operator alertDef)) (isLessThanOperator (ad_Operator alertDef)) s \<and>
    20 \<le> length (filter (\<lambda>(ts, v). outsideWindows alertDef (stepOf (mh_Step mh)) intervals ts) (zip (mh_Timestamps mh) (mh_Values mh))) \<and>
    (\<exists>(ts, v)\<in>set (zip (mh_Timestamps mh) (mh_Values mh)).
       intervalIndexer (padAndMergeIntervals intervals alertDef (stepOf (mh_Step mh))) ts \<noteq> None \<and>
       crosses (isGreaterThanOperator (ad_Operator alertDef)) (ad_CurrentThreshold alertDef) v)"
  by (rule diagnose_sound [OF assms])

theorem diagnosis_sound_witness:
  "case diagnoseWithBaseline cpuAlert (Some (busyHistory cpuSpikes)) busyWindow None of
     None \<Rightarrow> False
   | Some s \<Rightarrow> ts_RecommendationType s = ''tune_threshold'' \<and> ts_SuggestedThreshold s > 90 \<and> ts_EstimatedReduction s \<le> 100"
proof -
  define s where "s = mistuned cpuAlert None (busyBaseline @ cpuSpikes) (busyDecomp cpuSpikes) True False (busyStart cpuSpikes)"
  have d: "diagnoseWithBaseline cpuAlert (Some (busyHistory cpuSpikes)) busyWindow None = Some s"
    unfolding s_def by (rule busy_diagnosis) simp_all
  have r: "ts_RecommendationType s = ''tune_threshold''" using busy_result [OF _ _ s_def] by simp
  then have "ts_RecommendationType s \<noteq> ''insufficient_data''" by simp
  moreover have "length (mh_Values (busyHistory cpuSpikes)) = 25" by code_simp
  then have "length (mh_Values (busyHistory cpuSpikes)) < 2 ^ 53" by simp
  ultimately have "soundVerdict cpuAlert (isGreaterThanOperator (ad_Operator cpuAlert)) (isLessThanOperator (ad_Operator cpuAlert)) s"
    using diagnosis_sound [OF d] by blast
  then show ?thesis using r busy_alerts [of cpuAlert] by (simp add: d soundVerdict_def retunes_def)
qed

text \<open>C23: Advice to move the threshold alone has passed the guardrails, whichever way it was computed: the
alert is eligible, the new threshold lies inside the range its metric has, the advice carries a risk level that is not
dangerous, with no warning if it is safe, and without high confidence if it is to be reviewed.\<close>

theorem advice_guarded:
  assumes "suggestThreshold alertDef history intervals firingAnalysis alertQuality = Some s" "ts_RecommendationType s = ''tune_threshold''"
  shows "checkThresholdEligibility (Some alertDef) = None \<and> \<not> overBound alertDef (detectMetricHints alertDef) s \<and>
    ts_RiskLevel s \<in> {''safe'', ''review''} \<and> (ts_RiskLevel s = ''safe'' \<longrightarrow> ts_RiskWarnings s = []) \<and>
    (ts_RiskLevel s = ''review'' \<longrightarrow> ts_Confidence s \<noteq> ''high'')"
proof -
  have el: "checkThresholdEligibility (Some alertDef) = None"
  proof (rule ccontr)
    assume "checkThresholdEligibility (Some alertDef) \<noteq> None"
    then have "s = zeroSuggestion\<lparr>ts_RecommendationType := ''not_eligible'', ts_Confidence := ''low''\<rparr>"
      using assms(1) by (simp add: suggestThreshold_def)
    then show False using assms(2) by simp
  qed
  then obtain c where c: "s = guarded alertDef history alertQuality c"
    using assms(1) by (auto simp: suggestThreshold_def)
  have run: "\<not> skipGuardrails c"
  proof
    assume "skipGuardrails c"
    then show False using assms(2) c by (auto simp: guarded_def skipGuardrails_def)
  qed
  obtain s1 r where v: "ValidateSuggestion alertDef alertQuality c = (s1, r)" by force
  have same: "ts_RecommendationType s1 = ts_RecommendationType s" "ts_SuggestedThreshold s1 = ts_SuggestedThreshold s"
    "ts_RiskLevel s = sr_Level r" "ts_RiskWarnings s = sr_Warnings r" "ts_Confidence s = AdjustConfidenceForRisk (ts_Confidence s1) (Some r)"
    using run by (simp_all add: c guarded_def v Let_def)
  have t: "ts_RecommendationType s1 = ''tune_threshold''" using same(1) assms(2) by simp
  have "ts_RecommendationType c \<notin> {''insufficient_data'', ''not_eligible''}"
  proof
    assume "ts_RecommendationType c \<in> {''insufficient_data'', ''not_eligible''}"
    then have "ts_RecommendationType s1 \<in> {''insufficient_data'', ''not_eligible''}" using v by (auto simp: ValidateSuggestion_def)
    then show False using t by simp
  qed
  note spec = ValidateSuggestion_spec [OF this refl v]
  define h where "h = ratioHeuristic alertDef c (detectMetricHints alertDef)"
  have nb: "\<not> overBound alertDef h c" and thr: "ts_SuggestedThreshold s1 = ts_SuggestedThreshold c"
    using spec t unfolding h_def [symmetric] by (auto split: if_splits)
  have "h = detectMetricHints alertDef" if "isBounded (detectMetricHints alertDef)" using that by (simp add: h_def ratioHeuristic_def)
  then have b: "\<not> overBound alertDef (detectMetricHints alertDef) s"
    using nb thr same(2) by (auto simp: overBound_def)
  have lv: "sr_Level r \<in> {''safe'', ''review''}" "sr_Level r = ''safe'' \<longrightarrow> sr_Warnings r = []" using spec t by auto
  then show ?thesis using el b same by (simp add: AdjustConfidenceForRisk_def)
qed

theorem advice_guarded_witness:
  "case suggestThreshold queueAlert (Some (busyHistory queueSpikes)) busyWindow None None of
     None \<Rightarrow> False
   | Some s \<Rightarrow> ts_SuggestedThreshold s = 100 \<and> ts_RiskLevel s = ''safe'' \<and> ts_RiskWarnings s = []"
proof -
  define c where "c = mistuned queueAlert None (busyBaseline @ queueSpikes) (busyDecomp queueSpikes) True False (busyStart queueSpikes)"
  have d: "diagnoseWithBaseline queueAlert (Some (busyHistory queueSpikes)) busyWindow None = Some c"
    unfolding c_def by (rule busy_diagnosis) simp_all
  note s = busy_guarded [OF c_def]
  have el: "checkThresholdEligibility (Some queueAlert) = None" by code_simp
  then have a: "suggestThreshold queueAlert (Some (busyHistory queueSpikes)) busyWindow None None =
      Some (guarded queueAlert (Some (busyHistory queueSpikes)) None c)" by (simp add: suggestThreshold_def d)
  then show ?thesis using s advice_guarded [OF a] by simp
qed

text \<open>A threshold advised together with a duration is not checked: for the alert on CPU utilization above 90 percent the
diagnosis proposes the impossible 100 percent when the alert is also transient, without a risk level.\<close>

lemma tune_both_unguarded:
  "case suggestThreshold cpuAlert (Some (busyHistory cpuSpikes)) busyWindow None (Some transientQuality) of
     None \<Rightarrow> False
   | Some s \<Rightarrow> ts_RecommendationType s = ''tune_both'' \<and> ts_RiskLevel s = '''' \<and> overBound cpuAlert (detectMetricHints cpuAlert) s"
proof -
  define c where
    "c = mistuned cpuAlert (Some transientQuality) (busyBaseline @ cpuSpikes) (busyDecomp cpuSpikes) True False (busyStart cpuSpikes)"
  have d: "diagnoseWithBaseline cpuAlert (Some (busyHistory cpuSpikes)) busyWindow (Some transientQuality) = Some c"
    unfolding c_def by (rule busy_diagnosis) simp_all
  note c = busy_result [OF _ _ c_def, simplified]
  have el: "checkThresholdEligibility (Some cpuAlert) = None" by code_simp
  have h: "isBounded (detectMetricHints cpuAlert)" "upperBound (detectMetricHints cpuAlert) = 100" by code_simp+
  have "0 < ts_SuggestedDuration c" unfolding c_def by (rule busy_duration)
  then have c': "ts_RecommendationType c = ''tune_both''" using c by simp
  have "skipGuardrails c" using c c' by (simp add: skipGuardrails_def)
  then have "suggestThreshold cpuAlert (Some (busyHistory cpuSpikes)) busyWindow None (Some transientQuality) = Some c"
    using el by (simp add: suggestThreshold_def d guarded_def)
  then show ?thesis using c c' h busy_alerts(1) [of cpuAlert] by (simp add: overBound_def)
qed

end
