(* ===== verification/ShellChain.thy ===== *)
theory ShellChain
  imports RemoteCommands
begin

text \<open>
  The consent gate over shell commands (\<open>llm/llm-server/tools/tool_shell_gate.go\<close>): how a chain of commands is cut into
  stages, which command leads a stage, and how the stages are classified and combined; for a command-line tool that is
  handed a chain of its own commands and text filters, and for the shell tool, which delegates to the tool that owns the
  leading command.

  The loops of the source read a text by its positions and keep three flags for the quoting; here a loop reads the rest of the text, with the
  flags as one state (\<open>quoteStep\<close> of \<open>RemoteCommands\<close>) and the previous character where the source looks back.
  Arguments: the splitting into words by a package outside the repository, with \<open>None\<close> for its error; the registry of command-line tools by
  their prefixes; the classification of a single command by its tool; and decoding JSON. Commands are ASCII.
\<close>

section \<open>Quoting\<close>

type_synonym quoting = "bool \<times> bool \<times> bool"

abbreviation unquoted :: quoting where "unquoted \<equiv> (False, False, False)"

text \<open>The tests each loop begins with let the character pass, and it is in no quotes.\<close>

definition bare :: "quoting \<Rightarrow> char \<Rightarrow> bool" where
  "bare st c \<longleftrightarrow> st = unquoted \<and> c \<notin> {CHR 0x5C, CHR 0x27, CHR 0x22}"

section \<open>Comments\<close>

definition wordBoundary :: string where
  "wordBoundary = '' ;&|()'' @ [CHR 0x09, CHR 0x0A, CHR 0x0D]"

definition shellCommentStartsWord :: "char option \<Rightarrow> bool" where
  "shellCommentStartsWord prev = (case prev of None \<Rightarrow> True | Some p \<Rightarrow> p \<in> set wordBoundary)"

function uncomment :: "quoting \<Rightarrow> char option \<Rightarrow> string \<Rightarrow> string" where
  "uncomment st prev [] = []"
| "uncomment st prev (c # cs) =
     (if bare st c \<and> c = CHR 0x23 \<and> shellCommentStartsWord prev then
        (case dropWhile (\<lambda>x. x \<notin> {CHR 0x0A, CHR 0x0D}) cs of [] \<Rightarrow> [] | n # rest \<Rightarrow> n # uncomment st (Some n) rest)
      else c # uncomment (quoteStep st c) (Some c) cs)"
  by pat_completeness auto
termination
proof (relation "measure (\<lambda>(st, prev, cs). length cs)")
  fix st :: quoting and prev :: "char option" and c n cs rest
  assume "dropWhile (\<lambda>x. x \<notin> {CHR 0x0A, CHR 0x0D}) cs = n # rest"
  then have "length (n # rest) \<le> length cs" by (metis length_dropWhile_le)
  then show "((st, Some n, rest), (st, prev, c # cs)) \<in> measure (\<lambda>(st, prev, cs). length cs)" by simp
qed auto

definition stripShellComments :: "string \<Rightarrow> string" where
  "stripShellComments input = uncomment unquoted None input"

section \<open>Segments and stages\<close>

definition isShellRedirectionAmpersand :: "char option \<Rightarrow> string \<Rightarrow> bool" where
  "isShellRedirectionAmpersand prev rest \<longleftrightarrow> prev \<in> {Some (CHR ''>''), Some (CHR ''<'')} \<or> HasPrefix rest ''>''"

definition separatorLen :: "char option \<Rightarrow> char \<Rightarrow> string \<Rightarrow> nat" where
  "separatorLen prev c rest =
     (if c \<in> {CHR '';'', CHR 0x0A, CHR 0x0D} then 1
      else if c = CHR ''&'' then
        (if HasPrefix rest ''&'' then 2 else if \<not> isShellRedirectionAmpersand prev rest then 1 else 0)
      else if c = CHR ''|'' \<and> HasPrefix rest ''|'' then 2
      else 0)"

text \<open>\<open>cur\<close> is the text since the last separator; \<open>None\<close> when the quotes are not closed at the end.\<close>

function segmentsFrom :: "quoting \<Rightarrow> char option \<Rightarrow> string \<Rightarrow> string \<Rightarrow> string list option" where
  "segmentsFrom st prev cur [] = (if st \<noteq> unquoted then None else Some [TrimSpace cur])"
| "segmentsFrom st prev cur (c # cs) =
     (let n = (if bare st c then separatorLen prev c cs else 0)
      in if n > 0 then map_option ((#) (TrimSpace cur)) (segmentsFrom st (Some c) [] (drop (n - 1) cs))
         else segmentsFrom (quoteStep st c) (Some c) (cur @ [c]) cs)"
  by pat_completeness auto
termination
  by (relation "measure (\<lambda>(st, prev, cur, cs). length cs)") auto

definition splitShellCommandSegments :: "string \<Rightarrow> string list" where
  "splitShellCommandSegments input = (case segmentsFrom unquoted None [] input of None \<Rightarrow> [input] | Some parts \<Rightarrow> parts)"

definition isPipe :: "char option \<Rightarrow> char \<Rightarrow> string \<Rightarrow> bool" where
  "isPipe prev c rest \<longleftrightarrow> c = CHR ''|'' \<and> prev \<noteq> Some (CHR ''|'') \<and> \<not> HasPrefix rest ''|''"

fun stagesFrom :: "quoting \<Rightarrow> char option \<Rightarrow> string \<Rightarrow> string \<Rightarrow> string list option" where
  "stagesFrom st prev cur [] = (if st \<noteq> unquoted then None else Some [TrimSpace cur])"
| "stagesFrom st prev cur (c # cs) =
     (if bare st c \<and> isPipe prev c cs then map_option ((#) (TrimSpace cur)) (stagesFrom st (Some c) [] cs)
      else stagesFrom (quoteStep st c) (Some c) (cur @ [c]) cs)"

definition splitShellPipeline :: "string \<Rightarrow> string list" where
  "splitShellPipeline input = (case stagesFrom unquoted None [] input of None \<Rightarrow> [input] | Some stages \<Rightarrow> stages)"

text \<open>The two nested loops every caller begins with.\<close>

definition stagesOf :: "string \<Rightarrow> string list" where
  "stagesOf input = concat (map splitShellPipeline (splitShellCommandSegments input))"

section \<open>Redirections\<close>

definition blank :: "char \<Rightarrow> bool" where "blank c \<longleftrightarrow> c \<in> {CHR '' '', CHR 0x09}"

definition targetEnd :: string where "targetEnd = '' ;|&<>'' @ [CHR 0x09]"

function redirects :: "quoting \<Rightarrow> string \<Rightarrow> bool" where
  "redirects st [] = False"
| "redirects st (c # cs) =
     (if \<not> bare st c then redirects (quoteStep st c) cs
      else if c = CHR ''<'' then True
      else if c \<noteq> CHR ''>'' then redirects st cs
      else
        let rest = TrimPrefix cs ''>''
        in if HasPrefix rest ''&'' \<and> length rest > 1 \<and> isDigit (rest ! 1) then redirects st (drop 2 rest)
           else
             let rest1 = dropWhile blank rest
             in if takeWhile (\<lambda>x. x \<notin> set targetEnd) rest1 \<noteq> ''/dev/null'' then True
                else redirects st (dropWhile (\<lambda>x. x \<notin> set targetEnd) rest1))"
  by pat_completeness auto
termination
proof (relation "measure (\<lambda>(st, cs). length cs)")
  fix st :: quoting and c cs rest rest1
  assume r: "rest = TrimPrefix cs ''>''"
  have short: "length rest \<le> length cs" by (simp add: r TrimPrefix_def)
  then show "((st, drop 2 rest), (st, c # cs)) \<in> measure (\<lambda>(st, cs). length cs)" by simp
  assume "rest1 = dropWhile blank rest"
  then have "length (dropWhile (\<lambda>x. x \<notin> set targetEnd) rest1) \<le> length rest"
    by (metis length_dropWhile_le order_trans)
  with short show "((st, dropWhile (\<lambda>x. x \<notin> set targetEnd) rest1), (st, c # cs)) \<in> measure (\<lambda>(st, cs). length cs)" by simp
qed auto

declare redirects.simps(2) [simp del]

definition hasFileRedirection :: "string \<Rightarrow> bool" where
  "hasFileRedirection command = redirects unquoted command"

text \<open>The word after a redirection, up to the first blank outside quotes.\<close>

fun afterWord :: "char option \<Rightarrow> bool \<Rightarrow> string \<Rightarrow> string" where
  "afterWord quote escaped [] = []"
| "afterWord quote escaped (c # cs) =
     (if escaped then afterWord quote False cs
      else if c = CHR 0x5C \<and> quote \<noteq> Some (CHR 0x27) then afterWord quote True cs
      else if quote \<noteq> None then afterWord (if quote = Some c then None else quote) False cs
      else if c \<in> {CHR 0x27, CHR 0x22} then afterWord (Some c) False cs
      else if blank c then c # cs
      else afterWord quote False cs)"

definition shellRedirectionEndsStage :: "string \<Rightarrow> nat \<Rightarrow> bool" where
  "shellRedirectionEndsStage input operatorIdx =
     (let rest = dropWhile blank (TrimPrefix (drop (operatorIdx + 1) input) ''>'');
          rest1 = (if HasPrefix rest ''&'' then dropWhile (\<lambda>c. isDigit c \<or> c = CHR ''-'') (tl rest) else afterWord None False rest)
      in dropWhile blank rest1 = [])"

fun lastOperator :: "quoting \<Rightarrow> nat \<Rightarrow> nat option \<Rightarrow> string \<Rightarrow> nat option" where
  "lastOperator st i found [] = found"
| "lastOperator st i found (c # cs) =
     lastOperator (quoteStep st c) (i + 1) (if bare st c \<and> c \<in> {CHR ''>'', CHR ''<''} then Some i else found) cs"

lemma lastOperator_bound:
  "lastOperator st i found cs = Some k \<Longrightarrow> found = Some k \<or> k < i + length cs"
  by (induction st i found cs rule: lastOperator.induct) (fastforce split: if_splits)+

lemma length_TrimSpace: "length (TrimSpace s) \<le> length s"
  unfolding TrimSpace_def trimBy_def by (metis length_dropWhile_le length_rev order_trans)

definition beforeOperator :: "string \<Rightarrow> nat \<Rightarrow> nat" where
  "beforeOperator input i =
     (let end1 = (if i > 0 \<and> input ! (i - 1) = CHR ''&'' then i - 1 else i)
      in if end1 > 0 \<and> isDigit (input ! (end1 - 1)) then end1 - 1 else end1)"

function stripShellRedirections :: "string \<Rightarrow> string" where
  "stripShellRedirections input =
     (case lastOperator unquoted 0 None input of
        None \<Rightarrow> input
      | Some i \<Rightarrow>
          if \<not> shellRedirectionEndsStage input i then input
          else stripShellRedirections (TrimSpace (take (beforeOperator input i) input)))"
  by pat_completeness auto
termination
proof (relation "measure length")
  fix input i assume "lastOperator unquoted 0 None input = Some i"
  then have "i < length input" using lastOperator_bound by fastforce
  moreover have "beforeOperator input i \<le> i" by (simp add: beforeOperator_def Let_def)
  ultimately have "length (take (beforeOperator input i) input) < length input" by simp
  then show "(TrimSpace (take (beforeOperator input i) input), input) \<in> measure length"
    using length_TrimSpace le_less_trans by (simp only: in_measure) blast
qed simp

declare stripShellRedirections.simps [simp del]

section \<open>Words\<close>

definition identChar :: "char \<Rightarrow> bool" where
  "identChar c \<longleftrightarrow> c \<in> set ''abcdefghijklmnopqrstuvwxyzABCDEFGHIJKLMNOPQRSTUVWXYZ_''"

definition isEnvAssignment :: "string \<Rightarrow> bool" where
  "isEnvAssignment tok =
     (case Index tok ''='' of
        None \<Rightarrow> False
      | Some eq \<Rightarrow> eq > 0 \<and> identChar (hd tok) \<and> list_all (\<lambda>c. identChar c \<or> isDigit c) (take eq tok))"

text \<open>\<open>filepath.Base\<close> and \<open>strings.FieldsFunc\<close>.\<close>

definition Base :: "string \<Rightarrow> string" where
  "Base path =
     (if path = '''' then ''.''
      else let name = rev (takeWhile (\<lambda>c. c \<noteq> CHR ''/'') (dropWhile (\<lambda>c. c = CHR ''/'') (rev path)))
           in if name = '''' then ''/'' else name)"

fun fieldsBy :: "string \<Rightarrow> string \<Rightarrow> string \<Rightarrow> string list" where
  "fieldsBy seps acc [] = (if acc = [] then [] else [rev acc])"
| "fieldsBy seps acc (c # s) =
     (if c \<in> set seps then (if acc = [] then fieldsBy seps [] s else rev acc # fieldsBy seps [] s)
      else fieldsBy seps (c # acc) s)"

definition flagTakesValue :: "string \<Rightarrow> string \<Rightarrow> bool" where
  "flagTakesValue wrapper flag =
     (if wrapper = ''sudo'' then
        flag \<in> {''-u'', ''-U'', ''-g'', ''-p'', ''-C'', ''-h'', ''-r'', ''-t'', ''-T'', ''-D'', ''-R'', ''--user'', ''--group'', ''--prompt'',
          ''--close-from'', ''--host'', ''--role'', ''--type'', ''--other-user'', ''--command-timeout'', ''--timeout'', ''--chdir'', ''--chroot''}
      else if wrapper = ''env'' then flag \<in> {''-u'', ''-C'', ''-S'', ''--unset'', ''--chdir'', ''--split-string''}
      else False)"

definition takesValue :: "string \<Rightarrow> string \<Rightarrow> bool" where
  "takesValue wrapper tok \<longleftrightarrow>
     \<not> Contains tok ''='' \<and>
     (flagTakesValue wrapper tok \<or> (\<not> HasPrefix tok ''--'' \<and> length tok > 2 \<and> flagTakesValue wrapper [CHR ''-'', last tok]))"

text \<open>The words left after the flags of a wrapper.\<close>

function consumeSudoEnvFlags :: "string \<Rightarrow> string list \<Rightarrow> string list" where
  "consumeSudoEnvFlags wrapper [] = []"
| "consumeSudoEnvFlags wrapper (tok # toks) =
     (if isEnvAssignment tok then consumeSudoEnvFlags wrapper toks
      else if \<not> HasPrefix tok ''-'' then tok # toks
      else if tok = ''--'' then toks
      else consumeSudoEnvFlags wrapper (if takesValue wrapper tok then drop 1 toks else toks))"
  by pat_completeness auto
termination
  by (relation "measure (\<lambda>(w, ts). length ts)") auto

lemma consume_length: "length (consumeSudoEnvFlags wrapper toks) \<le> length toks"
proof (induction wrapper toks rule: consumeSudoEnvFlags.induct)
  case (2 wrapper tok toks)
  then show ?case by (cases "isEnvAssignment tok"; cases "takesValue wrapper tok") auto
qed simp

text \<open>The words from the leading command on; none when the text cannot be reduced to one.\<close>

function leadingWords :: "string list \<Rightarrow> string list" where
  "leadingWords [] = []"
| "leadingWords (tok # toks) =
     (if isEnvAssignment tok then leadingWords toks
      else if tok \<in> {''sudo'', ''env''} then leadingWords (consumeSudoEnvFlags tok toks)
      else if tok \<in> {''sh'', ''bash'', ''zsh''} then []
      else tok # toks)"
  by pat_completeness auto
termination
  by (relation "measure length") (auto simp: less_Suc_eq_le consume_length)

definition reQuoteShellToken :: "string \<Rightarrow> string" where
  "reQuoteShellToken tok =
     (if tok = '''' then [CHR 0x22, CHR 0x22]
      else if ContainsAny tok (''${}'' @ [CHR 0x60]) then
        [CHR 0x27] @ ReplaceAll tok [CHR 0x27] [CHR 0x27, CHR 0x22, CHR 0x27, CHR 0x22, CHR 0x27] @ [CHR 0x27]
      else if \<not> ContainsAny tok [CHR '' '', CHR 0x09, CHR 0x0A, CHR 0x27, CHR 0x22, CHR 0x5C] then tok
      else [CHR 0x22] @ ReplaceAll (ReplaceAll tok [CHR 0x5C] [CHR 0x5C, CHR 0x5C]) [CHR 0x22] [CHR 0x5C, CHR 0x22] @ [CHR 0x22])"

definition irreducible :: "string \<Rightarrow> bool" where
  "irreducible input \<longleftrightarrow>
     list_ex (HasPrefix input) [''$('', [CHR 0x60], ''('', ''{'', ''cd '', ''cd'' @ [CHR 0x09], ''eval '', ''eval'' @ [CHR 0x09]]"

definition extractLeadingShellCommand :: "(string \<Rightarrow> string list option) \<Rightarrow> string \<Rightarrow> string \<times> string" where
  "extractLeadingShellCommand shlex_Split input0 =
     (let input = TrimSpace input0
      in if input = '''' \<or> irreducible input then ('''', '''')
         else
           case shlex_Split input of
             None \<Rightarrow> ('''', '''')
           | Some tokens \<Rightarrow>
               (case leadingWords tokens of
                  [] \<Rightarrow> ('''', '''')
                | lead # rest \<Rightarrow> (lead, Join (map reQuoteShellToken (lead # rest)) '' '')))"

section \<open>What a stage may contain\<close>

definition shellArgumentOnlyUtilities :: "string list" where
  "shellArgumentOnlyUtilities =
     [''cat'', ''cut'', ''echo'', ''egrep'', ''fgrep'', ''grep'', ''false'', ''head'', ''jq'', ''ls'', ''od'', ''printf'',
      ''rgrep'', ''sort'', ''tail'', ''tr'', ''true'', ''uniq'', ''wc'', ''xxd'']"

definition isShellArgumentOnlyUtility :: "string \<Rightarrow> bool" where
  "isShellArgumentOnlyUtility command \<longleftrightarrow> command \<in> set shellArgumentOnlyUtilities"

definition isShellExecutionWrapper :: "string \<Rightarrow> bool" where
  "isShellExecutionWrapper command \<longleftrightarrow>
     command \<in> {''command'', ''exec'', ''nohup'', ''nice'', ''time'', ''timeout'', ''watch'', ''xargs''}"

definition hasShellSubstitution :: "string \<Rightarrow> bool" where
  "hasShellSubstitution input \<longleftrightarrow>
     Contains input ''$('' \<or> Contains input [CHR 0x60] \<or> Contains input ''<('' \<or> Contains input ''>(''"

text \<open>The registry maps a prefix in lower case to the name of the tool that owns it.\<close>

type_synonym registry = "string \<rightharpoonup> string"

definition LookupShellWrappable :: "registry \<Rightarrow> string \<Rightarrow> string" where
  "LookupShellWrappable owners prefix =
     (if prefix = '''' then '''' else case owners (ToLower prefix) of None \<Rightarrow> '''' | Some owner \<Rightarrow> owner)"

definition shellScanBasename :: "string \<Rightarrow> string" where
  "shellScanBasename token = Base (filter (\<lambda>c. c \<noteq> CHR 0x5C) token)"

definition commandSeparators :: string where
  "commandSeparators = '' ;&|(){}$'' @ [CHR 0x09, CHR 0x0A, CHR 0x60, CHR 0x27, CHR 0x22]"

definition namesWrappable :: "registry \<Rightarrow> string \<Rightarrow> bool" where
  "namesWrappable owners part0 =
     (let part = TrimSpace part0
      in if part = '''' then False
         else if isEnvAssignment part then
           (case Cut part ''='' of (_, v, ok) \<Rightarrow> ok \<and> LookupShellWrappable owners (shellScanBasename v) \<noteq> '''')
         else LookupShellWrappable owners (shellScanBasename part) \<noteq> '''')"

definition containsShellWrappableCommand :: "registry \<Rightarrow> string \<Rightarrow> bool" where
  "containsShellWrappableCommand owners input = list_ex (namesWrappable owners) (fieldsBy commandSeparators [] input)"

definition isKnownReadOnlyCurlCommand :: "(string \<Rightarrow> string list option) \<Rightarrow> string \<Rightarrow> bool" where
  "isKnownReadOnlyCurlCommand shlex_Split input =
     (case shlex_Split input of
        None \<Rightarrow> False
      | Some [] \<Rightarrow> False
      | Some (prog # args) \<Rightarrow> Base prog = ''curl'' \<and> \<not> list_ex IsCurlMutationToken args)"

section \<open>Classification of a chain\<close>

definition requestRank :: "string \<Rightarrow> nat" where
  "requestRank t =
     (if t = ''delete'' then 4 else if t = ''update'' then 3 else if t = ''create'' then 2 else if t = ''read'' then 1 else 0)"

definition strongerShellRequestType :: "string \<Rightarrow> string \<Rightarrow> string" where
  "strongerShellRequestType current candidate = (if requestRank candidate > requestRank current then candidate else current)"

text \<open>The loop over the stages: \<open>None\<close> for an error of a classifier, otherwise the type and whether it is complete.\<close>

fun compoundFrom ::
  "(string \<Rightarrow> string list option) \<Rightarrow> registry \<Rightarrow> (string \<Rightarrow> string \<Rightarrow> (string \<times> bool) option) \<Rightarrow> string \<Rightarrow> string list \<Rightarrow>
     (string \<times> bool) option" where
  "compoundFrom shlex_Split owners classifyLead result [] = Some (result, True)"
| "compoundFrom shlex_Split owners classifyLead result (stage0 # stages) =
     (let stage = TrimSpace stage0
      in if stage = '''' then compoundFrom shlex_Split owners classifyLead result stages
         else if hasShellSubstitution stage \<and> containsShellWrappableCommand owners stage then Some ('''', False)
         else
           case extractLeadingShellCommand shlex_Split (stripShellRedirections stage) of (lead, cleaned) \<Rightarrow>
             if lead = '''' then
               (case shlex_Split stage of
                  None \<Rightarrow> Some ('''', False)
                | Some tokens \<Rightarrow>
                    if (tokens \<noteq> [] \<and> list_all isEnvAssignment tokens) \<or> tokens = [''env'']
                    then compoundFrom shlex_Split owners classifyLead result stages
                    else Some ('''', False))
             else
               (case classifyLead lead cleaned of
                  None \<Rightarrow> None
                | Some (requestType, owned) \<Rightarrow>
                    if \<not> owned then
                      (if Base lead = ''curl'' then
                         (if isKnownReadOnlyCurlCommand shlex_Split cleaned then compoundFrom shlex_Split owners classifyLead result stages
                          else Some ('''', False))
                       else if isShellExecutionWrapper (Base lead) \<or> hasShellSubstitution stage \<or> \<not> isShellArgumentOnlyUtility (Base lead)
                       then Some ('''', False)
                       else compoundFrom shlex_Split owners classifyLead result stages)
                    else if requestType \<notin> {''read'', ''create'', ''update'', ''delete''} then Some ('''', False)
                    else compoundFrom shlex_Split owners classifyLead (strongerShellRequestType result requestType) stages))"

definition classifyShellCompound ::
  "(string \<Rightarrow> string list option) \<Rightarrow> registry \<Rightarrow> (string \<Rightarrow> string \<Rightarrow> (string \<times> bool) option) \<Rightarrow> string \<Rightarrow> (string \<times> bool) option" where
  "classifyShellCompound shlex_Split owners classifyLead input =
     compoundFrom shlex_Split owners classifyLead ''read'' (stagesOf input)"

definition isReadOnlyChainFilter :: "(string \<Rightarrow> string list option) \<Rightarrow> string \<Rightarrow> string \<Rightarrow> bool" where
  "isReadOnlyChainFilter shlex_Split lead cleaned =
     (case shlex_Split cleaned of
        None \<Rightarrow> False
      | Some [] \<Rightarrow> False
      | Some (prog # args) \<Rightarrow>
          if lead \<in> {''grep'', ''egrep'', ''fgrep'', ''head'', ''tail'', ''wc'', ''cut'', ''tr'', ''true'', ''false''} then True
          else if lead \<in> {''base64'', ''uniq''} then list_all (\<lambda>arg. HasPrefix arg ''-'') args
          else if lead = ''sort'' then
            list_all (\<lambda>arg. \<not> (HasPrefix arg ''--output'' \<or> HasPrefix arg ''--compress-program'' \<or>
              (HasPrefix arg ''-'' \<and> \<not> HasPrefix arg ''--'' \<and> Contains arg ''o''))) args
          else False)"

definition stageStartsWith :: "(string \<Rightarrow> string list option) \<Rightarrow> string list \<Rightarrow> string \<Rightarrow> bool" where
  "stageStartsWith shlex_Split executables stage0 =
     (let stage = TrimSpace stage0
      in stage = '''' \<or>
         (case shlex_Split (stripShellRedirections stage) of
            None \<Rightarrow> False
          | Some [] \<Rightarrow> False
          | Some (first # rest) \<Rightarrow> first \<in> set executables \<or> isReadOnlyChainFilter shlex_Split first stage))"

definition everyStageStartsWith :: "(string \<Rightarrow> string list option) \<Rightarrow> string list \<Rightarrow> string \<Rightarrow> bool" where
  "everyStageStartsWith shlex_Split executables command =
     list_all (stageStartsWith shlex_Split executables) (stagesOf command)"

definition ownLead :: "(string \<Rightarrow> string list option) \<Rightarrow> (string \<Rightarrow> string) \<Rightarrow> string list \<Rightarrow> string \<Rightarrow> string \<Rightarrow> (string \<times> bool) option" where
  "ownLead shlex_Split static executables lead cleaned =
     (if lead \<in> set executables then Some (static cleaned, True)
      else if isReadOnlyChainFilter shlex_Split lead cleaned then Some (''read'', True)
      else Some ('''', True))"

definition classifyOwnCLIChain ::
  "(string \<Rightarrow> string list option) \<Rightarrow> registry \<Rightarrow> string \<Rightarrow> (string \<Rightarrow> string) \<Rightarrow> string list \<Rightarrow> string" where
  "classifyOwnCLIChain shlex_Split owners command0 static executables =
     (let command = stripShellComments command0
      in if hasFileRedirection command then ''''
         else if \<not> hasUnquotedShellSyntax command then static (TrimSpace command)
         else if \<not> everyStageStartsWith shlex_Split executables command then ''''
         else
           case classifyShellCompound shlex_Split owners (ownLead shlex_Split static executables) command of
             Some (requestType, True) \<Rightarrow> requestType
           | _ \<Rightarrow> '''')"

text \<open>\<open>KubectlExecuteTool\<close>; \<open>decodeCommand\<close> reads the field \<open>command\<close> of a JSON object, \<open>None\<close> when the text does not decode.\<close>

definition extractCommandFromToolInput :: "(string \<Rightarrow> string option) \<Rightarrow> string \<Rightarrow> string" where
  "extractCommandFromToolInput decodeCommand input =
     (case decodeCommand input of None \<Rightarrow> input | Some c \<Rightarrow> if c \<noteq> '''' then c else input)"

definition Kubectl_InferToolRequestType ::
  "(string \<Rightarrow> string list option) \<Rightarrow> registry \<Rightarrow> (string \<Rightarrow> string option) \<Rightarrow> string \<Rightarrow> string" where
  "Kubectl_InferToolRequestType shlex_Split owners decodeCommand input =
     (let command = extractCommandFromToolInput decodeCommand input;
          requestType = InferKubectlVerbType shlex_Split command
      in if requestType = '''' then classifyOwnCLIChain shlex_Split owners command (InferKubectlVerbType shlex_Split) [''kubectl'']
         else requestType)"

section \<open>The shell tool\<close>

text \<open>The tests let the character pass, and it is not in single quotes.\<close>

definition live :: "quoting \<Rightarrow> char \<Rightarrow> bool" where
  "live st c = (case st of (single, double, escaped) \<Rightarrow> \<not> escaped \<and> \<not> single \<and> c \<notin> {CHR 0x5C, CHR 0x22, CHR 0x27})"

fun expandable :: "quoting \<Rightarrow> string \<Rightarrow> bool" where
  "expandable st [] = False"
| "expandable st (c # cs) = ((live st c \<and> c \<in> {CHR ''$'', CHR 0x60}) \<or> expandable (quoteStep st c) cs)"

definition containsExpandableShellSyntax :: "string \<Rightarrow> bool" where
  "containsExpandableShellSyntax input = expandable unquoted input"

fun controlSyntax :: "quoting \<Rightarrow> char option \<Rightarrow> string \<Rightarrow> bool" where
  "controlSyntax st prev [] = (st \<noteq> unquoted)"
| "controlSyntax st prev (c # cs) =
     (if live st c \<and> (c = CHR 0x60 \<or> (c = CHR ''$'' \<and> HasPrefix cs ''('')) then True
      else if bare st c \<and> c = CHR ''|'' \<and> HasPrefix cs ''|'' then True
      else if bare st c \<and> c = CHR ''&'' \<and> \<not> isShellRedirectionAmpersand prev cs then True
      else if bare st c \<and> c \<in> set ('';(){}'' @ [CHR 0x0A, CHR 0x0D]) then True
      else controlSyntax (quoteStep st c) (Some c) cs)"

definition hasShellGateControlSyntax :: "string \<Rightarrow> bool" where
  "hasShellGateControlSyntax input = controlSyntax unquoted None input"

definition isCurlExecutable :: "string \<Rightarrow> string list \<Rightarrow> bool" where
  "isCurlExecutable token aliases =
     (if shellScanBasename token = ''curl'' then True
      else if \<not> HasPrefix token ''$'' then False
      else
        let name = (if HasPrefix token ''${'' \<and> HasSuffix token ''}'' then butlast (drop 2 token) else tl token)
        in name \<in> set aliases)"

definition assignedCurl :: "string list \<Rightarrow> string list \<Rightarrow> string list" where
  "assignedCurl tokens aliases =
     foldl (\<lambda>as token.
       if \<not> isEnvAssignment token then as
       else case Cut token ''='' of (name, v, _) \<Rightarrow>
         (case Fields v of [] \<Rightarrow> as | w # _ \<Rightarrow> if shellScanBasename w = ''curl'' then name # as else as)) aliases tokens"

text \<open>The loop over the parts of a stage: whether a mutating option was met, whether \<open>curl\<close> was, and the aliases.\<close>

fun curlParts :: "bool \<Rightarrow> string list \<Rightarrow> string list \<Rightarrow> bool \<times> bool \<times> string list" where
  "curlParts seenCurl aliases [] = (False, seenCurl, aliases)"
| "curlParts seenCurl aliases (part # parts) =
     (if isEnvAssignment part then
        (case Cut part ''='' of (name, v, _) \<Rightarrow>
           curlParts seenCurl (if shellScanBasename v = ''curl'' then name # aliases else aliases) parts)
      else if isCurlExecutable part aliases then curlParts True aliases parts
      else if \<not> seenCurl then curlParts seenCurl aliases parts
      else if IsCurlMutationToken part then (True, seenCurl, aliases)
      else curlParts seenCurl aliases parts)"

definition curlSeparators :: string where
  "curlSeparators = '' ;&|()'' @ [CHR 0x09, CHR 0x0A, CHR 0x60, CHR 0x27, CHR 0x22]"

definition containsPotentialMutatingCurlStage ::
  "(string \<Rightarrow> string list option) \<Rightarrow> string \<Rightarrow> string list \<Rightarrow> bool \<times> string list" where
  "containsPotentialMutatingCurlStage shlex_Split input aliases0 =
     (let aliases = (case shlex_Split input of None \<Rightarrow> aliases0 | Some tokens \<Rightarrow> assignedCurl tokens aliases0);
          lead = fst (extractLeadingShellCommand shlex_Split (stripShellRedirections input));
          leadBase = shellScanBasename lead;
          directCurl = isCurlExecutable lead aliases
      in if \<not> directCurl \<and> lead \<noteq> '''' \<and> \<not> isShellExecutionWrapper leadBase \<and>
            isShellArgumentOnlyUtility leadBase \<and> \<not> hasShellSubstitution input
         then (False, aliases)
         else
           case curlParts directCurl aliases (fieldsBy curlSeparators [] input) of (found, seenCurl, aliases1) \<Rightarrow>
             (found \<or> (seenCurl \<and> containsExpandableShellSyntax input), aliases1))"

fun curlStages :: "(string \<Rightarrow> string list option) \<Rightarrow> string list \<Rightarrow> string list \<Rightarrow> bool" where
  "curlStages shlex_Split aliases [] = False"
| "curlStages shlex_Split aliases (stage # stages) =
     (case containsPotentialMutatingCurlStage shlex_Split stage aliases of
        (found, aliases1) \<Rightarrow> found \<or> curlStages shlex_Split aliases1 stages)"

definition containsPotentialMutatingCurl :: "(string \<Rightarrow> string list option) \<Rightarrow> string \<Rightarrow> bool" where
  "containsPotentialMutatingCurl shlex_Split input = curlStages shlex_Split [] (stagesOf input)"

definition containsExecutableShellWrappable :: "(string \<Rightarrow> string list option) \<Rightarrow> registry \<Rightarrow> string \<Rightarrow> bool" where
  "containsExecutableShellWrappable shlex_Split owners input =
     list_ex (\<lambda>stage.
       let lead = fst (extractLeadingShellCommand shlex_Split stage); leadBase = Base lead
       in LookupShellWrappable owners leadBase \<noteq> '''' \<or>
          ((lead = '''' \<or> isShellExecutionWrapper leadBase \<or> \<not> isShellArgumentOnlyUtility leadBase \<or> hasShellSubstitution stage) \<and>
           containsShellWrappableCommand owners stage)) (stagesOf input)"

definition containsExecutableCurl :: "(string \<Rightarrow> string list option) \<Rightarrow> string \<Rightarrow> bool" where
  "containsExecutableCurl shlex_Split input =
     list_ex (\<lambda>stage. shellScanBasename (fst (extractLeadingShellCommand shlex_Split (stripShellRedirections stage))) = ''curl'')
       (stagesOf input)"

definition needsWholeShellPrompt :: "(string \<Rightarrow> string list option) \<Rightarrow> registry \<Rightarrow> string \<Rightarrow> bool" where
  "needsWholeShellPrompt shlex_Split owners input =
     (if containsPotentialMutatingCurl shlex_Split input then True
      else if hasShellGateControlSyntax input then
        containsExecutableShellWrappable shlex_Split owners input \<or>
        list_ex (\<lambda>stage. case extractLeadingShellCommand shlex_Split (stripShellRedirections stage) of (lead, cleaned) \<Rightarrow>
          Base lead = ''curl'' \<and> \<not> isKnownReadOnlyCurlCommand shlex_Split cleaned) (stagesOf input)
      else
        let stages = splitShellPipeline input;
            known = containsExecutableShellWrappable shlex_Split owners input \<or> containsExecutableCurl shlex_Split input
        in if list_ex (\<lambda>stage. case extractLeadingShellCommand shlex_Split (stripShellRedirections stage) of (lead, cleaned) \<Rightarrow>
               (Base lead = ''curl'' \<and> \<not> isKnownReadOnlyCurlCommand shlex_Split cleaned) \<or>
               LookupShellWrappable owners (Base lead) \<noteq> '''' \<or>
               (known \<and> (lead = '''' \<or> isShellExecutionWrapper (Base lead) \<or> \<not> isShellArgumentOnlyUtility (Base lead) \<or>
                  hasShellSubstitution stage))) (tl stages)
           then True
           else
             case extractLeadingShellCommand shlex_Split (hd stages) of (lead, cleaned) \<Rightarrow>
               if lead = '''' then containsShellWrappableCommand owners input
               else if Base lead = ''curl'' \<and> \<not> isKnownReadOnlyCurlCommand shlex_Split cleaned then True
               else LookupShellWrappable owners (Base lead) = '''' \<and>
                 (isShellExecutionWrapper (Base lead) \<or> \<not> isShellArgumentOnlyUtility (Base lead) \<or> hasShellSubstitution input) \<and>
                 containsShellWrappableCommand owners input)"

text \<open>\<open>classifierOf\<close> gives the static classifier of a tool, \<open>None\<close> when the tool does not exist or has none; a classifier gives \<open>None\<close> for an error.\<close>

definition shellLead ::
  "registry \<Rightarrow> (string \<Rightarrow> (string \<Rightarrow> string option) option) \<Rightarrow> string \<Rightarrow> string \<Rightarrow> (string \<times> bool) option" where
  "shellLead owners classifierOf lead cleaned =
     (let owner = LookupShellWrappable owners (Base lead)
      in if owner = '''' then Some ('''', False)
         else case classifierOf owner of
                None \<Rightarrow> Some ('''', True)
              | Some classify \<Rightarrow> map_option (\<lambda>t. (t, True)) (classify cleaned))"

definition Shell_InferToolRequestType ::
  "(string \<Rightarrow> string list option) \<Rightarrow> registry \<Rightarrow> (string \<Rightarrow> (string \<Rightarrow> string option) option) \<Rightarrow> (string \<Rightarrow> string option) \<Rightarrow>
     string \<Rightarrow> string option" where
  "Shell_InferToolRequestType shlex_Split owners classifierOf decodeCommand input0 =
     (let input = stripShellComments (extractCommandFromToolInput decodeCommand input0)
      in if containsPotentialMutatingCurl shlex_Split input then Some ''''
         else
           let compound =
             (if hasShellGateControlSyntax input \<or>
                 (length (splitShellPipeline input) > 1 \<and> containsExecutableShellWrappable shlex_Split owners input)
              then classifyShellCompound shlex_Split owners (shellLead owners classifierOf) input
              else Some ('''', False))
           in case compound of
                None \<Rightarrow> None
              | Some (requestType, whole) \<Rightarrow>
                  if whole then Some requestType
                  else if needsWholeShellPrompt shlex_Split owners input then Some ''''
                  else
                    case extractLeadingShellCommand shlex_Split (hd (splitShellPipeline input)) of (lead, cleaned) \<Rightarrow>
                      if lead = '''' then Some ''''
                      else
                        let owner = LookupShellWrappable owners (Base lead)
                        in if owner = '''' then Some ''''
                           else case classifierOf owner of None \<Rightarrow> Some '''' | Some classify \<Rightarrow> classify cleaned)"

section \<open>What the cuts keep\<close>

fun weave :: "string list \<Rightarrow> string list \<Rightarrow> string" where
  "weave (r # rs) (s # ss) = r @ s @ weave rs ss"
| "weave rs ss = concat rs"


text \<open>
  No command ends at the character \<open>c\<close> between \<open>pre\<close> and \<open>post\<close>: it is no semicolon and no end of a line, does
  not begin \<open>&&\<close> or \<open>||\<close>, and if it is an ampersand, it belongs to a redirection.
\<close>

definition noSeparator :: "string \<Rightarrow> char \<Rightarrow> string \<Rightarrow> bool" where
  "noSeparator pre c post \<longleftrightarrow>
     c \<notin> {CHR '';'', CHR 0x0A, CHR 0x0D} \<and> \<not> (c = CHR ''&'' \<and> HasPrefix post ''&'') \<and> \<not> (c = CHR ''|'' \<and> HasPrefix post ''|'') \<and>
     (c = CHR ''&'' \<longrightarrow> (pre \<noteq> [] \<and> last pre \<in> {CHR ''>'', CHR ''<''}) \<or> HasPrefix post ''>'')"

text \<open>Nowhere outside quotes in \<open>s\<close>, which \<open>rest\<close> follows, does a command end.\<close>

definition uncut :: "string \<Rightarrow> string \<Rightarrow> bool" where
  "uncut s rest \<longleftrightarrow> (\<forall>pre c post. s = pre @ c # post \<and> quoteState pre = (False, False, False) \<longrightarrow> noSeparator pre c (post @ rest))"

definition segment :: "string \<Rightarrow> bool" where
  "segment s \<longleftrightarrow> quoteState s = (False, False, False) \<and> uncut s []"

definition commandOps :: "string set" where
  "commandOps = {'';'', [CHR 0x0A], [CHR 0x0D], ''&'', ''&&'', ''||''}"

lemma quoteStep_bare: "bare st c \<Longrightarrow> quoteStep st c = st"
  by (auto simp: bare_def quoteStep_def)

lemma separator_op:
  assumes "separatorLen prev c cs = n" "n > 0"
  shows "take n (c # cs) \<in> commandOps \<and> c # cs = take n (c # cs) @ drop (n - 1) cs"
proof -
  have two: "HasPrefix cs [x] \<Longrightarrow> take (Suc 0) cs = [x]" for x by (cases cs) auto
  have "take n (c # cs) \<in> commandOps"
    using assms two by (auto simp: separatorLen_def commandOps_def split: if_splits)
  moreover have "c # cs = take n (c # cs) @ drop (n - 1) cs" using assms(2) by (cases n) auto
  ultimately show ?thesis by blast
qed

lemma separator_none:
  assumes "bare st c \<Longrightarrow> separatorLen prev c cs = 0" "st = unquoted"
    "cur = [] \<Longrightarrow> prev \<notin> {Some (CHR ''>''), Some (CHR ''<'')}" "cur \<noteq> [] \<Longrightarrow> prev = Some (last cur)"
  shows "noSeparator cur c cs"
proof (cases "bare st c")
  case True
  then have "separatorLen prev c cs = 0" by (rule assms(1))
  then show ?thesis using assms(3,4)
    by (cases "cur = []") (auto simp: separatorLen_def noSeparator_def isShellRedirectionAmpersand_def split: if_splits)
next
  case False
  then have "c \<in> {CHR 0x5C, CHR 0x27, CHR 0x22}" using assms(2) by (simp add: bare_def)
  then show ?thesis by (auto simp: noSeparator_def)
qed

lemma last_split: "s @ [x] = pre @ c # post \<Longrightarrow> (pre = s \<and> c = x \<and> post = []) \<or> (\<exists>post'. post = post' @ [x] \<and> s = pre @ c # post')"
  by (cases post rule: rev_cases) auto

lemma uncut_snoc:
  assumes "uncut cur (c # cs)" "quoteState cur = unquoted \<Longrightarrow> noSeparator cur c cs"
  shows "uncut (cur @ [c]) cs"
  unfolding uncut_def
proof (intro allI impI, elim conjE)
  fix pre x post assume s: "cur @ [c] = pre @ x # post" and b: "quoteState pre = unquoted"
  from last_split [OF s] show "noSeparator pre x (post @ cs)"
  proof
    assume "pre = cur \<and> x = c \<and> post = []"
    then show ?thesis using assms(2) b by simp
  next
    assume "\<exists>post'. post = post' @ [c] \<and> cur = pre @ x # post'"
    then show ?thesis using assms(1) b unfolding uncut_def by fastforce
  qed
qed

text \<open>At a cut the piece ends, and what follows it there is no redirection.\<close>

lemma uncut_end:
  assumes "uncut cur (c # cs)" "c \<noteq> CHR ''>''"
  shows "uncut cur []"
  unfolding uncut_def
proof (intro allI impI, elim conjE)
  fix pre x post assume s: "cur = pre @ x # post" and b: "quoteState pre = unquoted"
  have "noSeparator pre x (post @ c # cs)" using assms(1) s b unfolding uncut_def by blast
  then show "noSeparator pre x (post @ [])" using assms(2) by (cases post) (auto simp: noSeparator_def)
qed

lemma segmentsFrom_cuts:
  assumes "segmentsFrom st prev cur cs = Some parts" "quoteState cur = st" "uncut cur cs"
    "cur = [] \<Longrightarrow> prev \<notin> {Some (CHR ''>''), Some (CHR ''<'')}" "cur \<noteq> [] \<Longrightarrow> prev = Some (last cur)"
  shows "\<exists>raws seps. parts = map TrimSpace raws \<and> cur @ cs = weave raws seps \<and> length raws = Suc (length seps) \<and>
    set seps \<subseteq> commandOps \<and> (\<forall>r\<in>set raws. segment r)"
  using assms
proof (induction st prev cur cs arbitrary: parts rule: segmentsFrom.induct)
  case (1 st prev cur)
  then have "parts = [TrimSpace cur]" "segment cur" by (auto simp: segment_def split: if_splits)
  then show ?case by (intro exI [of _ "[cur]"] exI [of _ "[]"]) simp
next
  case (2 st prev cur c cs)
  define n where "n = (if bare st c then separatorLen prev c cs else 0)"
  show ?case
  proof (cases "n > 0")
    case True
    then have b: "bare st c" "separatorLen prev c cs = n" by (auto simp: n_def split: if_splits)
    then have st: "st = unquoted" by (simp add: bare_def)
    obtain ps where ps: "segmentsFrom st (Some c) [] (drop (n - 1) cs) = Some ps" "parts = TrimSpace cur # ps"
      using "2.prems"(1) True n_def by auto
    note op = separator_op [OF b(2) True]
    then have c: "c \<noteq> CHR ''>''" "c \<noteq> CHR ''<''" using True by (cases n; auto simp: commandOps_def)+
    have "uncut [] (drop (n - 1) cs)" by (simp add: uncut_def)
    with "2.IH"(1) [OF n_def True ps(1)] obtain raws seps where
      r: "ps = map TrimSpace raws" "drop (n - 1) cs = weave raws seps" "length raws = Suc (length seps)"
        "set seps \<subseteq> commandOps" "\<forall>r\<in>set raws. segment r"
      using st c by (auto simp: quoteState_def)
    have "segment cur" using "2.prems"(2,3) st c uncut_end by (auto simp: segment_def)
    moreover note op
    ultimately show ?thesis
      using r ps(2) by (intro exI [of _ "cur # raws"] exI [of _ "take n (c # cs) # seps"]) auto
  next
    case False
    then have rest: "segmentsFrom (quoteStep st c) (Some c) (cur @ [c]) cs = Some parts"
      using "2.prems"(1) n_def by (simp add: Let_def split: if_splits)
    have none: "separatorLen prev c cs = 0" if "bare st c" using that False by (auto simp: n_def)
    have "uncut (cur @ [c]) cs"
      using "2.prems"(3) by (rule uncut_snoc) (rule separator_none [OF none _ "2.prems"(4,5)]; use "2.prems"(2) in simp)
    moreover have "quoteState (cur @ [c]) = quoteStep st c" using "2.prems"(2) by (simp only: quoteState_snoc)
    ultimately have "\<exists>raws seps. parts = map TrimSpace raws \<and> (cur @ [c]) @ cs = weave raws seps \<and>
        length raws = Suc (length seps) \<and> set seps \<subseteq> commandOps \<and> (\<forall>r\<in>set raws. segment r)"
      by (intro "2.IH"(2) [OF n_def False rest]) simp_all
    then show ?thesis by (simp only: append_assoc append.simps)
  qed
qed

lemma quoteState_append: "quoteState (u @ v) = foldl quoteStep (quoteState u) v"
  by (simp add: quoteState_def)

lemma segmentsFrom_None: "segmentsFrom st prev cur cs = None \<longleftrightarrow> foldl quoteStep st cs \<noteq> unquoted"
proof (induction st prev cur cs rule: segmentsFrom.induct)
  case (2 st prev cur c cs)
  define n where "n = (if bare st c then separatorLen prev c cs else 0)"
  show ?case
  proof (cases "n > 0")
    case True
    then have b: "bare st c" "separatorLen prev c cs = n" by (auto simp: n_def split: if_splits)
    have op: "c # cs = take n (c # cs) @ drop (n - 1) cs" "take n (c # cs) \<in> commandOps" using separator_op [OF b(2) True] by auto
    have "foldl quoteStep st (take n (c # cs)) = st"
      using op(2) b(1) by (auto simp: commandOps_def bare_def quoteStep_def)
    then have "foldl quoteStep st (c # cs) = foldl quoteStep st (drop (n - 1) cs)" by (subst op(1)) (simp only: foldl_append)
    moreover have "segmentsFrom st prev cur (c # cs) = None \<longleftrightarrow> segmentsFrom st (Some c) [] (drop (n - 1) cs) = None"
      using True n_def by simp
    ultimately show ?thesis using "2.IH"(1) [OF n_def True] by simp
  next
    case False
    then have "segmentsFrom st prev cur (c # cs) = segmentsFrom (quoteStep st c) (Some c) (cur @ [c]) cs"
      using n_def by (simp add: Let_def)
    then show ?thesis using "2.IH"(2) [OF n_def False] by simp
  qed
qed simp

text \<open>An unquoted pipe that is left in a stage stands next to another one.\<close>

definition pairedPipes :: "string \<Rightarrow> string \<Rightarrow> bool" where
  "pairedPipes s rest \<longleftrightarrow> (\<forall>pre c post. s = pre @ c # post \<and> quoteState pre = (False, False, False) \<and> c = CHR ''|'' \<longrightarrow>
     (pre \<noteq> [] \<and> last pre = CHR ''|'') \<or> HasPrefix (post @ rest) ''|'')"

lemma pairedPipes_snoc:
  assumes "pairedPipes cur (c # cs)"
    "quoteState cur = unquoted \<Longrightarrow> c = CHR ''|'' \<Longrightarrow> (cur \<noteq> [] \<and> last cur = CHR ''|'') \<or> HasPrefix cs ''|''"
  shows "pairedPipes (cur @ [c]) cs"
  unfolding pairedPipes_def
proof (intro allI impI, elim conjE)
  fix pre x post assume s: "cur @ [c] = pre @ x # post" and b: "quoteState pre = unquoted" "x = CHR ''|''"
  from last_split [OF s] show "(pre \<noteq> [] \<and> last pre = CHR ''|'') \<or> HasPrefix (post @ cs) ''|''"
  proof
    assume "pre = cur \<and> x = c \<and> post = []"
    then have same: "pre = cur" "x = c" by blast+
    have "(cur \<noteq> [] \<and> last cur = CHR ''|'') \<or> HasPrefix cs ''|''"
      by (rule assms(2)) (use b same in \<open>simp_all only:\<close>)
    then show ?thesis using \<open>pre = cur \<and> x = c \<and> post = []\<close> by (simp only: append_Nil)
  next
    assume "\<exists>post'. post = post' @ [c] \<and> cur = pre @ x # post'"
    then obtain post' where "post = post' @ [c]" "cur = pre @ x # post'" by blast
    then show ?thesis using assms(1) b unfolding pairedPipes_def by fastforce
  qed
qed

definition isStage :: "string \<Rightarrow> bool" where "isStage s \<longleftrightarrow> quoteState s = (False, False, False) \<and> pairedPipes s []"

lemma stagesFrom_cuts:
  assumes "stagesFrom st prev cur cs = Some parts" "quoteState cur = st" "pairedPipes cur cs"
    "cur = [] \<Longrightarrow> prev = None \<or> \<not> HasPrefix cs ''|''" "cur \<noteq> [] \<Longrightarrow> prev = Some (last cur)"
  shows "\<exists>raws. parts = map TrimSpace raws \<and> cur @ cs = weave raws (replicate (length raws - 1) ''|'') \<and> raws \<noteq> [] \<and> (\<forall>r\<in>set raws. isStage r)"
  using assms
proof (induction st prev cur cs arbitrary: parts rule: stagesFrom.induct)
  case (1 st prev cur)
  then show ?case by (intro exI [of _ "[cur]"]) (auto simp: isStage_def split: if_splits)
next
  case (2 st prev cur c cs)
  show ?case
  proof (cases "bare st c \<and> isPipe prev c cs")
    case True
    then have st: "st = unquoted" "c = CHR ''|''" "prev \<noteq> Some (CHR ''|'')" "\<not> HasPrefix cs ''|''" by (simp_all add: bare_def isPipe_def)
    obtain ps where ps: "stagesFrom st (Some c) [] cs = Some ps" "parts = TrimSpace cur # ps"
      using "2.prems"(1) True by auto
    have "pairedPipes [] cs" by (simp add: pairedPipes_def)
    with "2.IH"(1) [OF True ps(1)] obtain raws where
      r: "ps = map TrimSpace raws" "cs = weave raws (replicate (length raws - 1) ''|'')" "raws \<noteq> []" "\<forall>r\<in>set raws. isStage r"
      using st by (auto simp: quoteState_def)
    have "pairedPipes cur []"
      unfolding pairedPipes_def
    proof (intro allI impI, elim conjE)
      fix pre x post assume s: "cur = pre @ x # post" "quoteState pre = unquoted" "x = CHR ''|''"
      then have "(pre \<noteq> [] \<and> last pre = CHR ''|'') \<or> HasPrefix (post @ c # cs) ''|''"
        using "2.prems"(3) unfolding pairedPipes_def by blast
      moreover have "post \<noteq> []" using s st(3) "2.prems"(5) by auto
      ultimately show "(pre \<noteq> [] \<and> last pre = CHR ''|'') \<or> HasPrefix (post @ []) ''|''" by (cases post) auto
    qed
    then show ?thesis
      using r ps(2) "2.prems"(2) st by (intro exI [of _ "cur # raws"]) (cases raws; simp add: isStage_def)
  next
    case False
    then have rest: "stagesFrom (quoteStep st c) (Some c) (cur @ [c]) cs = Some parts" using "2.prems"(1) by auto
    have "pairedPipes (cur @ [c]) cs"
      using "2.prems"(3)
    proof (rule pairedPipes_snoc)
      assume "quoteState cur = unquoted" "c = CHR ''|''"
      then have "prev = Some (CHR ''|'') \<or> HasPrefix cs ''|''" using False "2.prems"(2) by (auto simp: isPipe_def bare_def)
      then show "(cur \<noteq> [] \<and> last cur = CHR ''|'') \<or> HasPrefix cs ''|''"
        using "2.prems"(4,5) \<open>c = CHR ''|''\<close> by (cases "cur = []") auto
    qed
    moreover have "quoteState (cur @ [c]) = quoteStep st c" using "2.prems"(2) by (simp only: quoteState_snoc)
    ultimately have "\<exists>raws. parts = map TrimSpace raws \<and> (cur @ [c]) @ cs = weave raws (replicate (length raws - 1) ''|'') \<and>
        raws \<noteq> [] \<and> (\<forall>r\<in>set raws. isStage r)"
      by (intro "2.IH"(2) [OF False rest]) simp_all
    then show ?thesis by (simp only: append_assoc append.simps)
  qed
qed

lemma stagesFrom_None: "stagesFrom st prev cur cs = None \<longleftrightarrow> foldl quoteStep st cs \<noteq> unquoted"
  by (induction st prev cur cs rule: stagesFrom.induct) (auto simp: quoteStep_bare)

section \<open>Redirections that write no file\<close>

text \<open>What follows a redirection sign names no file: a digit after an ampersand, or \<open>/dev/null\<close> as a whole word.\<close>

definition toNoFile :: "string \<Rightarrow> bool" where
  "toNoFile rest \<longleftrightarrow>
     (\<exists>d more. rest = CHR ''&'' # d # more \<and> d \<in> set ''0123456789'') \<or>
     (\<exists>blanks more. rest = blanks @ ''/dev/null'' @ more \<and> set blanks \<subseteq> {CHR '' '', CHR 0x09} \<and>
        (more = [] \<or> hd more \<in> {CHR '' '', CHR 0x09, CHR '';'', CHR ''|'', CHR ''&'', CHR ''<'', CHR ''>''}))"

text \<open>Every redirection sign outside quotes is an output sign, single or double, before such a target.\<close>

definition redirectsNoFile :: "string \<Rightarrow> bool" where
  "redirectsNoFile s \<longleftrightarrow>
     (\<forall>pre c post. s = pre @ c # post \<and> quoteState pre = (False, False, False) \<and> c \<in> {CHR ''<'', CHR ''>''} \<longrightarrow>
        c = CHR ''>'' \<and> (toNoFile post \<or> (\<exists>more. post = CHR ''>'' # more \<and> toNoFile more)))"

lemma isDigit_chars: "isDigit d \<Longrightarrow> d \<in> set ''0123456789''"
proof -
  assume "isDigit d"
  then have n: "of_char d \<in> set [48..<58 :: nat]"
    unfolding isDigit_def set_upt atLeastLessThan_iff by linarith
  have "list_all (\<lambda>n :: nat. char_of n \<in> set ''0123456789'') [48..<58]" by code_simp
  with n have "char_of (of_char d :: nat) \<in> set ''0123456789''" unfolding list_all_iff by blast
  then show ?thesis by simp
qed

lemma quoteStep_plain:
  "set u \<inter> {CHR 0x5C, CHR 0x27, CHR 0x22} = {} \<Longrightarrow> foldl quoteStep unquoted u = unquoted"
proof (induction u)
  case (Cons c u)
  then have "quoteStep unquoted c = unquoted" by (intro quoteStep_bare) (auto simp: bare_def)
  then show ?case using Cons by simp
qed simp

lemma redirects_step:
  assumes "\<not> redirects unquoted (CHR ''>'' # cs)"
  shows "\<exists>gt mid cs'. cs = gt @ mid @ cs' \<and> (gt = [] \<or> gt = [CHR ''>'']) \<and> toNoFile (mid @ cs') \<and> \<not> redirects unquoted cs' \<and>
    set mid \<inter> {CHR ''<'', CHR ''>'', CHR 0x5C, CHR 0x27, CHR 0x22} = {}"
proof -
  define rest where "rest = TrimPrefix cs ''>''"
  obtain gt where gt: "cs = gt @ rest" "gt = [] \<or> gt = [CHR ''>'']"
  proof (cases "HasPrefix cs ''>''")
    case True
    then obtain r where "cs = ''>'' @ r" using HasPrefix_iff by blast
    then have "cs = [CHR ''>''] @ rest" by (simp add: rest_def TrimPrefix_def)
    then show thesis using that by blast
  next
    case False
    then have "cs = [] @ rest" by (simp add: rest_def TrimPrefix_def)
    then show thesis using that by blast
  qed
  have bare: "bare unquoted (CHR ''>'')" by (simp add: bare_def)
  note simps = redirects.simps(2) [of unquoted "CHR ''>''" cs, folded rest_def] bare
  show ?thesis
  proof (cases "HasPrefix rest ''&'' \<and> length rest > 1 \<and> isDigit (rest ! 1)")
    case True
    then obtain d more where r: "rest = CHR ''&'' # d # more" "isDigit d" by (cases rest; cases "tl rest") auto
    have d: "d \<in> set ''0123456789''" using r(2) isDigit_chars by blast
    have "\<not> redirects unquoted more" using assms True r by (simp add: simps Let_def rest_def [symmetric])
    moreover have "toNoFile ([CHR ''&'', d] @ more)" using d by (auto simp: toNoFile_def)
    moreover have "set [CHR ''&'', d] \<inter> {CHR ''<'', CHR ''>'', CHR 0x5C, CHR 0x27, CHR 0x22} = {}" using d by auto
    ultimately show ?thesis using gt r(1) by (intro exI [of _ gt] exI [of _ "[CHR ''&'', d]"] exI [of _ more]) simp
  next
    case False
    let ?b = "takeWhile blank rest" and ?r = "dropWhile blank rest" and ?P = "\<lambda>x. x \<notin> set targetEnd"
    have t: "takeWhile ?P ?r = ''/dev/null''" "\<not> redirects unquoted (dropWhile ?P ?r)"
      using assms False by (simp_all add: simps Let_def rest_def [symmetric] split: if_splits)
    define more where "more = dropWhile ?P ?r"
    define mid where "mid = ?b @ ''/dev/null''"
    have "rest = ?b @ takeWhile ?P ?r @ more" unfolding more_def by (simp only: takeWhile_dropWhile_id)
    then have rest: "rest = mid @ more" unfolding t(1) mid_def by (simp only: append_assoc)
    have blanks: "set ?b \<subseteq> {CHR '' '', CHR 0x09}" by (auto dest!: set_takeWhileD simp: blank_def)
    have stop: "more = [] \<or> hd more \<in> {CHR '' '', CHR 0x09, CHR '';'', CHR ''|'', CHR ''&'', CHR ''<'', CHR ''>''}"
      using hd_dropWhile [of ?P ?r] unfolding more_def by (auto simp: targetEnd_def)
    have "toNoFile (mid @ more)"
      unfolding toNoFile_def mid_def append_assoc
      by (intro disjI2 exI [of _ ?b] exI [of _ more] conjI refl blanks stop)
    moreover have "set mid \<inter> {CHR ''<'', CHR ''>'', CHR 0x5C, CHR 0x27, CHR 0x22} = {}"
      unfolding mid_def using blanks by auto
    moreover have "cs = gt @ mid @ more" using gt(1) by (simp only: rest)
    ultimately show ?thesis using gt(2) t(2) [folded more_def]
      by (intro exI [of _ gt] exI [of _ mid] exI [of _ more] conjI)
  qed
qed

lemma split_two:
  assumes "us @ c # vs = A @ B"
  shows "(\<exists>us'. us = A @ us' \<and> B = us' @ c # vs) \<or> (\<exists>w. A = us @ c # w \<and> vs = w @ B)"
  using assms by (auto simp: append_eq_append_conv2 Cons_eq_append_conv)

lemma redirects_none:
  assumes "\<not> redirects st cs" "quoteState pre = st" "cs = us @ c # vs" "quoteState (pre @ us) = unquoted" "c \<in> {CHR ''<'', CHR ''>''}"
  shows "c = CHR ''>'' \<and> (toNoFile vs \<or> (\<exists>more. vs = CHR ''>'' # more \<and> toNoFile more))"
  using assms
proof (induction cs arbitrary: st pre us rule: length_induct)
  case (1 cs)
  obtain x xs where cs: "cs = x # xs" using "1.prems"(3) by (cases us) simp_all
  show ?case
  proof (cases "bare st x \<and> x \<in> {CHR ''<'', CHR ''>''}")
    case False
    then have step: "\<not> redirects (quoteStep st x) xs"
      using "1.prems"(1) quoteStep_bare unfolding cs redirects.simps(2) by (auto split: if_splits)
    show ?thesis
    proof (cases us)
      case Nil
      then have "bare st x" "x \<in> {CHR ''<'', CHR ''>''}" using "1.prems" cs by (auto simp: bare_def)
      then show ?thesis using False by blast
    next
      case (Cons u us')
      then have "xs = us' @ c # vs" "quoteState (pre @ [x]) = quoteStep st x" "quoteState ((pre @ [x]) @ us') = unquoted"
        using "1.prems" cs by (auto simp: quoteState_snoc)
      moreover have "length xs < length cs" by (simp add: cs)
      ultimately show ?thesis using "1.IH" step "1.prems"(5) by blast
    qed
  next
    case True
    then have st: "st = unquoted" by (simp add: bare_def)
    have x: "x = CHR ''>''" using True "1.prems"(1) unfolding cs redirects.simps(2) by auto
    have "\<not> redirects unquoted (CHR ''>'' # xs)" using "1.prems"(1) unfolding cs st x .
    from redirects_step [OF this] obtain gt mid cs' where
      p: "xs = gt @ mid @ cs'" "gt = [] \<or> gt = [CHR ''>'']" "toNoFile (mid @ cs')" "\<not> redirects unquoted cs'"
        "set mid \<inter> {CHR ''<'', CHR ''>'', CHR 0x5C, CHR 0x27, CHR 0x22} = {}" by (elim exE conjE)
    let ?A = "x # gt @ mid"
    have "us @ c # vs = ?A @ cs'" using "1.prems"(3) cs p(1) by simp
    from split_two [OF this] show ?thesis
    proof
      assume "\<exists>us'. us = ?A @ us' \<and> cs' = us' @ c # vs"
      then obtain us' where u: "us = ?A @ us'" "cs' = us' @ c # vs" by blast
      have "set ?A \<inter> {CHR 0x5C, CHR 0x27, CHR 0x22} = {}" using p(2,5) x by auto
      then have "quoteState (pre @ ?A) = unquoted" using "1.prems"(2) st quoteStep_plain by (simp only: quoteState_append)
      moreover have "quoteState ((pre @ ?A) @ us') = unquoted" using "1.prems"(4) u(1) by simp
      moreover have "length cs' < length cs" using cs p(1) by simp
      ultimately show ?thesis using "1.IH" p(4) u(2) "1.prems"(5) by blast
    next
      assume "\<exists>w. ?A = us @ c # w \<and> vs = w @ cs'"
      then obtain w where w: "?A = us @ c # w" "vs = w @ cs'" by blast
      show ?thesis
      proof (cases us)
        case Nil
        then have "c = x" "w = gt @ mid" using w(1) by auto
        then show ?thesis using x w(2) p(2,3) by auto
      next
        case (Cons u us')
        then have g: "gt @ mid = us' @ c # w" using w(1) by simp
        have "c \<notin> set mid" using p(5) "1.prems"(5) by auto
        then have "gt = [CHR ''>'']" "us' = []" using p(2) g by (auto simp: Cons_eq_append_conv)
        then have "c = CHR ''>''" "w = mid" using g by auto
        then show ?thesis using w(2) p(3) by simp
      qed
    qed
  qed
qed

lemma redirectsNoFile: "\<not> hasFileRedirection command \<Longrightarrow> redirectsNoFile command"
  unfolding redirectsNoFile_def
proof (intro allI impI, elim conjE)
  fix pre c post
  assume a: "\<not> hasFileRedirection command" "command = pre @ c # post" "quoteState pre = unquoted" "c \<in> {CHR ''<'', CHR ''>''}"
  have "quoteState [] = unquoted" by (simp add: quoteState_def)
  moreover have "quoteState ([] @ pre) = unquoted" using a(3) by (simp only: append_Nil)
  ultimately show "c = CHR ''>'' \<and> (toNoFile post \<or> (\<exists>more. post = CHR ''>'' # more \<and> toNoFile more))"
    using redirects_none [OF a(1) [unfolded hasFileRedirection_def] _ a(2) _ a(4), of "[]"] by blast
qed

section \<open>What the loop over the stages decides\<close>

text \<open>What a stage contributes, as the loop sees it: its leading command and the command without what precedes it.\<close>

definition leadOf :: "(string \<Rightarrow> string list option) \<Rightarrow> string \<Rightarrow> string \<times> string" where
  "leadOf shlex_Split stage0 = extractLeadingShellCommand shlex_Split (stripShellRedirections (TrimSpace stage0))"

text \<open>A stage that only sets variables of the shell.\<close>

definition onlyAssigns :: "(string \<Rightarrow> string list option) \<Rightarrow> string \<Rightarrow> bool" where
  "onlyAssigns shlex_Split stage0 \<longleftrightarrow>
     (\<exists>toks. shlex_Split (TrimSpace stage0) = Some toks \<and> ((toks \<noteq> [] \<and> list_all isEnvAssignment toks) \<or> toks = [''env'']))"

definition requestTypes :: "string set" where "requestTypes = {''read'', ''create'', ''update'', ''delete''}"

text \<open>The type a classified stage adds.\<close>

definition contributes ::
  "(string \<Rightarrow> string list option) \<Rightarrow> (string \<Rightarrow> string \<Rightarrow> (string \<times> bool) option) \<Rightarrow> string \<Rightarrow> string \<Rightarrow> bool" where
  "contributes shlex_Split classifyLead stage0 t \<longleftrightarrow>
     TrimSpace stage0 \<noteq> '''' \<and> fst (leadOf shlex_Split stage0) \<noteq> '''' \<and>
     classifyLead (fst (leadOf shlex_Split stage0)) (snd (leadOf shlex_Split stage0)) = Some (t, True)"

text \<open>A command no tool owns: reading \<open>curl\<close>, or a utility without substitution.\<close>

definition harmlessUtility :: "(string \<Rightarrow> string list option) \<Rightarrow> string \<Rightarrow> string \<Rightarrow> string \<Rightarrow> bool" where
  "harmlessUtility shlex_Split stage0 lead cleaned \<longleftrightarrow>
     (if Base lead = ''curl'' then isKnownReadOnlyCurlCommand shlex_Split cleaned
      else isShellArgumentOnlyUtility (Base lead) \<and> \<not> hasShellSubstitution (TrimSpace stage0))"

definition accounted ::
  "(string \<Rightarrow> string list option) \<Rightarrow> (string \<Rightarrow> string \<Rightarrow> (string \<times> bool) option) \<Rightarrow> string \<Rightarrow> bool" where
  "accounted shlex_Split classifyLead stage0 \<longleftrightarrow>
     TrimSpace stage0 = '''' \<or>
     (let (lead, cleaned) = leadOf shlex_Split stage0
      in if lead = '''' then onlyAssigns shlex_Split stage0
         else \<exists>t owned. classifyLead lead cleaned = Some (t, owned) \<and>
           (if owned then t \<in> requestTypes else harmlessUtility shlex_Split stage0 lead cleaned))"

lemma requestRank_stronger: "requestRank (strongerShellRequestType a b) = max (requestRank a) (requestRank b)"
  by (simp add: strongerShellRequestType_def)

lemma compound_step:
  assumes "compoundFrom shlex_Split owners classifyLead r (stage0 # stages) = Some (t, True)"
  shows "accounted shlex_Split classifyLead stage0 \<and>
    (\<exists>r'. compoundFrom shlex_Split owners classifyLead r' stages = Some (t, True) \<and>
      ((r' = r \<and> (\<forall>u. \<not> contributes shlex_Split classifyLead stage0 u)) \<or>
       (\<exists>u. u \<in> requestTypes \<and> contributes shlex_Split classifyLead stage0 u \<and> r' = strongerShellRequestType r u)))"
proof (cases "TrimSpace stage0 = ''''")
  case True
  then show ?thesis using assms by (simp add: accounted_def contributes_def)
next
  case False
  obtain lead cleaned where l: "leadOf shlex_Split stage0 = (lead, cleaned)" by (cases "leadOf shlex_Split stage0")
  then have ext: "extractLeadingShellCommand shlex_Split (stripShellRedirections (TrimSpace stage0)) = (lead, cleaned)" by (simp add: leadOf_def)
  show ?thesis
  proof (cases "lead = ''''")
    case True
    then show ?thesis
      using assms False l ext by (auto simp: Let_def accounted_def contributes_def onlyAssigns_def split: if_splits option.splits)
  next
    case lead: False
    obtain u owned where u: "classifyLead lead cleaned = Some (u, owned)"
      using assms False lead ext by (auto simp: Let_def split: if_splits option.splits)
    show ?thesis
    proof (cases owned)
      case True
      then have "u \<in> requestTypes"
        "compoundFrom shlex_Split owners classifyLead (strongerShellRequestType r u) stages = Some (t, True)"
        using assms False lead ext u by (auto simp: Let_def requestTypes_def split: if_splits)
      moreover have "contributes shlex_Split classifyLead stage0 u" using False lead l u True by (simp add: contributes_def)
      ultimately show ?thesis using True False lead l u by (auto simp: accounted_def)
    next
      case unowned: False
      then have "compoundFrom shlex_Split owners classifyLead r stages = Some (t, True)" "harmlessUtility shlex_Split stage0 lead cleaned"
        using assms False lead ext u by (auto simp: Let_def harmlessUtility_def split: if_splits)
      then show ?thesis using unowned False lead l u by (auto simp: accounted_def contributes_def)
    qed
  qed
qed

lemma compound_sound:
  assumes "compoundFrom shlex_Split owners classifyLead r stages = Some (t, True)"
  shows "(\<forall>s\<in>set stages. accounted shlex_Split classifyLead s) \<and>
    (t = r \<or> (\<exists>s\<in>set stages. contributes shlex_Split classifyLead s t)) \<and>
    requestRank r \<le> requestRank t \<and>
    (\<forall>s\<in>set stages. \<forall>u. contributes shlex_Split classifyLead s u \<longrightarrow> u \<in> requestTypes \<and> requestRank u \<le> requestRank t)"
  using assms
proof (induction stages arbitrary: r)
  case (Cons s stages)
  from compound_step [OF Cons.prems] obtain r' where
    acc: "accounted shlex_Split classifyLead s" and rest: "compoundFrom shlex_Split owners classifyLead r' stages = Some (t, True)" and
    how: "(r' = r \<and> (\<forall>u. \<not> contributes shlex_Split classifyLead s u)) \<or>
       (\<exists>u. u \<in> requestTypes \<and> contributes shlex_Split classifyLead s u \<and> r' = strongerShellRequestType r u)" by blast
  note ih = Cons.IH [OF rest]
  from how show ?case
  proof
    assume "r' = r \<and> (\<forall>u. \<not> contributes shlex_Split classifyLead s u)"
    then show ?thesis using ih acc by auto
  next
    assume "\<exists>u. u \<in> requestTypes \<and> contributes shlex_Split classifyLead s u \<and> r' = strongerShellRequestType r u"
    then obtain u where u: "u \<in> requestTypes" "contributes shlex_Split classifyLead s u" "r' = strongerShellRequestType r u" by blast
    have unique: "v = u" if "contributes shlex_Split classifyLead s v" for v using that u(2) by (simp add: contributes_def)
    have ranks: "requestRank r \<le> requestRank t" "requestRank u \<le> requestRank t"
      using ih unfolding u(3) requestRank_stronger by auto
    have "r' = r \<or> r' = u" by (simp add: u(3) strongerShellRequestType_def)
    then have "t = r \<or> (\<exists>s'\<in>set (s # stages). contributes shlex_Split classifyLead s' t)" using ih u(2) by auto
    moreover have "v \<in> requestTypes \<and> requestRank v \<le> requestRank t" if "s' \<in> set (s # stages)" "contributes shlex_Split classifyLead s' v" for s' v
    proof (cases "s' = s")
      case True
      then have "v = u" using that(2) unique by blast
      then show ?thesis using u(1) ranks(2) by blast
    next
      case False
      then show ?thesis using that ih by auto
    qed
    ultimately show ?thesis using ih acc ranks(1) by (simp add: Ball_def)
  qed
qed simp

lemma trimBy_idem: "trimBy P (trimBy P s) = trimBy P s"
proof -
  have dw: "dropWhile P (dropWhile P xs) = dropWhile P xs" for xs by (induction xs) auto
  have tail: "dropWhile P (rev (dropWhile P (rev (dropWhile P s)))) = rev (dropWhile P (rev (dropWhile P s)))"
  proof (cases "dropWhile P s")
    case Nil
    then show ?thesis by (simp only: rev.simps dropWhile.simps)
  next
    case (Cons a as)
    then have "\<not> P a" by (metis dropWhile_eq_Cons_conv)
    have "dropWhile P (bs @ [a]) = dropWhile P bs @ [a]" for bs using \<open>\<not> P a\<close> by (induction bs) auto
    then show ?thesis using \<open>\<not> P a\<close> unfolding Cons by simp
  qed
  show ?thesis unfolding trimBy_def tail by (simp only: rev_rev_ident dw)
qed

section \<open>Properties\<close>

text \<open>
  C40: cutting a chain loses nothing and leaves nothing uncut. A text whose quotes are closed is its segments woven with the operators at which it was cut (a semicolon, the end of
  a line, one or two ampersands, two pipes). Each segment is closed in itself and holds no separator outside quotes: no semicolon, no end of a line, no two ampersands, no
  two pipes, and no ampersand but one that a redirection sign stands before or after. The text is also its stages woven with single
  pipes, each stage closed in itself, an unquoted pipe in it standing next to another. What the caller gets are these pieces without the blanks at their ends.
\<close>

theorem cuts_keep_everything:
  assumes "quoteState command = (False, False, False)"
  shows "(\<exists>raws seps. splitShellCommandSegments command = map TrimSpace raws \<and> command = weave raws seps \<and>
       length raws = Suc (length seps) \<and> set seps \<subseteq> commandOps \<and> (\<forall>r\<in>set raws. segment r)) \<and>
    (\<exists>raws. splitShellPipeline command = map TrimSpace raws \<and> command = weave raws (replicate (length raws - 1) ''|'') \<and>
       (\<forall>r\<in>set raws. isStage r))"
proof -
  have quotes: "foldl quoteStep unquoted command = unquoted" using assms by (simp add: quoteState_def)
  obtain segs where segs: "segmentsFrom unquoted None [] command = Some segs"
    using quotes segmentsFrom_None [of unquoted None "[]" command] by auto
  obtain pipes where pipes: "stagesFrom unquoted None [] command = Some pipes"
    using quotes stagesFrom_None [of unquoted None "[]" command] by auto
  have "quoteState [] = unquoted" "pairedPipes [] command" "uncut [] command" by (simp_all add: quoteState_def pairedPipes_def uncut_def)
  then show ?thesis
    using segmentsFrom_cuts [OF segs] stagesFrom_cuts [OF pipes]
    by (auto simp: splitShellCommandSegments_def splitShellPipeline_def segs pipes)
qed

theorem cuts_keep_everything_witness:
  "splitShellCommandSegments ''a; b'' = [''a'', ''b''] \<and>
   (\<exists>raws seps. [''a'', ''b''] = map TrimSpace raws \<and> ''a; b'' = weave raws seps \<and> set seps \<subseteq> commandOps)"
proof -
  have cut: "splitShellCommandSegments ''a; b'' = [''a'', ''b'']" by code_simp
  have "quoteState ''a; b'' = (False, False, False)" by code_simp
  from cuts_keep_everything [OF this, THEN conjunct1] show ?thesis unfolding cut by (elim exE conjE) (intro conjI exI refl; assumption)
qed

text \<open>
  C39: the strongest stage decides. If a chain is classified, every stage of it is empty, only sets variables, is a harmless utility no
  tool owns, or has a type of its own; no stage has a stronger type than the answer, and the answer is that of a stage, unless it is a
  read. So a chain with a stage that deletes is never a read.
\<close>

theorem strongest_stage_wins:
  assumes "classifyShellCompound shlex_Split owners classifyLead input = Some (t, True)"
  shows "(\<forall>s\<in>set (stagesOf input). accounted shlex_Split classifyLead s \<and>
      (\<forall>u. contributes shlex_Split classifyLead s u \<longrightarrow> u \<in> requestTypes \<and> requestRank u \<le> requestRank t)) \<and>
    t \<in> requestTypes \<and> (t = ''read'' \<or> (\<exists>s\<in>set (stagesOf input). contributes shlex_Split classifyLead s t))"
  using compound_sound [OF assms [unfolded classifyShellCompound_def]] by (auto simp: requestTypes_def)

text \<open>An instance of the splitting into words: blanks outside quotes separate, quotes and backslashes are removed.\<close>

fun wordsFrom :: "quoting \<Rightarrow> string option \<Rightarrow> string \<Rightarrow> string list option" where
  "wordsFrom st acc [] = (if st \<noteq> unquoted then None else Some (case acc of None \<Rightarrow> [] | Some w \<Rightarrow> [w]))"
| "wordsFrom st acc (c # cs) =
     (if bare st c \<and> isSpace c then
        (if acc = None then wordsFrom st None cs else map_option ((#) (the acc)) (wordsFrom st None cs))
      else wordsFrom (quoteStep st c)
        (Some ((if acc = None then [] else the acc) @ (if quoteStep st c = st \<or> snd (snd st) then [c] else []))) cs)"

definition shellWords :: "string \<Rightarrow> string list option" where "shellWords s = wordsFrom unquoted None s"

definition kubectlOwner :: registry where "kubectlOwner = [''kubectl'' \<mapsto> ''kubectl_execute'']"

definition kubectlChain :: "string \<Rightarrow> string" where
  "kubectlChain command = classifyOwnCLIChain shellWords kubectlOwner command (InferKubectlVerbType shellWords) [''kubectl'']"

theorem strongest_stage_wins_witness:
  "accounted shellWords (ownLead shellWords (InferKubectlVerbType shellWords) [''kubectl'']) ''kubectl delete pod x'' \<and>
   (\<exists>s\<in>set [''kubectl get pods'', ''kubectl delete pod x''].
     contributes shellWords (ownLead shellWords (InferKubectlVerbType shellWords) [''kubectl'']) s ''delete'')"
proof -
  let ?own = "ownLead shellWords (InferKubectlVerbType shellWords) [''kubectl'']"
  have "classifyShellCompound shellWords kubectlOwner ?own ''kubectl get pods; kubectl delete pod x'' = Some (''delete'', True)"
    and stages: "stagesOf ''kubectl get pods; kubectl delete pod x'' = [''kubectl get pods'', ''kubectl delete pod x'']" by code_simp+
  note wins = strongest_stage_wins [OF this(1), unfolded stages]
  have "accounted shellWords ?own ''kubectl delete pod x''" using wins by simp
  moreover have "\<exists>s\<in>set [''kubectl get pods'', ''kubectl delete pod x'']. contributes shellWords ?own s ''delete''"
    using wins [THEN conjunct2, THEN conjunct2] by simp
  ultimately show ?thesis by (rule conjI)
qed

text \<open>A stage of a chain as it was written: its first word is an executable of the tool and the command from it on is a read,
or it is a filter.\<close>

definition readingStage :: "(string \<Rightarrow> string list option) \<Rightarrow> (string \<Rightarrow> string) \<Rightarrow> string list \<Rightarrow> string \<Rightarrow> bool" where
  "readingStage shlex_Split static executables stage0 \<longleftrightarrow>
     (\<exists>first words. shlex_Split (stripShellRedirections (TrimSpace stage0)) = Some (first # words) \<and>
        (let cleaned = Join (map reQuoteShellToken (first # words)) '' ''
         in if first \<in> set executables then static cleaned = ''read'' else isReadOnlyChainFilter shlex_Split first cleaned))"

text \<open>A text no command of which can be named, whose words only set variables.\<close>

definition passedOver :: "(string \<Rightarrow> string list option) \<Rightarrow> string \<Rightarrow> bool" where
  "passedOver shlex_Split stage0 \<longleftrightarrow>
     TrimSpace stage0 = '''' \<or>
     ((irreducible (stripShellRedirections (TrimSpace stage0)) \<or> stripShellRedirections (TrimSpace stage0) = '''') \<and>
      onlyAssigns shlex_Split stage0)"

definition plainWord :: "string \<Rightarrow> bool" where
  "plainWord w \<longleftrightarrow> w \<noteq> '''' \<and> \<not> isEnvAssignment w \<and> w \<notin> {''sudo'', ''env'', ''sh'', ''bash'', ''zsh''}"

lemma stripShellRedirections_trimmed: "TrimSpace s = s \<Longrightarrow> TrimSpace (stripShellRedirections s) = stripShellRedirections s"
proof (induction s rule: stripShellRedirections.induct)
  case (1 input)
  show ?case
  proof (cases "lastOperator unquoted 0 None input")
    case None
    then show ?thesis using "1.prems" by (simp add: stripShellRedirections.simps)
  next
    case (Some i)
    show ?thesis
    proof (cases "shellRedirectionEndsStage input i")
      case True
      have "TrimSpace (TrimSpace (take (beforeOperator input i) input)) = TrimSpace (take (beforeOperator input i) input)"
        by (simp add: TrimSpace_def trimBy_idem)
      from "1.IH" [OF Some _ this] True Some show ?thesis by (simp add: stripShellRedirections.simps [of input])
    next
      case False
      then show ?thesis using Some "1.prems" by (simp add: stripShellRedirections.simps [of input])
    qed
  qed
qed

lemma filter_plain: "isReadOnlyChainFilter shlex_Split lead cleaned \<Longrightarrow> plainWord lead"
proof -
  assume "isReadOnlyChainFilter shlex_Split lead cleaned"
  then have "lead \<in> set [''grep'', ''egrep'', ''fgrep'', ''head'', ''tail'', ''wc'', ''cut'', ''tr'', ''true'', ''false'', ''base64'', ''uniq'', ''sort'']"
    by (auto simp: isReadOnlyChainFilter_def split: option.splits list.splits if_splits)
  moreover have "list_all plainWord [''grep'', ''egrep'', ''fgrep'', ''head'', ''tail'', ''wc'', ''cut'', ''tr'', ''true'', ''false'', ''base64'', ''uniq'', ''sort'']"
    by code_simp
  ultimately show ?thesis unfolding list_all_iff by blast
qed

lemma stage_reads:
  assumes acc: "accounted shlex_Split (ownLead shlex_Split static executables) s"
    and reads: "\<forall>u. contributes shlex_Split (ownLead shlex_Split static executables) s u \<longrightarrow> u \<in> requestTypes \<and> requestRank u \<le> 1"
    and starts: "stageStartsWith shlex_Split executables s" and plain: "\<forall>x\<in>set executables. plainWord x"
  shows "readingStage shlex_Split static executables s \<or> passedOver shlex_Split s"
proof (cases "TrimSpace s = ''''")
  case True
  then show ?thesis by (simp add: passedOver_def)
next
  case nonempty: False
  let ?text = "stripShellRedirections (TrimSpace s)"
  obtain first words where w: "shlex_Split ?text = Some (first # words)" "plainWord first"
    using starts nonempty plain filter_plain unfolding stageStartsWith_def Let_def
    by (auto split: option.splits list.splits)
  have trimmed: "TrimSpace ?text = ?text" by (rule stripShellRedirections_trimmed) (simp add: TrimSpace_def trimBy_idem)
  show ?thesis
  proof (cases "irreducible ?text")
    case True
    then have "leadOf shlex_Split s = ('''', '''')" by (simp add: leadOf_def extractLeadingShellCommand_def trimmed)
    then have "onlyAssigns shlex_Split s" using acc nonempty by (simp add: accounted_def)
    then show ?thesis using True by (simp add: passedOver_def)
  next
    case False
    have words: "leadingWords (first # words) = first # words" using w(2) by (simp add: plainWord_def)
    show ?thesis
    proof (cases "?text = ''''")
      case True
      then have "leadOf shlex_Split s = ('''', '''')" by (simp add: leadOf_def extractLeadingShellCommand_def TrimSpace_def trimBy_def)
      then have "onlyAssigns shlex_Split s" using acc nonempty by (simp add: accounted_def)
      then show ?thesis using True by (simp add: passedOver_def)
    next
      case some_text: False
      let ?cleaned = "Join (map reQuoteShellToken (first # words)) '' ''"
      have lead: "leadOf shlex_Split s = (first, ?cleaned)"
        using False some_text w(1) words by (simp add: leadOf_def extractLeadingShellCommand_def trimmed)
      then obtain t where t: "ownLead shlex_Split static executables first ?cleaned = Some (t, True)" "t \<in> requestTypes"
        using acc nonempty w(2) by (auto simp: accounted_def plainWord_def ownLead_def split: if_splits)
      then have "requestRank t \<le> 1" using reads nonempty lead w(2) by (auto simp: contributes_def plainWord_def)
      then have "t = ''read''" using t(2) by (auto simp: requestTypes_def requestRank_def split: if_splits)
      then have "readingStage shlex_Split static executables s"
        using t(1) w(1) unfolding readingStage_def Let_def ownLead_def by (intro exI [of _ first] exI [of _ words]) (auto split: if_splits)
      then show ?thesis by blast
    qed
  qed
qed

text \<open>Why a chain is a read.\<close>

lemma chain_reads:
  assumes "classifyOwnCLIChain shlex_Split owners command static executables = ''read''" "\<forall>x\<in>set executables. plainWord x"
  shows "let run = stripShellComments command in
    redirectsNoFile run \<and>
    ((\<not> hasUnquotedShellSyntax run \<and> static (TrimSpace run) = ''read'') \<or>
     (\<forall>s\<in>set (stagesOf run). readingStage shlex_Split static executables s \<or> passedOver shlex_Split s))"
proof -
  let ?run = "stripShellComments command" and ?own = "ownLead shlex_Split static executables"
  have noFile: "\<not> hasFileRedirection ?run" using assms(1) by (auto simp: classifyOwnCLIChain_def Let_def)
  note nowhere = redirectsNoFile [OF noFile]
  show ?thesis
  proof (cases "hasUnquotedShellSyntax ?run")
    case False
    then show ?thesis using assms(1) noFile nowhere by (simp add: classifyOwnCLIChain_def Let_def)
  next
    case True
    then have starts: "list_all (stageStartsWith shlex_Split executables) (stagesOf ?run)"
      and whole: "classifyShellCompound shlex_Split owners ?own ?run = Some (''read'', True)"
      using assms(1) noFile by (auto simp: classifyOwnCLIChain_def Let_def everyStageStartsWith_def split: if_splits option.splits prod.splits bool.splits)
    note sound = compound_sound [OF whole [unfolded classifyShellCompound_def]]
    have "readingStage shlex_Split static executables s \<or> passedOver shlex_Split s" if "s \<in> set (stagesOf ?run)" for s
    proof (rule stage_reads [OF _ _ _ assms(2)])
      show "accounted shlex_Split ?own s" using sound that by blast
      show "stageStartsWith shlex_Split executables s" using starts that by (simp add: list_all_iff)
      show "\<forall>u. contributes shlex_Split ?own s u \<longrightarrow> u \<in> requestTypes \<and> requestRank u \<le> 1"
        using sound that by (auto simp: requestRank_def)
    qed
    then show ?thesis using nowhere by (simp add: Let_def)
  qed
qed

text \<open>
  C30: a chain passes as a read for its reasons. If a chain of a tool's commands, whose executables are plain words, is classified as a read, then, in the text without the
  comments: every redirection sign outside quotes is an output sign before \<open>/dev/null\<close> or before an ampersand and a digit (whatever follows the digit), so nothing is read from a
  file. And either the text is a single command, with its quotes closed and none of the characters the shell acts on, that the tool classifies as a
  read; or every stage it is cut into is one of these: it begins, as it is written, with an executable of the tool and is classified as a
  read from there on; it begins with a filter; or it is passed over, being empty or a text from which no command can be read and whose words only set variables.
\<close>

theorem chain_reads_justified:
  assumes "classifyOwnCLIChain shlex_Split owners command static executables = ''read''" "\<forall>x\<in>set executables. plainWord x"
  shows "let run = stripShellComments command in
    (\<forall>pre c post. run = pre @ c # post \<and> quoteState pre = (False, False, False) \<and> c \<in> {CHR ''<'', CHR ''>''} \<longrightarrow>
       c = CHR ''>'' \<and> (toNoFile post \<or> (\<exists>more. post = CHR ''>'' # more \<and> toNoFile more))) \<and>
    ((quoteState run = (False, False, False) \<and> \<not> (\<exists>pre c post. run = pre @ c # post \<and> acts pre c post) \<and>
        static (TrimSpace run) = ''read'') \<or>
     (\<forall>s\<in>set (stagesOf run). readingStage shlex_Split static executables s \<or> passedOver shlex_Split s))"
  using chain_reads [OF assms] unfolding Let_def redirectsNoFile_def [symmetric] hasUnquotedShellSyntax_iff by blast

theorem chain_reads_justified_witness:
  "readingStage shellWords (InferKubectlVerbType shellWords) [''kubectl''] ''head -n 5''"
proof -
  let ?chain = "''kubectl get pods | head -n 5 # newest''"
  have read: "classifyOwnCLIChain shellWords kubectlOwner ?chain (InferKubectlVerbType shellWords) [''kubectl''] = ''read''"
    by code_simp
  have plain: "\<forall>x\<in>set [''kubectl'']. plainWord x" by code_simp
  have "''head -n 5'' \<in> set (stagesOf (stripShellComments ?chain))" by code_simp
  moreover have "hasUnquotedShellSyntax (stripShellComments ?chain)" by code_simp
  ultimately have run: "''head -n 5'' \<in> set (stagesOf (stripShellComments ?chain))"
    "\<not> (quoteState (stripShellComments ?chain) = (False, False, False) \<and>
       \<not> (\<exists>pre c post. stripShellComments ?chain = pre @ c # post \<and> acts pre c post) \<and> static (TrimSpace (stripShellComments ?chain)) = ''read'')"
    for static unfolding hasUnquotedShellSyntax_iff by blast+
  have "\<not> irreducible (stripShellRedirections (TrimSpace ''head -n 5''))" "stripShellRedirections (TrimSpace ''head -n 5'') \<noteq> ''''"
    "TrimSpace ''head -n 5'' \<noteq> ''''" by code_simp+
  then have "\<not> passedOver shellWords ''head -n 5''" by (simp only: passedOver_def simp_thms not_False_eq_True)
  then show ?thesis
    using chain_reads_justified [OF read plain] run unfolding Let_def by blast
qed

text \<open>Where the gate reads a chain otherwise than the shell, a command slips through: a substitution in the arguments of a filter; a pipe after an
escaped pipe; a word with an escaped operator before a number sign, taken for a comment; output into a file whose name begins with a
digit; an abbreviated option of \<open>sort\<close>.\<close>

lemma substitution_in_filter: "kubectlChain ''kubectl get pods | grep $(rm -rf /data)'' = ''read''"
  by code_simp

lemma escaped_pipe_not_cut:
  "kubectlChain (''kubectl get pods | grep x'' @ [CHR 0x5C] @ ''|| sh'') = ''read''"
  by code_simp

lemma escaped_operator_hides_command:
  "kubectlChain (''kubectl get pods a'' @ [CHR 0x5C] @ '';#; kubectl delete pod x'') = ''read''"
  by code_simp

lemma digit_file_written: "kubectlChain ''kubectl get pods | grep x >&1out'' = ''read''"
  by code_simp

lemma abbreviated_option_writes: "kubectlChain ''kubectl get pods | sort --outp=/tmp/x'' = ''read''"
  by code_simp

text \<open>The shell tool runs such a command without asking, too.\<close>

lemma shell_tool_misses_command:
  "let c = ''echo a'' @ [CHR 0x5C] @ '';#; kubectl delete pod x'';
       classifierOf = [''kubectl_execute'' \<mapsto> (\<lambda>s. Some (InferKubectlVerbType shellWords s))]
   in Shell_InferToolRequestType shellWords kubectlOwner classifierOf Some c = Some '''' \<and>
      \<not> needsWholeShellPrompt shellWords kubectlOwner (stripShellComments c)"
  by code_simp

end
