(* ===== verification/CliClassifiers.thy ===== *)
theory CliClassifiers
  imports ShellChain
begin

text \<open>
  The static classification of single commands of other command-line tools
  (\<open>llm/llm-server/tools/tool_cli_static_classifier.go\<close>): \<open>helm\<close>, \<open>gh\<close>, \<open>glab\<close>, \<open>argocd\<close>, \<open>redis-cli\<close> and the management
  command of RabbitMQ, and the \<open>gh\<close> tool, which falls back to the classification of chains.

  A Go set of words is a list. Splitting into words and decoding JSON are arguments. Commands are ASCII.
\<close>

section \<open>Words of one command\<close>

definition staticCLIArgs ::
  "(string \<Rightarrow> string list option) \<Rightarrow> (string \<Rightarrow> string option) \<Rightarrow> string \<Rightarrow> bool \<Rightarrow> string list \<Rightarrow> string list option" where
  "staticCLIArgs shlex_Split decodeCommand input allowBare executables =
     (let command = TrimSpace (extractCommandFromToolInput decodeCommand input)
      in if command = '''' \<or> hasUnquotedShellSyntax command then None
         else
           case shlex_Split command of
             None \<Rightarrow> None
           | Some [] \<Rightarrow> None
           | Some (prog # args) \<Rightarrow>
               let matched = list_ex (EqualFold (Base prog)) executables;
                   tokens = (if matched then args else prog # args)
               in if (\<not> matched \<and> \<not> allowBare) \<or> tokens = [] then None else Some tokens)"

definition expandEscapedNewlines :: "string \<Rightarrow> string" where
  "expandEscapedNewlines command = ReplaceAll command [CHR 0x5C, CHR ''n''] [CHR 0x0A]"

definition isHelpOrVersionCommand :: "string list \<Rightarrow> bool" where
  "isHelpOrVersionCommand tokens =
     (case tokens of
        [] \<Rightarrow> False
      | t # ts \<Rightarrow> ToLower t \<in> {''help'', ''version''} \<or> (ts = [] \<and> ToLower t \<in> {''-v'', ''--version''}))"

definition helpOrVersion :: "string list \<Rightarrow> bool" where
  "helpOrVersion tokens \<longleftrightarrow> tokens \<noteq> [] \<and> (isHelpRequest tokens \<or> isHelpOrVersionCommand tokens)"

text \<open>The actions a tool knows, by the kind of their effect.\<close>

record actions =
  reads :: "string list"
  creates :: "string list"
  updates :: "string list"
  deletes :: "string list"

definition classifyAction :: "string \<Rightarrow> actions \<Rightarrow> string" where
  "classifyAction action a =
     (let w = ToLower action
      in if w \<in> set (reads a) then ''read''
         else if w \<in> set (creates a) then ''create''
         else if w \<in> set (updates a) then ''update''
         else if w \<in> set (deletes a) then ''delete''
         else '''')"

definition helmActions :: actions where
  "helmActions = \<lparr>reads = [''env'', ''get'', ''history'', ''inspect'', ''lint'', ''list'', ''ls'', ''search'', ''show'', ''status'', ''template'', ''verify''],
     creates = [''install''], updates = [''rollback'', ''upgrade''], deletes = [''uninstall'']\<rparr>"

definition helmRepo :: actions where
  "helmRepo = \<lparr>reads = [''list''], creates = [''add''], updates = [''update''], deletes = [''remove'']\<rparr>"

definition githubActions :: actions where
  "githubActions = \<lparr>reads = [''checks'', ''clone'', ''diff'', ''download'', ''list'', ''status'', ''view''], creates = [''create'', ''fork''],
     updates = [''cancel'', ''close'', ''comment'', ''disable'', ''edit'', ''enable'', ''merge'', ''reopen'', ''rerun'', ''run'', ''set''],
     deletes = [''delete'']\<rparr>"

definition gitlabActions :: actions where
  "gitlabActions = \<lparr>reads = [''clone'', ''list'', ''status'', ''trace'', ''view''], creates = [''create'', ''fork''],
     updates = [''cancel'', ''close'', ''merge'', ''note'', ''reopen'', ''retry'', ''run'', ''set'', ''update''], deletes = [''delete'']\<rparr>"

definition argoActions :: actions where
  "argoActions = \<lparr>reads = [''diff'', ''get'', ''history'', ''list''], creates = [''add'', ''create''],
     updates = [''patch'', ''rollback'', ''set'', ''sync'', ''unset''], deletes = [''delete'', ''rm'', ''terminate-op'']\<rparr>"

definition redisActions :: actions where
  "redisActions = \<lparr>reads = [''command'', ''dbsize'', ''exists'', ''get'', ''hget'', ''hgetall'', ''hlen'', ''hmget'', ''info'', ''llen'', ''lrange'',
       ''mget'', ''ping'', ''pttl'', ''scan'', ''scard'', ''sismember'', ''smembers'', ''ttl'', ''type'', ''zrange'', ''zscore''],
     creates = [''hset'', ''lpush'', ''mset'', ''rpush'', ''sadd'', ''set'', ''setnx''],
     updates = [''append'', ''decr'', ''decrby'', ''expire'', ''incr'', ''incrby'', ''lset'', ''persist'', ''pexpire'', ''rename'', ''trim'', ''zadd''],
     deletes = [''del'', ''flushall'', ''flushdb'', ''hdel'', ''lpop'', ''rpop'', ''srem'', ''unlink'', ''zrem'']\<rparr>"

definition rabbitActions :: actions where
  "rabbitActions = \<lparr>reads = [''get'', ''list'', ''overview'', ''show''], creates = [''declare'', ''publish''],
     updates = [''purge'', ''set_permission''], deletes = [''close_connection'', ''delete'']\<rparr>"

section \<open>The tools\<close>

definition inferHelmRequestType :: "(string \<Rightarrow> string list option) \<Rightarrow> (string \<Rightarrow> string option) \<Rightarrow> string \<Rightarrow> string" where
  "inferHelmRequestType shlex_Split decodeCommand input =
     (case staticCLIArgs shlex_Split decodeCommand input False [''helm''] of
        None \<Rightarrow> ''''
      | Some tokens \<Rightarrow>
          if helpOrVersion tokens then ''read''
          else if EqualFold (hd tokens) ''repo'' then (if length tokens < 2 then '''' else classifyAction (tokens ! 1) helmRepo)
          else classifyAction (hd tokens) helmActions)"

definition classifyHTTPMethod :: "string \<Rightarrow> string" where
  "classifyHTTPMethod method0 =
     (let m = ToUpper method0
      in if m \<in> {''GET'', ''HEAD'', ''OPTIONS''} then ''read''
         else if m = ''POST'' then ''create''
         else if m \<in> {''PUT'', ''PATCH''} then ''update''
         else if m = ''DELETE'' then ''delete''
         else '''')"

text \<open>The loop over the words of \<open>gh api\<close>: \<open>None\<close> when a method option has no value.\<close>

function apiMethod :: "string \<Rightarrow> bool \<Rightarrow> string list \<Rightarrow> string option" where
  "apiMethod m explicit [] = Some m"
| "apiMethod m explicit (token # tokens) =
     (case Cut token ''='' of (key, v, hasValue) \<Rightarrow>
        if ToLower key \<in> {''-x'', ''--method''} then
          (if hasValue then (if v = '''' then None else apiMethod (ToUpper v) True tokens)
           else case tokens of [] \<Rightarrow> None | w # rest \<Rightarrow> apiMethod (ToUpper w) True rest)
        else if ToLower key \<in> {''-f'', ''--field'', ''--raw-field'', ''--form'', ''--input''} then
          apiMethod (if explicit then m else ''POST'') explicit tokens
        else apiMethod m explicit tokens)"
  by pat_completeness auto
termination
  by (relation "measure (\<lambda>(m, e, ts). length ts)") auto

declare apiMethod.simps(2) [simp del]

definition inferAPIRequestType :: "string list \<Rightarrow> string" where
  "inferAPIRequestType tokens =
     (if tokens = [] then ''''
      else case apiMethod ''GET'' False tokens of None \<Rightarrow> '''' | Some m \<Rightarrow> classifyHTTPMethod m)"

definition inferNestedCLIRequestType ::
  "(string \<Rightarrow> string list option) \<Rightarrow> (string \<Rightarrow> string option) \<Rightarrow> string \<Rightarrow> string \<Rightarrow> actions \<Rightarrow> string" where
  "inferNestedCLIRequestType shlex_Split decodeCommand input executable a =
     (case staticCLIArgs shlex_Split decodeCommand input False [executable] of
        None \<Rightarrow> ''''
      | Some tokens \<Rightarrow>
          if helpOrVersion tokens then ''read''
          else if length tokens < 2 \<or> HasPrefix (hd tokens) ''-'' then ''''
          else if EqualFold (hd tokens) ''api'' then inferAPIRequestType (tl tokens)
          else classifyAction (tokens ! 1) a)"

definition githubSearchTypes :: "string list" where
  "githubSearchTypes = [''code'', ''commits'', ''issues'', ''prs'', ''repos'']"

definition inferGithubRequestType :: "(string \<Rightarrow> string list option) \<Rightarrow> (string \<Rightarrow> string option) \<Rightarrow> string \<Rightarrow> string" where
  "inferGithubRequestType shlex_Split decodeCommand command =
     (case staticCLIArgs shlex_Split decodeCommand command False [''gh''] of
        Some tokens \<Rightarrow>
          if length tokens \<ge> 2 \<and> EqualFold (hd tokens) ''search'' then
            (if ToLower (tokens ! 1) \<in> set githubSearchTypes then ''read'' else '''')
          else inferNestedCLIRequestType shlex_Split decodeCommand command ''gh'' githubActions
      | None \<Rightarrow> inferNestedCLIRequestType shlex_Split decodeCommand command ''gh'' githubActions)"

definition Github_InferToolRequestType ::
  "(string \<Rightarrow> string list option) \<Rightarrow> registry \<Rightarrow> (string \<Rightarrow> string option) \<Rightarrow> string \<Rightarrow> string" where
  "Github_InferToolRequestType shlex_Split owners decodeCommand input =
     (let command = expandEscapedNewlines (extractCommandFromToolInput decodeCommand input);
          requestType = inferGithubRequestType shlex_Split decodeCommand command
      in if requestType = '''' then classifyOwnCLIChain shlex_Split owners command (inferGithubRequestType shlex_Split decodeCommand) [''gh'']
         else requestType)"

definition redisCommandAsRun :: "string \<Rightarrow> string" where
  "redisCommandAsRun command0 =
     (let command = TrimSpace command0
      in if Fields command \<noteq> [] \<and> hd (Fields command) = ''redis-cli'' then command else ''redis-cli '' @ command)"

definition inferRedisRequestType :: "(string \<Rightarrow> string list option) \<Rightarrow> (string \<Rightarrow> string option) \<Rightarrow> string \<Rightarrow> string" where
  "inferRedisRequestType shlex_Split decodeCommand input =
     (case staticCLIArgs shlex_Split decodeCommand (redisCommandAsRun (extractCommandFromToolInput decodeCommand input)) False [''redis-cli''] of
        None \<Rightarrow> ''''
      | Some tokens \<Rightarrow>
          if HasPrefix (hd tokens) ''-'' then
            (if EqualFold (hd tokens) ''--help'' \<or> EqualFold (hd tokens) ''--version'' then ''read'' else '''')
          else if isHelpOrVersionCommand tokens then ''read''
          else classifyAction (hd tokens) redisActions)"

text \<open>The loop over the settings of a \<open>get\<close>.\<close>

function rabbitGetDropsMessages :: "string list \<Rightarrow> bool" where
  "rabbitGetDropsMessages [] = False"
| "rabbitGetDropsMessages (arg # args) =
     (case Cut (ToLower arg) ''='' of (key0, v0, hasValue) \<Rightarrow>
        let key = dropWhile (\<lambda>c. c = CHR ''-'') key0;
            consumes = (\<not> hasValue \<and> HasPrefix arg ''--'' \<and> args \<noteq> [] \<and> \<not> HasPrefix (hd args) ''-'' \<and> \<not> Contains (hd args) ''='');
            v = (if consumes then ToLower (hd args) else v0)
        in if key \<in> {''ackmode'', ''ack-mode'', ''ack_mode''} \<and> v \<notin> {''ack_requeue_true'', ''reject_requeue_true''} then True
           else if key = ''requeue'' \<and> v \<noteq> ''true'' then True
           else rabbitGetDropsMessages (if consumes then tl args else args))"
  by pat_completeness auto
termination
  by (relation "measure length") auto

text \<open>\<open>decodeRabbit\<close> reads the fields \<open>command\<close> and \<open>args\<close> of a JSON object.\<close>

definition extractRabbitCommand :: "(string \<Rightarrow> string option) \<Rightarrow> (string \<Rightarrow> (string \<times> string) option) \<Rightarrow> string \<Rightarrow> string" where
  "extractRabbitCommand decodeCommand decodeRabbit input =
     (case decodeRabbit input of
        None \<Rightarrow> extractCommandFromToolInput decodeCommand input
      | Some (command, args0) \<Rightarrow>
          if args0 = '''' then extractCommandFromToolInput decodeCommand input
          else
            let args = TrimSpace args0
            in if args = ''rabbitmq-api'' \<or> HasPrefix args ''rabbitmq-api '' then args
               else TrimSpace ((if command = '''' then ''rabbitmqadmin'' else command) @ '' '' @ args))"

definition inferRabbitRequestType ::
  "(string \<Rightarrow> string list option) \<Rightarrow> (string \<Rightarrow> string option) \<Rightarrow> (string \<Rightarrow> (string \<times> string) option) \<Rightarrow> string \<Rightarrow> string" where
  "inferRabbitRequestType shlex_Split decodeCommand decodeRabbit input =
     (let command = extractRabbitCommand decodeCommand decodeRabbit input
      in case staticCLIArgs shlex_Split decodeCommand command False [''rabbitmqadmin'', ''rabbitmq-api'', ''rabbitmq''] of
           None \<Rightarrow> ''''
         | Some tokens \<Rightarrow>
             if isHelpOrVersionCommand tokens then ''read''
             else if HasPrefix (hd tokens) ''-'' then ''''
             else if (case shlex_Split command of Some (w # _) \<Rightarrow> EqualFold (Base w) ''rabbitmq-api'' | _ \<Rightarrow> False) then
               (let requestType = classifyHTTPMethod (hd tokens)
                in if requestType = ''read'' \<and> length tokens \<noteq> 2 then ''update'' else requestType)
             else
               let requestType = classifyAction (hd tokens) rabbitActions
               in if requestType = ''read'' \<and> EqualFold (hd tokens) ''get'' \<and> rabbitGetDropsMessages (tl tokens) then ''update''
                  else requestType)"

section \<open>Properties\<close>

text \<open>The method of a request as its words give it: the values of the method options, and whether the request carries data.\<close>

inductive apiWords :: "string list \<Rightarrow> string list \<Rightarrow> bool list \<Rightarrow> bool" where
  Done: "apiWords [] [] []"
| Assigned: "Cut t ''='' = (k, v, True) \<Longrightarrow> ToLower k \<in> {''-x'', ''--method''} \<Longrightarrow> v \<noteq> '''' \<Longrightarrow> apiWords ts ms ds \<Longrightarrow>
     apiWords (t # ts) (ToUpper v # ms) (False # ds)"
| Separate: "Cut t ''='' = (k, v, False) \<Longrightarrow> ToLower k \<in> {''-x'', ''--method''} \<Longrightarrow> apiWords ts ms ds \<Longrightarrow>
     apiWords (t # w # ts) (ToUpper w # ms) (False # ds)"
| Data: "Cut t ''='' = (k, v, b) \<Longrightarrow> ToLower k \<in> {''-f'', ''--field'', ''--raw-field'', ''--form'', ''--input''} \<Longrightarrow> apiWords ts ms ds \<Longrightarrow>
     apiWords (t # ts) ms (True # ds)"
| Other: "Cut t ''='' = (k, v, b) \<Longrightarrow> ToLower k \<notin> {''-x'', ''--method'', ''-f'', ''--field'', ''--raw-field'', ''--form'', ''--input''} \<Longrightarrow>
     apiWords ts ms ds \<Longrightarrow> apiWords (t # ts) ms (False # ds)"

text \<open>The last method given counts, otherwise data make the request a \<open>POST\<close>.\<close>

definition requestMethod :: "string \<Rightarrow> string list \<Rightarrow> bool list \<Rightarrow> string" where
  "requestMethod otherwise ms ds = (if ms \<noteq> [] then last ms else if True \<in> set ds then ''POST'' else otherwise)"

lemma apiMethod_explicit:
  "apiWords ts ms ds \<Longrightarrow> apiMethod m True ts = Some (if ms = [] then m else last ms)"
  by (induction ts ms ds arbitrary: m rule: apiWords.induct) (auto simp: apiMethod.simps(2))

lemma apiMethod_words:
  "apiWords ts ms ds \<Longrightarrow> apiMethod m False ts = Some (requestMethod m ms ds)"
  by (induction ts ms ds arbitrary: m rule: apiWords.induct)
    (auto simp: apiMethod.simps(2) requestMethod_def apiMethod_explicit)

lemma apiMethod_Some: "apiMethod m e ts = Some r \<Longrightarrow> \<exists>ms ds. apiWords ts ms ds"
proof (induction m e ts rule: apiMethod.induct)
  case (2 m e t ts)
  obtain k v b where cut: "Cut t ''='' = (k, v, b)" by (cases "Cut t ''=''")
  consider (verb) "ToLower k \<in> {''-x'', ''--method''}" | (data) "ToLower k \<in> {''-f'', ''--field'', ''--raw-field'', ''--form'', ''--input''}"
    | (other) "ToLower k \<notin> {''-x'', ''--method'', ''-f'', ''--field'', ''--raw-field'', ''--form'', ''--input''}" by blast
  then show ?case
  proof cases
    case verb
    show ?thesis
    proof (cases b)
      case True
      then have "v \<noteq> ''''" "apiMethod (ToUpper v) True ts = Some r" using "2.prems" cut verb by (auto simp: apiMethod.simps(2) split: if_splits)
      moreover from this obtain ms ds where "apiWords ts ms ds" using "2.IH"(1) [OF cut [symmetric] refl] verb True by auto
      moreover have "Cut t ''='' = (k, v, True)" using cut True by simp
      ultimately show ?thesis using apiWords.Assigned verb by blast
    next
      case False
      then obtain w rest where ts: "ts = w # rest" "apiMethod (ToUpper w) True rest = Some r"
        using "2.prems" cut verb by (auto simp: apiMethod.simps(2) split: list.splits)
      then obtain ms ds where "apiWords rest ms ds" using "2.IH"(2) [OF cut [symmetric] refl] verb False by auto
      moreover have "Cut t ''='' = (k, v, False)" using cut False by simp
      ultimately show ?thesis using apiWords.Separate verb ts(1) by blast
    qed
  next
    case data
    then have no: "ToLower k \<notin> {''-x'', ''--method''}" by auto
    then have "apiMethod (if e then m else ''POST'') e ts = Some r" using "2.prems" cut data by (simp add: apiMethod.simps(2))
    then obtain ms ds where "apiWords ts ms ds" using "2.IH"(3) [OF cut [symmetric] refl] no data by auto
    then show ?thesis using apiWords.Data cut data by blast
  next
    case other
    then have "apiMethod m e ts = Some r" using "2.prems" cut by (simp add: apiMethod.simps(2))
    then obtain ms ds where "apiWords ts ms ds" using "2.IH"(4) [OF cut [symmetric] refl] other by auto
    then show ?thesis using apiWords.Other cut other by blast
  qed
qed (auto intro: apiWords.Done)

text \<open>A request to the API passes as a read exactly if the method its words give only reads.\<close>

theorem api_reads_exact:
  "inferAPIRequestType tokens = ''read'' \<longleftrightarrow>
     tokens \<noteq> [] \<and> (\<exists>ms ds. apiWords tokens ms ds \<and> ToUpper (requestMethod ''GET'' ms ds) \<in> {''GET'', ''HEAD'', ''OPTIONS''})"
proof -
  have http: "classifyHTTPMethod m = ''read'' \<longleftrightarrow> ToUpper m \<in> {''GET'', ''HEAD'', ''OPTIONS''}" for m
    by (auto simp: classifyHTTPMethod_def Let_def)
  show ?thesis
  proof (cases "apiMethod ''GET'' False tokens")
    case None
    then have "\<not> apiWords tokens ms ds" for ms ds using apiMethod_words [of tokens ms ds "''GET''"] by auto
    then show ?thesis using None by (simp add: inferAPIRequestType_def)
  next
    case (Some m)
    then obtain ms ds where w: "apiWords tokens ms ds" using apiMethod_Some by blast
    have same: "requestMethod ''GET'' ms' ds' = m" if "apiWords tokens ms' ds'" for ms' ds'
      using apiMethod_words [OF that, of "''GET''"] Some by simp
    show ?thesis
    proof (cases "tokens = []")
      case False
      then have "inferAPIRequestType tokens = classifyHTTPMethod m" using Some by (simp add: inferAPIRequestType_def)
      moreover have "(\<exists>ms ds. apiWords tokens ms ds \<and> ToUpper (requestMethod ''GET'' ms ds) \<in> {''GET'', ''HEAD'', ''OPTIONS''}) \<longleftrightarrow>
          ToUpper m \<in> {''GET'', ''HEAD'', ''OPTIONS''}"
        using w by (metis same)
      ultimately show ?thesis using False by (simp only: http simp_thms not_False_eq_True)
    qed (simp add: inferAPIRequestType_def)
  qed
qed

text \<open>Reading commands of \<open>gh\<close>, and why the tool takes a command for one.\<close>

definition githubReads :: "string list \<Rightarrow> bool" where
  "githubReads tokens \<longleftrightarrow>
     (length tokens \<ge> 2 \<and> EqualFold (hd tokens) ''search'' \<and> ToLower (tokens ! 1) \<in> set githubSearchTypes) \<or>
     helpOrVersion tokens \<or>
     (length tokens \<ge> 2 \<and> EqualFold (hd tokens) ''api'' \<and> inferAPIRequestType (tl tokens) = ''read'') \<or>
     (length tokens \<ge> 2 \<and> ToLower (tokens ! 1) \<in> set (reads githubActions))"

lemma single_github_reads:
  assumes "inferGithubRequestType shlex_Split decodeCommand command = ''read''"
  shows "\<exists>tokens. staticCLIArgs shlex_Split decodeCommand command False [''gh''] = Some tokens \<and> githubReads tokens"
  using assms
  by (auto simp: inferGithubRequestType_def inferNestedCLIRequestType_def githubReads_def classifyAction_def Let_def
      split: option.splits if_splits)

theorem github_reads_justified:
  assumes "Github_InferToolRequestType shlex_Split owners decodeCommand input = ''read''"
  shows "let command = expandEscapedNewlines (extractCommandFromToolInput decodeCommand input); run = stripShellComments command;
      static = inferGithubRequestType shlex_Split decodeCommand in
    (\<exists>tokens. staticCLIArgs shlex_Split decodeCommand command False [''gh''] = Some tokens \<and> githubReads tokens) \<or>
    (redirectsNoFile run \<and>
     ((\<not> hasUnquotedShellSyntax run \<and> static (TrimSpace run) = ''read'') \<or>
      (\<forall>s\<in>set (stagesOf run). readingStage shlex_Split static [''gh''] s \<or> passedOver shlex_Split s)))"
proof -
  have plain: "\<forall>x\<in>set [''gh'']. plainWord x" by code_simp
  show ?thesis
    using assms single_github_reads chain_reads [OF _ plain]
    unfolding Github_InferToolRequestType_def Let_def by (auto split: if_splits)
qed

text \<open>Commands that change something and pass as reads: a method attached to its option; a \<open>clone\<close> that copies labels into a
repository; a program run on the rendered manifests.\<close>

lemma attached_method_reads:
  "inferGithubRequestType shellWords Some ''gh api -XDELETE repos/o/r'' = ''read''"
  by code_simp

lemma label_clone_reads:
  "inferGithubRequestType shellWords Some ''gh label clone o/other --repo o/r'' = ''read''"
  by code_simp

lemma post_renderer_reads:
  "inferHelmRequestType shellWords Some ''helm template a ./chart --post-renderer ./run.sh'' = ''read''"
  by code_simp

end
