(* ===== verification/IncidentTiers.thy ===== *)
theory IncidentTiers
  imports GoAny GoStrings GoNumbers
begin

text \<open>
  The story of an incident for the viewer of one alert (\<open>api-server/services/triage/incident_tiers.go\<close>): which lane each
  alert of the window belongs to, and which unrelated ones fired close to it; and the node axis of
  grouping (\<open>incident_group_node.go\<close>): which alerts say that a node ran out of memory and which of them are pooled.

  A Go map is an association list in the order of its iteration, with distinct keys. Seconds are far from
  overflowing. Decoding the JSON text of an evidence card is an argument. Text is ASCII.
\<close>

section \<open>Identities\<close>

record AlertIdentity =
  ai_ID :: string
  ai_SubjectType :: string
  ai_SubjectName :: string
  ai_SubjectNamespace :: string
  ai_SubjectOwner :: string
  ai_Series :: "string list"
  ai_AggregationKey :: string
  ai_TsOffsetS :: int
  ai_IsConfigChange :: bool
  ai_FindingType :: string
  ai_NodeMemory :: string

definition TierCore :: string where "TierCore = ''core''"
definition TierCause :: string where "TierCause = ''cause''"
definition TierImpact :: string where "TierImpact = ''impact''"
definition TierChronic :: string where "TierChronic = ''chronic''"
definition TierSameNode :: string where "TierSameNode = ''same_node''"

lemmas tier_defs = TierCore_def TierCause_def TierImpact_def TierChronic_def TierSameNode_def

definition CauseLeadInSeconds :: int where "CauseLeadInSeconds = -2 * 60 * 60"
definition CauseLagGraceSeconds :: int where "CauseLagGraceSeconds = 5 * 60"
definition chronicExpectedMin :: rat where "chronicExpectedMin = 1"
definition chronicBurstFactor :: rat where "chronicBurstFactor = 3"
definition NodeMemoryWindowSeconds :: int where "NodeMemoryWindowSeconds = 15 * 60"

text \<open>\<open>podTemplateHashSuffix\<close>: a hyphen and six to ten characters of the alphabet of Kubernetes hashes, at the end. A
hyphen is not in the alphabet, so only the last one can begin a match.\<close>

definition hashAlphabet :: string where "hashAlphabet = ''bcdfghjklmnpqrstvwxz0123456789''"

definition stripHash :: "string \<Rightarrow> string" where
  "stripHash s =
     (let suffix = rev (takeWhile (\<lambda>c. c \<noteq> CHR ''-'') (rev s));
          n = length suffix
      in if CHR ''-'' \<in> set s \<and> 6 \<le> n \<and> n \<le> 10 \<and> set suffix \<subseteq> set hashAlphabet then take (length s - n - 1) s else s)"

definition WorkloadName :: "string \<Rightarrow> string" where
  "WorkloadName name = stripHash (ToLower (TrimSpace name))"

definition SubjectKeyOf :: "AlertIdentity \<Rightarrow> string" where
  "SubjectKeyOf a =
     (let ns = ToLower (TrimSpace (ai_SubjectNamespace a))
      in if EqualFold (ai_SubjectType a) ''database'' \<and> ai_Series a \<noteq> [] then
           ''db|'' @ ns @ ''|'' @ Join (sort (map (\<lambda>v. ToLower (TrimSpace v)) (ai_Series a))) '',''
         else
           let owner = WorkloadName (ai_SubjectOwner a);
               subj = (if owner = '''' then WorkloadName (ai_SubjectName a) else owner)
           in ns @ ''|'' @ subj)"

definition isDerivedSignal :: "AlertIdentity \<Rightarrow> bool" where
  "isDerivedSignal a \<longleftrightarrow> ToLower (ai_FindingType a) \<in> {''slo'', ''anomaly''}"

record Rate =
  r_Expected :: rat
  r_Observed :: rat

definition IsChronic :: "Rate \<Rightarrow> bool" where
  "IsChronic r \<longleftrightarrow> r_Expected r \<ge> chronicExpectedMin \<and> r_Observed r \<le> f64 (chronicBurstFactor * r_Expected r)"

definition rateKey :: "AlertIdentity \<Rightarrow> string" where
  "rateKey a = SubjectKeyOf a @ ''|'' @ ai_AggregationKey a"

definition rateOf :: "(string \<rightharpoonup> Rate) \<Rightarrow> AlertIdentity \<Rightarrow> Rate" where
  "rateOf rates a = (case rates (rateKey a) of None \<Rightarrow> \<lparr>r_Expected = 0, r_Observed = 0\<rparr> | Some r \<Rightarrow> r)"

definition foldIfChronic :: "string \<Rightarrow> bool \<Rightarrow> string" where
  "foldIfChronic tier chronic = (if chronic then TierChronic else tier)"

section \<open>Lanes\<close>

type_synonym topology = "(string \<times> string list) list"

definition callees :: "topology \<Rightarrow> string \<Rightarrow> string list" where
  "callees dependsOn k = (case map_of dependsOn k of None \<Rightarrow> [] | Some ups \<Rightarrow> ups)"

text \<open>What \<open>reverseDependents\<close> holds under a key.\<close>

definition reverseDependents :: "topology \<Rightarrow> string \<Rightarrow> string list" where
  "reverseDependents dependsOn k = concat (map (\<lambda>(svc, ups). map (\<lambda>_. svc) (filter (\<lambda>u. u = k) ups)) dependsOn)"

text \<open>The body of the loop: the lane of one candidate, \<open>None\<close> when it is left out.\<close>

definition tierOf :: "AlertIdentity \<Rightarrow> topology \<Rightarrow> (string \<rightharpoonup> Rate) \<Rightarrow> AlertIdentity \<Rightarrow> string option" where
  "tierOf seed dependsOn rates e =
     (let sk = SubjectKeyOf seed;
          upstream = callees dependsOn sk;
          downstream = reverseDependents dependsOn sk;
          ek = SubjectKeyOf e;
          ts = ai_TsOffsetS e
      in if ai_IsConfigChange e then
           (if (ek = sk \<or> ek \<in> set upstream) \<and> ts \<le> 0 \<and> ts \<ge> CauseLeadInSeconds then Some TierCause else None)
         else if ek = sk then Some TierCore
         else if ai_NodeMemory seed \<noteq> '''' \<and> ai_NodeMemory e = ai_NodeMemory seed \<and> \<bar>ts\<bar> \<le> NodeMemoryWindowSeconds then Some TierSameNode
         else
           let chronic = IsChronic (rateOf rates e)
           in if isDerivedSignal e then None
              else if ek \<in> set upstream \<and> ts \<le> (if ek \<in> set downstream then 0 else CauseLagGraceSeconds)
              then Some (foldIfChronic TierCause chronic)
              else if ek \<in> set downstream \<and> ts \<ge> 0 then Some (foldIfChronic TierImpact chronic)
              else None)"

definition AssembleTiers :: "AlertIdentity \<Rightarrow> AlertIdentity list \<Rightarrow> topology \<Rightarrow> (string \<rightharpoonup> Rate) \<Rightarrow> (string \<rightharpoonup> string)" where
  "AssembleTiers seed candidates dependsOn rates =
     foldl (\<lambda>out e. case tierOf seed dependsOn rates e of None \<Rightarrow> out | Some t \<Rightarrow> out(ai_ID e \<mapsto> t)) Map.empty candidates"

definition CoFiringWindowSeconds :: int where "CoFiringWindowSeconds = 30 * 60"
definition MaxCoFiring :: nat where "MaxCoFiring = 10"

definition nearer :: "AlertIdentity \<Rightarrow> AlertIdentity \<Rightarrow> bool" where
  "nearer a b \<longleftrightarrow> \<bar>ai_TsOffsetS a\<bar> < \<bar>ai_TsOffsetS b\<bar>"

definition coFires :: "AlertIdentity \<Rightarrow> (string \<rightharpoonup> string) \<Rightarrow> (string \<rightharpoonup> Rate) \<Rightarrow> AlertIdentity \<Rightarrow> bool" where
  "coFires seed tiers rates e \<longleftrightarrow>
     tiers (ai_ID e) = None \<and> SubjectKeyOf e \<noteq> SubjectKeyOf seed \<and> \<not> isDerivedSignal e \<and>
     \<not> (ai_TsOffsetS e > CoFiringWindowSeconds \<or> ai_TsOffsetS e < - CoFiringWindowSeconds) \<and>
     \<not> (ai_IsConfigChange e \<and> ai_TsOffsetS e > 0) \<and> \<not> IsChronic (rateOf rates e)"

definition CoFiring ::
  "AlertIdentity \<Rightarrow> AlertIdentity list \<Rightarrow> (string \<rightharpoonup> string) \<Rightarrow> (string \<rightharpoonup> Rate) \<Rightarrow> AlertIdentity list" where
  "CoFiring seed candidates tiers rates = SliceStable nearer (filter (coFires seed tiers rates) candidates)"

definition RelationSeedCalls :: string where "RelationSeedCalls = ''seed_calls''"
definition RelationCallsSeed :: string where "RelationCallsSeed = ''calls_seed''"
definition RelationMutual :: string where "RelationMutual = ''mutual''"

lemmas relation_defs = RelationSeedCalls_def RelationCallsSeed_def RelationMutual_def

definition RelationTo :: "AlertIdentity \<Rightarrow> AlertIdentity \<Rightarrow> topology \<Rightarrow> string" where
  "RelationTo seed cand dependsOn =
     (let sk = SubjectKeyOf seed;
          ck = SubjectKeyOf cand;
          seedCalls = (ck \<in> set (callees dependsOn sk));
          callsSeed = (sk \<in> set (callees dependsOn ck))
      in if seedCalls \<and> callsSeed then RelationMutual
         else if seedCalls then RelationSeedCalls
         else if callsSeed then RelationCallsSeed
         else '''')"

section \<open>Memory failures of a node\<close>

text \<open>The argument is the value of the switch in the environment.\<close>

definition nodeGroupingEnabled :: "string \<Rightarrow> bool" where
  "nodeGroupingEnabled env = (let v = TrimSpace env in \<not> EqualFold v ''false'' \<and> v \<noteq> ''0'')"

definition NodeMemoryAggregationKeys :: "string list" where
  "NodeMemoryAggregationKeys = [''pod_oom_killer_enricher'', ''node_pressure'']"

record nodeFailure =
  nf_AggregationKey :: string
  nf_SubjectType :: string
  nf_SubjectName :: string
  nf_SubjectNode :: string
  nf_Evidences :: "ModelsJson option"

definition oomKillAggregationKey :: string where "oomKillAggregationKey = ''pod_oom_killer_enricher''"
definition nodePressureAggregationKey :: string where "nodePressureAggregationKey = ''node_pressure''"
definition oomCauseNodeMemory :: string where "oomCauseNodeMemory = ''node_memory''"

definition evidenceCards :: "ModelsJson option \<Rightarrow> object list" where
  "evidenceCards ev =
     (case ev of
        None \<Rightarrow> []
      | Some j \<Rightarrow> if \<not> js_isArray j then [] else List.map_filter asObj (js_array j))"

text \<open>A type assertion that fails leaves the empty string or map.\<close>

definition strOr :: "object \<Rightarrow> string \<Rightarrow> string" where
  "strOr m k = (case getStr m k of None \<Rightarrow> '''' | Some s \<Rightarrow> s)"

definition objOr :: "object \<Rightarrow> string \<Rightarrow> object" where
  "objOr m k = (case getObj m k of None \<Rightarrow> [] | Some o' \<Rightarrow> o')"

text \<open>\<open>decodeCause\<close> reads \<open>data.oom_cause\<close> of the card's text, \<open>None\<close> when it does not decode.\<close>

definition oomCauseFromEvidence :: "(string \<Rightarrow> string option) \<Rightarrow> ModelsJson option \<Rightarrow> string" where
  "oomCauseFromEvidence decodeCause ev =
     foldl (\<lambda>cause card.
       if strOr card ''type'' \<noteq> ''json'' then cause
       else if strOr (objOr card ''additional_info'') ''action_name'' \<noteq> ''noisy_neighbours_enricher'' then cause
       else case decodeCause (strOr card ''data'') of None \<Rightarrow> cause | Some c \<Rightarrow> if c \<noteq> '''' then c else cause)
       '''' (evidenceCards ev)"

record nodeSnapshot =
  ns_Kind :: string
  ns_Conditions :: "(string \<times> string) list"

definition memoryPressureFromEvidence :: "(string \<Rightarrow> nodeSnapshot option) \<Rightarrow> ModelsJson option \<Rightarrow> bool" where
  "memoryPressureFromEvidence decodeSnapshot ev =
     list_ex (\<lambda>card.
       strOr card ''type'' = ''json'' \<and> Contains (strOr card ''data'') ''MemoryPressure'' \<and>
       (case decodeSnapshot (strOr card ''data'') of
          None \<Rightarrow> False
        | Some snap \<Rightarrow> EqualFold (ns_Kind snap) ''Node'' \<and>
            list_ex (\<lambda>(t, status). t = ''MemoryPressure'' \<and> EqualFold status ''True'') (ns_Conditions snap)))
       (evidenceCards ev)"

definition nodeMemoryFailure ::
  "(string \<Rightarrow> string option) \<Rightarrow> (string \<Rightarrow> nodeSnapshot option) \<Rightarrow> nodeFailure \<Rightarrow> string \<times> bool \<times> bool" where
  "nodeMemoryFailure decodeCause decodeSnapshot f =
     (if nf_AggregationKey f = oomKillAggregationKey then
        (let node = ToLower (TrimSpace (nf_SubjectNode f))
         in if node = '''' \<or> oomCauseFromEvidence decodeCause (nf_Evidences f) \<noteq> oomCauseNodeMemory then ('''', False, False)
            else (node, False, True))
      else if nf_AggregationKey f = nodePressureAggregationKey then
        (let node0 = TrimSpace (nf_SubjectNode f);
             node1 = (if node0 = '''' \<and> EqualFold (TrimSpace (nf_SubjectType f)) ''node'' then TrimSpace (nf_SubjectName f) else node0);
             node = ToLower node1
         in if node = '''' \<or> \<not> memoryPressureFromEvidence decodeSnapshot (nf_Evidences f) then ('''', False, False)
            else (node, True, True))
      else ('''', False, False))"

definition NodeMemoryNode ::
  "(string \<Rightarrow> string option) \<Rightarrow> (string \<Rightarrow> nodeSnapshot option) \<Rightarrow> nodeFailure \<Rightarrow> string" where
  "NodeMemoryNode decodeCause decodeSnapshot f = fst (nodeMemoryFailure decodeCause decodeSnapshot f)"

section \<open>Pooling\<close>

record nodeCandidate =
  nc_ID :: string
  nc_subjectKey :: string
  nc_isNode :: bool
  nc_leaderAllowed :: bool

definition incidentGroupSubjectCap :: nat where "incidentGroupSubjectCap = 20"

record pool =
  pl_members :: "nodeCandidate list"
  pl_subjects :: "string list"
  pl_nodeIDs :: "string list"
  pl_pods :: nat
  pl_capped :: bool

definition poolStep :: "string \<Rightarrow> pool \<Rightarrow> nodeCandidate \<Rightarrow> pool" where
  "poolStep seedKey p c =
     (if nc_subjectKey c = seedKey \<or> \<not> nc_leaderAllowed c then p
      else if nc_subjectKey c \<notin> set (pl_subjects p) \<and> length (pl_subjects p) \<ge> incidentGroupSubjectCap then p\<lparr>pl_capped := True\<rparr>
      else
        let p1 = (if nc_subjectKey c \<in> set (pl_subjects p) then p else p\<lparr>pl_subjects := pl_subjects p @ [nc_subjectKey c]\<rparr>);
            p2 = p1\<lparr>pl_members := pl_members p1 @ [c]\<rparr>
        in if nc_isNode c then p2\<lparr>pl_nodeIDs := pl_nodeIDs p2 @ [nc_ID c]\<rparr> else p2\<lparr>pl_pods := pl_pods p2 + 1\<rparr>)"

definition poolNodeMembers :: "string \<Rightarrow> bool \<Rightarrow> nodeCandidate list \<Rightarrow> nodeCandidate list \<times> (string \<rightharpoonup> nat) \<times> bool" where
  "poolNodeMembers seedKey seedIsNode cands =
     (let p = foldl (poolStep seedKey)
            \<lparr>pl_members = [], pl_subjects = [], pl_nodeIDs = [], pl_pods = (if seedIsNode then 0 else 1), pl_capped = False\<rparr> cands;
          dependedOnBy0 = foldl (\<lambda>m i. m(i \<mapsto> pl_pods p)) Map.empty (pl_nodeIDs p);
          dependedOnBy = (if seedIsNode \<and> pl_pods p > 0 then dependedOnBy0(seedKey \<mapsto> pl_pods p) else dependedOnBy0)
      in (pl_members p, dependedOnBy, pl_capped p))"

section \<open>What a lane says\<close>

lemma in_reverseDependents:
  assumes "distinct (map fst dependsOn)"
  shows "ck \<in> set (reverseDependents dependsOn sk) \<longleftrightarrow> sk \<in> set (callees dependsOn ck)"
proof -
  have "ck \<in> set (reverseDependents dependsOn sk) \<longleftrightarrow> (\<exists>ups. (ck, ups) \<in> set dependsOn \<and> sk \<in> set ups)"
    by (auto simp: reverseDependents_def)
  also have "\<dots> \<longleftrightarrow> sk \<in> set (callees dependsOn ck)"
    using assms by (auto simp: callees_def split: option.splits dest: map_of_SomeD simp: map_of_eq_None_iff)
  finally show ?thesis .
qed

lemma AssembleTiers_lookup:
  assumes "distinct (map ai_ID cands)" "e \<in> set cands"
  shows "AssembleTiers seed cands dependsOn rates (ai_ID e) = tierOf seed dependsOn rates e"
proof -
  let ?put = "\<lambda>out e. case tierOf seed dependsOn rates e of None \<Rightarrow> out | Some t \<Rightarrow> out(ai_ID e \<mapsto> t)"
  have other: "foldl ?put m xs k = m k" if "k \<notin> ai_ID ` set xs" for m xs k
    using that by (induction xs arbitrary: m) (auto split: option.splits)
  obtain us vs where c: "cands = us @ e # vs" using assms(2) by (meson split_list)
  have "ai_ID e \<notin> ai_ID ` set us" "ai_ID e \<notin> ai_ID ` set vs" using assms(1) unfolding c by auto
  then have "foldl ?put Map.empty cands (ai_ID e) = tierOf seed dependsOn rates e"
    unfolding c by (simp add: other split: option.splits)
  then show ?thesis by (simp add: AssembleTiers_def)
qed

lemmas tier_eq = tier_defs foldIfChronic_def

text \<open>The lanes as a table: each of them exactly when its condition holds.\<close>

lemma lane_table:
  assumes "t = (if config then (if (same \<or> calls) \<and> ts \<le> 0 \<and> ts \<ge> CauseLeadInSeconds then Some TierCause else None)
      else if same then Some TierCore
      else if near then Some TierSameNode
      else if derived then None
      else if calls \<and> ts \<le> (if called then 0 else CauseLagGraceSeconds) then Some (foldIfChronic TierCause quiet)
      else if called \<and> ts \<ge> 0 then Some (foldIfChronic TierImpact quiet)
      else None)"
    and "early = (calls \<and> ts \<le> (if called then 0 else 300))" "late = (called \<and> 0 \<le> ts \<and> \<not> (calls \<and> ts \<le> 0))"
  shows "(t = Some TierCore \<longleftrightarrow> \<not> config \<and> same)" "(t = Some TierSameNode \<longleftrightarrow> \<not> config \<and> \<not> same \<and> near)"
    "(t = Some TierCause \<longleftrightarrow> config \<and> (same \<or> calls) \<and> - 7200 \<le> ts \<and> ts \<le> 0 \<or>
       \<not> config \<and> \<not> same \<and> \<not> near \<and> \<not> derived \<and> \<not> quiet \<and> early)"
    "(t = Some TierImpact \<longleftrightarrow> \<not> config \<and> \<not> same \<and> \<not> near \<and> \<not> derived \<and> \<not> quiet \<and> late)"
    "(t = Some TierChronic \<longleftrightarrow> \<not> config \<and> \<not> same \<and> \<not> near \<and> \<not> derived \<and> quiet \<and> (early \<or> late))"
    "t \<in> {None, Some TierCore, Some TierSameNode, Some TierCause, Some TierImpact, Some TierChronic}"
  unfolding assms
  by (cases config; cases same; cases near; cases derived; cases quiet; cases calls; cases called;
      auto simp: tier_eq CauseLeadInSeconds_def CauseLagGraceSeconds_def)+

lemma tierOf_cascade:
  assumes "distinct (map fst dependsOn)"
  shows "tierOf seed dependsOn rates e =
    (let sk = SubjectKeyOf seed; ek = SubjectKeyOf e; ts = ai_TsOffsetS e; same = (ek = sk);
         calls = (ek \<in> set (callees dependsOn sk)); called = (sk \<in> set (callees dependsOn ek));
         near = (ai_NodeMemory seed \<noteq> '''' \<and> ai_NodeMemory e = ai_NodeMemory seed \<and> \<bar>ts\<bar> \<le> NodeMemoryWindowSeconds);
         quiet = IsChronic (rateOf rates e)
     in if ai_IsConfigChange e then (if (same \<or> calls) \<and> ts \<le> 0 \<and> ts \<ge> CauseLeadInSeconds then Some TierCause else None)
      else if same then Some TierCore
      else if near then Some TierSameNode
      else if isDerivedSignal e then None
      else if calls \<and> ts \<le> (if called then 0 else CauseLagGraceSeconds) then Some (foldIfChronic TierCause quiet)
      else if called \<and> ts \<ge> 0 then Some (foldIfChronic TierImpact quiet)
      else None)"
  unfolding tierOf_def Let_def in_reverseDependents [OF assms] by (rule refl)

interpretation nearness: strict_weak_order nearer
  by unfold_locales (auto simp: nearer_def)

lemma CoFiring_sorted: "sorted_wrt (\<lambda>a b. \<bar>ai_TsOffsetS a\<bar> \<le> \<bar>ai_TsOffsetS b\<bar>) (CoFiring seed cands tiers rates)"
  using nearness.SliceStable_sorted [of "filter (coFires seed tiers rates) cands"] by (simp add: CoFiring_def nearer_def not_less)

section \<open>What pooling keeps\<close>

text \<open>The distinct elements of a list in the order of their first occurrence.\<close>

definition firsts :: "'a list \<Rightarrow> 'a list" where
  "firsts xs = rev (remdups (rev xs))"

lemma firsts_snoc: "firsts (xs @ [x]) = (if x \<in> set xs then firsts xs else firsts xs @ [x])"
  by (simp add: firsts_def)

lemma set_firsts [simp]: "set (firsts xs) = set xs"
  by (simp add: firsts_def)

definition eligible :: "string \<Rightarrow> nodeCandidate \<Rightarrow> bool" where
  "eligible seedKey c \<longleftrightarrow> nc_subjectKey c \<noteq> seedKey \<and> nc_leaderAllowed c"

text \<open>The subjects of the pool: the first twenty among those of the eligible candidates.\<close>

definition pooledSubjects :: "string \<Rightarrow> nodeCandidate list \<Rightarrow> string list" where
  "pooledSubjects seedKey cands = take incidentGroupSubjectCap (firsts (map nc_subjectKey (filter (eligible seedKey) cands)))"

definition pooled :: "string \<Rightarrow> nodeCandidate list \<Rightarrow> nodeCandidate list" where
  "pooled seedKey cands = filter (\<lambda>c. eligible seedKey c \<and> nc_subjectKey c \<in> set (pooledSubjects seedKey cands)) cands"

lemma firsts_prefix: "\<exists>ys. firsts (xs @ zs) = firsts xs @ ys"
proof (induction zs rule: rev_induct)
  case (snoc z zs)
  then show ?case using firsts_snoc [of "xs @ zs" z] by auto
qed simp

lemma foldl_pool:
  fixes seedKey :: string
  defines "start \<equiv> \<lambda>n. \<lparr>pl_members = [], pl_subjects = [], pl_nodeIDs = [], pl_pods = n, pl_capped = False\<rparr>"
  defines "run_pool \<equiv> \<lambda>n cands. foldl (poolStep seedKey) (start n) cands"
  shows "pl_subjects (run_pool n cands) = pooledSubjects seedKey cands \<and>
    pl_members (run_pool n cands) = pooled seedKey cands \<and>
    pl_nodeIDs (run_pool n cands) = map nc_ID (filter nc_isNode (pooled seedKey cands)) \<and>
    pl_pods (run_pool n cands) = n + length (filter (\<lambda>c. \<not> nc_isNode c) (pooled seedKey cands)) \<and>
    (pl_capped (run_pool n cands) \<longleftrightarrow> incidentGroupSubjectCap < length (firsts (map nc_subjectKey (filter (eligible seedKey) cands))))"
proof (induction cands rule: rev_induct)
  case Nil
  show ?case by (simp add: run_pool_def start_def pooledSubjects_def pooled_def firsts_def)
next
  case (snoc c cs)
  let ?f = "firsts (map nc_subjectKey (filter (eligible seedKey) cs))" and ?k = "nc_subjectKey c"
  have run_step: "run_pool n (cs @ [c]) = poolStep seedKey (run_pool n cs) c" by (simp add: run_pool_def)
  show ?case
  proof (cases "eligible seedKey c")
    case False
    then have "run_pool n (cs @ [c]) = run_pool n cs" by (auto simp: run_step poolStep_def eligible_def)
    moreover have "pooledSubjects seedKey (cs @ [c]) = pooledSubjects seedKey cs" using False by (simp add: pooledSubjects_def)
    moreover have "pooled seedKey (cs @ [c]) = pooled seedKey cs" using False calculation(2) by (simp add: pooled_def)
    ultimately show ?thesis using snoc False by simp
  next
    case True
    have step: "poolStep seedKey p c =
      (if ?k \<notin> set (pl_subjects p) \<and> length (pl_subjects p) \<ge> incidentGroupSubjectCap then p\<lparr>pl_capped := True\<rparr>
      else
        let p1 = (if ?k \<in> set (pl_subjects p) then p else p\<lparr>pl_subjects := pl_subjects p @ [?k]\<rparr>);
            p2 = p1\<lparr>pl_members := pl_members p1 @ [c]\<rparr>
        in if nc_isNode c then p2\<lparr>pl_nodeIDs := pl_nodeIDs p2 @ [nc_ID c]\<rparr> else p2\<lparr>pl_pods := pl_pods p2 + 1\<rparr>)" for p
      using True by (simp add: poolStep_def eligible_def)
    have f: "firsts (map nc_subjectKey (filter (eligible seedKey) (cs @ [c]))) = (if ?k \<in> set ?f then ?f else ?f @ [?k])"
      using True by (simp add: firsts_snoc)
    have fs: "pooledSubjects seedKey (cs @ [c]) = take incidentGroupSubjectCap (if ?k \<in> set ?f then ?f else ?f @ [?k])"
      by (simp only: pooledSubjects_def f)
    have f0: "pooledSubjects seedKey cs = take incidentGroupSubjectCap ?f" by (simp only: pooledSubjects_def)
    have same_members: "filter (\<lambda>x. eligible seedKey x \<and> nc_subjectKey x \<in> set (take incidentGroupSubjectCap (?f @ [?k]))) cs = pooled seedKey cs"
      if "?k \<notin> set ?f" "length ?f < incidentGroupSubjectCap"
      unfolding pooled_def pooledSubjects_def using that by (intro filter_cong) auto
    consider (known) "?k \<in> set (take incidentGroupSubjectCap ?f)" | (full) "?k \<notin> set (take incidentGroupSubjectCap ?f)" "length ?f \<ge> incidentGroupSubjectCap"
      | (new) "?k \<notin> set ?f" "length ?f < incidentGroupSubjectCap"
      by (cases "length ?f < incidentGroupSubjectCap") auto
    then show ?thesis
    proof cases
      case known
      then have "?k \<in> set ?f" by (rule in_set_takeD)
      then have subj: "pooledSubjects seedKey (cs @ [c]) = pooledSubjects seedKey cs" by (simp only: fs f0 if_True)
      then have mem: "pooled seedKey (cs @ [c]) = pooled seedKey cs @ [c]" using known True by (simp add: pooled_def f0)
      have "?k \<in> set (pl_subjects (run_pool n cs))" using known snoc by (simp add: f0)
      then show ?thesis using snoc subj mem f \<open>?k \<in> set ?f\<close> by (simp add: run_step step Let_def)
    next
      case full
      have take_same: "take incidentGroupSubjectCap (?f @ [?k]) = take incidentGroupSubjectCap ?f" using full(2) by simp
      then have subj: "pooledSubjects seedKey (cs @ [c]) = pooledSubjects seedKey cs" by (simp only: fs f0 split: if_splits) simp
      then have mem: "pooled seedKey (cs @ [c]) = pooled seedKey cs" using full by (simp add: pooled_def f0)
      have "?k \<notin> set (pl_subjects (run_pool n cs)) \<and> length (pl_subjects (run_pool n cs)) \<ge> incidentGroupSubjectCap"
        using full snoc by (simp add: f0)
      then have "run_pool n (cs @ [c]) = (run_pool n cs)\<lparr>pl_capped := True\<rparr>" by (simp add: run_step step)
      moreover have "incidentGroupSubjectCap < length (firsts (map nc_subjectKey (filter (eligible seedKey) (cs @ [c]))))"
      proof (cases "?k \<in> set ?f")
        case True
        then have "take incidentGroupSubjectCap ?f \<noteq> ?f" using full(1) by metis
        then have "length ?f > incidentGroupSubjectCap" using full(2) by (metis le_neq_implies_less take_all order_refl)
        then show ?thesis using f by simp
      next
        case False
        then show ?thesis using f full(2) by simp
      qed
      ultimately show ?thesis using snoc subj mem by simp
    next
      case new
      have subj: "pooledSubjects seedKey (cs @ [c]) = pooledSubjects seedKey cs @ [?k]" using new by (simp add: fs f0)
      have "pooledSubjects seedKey (cs @ [c]) = take incidentGroupSubjectCap (?f @ [?k])" using new(1) by (simp only: fs if_False)
      then have mem: "pooled seedKey (cs @ [c]) = pooled seedKey cs @ [c]"
        using same_members [OF new] True new by (simp add: pooled_def [of _ "cs @ [c]"])
      have "?k \<notin> set (pl_subjects (run_pool n cs)) \<and> length (pl_subjects (run_pool n cs)) < incidentGroupSubjectCap"
        using new snoc by (simp add: f0)
      then show ?thesis using snoc subj mem f new by (simp add: run_step step Let_def)
    qed
  qed
qed

lemma calls_iff:
  "SubjectKeyOf e \<in> set (callees dependsOn (SubjectKeyOf seed)) \<and> SubjectKeyOf seed \<in> set (callees dependsOn (SubjectKeyOf e)) \<and>
     RelationTo seed e dependsOn = RelationMutual \<or>
   SubjectKeyOf e \<in> set (callees dependsOn (SubjectKeyOf seed)) \<and> SubjectKeyOf seed \<notin> set (callees dependsOn (SubjectKeyOf e)) \<and>
     RelationTo seed e dependsOn = RelationSeedCalls \<or>
   SubjectKeyOf e \<notin> set (callees dependsOn (SubjectKeyOf seed)) \<and> SubjectKeyOf seed \<in> set (callees dependsOn (SubjectKeyOf e)) \<and>
     RelationTo seed e dependsOn = RelationCallsSeed \<or>
   SubjectKeyOf e \<notin> set (callees dependsOn (SubjectKeyOf seed)) \<and> SubjectKeyOf seed \<notin> set (callees dependsOn (SubjectKeyOf e)) \<and>
     RelationTo seed e dependsOn = ''''"
  by (auto simp: RelationTo_def Let_def)

lemma tierOf_None_reason:
  assumes "distinct (map fst dependsOn)" "tierOf seed dependsOn rates e = None" "SubjectKeyOf e \<noteq> SubjectKeyOf seed"
    "\<not> ai_IsConfigChange e" "\<not> isDerivedSignal e"
  shows "RelationTo seed e dependsOn = '''' \<or> RelationTo seed e dependsOn = RelationSeedCalls \<and> 300 < ai_TsOffsetS e \<or>
      RelationTo seed e dependsOn = RelationCallsSeed \<and> ai_TsOffsetS e < 0"
  using assms(2-5) calls_iff [of e dependsOn seed]
  unfolding tierOf_def Let_def in_reverseDependents [OF assms(1)]
  by (auto simp: CauseLagGraceSeconds_def relation_defs split: if_splits)

lemma tierOf_unrelated:
  assumes "distinct (map fst dependsOn)" "RelationTo seed e dependsOn = ''''" "SubjectKeyOf e \<noteq> SubjectKeyOf seed"
    "tierOf seed dependsOn rates e \<noteq> Some TierSameNode"
  shows "tierOf seed dependsOn rates e = None"
  using assms(2-4) calls_iff [of e dependsOn seed]
  unfolding tierOf_def Let_def in_reverseDependents [OF assms(1)]
  by (auto simp: relation_defs split: if_splits)

section \<open>Properties\<close>


definition quietAlert :: AlertIdentity where
  "quietAlert = \<lparr>ai_ID = ''e1'', ai_SubjectType = ''pod'', ai_SubjectName = ''db-0'', ai_SubjectNamespace = ''Prod'',
     ai_SubjectOwner = ''db'', ai_Series = [], ai_AggregationKey = ''crash'', ai_TsOffsetS = 200, ai_IsConfigChange = False,
     ai_FindingType = ''issue'', ai_NodeMemory = ''''\<rparr>"

definition cartAlert :: AlertIdentity where
  "cartAlert = quietAlert\<lparr>ai_ID := ''s'', ai_SubjectName := ''cart-5cbd8ddb97'', ai_SubjectOwner := '''', ai_TsOffsetS := 0\<rparr>"

lemma example_keys:
  "SubjectKeyOf quietAlert = ''prod|db''" "SubjectKeyOf cartAlert = ''prod|cart''"
  by code_simp+


text \<open>
  C38: the co-firing list is what the lanes leave over. It is ordered by distance from the seed; every member is an alert of
  the window in no lane, on another subject, within thirty minutes, neither derived nor chronic, and a configuration
  change only if it came first; conversely an alert of that kind whose subject has no edge to the seed's is always
  listed, unless it is in the same-node lane. When a listed alert that is no configuration change does have an edge, its time is the reason it is in no lane: either
  the seed calls it and it began more than five minutes later, or it calls the seed and it began earlier; it is
  never an alert of a mutual pair.
\<close>

theorem co_firing_leftovers:
  assumes "distinct (map ai_ID cands)" "distinct (map fst dependsOn)"
  shows "let lane = AssembleTiers seed cands dependsOn rates; out = CoFiring seed cands lane rates in
    sorted_wrt (\<lambda>a b. \<bar>ai_TsOffsetS a\<bar> \<le> \<bar>ai_TsOffsetS b\<bar>) out \<and>
    (\<forall>e \<in> set out. e \<in> set cands \<and> lane (ai_ID e) = None \<and> SubjectKeyOf e \<noteq> SubjectKeyOf seed \<and> \<bar>ai_TsOffsetS e\<bar> \<le> 1800 \<and>
       \<not> isDerivedSignal e \<and> \<not> IsChronic (rateOf rates e) \<and> (ai_IsConfigChange e \<longrightarrow> ai_TsOffsetS e \<le> 0) \<and>
       (\<not> ai_IsConfigChange e \<longrightarrow> RelationTo seed e dependsOn = '''' \<or>
          RelationTo seed e dependsOn = RelationSeedCalls \<and> 300 < ai_TsOffsetS e \<or>
          RelationTo seed e dependsOn = RelationCallsSeed \<and> ai_TsOffsetS e < 0)) \<and>
    (\<forall>e \<in> set cands. RelationTo seed e dependsOn = '''' \<and> SubjectKeyOf e \<noteq> SubjectKeyOf seed \<and> lane (ai_ID e) \<noteq> Some TierSameNode \<and>
       \<bar>ai_TsOffsetS e\<bar> \<le> 1800 \<and> \<not> isDerivedSignal e \<and> \<not> IsChronic (rateOf rates e) \<and>
       (ai_IsConfigChange e \<longrightarrow> ai_TsOffsetS e \<le> 0) \<longrightarrow> e \<in> set out)"
proof -
  let ?lane = "AssembleTiers seed cands dependsOn rates"
  have member: "e \<in> set (CoFiring seed cands ?lane rates) \<longleftrightarrow> e \<in> set cands \<and> coFires seed ?lane rates e" for e
    by (simp add: CoFiring_def)
  have fires: "coFires seed ?lane rates e \<longleftrightarrow> ?lane (ai_ID e) = None \<and> SubjectKeyOf e \<noteq> SubjectKeyOf seed \<and> \<not> isDerivedSignal e \<and>
      \<bar>ai_TsOffsetS e\<bar> \<le> 1800 \<and> (ai_IsConfigChange e \<longrightarrow> ai_TsOffsetS e \<le> 0) \<and> \<not> IsChronic (rateOf rates e)" for e
    by (auto simp: coFires_def CoFiringWindowSeconds_def)
  have related: "RelationTo seed e dependsOn = '''' \<or> RelationTo seed e dependsOn = RelationSeedCalls \<and> 300 < ai_TsOffsetS e \<or>
      RelationTo seed e dependsOn = RelationCallsSeed \<and> ai_TsOffsetS e < 0"
    if "e \<in> set cands" "?lane (ai_ID e) = None" "SubjectKeyOf e \<noteq> SubjectKeyOf seed" "\<not> ai_IsConfigChange e" "\<not> isDerivedSignal e" for e
    using that(2-5) unfolding AssembleTiers_lookup [OF assms(1) that(1)]
    by (rule tierOf_None_reason [OF assms(2)])
  have unrelated: "?lane (ai_ID e) = None"
    if "e \<in> set cands" "RelationTo seed e dependsOn = ''''" "SubjectKeyOf e \<noteq> SubjectKeyOf seed" "?lane (ai_ID e) \<noteq> Some TierSameNode" for e
    using that(2-4) unfolding AssembleTiers_lookup [OF assms(1) that(1)]
    by (rule tierOf_unrelated [OF assms(2)])
  show ?thesis
    unfolding Let_def
  proof (intro conjI ballI impI)
    show "sorted_wrt (\<lambda>a b. \<bar>ai_TsOffsetS a\<bar> \<le> \<bar>ai_TsOffsetS b\<bar>) (CoFiring seed cands ?lane rates)" by (rule CoFiring_sorted)
  next
    fix e assume "e \<in> set cands" and "RelationTo seed e dependsOn = '''' \<and> SubjectKeyOf e \<noteq> SubjectKeyOf seed \<and> ?lane (ai_ID e) \<noteq> Some TierSameNode \<and>
       \<bar>ai_TsOffsetS e\<bar> \<le> 1800 \<and> \<not> isDerivedSignal e \<and> \<not> IsChronic (rateOf rates e) \<and> (ai_IsConfigChange e \<longrightarrow> ai_TsOffsetS e \<le> 0)"
    then show "e \<in> set (CoFiring seed cands ?lane rates)" using unrelated [of e] unfolding member fires by blast
  qed (use related in \<open>auto simp: member fires\<close>)
qed

definition deployAlert :: AlertIdentity where
  "deployAlert = quietAlert\<lparr>ai_ID := ''e2'', ai_SubjectOwner := ''billing'', ai_TsOffsetS := -60, ai_IsConfigChange := True,
     ai_FindingType := ''configuration_change''\<rparr>"

text \<open>An alert on a service the seed calls, ten minutes after the seed, is in no lane and is listed as firing alongside.\<close>

definition lateAlert :: AlertIdentity where
  "lateAlert = quietAlert\<lparr>ai_TsOffsetS := 600\<rparr>"

lemma linked_alert_co_fires:
  "CoFiring cartAlert [lateAlert] (AssembleTiers cartAlert [lateAlert] [(''prod|cart'', [''prod|db''])] Map.empty) Map.empty = [lateAlert] \<and>
   RelationTo cartAlert lateAlert [(''prod|cart'', [''prod|db''])] = RelationSeedCalls"
  by code_simp

theorem co_firing_leftovers_witness:
  "deployAlert \<in> set (CoFiring cartAlert [lateAlert, deployAlert]
     (AssembleTiers cartAlert [lateAlert, deployAlert] [(''prod|cart'', [''prod|db''])] Map.empty) Map.empty)"
proof -
  let ?cands = "[lateAlert, deployAlert]" and ?map = "[(''prod|cart'', [''prod|db''])]"
  have ids: "distinct (map ai_ID ?cands)" by (simp add: lateAlert_def deployAlert_def quietAlert_def)
  have "RelationTo cartAlert deployAlert ?map = '''' \<and> SubjectKeyOf deployAlert \<noteq> SubjectKeyOf cartAlert \<and>
     AssembleTiers cartAlert ?cands ?map Map.empty (ai_ID deployAlert) \<noteq> Some TierSameNode \<and>
     \<bar>ai_TsOffsetS deployAlert\<bar> \<le> 1800 \<and> \<not> isDerivedSignal deployAlert \<and> \<not> IsChronic (rateOf Map.empty deployAlert) \<and>
     (ai_IsConfigChange deployAlert \<longrightarrow> ai_TsOffsetS deployAlert \<le> 0)"
    by code_simp
  then show ?thesis
    using co_firing_leftovers [of ?cands ?map cartAlert Map.empty] ids by (simp add: Let_def)
qed

lemma foldl_put_all: "foldl (\<lambda>m i. m(i \<mapsto> n)) m0 ids k = (if k \<in> set ids then Some n else m0 k)"
  by (induction ids arbitrary: m0) auto

text \<open>
  C29: pooling on a node, as one pass computes it, is the two-step selection it stands for. A candidate is eligible when it is not on the
  seed's own subject and its group, if it has one, may be led from here. The members are the eligible candidates on
  the first twenty distinct eligible subjects, in their order; the result is marked as capped exactly when there are more
  than twenty such subjects. Each node-level member, and the seed when it is the node and some pod depends on it, is scored with the
  number of pod members, the seed included when it is a pod; nothing else has a score.
\<close>

theorem pool_exact:
  "let (members, dependedOnBy, capped) = poolNodeMembers seedKey seedIsNode cands;
       subjects = firsts (map nc_subjectKey (filter (eligible seedKey) cands));
       pods = (if seedIsNode then 0 else 1) + length (filter (\<lambda>c. \<not> nc_isNode c) members) in
   members = filter (\<lambda>c. eligible seedKey c \<and> nc_subjectKey c \<in> set (take incidentGroupSubjectCap subjects)) cands \<and>
   capped = (20 < length subjects) \<and>
   (\<forall>k. dependedOnBy k =
      (if (\<exists>c \<in> set members. nc_isNode c \<and> nc_ID c = k) \<or> seedIsNode \<and> k = seedKey \<and> pods > 0 then Some pods else None))"
proof -
  define n :: nat where "n = (if seedIsNode then 0 else 1)"
  note pool = foldl_pool [of seedKey n cands]
  have nodes: "k \<in> set (map nc_ID (filter nc_isNode xs)) \<longleftrightarrow> (\<exists>c \<in> set xs. nc_isNode c \<and> nc_ID c = k)" for k xs by auto
  show ?thesis
    unfolding poolNodeMembers_def Let_def case_prod_conv n_def [symmetric]
    using pool
    apply (simp add: foldl_put_all pooled_def pooledSubjects_def incidentGroupSubjectCap_def)
    by fastforce
qed

end
