(* ===== verification/Spec2Isabelle.thy ===== *)
theory Spec2Isabelle
  imports GatewayHandlers GatewayFailover IncidentGroup TriageScoring WorkflowInline WorkflowCodec RegionBackoff CircuitBreakers PiiScrub PiiAudit ThresholdBaseline CliClassifiers IncidentTiers
begin

text \<open>
  Verification of the core decision logic of NudgeBee.

  NudgeBee watches clusters and clouds. Its Go services are the API server, which ingests and triages events,
  the runbook server, which runs workflows, the LLM server and its gateway, through which all requests
  to language models pass, and the collectors. The development models the parts in which a service decides something;
  each is translated from the source and mapped to it in the manifest. What a part calls and the repository does
  not hold (databases, HTTP clients, the template engine, the regular expressions of detectors, decoders, clocks) is an argument.

  Shared theories.

  \<^item> \<open>Prelude\<close>: type synonyms, the collections \<open>go_simps\<close> and \<open>map_simps\<close>, general lemmas, and stable sorting and
    the search for a best element over a comparison: locale \<open>strict_weak_order\<close>, extended by \<open>strict_linear_order\<close>.
  \<^item> \<open>GoStrings\<close>, \<open>GoNumbers\<close>, \<open>GoTime\<close>, \<open>GoAny\<close>, \<open>GoRegexp\<close>: what the sources use of Go's library. Integers are
    wrapped at 64 bits where they can overflow; a \<open>float64\<close> is a rational number rounded to 53 bits after each
    operation, with the monotonicity of that rounding.

  LLM gateway (\<open>llm/gateway\<close>).

  \<^item> \<open>Routing\<close> (\<open>routing/\<close>): rules, engine, tiers, validation and the reloaded store. The engine computes the policy
    stated without its sorted tables; locale \<open>resolver\<close> is what a request may rely on, interpreted on the
    engine and on both stores.
  \<^item> \<open>RateLimit\<close> (\<open>ratelimit/\<close>): buckets, the counter store, the limiter. Locale \<open>counter_store\<close> holds the
    promises of a store, interpreted on the in-memory one; the quotas are proved from them.
  \<^item> \<open>EgressFilter\<close> (\<open>security/egressfilter/\<close>): scanning and redaction, equal to a reference that blanks every
    covered position. \<open>EdgeErr\<close> (\<open>edgeerr/\<close>): error bodies.
  \<^item> \<open>GatewayProxy\<close> (\<open>proxy/pipeline.go\<close>, \<open>stages.go\<close>, \<open>handler.go\<close>) composes the three into the control pipeline: each stage is
    a \<open>control_stage\<close>, and so is the pipeline. \<open>GatewayHandlers\<close> (\<open>auth/\<close>, \<open>proxy/handler.go\<close>,
    \<open>generic.go\<close>, \<open>embeddings.go\<close>) puts authentication and the three handlers around it: locale \<open>edge_handler\<close>.
    \<open>GatewayFailover\<close> (\<open>proxy/failover.go\<close>): fallbacks of unary calls.

  Triage (\<open>api-server/services/triage\<close>).

  \<^item> \<open>IncidentGroup\<close> (\<open>incident_group_decide.go\<close>): joining, taking over and electing the head of an incident.
  \<^item> \<open>TriageRules\<close> (\<open>rules.go\<close>, \<open>mute.go\<close>): the rule cache and the evaluation of rules. \<open>TriageScoring\<close>
    (\<open>scoring.go\<close>, \<open>llm_scoring.go\<close>, \<open>human_override.go\<close> and others): the formula, the policy over a model verdict
    and human overrides, composed as an event is processed.
  \<^item> \<open>ThresholdStats\<close>, \<open>ThresholdGuardrails\<close>, \<open>ThresholdBaseline\<close> (\<open>threshold_suggestion.go\<close>,
    \<open>threshold_suggestion_guardrails.go\<close>, \<open>threshold_suggestion_baseline.go\<close>): statistics of a metric, the gates on a suggested
    threshold (locale \<open>gate\<close>, one interpretation per gate and one for their composition), the split of the
    history at the firings, the diagnosis, and the decision that puts them together.

  \<^item> \<open>IncidentTiers\<close> (\<open>incident_tiers.go\<close>, part of \<open>incident_group_node.go\<close>): the lanes of the story of an incident, the alerts
    that fired close to it (sorted by an order interpreted as a \<open>strict_weak_order\<close>), and which memory failures of a node are pooled.

  Workflows (\<open>runbook-server/internal/workflow\<close>).

  \<^item> \<open>WorkflowDag\<close> (\<open>dag_validation.go\<close>), \<open>WorkflowSwitch\<close> (\<open>switch_routing.go\<close>, \<open>switch_task.go\<close>), \<open>WorkflowSecrets\<close>
    (\<open>state_validation.go\<close>), \<open>WorkflowRedaction\<close> (\<open>redaction.go\<close>, part of \<open>templating.go\<close>), \<open>WorkflowCodec\<close> (\<open>codec.go\<close>,
    \<open>encryption_codec.go\<close>), \<open>WorkflowMatrix\<close> (part of \<open>templating.go\<close>).
  \<^item> \<open>WorkflowExecutor\<close> (\<open>executor.go\<close>): the task loop as a transition system (\<open>taskStep\<close>, \<open>signalStep\<close> and \<open>background\<close>, in
    which any future may settle and the iterations of a loop pass a channel of tokens). \<open>WorkflowRuns\<close>: its invariants by
    rule induction over \<open>reachableRun\<close>, progress, and the end of plain runs once signals stop. \<open>WorkflowInline\<close> (\<open>definition_lint.go\<close> and the sub-executions): which lists of
    tasks start.

  Others.

  \<^item> \<open>RegionBackoff\<close> (\<open>collector-server/cloud-collector/providers/aws/region_skip.go\<close>): a step relation over the outcomes of calls.
  \<^item> \<open>CircuitBreakers\<close> (\<open>llm/llm-server/agents/core\<close> and \<open>tools/core\<close>): the breaker of a model and of a tool, both
    interpretations of \<open>slot_memory\<close>.
  \<^item> \<open>PiiScrub\<close> and \<open>PiiAudit\<close> (\<open>llm/llm-server/security/egressfilter\<close>): the in-process scrubber of personal
    data with the round trip of its mapping, and what its audit event counts and hides.
  \<^item> \<open>RemoteCommands\<close> (\<open>llm/llm-server/tools\<close>): which remote and which kubectl commands run without asking, against a
    grammar of observing commands (\<open>observes\<close>). \<open>ShellChain\<close> (\<open>tool_shell_gate.go\<close>) cuts chains into stages and combines their
    classifications, for the tools and for the shell tool; \<open>CliClassifiers\<close> (\<open>tool_cli_static_classifier.go\<close>) adds \<open>helm\<close>, \<open>gh\<close>
    and others. Their last lemmas are commands that the gate misreads.

  Names follow the source; a definition that stands for a part of a function is named after what it
  does, and the manifest gives its lines. Errors are the left values of sums, or constructors named
  after the message, whose text is left out. The order of iteration over a Go map, and the order an
  unstable sort leaves open, is an argument, so that the properties hold for every order.

  Fuel. The depth-first search of \<open>WorkflowDag\<close> carries one unit per name in the graph and the marking loop of \<open>WorkflowSecrets\<close> one
  more than there are keys; both are proved to be enough. All other loops are recursions with termination proofs. The executor's
  loop may wait for ever; it is a relation, and that a plain run with finitely many signals ends is a theorem.

  Properties. The gateway lets a request through only along the routing policy, within quota and with secrets
  removed; an event's priority respects rules, tiers and humans; a threshold is advised only with evidence and
  through the guardrails; an accepted workflow starts tasks in order, ends when its signals do, keeps no credential in its state and shows
  none in the parameters it records; breakers and backoffs open exactly on the history that justifies it; scrubbed texts can be restored and
  their audit does not disclose them; a remote command that runs without asking observes, and a
  chain that does consists of reading stages; an alert is shown in a lane exactly if its relation and its time justify it. Where a
  guarantee depends on a condition (a router that records the model asked for, closed quotes, unambiguous identifiers) the text names it. Each stands behind a text that states it, followed by a theorem that applies it.
  Other theorems (the routing policy of tenants, precedence of corrections, rejections of the limiter, the breaker of
  tools and of models, loops, matrices and the \<open>gh\<close> tool among them) are stated beside them.

  Not modelled. Query metadata (tables), traces and the knowledge graph (SQL and graph storage), the event and workflow services
  (database statements, Temporal calls), the template engine and its filters, planner and conversations of the LLM server
  (prompts, whose outcome is the model's answer), streaming, capture and metering of the gateway, cloud
  providers, and in the modelled packages the loading and storing of rows, logging and message texts:
  their behaviour is that of systems outside the repository.
\<close>

end
